(* ===== verification/Upcn_Prelude.thy ===== *)
theory Upcn_Prelude
  imports Main "HOL-Library.Word"
begin

text \<open>
  Shared vocabulary of the development: the fixed-width integer types of the C code, the faults a
  C execution can run into (a failed \<open>ASSERT\<close>, an access outside of an object, the use of a null
  or dangling pointer, a loop or recursion that does not end, a shift by the width of the number or
  more), the error monad over them, the flag test \<open>HAS_FLAG\<close> of \<open>include/upcn/common.h\<close>, and generic
  lemmas on lists and words used by the components.
\<close>

unbundle bit_operations_syntax

section \<open>Integer types and collections of facts\<close>

type_synonym u8 = "8 word"
type_synonym u16 = "16 word"
type_synonym u32 = "32 word"
type_synonym u64 = "64 word"
type_synonym bytes = "u8 list"

named_theorems outcome_simps \<open>rewrite rules of the error monad\<close>
named_theorems mask_simps \<open>masks and flags of the C code as bounds\<close>

section \<open>Faults and the error monad\<close>

datatype c_fault = Assert_Failed | Out_Of_Bounds | Null_Deref | Use_After_Free | No_Return | Undefined_Shift

type_synonym 'a outcome = "c_fault + 'a"

definition obind :: "'a outcome \<Rightarrow> ('a \<Rightarrow> 'b outcome) \<Rightarrow> 'b outcome" where
  "obind r f = (case r of Inl e \<Rightarrow> Inl e | Inr x \<Rightarrow> f x)"

definition c_assert :: "bool \<Rightarrow> 'a outcome \<Rightarrow> 'a outcome" where
  "c_assert b r = (if b then r else Inl Assert_Failed)"

lemma obind_Inl [simp, outcome_simps]: "obind (Inl e) f = Inl e"
  by (simp add: obind_def)

lemma obind_Inr [simp, outcome_simps]: "obind (Inr x) f = f x"
  by (simp add: obind_def)

lemma obind_eq_Inr: "obind r f = Inr y \<longleftrightarrow> (\<exists>x. r = Inr x \<and> f x = Inr y)"
  by (cases r) auto

lemma obind_cong:
  "r = r' \<Longrightarrow> (\<And>x. r' = Inr x \<Longrightarrow> f x = g x) \<Longrightarrow> obind r f = obind r' g"
  by (cases r') auto

lemma c_assert_True [simp, outcome_simps]: "c_assert True r = r"
  by (simp add: c_assert_def)

lemma c_assert_eq_Inr: "c_assert b r = Inr y \<longleftrightarrow> b \<and> r = Inr y"
  by (simp add: c_assert_def)

section \<open>Flags\<close>

definition HAS_FLAG :: "'a::len word \<Rightarrow> 'a word \<Rightarrow> bool" where
  "HAS_FLAG value flag \<longleftrightarrow> value AND flag \<noteq> 0"

lemma HAS_FLAG_or: "HAS_FLAG (a OR b) f \<longleftrightarrow> HAS_FLAG a f \<or> HAS_FLAG b f"
  by (auto simp: HAS_FLAG_def bit_eq_iff bit_simps)

lemma HAS_FLAG_self: "f \<noteq> 0 \<Longrightarrow> HAS_FLAG (a OR f) f"
  by (auto simp: HAS_FLAG_def bit_eq_iff bit_simps)

lemma HAS_FLAG_clear [simp]: "\<not> HAS_FLAG (a AND NOT f) f"
  by (auto simp: HAS_FLAG_def bit_eq_iff bit_simps)

section \<open>Words\<close>

lemma and_not_mask_0_iff [mask_simps]:
  fixes v :: "'a::len word"
  assumes "n < LENGTH('a)"
  shows "v AND NOT (mask n) = 0 \<longleftrightarrow> unat v < 2 ^ n"
proof -
  have "v AND NOT (mask n) = 0 \<longleftrightarrow> v = take_bit n v"
    by (auto simp: bit_eq_iff bit_simps)
  also have "\<dots> \<longleftrightarrow> unat v = take_bit n (unat v)"
    by (metis unsigned_take_bit_eq word_unat_eq_iff)
  also have "\<dots> \<longleftrightarrow> unat v < 2 ^ n"
    by (metis take_bit_nat_eq_self_iff)
  finally show ?thesis .
qed

lemma u8_0x7F: "(0x7F :: u8) = mask 7"
  by (simp add: mask_eq_exp_minus_1)

lemma ucast_push_or_exact:
  fixes v :: "'a::len word" and b :: u8
  assumes "unat v < 2 ^ (LENGTH('a) - 7)" and "7 \<le> LENGTH('a)"
  shows "unat (push_bit 7 v OR ucast (b AND 0x7F)) = unat v * 128 + unat (b AND 0x7F)"
proof -
  let ?b = "b AND 0x7F"
  have b: "unat ?b < 128"
    by (rule le_less_trans [OF word_and_le1 [THEN word_le_nat_alt [THEN iffD1]]]) simp
  have pow: "(2::nat) ^ LENGTH('a) = 2 ^ (LENGTH('a) - 7) * 128"
    using assms(2) power_add [of "2::nat" "LENGTH('a) - 7" 7] by simp
  have lt: "unat v * 128 < 2 ^ LENGTH('a)"
    using assms(1) by (simp add: pow)
  have p: "unat (push_bit 7 v) = unat v * 128"
    using lt by (simp add: unsigned_push_bit_eq push_bit_nat_def take_bit_nat_eq_self)
  have u: "unat (ucast ?b :: 'a word) = unat ?b"
  proof -
    have "(2::nat) ^ 7 \<le> 2 ^ LENGTH('a)"
      using assms(2) by (intro power_increasing) auto
    then have "unat ?b < 2 ^ LENGTH('a)"
      using b by simp
    then show ?thesis by (simp add: unsigned_ucast_eq take_bit_nat_eq_self)
  qed
  have disj: "push_bit 7 v AND ucast ?b = 0"
    unfolding u8_0x7F by (auto simp: bit_eq_iff bit_simps)
  have "push_bit 7 v OR ucast ?b = push_bit 7 v + ucast ?b"
    using disj by (simp add: disjunctive_add_eq_or)
  moreover have "unat v * 128 + unat ?b < 2 ^ LENGTH('a)"
    using assms(1) b by (simp add: pow)
  ultimately show ?thesis
    by (simp add: unat_word_ariths p u)
qed

section \<open>Heap allocation\<close>

text \<open>
  The results of the calls of \<open>malloc\<close> an operation makes, in order: the address of a fresh object,
  or \<open>None\<close> for the null pointer. An operation takes the trace of the allocator and returns what it
  left of it; a trace that has run out means that memory has.
\<close>

type_synonym addr = nat
type_synonym alloc_trace = "addr option list"

fun malloc :: "alloc_trace \<Rightarrow> addr option \<times> alloc_trace" where
  "malloc [] = (None, [])"
| "malloc (a # m) = (a, m)"

text \<open>\<open>strdup\<close> on a pointer that is checked to be non-null first, as the bundle code does.\<close>

definition strdup :: "alloc_trace \<Rightarrow> string option \<Rightarrow> string option \<times> alloc_trace" where
  "strdup m s = (case s of
       None \<Rightarrow> (None, m)
     | Some t \<Rightarrow> (case malloc m of (None, m') \<Rightarrow> (None, m') | (Some a, m') \<Rightarrow> (Some t, m')))"

text \<open>A trace in which no allocation fails: the addresses handed out.\<close>

definition mem_ok :: "addr list \<Rightarrow> alloc_trace" where
  "mem_ok as = map Some as"

lemma malloc_mem_ok [simp]: "malloc (mem_ok (a # as)) = (Some a, mem_ok as)"
  by (simp add: mem_ok_def)

lemma mem_ok_append [simp]: "mem_ok (as @ bs) = mem_ok as @ mem_ok bs"
  by (simp add: mem_ok_def)

lemma strdup_None [simp]: "strdup m None = (None, m)"
  by (simp add: strdup_def)

lemma strdup_mem_ok [simp]: "strdup (mem_ok (a # as)) (Some t) = (Some t, mem_ok as)"
  by (simp add: strdup_def)

text \<open>Allocations that succeed leave the addresses not handed out yet.\<close>

definition leaves :: "nat \<Rightarrow> addr list \<Rightarrow> addr list \<Rightarrow> bool" where
  "leaves k as as' \<longleftrightarrow> (\<exists>n \<le> k. as' = drop n as)"

lemma leavesI: "as' = drop n as \<Longrightarrow> n \<le> k \<Longrightarrow> leaves k as as'"
  by (auto simp: leaves_def)

lemma leaves_length: "leaves k as as' \<Longrightarrow> length as \<le> length as' + k"
  by (auto simp: leaves_def)

lemma leaves_set: "leaves k as as' \<Longrightarrow> set as' \<subseteq> set as"
  by (auto simp: leaves_def dest: in_set_dropD)

lemma leaves_distinct: "leaves k as as' \<Longrightarrow> distinct as \<Longrightarrow> distinct as'"
  by (auto simp: leaves_def)

lemma leaves_trans:
  assumes "leaves k as as'" and "leaves l as' as''" and "k + l \<le> n"
  shows "leaves n as as''"
proof -
  obtain i j where "i \<le> k" "j \<le> l" "as'' = drop j (drop i as)"
    using assms(1,2) by (auto simp: leaves_def)
  then show ?thesis
    using assms(3) by (intro leavesI [of _ "j + i"]) (auto simp: drop_drop)
qed

lemma leaves_refl: "leaves k as as"
  by (rule leavesI [of _ 0]) auto

lemma leaves_Cons: "leaves (Suc k) (a # as) as"
  by (rule leavesI [of _ 1]) auto

lemma malloc_leaves:
  assumes "1 \<le> length as"
  obtains a as' where "as = a # as'" and "malloc (mem_ok as) = (Some a, mem_ok as')" and "leaves 1 as as'"
  using assms leaves_Cons by (cases as) auto

lemma strdup_leaves:
  assumes "1 \<le> length as"
  obtains as' where "strdup (mem_ok as) s = (s, mem_ok as')" and "leaves 1 as as'"
proof (cases s)
  case None
  then show thesis using that leaves_refl by simp
next
  case (Some t)
  moreover obtain a as' where "as = a # as'" using assms by (cases as) auto
  ultimately show thesis using that [of as'] leaves_Cons by simp
qed

lemma strdups_leave:
  assumes "4 \<le> length as"
  obtains a1 a2 a3 a4 where "strdup (mem_ok as) s1 = (s1, mem_ok a1)" and "strdup (mem_ok a1) s2 = (s2, mem_ok a2)"
    and "strdup (mem_ok a2) s3 = (s3, mem_ok a3)" and "strdup (mem_ok a3) s4 = (s4, mem_ok a4)"
    and "leaves 4 as a4"
proof -
  obtain a1 where 1: "strdup (mem_ok as) s1 = (s1, mem_ok a1)" "leaves 1 as a1"
    using assms by (auto intro: strdup_leaves [of as s1])
  obtain a2 where 2: "strdup (mem_ok a1) s2 = (s2, mem_ok a2)" "leaves 1 a1 a2"
    using assms leaves_length [OF 1(2)] by (auto intro: strdup_leaves [of a1 s2])
  have l2: "leaves 2 as a2" using leaves_trans [OF 1(2) 2(2)] by simp
  obtain a3 where 3: "strdup (mem_ok a2) s3 = (s3, mem_ok a3)" "leaves 1 a2 a3"
    using assms leaves_length [OF l2] by (auto intro: strdup_leaves [of a2 s3])
  have l3: "leaves 3 as a3" using leaves_trans [OF l2 3(2)] by simp
  obtain a4 where 4: "strdup (mem_ok a3) s4 = (s4, mem_ok a4)" "leaves 1 a3 a4"
    using assms leaves_length [OF l3] by (auto intro: strdup_leaves [of a3 s4])
  have "leaves 4 as a4" using leaves_trans [OF l3 4(2)] by simp
  then show thesis using that 1(1) 2(1) 3(1) 4(1) by blast
qed

section \<open>Strings in buffers and the status of parsers\<close>

text \<open>\<open>strlen\<close> of a buffer; without a terminator it leaves the buffer.\<close>

definition c_strlen :: "bytes \<Rightarrow> nat outcome" where
  "c_strlen b = (if 0 \<in> set b then Inr (length (takeWhile (\<lambda>x. x \<noteq> 0) b)) else Inl Out_Of_Bounds)"

datatype parser_status = PARSER_STATUS_GOOD | PARSER_STATUS_DONE | PARSER_STATUS_ERROR

text \<open>\<open>memcpy\<close> of \<open>bs\<close> to offset \<open>off\<close> of an allocated buffer.\<close>

definition put_bytes :: "bytes option \<Rightarrow> nat \<Rightarrow> bytes \<Rightarrow> bytes outcome" where
  "put_bytes buf off bs = (case buf of
       None \<Rightarrow> if bs = [] then Inr [] else Inl Null_Deref
     | Some d \<Rightarrow> if length d < off + length bs then Inl Out_Of_Bounds
         else Inr (take off d @ bs @ drop (off + length bs) d))"

lemma put_bytes_Some:
  "off + length bs \<le> length d \<Longrightarrow>
    put_bytes (Some d) off bs = Inr (take off d @ bs @ drop (off + length bs) d)"
  by (simp add: put_bytes_def)

end
