(* ===== verification/Sdnv.thy ===== *)
theory Sdnv
  imports Upcn_Prelude
begin

text \<open>
  Self-delimiting numeric values (RFC 5050, section 4.1): \<open>components/bundle6/sdnv.c\<close> and
  \<open>include/bundle6/sdnv.h\<close>. The readers consume one byte per call and keep a
  \<open>sdnv_state\<close>; the writers fill a buffer from its last byte backwards. The four widths are
  instances of one C macro each for reading and writing; here the macros are polymorphic
  functions, and the contract the widths share is the locale \<open>sdnv_codec\<close>, interpreted for all
  four of them.
\<close>

section \<open>Model\<close>

datatype sdnv_status = SDNV_IN_PROGRESS | SDNV_DONE | SDNV_ERROR

datatype sdnv_error = SDNV_ERROR_NONE | SDNV_ERROR_OVERFLOW | SDNV_ERROR_ALREADY_DONE

record sdnv_state =
  sdnv_st :: sdnv_status
  sdnv_err :: sdnv_error
  bytes_parsed :: u8

definition sdnv_reset :: "sdnv_state \<Rightarrow> sdnv_state" where
  "sdnv_reset state = state\<lparr>sdnv_st := SDNV_IN_PROGRESS, sdnv_err := SDNV_ERROR_NONE,
     bytes_parsed := 0\<rparr>"

definition sdnv_validate_byte_u32 :: "sdnv_state \<Rightarrow> u32 \<Rightarrow> bool" where
  "sdnv_validate_byte_u32 state value \<longleftrightarrow>
     bytes_parsed state < 4 \<or> (bytes_parsed state = 4 \<and> value \<le> 0x1FFFFFF)"

definition sdnv_validate_byte_u8 :: "sdnv_state \<Rightarrow> u8 \<Rightarrow> bool" where
  "sdnv_validate_byte_u8 state value \<longleftrightarrow>
     bytes_parsed state < 1 \<or> (bytes_parsed state = 1 \<and> value \<le> 0x1)"

definition sdnv_validate_byte_u16 :: "sdnv_state \<Rightarrow> u16 \<Rightarrow> bool" where
  "sdnv_validate_byte_u16 state value \<longleftrightarrow>
     bytes_parsed state < 2 \<or> (bytes_parsed state = 2 \<and> value \<le> 0x1FF)"

definition sdnv_validate_byte_u64 :: "sdnv_state \<Rightarrow> u64 \<Rightarrow> bool" where
  "sdnv_validate_byte_u64 state value \<longleftrightarrow>
     bytes_parsed state < 9 \<or> (bytes_parsed state = 9 \<and> value \<le> 0x1FFFFFFFFFFFFFF)"

text \<open>The macro \<open>sdnv_read_generic\<close>: the new state and the new content of \<open>*value\<close>.\<close>

definition sdnv_read_generic ::
  "(sdnv_state \<Rightarrow> 'a::len word \<Rightarrow> bool) \<Rightarrow> sdnv_state \<Rightarrow> 'a word \<Rightarrow> u8 \<Rightarrow> sdnv_state \<times> 'a word"
where
  "sdnv_read_generic validate_function state value byte =
     (if \<not> validate_function state value then
        (state\<lparr>sdnv_err := SDNV_ERROR_OVERFLOW, sdnv_st := SDNV_ERROR\<rparr>, value)
      else if sdnv_st state = SDNV_DONE then
        (state\<lparr>sdnv_err := SDNV_ERROR_ALREADY_DONE, sdnv_st := SDNV_ERROR\<rparr>, value)
      else
        let value1 = (if bytes_parsed state = 0 then 0 else push_bit 7 value);
            value2 = value1 OR ucast (byte AND 0x7F);
            state1 = (if byte AND 0x80 = 0 then state\<lparr>sdnv_st := SDNV_DONE\<rparr> else state)
        in (state1\<lparr>bytes_parsed := bytes_parsed state1 + 1\<rparr>, value2))"

definition sdnv_read_u8 :: "sdnv_state \<Rightarrow> u8 \<Rightarrow> u8 \<Rightarrow> sdnv_state \<times> u8" where
  "sdnv_read_u8 = sdnv_read_generic sdnv_validate_byte_u8"

definition sdnv_read_u16 :: "sdnv_state \<Rightarrow> u16 \<Rightarrow> u8 \<Rightarrow> sdnv_state \<times> u16" where
  "sdnv_read_u16 = sdnv_read_generic sdnv_validate_byte_u16"

definition sdnv_read_u32 :: "sdnv_state \<Rightarrow> u32 \<Rightarrow> u8 \<Rightarrow> sdnv_state \<times> u32" where
  "sdnv_read_u32 = sdnv_read_generic sdnv_validate_byte_u32"

definition sdnv_read_u64 :: "sdnv_state \<Rightarrow> u64 \<Rightarrow> u8 \<Rightarrow> sdnv_state \<times> u64" where
  "sdnv_read_u64 = sdnv_read_generic sdnv_validate_byte_u64"

definition sdnv_get_size_u8 :: "u8 \<Rightarrow> nat" where
  "sdnv_get_size_u8 value = (if value AND 0x80 = 0 then 1 else 2)"

definition sdnv_get_size_u16 :: "u16 \<Rightarrow> nat" where
  "sdnv_get_size_u16 value =
     (if value AND 0xFF80 = 0 then 1
      else if value AND 0xC000 = 0 then 2
      else 3)"

definition sdnv_get_size_u32 :: "u32 \<Rightarrow> nat" where
  "sdnv_get_size_u32 value =
     (if value AND 0xFFFFFF80 = 0 then 1
      else if value AND 0xFFFFC000 = 0 then 2
      else if value AND 0xFFE00000 = 0 then 3
      else if value AND 0xF0000000 = 0 then 4
      else 5)"

definition sdnv_get_size_u64 :: "u64 \<Rightarrow> nat" where
  "sdnv_get_size_u64 value =
     (if value AND 0xFFFFFFFFFFFFFF80 = 0 then 1
      else if value AND 0xFFFFFFFFFFFFC000 = 0 then 2
      else if value AND 0xFFFFFFFFFFE00000 = 0 then 3
      else if value AND 0xFFFFFFFFF0000000 = 0 then 4
      else if value AND 0xFFFFFFF800000000 = 0 then 5
      else if value AND 0xFFFFFC0000000000 = 0 then 6
      else if value AND 0xFFFE000000000000 = 0 then 7
      else if value AND 0xFF00000000000000 = 0 then 8
      else if value AND 0x8000000000000000 = 0 then 9
      else 10)"

text \<open>
  The macro \<open>sdnv_write_generic\<close>: the loop runs from the last of the \<open>sdnv_bytes\<close> bytes of the
  buffer down to the first, so the bytes written so far are a suffix of the result; afterwards the
  marker bit of the last byte is cleared.
\<close>

fun sdnv_write_loop :: "nat \<Rightarrow> 'a::len word \<Rightarrow> bytes \<Rightarrow> bytes" where
  "sdnv_write_loop 0 value written = written"
| "sdnv_write_loop (Suc n) value written =
     sdnv_write_loop n (drop_bit 7 value) ((ucast (value AND 0x7F) OR 0x80) # written)"

definition sdnv_write_generic :: "nat \<Rightarrow> 'a::len word \<Rightarrow> bytes" where
  "sdnv_write_generic sdnv_bytes value =
     (let buffer = sdnv_write_loop sdnv_bytes value []
      in buffer[sdnv_bytes - 1 := (buffer ! (sdnv_bytes - 1)) AND 0x7F])"

definition sdnv_write_u8 :: "u8 \<Rightarrow> nat \<times> bytes" where
  "sdnv_write_u8 value =
     (let sdnv_bytes = sdnv_get_size_u8 value in (sdnv_bytes, sdnv_write_generic sdnv_bytes value))"

definition sdnv_write_u16 :: "u16 \<Rightarrow> nat \<times> bytes" where
  "sdnv_write_u16 value =
     (let sdnv_bytes = sdnv_get_size_u16 value in (sdnv_bytes, sdnv_write_generic sdnv_bytes value))"

definition sdnv_write_u32 :: "u32 \<Rightarrow> nat \<times> bytes" where
  "sdnv_write_u32 value =
     (let sdnv_bytes = sdnv_get_size_u32 value in (sdnv_bytes, sdnv_write_generic sdnv_bytes value))"

definition sdnv_write_u64 :: "u64 \<Rightarrow> nat \<times> bytes" where
  "sdnv_write_u64 value =
     (let sdnv_bytes = sdnv_get_size_u64 value in (sdnv_bytes, sdnv_write_generic sdnv_bytes value))"

text \<open>
  Feeding bytes to a reader while it reports \<open>SDNV_IN_PROGRESS\<close>, the way its callers do
  (\<open>tcpclv3_parser_read_byte\<close>, the RFC 5050 bundle parser): the reader's final state, the value,
  and the bytes that were not consumed.
\<close>

fun sdnv_feed ::
  "(sdnv_state \<Rightarrow> 'a word \<Rightarrow> u8 \<Rightarrow> sdnv_state \<times> 'a word) \<Rightarrow> sdnv_state \<Rightarrow> 'a::len word \<Rightarrow> bytes
    \<Rightarrow> sdnv_state \<times> 'a word \<times> bytes"
where
  "sdnv_feed rd state value [] = (state, value, [])"
| "sdnv_feed rd state value (b # bs) =
     (let (state', value') = rd state value b
      in if sdnv_st state' = SDNV_IN_PROGRESS then sdnv_feed rd state' value' bs
         else (state', value', bs))"

text \<open>The number a byte sequence denotes: base 128, most significant digit first.\<close>

fun sdnv_digits :: "nat \<Rightarrow> bytes \<Rightarrow> nat" where
  "sdnv_digits acc [] = acc"
| "sdnv_digits acc (b # bs) = sdnv_digits (acc * 128 + unat (b AND 0x7F)) bs"

section \<open>Base-128 digits\<close>

lemma low7_bound: "unat (b AND 0x7F :: u8) < 128"
  by (rule le_less_trans [OF word_and_le1 [THEN word_le_nat_alt [THEN iffD1]]]) simp

lemma sdnv_digits_append: "sdnv_digits acc (bs @ cs) = sdnv_digits (sdnv_digits acc bs) cs"
  by (induction bs arbitrary: acc) auto

lemma sdnv_digits_ge: "acc * 128 ^ length bs \<le> sdnv_digits acc bs"
proof (induction bs arbitrary: acc)
  case (Cons b bs)
  have "acc * 128 ^ length (b # bs) \<le> (acc * 128 + unat (b AND 0x7F)) * 128 ^ length bs"
    by (simp add: algebra_simps)
  also have "\<dots> \<le> sdnv_digits acc (b # bs)"
    using Cons by simp
  finally show ?case .
qed simp

lemma sdnv_digits_less: "sdnv_digits acc bs < (acc + 1) * 128 ^ length bs"
proof (induction bs arbitrary: acc)
  case (Cons b bs)
  have "sdnv_digits acc (b # bs) < (acc * 128 + unat (b AND 0x7F) + 1) * 128 ^ length bs"
    using Cons by simp
  also have "\<dots> \<le> ((acc + 1) * 128) * 128 ^ length bs"
    using low7_bound [of b] by (intro mult_right_mono) auto
  finally show ?case by (simp add: algebra_simps)
qed simp

section \<open>The writer\<close>

lemma sdnv_write_loop_append: "sdnv_write_loop n v acc = sdnv_write_loop n v [] @ acc"
proof (induction n arbitrary: v acc)
  case (Suc n)
  show ?case
    by (simp add: Suc [of "drop_bit 7 v" "_ # acc"] Suc [of "drop_bit 7 v" "[_]"])
qed simp

lemma sdnv_write_loop_Suc:
  "sdnv_write_loop (Suc n) v [] =
     sdnv_write_loop n (drop_bit 7 v) [] @ [ucast (v AND 0x7F) OR 0x80]"
  by (simp add: sdnv_write_loop_append [of n "drop_bit 7 v" "[_]"])

lemma length_sdnv_write_loop [simp]: "length (sdnv_write_loop n v acc) = n + length acc"
  by (induction n arbitrary: v acc) auto

lemma sdnv_write_loop_marker: "b \<in> set (sdnv_write_loop n v []) \<Longrightarrow> b AND 0x80 \<noteq> 0"
proof (induction n arbitrary: v)
  case (Suc n)
  have "(ucast (v AND 0x7F) OR 0x80 :: u8) AND 0x80 \<noteq> 0"
    using HAS_FLAG_self [of "0x80 :: u8"] by (simp add: HAS_FLAG_def)
  then show ?case
    using Suc by (auto simp del: sdnv_write_loop.simps simp: sdnv_write_loop_Suc)
qed simp

lemma unat_and_0x7F:
  fixes v :: "'a::len word"
  assumes "7 \<le> LENGTH('a)"
  shows "unat (ucast (v AND 0x7F) :: u8) = unat v mod 128"
proof -
  have m: "v AND 0x7F = take_bit 7 v"
    by (simp add: take_bit_eq_mask mask_eq_exp_minus_1)
  have "unat (v AND 0x7F) = unat v mod 128"
    unfolding m by (simp add: unsigned_take_bit_eq take_bit_nat_def)
  then show ?thesis
    by (simp add: unsigned_ucast_eq take_bit_nat_eq_self)
qed

lemma unat_clear_marker: "unat ((x OR 0x80) AND 0x7F :: u8) = unat (x AND 0x7F)"
proof -
  have "(x OR 0x80) AND 0x7F = x AND (0x7F :: u8)"
    by (simp add: and.commute bit.conj_disj_distrib)
  then show ?thesis by simp
qed

lemma low7_ucast:
  fixes v :: "'a::len word"
  assumes "7 \<le> LENGTH('a)"
  shows "unat (ucast (v AND 0x7F) AND 0x7F :: u8) = unat v mod 128"
proof -
  have "(x :: u8) AND 0x7F = take_bit 7 x" for x
    by (simp add: take_bit_eq_mask mask_eq_exp_minus_1)
  then show ?thesis
    using unat_and_0x7F [OF assms, of v] by (simp add: unsigned_take_bit_eq take_bit_nat_def)
qed

lemma unat_drop_7: "unat (drop_bit 7 v) = unat v div 128"
  by (simp add: unsigned_drop_bit_eq drop_bit_nat_def take_bit_nat_eq_self)

lemma sdnv_digits_write_loop:
  fixes v :: "'a::len word"
  assumes "7 \<le> LENGTH('a)"
  shows "sdnv_digits acc (sdnv_write_loop n v []) = acc * 128 ^ n + unat v mod 128 ^ n"
proof (induction n arbitrary: v)
  case (Suc n)
  have "sdnv_digits acc (sdnv_write_loop (Suc n) v []) =
      (acc * 128 ^ n + (unat v div 128) mod 128 ^ n) * 128 + unat v mod 128"
    by (simp add: sdnv_write_loop_Suc sdnv_digits_append Suc unat_drop_7 unat_clear_marker
        low7_ucast [OF assms] del: sdnv_write_loop.simps)
  also have "\<dots> = acc * 128 ^ Suc n + unat v mod 128 ^ Suc n"
    using mod_mult2_eq [of "unat v" 128 "128 ^ n"] by (simp add: algebra_simps)
  finally show ?case .
qed simp

lemma length_sdnv_write_generic [simp]: "length (sdnv_write_generic n v) = n"
  by (simp add: sdnv_write_generic_def Let_def)

text \<open>The written bytes: a marked prefix and an unmarked last byte that denote the value.\<close>

lemma sdnv_write_generic_split:
  fixes v :: "'a::len word"
  assumes "7 \<le> LENGTH('a)" and "unat v < 128 ^ Suc n"
  obtains ms l where "sdnv_write_generic (Suc n) v = ms @ [l]" and "length ms = n"
    and "\<forall>b \<in> set ms. b AND 0x80 \<noteq> 0" and "l AND 0x80 = 0"
    and "sdnv_digits 0 (ms @ [l]) = unat v"
proof -
  let ?ms = "sdnv_write_loop n (drop_bit 7 v) []"
  let ?x = "ucast (v AND 0x7F) OR 0x80 :: u8"
  let ?l = "?x AND 0x7F"
  have eq: "sdnv_write_generic (Suc n) v = ?ms @ [?l]"
    by (simp add: sdnv_write_generic_def Let_def sdnv_write_loop_Suc list_update_append
        nth_append del: sdnv_write_loop.simps)
  have l: "?l AND 0x80 = 0"
    by (simp add: and.assoc)
  have "sdnv_digits 0 (?ms @ [?l]) = sdnv_digits 0 (sdnv_write_loop (Suc n) v [])"
    by (simp add: sdnv_write_loop_Suc sdnv_digits_append unat_clear_marker and.assoc
        del: sdnv_write_loop.simps)
  then have "sdnv_digits 0 (?ms @ [?l]) = unat v"
    using sdnv_digits_write_loop [OF assms(1), of 0 "Suc n" v] assms(2) by simp
  then show ?thesis
    using that [OF eq] l sdnv_write_loop_marker [of _ n "drop_bit 7 v"] by auto
qed

section \<open>What a read sequence may produce\<close>

text \<open>
  The specification of a read: the bytes consumed are a prefix of the input. When the reader is
  done, they are bytes with the marker bit followed by one without, and the value is exactly the
  number they denote; when it reports an error, the number does not fit or the encoding is longer
  than the longest supported one.
\<close>

definition sdnv_spec ::
  "nat \<Rightarrow> nat \<Rightarrow> nat \<Rightarrow> bytes \<Rightarrow> sdnv_state \<Rightarrow> 'a::len word \<Rightarrow> bytes \<Rightarrow> bool"
where
  "sdnv_spec max_bytes seen acc bs s v rest \<longleftrightarrow> (\<exists>used. bs = used @ rest \<and>
     (case sdnv_st s of
        SDNV_DONE \<Rightarrow> used \<noteq> [] \<and> (\<forall>b \<in> set (butlast used). b AND 0x80 \<noteq> 0) \<and>
          last used AND 0x80 = 0 \<and> sdnv_err s = SDNV_ERROR_NONE \<and>
          unat v = sdnv_digits acc used \<and> unat (bytes_parsed s) = seen + length used
      | SDNV_IN_PROGRESS \<Rightarrow> rest = [] \<and> (\<forall>b \<in> set used. b AND 0x80 \<noteq> 0) \<and>
          sdnv_err s = SDNV_ERROR_NONE \<and> (used \<noteq> [] \<longrightarrow> unat v = sdnv_digits acc used) \<and>
          unat (bytes_parsed s) = seen + length used
      | SDNV_ERROR \<Rightarrow> (\<forall>b \<in> set (butlast used). b AND 0x80 \<noteq> 0) \<and>
          sdnv_err s = SDNV_ERROR_OVERFLOW \<and>
          (2 ^ LENGTH('a) \<le> sdnv_digits acc used \<or> max_bytes < seen + length used)))"

lemma sdnv_spec_Cons:
  fixes v v' :: "'a::len word"
  assumes "sdnv_spec m (Suc k) (acc * 128 + unat (b AND 0x7F)) bs s v rest"
    and "b AND 0x80 \<noteq> 0" and "unat v' = acc * 128 + unat (b AND 0x7F)"
    and "bs = [] \<Longrightarrow> v = v'"
  shows "sdnv_spec m k acc (b # bs) s v rest"
proof -
  from assms(1) obtain used where u: "bs = used @ rest"
    "case sdnv_st s of
        SDNV_DONE \<Rightarrow> used \<noteq> [] \<and> (\<forall>b \<in> set (butlast used). b AND 0x80 \<noteq> 0) \<and>
          last used AND 0x80 = 0 \<and> sdnv_err s = SDNV_ERROR_NONE \<and>
          unat v = sdnv_digits (acc * 128 + unat (b AND 0x7F)) used \<and>
          unat (bytes_parsed s) = Suc k + length used
      | SDNV_IN_PROGRESS \<Rightarrow> rest = [] \<and> (\<forall>b \<in> set used. b AND 0x80 \<noteq> 0) \<and>
          sdnv_err s = SDNV_ERROR_NONE \<and>
          (used \<noteq> [] \<longrightarrow> unat v = sdnv_digits (acc * 128 + unat (b AND 0x7F)) used) \<and>
          unat (bytes_parsed s) = Suc k + length used
      | SDNV_ERROR \<Rightarrow> (\<forall>b \<in> set (butlast used). b AND 0x80 \<noteq> 0) \<and>
          sdnv_err s = SDNV_ERROR_OVERFLOW \<and>
          (2 ^ LENGTH('a) \<le> sdnv_digits (acc * 128 + unat (b AND 0x7F)) used \<or>
           m < Suc k + length used)"
    unfolding sdnv_spec_def by blast
  then show ?thesis
    unfolding sdnv_spec_def
    using assms(2-4) by (intro exI [of _ "b # used"]) (auto split: sdnv_status.splits)
qed

lemma marked_prefix_length:
  assumes "ms @ l # cs = used @ rest" and "l AND 0x80 = 0"
    and "\<forall>b \<in> set (butlast used). b AND (0x80::u8) \<noteq> 0"
  shows "length used \<le> Suc (length ms)"
proof (rule ccontr)
  assume "\<not> ?thesis"
  then have len: "length ms < length used - 1" by simp
  then have "butlast used ! length ms = (ms @ l # cs) ! length ms"
    unfolding assms(1) using len less_imp_diff_less [of "length ms"]
    by (simp add: nth_butlast nth_append less_diff_conv)
  then have "l \<in> set (butlast used)"
    using len by (metis length_butlast nth_append_length nth_mem)
  then show False using assms(2,3) by auto
qed

lemma sdnv_spec_marked:
  fixes v :: "'a::len word"
  assumes "sdnv_spec m 0 0 (ms @ l # cs) s v rest"
    and "\<forall>b \<in> set ms. b AND 0x80 \<noteq> 0" and "l AND 0x80 = 0"
    and "sdnv_digits 0 (ms @ [l]) < 2 ^ LENGTH('a)" and "length ms < m"
  shows "rest = cs \<and> sdnv_st s = SDNV_DONE \<and> sdnv_err s = SDNV_ERROR_NONE \<and>
     unat v = sdnv_digits 0 (ms @ [l]) \<and> unat (bytes_parsed s) = Suc (length ms)"
proof -
  from assms(1) obtain used where u: "ms @ l # cs = used @ rest" and
    c: "case sdnv_st s of
        SDNV_DONE \<Rightarrow> used \<noteq> [] \<and> (\<forall>b \<in> set (butlast used). b AND 0x80 \<noteq> 0) \<and>
          last used AND 0x80 = 0 \<and> sdnv_err s = SDNV_ERROR_NONE \<and>
          unat v = sdnv_digits 0 used \<and> unat (bytes_parsed s) = 0 + length used
      | SDNV_IN_PROGRESS \<Rightarrow> rest = [] \<and> (\<forall>b \<in> set used. b AND 0x80 \<noteq> 0) \<and>
          sdnv_err s = SDNV_ERROR_NONE \<and> (used \<noteq> [] \<longrightarrow> unat v = sdnv_digits 0 used) \<and>
          unat (bytes_parsed s) = 0 + length used
      | SDNV_ERROR \<Rightarrow> (\<forall>b \<in> set (butlast used). b AND 0x80 \<noteq> 0) \<and>
          sdnv_err s = SDNV_ERROR_OVERFLOW \<and>
          (2 ^ LENGTH('a) \<le> sdnv_digits 0 used \<or> m < 0 + length used)"
    unfolding sdnv_spec_def by blast
  show ?thesis
  proof (cases "sdnv_st s")
    case SDNV_IN_PROGRESS
    then have "used = ms @ l # cs" "\<forall>b \<in> set used. b AND 0x80 \<noteq> 0"
      using u c by simp_all
    then show ?thesis using assms(3) by simp
  next
    case SDNV_DONE
    then have d: "used \<noteq> []" "\<forall>b \<in> set (butlast used). b AND 0x80 \<noteq> 0" "last used AND 0x80 = 0"
      using c by auto
    have "length used \<le> Suc (length ms)"
      using marked_prefix_length [OF u assms(3) d(2)] .
    moreover have "\<not> length used \<le> length ms"
    proof
      assume "length used \<le> length ms"
      then have "used = take (length used) ms"
        using u by (metis append_eq_append_conv_if take_all)
      then have "last used \<in> set ms"
        using d(1) by (metis in_set_takeD last_in_set)
      then show False using assms(2) d(3) by blast
    qed
    ultimately have "used = ms @ [l] \<and> rest = cs"
      using u append_eq_append_conv [of used "ms @ [l]" rest cs] by simp
    then show ?thesis using SDNV_DONE c by auto
  next
    case SDNV_ERROR
    then have e: "\<forall>b \<in> set (butlast used). b AND 0x80 \<noteq> 0"
      "2 ^ LENGTH('a) \<le> sdnv_digits 0 used \<or> m < length used"
      using c by auto
    have len: "length used \<le> Suc (length ms)"
      using marked_prefix_length [OF u assms(3) e(1)] .
    then have "used = take (length used) (ms @ [l])"
      using u by (metis append.assoc append_Cons append_Nil append_eq_append_conv_if
          length_append_singleton take_append take_all_iff)
    then obtain ys where "ms @ [l] = used @ ys"
      by (metis append_take_drop_id)
    then have "sdnv_digits 0 used \<le> sdnv_digits 0 (ms @ [l])"
      using sdnv_digits_ge [of "sdnv_digits 0 used" ys] sdnv_digits_append [of 0 used ys]
      by (metis le_trans mult.right_neutral mult_le_mono2 one_le_numeral one_le_power)
    then show ?thesis using e(2) assms(4,5) len by auto
  qed
qed

section \<open>The contract of one width\<close>

text \<open>
  \<open>full\<close> is the number of bytes that always fit; one further byte fits when no bit falls out of
  the value. The size function returns the least number of bytes that hold the value.
\<close>

locale sdnv_codec =
  fixes validate :: "sdnv_state \<Rightarrow> 'a::len word \<Rightarrow> bool"
    and get_size :: "'a word \<Rightarrow> nat"
    and full :: nat
  assumes validate_iff: "validate s v \<longleftrightarrow>
      unat (bytes_parsed s) < full \<or>
      (unat (bytes_parsed s) = full \<and> unat v < 2 ^ (LENGTH('a) - 7))"
    and full_pos: "0 < full"
    and full_le: "7 * full \<le> LENGTH('a)"
    and full_small: "full < 200"
    and size_pos: "0 < get_size v"
    and size_le: "get_size v \<le> Suc full"
    and size_fits: "unat v < 128 ^ get_size v"
    and size_least: "unat v < 128 ^ n \<Longrightarrow> 0 < n \<Longrightarrow> get_size v \<le> n"
begin

abbreviation rd :: "sdnv_state \<Rightarrow> 'a word \<Rightarrow> u8 \<Rightarrow> sdnv_state \<times> 'a word" where
  "rd \<equiv> sdnv_read_generic validate"

definition acc_of :: "sdnv_state \<Rightarrow> 'a word \<Rightarrow> nat" where
  "acc_of s v = (if bytes_parsed s = 0 then 0 else unat v)"

lemma width: "7 \<le> LENGTH('a)"
  using full_pos full_le by linarith

lemma pow_width: "(2::nat) ^ LENGTH('a) = 2 ^ (LENGTH('a) - 7) * 128"
  using power_add [of "2::nat" "LENGTH('a) - 7" 7] width by simp

lemma acc_of_small:
  assumes "acc_of s v < 128 ^ unat (bytes_parsed s)" and "unat (bytes_parsed s) < full"
  shows "acc_of s v < 2 ^ (LENGTH('a) - 7)"
proof -
  have "(128::nat) ^ unat (bytes_parsed s) = 2 ^ (7 * unat (bytes_parsed s))"
    by (simp add: power_mult)
  also have "\<dots> \<le> 2 ^ (LENGTH('a) - 7)"
    using assms(2) full_le by (intro power_increasing) auto
  finally show ?thesis using assms(1) by simp
qed

text \<open>A step that is accepted appends one base-128 digit, exactly.\<close>

lemma rd_accept:
  assumes "acc_of s v < 2 ^ (LENGTH('a) - 7)" and "unat (bytes_parsed s) \<le> full"
    and "sdnv_st s = SDNV_IN_PROGRESS"
  shows "\<exists>v'. rd s v b =
     (s\<lparr>sdnv_st := (if b AND 0x80 = 0 then SDNV_DONE else SDNV_IN_PROGRESS),
        bytes_parsed := bytes_parsed s + 1\<rparr>, v') \<and>
     unat v' = acc_of s v * 128 + unat (b AND 0x7F)"
proof -
  let ?v1 = "if bytes_parsed s = 0 then 0 else push_bit 7 v"
  let ?u = "if bytes_parsed s = 0 then 0 else v"
  have val: "validate s v"
  proof (cases "bytes_parsed s = 0")
    case True
    then show ?thesis using full_pos by (simp add: validate_iff)
  next
    case False
    then show ?thesis using assms(1,2) by (auto simp: validate_iff acc_of_def)
  qed
  have u: "unat ?u = acc_of s v" and p: "?v1 = push_bit 7 ?u"
    by (auto simp: acc_of_def)
  have "unat (?v1 OR ucast (b AND 0x7F)) = acc_of s v * 128 + unat (b AND 0x7F)"
    unfolding p using ucast_push_or_exact [OF _ width, of ?u b] assms(1) u by simp
  moreover have "rd s v b =
     (s\<lparr>sdnv_st := (if b AND 0x80 = 0 then SDNV_DONE else SDNV_IN_PROGRESS),
        bytes_parsed := bytes_parsed s + 1\<rparr>, ?v1 OR ucast (b AND 0x7F))"
    using val assms(3) by (simp add: sdnv_read_generic_def Let_def)
  ultimately show ?thesis by blast
qed

lemma rd_reject:
  assumes "unat (bytes_parsed s) = full" and "2 ^ (LENGTH('a) - 7) \<le> unat v"
  shows "rd s v b = (s\<lparr>sdnv_err := SDNV_ERROR_OVERFLOW, sdnv_st := SDNV_ERROR\<rparr>, v)"
  using assms by (simp add: sdnv_read_generic_def validate_iff)

lemma rd_reject_long:
  assumes "full < unat (bytes_parsed s)"
  shows "rd s v b = (s\<lparr>sdnv_err := SDNV_ERROR_OVERFLOW, sdnv_st := SDNV_ERROR\<rparr>, v)"
  using assms by (simp add: sdnv_read_generic_def validate_iff)

lemma unat_Suc_bytes_parsed:
  "unat (bytes_parsed s) \<le> full \<Longrightarrow> unat (bytes_parsed s + 1) = Suc (unat (bytes_parsed s))"
  using full_small by (simp add: unat_word_ariths)

lemma feed_spec:
  assumes "sdnv_st s = SDNV_IN_PROGRESS" and "sdnv_err s = SDNV_ERROR_NONE"
    and "unat (bytes_parsed s) \<le> Suc full" and "acc_of s v < 128 ^ unat (bytes_parsed s)"
  shows "case sdnv_feed rd s v bs of (s', v', rest) \<Rightarrow>
     sdnv_spec (Suc full) (unat (bytes_parsed s)) (acc_of s v) bs s' v' rest"
  using assms
proof (induction bs arbitrary: s v)
  case Nil
  then show ?case by (simp add: sdnv_spec_def)
next
  case (Cons b bs)
  let ?k = "unat (bytes_parsed s)"
  let ?acc = "acc_of s v"
  show ?case
  proof (cases "?k \<le> full \<and> ?acc < 2 ^ (LENGTH('a) - 7)")
    case True
    from rd_accept [OF _ _ Cons.prems(1), of v b] True obtain v' where
      rd: "rd s v b = (s\<lparr>sdnv_st := (if b AND 0x80 = 0 then SDNV_DONE else SDNV_IN_PROGRESS),
        bytes_parsed := bytes_parsed s + 1\<rparr>, v')"
      and v': "unat v' = ?acc * 128 + unat (b AND 0x7F)"
      by auto
    have k: "unat (bytes_parsed s + 1) = Suc ?k" and nz: "bytes_parsed s + 1 \<noteq> 0"
      using True unat_Suc_bytes_parsed [of s] by (auto simp: word_unat_eq_iff)
    show ?thesis
    proof (cases "b AND 0x80 = 0")
      case stop: True
      then show ?thesis
        using Cons.prems rd v' k by (auto simp: sdnv_spec_def intro!: exI [of _ "[b]"])
    next
      case more: False
      define t where "t = s\<lparr>bytes_parsed := bytes_parsed s + 1\<rparr>"
      have t: "sdnv_st t = SDNV_IN_PROGRESS" "sdnv_err t = SDNV_ERROR_NONE"
        "unat (bytes_parsed t) = Suc ?k" "acc_of t v' = ?acc * 128 + unat (b AND 0x7F)"
        using Cons.prems k nz v' by (auto simp: t_def acc_of_def)
      have "acc_of t v' < 128 ^ unat (bytes_parsed t)"
        using sdnv_digits_less [of ?acc "[b]"] Cons.prems(4) t(3,4)
          mult_le_mono1 [of "?acc + 1" "128 ^ ?k" 128] by simp
      then have "case sdnv_feed rd t v' bs of (s', w, rest) \<Rightarrow>
          sdnv_spec (Suc full) (unat (bytes_parsed t)) (acc_of t v') bs s' w rest"
        using Cons.IH [OF t(1,2), of v'] t(3) True by linarith
      moreover have "sdnv_feed rd s v (b # bs) = sdnv_feed rd t v' bs"
      proof -
        have "s\<lparr>sdnv_st := SDNV_IN_PROGRESS, bytes_parsed := bytes_parsed s + 1\<rparr> = t"
          using Cons.prems(1) by (simp add: t_def)
        then show ?thesis using more t(1) by (simp add: rd)
      qed
      ultimately show ?thesis
        using more t v' by (auto simp: split_beta intro: sdnv_spec_Cons)
    qed
  next
    case False
    then have "2 ^ LENGTH('a) \<le> sdnv_digits ?acc [b] \<or> full < ?k"
      using pow_width by auto
    moreover have "rd s v b = (s\<lparr>sdnv_err := SDNV_ERROR_OVERFLOW, sdnv_st := SDNV_ERROR\<rparr>, v)"
    proof (cases "full < ?k")
      case True
      then show ?thesis by (rule rd_reject_long)
    next
      case le: False
      have "?k = full \<and> 2 ^ (LENGTH('a) - 7) \<le> unat v"
        using le False acc_of_small [OF Cons.prems(4)]
        by (force simp: acc_of_def not_less split: if_splits)
      then show ?thesis using rd_reject by blast
    qed
    ultimately show ?thesis
      by (auto simp: sdnv_spec_def intro!: exI [of _ "[b]"])
  qed
qed

lemma read_exact:
  "case sdnv_feed rd (sdnv_reset s) v0 bs of (s', v, rest) \<Rightarrow>
     sdnv_spec (Suc full) 0 0 bs s' v rest"
  using feed_spec [of "sdnv_reset s" v0 bs] by (simp add: sdnv_reset_def acc_of_def)

lemma write_read:
  "sdnv_feed rd (sdnv_reset s) v0 (sdnv_write_generic (get_size v) v @ cs) =
     (\<lparr>sdnv_st = SDNV_DONE, sdnv_err = SDNV_ERROR_NONE,
        bytes_parsed = of_nat (get_size v)\<rparr>, v, cs)"
proof -
  obtain n where n: "get_size v = Suc n"
    using size_pos [of v] by (cases "get_size v") auto
  obtain ms l where w: "sdnv_write_generic (Suc n) v = ms @ [l]" "length ms = n"
      "\<forall>b \<in> set ms. b AND 0x80 \<noteq> 0" "l AND 0x80 = 0" "sdnv_digits 0 (ms @ [l]) = unat v"
    using sdnv_write_generic_split [OF width, of v n] size_fits [of v] n by auto
  obtain s' v' rest where f: "sdnv_feed rd (sdnv_reset s) v0 (ms @ l # cs) = (s', v', rest)"
    by (cases "sdnv_feed rd (sdnv_reset s) v0 (ms @ l # cs)") auto
  have spec: "sdnv_spec (Suc full) 0 0 (ms @ l # cs) s' v' rest"
    using read_exact [where s = s and bs = "ms @ l # cs"] f by (metis case_prod_conv)
  have "n \<le> full" using size_le [of v] n by simp
  then have res: "rest = cs" "sdnv_st s' = SDNV_DONE" "sdnv_err s' = SDNV_ERROR_NONE"
      "unat v' = unat v" "unat (bytes_parsed s') = Suc n"
    using sdnv_spec_marked [OF spec w(3,4)] w(2,5) by auto
  have "bytes_parsed s' = of_nat (Suc n)"
    unfolding res(5) [symmetric] by simp
  then have "s' = \<lparr>sdnv_st = SDNV_DONE, sdnv_err = SDNV_ERROR_NONE, bytes_parsed = of_nat (Suc n)\<rparr>"
    using res(2,3) by (cases s') simp
  then show ?thesis
    using res f w(1) n by (simp add: word_unat_eq_iff)
qed

end

section \<open>The four widths\<close>

lemma and_mask_0_iff:
  fixes v m :: "'a::len word"
  assumes "n < LENGTH('a)" and "m = NOT (mask n)"
  shows "v AND m = 0 \<longleftrightarrow> unat v < 2 ^ n"
  using and_not_mask_0_iff [OF assms(1)] assms(2) by simp

lemma sdnv_mask_bounds [mask_simps]:
  "(v :: u8) AND 0x80 = 0 \<longleftrightarrow> unat v < 2 ^ 7"
  "(w :: u16) AND 0xFF80 = 0 \<longleftrightarrow> unat w < 2 ^ 7"
  "w AND 0xC000 = 0 \<longleftrightarrow> unat w < 2 ^ 14"
  "(x :: u32) AND 0xFFFFFF80 = 0 \<longleftrightarrow> unat x < 2 ^ 7"
  "x AND 0xFFFFC000 = 0 \<longleftrightarrow> unat x < 2 ^ 14"
  "x AND 0xFFE00000 = 0 \<longleftrightarrow> unat x < 2 ^ 21"
  "x AND 0xF0000000 = 0 \<longleftrightarrow> unat x < 2 ^ 28"
  "(y :: u64) AND 0xFFFFFFFFFFFFFF80 = 0 \<longleftrightarrow> unat y < 2 ^ 7"
  "y AND 0xFFFFFFFFFFFFC000 = 0 \<longleftrightarrow> unat y < 2 ^ 14"
  "y AND 0xFFFFFFFFFFE00000 = 0 \<longleftrightarrow> unat y < 2 ^ 21"
  "y AND 0xFFFFFFFFF0000000 = 0 \<longleftrightarrow> unat y < 2 ^ 28"
  "y AND 0xFFFFFFF800000000 = 0 \<longleftrightarrow> unat y < 2 ^ 35"
  "y AND 0xFFFFFC0000000000 = 0 \<longleftrightarrow> unat y < 2 ^ 42"
  "y AND 0xFFFE000000000000 = 0 \<longleftrightarrow> unat y < 2 ^ 49"
  "y AND 0xFF00000000000000 = 0 \<longleftrightarrow> unat y < 2 ^ 56"
  "y AND 0x8000000000000000 = 0 \<longleftrightarrow> unat y < 2 ^ 63"
  by (rule and_mask_0_iff; simp add: mask_eq_exp_minus_1)+

lemma power128: "(128::nat) ^ n = 2 ^ (7 * n)"
  by (simp add: power_mult)

lemma least_power_bound:
  fixes v :: nat
  assumes "v < 2 ^ (7 * n)" and "\<not> v < 2 ^ (7 * k)"
  shows "Suc k \<le> n"
proof (rule ccontr)
  assume "\<not> ?thesis"
  then have "(2::nat) ^ (7 * n) \<le> 2 ^ (7 * k)"
    by (intro power_increasing) auto
  then show False using assms by linarith
qed

interpretation u8: sdnv_codec sdnv_validate_byte_u8 sdnv_get_size_u8 1
proof unfold_locales
  fix s v show "sdnv_validate_byte_u8 s v \<longleftrightarrow> unat (bytes_parsed s) < 1 \<or>
      (unat (bytes_parsed s) = 1 \<and> unat v < 2 ^ (LENGTH(8) - 7))"
    by (auto simp: sdnv_validate_byte_u8_def word_less_nat_alt word_le_nat_alt word_unat_eq_iff)
next
  fix v :: u8
  show "unat v < 128 ^ sdnv_get_size_u8 v"
    using unsigned_less [of v, where ?'a = nat]
    by (simp add: sdnv_get_size_u8_def mask_simps)
next
  fix v :: u8 and n :: nat
  assume "unat v < 128 ^ n" "0 < n"
  then show "sdnv_get_size_u8 v \<le> n"
    using least_power_bound [of "unat v" n 1]
    by (auto simp: sdnv_get_size_u8_def mask_simps power128)
qed (auto simp: sdnv_get_size_u8_def)

interpretation u16: sdnv_codec sdnv_validate_byte_u16 sdnv_get_size_u16 2
proof unfold_locales
  fix s v show "sdnv_validate_byte_u16 s v \<longleftrightarrow> unat (bytes_parsed s) < 2 \<or>
      (unat (bytes_parsed s) = 2 \<and> unat v < 2 ^ (LENGTH(16) - 7))"
    by (auto simp: sdnv_validate_byte_u16_def word_less_nat_alt word_le_nat_alt word_unat_eq_iff)
next
  fix v :: u16
  show "unat v < 128 ^ sdnv_get_size_u16 v"
    using unsigned_less [of v, where ?'a = nat]
    by (simp add: sdnv_get_size_u16_def mask_simps)
next
  fix v :: u16 and n :: nat
  assume "unat v < 128 ^ n" "0 < n"
  then show "sdnv_get_size_u16 v \<le> n"
    using least_power_bound [of "unat v" n 1] least_power_bound [of "unat v" n 2]
      
    by (auto simp: sdnv_get_size_u16_def mask_simps power128)
qed (auto simp: sdnv_get_size_u16_def)

interpretation u32: sdnv_codec sdnv_validate_byte_u32 sdnv_get_size_u32 4
proof unfold_locales
  fix s v show "sdnv_validate_byte_u32 s v \<longleftrightarrow> unat (bytes_parsed s) < 4 \<or>
      (unat (bytes_parsed s) = 4 \<and> unat v < 2 ^ (LENGTH(32) - 7))"
    by (auto simp: sdnv_validate_byte_u32_def word_less_nat_alt word_le_nat_alt word_unat_eq_iff)
next
  fix v :: u32
  show "unat v < 128 ^ sdnv_get_size_u32 v"
    using unsigned_less [of v, where ?'a = nat]
    by (simp add: sdnv_get_size_u32_def mask_simps)
next
  fix v :: u32 and n :: nat
  assume "unat v < 128 ^ n" "0 < n"
  then show "sdnv_get_size_u32 v \<le> n"
    using least_power_bound [of "unat v" n 1] least_power_bound [of "unat v" n 2]
       least_power_bound [of "unat v" n 3] least_power_bound [of "unat v" n 4]
      
    by (auto simp: sdnv_get_size_u32_def mask_simps power128)
qed (auto simp: sdnv_get_size_u32_def)

interpretation u64: sdnv_codec sdnv_validate_byte_u64 sdnv_get_size_u64 9
proof unfold_locales
  fix s v show "sdnv_validate_byte_u64 s v \<longleftrightarrow> unat (bytes_parsed s) < 9 \<or>
      (unat (bytes_parsed s) = 9 \<and> unat v < 2 ^ (LENGTH(64) - 7))"
    by (auto simp: sdnv_validate_byte_u64_def word_less_nat_alt word_le_nat_alt word_unat_eq_iff)
next
  fix v :: u64
  show "unat v < 128 ^ sdnv_get_size_u64 v"
    using unsigned_less [of v, where ?'a = nat]
    by (simp add: sdnv_get_size_u64_def mask_simps)
next
  fix v :: u64 and n :: nat
  assume "unat v < 128 ^ n" "0 < n"
  then show "sdnv_get_size_u64 v \<le> n"
    using least_power_bound [of "unat v" n 1] least_power_bound [of "unat v" n 2]
       least_power_bound [of "unat v" n 3] least_power_bound [of "unat v" n 4]
       least_power_bound [of "unat v" n 5] least_power_bound [of "unat v" n 6]
       least_power_bound [of "unat v" n 7] least_power_bound [of "unat v" n 8]
       least_power_bound [of "unat v" n 9]
    by (auto simp: sdnv_get_size_u64_def mask_simps power128)
qed (auto simp: sdnv_get_size_u64_def)

section \<open>Properties\<close>

text \<open>
  C31 (round trip). For every width, value, content of the reader's state before its reset and
  bytes that follow: feeding the bytes the writer produced to the reset reader ends in
  \<open>SDNV_DONE\<close> without an error, with exactly the value written and the size the writer returned,
  and leaves exactly the following bytes unread.
\<close>

theorem sdnv_write_read:
  "sdnv_feed sdnv_read_u8 (sdnv_reset s) v0 (snd (sdnv_write_u8 v) @ cs) =
     (\<lparr>sdnv_st = SDNV_DONE, sdnv_err = SDNV_ERROR_NONE,
       bytes_parsed = of_nat (fst (sdnv_write_u8 v))\<rparr>, v, cs) \<and>
   sdnv_feed sdnv_read_u16 (sdnv_reset s) w0 (snd (sdnv_write_u16 w) @ cs) =
     (\<lparr>sdnv_st = SDNV_DONE, sdnv_err = SDNV_ERROR_NONE,
       bytes_parsed = of_nat (fst (sdnv_write_u16 w))\<rparr>, w, cs) \<and>
   sdnv_feed sdnv_read_u32 (sdnv_reset s) x0 (snd (sdnv_write_u32 x) @ cs) =
     (\<lparr>sdnv_st = SDNV_DONE, sdnv_err = SDNV_ERROR_NONE,
       bytes_parsed = of_nat (fst (sdnv_write_u32 x))\<rparr>, x, cs) \<and>
   sdnv_feed sdnv_read_u64 (sdnv_reset s) y0 (snd (sdnv_write_u64 y) @ cs) =
     (\<lparr>sdnv_st = SDNV_DONE, sdnv_err = SDNV_ERROR_NONE,
       bytes_parsed = of_nat (fst (sdnv_write_u64 y))\<rparr>, y, cs)"
  by (simp add: sdnv_read_u8_def sdnv_read_u16_def sdnv_read_u32_def sdnv_read_u64_def
      sdnv_write_u8_def sdnv_write_u16_def sdnv_write_u32_def sdnv_write_u64_def Let_def
      u8.write_read u16.write_read u32.write_read u64.write_read)

text \<open>
  C32 (bounds). Whatever bytes arrive, a reset reader never wraps around silently: when it is done
  the value is exactly the number the consumed bytes denote; when it reports an error it is an
  overflow, and the consumed bytes denote a number that does not fit or are more than the longest
  supported encoding (2, 3, 5 and 10 bytes).
\<close>

theorem sdnv_read_exact:
  "(case sdnv_feed sdnv_read_u8 (sdnv_reset s) v0 bs of (s', v, rest) \<Rightarrow> sdnv_spec 2 0 0 bs s' v rest) \<and>
   (case sdnv_feed sdnv_read_u16 (sdnv_reset s) w0 bs of (s', w, rest) \<Rightarrow> sdnv_spec 3 0 0 bs s' w rest) \<and>
   (case sdnv_feed sdnv_read_u32 (sdnv_reset s) x0 bs of (s', x, rest) \<Rightarrow> sdnv_spec 5 0 0 bs s' x rest) \<and>
   (case sdnv_feed sdnv_read_u64 (sdnv_reset s) y0 bs of (s', y, rest) \<Rightarrow> sdnv_spec 10 0 0 bs s' y rest)"
  using u8.read_exact [where s = s and ?v0.0 = v0 and bs = bs]
    u16.read_exact [where s = s and ?v0.0 = w0 and bs = bs]
    u32.read_exact [where s = s and ?v0.0 = x0 and bs = bs]
    u64.read_exact [where s = s and ?v0.0 = y0 and bs = bs]
  by (simp add: sdnv_read_u8_def sdnv_read_u16_def sdnv_read_u32_def sdnv_read_u64_def
      eval_nat_numeral)

text \<open>
  The size functions, four different comparison cascades in the code, agree
  with one definition: the least positive number of base-128 digits that hold the value, and this
  is the number of bytes written.
\<close>

theorem sdnv_size_least:
  "sdnv_get_size_u8 v = (LEAST n. 0 < n \<and> unat v < 128 ^ n) \<and>
   sdnv_get_size_u16 w = (LEAST n. 0 < n \<and> unat w < 128 ^ n) \<and>
   sdnv_get_size_u32 x = (LEAST n. 0 < n \<and> unat x < 128 ^ n) \<and>
   sdnv_get_size_u64 y = (LEAST n. 0 < n \<and> unat y < 128 ^ n) \<and>
   length (snd (sdnv_write_u64 y)) = sdnv_get_size_u64 y"
  by (auto simp: sdnv_write_u64_def Let_def intro!: Least_equality [symmetric]
      u8.size_least u16.size_least u32.size_least u64.size_least
      u8.size_pos u16.size_pos u32.size_pos u64.size_pos
      u8.size_fits u16.size_fits u32.size_fits u64.size_fits)

end
