(* ===== verification/Crc.thy ===== *)
theory Crc
  imports Upcn_Prelude
begin

text \<open>
  The table-driven checksums of \<open>components/upcn/crc.c\<close>: CRC-16 X.25 and CRC-32-C, whose tables are
  reflected, and CRC-16 CCITT-FALSE. A \<open>crc_stream\<close> of \<open>include/upcn/crc.h\<close> holds two function
  pointers and the checksum; the pointers are only ever set together by \<open>crc_init\<close>, so the model
  keeps the \<open>crc_version\<close> they were set for. The reference is the bit-serial division by the
  generator polynomial; the locales \<open>crc_reflected\<close> and \<open>crc_msb_first\<close> state what makes a table
  agree with it, and are interpreted on the three tables of the source.
\<close>

section \<open>Model\<close>

datatype crc_version = CRC16_X25 | CRC16_CCITT_FALSE | CRC32

record crc_stream =
  crc_feed_version :: crc_version
  checksum :: u32

definition crc16_x25_table :: "u32 list" where
  "crc16_x25_table =
     [0x0000, 0x1189, 0x2312, 0x329b, 0x4624, 0x57ad, 0x6536, 0x74bf,
      0x8c48, 0x9dc1, 0xaf5a, 0xbed3, 0xca6c, 0xdbe5, 0xe97e, 0xf8f7,
      0x1081, 0x0108, 0x3393, 0x221a, 0x56a5, 0x472c, 0x75b7, 0x643e,
      0x9cc9, 0x8d40, 0xbfdb, 0xae52, 0xdaed, 0xcb64, 0xf9ff, 0xe876,
      0x2102, 0x308b, 0x0210, 0x1399, 0x6726, 0x76af, 0x4434, 0x55bd,
      0xad4a, 0xbcc3, 0x8e58, 0x9fd1, 0xeb6e, 0xfae7, 0xc87c, 0xd9f5,
      0x3183, 0x200a, 0x1291, 0x0318, 0x77a7, 0x662e, 0x54b5, 0x453c,
      0xbdcb, 0xac42, 0x9ed9, 0x8f50, 0xfbef, 0xea66, 0xd8fd, 0xc974,
      0x4204, 0x538d, 0x6116, 0x709f, 0x0420, 0x15a9, 0x2732, 0x36bb,
      0xce4c, 0xdfc5, 0xed5e, 0xfcd7, 0x8868, 0x99e1, 0xab7a, 0xbaf3,
      0x5285, 0x430c, 0x7197, 0x601e, 0x14a1, 0x0528, 0x37b3, 0x263a,
      0xdecd, 0xcf44, 0xfddf, 0xec56, 0x98e9, 0x8960, 0xbbfb, 0xaa72,
      0x6306, 0x728f, 0x4014, 0x519d, 0x2522, 0x34ab, 0x0630, 0x17b9,
      0xef4e, 0xfec7, 0xcc5c, 0xddd5, 0xa96a, 0xb8e3, 0x8a78, 0x9bf1,
      0x7387, 0x620e, 0x5095, 0x411c, 0x35a3, 0x242a, 0x16b1, 0x0738,
      0xffcf, 0xee46, 0xdcdd, 0xcd54, 0xb9eb, 0xa862, 0x9af9, 0x8b70,
      0x8408, 0x9581, 0xa71a, 0xb693, 0xc22c, 0xd3a5, 0xe13e, 0xf0b7,
      0x0840, 0x19c9, 0x2b52, 0x3adb, 0x4e64, 0x5fed, 0x6d76, 0x7cff,
      0x9489, 0x8500, 0xb79b, 0xa612, 0xd2ad, 0xc324, 0xf1bf, 0xe036,
      0x18c1, 0x0948, 0x3bd3, 0x2a5a, 0x5ee5, 0x4f6c, 0x7df7, 0x6c7e,
      0xa50a, 0xb483, 0x8618, 0x9791, 0xe32e, 0xf2a7, 0xc03c, 0xd1b5,
      0x2942, 0x38cb, 0x0a50, 0x1bd9, 0x6f66, 0x7eef, 0x4c74, 0x5dfd,
      0xb58b, 0xa402, 0x9699, 0x8710, 0xf3af, 0xe226, 0xd0bd, 0xc134,
      0x39c3, 0x284a, 0x1ad1, 0x0b58, 0x7fe7, 0x6e6e, 0x5cf5, 0x4d7c,
      0xc60c, 0xd785, 0xe51e, 0xf497, 0x8028, 0x91a1, 0xa33a, 0xb2b3,
      0x4a44, 0x5bcd, 0x6956, 0x78df, 0x0c60, 0x1de9, 0x2f72, 0x3efb,
      0xd68d, 0xc704, 0xf59f, 0xe416, 0x90a9, 0x8120, 0xb3bb, 0xa232,
      0x5ac5, 0x4b4c, 0x79d7, 0x685e, 0x1ce1, 0x0d68, 0x3ff3, 0x2e7a,
      0xe70e, 0xf687, 0xc41c, 0xd595, 0xa12a, 0xb0a3, 0x8238, 0x93b1,
      0x6b46, 0x7acf, 0x4854, 0x59dd, 0x2d62, 0x3ceb, 0x0e70, 0x1ff9,
      0xf78f, 0xe606, 0xd49d, 0xc514, 0xb1ab, 0xa022, 0x92b9, 0x8330,
      0x7bc7, 0x6a4e, 0x58d5, 0x495c, 0x3de3, 0x2c6a, 0x1ef1, 0x0f78]"

definition crc16_ccitt_false_table :: "u16 list" where
  "crc16_ccitt_false_table =
     [0x0000, 0x1021, 0x2042, 0x3063, 0x4084, 0x50a5, 0x60c6, 0x70e7,
      0x8108, 0x9129, 0xa14a, 0xb16b, 0xc18c, 0xd1ad, 0xe1ce, 0xf1ef,
      0x1231, 0x0210, 0x3273, 0x2252, 0x52b5, 0x4294, 0x72f7, 0x62d6,
      0x9339, 0x8318, 0xb37b, 0xa35a, 0xd3bd, 0xc39c, 0xf3ff, 0xe3de,
      0x2462, 0x3443, 0x0420, 0x1401, 0x64e6, 0x74c7, 0x44a4, 0x5485,
      0xa56a, 0xb54b, 0x8528, 0x9509, 0xe5ee, 0xf5cf, 0xc5ac, 0xd58d,
      0x3653, 0x2672, 0x1611, 0x0630, 0x76d7, 0x66f6, 0x5695, 0x46b4,
      0xb75b, 0xa77a, 0x9719, 0x8738, 0xf7df, 0xe7fe, 0xd79d, 0xc7bc,
      0x48c4, 0x58e5, 0x6886, 0x78a7, 0x0840, 0x1861, 0x2802, 0x3823,
      0xc9cc, 0xd9ed, 0xe98e, 0xf9af, 0x8948, 0x9969, 0xa90a, 0xb92b,
      0x5af5, 0x4ad4, 0x7ab7, 0x6a96, 0x1a71, 0x0a50, 0x3a33, 0x2a12,
      0xdbfd, 0xcbdc, 0xfbbf, 0xeb9e, 0x9b79, 0x8b58, 0xbb3b, 0xab1a,
      0x6ca6, 0x7c87, 0x4ce4, 0x5cc5, 0x2c22, 0x3c03, 0x0c60, 0x1c41,
      0xedae, 0xfd8f, 0xcdec, 0xddcd, 0xad2a, 0xbd0b, 0x8d68, 0x9d49,
      0x7e97, 0x6eb6, 0x5ed5, 0x4ef4, 0x3e13, 0x2e32, 0x1e51, 0x0e70,
      0xff9f, 0xefbe, 0xdfdd, 0xcffc, 0xbf1b, 0xaf3a, 0x9f59, 0x8f78,
      0x9188, 0x81a9, 0xb1ca, 0xa1eb, 0xd10c, 0xc12d, 0xf14e, 0xe16f,
      0x1080, 0x00a1, 0x30c2, 0x20e3, 0x5004, 0x4025, 0x7046, 0x6067,
      0x83b9, 0x9398, 0xa3fb, 0xb3da, 0xc33d, 0xd31c, 0xe37f, 0xf35e,
      0x02b1, 0x1290, 0x22f3, 0x32d2, 0x4235, 0x5214, 0x6277, 0x7256,
      0xb5ea, 0xa5cb, 0x95a8, 0x8589, 0xf56e, 0xe54f, 0xd52c, 0xc50d,
      0x34e2, 0x24c3, 0x14a0, 0x0481, 0x7466, 0x6447, 0x5424, 0x4405,
      0xa7db, 0xb7fa, 0x8799, 0x97b8, 0xe75f, 0xf77e, 0xc71d, 0xd73c,
      0x26d3, 0x36f2, 0x0691, 0x16b0, 0x6657, 0x7676, 0x4615, 0x5634,
      0xd94c, 0xc96d, 0xf90e, 0xe92f, 0x99c8, 0x89e9, 0xb98a, 0xa9ab,
      0x5844, 0x4865, 0x7806, 0x6827, 0x18c0, 0x08e1, 0x3882, 0x28a3,
      0xcb7d, 0xdb5c, 0xeb3f, 0xfb1e, 0x8bf9, 0x9bd8, 0xabbb, 0xbb9a,
      0x4a75, 0x5a54, 0x6a37, 0x7a16, 0x0af1, 0x1ad0, 0x2ab3, 0x3a92,
      0xfd2e, 0xed0f, 0xdd6c, 0xcd4d, 0xbdaa, 0xad8b, 0x9de8, 0x8dc9,
      0x7c26, 0x6c07, 0x5c64, 0x4c45, 0x3ca2, 0x2c83, 0x1ce0, 0x0cc1,
      0xef1f, 0xff3e, 0xcf5d, 0xdf7c, 0xaf9b, 0xbfba, 0x8fd9, 0x9ff8,
      0x6e17, 0x7e36, 0x4e55, 0x5e74, 0x2e93, 0x3eb2, 0x0ed1, 0x1ef0]"

definition crc32_table :: "u32 list" where
  "crc32_table =
     [0x00000000, 0xf26b8303, 0xe13b70f7, 0x1350f3f4, 0xc79a971f, 0x35f1141c, 0x26a1e7e8, 0xd4ca64eb,
      0x8ad958cf, 0x78b2dbcc, 0x6be22838, 0x9989ab3b, 0x4d43cfd0, 0xbf284cd3, 0xac78bf27, 0x5e133c24,
      0x105ec76f, 0xe235446c, 0xf165b798, 0x030e349b, 0xd7c45070, 0x25afd373, 0x36ff2087, 0xc494a384,
      0x9a879fa0, 0x68ec1ca3, 0x7bbcef57, 0x89d76c54, 0x5d1d08bf, 0xaf768bbc, 0xbc267848, 0x4e4dfb4b,
      0x20bd8ede, 0xd2d60ddd, 0xc186fe29, 0x33ed7d2a, 0xe72719c1, 0x154c9ac2, 0x061c6936, 0xf477ea35,
      0xaa64d611, 0x580f5512, 0x4b5fa6e6, 0xb93425e5, 0x6dfe410e, 0x9f95c20d, 0x8cc531f9, 0x7eaeb2fa,
      0x30e349b1, 0xc288cab2, 0xd1d83946, 0x23b3ba45, 0xf779deae, 0x05125dad, 0x1642ae59, 0xe4292d5a,
      0xba3a117e, 0x4851927d, 0x5b016189, 0xa96ae28a, 0x7da08661, 0x8fcb0562, 0x9c9bf696, 0x6ef07595,
      0x417b1dbc, 0xb3109ebf, 0xa0406d4b, 0x522bee48, 0x86e18aa3, 0x748a09a0, 0x67dafa54, 0x95b17957,
      0xcba24573, 0x39c9c670, 0x2a993584, 0xd8f2b687, 0x0c38d26c, 0xfe53516f, 0xed03a29b, 0x1f682198,
      0x5125dad3, 0xa34e59d0, 0xb01eaa24, 0x42752927, 0x96bf4dcc, 0x64d4cecf, 0x77843d3b, 0x85efbe38,
      0xdbfc821c, 0x2997011f, 0x3ac7f2eb, 0xc8ac71e8, 0x1c661503, 0xee0d9600, 0xfd5d65f4, 0x0f36e6f7,
      0x61c69362, 0x93ad1061, 0x80fde395, 0x72966096, 0xa65c047d, 0x5437877e, 0x4767748a, 0xb50cf789,
      0xeb1fcbad, 0x197448ae, 0x0a24bb5a, 0xf84f3859, 0x2c855cb2, 0xdeeedfb1, 0xcdbe2c45, 0x3fd5af46,
      0x7198540d, 0x83f3d70e, 0x90a324fa, 0x62c8a7f9, 0xb602c312, 0x44694011, 0x5739b3e5, 0xa55230e6,
      0xfb410cc2, 0x092a8fc1, 0x1a7a7c35, 0xe811ff36, 0x3cdb9bdd, 0xceb018de, 0xdde0eb2a, 0x2f8b6829,
      0x82f63b78, 0x709db87b, 0x63cd4b8f, 0x91a6c88c, 0x456cac67, 0xb7072f64, 0xa457dc90, 0x563c5f93,
      0x082f63b7, 0xfa44e0b4, 0xe9141340, 0x1b7f9043, 0xcfb5f4a8, 0x3dde77ab, 0x2e8e845f, 0xdce5075c,
      0x92a8fc17, 0x60c37f14, 0x73938ce0, 0x81f80fe3, 0x55326b08, 0xa759e80b, 0xb4091bff, 0x466298fc,
      0x1871a4d8, 0xea1a27db, 0xf94ad42f, 0x0b21572c, 0xdfeb33c7, 0x2d80b0c4, 0x3ed04330, 0xccbbc033,
      0xa24bb5a6, 0x502036a5, 0x4370c551, 0xb11b4652, 0x65d122b9, 0x97baa1ba, 0x84ea524e, 0x7681d14d,
      0x2892ed69, 0xdaf96e6a, 0xc9a99d9e, 0x3bc21e9d, 0xef087a76, 0x1d63f975, 0x0e330a81, 0xfc588982,
      0xb21572c9, 0x407ef1ca, 0x532e023e, 0xa145813d, 0x758fe5d6, 0x87e466d5, 0x94b49521, 0x66df1622,
      0x38cc2a06, 0xcaa7a905, 0xd9f75af1, 0x2b9cd9f2, 0xff56bd19, 0x0d3d3e1a, 0x1e6dcdee, 0xec064eed,
      0xc38d26c4, 0x31e6a5c7, 0x22b65633, 0xd0ddd530, 0x0417b1db, 0xf67c32d8, 0xe52cc12c, 0x1747422f,
      0x49547e0b, 0xbb3ffd08, 0xa86f0efc, 0x5a048dff, 0x8ecee914, 0x7ca56a17, 0x6ff599e3, 0x9d9e1ae0,
      0xd3d3e1ab, 0x21b862a8, 0x32e8915c, 0xc083125f, 0x144976b4, 0xe622f5b7, 0xf5720643, 0x07198540,
      0x590ab964, 0xab613a67, 0xb831c993, 0x4a5a4a90, 0x9e902e7b, 0x6cfbad78, 0x7fab5e8c, 0x8dc0dd8f,
      0xe330a81a, 0x115b2b19, 0x020bd8ed, 0xf0605bee, 0x24aa3f05, 0xd6c1bc06, 0xc5914ff2, 0x37faccf1,
      0x69e9f0d5, 0x9b8273d6, 0x88d28022, 0x7ab90321, 0xae7367ca, 0x5c18e4c9, 0x4f48173d, 0xbd23943e,
      0xf36e6f75, 0x0105ec76, 0x12551f82, 0xe03e9c81, 0x34f4f86a, 0xc69f7b69, 0xd5cf889d, 0x27a40b9e,
      0x79b737ba, 0x8bdcb4b9, 0x988c474d, 0x6ae7c44e, 0xbe2da0a5, 0x4c4623a6, 0x5f16d052, 0xad7d5351]"

definition crc16_x25_feed :: "crc_stream \<Rightarrow> u8 \<Rightarrow> crc_stream" where
  "crc16_x25_feed crc byte =
     (let index = ucast (checksum crc AND 0xff) XOR byte
      in crc\<lparr>checksum := drop_bit 8 (checksum crc) XOR (crc16_x25_table ! unat index)\<rparr>)"

definition crc16_x25_feed_eof :: "crc_stream \<Rightarrow> crc_stream" where
  "crc16_x25_feed_eof crc = crc\<lparr>checksum := checksum crc XOR 0xffff\<rparr>"

text \<open>
  The local variable \<open>crc\<close> of the one-shot functions is \<open>uint16_t\<close> (\<open>uint32_t\<close> for \<open>crc32\<close>): the
  16-bit value is widened for the XOR with the 32-bit table entry and truncated by the assignment.
\<close>

fun crc16_x25_loop :: "u16 \<Rightarrow> bytes \<Rightarrow> u16" where
  "crc16_x25_loop crc [] = crc"
| "crc16_x25_loop crc (b # p) =
     crc16_x25_loop
       (ucast ((ucast (drop_bit 8 crc) :: u32) XOR
          (crc16_x25_table ! unat (ucast (crc AND 0xff) XOR b)))) p"

definition crc16_x25 :: "bytes \<Rightarrow> u16" where
  "crc16_x25 data = crc16_x25_loop 0xffff data XOR 0xffff"

definition crc16_ccitt_false_feed :: "crc_stream \<Rightarrow> u8 \<Rightarrow> crc_stream" where
  "crc16_ccitt_false_feed crc byte =
     (let index = (ucast ((drop_bit 8 (checksum crc) XOR ucast byte) AND 0x00ff) :: u8);
          c = push_bit 8 (checksum crc) AND 0xff00
      in crc\<lparr>checksum := c XOR ucast (crc16_ccitt_false_table ! unat index)\<rparr>)"

definition crc16_ccitt_false_feed_eof :: "crc_stream \<Rightarrow> crc_stream" where
  "crc16_ccitt_false_feed_eof crc = crc"

fun crc16_ccitt_false_loop :: "u16 \<Rightarrow> bytes \<Rightarrow> u16" where
  "crc16_ccitt_false_loop crc [] = crc"
| "crc16_ccitt_false_loop crc (b # p) =
     (let index = (ucast ((drop_bit 8 crc XOR ucast b) AND 0x00ff) :: u8);
          c = push_bit 8 crc AND 0xff00
      in crc16_ccitt_false_loop (c XOR (crc16_ccitt_false_table ! unat index)) p)"

definition crc16_ccitt_false :: "bytes \<Rightarrow> u16" where
  "crc16_ccitt_false data = crc16_ccitt_false_loop 0xffff data"

definition crc32_feed :: "crc_stream \<Rightarrow> u8 \<Rightarrow> crc_stream" where
  "crc32_feed crc byte =
     (let index = ucast (checksum crc AND 0xff) XOR byte
      in crc\<lparr>checksum := drop_bit 8 (checksum crc) XOR (crc32_table ! unat index)\<rparr>)"

definition crc32_feed_eof :: "crc_stream \<Rightarrow> crc_stream" where
  "crc32_feed_eof crc = crc\<lparr>checksum := checksum crc XOR 0xffffffff\<rparr>"

fun crc32_loop :: "u32 \<Rightarrow> bytes \<Rightarrow> u32" where
  "crc32_loop crc [] = crc"
| "crc32_loop crc (b # p) =
     crc32_loop (drop_bit 8 crc XOR (crc32_table ! unat (ucast (crc AND 0xff) XOR b))) p"

definition crc32 :: "bytes \<Rightarrow> u32" where
  "crc32 data = crc32_loop 0xffffffff data XOR 0xffffffff"

definition crc_feed :: "crc_stream \<Rightarrow> u8 \<Rightarrow> crc_stream" where
  "crc_feed crc byte = (case crc_feed_version crc of
       CRC16_X25 \<Rightarrow> crc16_x25_feed crc byte
     | CRC16_CCITT_FALSE \<Rightarrow> crc16_ccitt_false_feed crc byte
     | CRC32 \<Rightarrow> crc32_feed crc byte)"

definition crc_feed_eof :: "crc_stream \<Rightarrow> crc_stream" where
  "crc_feed_eof crc = (case crc_feed_version crc of
       CRC16_X25 \<Rightarrow> crc16_x25_feed_eof crc
     | CRC16_CCITT_FALSE \<Rightarrow> crc16_ccitt_false_feed_eof crc
     | CRC32 \<Rightarrow> crc32_feed_eof crc)"

fun crc_feed_bytes :: "crc_stream \<Rightarrow> bytes \<Rightarrow> crc_stream" where
  "crc_feed_bytes crc [] = crc"
| "crc_feed_bytes crc (b # p) = crc_feed_bytes (crc_feed crc b) p"

definition crc_init :: "crc_version \<Rightarrow> crc_stream" where
  "crc_init version = (case version of
       CRC16_X25 \<Rightarrow> \<lparr>crc_feed_version = CRC16_X25, checksum = 0xffff\<rparr>
     | CRC16_CCITT_FALSE \<Rightarrow> \<lparr>crc_feed_version = CRC16_CCITT_FALSE, checksum = 0xffff\<rparr>
     | CRC32 \<Rightarrow> \<lparr>crc_feed_version = CRC32, checksum = 0xffffffff\<rparr>)"

section \<open>Bit-serial reference\<close>

text \<open>
  One step of the division, least significant bit first (the polynomial is given reflected) and
  most significant bit first; a byte is eight steps.
\<close>

definition crc_step_lsb :: "'a::len word \<Rightarrow> 'a word \<Rightarrow> 'a word" where
  "crc_step_lsb poly c = (if bit c 0 then drop_bit 1 c XOR poly else drop_bit 1 c)"

definition crc_byte_lsb :: "'a::len word \<Rightarrow> 'a word \<Rightarrow> u8 \<Rightarrow> 'a word" where
  "crc_byte_lsb poly c b = (crc_step_lsb poly ^^ 8) (c XOR ucast b)"

definition crc_step_msb :: "'a::len word \<Rightarrow> 'a word \<Rightarrow> 'a word" where
  "crc_step_msb poly c =
     (if bit c (LENGTH('a) - 1) then push_bit 1 c XOR poly else push_bit 1 c)"

definition crc_byte_msb :: "'a::len word \<Rightarrow> 'a word \<Rightarrow> u8 \<Rightarrow> 'a word" where
  "crc_byte_msb poly c b = (crc_step_msb poly ^^ 8) (c XOR push_bit (LENGTH('a) - 8) (ucast b))"

section \<open>Linearity\<close>

text \<open>
  A step is linear over XOR, so its effect on all 256 values of a byte is the XOR span of its
  effect on the eight single bits.
\<close>

fun xor_span :: "'a::len word list \<Rightarrow> 'a word list" where
  "xor_span [] = [0]"
| "xor_span (b # bs) = (let t = xor_span bs in t @ map (\<lambda>x. b XOR x) t)"

lemma length_xor_span [simp]: "length (xor_span bs) = 2 ^ length bs"
  by (induction bs) (auto simp: Let_def)

definition xor_linear :: "('a::len word \<Rightarrow> 'b::len word) \<Rightarrow> bool" where
  "xor_linear f \<longleftrightarrow> (\<forall>x y. f (x XOR y) = f x XOR f y)"

lemma xor_linear_0: "xor_linear f \<Longrightarrow> f 0 = 0"
  unfolding xor_linear_def by (metis xor_self_eq)

lemma xor_linear_funpow:
  "xor_linear (f :: 'a::len word \<Rightarrow> 'a word) \<Longrightarrow> xor_linear (f ^^ n)"
  by (induction n) (auto simp: xor_linear_def)

lemma xor_linear_step_lsb: "xor_linear (crc_step_lsb poly)"
  unfolding xor_linear_def crc_step_lsb_def
  by (auto simp: bit_eq_iff bit_simps)

lemma xor_linear_step_msb: "xor_linear (crc_step_msb poly)"
  unfolding xor_linear_def crc_step_msb_def
  by (auto simp: bit_eq_iff bit_simps)

lemma of_nat_high_bit_xor:
  assumes "i < 2 ^ n"
  shows "(of_nat (2 ^ n + i) :: 'a::len word) = 2 ^ n XOR of_nat i"
proof -
  have "\<not> bit i n"
    using assms by (simp add: bit_nat_def)
  then have "(2 ^ n :: 'a word) AND of_nat i = 0"
    by (intro bit_eqI) (auto simp: bit_simps)
  then show ?thesis
    by (simp add: disjunctive_xor_eq_or disjunctive_add_eq_or)
qed

lemma xor_span_nth:
  assumes "xor_linear (f :: 'a::len word \<Rightarrow> 'b::len word)" and "i < 2 ^ n"
  shows "xor_span (map (\<lambda>k. f (2 ^ k)) (rev [0..<n])) ! i = f (of_nat i)"
  using assms(2)
proof (induction n arbitrary: i)
  case 0
  then show ?case using xor_linear_0 [OF assms(1)] by simp
next
  case (Suc n)
  show ?case
  proof (cases "i < 2 ^ n")
    case True
    then show ?thesis using Suc.IH by (simp add: Let_def nth_append)
  next
    case False
    define j where "j = i - 2 ^ n"
    have j: "i = 2 ^ n + j" "j < 2 ^ n"
      using False Suc.prems by (auto simp: j_def)
    have "f (of_nat i) = f (2 ^ n) XOR f (of_nat j)"
      using assms(1) of_nat_high_bit_xor [OF j(2)] unfolding xor_linear_def j(1) by metis
    then show ?thesis
      using Suc.IH [OF j(2)] j by (simp add: Let_def nth_append)
  qed
qed

section \<open>Table lookup against bit-serial division\<close>

lemma step_lsb_low_zero:
  "\<forall>k < n. \<not> bit c k \<Longrightarrow> (crc_step_lsb poly ^^ n) c = drop_bit n c"
proof (induction n arbitrary: c)
  case (Suc n)
  have "crc_step_lsb poly c = drop_bit 1 c"
    using Suc.prems by (simp add: crc_step_lsb_def)
  moreover have "\<forall>k < n. \<not> bit (drop_bit 1 c) k"
    using Suc.prems by (simp add: bit_simps)
  ultimately show ?case
    using Suc.IH [of "drop_bit 1 c"] by (simp add: funpow_swap1 funpow_Suc_right)
qed simp

lemma step_msb_high_zero:
  fixes c :: "'a::len word"
  shows "\<forall>k < n. \<not> bit c (LENGTH('a) - Suc k) \<Longrightarrow> n \<le> LENGTH('a) \<Longrightarrow>
    (crc_step_msb poly ^^ n) c = push_bit n c"
proof (induction n arbitrary: c)
  case (Suc n)
  have "crc_step_msb poly c = push_bit 1 c"
    using Suc.prems by (auto simp: crc_step_msb_def)
  moreover have "\<forall>k < n. \<not> bit (push_bit 1 c) (LENGTH('a) - Suc k)"
    using Suc.prems(1) by (auto simp only: bit_push_bit_iff Suc_less_eq diff_diff_add
        add_Suc_right add_0_right plus_1_eq_Suc [symmetric] add.commute [of _ 1])
  ultimately show ?case
    using Suc.IH [of "push_bit 1 c"] Suc.prems(2) by (simp add: funpow_swap1 funpow_Suc_right)
qed simp

lemma of_nat_unat_ucast: "(of_nat (unat (i :: u8)) :: 'a::len word) = ucast i"
  by simp

locale crc_reflected =
  fixes poly :: "'a::len word" and table :: "'a word list"
  assumes table_eq: "table = xor_span (map (\<lambda>k. (crc_step_lsb poly ^^ 8) (2 ^ k)) (rev [0..<8]))"
begin

lemma lookup: "table ! unat (i :: u8) = (crc_step_lsb poly ^^ 8) (ucast i)"
  unfolding table_eq
  by (subst xor_span_nth [OF xor_linear_funpow [OF xor_linear_step_lsb]])
     (use unsigned_less [of i, where ?'a = nat] in simp_all)

lemma table_step:
  "drop_bit 8 c XOR table ! unat (ucast (c AND 0xff) XOR b) = crc_byte_lsb poly c b"
proof -
  let ?F = "crc_step_lsb poly ^^ 8"
  have m: "(0xff :: 'a word) = mask 8" "(0xff :: 'a word) AND c = c AND mask 8"
    by (simp_all add: mask_eq_exp_minus_1 and.commute)
  let ?hi = "c AND NOT (mask 8)" and ?lo = "ucast (ucast (c AND 0xff) XOR b) :: 'a word"
  have split: "c XOR ucast b = ?hi XOR ?lo"
    unfolding m by (intro bit_eqI) (auto simp: bit_simps)
  have "?F (?hi XOR ?lo) = ?F ?hi XOR ?F ?lo"
    using xor_linear_funpow [OF xor_linear_step_lsb] unfolding xor_linear_def by blast
  moreover have "?F ?hi = drop_bit 8 c"
    by (subst step_lsb_low_zero)
      (auto simp: bit_simps intro!: bit_eqI dest: bit_imp_le_length)
  moreover have "?F ?lo = table ! unat (ucast (c AND 0xff) XOR b)"
    by (simp only: lookup)
  ultimately show ?thesis
    by (simp only: crc_byte_lsb_def split)
qed

end

locale crc_msb_first =
  fixes poly :: "'a::len word" and table :: "'a word list"
  assumes width: "8 \<le> LENGTH('a)"
    and table_eq: "table = xor_span (map (\<lambda>k. (crc_step_msb poly ^^ 8)
          (push_bit (LENGTH('a) - 8) (2 ^ k))) (rev [0..<8]))"
begin

lemma lookup:
  "table ! unat (i :: u8) = (crc_step_msb poly ^^ 8) (push_bit (LENGTH('a) - 8) (ucast i))"
proof -
  let ?f = "\<lambda>x. (crc_step_msb poly ^^ 8) (push_bit (LENGTH('a) - 8) x)"
  have "xor_linear ?f"
    using xor_linear_funpow [OF xor_linear_step_msb, of 8 poly]
    by (simp add: xor_linear_def push_bit_xor)
  then show ?thesis
    unfolding table_eq
    by (subst xor_span_nth [of ?f]) (use unsigned_less [of i, where ?'a = nat] in simp_all)
qed

lemma table_step:
  "push_bit 8 c XOR table ! unat (ucast (drop_bit (LENGTH('a) - 8) c XOR ucast b) :: u8) =
     crc_byte_msb poly c b"
proof -
  let ?F = "crc_step_msb poly ^^ 8" and ?n = "LENGTH('a) - 8"
  let ?i = "ucast (drop_bit ?n c XOR ucast b) :: u8"
  let ?lo = "take_bit ?n c" and ?hi = "push_bit ?n (ucast ?i) :: 'a word"
  have split: "c XOR push_bit ?n (ucast b) = ?lo XOR ?hi"
    using width by (intro bit_eqI) (auto simp: bit_simps)
  have "?F (?lo XOR ?hi) = ?F ?lo XOR ?F ?hi"
    using xor_linear_funpow [OF xor_linear_step_msb] unfolding xor_linear_def by blast
  moreover have "?F ?lo = push_bit 8 c"
  proof -
    have "?F ?lo = push_bit 8 ?lo"
      using width by (intro step_msb_high_zero) (auto simp: bit_simps)
    also have "\<dots> = push_bit 8 c"
      using width by (intro bit_eqI) (auto simp: bit_simps)
    finally show ?thesis .
  qed
  moreover have "?F ?hi = table ! unat ?i"
    by (simp only: lookup)
  ultimately show ?thesis
    by (simp only: crc_byte_msb_def split)
qed

end

section \<open>The three tables\<close>

lemma rev_upt8: "rev [0..<8] = [7, 6, 5, 4, 3, 2, 1, 0]"
  by (simp add: upt_rec)

lemma funpow8: "(f ^^ 8) x = f (f (f (f (f (f (f (f x)))))))"
  by (simp add: eval_nat_numeral)

interpretation x25: crc_reflected "0x8408 :: u32" crc16_x25_table
  by unfold_locales
    (simp add: rev_upt8 funpow8 crc_step_lsb_def crc16_x25_table_def Let_def)

interpretation castagnoli: crc_reflected "0x82f63b78 :: u32" crc32_table
  by unfold_locales
    (simp add: rev_upt8 funpow8 crc_step_lsb_def crc32_table_def Let_def)

interpretation ccitt: crc_msb_first "0x1021 :: u16" crc16_ccitt_false_table
  by unfold_locales
    (simp_all add: rev_upt8 funpow8 crc_step_msb_def crc16_ccitt_false_table_def Let_def)

text \<open>The X.25 checksum is computed in 16 bits by one routine and in 32 bits by the other.\<close>

lemma ucast_step_lsb:
  "crc_step_lsb (ucast p) (ucast c :: u32) = ucast (crc_step_lsb p (c :: u16))"
proof (rule bit_eqI)
  fix n
  have "bit c (Suc n) \<Longrightarrow> n < 15" "bit p n \<Longrightarrow> n < 16"
    by (drule bit_imp_le_length, simp)+
  then show "bit (crc_step_lsb (ucast p) (ucast c :: u32)) n \<longleftrightarrow>
      bit (ucast (crc_step_lsb p c) :: u32) n"
    by (auto simp: crc_step_lsb_def bit_simps)
qed

lemma ucast_steps_lsb:
  "(crc_step_lsb (ucast p) ^^ n) (ucast c :: u32) = ucast ((crc_step_lsb p ^^ n) (c :: u16))"
  by (induction n) (simp_all add: ucast_step_lsb)

lemma ucast_byte_lsb:
  "crc_byte_lsb 0x8408 (ucast c :: u32) b = ucast (crc_byte_lsb 0x8408 (c :: u16) b)"
proof -
  have "ucast c XOR ucast b = (ucast (c XOR ucast b) :: u32)"
    by (intro bit_eqI) (auto simp: bit_simps dest: bit_imp_le_length)
  then show ?thesis
    using ucast_steps_lsb [where p = "0x8408" and n = 8 and c = "c XOR ucast b"] by (simp add: crc_byte_lsb_def)
qed

lemma x25_step16:
  "ucast ((ucast (drop_bit 8 c) :: u32) XOR (crc16_x25_table ! unat (ucast (c AND 0xff) XOR b))) =
     crc_byte_lsb 0x8408 (c :: u16) b"
proof -
  have m: "(0xff :: u16) = mask 8" "(0xff :: u32) = mask 8"
    by (simp_all add: mask_eq_exp_minus_1)
  have "ucast (drop_bit 8 c) = drop_bit 8 (ucast c :: u32)"
    and "(ucast (c AND 0xff) :: u8) = ucast ((ucast c :: u32) AND 0xff)"
    unfolding m by (intro bit_eqI; auto simp: bit_simps dest: bit_imp_le_length)+
  then have "(ucast (drop_bit 8 c) :: u32) XOR
      (crc16_x25_table ! unat (ucast (c AND 0xff) XOR b)) = ucast (crc_byte_lsb 0x8408 c b)"
    by (simp only: x25.table_step ucast_byte_lsb)
  then show ?thesis by (simp only:) (simp add: ucast_up_ucast_id is_up)
qed

lemma ccitt_step16:
  "(push_bit 8 c AND 0xff00) XOR
     (crc16_ccitt_false_table ! unat (ucast ((drop_bit 8 c XOR ucast b) AND 0x00ff) :: u8)) =
     crc_byte_msb 0x1021 (c :: u16) b"
proof -
  have m: "(0xff00 :: u16) = push_bit 8 (mask 8)" "(0xff :: u16) = mask 8"
    by (simp_all add: mask_eq_exp_minus_1)
  have "push_bit 8 c AND 0xff00 = push_bit 8 c"
    and "(ucast ((drop_bit 8 c XOR ucast b) AND 0xff) :: u8) =
      ucast (drop_bit (LENGTH(16) - 8) c XOR ucast b)"
    unfolding m by (intro bit_eqI; auto simp: bit_simps dest: bit_imp_le_length)+
  then show ?thesis by (simp only: ccitt.table_step)
qed

section \<open>Properties\<close>

lemma crc16_x25_loop_eq: "crc16_x25_loop c bs = foldl (crc_byte_lsb 0x8408) c bs"
  by (induction bs arbitrary: c) (simp_all only: crc16_x25_loop.simps x25_step16 foldl.simps)

lemma crc16_ccitt_false_loop_eq:
  "crc16_ccitt_false_loop c bs = foldl (crc_byte_msb 0x1021) c bs"
  by (induction bs arbitrary: c)
    (simp_all only: crc16_ccitt_false_loop.simps Let_def ccitt_step16 foldl.simps)

lemma crc32_loop_eq: "crc32_loop c bs = foldl (crc_byte_lsb 0x82f63b78) c bs"
  by (induction bs arbitrary: c) (simp_all only: crc32_loop.simps castagnoli.table_step foldl.simps)

text \<open>The one-shot functions compute the bit-serial polynomial division.\<close>

lemma crc_oneshot_bitwise:
  "crc16_x25 data = foldl (crc_byte_lsb 0x8408) 0xffff data XOR 0xffff \<and>
   crc16_ccitt_false data = foldl (crc_byte_msb 0x1021) 0xffff data \<and>
   crc32 data = foldl (crc_byte_lsb 0x82f63b78) 0xffffffff data XOR 0xffffffff"
  by (simp only: crc16_x25_def crc16_ccitt_false_def crc32_def crc16_x25_loop_eq
      crc16_ccitt_false_loop_eq crc32_loop_eq simp_thms)

lemma crc_feed_version_feed_bytes:
  "crc_feed_version (crc_feed_bytes crc bs) = crc_feed_version crc"
  by (induction bs arbitrary: crc)
    (auto simp: crc_feed_def crc16_x25_feed_def crc16_ccitt_false_feed_def crc32_feed_def Let_def
      split: crc_version.splits)

lemma checksum_x25_feed_bytes:
  "crc_feed_version crc = CRC16_X25 \<Longrightarrow>
   checksum (crc_feed_bytes crc bs) = foldl (crc_byte_lsb 0x8408) (checksum crc) bs"
proof (induction bs arbitrary: crc)
  case (Cons b bs)
  have "checksum (crc_feed crc b) = crc_byte_lsb 0x8408 (checksum crc) b"
    using Cons.prems by (simp add: crc_feed_def crc16_x25_feed_def Let_def x25.table_step)
  moreover have "crc_feed_version (crc_feed crc b) = CRC16_X25"
    using crc_feed_version_feed_bytes [of crc "[b]"] Cons.prems by simp
  ultimately show ?case using Cons.IH [of "crc_feed crc b"] by simp
qed simp

lemma checksum_crc32_feed_bytes:
  "crc_feed_version crc = CRC32 \<Longrightarrow>
   checksum (crc_feed_bytes crc bs) = foldl (crc_byte_lsb 0x82f63b78) (checksum crc) bs"
proof (induction bs arbitrary: crc)
  case (Cons b bs)
  have "checksum (crc_feed crc b) = crc_byte_lsb 0x82f63b78 (checksum crc) b"
    using Cons.prems by (simp add: crc_feed_def crc32_feed_def Let_def castagnoli.table_step)
  moreover have "crc_feed_version (crc_feed crc b) = CRC32"
    using crc_feed_version_feed_bytes [of crc "[b]"] Cons.prems by simp
  ultimately show ?case using Cons.IH [of "crc_feed crc b"] by simp
qed simp

lemma ccitt_step32:
  assumes "checksum crc = ucast c" and "crc_feed_version crc = CRC16_CCITT_FALSE"
  shows "checksum (crc_feed crc b) = ucast (crc_byte_msb 0x1021 (c :: u16) b)"
proof -
  have m: "(0xff00 :: u32) = push_bit 8 (mask 8)" "(0xff :: u32) = mask 8"
    "(0xff00 :: u16) = push_bit 8 (mask 8)" "(0xff :: u16) = mask 8"
    by (simp_all add: mask_eq_exp_minus_1)
  let ?t = "crc16_ccitt_false_table ! unat (ucast ((drop_bit 8 c XOR ucast b) AND 0x00ff) :: u8)"
  have i: "(ucast ((drop_bit 8 (ucast c :: u32) XOR ucast b) AND 0x00ff) :: u8) =
      ucast ((drop_bit 8 c XOR ucast b) AND 0x00ff)"
    and p: "push_bit 8 (ucast c :: u32) AND 0xff00 = ucast (push_bit 8 c AND 0xff00)"
    unfolding m by (intro bit_eqI; auto simp: bit_simps dest: bit_imp_le_length)+
  have "checksum (crc_feed crc b) = ucast (push_bit 8 c AND 0xff00) XOR ucast ?t"
    by (simp only: crc_feed_def crc16_ccitt_false_feed_def Let_def crc_version.case assms i p) simp
  also have "\<dots> = ucast ((push_bit 8 c AND 0xff00) XOR ?t)"
    by (intro bit_eqI) (auto simp: bit_simps)
  finally show ?thesis by (simp only: ccitt_step16)
qed

lemma checksum_ccitt_feed_bytes:
  "crc_feed_version crc = CRC16_CCITT_FALSE \<Longrightarrow> checksum crc = ucast (c :: u16) \<Longrightarrow>
   checksum (crc_feed_bytes crc bs) = ucast (foldl (crc_byte_msb 0x1021) c bs)"
proof (induction bs arbitrary: crc c)
  case (Cons b bs)
  have "crc_feed_version (crc_feed crc b) = CRC16_CCITT_FALSE"
    using crc_feed_version_feed_bytes [of crc "[b]"] Cons.prems by simp
  then show ?case
    using Cons.IH ccitt_step32 [OF Cons.prems(2,1)] by simp
qed simp

lemma ucast_foldl_lsb:
  "foldl (crc_byte_lsb 0x8408) (ucast c :: u32) bs = ucast (foldl (crc_byte_lsb 0x8408) (c :: u16) bs)"
  by (induction bs arbitrary: c) (simp_all add: ucast_byte_lsb)

text \<open>
  Feeding the data to an initialised stream in any two pieces and finishing it
  yields the same checksum as the one-shot function on the whole data, for all three variants,
  although the streams compute in a 32-bit field and the 16-bit one-shot functions in 16 bits.
\<close>

theorem crc_stream_oneshot:
  "checksum (crc_feed_eof (crc_feed_bytes (crc_feed_bytes (crc_init CRC16_X25) xs) ys)) =
     ucast (crc16_x25 (xs @ ys)) \<and>
   checksum (crc_feed_eof (crc_feed_bytes (crc_feed_bytes (crc_init CRC16_CCITT_FALSE) xs) ys)) =
     ucast (crc16_ccitt_false (xs @ ys)) \<and>
   checksum (crc_feed_eof (crc_feed_bytes (crc_feed_bytes (crc_init CRC32) xs) ys)) =
     crc32 (xs @ ys)"
proof -
  have init: "crc_feed_version (crc_init v) = v" for v
    by (cases v) (simp_all add: crc_init_def)
  have x: "checksum (crc_feed_bytes (crc_feed_bytes (crc_init CRC16_X25) xs) ys) =
      ucast (foldl (crc_byte_lsb 0x8408) (0xffff :: u16) (xs @ ys))"
    using ucast_foldl_lsb [of "0xffff" "xs @ ys"]
    by (simp add: checksum_x25_feed_bytes crc_feed_version_feed_bytes init foldl_append)
       (simp add: crc_init_def)
  have c: "checksum (crc_feed_bytes (crc_feed_bytes (crc_init CRC16_CCITT_FALSE) xs) ys) =
      ucast (foldl (crc_byte_msb 0x1021) (0xffff :: u16) (xs @ ys))"
    by (simp add: checksum_ccitt_feed_bytes crc_feed_version_feed_bytes init crc_init_def)
  have k: "checksum (crc_feed_bytes (crc_feed_bytes (crc_init CRC32) xs) ys) =
      foldl (crc_byte_lsb 0x82f63b78) 0xffffffff (xs @ ys)"
    by (simp add: checksum_crc32_feed_bytes crc_feed_version_feed_bytes init foldl_append)
       (simp add: crc_init_def)
  have u: "ucast w XOR (0xffff :: u32) = ucast (w XOR 0xffff :: u16)" for w
  proof -
    have m: "(0xffff :: u32) = mask 16" "(0xffff :: u16) = mask 16"
      by (simp_all add: mask_eq_exp_minus_1)
    show ?thesis
      unfolding m by (intro bit_eqI) (auto simp: bit_simps dest: bit_imp_le_length)
  qed
  show ?thesis
    by (simp add: crc_feed_eof_def crc_feed_version_feed_bytes init crc16_x25_feed_eof_def
        crc16_ccitt_false_feed_eof_def crc32_feed_eof_def x c k u crc16_x25_def
        crc16_ccitt_false_def crc32_def crc16_x25_loop_eq crc16_ccitt_false_loop_eq crc32_loop_eq)
qed

text \<open>
  The checksum the code calls \<open>crc32\<close> is CRC-32-C: on the standard check input \<open>123456789\<close> it
  returns 0xe3069283, where the Ethernet CRC-32 of the header comment (polynomial 0x04c11db7)
  would return 0xcbf43926.
\<close>

theorem crc32_check_value:
  "crc32 [0x31, 0x32, 0x33, 0x34, 0x35, 0x36, 0x37, 0x38, 0x39] = 0xe3069283 \<and>
   foldl (crc_byte_lsb 0xedb88320) 0xffffffff
     [0x31, 0x32, 0x33, 0x34, 0x35, 0x36, 0x37, 0x38, 0x39] XOR 0xffffffff = (0xcbf43926 :: u32)"
  by (simp add: crc32_def crc32_loop_eq crc_byte_lsb_def funpow8 crc_step_lsb_def)

text \<open>
  C30 (equivalence). The three table-driven checksums compute, for every input, the bit-serial polynomial division with the
  parameters of the tables: X.25 (0x1021 reflected, initial value and final XOR 0xffff), CCITT-FALSE (0x1021, not
  reflected, initial value 0xffff, no final XOR), and CRC-32-C (0x1edc6f41 reflected, initial value and final XOR
  0xffffffff). So do the streams, for every way to cut the input into two pieces, although they keep the 16-bit checksums
  in 32 bits. The first two are what \<open>crc.h\<close> documents; the third is not the Ethernet checksum that it announces for
  \<open>crc32\<close> (0x04c11db7 reflected), from which it differs on the standard check input.
\<close>

theorem crc_table_bitwise:
  "crc16_x25 data = foldl (crc_byte_lsb 0x8408) 0xffff data XOR 0xffff \<and>
   crc16_ccitt_false data = foldl (crc_byte_msb 0x1021) 0xffff data \<and>
   crc32 data = foldl (crc_byte_lsb 0x82f63b78) 0xffffffff data XOR 0xffffffff \<and>
   checksum (crc_feed_eof (crc_feed_bytes (crc_feed_bytes (crc_init CRC16_X25) xs) ys)) =
     ucast (foldl (crc_byte_lsb 0x8408) (0xffff :: u16) (xs @ ys) XOR 0xffff) \<and>
   checksum (crc_feed_eof (crc_feed_bytes (crc_feed_bytes (crc_init CRC16_CCITT_FALSE) xs) ys)) =
     ucast (foldl (crc_byte_msb 0x1021) (0xffff :: u16) (xs @ ys)) \<and>
   checksum (crc_feed_eof (crc_feed_bytes (crc_feed_bytes (crc_init CRC32) xs) ys)) =
     foldl (crc_byte_lsb 0x82f63b78) 0xffffffff (xs @ ys) XOR 0xffffffff \<and>
   crc32 [0x31, 0x32, 0x33, 0x34, 0x35, 0x36, 0x37, 0x38, 0x39] \<noteq>
     foldl (crc_byte_lsb 0xedb88320) 0xffffffff [0x31, 0x32, 0x33, 0x34, 0x35, 0x36, 0x37, 0x38, 0x39] XOR 0xffffffff"
  using crc_stream_oneshot [of xs ys] crc32_check_value by (simp only: crc_oneshot_bitwise) simp

end
