(* ===== verification/Bundle.thy ===== *)
theory Bundle
  imports Upcn_Prelude
begin

text \<open>
  The unified bundle data structure of RFC 5050 and BPv7-bis bundles:
  \<open>include/upcn/bundle.h\<close> and \<open>components/upcn/bundle.c\<close>. The C enumerations are 32-bit words with
  the constants of the header. Extension blocks are heap objects that are referenced twice, from
  the block list and from \<open>payload_block\<close>; the list holds each block with its address, and
  \<open>payload_block\<close> is an address, so that the aliasing of the two is kept. A string pointer is a
  \<open>string option\<close>, \<open>None\<close> being \<open>NULL\<close>. The checksum \<open>crc\<close> of a bundle and of a block, which only the
  CBOR serializer and parser of BPv7-bis access, is left out; its type \<open>crc_type\<close> is modelled.
\<close>

section \<open>Constants\<close>

type_synonym bundleid_t = u16

abbreviation (input) "BUNDLE_INVALID_ID \<equiv> (0 :: bundleid_t)"

abbreviation (input) "BUNDLE_FLAG_NONE \<equiv> (0 :: u32)"
abbreviation (input) "BUNDLE_FLAG_IS_FRAGMENT \<equiv> (0x000001 :: u32)"
abbreviation (input) "BUNDLE_FLAG_ADMINISTRATIVE_RECORD \<equiv> (0x000002 :: u32)"
abbreviation (input) "BUNDLE_FLAG_MUST_NOT_BE_FRAGMENTED \<equiv> (0x000004 :: u32)"
abbreviation (input) "BUNDLE_FLAG_ACKNOWLEDGEMENT_REQUESTED \<equiv> (0x000020 :: u32)"
abbreviation (input) "BUNDLE_FLAG_REPORT_STATUS_TIME \<equiv> (0x000040 :: u32)"
abbreviation (input) "BUNDLE_FLAG_REPORT_RECEPTION \<equiv> (0x004000 :: u32)"
abbreviation (input) "BUNDLE_FLAG_REPORT_FORWARDING \<equiv> (0x010000 :: u32)"
abbreviation (input) "BUNDLE_FLAG_REPORT_DELIVERY \<equiv> (0x020000 :: u32)"
abbreviation (input) "BUNDLE_FLAG_REPORT_DELETION \<equiv> (0x040000 :: u32)"
abbreviation (input) "BUNDLE_V6_FLAG_CUSTODY_TRANSFER_REQUESTED \<equiv> (0x000008 :: u32)"
abbreviation (input) "BUNDLE_V6_FLAG_SINGLETON_ENDPOINT \<equiv> (0x000010 :: u32)"
abbreviation (input) "BUNDLE_V6_FLAG_NORMAL_PRIORITY \<equiv> (0x000080 :: u32)"
abbreviation (input) "BUNDLE_V6_FLAG_EXPEDITED_PRIORITY \<equiv> (0x000100 :: u32)"

abbreviation (input) "BUNDLE_V6_FLAG_REPORT_CUSTODY_ACCEPTANCE \<equiv> (0x008000 :: u32)"

abbreviation (input) "BUNDLE_CRC_TYPE_NONE \<equiv> (0 :: u32)"
abbreviation (input) "BUNDLE_CRC_TYPE_16 \<equiv> (1 :: u32)"

abbreviation (input) "BUNDLE_RET_CONSTRAINT_NONE \<equiv> (0x00 :: u32)"
abbreviation (input) "BUNDLE_RET_CONSTRAINT_DISPATCH_PENDING \<equiv> (0x01 :: u32)"
abbreviation (input) "BUNDLE_RET_CONSTRAINT_FORWARD_PENDING \<equiv> (0x02 :: u32)"
abbreviation (input) "BUNDLE_RET_CONSTRAINT_CUSTODY_ACCEPTED \<equiv> (0x04 :: u32)"
abbreviation (input) "BUNDLE_RET_CONSTRAINT_REASSEMBLY_PENDING \<equiv> (0x08 :: u32)"
abbreviation (input) "BUNDLE_RET_CONSTRAINT_FLAG_OWN \<equiv> (0x80 :: u32)"

abbreviation (input) "BUNDLE_BLOCK_TYPE_PAYLOAD \<equiv> (1 :: u32)"
abbreviation (input) "BUNDLE_BLOCK_FLAG_NONE \<equiv> (0 :: u32)"
abbreviation (input) "BUNDLE_BLOCK_FLAG_MUST_BE_REPLICATED \<equiv> (0x01 :: u32)"

section \<open>Data\<close>

record bundle_block =
  blk_type :: u32
  blk_number :: u8
  blk_flags :: u32
  blk_length :: u32
  blk_data :: "bytes option"
  eid_refs :: "string option list"
  blk_crc_type :: u32

type_synonym block_list = "(addr \<times> bundle_block) list"

record bundle_t =
  bundle_id :: bundleid_t
  protocol_version :: u8
  proc_flags :: u32
  ret_constraints :: u32
  crc_type :: u32
  destination :: "string option"
  source :: "string option"
  report_to :: "string option"
  current_custodian :: "string option"
  creation_timestamp :: u64
  sequence_number :: u64
  lifetime :: u64
  fragment_offset :: u32
  total_adu_length :: u32
  primary_block_length :: u16
  blocks :: block_list
  payload_block :: "addr option"

record bundle_unique_identifier =
  uid_protocol_version :: u8
  uid_source :: "string option"
  uid_creation_timestamp :: u64
  uid_sequence_number :: u64
  uid_fragment_offset :: u32
  uid_payload_length :: u32

datatype bundle_routing_priority = BUNDLE_RPRIO_LOW | BUNDLE_RPRIO_NORMAL | BUNDLE_RPRIO_HIGH

record bundle_adu =
  adu_protocol_version :: u8
  adu_proc_flags :: u32
  adu_source :: "string option"
  adu_destination :: "string option"
  adu_payload :: "bytes option"
  adu_length :: nat

section \<open>Operations\<close>

definition bundle_is_fragmented :: "bundle_t \<Rightarrow> bool" where
  "bundle_is_fragmented b \<longleftrightarrow> HAS_FLAG (proc_flags b) BUNDLE_FLAG_IS_FRAGMENT"

definition bundle_must_not_fragment :: "bundle_t \<Rightarrow> bool" where
  "bundle_must_not_fragment b \<longleftrightarrow> HAS_FLAG (proc_flags b) BUNDLE_FLAG_MUST_NOT_BE_FRAGMENTED"

definition bundle_block_must_be_replicated :: "bundle_block \<Rightarrow> bool" where
  "bundle_block_must_be_replicated blk \<longleftrightarrow>
     HAS_FLAG (blk_flags blk) BUNDLE_BLOCK_FLAG_MUST_BE_REPLICATED"

definition bundle_reset_internal :: "bundle_t \<Rightarrow> bundle_t" where
  "bundle_reset_internal b = b\<lparr>
     bundle_id := BUNDLE_INVALID_ID, protocol_version := 0x06, proc_flags := BUNDLE_FLAG_NONE,
     ret_constraints := BUNDLE_RET_CONSTRAINT_NONE,
     destination := None, source := None, report_to := None, current_custodian := None,
     crc_type := BUNDLE_CRC_TYPE_16, creation_timestamp := 0, sequence_number := 0, lifetime := 0,
     fragment_offset := 0, total_adu_length := 0, primary_block_length := 0,
     blocks := [], payload_block := None\<rparr>"

definition bundle_init :: "alloc_trace \<Rightarrow> bundle_t option \<times> alloc_trace" where
  "bundle_init m = (case malloc m of
       (None, m1) \<Rightarrow> (None, m1)
     | (Some _, m1) \<Rightarrow> (Some
         \<lparr>bundle_id = BUNDLE_INVALID_ID, protocol_version = 0x06, proc_flags = BUNDLE_FLAG_NONE,
          ret_constraints = BUNDLE_RET_CONSTRAINT_NONE, crc_type = BUNDLE_CRC_TYPE_16,
          destination = None, source = None, report_to = None, current_custodian = None,
          creation_timestamp = 0, sequence_number = 0, lifetime = 0, fragment_offset = 0,
          total_adu_length = 0, primary_block_length = 0, blocks = [], payload_block = None\<rparr>, m1))"

text \<open>Following \<open>bundle->payload_block\<close>: null, dangling, or the block of the list it aliases.\<close>

definition deref_payload :: "bundle_t \<Rightarrow> bundle_block outcome" where
  "deref_payload b = (case payload_block b of
       None \<Rightarrow> Inl Null_Deref
     | Some a \<Rightarrow> (case map_of (blocks b) a of None \<Rightarrow> Inl Use_After_Free | Some blk \<Rightarrow> Inr blk))"

definition bundle_copy_headers :: "alloc_trace \<Rightarrow> bundle_t \<Rightarrow> bundle_t \<times> alloc_trace" where
  "bundle_copy_headers m from =
     (let (d, m1) = strdup m (destination from);
          (s, m2) = strdup m1 (source from);
          (r, m3) = strdup m2 (report_to from);
          (c, m4) = strdup m3 (current_custodian from)
      in (from\<lparr>destination := d, source := s, report_to := r, current_custodian := c,
            blocks := [], payload_block := None\<rparr>, m4))"

definition bundle_get_routing_priority :: "bundle_t \<Rightarrow> bundle_routing_priority" where
  "bundle_get_routing_priority b =
     (if HAS_FLAG (ret_constraints b) BUNDLE_RET_CONSTRAINT_FLAG_OWN
         \<or> HAS_FLAG (ret_constraints b) BUNDLE_RET_CONSTRAINT_CUSTODY_ACCEPTED
         \<or> (protocol_version b = 6 \<and> HAS_FLAG (proc_flags b) BUNDLE_V6_FLAG_EXPEDITED_PRIORITY)
      then BUNDLE_RPRIO_HIGH
      else if protocol_version b = 7 \<or> HAS_FLAG (proc_flags b) BUNDLE_V6_FLAG_NORMAL_PRIORITY
      then BUNDLE_RPRIO_NORMAL
      else BUNDLE_RPRIO_LOW)"

definition bundle_block_create :: "alloc_trace \<Rightarrow> u32 \<Rightarrow> (addr \<times> bundle_block) option \<times> alloc_trace"
where
  "bundle_block_create m t = (case malloc m of
       (None, m') \<Rightarrow> (None, m')
     | (Some a, m') \<Rightarrow>
         (Some (a, \<lparr>blk_type = t, blk_number = (if t = BUNDLE_BLOCK_TYPE_PAYLOAD then 1 else 0),
                blk_flags = BUNDLE_BLOCK_FLAG_NONE, blk_length = 0, blk_data = None, eid_refs = [],
                blk_crc_type = BUNDLE_CRC_TYPE_NONE\<rparr>), m'))"

text \<open>
  The copy loop over the EID references of a block: every new entry becomes the head of the list.
  The allocation of the list entry is not checked, that of the string is not either (a null pointer
  is stored).
\<close>

fun dup_eid_refs ::
  "alloc_trace \<Rightarrow> string option list \<Rightarrow> string option list \<Rightarrow> (string option list \<times> alloc_trace) outcome"
where
  "dup_eid_refs m acc [] = Inr (acc, m)"
| "dup_eid_refs m acc (r # rs) = (case malloc m of
       (None, m') \<Rightarrow> Inl Null_Deref
     | (Some a, m') \<Rightarrow> (case r of
           None \<Rightarrow> Inl Null_Deref
         | Some t \<Rightarrow> let (t', m'') = strdup m' (Some t) in dup_eid_refs m'' (t' # acc) rs))"

text \<open>\<open>memcpy\<close> of \<open>n\<close> bytes from a buffer; copying no bytes touches no memory.\<close>

definition copy_bytes :: "bytes option \<Rightarrow> nat \<Rightarrow> bytes outcome" where
  "copy_bytes src n =
     (if n = 0 then Inr []
      else case src of None \<Rightarrow> Inl Null_Deref
        | Some bs \<Rightarrow> if length bs < n then Inl Out_Of_Bounds else Inr (take n bs))"

definition bundle_block_dup ::
  "alloc_trace \<Rightarrow> bundle_block \<Rightarrow> ((addr \<times> bundle_block) option \<times> alloc_trace) outcome" where
  "bundle_block_dup m b = (case malloc m of
       (None, m1) \<Rightarrow> Inr (None, m1)
     | (Some a, m1) \<Rightarrow>
         obind (dup_eid_refs m1 [] (eid_refs b)) (\<lambda>(refs, m2).
           case malloc m2 of
             (None, m3) \<Rightarrow> Inr (None, m3)
           | (Some d, m3) \<Rightarrow>
               obind (copy_bytes (blk_data b) (unat (blk_length b))) (\<lambda>bs.
                 Inr (Some (a, b\<lparr>eid_refs := refs, blk_data := Some bs\<rparr>), m3))))"

definition bundle_block_entry_dup ::
  "alloc_trace \<Rightarrow> bundle_block \<Rightarrow> ((addr \<times> bundle_block) option \<times> alloc_trace) outcome" where
  "bundle_block_entry_dup m b =
     obind (bundle_block_dup m b) (\<lambda>(dup, m1). case dup of
         None \<Rightarrow> Inr (None, m1)
       | Some d \<Rightarrow> (case malloc m1 of
             (None, m2) \<Rightarrow> Inr (None, m2)
           | (Some e, m2) \<Rightarrow> Inr (Some d, m2)))"

text \<open>\<open>None\<close> is the null result after a failed allocation, the copies made so far being freed.\<close>

fun bundle_block_list_dup ::
  "alloc_trace \<Rightarrow> block_list \<Rightarrow> (block_list option \<times> alloc_trace) outcome" where
  "bundle_block_list_dup m [] = Inr (Some [], m)"
| "bundle_block_list_dup m (e # es) =
     obind (bundle_block_entry_dup m (snd e)) (\<lambda>(d, m1). case d of
         None \<Rightarrow> Inr (None, m1)
       | Some d' \<Rightarrow> obind (bundle_block_list_dup m1 es) (\<lambda>(ds, m2).
           Inr (map_option (\<lambda>l. d' # l) ds, m2)))"

text \<open>
  The search of \<open>bundle_dup\<close> for the payload block: the loop body either breaks or leaves
  \<open>cur_block\<close> as it is. \<open>None\<close> is a loop that does not end.
\<close>

partial_function (option) dup_payload_loop :: "block_list \<Rightarrow> addr option \<Rightarrow> addr option option" where
  "dup_payload_loop cur_block payload = (case cur_block of
       [] \<Rightarrow> Some payload
     | (a, blk) # rest \<Rightarrow>
         if blk_type blk = BUNDLE_BLOCK_TYPE_PAYLOAD then Some (Some a)
         else dup_payload_loop cur_block payload)"

definition bundle_dup ::
  "alloc_trace \<Rightarrow> bundle_t \<Rightarrow> (bundle_t option \<times> alloc_trace) option outcome" where
  "bundle_dup m b = (case malloc m of
       (None, m0) \<Rightarrow> Inr (Some (None, m0))
     | (Some a, m0) \<Rightarrow>
        let (s, m1) = strdup m0 (source b);
            (d, m2) = strdup m1 (destination b);
            (r, m3) = strdup m2 (report_to b);
            (c, m4) = strdup m3 (current_custodian b)
        in obind (bundle_block_list_dup m4 (blocks b)) (\<lambda>(bl, m5). case bl of
             None \<Rightarrow> Inr (Some (None, m5))
           | Some bs \<Rightarrow> Inr (map_option (\<lambda>p.
               (Some (b\<lparr>source := s, destination := d, report_to := r, current_custodian := c,
                  blocks := bs, payload_block := p\<rparr>), m5))
               (dup_payload_loop bs (payload_block b)))))"

text \<open>The approximate expiration time in seconds; \<open>now\<close> is \<open>hal_time_get_timestamp_s()\<close>.\<close>

definition bundle_get_expiration_time :: "u64 \<Rightarrow> bundle_t \<Rightarrow> u64" where
  "bundle_get_expiration_time now b =
     (if creation_timestamp b \<noteq> 0 then creation_timestamp b else now) +
     (lifetime b + 500000) div 1000000"

definition bundle_get_unique_identifier :: "alloc_trace \<Rightarrow> bundle_t \<Rightarrow>
  (bundle_unique_identifier \<times> alloc_trace) outcome" where
  "bundle_get_unique_identifier m b =
     (if source b = None then Inl Null_Deref
      else let (s, m1) = strdup m (source b)
      in obind (deref_payload b) (\<lambda>pl. Inr
        (\<lparr>uid_protocol_version = protocol_version b, uid_source = s,
          uid_creation_timestamp = creation_timestamp b,
          uid_sequence_number = sequence_number b,
          uid_fragment_offset = fragment_offset b,
          uid_payload_length = blk_length pl\<rparr>, m1)))"

text \<open>\<open>strcmp (a, b) == 0\<close>; comparing through a null pointer is a fault.\<close>

definition str_equal :: "string option \<Rightarrow> string option \<Rightarrow> bool outcome" where
  "str_equal a b = (case (a, b) of (Some s, Some t) \<Rightarrow> Inr (s = t) | _ \<Rightarrow> Inl Null_Deref)"

text \<open>\<open>&&\<close> evaluates its second operand, which may fault, only after a true first one.\<close>

definition and_then :: "bool outcome \<Rightarrow> bool outcome \<Rightarrow> bool outcome" where
  "and_then p q = obind p (\<lambda>b. if b then q else Inr False)"

definition bundle_is_equal_parent :: "bundle_t \<Rightarrow> bundle_unique_identifier \<Rightarrow> bool outcome" where
  "bundle_is_equal_parent b i =
     and_then (Inr (protocol_version b = uid_protocol_version i))
       (and_then (str_equal (source b) (uid_source i))
         (Inr (creation_timestamp b = uid_creation_timestamp i \<and>
               sequence_number b = uid_sequence_number i)))"

definition bundle_is_equal :: "bundle_t \<Rightarrow> bundle_unique_identifier \<Rightarrow> bool outcome" where
  "bundle_is_equal b i =
     and_then (bundle_is_equal_parent b i)
       (and_then (Inr (fragment_offset b = uid_fragment_offset i))
         (obind (deref_payload b) (\<lambda>pl. Inr (blk_length pl = uid_payload_length i))))"

definition bundle_adu_init :: "alloc_trace \<Rightarrow> bundle_t \<Rightarrow> (bundle_adu \<times> alloc_trace) outcome" where
  "bundle_adu_init m b =
     (if source b = None \<or> destination b = None then Inl Null_Deref
      else let (s, m1) = strdup m (source b); (d, m2) = strdup m1 (destination b)
      in Inr (\<lparr>adu_protocol_version = protocol_version b,
               adu_proc_flags = proc_flags b AND NOT BUNDLE_FLAG_IS_FRAGMENT,
               adu_source = s, adu_destination = d, adu_payload = None, adu_length = 0\<rparr>, m2))"

text \<open>Writing through \<open>bundle->payload_block\<close> changes the block of the list it aliases.\<close>

definition update_block :: "addr \<Rightarrow> (bundle_block \<Rightarrow> bundle_block) \<Rightarrow> block_list \<Rightarrow> block_list" where
  "update_block a f = map (\<lambda>(a', blk). (a', if a' = a then f blk else blk))"

definition bundle_to_adu ::
  "alloc_trace \<Rightarrow> bundle_t \<Rightarrow> (bundle_adu \<times> bundle_t \<times> alloc_trace) outcome" where
  "bundle_to_adu m b =
     obind (bundle_adu_init m b) (\<lambda>(adu, m1).
       obind (deref_payload b) (\<lambda>pl.
         Inr (adu\<lparr>adu_payload := blk_data pl, adu_length := unat (blk_length pl)\<rparr>,
              b\<lparr>blocks := update_block (the (payload_block b))
                  (\<lambda>blk. blk\<lparr>blk_data := None, blk_length := 0\<rparr>) (blocks b)\<rparr>, m1)))"

section \<open>A bundle for concrete evaluations\<close>

definition sample_payload :: bundle_block where
  "sample_payload = \<lparr>blk_type = BUNDLE_BLOCK_TYPE_PAYLOAD, blk_number = 1, blk_flags = 0, blk_length = 3,
     blk_data = Some [1, 2, 3], eid_refs = [], blk_crc_type = 0\<rparr>"

definition sample_bundle :: bundle_t where
  "sample_bundle = \<lparr>bundle_id = 0, protocol_version = 7, proc_flags = 0, ret_constraints = 0, crc_type = 1,
     destination = Some ''dtn:b'', source = Some ''dtn:a'', report_to = Some ''dtn:none'',
     current_custodian = None, creation_timestamp = 10, sequence_number = 1, lifetime = 1000000,
     fragment_offset = 0, total_adu_length = 3, primary_block_length = 20,
     blocks = [(100, sample_payload)], payload_block = Some 100\<rparr>"

section \<open>Copies of blocks\<close>

text \<open>A block whose pointers can be followed, and the copy \<open>bundle_block_dup\<close> makes of it.\<close>

definition block_wf :: "bundle_block \<Rightarrow> bool" where
  "block_wf blk \<longleftrightarrow> None \<notin> set (eid_refs blk) \<and>
     (\<exists>d. blk_data blk = Some d \<and> length d = unat (blk_length blk))"

definition block_copy :: "bundle_block \<Rightarrow> bundle_block" where
  "block_copy blk = blk\<lparr>eid_refs := rev (eid_refs blk)\<rparr>"

definition copy_allocs :: "bundle_block \<Rightarrow> nat" where
  "copy_allocs blk = 3 + 2 * length (eid_refs blk)"

lemma dup_eid_refs_ok:
  assumes "2 * length rs \<le> length as" and "None \<notin> set rs"
  shows "dup_eid_refs (mem_ok as) acc rs = Inr (rev rs @ acc, mem_ok (drop (2 * length rs) as))"
  using assms
proof (induction rs arbitrary: as acc)
  case (Cons r rs)
  obtain a a' as' where as: "as = a # a' # as'"
    using Cons.prems(1) by (cases as; cases "tl as") auto
  obtain t where "r = Some t"
    using Cons.prems(2) by (cases r) auto
  then show ?case
    using Cons by (simp add: as)
qed simp

lemma copy_bytes_wf: "blk_data blk = Some d \<Longrightarrow> length d = unat (blk_length blk) \<Longrightarrow>
    copy_bytes (blk_data blk) (unat (blk_length blk)) = Inr d"
  by (cases d) (auto simp: copy_bytes_def)

lemma block_dup_ok:
  assumes "block_wf blk" and "copy_allocs blk \<le> length as"
  obtains as' where "bundle_block_entry_dup (mem_ok as) blk = Inr (Some (hd as, block_copy blk), mem_ok as')"
    and "as' = drop (copy_allocs blk) as"
proof -
  let ?k = "2 * length (eid_refs blk)"
  obtain d where d: "blk_data blk = Some d" "length d = unat (blk_length blk)"
    using assms(1) by (auto simp: block_wf_def)
  obtain a as1 where as: "as = a # as1" "?k + 2 \<le> length as1"
    using assms(2) by (cases as) (auto simp: copy_allocs_def)
  then obtain a' a'' as' where as': "drop ?k as1 = a' # a'' # as'"
    by (metis Cons_nth_drop_Suc add_2_eq_Suc' Suc_le_lessD Suc_lessD)
  then have rest: "as' = drop (copy_allocs blk) as"
    by (metis as(1) copy_allocs_def add.commute drop_Suc_Cons drop_drop drop0 numeral_3_eq_3 add_Suc_right
        add_0_right)
  have refs: "dup_eid_refs (mem_ok as1) [] (eid_refs blk) = Inr (rev (eid_refs blk), mem_ok (a' # a'' # as'))"
    using dup_eid_refs_ok [of "eid_refs blk" as1 "[]"] assms(1) as(2) as' by (simp add: block_wf_def)
  have "bundle_block_entry_dup (mem_ok as) blk = Inr (Some (hd as, block_copy blk), mem_ok as')"
    unfolding bundle_block_entry_dup_def bundle_block_dup_def
    using refs copy_bytes_wf [OF d] d by (simp add: as(1) block_copy_def)
  then show thesis using rest that by blast
qed

fun list_allocs :: "block_list \<Rightarrow> nat" where
  "list_allocs [] = 0"
| "list_allocs (e # bl) = copy_allocs (snd e) + list_allocs bl"

lemma block_list_dup_ok:
  assumes "\<forall>blk \<in> snd ` set bl. block_wf blk" and "list_allocs bl \<le> length as"
  shows "\<exists>bl'. bundle_block_list_dup (mem_ok as) bl =
      Inr (Some bl', mem_ok (drop (list_allocs bl) as)) \<and>
    map snd bl' = map (block_copy \<circ> snd) bl"
  using assms
proof (induction bl arbitrary: as)
  case (Cons e bl)
  let ?as = "drop (copy_allocs (snd e)) as"
  obtain as' where dup: "bundle_block_entry_dup (mem_ok as) (snd e) =
      Inr (Some (hd as, block_copy (snd e)), mem_ok as')" and as': "as' = ?as"
    using Cons.prems by (auto elim: block_dup_ok [of "snd e" as])
  obtain bl' where "bundle_block_list_dup (mem_ok ?as) bl =
      Inr (Some bl', mem_ok (drop (list_allocs bl) ?as))"
    and "map snd bl' = map (block_copy \<circ> snd) bl"
    using Cons.IH [of ?as] Cons.prems by fastforce
  then show ?case
    using dup as' by (auto simp: add.commute)
qed simp

lemma dup_payload_loop_stops:
  "dup_payload_loop bl p = Some y \<Longrightarrow> bl = [] \<or> blk_type (snd (hd bl)) = BUNDLE_BLOCK_TYPE_PAYLOAD"
proof (erule dup_payload_loop.raw_induct [rotated])
  fix loop :: "block_list \<Rightarrow> addr option \<Rightarrow> addr option option" and cur p y
  assume IH: "\<And>cur p y. loop cur p = Some y \<Longrightarrow>
      cur = [] \<or> blk_type (snd (hd cur)) = BUNDLE_BLOCK_TYPE_PAYLOAD"
    and step: "(case cur of [] \<Rightarrow> Some p
       | (a, blk) # rest \<Rightarrow>
           if blk_type blk = BUNDLE_BLOCK_TYPE_PAYLOAD then Some (Some a) else loop cur p) = Some y"
  then show "cur = [] \<or> blk_type (snd (hd cur)) = BUNDLE_BLOCK_TYPE_PAYLOAD"
    using IH [of cur p y] by (cases cur) (auto split: prod.splits if_splits)
qed

lemma dup_payload_loop_eq:
  "dup_payload_loop bl p = (case bl of
       [] \<Rightarrow> Some p
     | (a, blk) # _ \<Rightarrow> if blk_type blk = BUNDLE_BLOCK_TYPE_PAYLOAD then Some (Some a) else None)"
proof (cases bl)
  case Nil
  then show ?thesis by (subst dup_payload_loop.simps) simp
next
  case (Cons e rest)
  show ?thesis
  proof (cases "blk_type (snd e) = BUNDLE_BLOCK_TYPE_PAYLOAD")
    case True
    then show ?thesis
      using Cons by (subst dup_payload_loop.simps) (auto split: prod.splits)
  next
    case False
    then show ?thesis
      using Cons dup_payload_loop_stops [of bl p] by (cases "dup_payload_loop bl p") (auto split: prod.splits)
  qed
qed

lemma bundle_dup_unfolded:
  assumes "\<forall>blk \<in> snd ` set (blocks b). block_wf blk" and "5 + list_allocs (blocks b) \<le> length as"
  obtains bl m where "map snd bl = map (block_copy \<circ> snd) (blocks b)"
    and "bundle_dup (mem_ok as) b = Inr (map_option (\<lambda>p. (Some (b\<lparr>blocks := bl, payload_block := p\<rparr>), m))
      (dup_payload_loop bl (payload_block b)))"
proof -
  obtain a as0 where as: "as = a # as0" "4 + list_allocs (blocks b) \<le> length as0"
    using assms(2) by (cases as) auto
  obtain a1 a2 a3 a4 where s: "strdup (mem_ok as0) (source b) = (source b, mem_ok a1)"
      "strdup (mem_ok a1) (destination b) = (destination b, mem_ok a2)"
      "strdup (mem_ok a2) (report_to b) = (report_to b, mem_ok a3)"
      "strdup (mem_ok a3) (current_custodian b) = (current_custodian b, mem_ok a4)" "leaves 4 as0 a4"
    using as(2) by (auto intro: strdups_leave [of as0 "source b" "destination b" "report_to b" "current_custodian b"])
  have "list_allocs (blocks b) \<le> length a4"
    using leaves_length [OF s(5)] as(2) by simp
  then obtain bl where bl: "bundle_block_list_dup (mem_ok a4) (blocks b) =
      Inr (Some bl, mem_ok (drop (list_allocs (blocks b)) a4))" "map snd bl = map (block_copy \<circ> snd) (blocks b)"
    using block_list_dup_ok [OF assms(1)] by blast
  have "b\<lparr>source := source b, destination := destination b, report_to := report_to b,
      current_custodian := current_custodian b, blocks := bl, payload_block := p\<rparr> =
    b\<lparr>blocks := bl, payload_block := p\<rparr>" for p
    by simp
  then have "bundle_dup (mem_ok as) b = Inr (map_option (\<lambda>p. (Some (b\<lparr>blocks := bl, payload_block := p\<rparr>),
      mem_ok (drop (list_allocs (blocks b)) a4))) (dup_payload_loop bl (payload_block b)))"
    unfolding bundle_dup_def as(1) using s bl(1) by simp
  then show thesis using that bl(2) by blast
qed

section \<open>Duplication of a bundle\<close>

text \<open>
  C37 (liveness). Given memory for the copies, \<open>bundle_dup\<close> returns exactly if the bundle has no blocks or
  the first one is the payload block: the loop that looks for the payload block in the copy never advances
  and runs forever when the first block is another one. If it returns, the copy has the header fields of
  the original, copies of all blocks in their order with their EID references reversed, and its own
  payload block, or, without blocks, the payload pointer of the original.
\<close>

theorem bundle_dup_result:
  assumes "\<forall>blk \<in> snd ` set (blocks b). block_wf blk" and "5 + list_allocs (blocks b) \<le> length as"
  shows "(blocks b \<noteq> [] \<and> blk_type (snd (hd (blocks b))) \<noteq> BUNDLE_BLOCK_TYPE_PAYLOAD \<longrightarrow>
      bundle_dup (mem_ok as) b = Inr None) \<and>
    (blocks b = [] \<or> blk_type (snd (hd (blocks b))) = BUNDLE_BLOCK_TYPE_PAYLOAD \<longrightarrow>
      (\<exists>bl m. map snd bl = map (block_copy \<circ> snd) (blocks b) \<and>
        bundle_dup (mem_ok as) b = Inr (Some (Some (b\<lparr>blocks := bl,
          payload_block := (if blocks b = [] then payload_block b else Some (fst (hd bl)))\<rparr>), m))))"
proof -
  obtain bl m where bl: "map snd bl = map (block_copy \<circ> snd) (blocks b)"
    and dup: "bundle_dup (mem_ok as) b = Inr (map_option (\<lambda>p. (Some (b\<lparr>blocks := bl, payload_block := p\<rparr>), m))
      (dup_payload_loop bl (payload_block b)))"
    by (rule bundle_dup_unfolded [OF assms])
  show ?thesis
  proof (cases "blocks b")
    case Nil
    then have "bl = []" using bl by simp
    then show ?thesis
      using Nil dup by (intro conjI impI exI [of _ "[]"] exI [of _ m]) (simp_all add: dup_payload_loop_eq)
  next
    case (Cons e rest)
    then obtain a rest' where "bl = (a, block_copy (snd e)) # rest'"
      using bl by (cases bl) auto
    then have "dup_payload_loop bl (payload_block b) =
        (if blk_type (snd e) = BUNDLE_BLOCK_TYPE_PAYLOAD then Some (Some (fst (hd bl))) else None)"
      by (simp add: dup_payload_loop_eq block_copy_def)
    then show ?thesis
      using Cons bl dup by (intro conjI impI exI [of _ bl] exI [of _ m]) simp_all
  qed
qed

theorem bundle_dup_result_witness:
  "(\<exists>bl m. map snd bl = [block_copy sample_payload] \<and>
     bundle_dup (mem_ok [1, 2, 3, 4, 5, 6, 7, 8]) sample_bundle =
       Inr (Some (Some (sample_bundle\<lparr>blocks := bl, payload_block := Some (fst (hd bl))\<rparr>), m))) \<and>
   bundle_dup (mem_ok [1, 2, 3, 4, 5, 6, 7, 8])
     (sample_bundle\<lparr>blocks := [(100, sample_payload\<lparr>blk_type := 7\<rparr>)]\<rparr>) = Inr None"
proof -
  let ?b = "sample_bundle\<lparr>blocks := [(100, sample_payload\<lparr>blk_type := 7\<rparr>)]\<rparr>"
  have wf: "block_wf sample_payload" "block_wf (sample_payload\<lparr>blk_type := 7\<rparr>)"
    by (simp_all add: block_wf_def sample_payload_def)
  have n: "copy_allocs sample_payload = 3" "copy_allocs (sample_payload\<lparr>blk_type := 7\<rparr>) = 3"
    and t: "blk_type sample_payload = BUNDLE_BLOCK_TYPE_PAYLOAD"
    by (simp_all add: copy_allocs_def sample_payload_def)
  have bl: "blocks sample_bundle = [(100, sample_payload)]"
    by (simp add: sample_bundle_def)
  show ?thesis
    using bundle_dup_result [of sample_bundle "[1, 2, 3, 4, 5, 6, 7, 8]"]
      bundle_dup_result [of ?b "[1, 2, 3, 4, 5, 6, 7, 8]"] wf n t
    by (simp add: bl)
qed

end
