(* ===== verification/Key_Store.thy ===== *)
theory Key_Store
  imports Main
begin

text \<open>
  The contract of the components that keep values under keys (the bundle store, the string hash
  table): what a lookup returns after an insertion and after a removal. A store is used through
  its successful operations: \<open>add k v s s'\<close> is an insertion of \<open>v\<close> under \<open>k\<close> that took the store from
  \<open>s\<close> to \<open>s'\<close>, \<open>del k s s'\<close> a removal of \<open>k\<close>.
\<close>

locale key_store =
  fixes ok :: "'s \<Rightarrow> bool"
    and get :: "'k \<Rightarrow> 's \<Rightarrow> 'v option"
    and add :: "'k \<Rightarrow> 'v \<Rightarrow> 's \<Rightarrow> 's \<Rightarrow> bool"
    and del :: "'k \<Rightarrow> 's \<Rightarrow> 's \<Rightarrow> bool"
  assumes add_ok: "ok s \<Longrightarrow> add k v s s' \<Longrightarrow> ok s'"
    and add_fresh: "ok s \<Longrightarrow> add k v s s' \<Longrightarrow> get k s = None"
    and get_add: "ok s \<Longrightarrow> add k v s s' \<Longrightarrow> get j s' = (if j = k then Some v else get j s)"
    and del_ok: "ok s \<Longrightarrow> del k s s' \<Longrightarrow> ok s'"
    and get_del: "ok s \<Longrightarrow> del k s s' \<Longrightarrow> get j s' = (if j = k then None else get j s)"
begin

lemma get_del_add:
  "ok s \<Longrightarrow> add k v s s1 \<Longrightarrow> del k s1 s2 \<Longrightarrow> get j s2 = get j s"
  using get_del [OF add_ok, of s k v s1 k s2 j] get_add [of s k v s1 j] add_fresh [of s k v s1]
  by simp

lemma add_once: "ok s \<Longrightarrow> add k v s s1 \<Longrightarrow> \<not> add k w s1 s2"
  using add_fresh [OF add_ok, of s k v s1 k w s2] get_add [of s k v s1 k] by auto

lemma add_commute:
  assumes "ok s" "add k v s s1" "add j w s1 s2" "add j w s t1" "add k v t1 t2"
  shows "get i s2 = get i t2"
proof -
  have "j \<noteq> k" using assms add_once by blast
  then show ?thesis
    using get_add [OF add_ok [OF assms(1,2)] assms(3), of i] get_add [OF assms(1,2), of i]
      get_add [OF add_ok [OF assms(1,4)] assms(5), of i] get_add [OF assms(1,4), of i]
    by (auto split: if_splits)
qed

end

end
