(* ===== verification/Bundle_Storage.thy ===== *)
theory Bundle_Storage
  imports Bundle Key_Store
begin

text \<open>
  The bundle store of \<open>components/upcn/bundle_storage_manager.c\<close>: an AVL tree from 16-bit bundle
  identifiers to bundles. A \<open>struct node\<close> is \<open>Nd\<close>, its null pointer \<open>Null\<close>. A slot
  (\<open>struct node **\<close>) of the tree together with the \<open>parent\<close> chain above it is a subtree with its
  context, the list of the ancestors from the nearest to the root: following \<open>parent\<close> is taking
  the first frame, writing to the slot is changing the subtree. The heights are those stored in the
  nodes, which the code recomputes only where it says so. An assertion is a fault of the model.
\<close>

section \<open>Nodes, slots and contexts\<close>

datatype node = Null | Nd node bundleid_t addr int node

datatype frame = In_left bundleid_t addr int node | In_right node bundleid_t addr int

fun plug1 :: "node \<Rightarrow> frame \<Rightarrow> node" where
  "plug1 t (In_left i b h r) = Nd t i b h r"
| "plug1 t (In_right l i b h) = Nd l i b h t"

fun plug :: "node \<Rightarrow> frame list \<Rightarrow> node" where
  "plug t [] = t"
| "plug t (f # ctx) = plug (plug1 t f) ctx"

section \<open>Operations on the tree\<close>

fun height :: "node \<Rightarrow> int" where
  "height Null = 0"
| "height (Nd l i b h r) = h"

fun get_balance :: "node \<Rightarrow> int" where
  "get_balance Null = 0"
| "get_balance (Nd l i b h r) = height l - height r"

fun recalc_height :: "node \<Rightarrow> node" where
  "recalc_height Null = Null"
| "recalc_height (Nd l i b h r) = Nd l i b (1 + max (height l) (height r)) r"

definition create_node :: "addr option \<Rightarrow> bundleid_t \<Rightarrow> addr \<Rightarrow> node" where
  "create_node mem i b = (case mem of None \<Rightarrow> Null | Some _ \<Rightarrow> Nd Null i b 1 Null)"

fun rotate_right :: "node \<Rightarrow> node outcome" where
  "rotate_right (Nd (Nd l i b h T2) i' b' h' r) =
     Inr (recalc_height (Nd l i b h (recalc_height (Nd T2 i' b' h' r))))"
| "rotate_right t = Inl Assert_Failed"

fun rotate_left :: "node \<Rightarrow> node outcome" where
  "rotate_left (Nd l i' b' h' (Nd T2 i b h r)) =
     Inr (recalc_height (Nd (recalc_height (Nd l i' b' h' T2)) i b h r))"
| "rotate_left t = Inl Assert_Failed"

text \<open>
  The descent of \<open>find_nodeptr\<close>: the slot of the node with the identifier, or, when a position for
  a new node is asked for, the slot of its parent-to-be.
\<close>

fun find_nodeptr :: "bundleid_t \<Rightarrow> bool \<Rightarrow> node \<Rightarrow> frame list \<Rightarrow> (node \<times> frame list) option" where
  "find_nodeptr k ins Null ctx = None"
| "find_nodeptr k ins (Nd l i b h r) ctx =
     (if k = i then Some (Nd l i b h r, ctx)
      else if k < i
      then (if l = Null then (if ins then Some (Nd l i b h r, ctx) else None)
            else find_nodeptr k ins l (In_left i b h r # ctx))
      else (if r = Null then (if ins then Some (Nd l i b h r, ctx) else None)
            else find_nodeptr k ins r (In_right l i b h # ctx)))"

text \<open>The body of the loop of \<open>rebalance_from_nodeptr\<close> on the node of the current slot.\<close>

fun rebalance_node :: "node \<Rightarrow> node outcome" where
  "rebalance_node Null = Inr Null"
| "rebalance_node (Nd l i b h0 r) =
     (let balance = height l - height r; h = 1 + max (height l) (height r) in
      c_assert (balance \<ge> -2 \<and> balance \<le> 2)
       (obind
         (if balance = -2
          then obind (if get_balance r > 0 then rotate_right r else Inr r)
                 (\<lambda>r'. rotate_left (Nd l i b h r'))
          else if balance = 2
          then obind (if get_balance l < 0 then rotate_left l else Inr l)
                 (\<lambda>l'. rotate_right (Nd l' i b h r))
          else Inr (Nd l i b h r))
         (\<lambda>t. c_assert (get_balance t \<ge> -1 \<and> get_balance t \<le> 1) (Inr t))))"

fun rebalance_from_nodeptr :: "node \<Rightarrow> frame list \<Rightarrow> node outcome" where
  "rebalance_from_nodeptr t [] = (if t = Null then Inr Null else rebalance_node t)"
| "rebalance_from_nodeptr t (f # ctx) =
     (if t = Null then Inr (plug t (f # ctx))
      else obind (rebalance_node t) (\<lambda>t'. rebalance_from_nodeptr (plug1 t' f) ctx))"

text \<open>
  The descents of \<open>delete_node_at_ptr\<close> to the replacement, from the given child of the deleted node:
  the slot of the rightmost (leftmost) node with the frames below the start.
\<close>

fun rightmost :: "node \<Rightarrow> frame list \<Rightarrow> node \<times> frame list" where
  "rightmost (Nd l i b h r) fs =
     (if r = Null then (Nd l i b h r, fs) else rightmost r (In_right l i b h # fs))"
| "rightmost Null fs = (Null, fs)"

fun leftmost :: "node \<Rightarrow> frame list \<Rightarrow> node \<times> frame list" where
  "leftmost (Nd l i b h r) fs =
     (if l = Null then (Nd l i b h r, fs) else leftmost l (In_left i b h r # fs))"
| "leftmost Null fs = (Null, fs)"

text \<open>
  When the replacement is not a child of the deleted node, it hands its only child to its parent,
  whose height is recomputed, and takes the place of the deleted node with its own old height; the
  rebalancing starts at that parent. When it is a child, it starts at the replacement.
\<close>

definition delete_node_at_ptr :: "node \<Rightarrow> frame list \<Rightarrow> node outcome" where
  "delete_node_at_ptr del ctx = (case del of
       Null \<Rightarrow> Inl Null_Deref
     | Nd l i b h r \<Rightarrow>
         if l = Null \<and> r = Null
         then (case ctx of [] \<Rightarrow> Inr Null | f # ctx' \<Rightarrow> rebalance_from_nodeptr (plug1 Null f) ctx')
         else if r = Null then rebalance_from_nodeptr l ctx
         else if l = Null then rebalance_from_nodeptr r ctx
         else if height l \<ge> height r
         then (case rightmost l [] of
                 (Nd rl ri rb rh rr, []) \<Rightarrow> rebalance_from_nodeptr (Nd rl ri rb rh r) ctx
               | (Nd rl ri rb rh rr, p # fs) \<Rightarrow>
                   rebalance_from_nodeptr (recalc_height (plug1 rl p))
                     (fs @ In_left ri rb rh r # ctx)
               | (Null, fs) \<Rightarrow> Inl Null_Deref)
         else (case leftmost r [] of
                 (Nd rl ri rb rh rr, []) \<Rightarrow> rebalance_from_nodeptr (Nd l ri rb rh rr) ctx
               | (Nd rl ri rb rh rr, p # fs) \<Rightarrow>
                   rebalance_from_nodeptr (recalc_height (plug1 rr p))
                     (fs @ In_right l ri rb rh # ctx)
               | (Null, fs) \<Rightarrow> Inl Null_Deref))"

text \<open>The tree and the result of \<open>add_node\<close>; \<open>mem\<close> is the result of the allocation.\<close>

definition add_node :: "addr option \<Rightarrow> node \<Rightarrow> bundleid_t \<Rightarrow> addr \<Rightarrow> (node \<times> bool) outcome" where
  "add_node mem storage_tree k bndl =
     (if storage_tree = Null
      then (let t = create_node mem k bndl in Inr (t, t \<noteq> Null))
      else case find_nodeptr k True storage_tree [] of
          None \<Rightarrow> Inl Null_Deref
        | Some (Null, ctx) \<Rightarrow> Inl Assert_Failed
        | Some (Nd l i b h r, ctx) \<Rightarrow>
            if create_node mem k bndl = Null then Inr (storage_tree, False)
            else if k \<le> i
            then c_assert (l = Null)
                   (obind (rebalance_from_nodeptr (Nd (create_node mem k bndl) i b h r) ctx)
                     (\<lambda>t. Inr (t, True)))
            else c_assert (r = Null)
                   (obind (rebalance_from_nodeptr (Nd l i b h (create_node mem k bndl)) ctx)
                     (\<lambda>t. Inr (t, True))))"

section \<open>The store\<close>

text \<open>
  The static variables of the store. The bundles are objects of the heap, which the store reads and,
  on \<open>bundle_storage_add\<close>, writes to. The semaphore makes every operation one atomic step.
\<close>

record storage_state =
  storage_tree :: node
  next_id :: bundleid_t
  bundle_bytes :: u32

type_synonym bundle_heap = "addr \<Rightarrow> bundle_t option"

definition storage_init :: storage_state where
  "storage_init = \<lparr>storage_tree = Null, next_id = BUNDLE_INVALID_ID + 1, bundle_bytes = 0\<rparr>"

definition deref_bundle :: "bundle_heap \<Rightarrow> addr \<Rightarrow> bundle_t outcome" where
  "deref_bundle H a = (case H a of None \<Rightarrow> Inl Use_After_Free | Some b \<Rightarrow> Inr b)"

definition payload_length :: "bundle_t \<Rightarrow> u32 outcome" where
  "payload_length b = (case payload_block b of
       None \<Rightarrow> Inr 0
     | Some _ \<Rightarrow> obind (deref_payload b) (\<lambda>pl. Inr (blk_length pl)))"

text \<open>
  The search for a free identifier, with the 16-bit counter wrapping around. \<open>None\<close> is a search
  that does not end.
\<close>

partial_function (option) find_free_id ::
  "node \<Rightarrow> bundleid_t \<Rightarrow> bundleid_t \<Rightarrow> (bundleid_t \<times> bundleid_t) option" where
  "find_free_id t k next =
     (if k = BUNDLE_INVALID_ID \<or> find_nodeptr k False t [] \<noteq> None
      then find_free_id t next (next + 1) else Some (k, next))"

definition bundle_storage_add :: "addr option \<Rightarrow> addr \<Rightarrow> storage_state \<Rightarrow> bundle_heap \<Rightarrow>
  (bundleid_t \<times> storage_state \<times> bundle_heap) option outcome" where
  "bundle_storage_add mem bndl s H =
     obind (deref_bundle H bndl) (\<lambda>b.
     c_assert (bundle_id b = BUNDLE_INVALID_ID)
      (case find_free_id (storage_tree s) (next_id s) (next_id s + 1) of
         None \<Rightarrow> Inr None
       | Some (k, next) \<Rightarrow>
           obind (add_node mem (storage_tree s) k bndl) (\<lambda>(t, added).
             if added
             then obind (payload_length b) (\<lambda>len. Inr (Some
               (k, \<lparr>storage_tree = t, next_id = next, bundle_bytes = bundle_bytes s + len\<rparr>,
                H(bndl \<mapsto> b\<lparr>bundle_id := k\<rparr>))))
             else Inr (Some (BUNDLE_INVALID_ID, s\<lparr>storage_tree := t, next_id := next\<rparr>, H)))))"

definition bundle_storage_contains :: "bundleid_t \<Rightarrow> storage_state \<Rightarrow> bool" where
  "bundle_storage_contains k s =
     (if k = BUNDLE_INVALID_ID then False
      else find_nodeptr k False (storage_tree s) [] \<noteq> None)"

definition bundle_storage_get :: "bundleid_t \<Rightarrow> storage_state \<Rightarrow> addr option" where
  "bundle_storage_get k s =
     (if k = BUNDLE_INVALID_ID then None
      else case find_nodeptr k False (storage_tree s) [] of
          Some (Nd l i b h r, ctx) \<Rightarrow> Some b
        | _ \<Rightarrow> None)"

definition bundle_storage_delete ::
  "bundleid_t \<Rightarrow> storage_state \<Rightarrow> bundle_heap \<Rightarrow> (bool \<times> storage_state) outcome" where
  "bundle_storage_delete k s H =
     (if k = BUNDLE_INVALID_ID then Inr (False, s)
      else case find_nodeptr k False (storage_tree s) [] of
          None \<Rightarrow> Inr (False, s)
        | Some (Null, ctx) \<Rightarrow> Inl Null_Deref
        | Some (Nd l i b h r, ctx) \<Rightarrow>
            obind (deref_bundle H b) (\<lambda>bndl.
            obind (payload_length bndl) (\<lambda>size.
            c_assert (bundle_bytes s \<ge> size)
             (obind (delete_node_at_ptr (Nd l i b h r) ctx) (\<lambda>t.
                Inr (True, s\<lparr>storage_tree := t, bundle_bytes := bundle_bytes s - size\<rparr>))))))"

definition bundle_storage_persist :: "bundleid_t \<Rightarrow> storage_state \<Rightarrow> bool \<times> storage_state" where
  "bundle_storage_persist k s =
     (if k = BUNDLE_INVALID_ID then (False, s)
      else case find_nodeptr k False (storage_tree s) [] of
          None \<Rightarrow> (False, s)
        | Some _ \<Rightarrow> (False, s))"

definition bundle_storage_get_usage :: "storage_state \<Rightarrow> u32" where
  "bundle_storage_get_usage s = bundle_bytes s"

definition bundle_storage_get_next_id :: "storage_state \<Rightarrow> bundleid_t" where
  "bundle_storage_get_next_id s = next_id s"

section \<open>Balance\<close>

fun avl :: "node \<Rightarrow> bool" where
  "avl Null \<longleftrightarrow> True"
| "avl (Nd l i b h r) \<longleftrightarrow>
     avl l \<and> avl r \<and> \<bar>height l - height r\<bar> \<le> 1 \<and> h = 1 + max (height l) (height r)"

fun inorder :: "node \<Rightarrow> (bundleid_t \<times> addr) list" where
  "inorder Null = []"
| "inorder (Nd l i b h r) = inorder l @ (i, b) # inorder r"

fun before :: "frame list \<Rightarrow> (bundleid_t \<times> addr) list" where
  "before [] = []"
| "before (In_left i b h r # ctx) = before ctx"
| "before (In_right l i b h # ctx) = before ctx @ inorder l @ [(i, b)]"

fun after :: "frame list \<Rightarrow> (bundleid_t \<times> addr) list" where
  "after [] = []"
| "after (In_left i b h r # ctx) = (i, b) # inorder r @ after ctx"
| "after (In_right l i b h # ctx) = after ctx"

lemma inorder_plug: "inorder (plug t ctx) = before ctx @ inorder t @ after ctx"
proof (induction ctx arbitrary: t)
  case (Cons f ctx)
  then show ?case by (cases f) simp_all
qed simp

text \<open>
  The ancestors of a slot are balanced when the subtree in it has height \<open>h\<close>; the heights stored in
  the ancestors themselves may be stale.
\<close>

fun frame_sibling :: "frame \<Rightarrow> node" where
  "frame_sibling (In_left i b h r) = r"
| "frame_sibling (In_right l i b h) = l"

fun ctx_ok :: "frame list \<Rightarrow> int \<Rightarrow> bool" where
  "ctx_ok [] h \<longleftrightarrow> True"
| "ctx_ok (f # ctx) h \<longleftrightarrow> avl (frame_sibling f) \<and> \<bar>h - height (frame_sibling f)\<bar> \<le> 1 \<and>
     ctx_ok ctx (1 + max h (height (frame_sibling f)))"

text \<open>
  The subtrees of a slot whose height was \<open>h\<close> after one of them has changed by one: their balance
  is at most two, and either way rebalancing leaves a height that differs from \<open>h\<close> by at most one.
\<close>

definition disturbed :: "node \<Rightarrow> node \<Rightarrow> int \<Rightarrow> bool" where
  "disturbed l r h \<longleftrightarrow> avl l \<and> avl r \<and> \<bar>height l - height r\<bar> \<le> 2 \<and>
     (if \<bar>height l - height r\<bar> \<le> 1 then \<bar>1 + max (height l) (height r) - h\<bar> \<le> 1
      else h - 1 \<le> max (height l) (height r) \<and> max (height l) (height r) \<le> h)"

lemma avl_height_nonneg: "avl t \<Longrightarrow> 0 \<le> height t"
  by (induction t) auto

lemma avl_height_0: "avl t \<Longrightarrow> height t = 0 \<longleftrightarrow> t = Null"
  using avl_height_nonneg by (cases t) fastforce+

lemma avl_height_Nd: "avl (Nd l i b h r) \<Longrightarrow> 1 \<le> h"
  using avl_height_nonneg [of l] by auto

lemma height_pos_Nd:
  assumes "avl t" and "height t \<ge> 1"
  obtains l i b h r where "t = Nd l i b h r"
  using assms by (cases t) auto

lemma rebalance_node_low:
  assumes "avl l" "avl r" "\<bar>height l - height r\<bar> \<le> 1"
  shows "rebalance_node (Nd l i b h0 r) = Inr (Nd l i b (1 + max (height l) (height r)) r)"
  using assms by (auto simp: Let_def c_assert_def)

lemma rebalance_node_right:
  assumes "avl l" "avl r" "height r = height l + 2"
  shows "\<exists>t. rebalance_node (Nd l i b h0 r) = Inr t \<and> avl t \<and> t \<noteq> Null \<and>
    inorder t = inorder l @ (i, b) # inorder r \<and> height t \<in> {height r, height r + 1}"
proof -
  obtain rl ri rb rh rr where r: "r = Nd rl ri rb rh rr"
    using assms avl_height_nonneg [OF assms(1)] by (auto elim: height_pos_Nd [of r])
  show ?thesis
  proof (cases "height rl > height rr")
    case False
    with assms r show ?thesis by (auto simp: Let_def c_assert_def)
  next
    case True
    have rl: "avl rl" "avl rr" using assms(2) r by auto
    then obtain ll i1 b1 h1 lr where "rl = Nd ll i1 b1 h1 lr"
      using True avl_height_nonneg [OF rl(2)] by (auto elim: height_pos_Nd [of rl])
    with assms r True show ?thesis by (auto simp: Let_def c_assert_def)
  qed
qed

lemma rebalance_node_left:
  assumes "avl l" "avl r" "height l = height r + 2"
  shows "\<exists>t. rebalance_node (Nd l i b h0 r) = Inr t \<and> avl t \<and> t \<noteq> Null \<and>
    inorder t = inorder l @ (i, b) # inorder r \<and> height t \<in> {height l, height l + 1}"
proof -
  obtain ll li lb lh lr where l: "l = Nd ll li lb lh lr"
    using assms avl_height_nonneg [OF assms(2)] by (auto elim: height_pos_Nd [of l])
  show ?thesis
  proof (cases "height ll < height lr")
    case False
    with assms l show ?thesis by (auto simp: Let_def c_assert_def)
  next
    case True
    have lr: "avl ll" "avl lr" using assms(1) l by auto
    then obtain rl i1 b1 h1 rr where "lr = Nd rl i1 b1 h1 rr"
      using True avl_height_nonneg [OF lr(1)] by (auto elim: height_pos_Nd [of lr])
    with assms l True show ?thesis by (auto simp: Let_def c_assert_def)
  qed
qed

lemma rebalance_node_disturbed:
  assumes "disturbed l r h"
  shows "\<exists>t. rebalance_node (Nd l i b h0 r) = Inr t \<and> avl t \<and> t \<noteq> Null \<and>
    inorder t = inorder l @ (i, b) # inorder r \<and> \<bar>height t - h\<bar> \<le> 1"
proof -
  have lr: "avl l" "avl r" and h: "\<bar>height l - height r\<bar> \<le> 2"
    using assms by (auto simp: disturbed_def)
  consider (low) "\<bar>height l - height r\<bar> \<le> 1" | (right) "height r = height l + 2"
    | (left) "height l = height r + 2"
    using h by linarith
  then show ?thesis
  proof cases
    case low
    then show ?thesis
      using rebalance_node_low [OF lr low] assms by (auto simp: disturbed_def)
  next
    case right
    then show ?thesis
      using rebalance_node_right [OF lr right, of i b h0] assms by (auto simp: disturbed_def)
  next
    case left
    then show ?thesis
      using rebalance_node_left [OF lr left, of i b h0] assms by (auto simp: disturbed_def)
  qed
qed

text \<open>One step up: a subtree whose height moved by at most one disturbs its parent.\<close>

lemma disturbed_plug1:
  assumes "avl t" and "\<bar>height t - h\<bar> \<le> 1" and "ctx_ok (f # ctx) h"
  obtains l i b h0 r where "plug1 t f = Nd l i b h0 r"
    and "disturbed l r (1 + max h (height (frame_sibling f)))"
    and "inorder (plug t (f # ctx)) = before ctx @ inorder l @ (i, b) # inorder r @ after ctx"
proof (cases f)
  case (In_left i b h0 r)
  with assms have "disturbed t r (1 + max h (height (frame_sibling f)))"
    by (auto simp: disturbed_def)
  with In_left show ?thesis by (intro that) (auto simp: inorder_plug)
next
  case (In_right l i b h0)
  with assms have "disturbed l t (1 + max h (height (frame_sibling f)))"
    by (auto simp: disturbed_def)
  with In_right show ?thesis by (intro that) (auto simp: inorder_plug)
qed

lemma rebalance_disturbed:
  assumes "disturbed l r h" and "ctx_ok ctx h"
  shows "\<exists>t. rebalance_from_nodeptr (Nd l i b h0 r) ctx = Inr t \<and> avl t \<and>
    inorder t = before ctx @ inorder l @ (i, b) # inorder r @ after ctx"
  using assms
proof (induction ctx arbitrary: l i b h0 r h)
  case Nil
  then show ?case using rebalance_node_disturbed [of l r h i b h0]
    by (auto simp del: rebalance_node.simps)
next
  case (Cons f ctx)
  obtain t where t: "rebalance_node (Nd l i b h0 r) = Inr t" "avl t" "t \<noteq> Null"
      "inorder t = inorder l @ (i, b) # inorder r" "\<bar>height t - h\<bar> \<le> 1"
    using rebalance_node_disturbed [OF Cons.prems(1)] by blast
  obtain l' i' b' h' r' where p: "plug1 t f = Nd l' i' b' h' r'"
      and d: "disturbed l' r' (1 + max h (height (frame_sibling f)))"
      and o: "inorder (plug t (f # ctx)) = before ctx @ inorder l' @ (i', b') # inorder r' @ after ctx"
    using disturbed_plug1 [OF t(2,5) Cons.prems(2)] by blast
  have "ctx_ok ctx (1 + max h (height (frame_sibling f)))"
    using Cons.prems(2) by simp
  from Cons.IH [OF d this, of i' b' h'] o t p show ?case
    unfolding inorder_plug [of t "f # ctx"]
    by (auto simp del: rebalance_node.simps before.simps after.simps)
qed

lemma rebalance_plug1:
  assumes "avl t" and "\<bar>height t - h\<bar> \<le> 1" and "ctx_ok (f # ctx) h"
  shows "\<exists>t'. rebalance_from_nodeptr (plug1 t f) ctx = Inr t' \<and> avl t' \<and>
    inorder t' = before (f # ctx) @ inorder t @ after (f # ctx)"
proof -
  obtain l i b h0 r where p: "plug1 t f = Nd l i b h0 r"
      and d: "disturbed l r (1 + max h (height (frame_sibling f)))"
      and o: "inorder (plug t (f # ctx)) = before ctx @ inorder l @ (i, b) # inorder r @ after ctx"
    using disturbed_plug1 [OF assms] by blast
  have "ctx_ok ctx (1 + max h (height (frame_sibling f)))"
    using assms(3) by simp
  from rebalance_disturbed [OF d this, of i b h0] p o show ?thesis
    unfolding inorder_plug [of t "f # ctx"] by (simp del: before.simps after.simps)
qed

section \<open>Search\<close>

definition sorted_ids :: "(bundleid_t \<times> addr) list \<Rightarrow> bool" where
  "sorted_ids xs \<longleftrightarrow> sorted_wrt (<) (map fst xs)"

lemma sorted_ids_append:
  "sorted_ids (xs @ ys) \<longleftrightarrow>
     sorted_ids xs \<and> sorted_ids ys \<and> (\<forall>x \<in> set xs. \<forall>y \<in> set ys. fst x < fst y)"
  by (auto simp: sorted_ids_def sorted_wrt_append)

lemma sorted_ids_Cons:
  "sorted_ids (x # xs) \<longleftrightarrow> (\<forall>y \<in> set xs. fst x < fst y) \<and> sorted_ids xs"
  by (auto simp: sorted_ids_def)

lemma sorted_ids_Nil [simp]: "sorted_ids []"
  by (simp add: sorted_ids_def)

lemma sorted_ids_distinct: "sorted_ids xs \<Longrightarrow> distinct (map fst xs)"
  by (simp add: sorted_ids_def strict_sorted_iff)

lemmas sorted_ids_simps = sorted_ids_append sorted_ids_Cons

text \<open>The identifiers around the slot a search for \<open>k\<close> has reached.\<close>

definition around :: "bundleid_t \<Rightarrow> frame list \<Rightarrow> bool" where
  "around k ctx \<longleftrightarrow> (\<forall>x \<in> set (before ctx). fst x < k) \<and> (\<forall>x \<in> set (after ctx). k < fst x)"

lemma find_nodeptr_Some:
  assumes "find_nodeptr k ins t ctx = Some (t', ctx')"
    and "sorted_ids (inorder (plug t ctx))" and "around k ctx"
    and "avl t" and "ctx_ok ctx (height t)"
  shows "plug t' ctx' = plug t ctx" and "around k ctx'" and "avl t'" and "ctx_ok ctx' (height t')"
    and "\<exists>l i b h r. t' = Nd l i b h r \<and>
           (k = i \<or> ins \<and> k < i \<and> l = Null \<or> ins \<and> i < k \<and> r = Null)"
proof -
  have "plug t' ctx' = plug t ctx \<and> around k ctx' \<and> avl t' \<and> ctx_ok ctx' (height t') \<and>
      (\<exists>l i b h r. t' = Nd l i b h r \<and>
           (k = i \<or> ins \<and> k < i \<and> l = Null \<or> ins \<and> i < k \<and> r = Null))"
    using assms
  proof (induction k ins t ctx rule: find_nodeptr.induct)
    case (2 k ins l i b h r ctx)
    have s: "sorted_ids (before ctx @ (inorder l @ (i, b) # inorder r) @ after ctx)"
      using 2(4) by (simp add: inorder_plug)
    consider "k = i" | "k < i" "l = Null" | "k < i" "l \<noteq> Null" | "i < k" "r = Null"
      | "i < k" "r \<noteq> Null"
      by (metis linorder_less_linear)
    then show ?case
    proof cases
      case 3
      have "around k (In_left i b h r # ctx)"
        using 2(5) 3 s
        by (auto simp: around_def sorted_ids_simps intro: order.strict_trans [OF 3(1)])
      with 2(3-7) 3 show ?thesis by (intro 2(1) [unfolded plug.simps plug1.simps])
          (auto simp: max.commute split: if_splits)
    next
      case 5
      have "around k (In_right l i b h # ctx)"
        using 2(5) 5 s
        by (auto simp: around_def sorted_ids_simps intro: order.strict_trans [OF _ 5(1)])
      with 2(3-7) 5 show ?thesis by (intro 2(2) [unfolded plug.simps plug1.simps])
          (auto simp: max.commute split: if_splits)
    qed (use 2 in \<open>auto split: if_splits\<close>)
  qed simp
  then show "plug t' ctx' = plug t ctx" and "around k ctx'" and "avl t'"
    and "ctx_ok ctx' (height t')" and "\<exists>l i b h r. t' = Nd l i b h r \<and>
           (k = i \<or> ins \<and> k < i \<and> l = Null \<or> ins \<and> i < k \<and> r = Null)"
    by blast+
qed

lemma find_nodeptr_total: "t \<noteq> Null \<Longrightarrow> \<exists>s. find_nodeptr k True t ctx = Some s"
  by (induction k True t ctx rule: find_nodeptr.induct) auto

fun node_bundle :: "node \<Rightarrow> addr option" where
  "node_bundle Null = None"
| "node_bundle (Nd l i b h r) = Some b"

lemma find_nodeptr_lookup:
  assumes "sorted_ids (inorder t)"
  shows "Option.bind (find_nodeptr k False t ctx) (node_bundle \<circ> fst) = map_of (inorder t) k"
  using assms
proof (induction k False t ctx rule: find_nodeptr.induct)
  case (2 k l i b h r ctx)
  have l: "map_of (inorder l) k = None" if "i \<le> k"
    using 2(3) that by (force simp: map_of_eq_None_iff sorted_ids_simps)
  have r: "map_of (inorder r) k = None" if "k \<le> i"
    using 2(3) that by (force simp: map_of_eq_None_iff sorted_ids_simps)
  consider "k = i" | "k < i" | "i < k"
    by (metis linorder_less_linear)
  then show ?case
    using 2 l r by cases (auto simp: map_add_def sorted_ids_simps split: option.splits)
qed simp

lemma find_nodeptr_Nd: "find_nodeptr k ins t ctx = Some (t', ctx') \<Longrightarrow> t' \<noteq> Null"
  by (induction k ins t ctx rule: find_nodeptr.induct) (auto split: if_splits)

lemma find_nodeptr_None_iff:
  assumes "sorted_ids (inorder t)"
  shows "find_nodeptr k False t ctx = None \<longleftrightarrow> k \<notin> fst ` set (inorder t)"
proof -
  have "find_nodeptr k False t ctx = None \<longleftrightarrow> map_of (inorder t) k = None"
  proof (cases "find_nodeptr k False t ctx")
    case None
    then show ?thesis using find_nodeptr_lookup [OF assms, of k ctx] by simp
  next
    case (Some s)
    then have "fst s \<noteq> Null" by (metis find_nodeptr_Nd prod.collapse)
    with Some show ?thesis
      using find_nodeptr_lookup [OF assms, of k ctx, symmetric] by (cases "fst s") auto
  qed
  then show ?thesis by (simp add: map_of_eq_None_iff)
qed

section \<open>Insertion and deletion\<close>

lemma add_node_ok:
  assumes t: "avl t" "sorted_ids (inorder t)" "k \<notin> fst ` set (inorder t)"
  shows "\<exists>t' xs ys. add_node (Some m) t k a = Inr (t', True) \<and> avl t' \<and> t' \<noteq> Null \<and>
    inorder t = xs @ ys \<and> inorder t' = xs @ (k, a) # ys \<and> sorted_ids (inorder t')"
proof (cases "t = Null")
  case True
  then show ?thesis by (simp add: add_node_def create_node_def sorted_ids_def)
next
  case False
  then obtain s ctx where f: "find_nodeptr k True t [] = Some (s, ctx)"
    using find_nodeptr_total [of t k "[]"] by auto
  note p = find_nodeptr_Some [OF f, simplified, OF t(2) _ t(1)]
  have ar: "around k []" by (simp add: around_def)
  obtain l i b h r where s: "s = Nd l i b h r"
      and c: "k = i \<or> k < i \<and> l = Null \<or> i < k \<and> r = Null"
    using p(5) [OF ar] by auto
  have io: "inorder t = before ctx @ inorder l @ (i, b) # inorder r @ after ctx"
    using p(1) [OF ar] s by (metis append_Cons append_assoc inorder.simps(2) inorder_plug)
  then have "k \<noteq> i" using t(3) by auto
  have avl: "avl l" "avl r" "\<bar>height l - height r\<bar> \<le> 1" "h = 1 + max (height l) (height r)"
    using p(3) [OF ar] s by auto
  have ctx: "ctx_ok ctx h" using p(4) [OF ar] s by simp
  have srt: "sorted_ids (xs @ (k, a) # ys)"
    if "inorder t = xs @ ys" "\<forall>x \<in> set xs. fst x < k" "\<forall>x \<in> set ys. k < fst x" for xs ys
    using t(2) that by (auto simp: sorted_ids_simps)
  let ?n = "Nd Null k a 1 Null"
  from c \<open>k \<noteq> i\<close> consider (l) "k < i" "l = Null" | (r) "i < k" "r = Null" by auto
  then show ?thesis
  proof cases
    case l
    have "disturbed ?n r h"
      using avl l avl_height_nonneg [OF avl(2)] by (auto simp: disturbed_def)
    from rebalance_disturbed [OF this ctx, of i b h] obtain t' where
      t': "rebalance_from_nodeptr (Nd ?n i b h r) ctx = Inr t'" "avl t'"
          "inorder t' = before ctx @ (k, a) # (i, b) # inorder r @ after ctx"
      by auto
    have g: "k < fst x" if "x \<in> set ((i, b) # inorder r @ after ctx)" for x
      using that l p(2) [OF ar] t(2) io
      by (auto simp: around_def sorted_ids_simps intro: order.strict_trans [OF l(1)])
    have "sorted_ids (inorder t')"
      using srt [of "before ctx" "(i, b) # inorder r @ after ctx"] g io l t'(3) p(2) [OF ar]
      by (auto simp: around_def)
    moreover have "add_node (Some m) t k a = Inr (t', True)"
      using False f s l t'(1) by (auto simp: add_node_def create_node_def)
    ultimately show ?thesis
      using t' io l
      by (intro exI [of _ t'] exI [of _ "before ctx"] exI [of _ "(i, b) # inorder r @ after ctx"])
        auto
  next
    case r
    have "disturbed l ?n h"
      using avl r avl_height_nonneg [OF avl(1)] by (auto simp: disturbed_def)
    from rebalance_disturbed [OF this ctx, of i b h] obtain t' where
      t': "rebalance_from_nodeptr (Nd l i b h ?n) ctx = Inr t'" "avl t'"
          "inorder t' = before ctx @ inorder l @ (i, b) # (k, a) # after ctx"
      by auto
    have g: "fst x < k" if "x \<in> set (before ctx @ inorder l @ [(i, b)])" for x
      using that r p(2) [OF ar] t(2) io
      by (auto simp: around_def sorted_ids_simps intro: order.strict_trans [OF _ r(1)])
    have "sorted_ids (inorder t')"
      using srt [of "before ctx @ inorder l @ [(i, b)]" "after ctx"] g io r t'(3) p(2) [OF ar]
      by (auto simp: around_def)
    moreover have "add_node (Some m) t k a = Inr (t', True)"
      using False f s r t'(1) by (auto simp: add_node_def create_node_def)
    ultimately show ?thesis
      using t' io r
      by (intro exI [of _ t'] exI [of _ "before ctx @ inorder l @ [(i, b)]"]
          exI [of _ "after ctx"]) auto
  qed
qed

lemma before_append: "before (fs @ ctx) = before ctx @ before fs"
  by (induction fs rule: before.induct) simp_all

lemma after_append: "after (fs @ ctx) = after fs @ after ctx"
  by (induction fs rule: after.induct) simp_all

lemma ctx_ok_siblings: "map frame_sibling c = map frame_sibling c' \<Longrightarrow> ctx_ok c h = ctx_ok c' h"
proof (induction c arbitrary: c' h)
  case (Cons f c)
  then obtain f' d where "c' = f' # d" "frame_sibling f = frame_sibling f'"
      "map frame_sibling c = map frame_sibling d"
    by (auto simp: Cons_eq_map_conv)
  then show ?case using Cons.IH [of d] by simp
qed simp

lemma rebalance_recalc:
  "rebalance_from_nodeptr (recalc_height (plug1 t f)) ctx = rebalance_from_nodeptr (plug1 t f) ctx"
  by (cases f; cases ctx) simp_all

lemma rightmost_ok:
  assumes "t \<noteq> Null" and "avl t" and "ctx_ok (fs @ C) (height t)"
  shows "case rightmost t fs of (s, fs') \<Rightarrow> \<exists>l i b h. s = Nd l i b h Null \<and> avl s \<and>
    ctx_ok (fs' @ C) h \<and> after fs' = after fs \<and>
    before fs' @ inorder l @ [(i, b)] = before fs @ inorder t"
  using assms
  by (induction t fs rule: rightmost.induct) (auto simp: max.commute)

lemma leftmost_ok:
  assumes "t \<noteq> Null" and "avl t" and "ctx_ok (fs @ C) (height t)"
  shows "case leftmost t fs of (s, fs') \<Rightarrow> \<exists>i b h r. s = Nd Null i b h r \<and> avl s \<and>
    ctx_ok (fs' @ C) h \<and> before fs' = before fs \<and>
    (i, b) # inorder r @ after fs' = inorder t @ after fs"
  using assms
  by (induction t fs rule: leftmost.induct) (auto simp: max.commute)

lemma rightmost_frames: "fs \<noteq> [] \<Longrightarrow> snd (rightmost t fs) \<noteq> []"
  by (induction t fs rule: rightmost.induct) simp_all

lemma leftmost_frames: "fs \<noteq> [] \<Longrightarrow> snd (leftmost t fs) \<noteq> []"
  by (induction t fs rule: leftmost.induct) simp_all

lemma rightmost_Nil: "rightmost t [] = (s, []) \<Longrightarrow> s = t"
  using rightmost_frames by (cases t) (auto split: if_splits, metis list.distinct(1) snd_conv)

lemma leftmost_Nil: "leftmost t [] = (s, []) \<Longrightarrow> s = t"
  using leftmost_frames by (cases t) (auto split: if_splits, metis list.distinct(1) snd_conv)

lemma delete_two_left:
  assumes "avl (Nd l i b h r)" and "ctx_ok ctx h" and "l \<noteq> Null" and "r \<noteq> Null"
    and "height l \<ge> height r"
  shows "\<exists>t. delete_node_at_ptr (Nd l i b h r) ctx = Inr t \<and> avl t \<and>
    inorder t = before ctx @ inorder l @ inorder r @ after ctx"
proof -
  let ?C = "In_left i b h r # ctx"
  have "ctx_ok ([] @ ?C) (height l)"
    using assms by auto
  from rightmost_ok [OF assms(3) _ this] assms(1) obtain rl ri rb rh fs where
    rm: "rightmost l [] = (Nd rl ri rb rh Null, fs)" and avl: "avl (Nd rl ri rb rh Null)"
    and C: "ctx_ok (fs @ ?C) rh" and io: "after fs = []" "before fs @ inorder rl @ [(ri, rb)] = inorder l"
    by auto
  have "map frame_sibling (fs @ In_left ri rb rh r # ctx) = map frame_sibling (fs @ ?C)" by simp
  from ctx_ok_siblings [OF this] C have C': "ctx_ok (fs @ In_left ri rb rh r # ctx) rh" by simp
  have io': "before (fs @ In_left ri rb rh r # ctx) @ inorder rl @ after (fs @ In_left ri rb rh r # ctx) =
      before ctx @ inorder l @ inorder r @ after ctx"
    by (simp add: before_append after_append io(1) flip: io(2))
  have rh: "avl rl" "\<bar>height rl - rh\<bar> \<le> 1" using avl avl_height_nonneg [of rl] by auto
  show ?thesis
  proof (cases fs)
    case Nil
    have l: "l = Nd rl ri rb rh Null" using rm Nil rightmost_Nil by blast
    then have "disturbed rl r h" using assms avl rh by (auto simp: disturbed_def)
    from rebalance_disturbed [OF this assms(2), of ri rb rh] show ?thesis
      using assms l by (auto simp: delete_node_at_ptr_def)
  next
    case (Cons p fs')
    from rebalance_plug1 [OF rh C' [unfolded Cons, simplified append_Cons]] obtain t where
      "rebalance_from_nodeptr (plug1 rl p) (fs' @ In_left ri rb rh r # ctx) = Inr t" "avl t"
      "inorder t = before ctx @ inorder l @ inorder r @ after ctx"
      unfolding io' [symmetric] Cons append_Cons by auto
    then show ?thesis
      using assms rm Cons by (auto simp: delete_node_at_ptr_def rebalance_recalc)
  qed
qed

lemma delete_two_right:
  assumes "avl (Nd l i b h r)" and "ctx_ok ctx h" and "l \<noteq> Null" and "r \<noteq> Null"
    and "height l < height r"
  shows "\<exists>t. delete_node_at_ptr (Nd l i b h r) ctx = Inr t \<and> avl t \<and>
    inorder t = before ctx @ inorder l @ inorder r @ after ctx"
proof -
  let ?C = "In_right l i b h # ctx"
  have "ctx_ok ([] @ ?C) (height r)"
    using assms by (auto simp: max.commute)
  from leftmost_ok [OF assms(4) _ this] assms(1) obtain ri rb rh rr fs where
    lm: "leftmost r [] = (Nd Null ri rb rh rr, fs)" and avl: "avl (Nd Null ri rb rh rr)"
    and C: "ctx_ok (fs @ ?C) rh" and io: "before fs = []" "(ri, rb) # inorder rr @ after fs = inorder r"
    by auto
  have "map frame_sibling (fs @ In_right l ri rb rh # ctx) = map frame_sibling (fs @ ?C)" by simp
  from ctx_ok_siblings [OF this] C have C': "ctx_ok (fs @ In_right l ri rb rh # ctx) rh" by simp
  have io': "before (fs @ In_right l ri rb rh # ctx) @ inorder rr @ after (fs @ In_right l ri rb rh # ctx) =
      before ctx @ inorder l @ inorder r @ after ctx"
    by (simp add: before_append after_append io(1) flip: io(2))
  have rh: "avl rr" "\<bar>height rr - rh\<bar> \<le> 1" using avl avl_height_nonneg [of rr] by auto
  show ?thesis
  proof (cases fs)
    case Nil
    have r: "r = Nd Null ri rb rh rr" using lm Nil leftmost_Nil by blast
    then have "disturbed l rr h" using assms avl rh by (auto simp: disturbed_def)
    from rebalance_disturbed [OF this assms(2), of ri rb rh] show ?thesis
      using assms r by (auto simp: delete_node_at_ptr_def)
  next
    case (Cons p fs')
    from rebalance_plug1 [OF rh C' [unfolded Cons, simplified append_Cons]] obtain t where
      "rebalance_from_nodeptr (plug1 rr p) (fs' @ In_right l ri rb rh # ctx) = Inr t" "avl t"
      "inorder t = before ctx @ inorder l @ inorder r @ after ctx"
      unfolding io' [symmetric] Cons append_Cons by auto
    then show ?thesis
      using assms lm Cons by (auto simp: delete_node_at_ptr_def rebalance_recalc)
  qed
qed

lemma delete_node_ok:
  assumes "avl (Nd l i b h r)" and "ctx_ok ctx h"
  shows "\<exists>t. delete_node_at_ptr (Nd l i b h r) ctx = Inr t \<and> avl t \<and>
    inorder t = before ctx @ inorder l @ inorder r @ after ctx"
proof -
  have one: "\<exists>t. rebalance_from_nodeptr s ctx = Inr t \<and> avl t \<and>
      inorder t = before ctx @ inorder s @ after ctx"
    if "avl s" "s \<noteq> Null" "h = 1 + height s" for s
  proof -
    obtain sl si sb sh sr where s: "s = Nd sl si sb sh sr" using \<open>s \<noteq> Null\<close> by (cases s) auto
    then have "disturbed sl sr h" using that by (auto simp: disturbed_def)
    from rebalance_disturbed [OF this assms(2), of si sb sh] s show ?thesis by simp
  qed
  consider (leaf) "l = Null" "r = Null" | (left) "l \<noteq> Null" "r = Null" | (right) "l = Null" "r \<noteq> Null"
    | (two_l) "l \<noteq> Null" "r \<noteq> Null" "height l \<ge> height r"
    | (two_r) "l \<noteq> Null" "r \<noteq> Null" "height l < height r"
    by fastforce
  then show ?thesis
  proof cases
    case leaf
    then have "h = 1" using assms(1) by simp
    show ?thesis
    proof (cases ctx)
      case (Cons f ctx')
      have "ctx_ok (f # ctx') 1" using assms(2) Cons \<open>h = 1\<close> by simp
      from rebalance_plug1 [of Null 1, OF _ _ this] show ?thesis
        using leaf Cons by (simp add: delete_node_at_ptr_def)
    qed (use leaf in \<open>simp add: delete_node_at_ptr_def\<close>)
  next
    case left
    then show ?thesis
      using one [of l] assms(1) avl_height_nonneg [of l] by (auto simp: delete_node_at_ptr_def)
  next
    case right
    then show ?thesis
      using one [of r] assms(1) avl_height_nonneg [of r] by (auto simp: delete_node_at_ptr_def)
  next
    case two_l
    then show ?thesis using delete_two_left assms by blast
  next
    case two_r
    then show ?thesis using delete_two_right assms by blast
  qed
qed

section \<open>The height of the tree\<close>

lemma avl_size: "avl t \<Longrightarrow> 2 ^ (nat (height t) div 2) \<le> length (inorder t) + 1"
proof (induction t)
  case (Nd l i b h r)
  have nn: "0 \<le> height l" "0 \<le> height r" using Nd.prems avl_height_nonneg by auto
  show ?case
  proof (cases "nat h < 2")
    case False
    then obtain e where h: "nat h div 2 = Suc e" by (cases "nat h div 2") auto
    have "e \<le> nat (height l) div 2" "e \<le> nat (height r) div 2"
      using Nd.prems nn h by auto
    then have "(2::nat) ^ e \<le> 2 ^ (nat (height l) div 2)" "(2::nat) ^ e \<le> 2 ^ (nat (height r) div 2)"
      by (auto intro: power_increasing)
    moreover have "2 ^ (nat (height l) div 2) \<le> length (inorder l) + 1"
        "2 ^ (nat (height r) div 2) \<le> length (inorder r) + 1"
      using Nd by auto
    ultimately have "2 * 2 ^ e \<le> length (inorder l) + 1 + (length (inorder r) + 1)"
      by linarith
    then show ?thesis by (simp add: h)
  qed simp
qed simp

lemma sorted_ids_length: "sorted_ids xs \<Longrightarrow> length xs \<le> 65536"
proof -
  assume "sorted_ids xs"
  then have "distinct (map fst xs)" by (rule sorted_ids_distinct)
  then have "length xs = card (set (map fst xs))" by (metis distinct_card length_map)
  also have "\<dots> \<le> card (UNIV :: bundleid_t set)" by (intro card_mono) auto
  finally show ?thesis by (simp add: card_word)
qed

lemma avl_height_int8:
  assumes "avl t" and "sorted_ids (inorder t)"
  shows "height t \<le> 33"
proof -
  have "2 ^ (nat (height t) div 2) \<le> (65537 :: nat)"
    using avl_size [OF assms(1)] sorted_ids_length [OF assms(2)] by linarith
  also have "\<dots> < 2 ^ 17" by simp
  finally have "nat (height t) div 2 < 17" by (metis one_less_numeral_iff power_less_imp_less_exp semiring_norm(76))
  then show ?thesis by simp
qed

section \<open>Free identifiers\<close>

text \<open>The identifiers the search tries, from \<open>k\<close> on, up to the first free one.\<close>

definition id_taken :: "node \<Rightarrow> bundleid_t \<Rightarrow> bool" where
  "id_taken t k \<longleftrightarrow> k = BUNDLE_INVALID_ID \<or> find_nodeptr k False t [] \<noteq> None"

lemma find_free_id_ok:
  assumes "\<not> id_taken t f"
  shows "\<exists>n. find_free_id t k (k + 1) = Some (k + of_nat n, k + of_nat n + 1) \<and>
    \<not> id_taken t (k + of_nat n) \<and> (\<forall>m < n. id_taken t (k + of_nat m))"
proof (induction "unat (f - k)" arbitrary: k rule: less_induct)
  case less
  show ?case
  proof (cases "id_taken t k")
    case False
    then show ?thesis
      by (intro exI [of _ 0]) (simp add: find_free_id.simps [of t k] id_taken_def)
  next
    case True
    have "f \<noteq> k" using True assms by auto
    have "unat (f - (k + 1)) < unat (f - k)"
    proof -
      have "f - k \<noteq> 0" using \<open>f \<noteq> k\<close> by simp
      then have "unat (f - k - 1) = unat (f - k) - 1" "0 < unat (f - k)"
        by (simp_all add: unat_minus_one unat_gt_0)
      moreover have "f - (k + 1) = f - k - 1" by simp
      ultimately show ?thesis by (metis diff_less less_numeral_extra(1))
    qed
    from less [OF this] obtain n where n:
      "find_free_id t (k + 1) (k + 1 + 1) = Some (k + 1 + of_nat n, k + 1 + of_nat n + 1)"
      "\<not> id_taken t (k + 1 + of_nat n)" "\<forall>m < n. id_taken t (k + 1 + of_nat m)"
      by blast
    have "find_free_id t k (k + 1) = find_free_id t (k + 1) (k + 1 + 1)"
      using True by (subst find_free_id.simps) (simp add: id_taken_def)
    moreover have "\<forall>m < Suc n. id_taken t (k + of_nat m)"
      using True n(3) by (auto simp: less_Suc_eq_0_disj ac_simps)
    ultimately show ?thesis
      using n by (intro exI [of _ "Suc n"]) (simp add: ac_simps)
  qed
qed

section \<open>The store as a map\<close>

definition store_map :: "storage_state \<Rightarrow> bundleid_t \<Rightarrow> addr option" where
  "store_map s = map_of (inorder (storage_tree s))"

definition tree_ok :: "storage_state \<Rightarrow> bool" where
  "tree_ok s \<longleftrightarrow> avl (storage_tree s) \<and> sorted_ids (inorder (storage_tree s)) \<and>
     BUNDLE_INVALID_ID \<notin> fst ` set (inorder (storage_tree s))"

lemma id_taken_iff: "tree_ok s \<Longrightarrow> id_taken (storage_tree s) k \<longleftrightarrow> k = 0 \<or> store_map s k \<noteq> None"
  by (simp add: id_taken_def tree_ok_def store_map_def find_nodeptr_None_iff map_of_eq_None_iff)

lemma bundle_storage_get_eq: "tree_ok s \<Longrightarrow> bundle_storage_get k s = store_map s k"
proof -
  assume "tree_ok s"
  then have s: "sorted_ids (inorder (storage_tree s))" "store_map s 0 = None"
    by (auto simp: tree_ok_def store_map_def map_of_eq_None_iff)
  have "(case find_nodeptr k False (storage_tree s) [] of
      Some (Nd l i b h r, ctx) \<Rightarrow> Some b | _ \<Rightarrow> None) = store_map s k"
    using find_nodeptr_lookup [OF s(1), of k "[]"]
    by (auto simp: store_map_def split: option.splits node.splits)
  with s(2) show ?thesis
    by (auto simp: bundle_storage_get_def)
qed

lemma bundle_storage_contains_eq: "tree_ok s \<Longrightarrow> bundle_storage_contains k s \<longleftrightarrow> store_map s k \<noteq> None"
  using id_taken_iff [of s k]
  by (auto simp: bundle_storage_contains_def id_taken_def tree_ok_def store_map_def map_of_eq_None_iff)

lemma map_of_insert_sorted:
  assumes "sorted_ids (xs @ (k, a) # ys)"
  shows "map_of (xs @ (k, a) # ys) = (map_of (xs @ ys))(k \<mapsto> a)"
proof -
  have "map_of xs k = None"
    using assms by (auto simp: sorted_ids_simps map_of_eq_None_iff)
  then show ?thesis by (auto simp: map_add_def split: option.splits)
qed

lemma map_of_remove_sorted:
  assumes "sorted_ids (xs @ (k, a) # ys)"
  shows "map_of (xs @ ys) = (map_of (xs @ (k, a) # ys))(k := None)"
proof -
  have "map_of xs k = None" "map_of ys k = None"
    using assms by (auto simp: sorted_ids_simps map_of_eq_None_iff)
  then show ?thesis by (auto simp: map_add_def fun_eq_iff split: option.splits)
qed

lemma add_ok_cases:
  assumes "tree_ok s" and "H a = Some b" and "bundle_id b = BUNDLE_INVALID_ID"
    and "payload_length b = Inr n" and "\<not> id_taken (storage_tree s) f"
  obtains k t xs ys where
    "bundle_storage_add (Some m) a s H = Inr (Some (k,
       \<lparr>storage_tree = t, next_id = k + 1, bundle_bytes = bundle_bytes s + n\<rparr>,
       H(a \<mapsto> b\<lparr>bundle_id := k\<rparr>)))"
    "k \<noteq> BUNDLE_INVALID_ID" "store_map s k = None"
    "avl t" "inorder (storage_tree s) = xs @ ys" "inorder t = xs @ (k, a) # ys"
    "sorted_ids (inorder t)"
proof -
  obtain j where f: "find_free_id (storage_tree s) (next_id s) (next_id s + 1) = Some (j, j + 1)"
      "\<not> id_taken (storage_tree s) j"
    using find_free_id_ok [OF assms(5), of "next_id s"] by auto
  have j: "j \<noteq> 0" "store_map s j = None"
    using f(2) id_taken_iff [OF assms(1)] by auto
  have "\<exists>t xs ys. add_node (Some m) (storage_tree s) j a = Inr (t, True) \<and> avl t \<and> t \<noteq> Null \<and>
      inorder (storage_tree s) = xs @ ys \<and> inorder t = xs @ (j, a) # ys \<and> sorted_ids (inorder t)"
    using assms(1) j(2)
    by (intro add_node_ok) (auto simp: tree_ok_def store_map_def map_of_eq_None_iff)
  then obtain t xs ys where
    "add_node (Some m) (storage_tree s) j a = Inr (t, True)" "avl t"
    "inorder (storage_tree s) = xs @ ys" "inorder t = xs @ (j, a) # ys" "sorted_ids (inorder t)"
    by blast
  with f j assms(2-4) show thesis
    by (intro that) (auto simp: bundle_storage_add_def deref_bundle_def)
qed

text \<open>Deleting a stored bundle, before the accounting.\<close>

lemma delete_cases:
  assumes "tree_ok s" and "store_map s k = Some a"
  obtains l h r ctx t xs ys where
    "find_nodeptr k False (storage_tree s) [] = Some (Nd l k a h r, ctx)"
    "delete_node_at_ptr (Nd l k a h r) ctx = Inr t" "avl t"
    "inorder (storage_tree s) = xs @ (k, a) # ys" "inorder t = xs @ ys"
proof -
  have s: "avl (storage_tree s)" "sorted_ids (inorder (storage_tree s))"
    using assms(1) by (auto simp: tree_ok_def)
  obtain t' ctx where f: "find_nodeptr k False (storage_tree s) [] = Some (t', ctx)"
    using assms find_nodeptr_lookup [OF s(2), of k "[]"]
    by (cases "find_nodeptr k False (storage_tree s) []") (auto simp: store_map_def)
  have ar: "around k []" by (simp add: around_def)
  note p = find_nodeptr_Some [OF f, simplified, OF s(2) ar s(1)]
  obtain l b h r where t': "t' = Nd l k b h r" using p(5) by auto
  have "b = a"
    using find_nodeptr_lookup [OF s(2), of k "[]"] f t' assms(2) by (simp add: store_map_def)
  have "inorder (storage_tree s) = before ctx @ inorder l @ (k, a) # inorder r @ after ctx"
    using p(1) t' \<open>b = a\<close> by (metis append_Cons append_assoc inorder.simps(2) inorder_plug)
  moreover obtain t where "delete_node_at_ptr (Nd l k a h r) ctx = Inr t" "avl t"
      "inorder t = before ctx @ inorder l @ inorder r @ after ctx"
    using delete_node_ok [of l k a h r ctx] p(3,4) t' \<open>b = a\<close> by auto
  ultimately show thesis
    using f t' \<open>b = a\<close> by (intro that [of l h r ctx t "before ctx @ inorder l"]) auto
qed

lemma tree_ok_add:
  assumes "tree_ok s" and "avl t" and "sorted_ids (xs @ (k, a) # ys)" and "k \<noteq> BUNDLE_INVALID_ID"
    and "inorder (storage_tree s) = xs @ ys" and "inorder t = xs @ (k, a) # ys"
  shows "tree_ok (s\<lparr>storage_tree := t, next_id := n, bundle_bytes := c\<rparr>)"
    and "store_map (s\<lparr>storage_tree := t, next_id := n, bundle_bytes := c\<rparr>) = (store_map s)(k \<mapsto> a)"
  using assms map_of_insert_sorted [OF assms(3)] by (auto simp: tree_ok_def store_map_def)

lemma tree_ok_delete:
  assumes "tree_ok s" and "avl t"
    and "inorder (storage_tree s) = xs @ (k, a) # ys" and "inorder t = xs @ ys"
  shows "tree_ok (s\<lparr>storage_tree := t, bundle_bytes := c\<rparr>)"
    and "store_map (s\<lparr>storage_tree := t, bundle_bytes := c\<rparr>) = (store_map s)(k := None)"
  using assms map_of_remove_sorted [of xs k a ys] by (auto simp: tree_ok_def store_map_def sorted_ids_simps)

section \<open>Accounting\<close>

text \<open>The payload bytes of the stored bundles, which \<open>bundle_bytes\<close> keeps modulo the 32-bit width.\<close>

definition held_bytes :: "bundle_heap \<Rightarrow> addr \<Rightarrow> nat" where
  "held_bytes H a = (case H a of
       None \<Rightarrow> 0
     | Some b \<Rightarrow> (case payload_length b of Inl _ \<Rightarrow> 0 | Inr n \<Rightarrow> unat n))"

definition stored_bytes :: "storage_state \<Rightarrow> bundle_heap \<Rightarrow> nat" where
  "stored_bytes s H = (\<Sum>(k, a) \<leftarrow> inorder (storage_tree s). held_bytes H a)"

definition stored_ok :: "bundle_heap \<Rightarrow> bundleid_t \<times> addr \<Rightarrow> bool" where
  "stored_ok H e \<longleftrightarrow> (case H (snd e) of
       None \<Rightarrow> False
     | Some b \<Rightarrow> bundle_id b = fst e \<and> (case payload_length b of Inl _ \<Rightarrow> False | Inr _ \<Rightarrow> True))"

definition store_inv :: "storage_state \<Rightarrow> bundle_heap \<Rightarrow> bool" where
  "store_inv s H \<longleftrightarrow> tree_ok s \<and> list_all (stored_ok H) (inorder (storage_tree s)) \<and>
     bundle_bytes s = of_nat (stored_bytes s H)"

lemma stored_okE:
  assumes "stored_ok H (k, a)"
  obtains b n where "H a = Some b" "bundle_id b = k" "payload_length b = Inr n" "held_bytes H a = unat n"
  using assms by (auto simp: stored_ok_def held_bytes_def split: option.splits sum.splits)

lemma payload_length_id [simp]: "payload_length (b\<lparr>bundle_id := k\<rparr>) = payload_length b"
  by (auto simp: payload_length_def deref_payload_def split: option.splits)

lemma stored_elsewhere:
  assumes "list_all (stored_ok H) xs" and "H a = Some b" and "bundle_id b = BUNDLE_INVALID_ID"
    and "BUNDLE_INVALID_ID \<notin> fst ` set xs"
  shows "\<forall>(j, a') \<in> set xs. a' \<noteq> a"
  using assms by (force simp: list_all_iff stored_ok_def)

lemma store_inv_add:
  assumes "store_inv s H" and "bundle_storage_add (Some m) a s H = Inr (Some (k, s', H'))"
    and "H a = Some b" and "bundle_id b = BUNDLE_INVALID_ID"
    and "payload_length b = Inr n" and "\<not> id_taken (storage_tree s) f"
  shows "store_inv s' H'"
proof -
  have ok: "tree_ok s" using assms(1) by (simp add: store_inv_def)
  obtain j t xs ys where add: "bundle_storage_add (Some m) a s H = Inr (Some (j,
       \<lparr>storage_tree = t, next_id = j + 1, bundle_bytes = bundle_bytes s + n\<rparr>,
       H(a \<mapsto> b\<lparr>bundle_id := j\<rparr>)))" and j: "j \<noteq> 0"
    and t: "avl t" "inorder (storage_tree s) = xs @ ys" "inorder t = xs @ (j, a) # ys"
    "sorted_ids (inorder t)"
    using add_ok_cases [of s H a b, OF ok assms(3-6)] by metis
  have s': "s' = s\<lparr>storage_tree := t, next_id := j + 1, bundle_bytes := bundle_bytes s + n\<rparr>"
    and H': "H' = H(a \<mapsto> b\<lparr>bundle_id := j\<rparr>)"
    using add assms(2) by auto
  have el: "\<forall>(i, a') \<in> set (xs @ ys). a' \<noteq> a"
    using stored_elsewhere [of H "xs @ ys" a b] assms ok t(2) by (auto simp: store_inv_def tree_ok_def)
  have "list_all (stored_ok H) (xs @ ys)" using assms(1) t(2) by (simp add: store_inv_def)
  then have sto: "list_all (stored_ok H') (xs @ (j, a) # ys)"
    using el assms(5) by (auto simp: H' stored_ok_def list_all_iff)
  have hb: "held_bytes H' a' = held_bytes H a'" if "(i, a') \<in> set (xs @ ys)" for i a'
    using el that by (auto simp: H' held_bytes_def)
  then have "(\<Sum>(i, a') \<leftarrow> xs. held_bytes H' a') = (\<Sum>(i, a') \<leftarrow> xs. held_bytes H a')"
      "(\<Sum>(i, a') \<leftarrow> ys. held_bytes H' a') = (\<Sum>(i, a') \<leftarrow> ys. held_bytes H a')"
    by (auto intro!: arg_cong [where f = sum_list] map_cong)
  moreover have "held_bytes H' a = unat n" using assms(5) by (simp add: H' held_bytes_def)
  ultimately have "stored_bytes s' H' = stored_bytes s H + unat n"
    by (simp add: stored_bytes_def s' t)
  moreover have "tree_ok s'"
    using tree_ok_add(1) [OF ok t(1) t(4)[unfolded t(3)] j t(2,3)] by (simp add: s')
  ultimately show ?thesis
    using assms(1) sto t by (simp add: store_inv_def s')
qed

lemma delete_core:
  assumes inv: "store_inv s H" and "store_map s k = Some a"
  shows "\<exists>s' n. bundle_storage_delete k s H = c_assert (n \<le> bundle_bytes s) (Inr (True, s')) \<and>
    held_bytes H a = unat n \<and> store_inv s' H \<and> store_map s' = (store_map s)(k := None) \<and>
    stored_bytes s H = held_bytes H a + stored_bytes s' H"
proof -
  have ok: "tree_ok s" and bb: "bundle_bytes s = of_nat (stored_bytes s H)"
    using assms(1) by (auto simp: store_inv_def)
  obtain l h r ctx t xs ys where d:
    "find_nodeptr k False (storage_tree s) [] = Some (Nd l k a h r, ctx)"
    "delete_node_at_ptr (Nd l k a h r) ctx = Inr t" "avl t"
    "inorder (storage_tree s) = xs @ (k, a) # ys" "inorder t = xs @ ys"
    using delete_cases [OF ok assms(2)] by metis
  have st: "list_all (stored_ok H) (xs @ (k, a) # ys)" using inv d(4) by (simp add: store_inv_def)
  then obtain b n where b: "H a = Some b" "payload_length b = Inr n" "held_bytes H a = unat n"
    by (auto elim: stored_okE)
  let ?s' = "s\<lparr>storage_tree := t, bundle_bytes := bundle_bytes s - n\<rparr>"
  have sum: "stored_bytes s H = held_bytes H a + stored_bytes ?s' H"
    by (simp add: stored_bytes_def d)
  have "k \<noteq> 0" using ok d(4) by (auto simp: tree_ok_def)
  then have "bundle_storage_delete k s H = c_assert (n \<le> bundle_bytes s) (Inr (True, ?s'))"
    using d b by (simp add: bundle_storage_delete_def deref_bundle_def)
  moreover have "of_nat (stored_bytes s H) = n + of_nat (stored_bytes ?s' H)"
    by (simp add: sum b(3))
  then have "bundle_bytes s - n = of_nat (stored_bytes ?s' H)"
    using bb by (metis add_diff_cancel_left')
  then have "store_inv ?s' H"
    using st d tree_ok_delete(1) [OF ok d(3-5)] by (simp add: store_inv_def)
  ultimately show ?thesis
    using tree_ok_delete(2) [OF ok d(3-5)] sum b(3) by blast
qed

lemma usage_exact:
  "store_inv s H \<Longrightarrow> stored_bytes s H < 2 ^ 32 \<Longrightarrow> unat (bundle_bytes s) = stored_bytes s H"
  by (simp add: store_inv_def unsigned_of_nat take_bit_nat_eq_self)

lemma store_inv_delete:
  assumes inv: "store_inv s H" and "store_map s k = Some a" and "stored_bytes s H < 2 ^ 32"
  shows "\<exists>s'. bundle_storage_delete k s H = Inr (True, s') \<and> store_inv s' H \<and>
    store_map s' = (store_map s)(k := None) \<and>
    stored_bytes s H = held_bytes H a + stored_bytes s' H"
proof -
  obtain s' n where d: "bundle_storage_delete k s H = c_assert (n \<le> bundle_bytes s) (Inr (True, s'))"
      "held_bytes H a = unat n" "store_inv s' H" "store_map s' = (store_map s)(k := None)"
      "stored_bytes s H = held_bytes H a + stored_bytes s' H"
    using delete_core [OF assms(1,2)] by blast
  have "unat (bundle_bytes s) = stored_bytes s H" using usage_exact [OF assms(1,3)] .
  then have "n \<le> bundle_bytes s" using d(2,5) by (simp add: word_le_nat_alt)
  with d show ?thesis by auto
qed

lemma delete_absent:
  "tree_ok s \<Longrightarrow> store_map s k = None \<Longrightarrow> bundle_storage_delete k s H = Inr (False, s)"
  using id_taken_iff [of s k]
  by (cases "find_nodeptr k False (storage_tree s) []")
    (auto simp: bundle_storage_delete_def id_taken_def)

section \<open>Reachable states\<close>

text \<open>
  The states of the store and of the heap under any sequence of insertions (of allocations that
  fail, too), removals, and changes of the heap by the rest of the program that leave the
  identifier and the payload length of stored bundles as they are.
\<close>

definition keeps_stored :: "storage_state \<Rightarrow> bundle_heap \<Rightarrow> bundle_heap \<Rightarrow> bool" where
  "keeps_stored s H H' \<longleftrightarrow> list_all (\<lambda>(k, a). case (H a, H' a) of
       (Some b, Some b') \<Rightarrow> bundle_id b' = bundle_id b \<and> payload_length b' = payload_length b
     | _ \<Rightarrow> False) (inorder (storage_tree s))"

inductive store_reach :: "storage_state \<Rightarrow> bundle_heap \<Rightarrow> bool" where
  init: "store_reach storage_init H"
| add: "store_reach s H \<Longrightarrow> bundle_storage_add mem a s H = Inr (Some (k, s', H')) \<Longrightarrow> store_reach s' H'"
| delete: "store_reach s H \<Longrightarrow> bundle_storage_delete k s H = Inr (res, s') \<Longrightarrow> store_reach s' H"
| other: "store_reach s H \<Longrightarrow> keeps_stored s H H' \<Longrightarrow> store_reach s H'"

lemma find_free_id_free: "find_free_id t k n = Some (k', n') \<Longrightarrow> \<not> id_taken t k'"
proof -
  assume r: "find_free_id t k n = Some (k', n')"
  have "\<not> id_taken t (fst (k', n'))"
    by (rule find_free_id.raw_induct [of "\<lambda>t k n r. \<not> id_taken t (fst r)", OF _ r])
      (auto simp: id_taken_def split: if_splits)
  then show ?thesis by simp
qed

lemma add_node_nomem: "add_node None t k a = Inr (t', r) \<Longrightarrow> t' = t \<and> \<not> r"
  by (auto simp: add_node_def create_node_def split: option.splits if_splits node.splits)

lemma add_nomem:
  assumes "bundle_storage_add None a s H = Inr (Some (k, s', H'))"
  shows "k = BUNDLE_INVALID_ID" "H' = H" "storage_tree s' = storage_tree s"
    "bundle_bytes s' = bundle_bytes s"
proof -
  obtain b j n t r where "add_node None (storage_tree s) j a = Inr (t, r)"
    "(if r then obind (payload_length b) (\<lambda>len. Inr (Some
               (j, \<lparr>storage_tree = t, next_id = n, bundle_bytes = bundle_bytes s + len\<rparr>,
                H(a \<mapsto> b\<lparr>bundle_id := j\<rparr>))))
             else Inr (Some (BUNDLE_INVALID_ID, s\<lparr>storage_tree := t, next_id := n\<rparr>, H)))
     = Inr (Some (k, s', H'))"
    using assms by (auto simp: bundle_storage_add_def obind_eq_Inr [of "deref_bundle H a"]
        obind_eq_Inr [of "add_node None _ _ _"] c_assert_eq_Inr split: option.splits prod.splits)
  then show "k = BUNDLE_INVALID_ID" "H' = H" "storage_tree s' = storage_tree s"
    "bundle_bytes s' = bundle_bytes s"
    by (force dest: add_node_nomem)+
qed

lemma store_inv_add_reach:
  assumes inv: "store_inv s H" and add: "bundle_storage_add mem a s H = Inr (Some (k, s', H'))"
  shows "store_inv s' H'"
proof (cases mem)
  case None
  with add_nomem [of a s H k s' H'] add inv show ?thesis
    by (simp add: store_inv_def tree_ok_def stored_bytes_def)
next
  case (Some m)
  obtain b j n' where b: "H a = Some b" "bundle_id b = 0"
      "find_free_id (storage_tree s) (next_id s) (next_id s + 1) = Some (j, n')"
    using add by (auto simp: bundle_storage_add_def obind_eq_Inr c_assert_eq_Inr deref_bundle_def
        split: option.splits)
  have free: "\<not> id_taken (storage_tree s) j" using find_free_id_free [OF b(3)] .
  have "\<exists>n. payload_length b = Inr n"
  proof (rule ccontr)
    assume "\<not> (\<exists>n. payload_length b = Inr n)"
    then obtain e where e: "payload_length b = Inl e" by (cases "payload_length b") auto
    have "\<exists>t xs ys. add_node (Some m) (storage_tree s) j a = Inr (t, True) \<and> avl t \<and> t \<noteq> Null \<and>
      inorder (storage_tree s) = xs @ ys \<and> inorder t = xs @ (j, a) # ys \<and> sorted_ids (inorder t)"
      using inv free id_taken_iff [of s j]
      by (intro add_node_ok) (auto simp: store_inv_def tree_ok_def store_map_def map_of_eq_None_iff)
    with add b e Some show False by (auto simp: bundle_storage_add_def deref_bundle_def)
  qed
  then show ?thesis using store_inv_add [OF inv _ b(1,2) _ free] add Some by blast
qed

lemma store_inv_delete_reach:
  assumes "store_inv s H" and "bundle_storage_delete k s H = Inr (res, s')"
  shows "store_inv s' H"
proof (cases "store_map s k")
  case None
  with assms delete_absent [of s k H] show ?thesis by (simp add: store_inv_def)
next
  case (Some a)
  with delete_core [OF assms(1) Some] assms(2) show ?thesis
    by (auto simp: c_assert_def split: if_splits)
qed

lemma store_inv_other:
  assumes "store_inv s H" and "keeps_stored s H H'"
  shows "store_inv s H'"
proof -
  have "stored_ok H' e \<and> held_bytes H' (snd e) = held_bytes H (snd e)"
    if "e \<in> set (inorder (storage_tree s))" for e
  proof -
    have "stored_ok H e" and "case (H (snd e), H' (snd e)) of
       (Some b, Some b') \<Rightarrow> bundle_id b' = bundle_id b \<and> payload_length b' = payload_length b
     | _ \<Rightarrow> False"
      using assms that by (cases e; auto simp: store_inv_def keeps_stored_def list_all_iff)+
    then show ?thesis
      by (auto simp: stored_ok_def held_bytes_def split: option.splits)
  qed
  moreover from this have "stored_bytes s H' = stored_bytes s H"
    unfolding stored_bytes_def by (intro arg_cong [where f = sum_list] map_cong) auto
  ultimately show ?thesis using assms(1) by (simp add: store_inv_def list_all_iff)
qed

lemma store_inv_reach: "store_reach s H \<Longrightarrow> store_inv s H"
proof (induction rule: store_reach.induct)
  case (init H)
  then show ?case by (simp add: store_inv_def storage_init_def tree_ok_def stored_bytes_def)
qed (blast intro: store_inv_add_reach store_inv_delete_reach store_inv_other)+

section \<open>The contract of a key store\<close>

text \<open>The insertions and removals of the store as the contract sees them, on store and heap.\<close>

definition storage_adds ::
  "bundleid_t \<Rightarrow> addr \<Rightarrow> storage_state \<times> bundle_heap \<Rightarrow> storage_state \<times> bundle_heap \<Rightarrow> bool" where
  "storage_adds k a p p' \<longleftrightarrow> k \<noteq> BUNDLE_INVALID_ID \<and>
     (\<exists>mem. bundle_storage_add mem a (fst p) (snd p) = Inr (Some (k, p')))"

definition storage_dels ::
  "bundleid_t \<Rightarrow> storage_state \<times> bundle_heap \<Rightarrow> storage_state \<times> bundle_heap \<Rightarrow> bool" where
  "storage_dels k p p' \<longleftrightarrow> (\<exists>res. bundle_storage_delete k (fst p) (snd p) = Inr (res, fst p')) \<and> snd p' = snd p"

lemma storage_adds_map:
  assumes "store_inv (fst p) (snd p)" and "storage_adds k a p p'"
  shows "store_map (fst p) k = None" and "store_map (fst p') = (store_map (fst p))(k \<mapsto> a)"
proof -
  obtain s H s' H' where p: "p = (s, H)" "p' = (s', H')" by fastforce
  obtain mem where add: "bundle_storage_add mem a s H = Inr (Some (k, s', H'))" and k: "k \<noteq> 0"
    using assms(2) by (auto simp: storage_adds_def p)
  then obtain m where m: "mem = Some m" using add_nomem(1) by (cases mem) auto
  obtain b n' j where b: "H a = Some b" "bundle_id b = 0"
      "find_free_id (storage_tree s) (next_id s) (next_id s + 1) = Some (j, n')"
    using add by (auto simp: bundle_storage_add_def obind_eq_Inr c_assert_eq_Inr deref_bundle_def
        split: option.splits)
  have free: "\<not> id_taken (storage_tree s) j" using find_free_id_free [OF b(3)] .
  have ok: "tree_ok s" using assms(1) by (simp add: store_inv_def p)
  have "store_inv s' H'" using store_inv_add_reach [OF _ add] assms(1) by (simp add: p)
  have fresh: "j \<noteq> 0" "store_map s j = None" using free id_taken_iff [OF ok, of j] by auto
  obtain t xs ys where t: "add_node (Some m) (storage_tree s) j a = Inr (t, True)" "avl t"
      "inorder (storage_tree s) = xs @ ys" "inorder t = xs @ (j, a) # ys" "sorted_ids (inorder t)"
    using add_node_ok [of "storage_tree s" j m a] ok fresh
    by (auto simp: tree_ok_def store_map_def map_of_eq_None_iff)
  have s': "k = j \<and> storage_tree s' = t"
    using add b t(1) m by (auto simp: bundle_storage_add_def deref_bundle_def obind_eq_Inr)
  then show "store_map (fst p) k = None" using fresh by (simp add: p)
  show "store_map (fst p') = (store_map (fst p))(k \<mapsto> a)"
    using s' t map_of_insert_sorted [of xs j a ys] by (simp add: p store_map_def)
qed

interpretation storage: key_store
  "\<lambda>p. store_inv (fst p) (snd p)" "\<lambda>k p. bundle_storage_get k (fst p)" storage_adds storage_dels
proof unfold_locales
  fix p p' k a j
  assume p: "store_inv (fst p) (snd p)"
  { assume add: "storage_adds k a p p'"
    then show "store_inv (fst p') (snd p')"
      using p store_inv_add_reach by (fastforce simp: storage_adds_def)
    then have ok: "tree_ok (fst p')" "tree_ok (fst p)" using p by (auto simp: store_inv_def)
    show "bundle_storage_get k (fst p) = None"
      "bundle_storage_get j (fst p') = (if j = k then Some a else bundle_storage_get j (fst p))"
      using storage_adds_map [OF p add] ok by (auto simp: bundle_storage_get_eq) }
  { assume del: "storage_dels k p p'"
    then show ok': "store_inv (fst p') (snd p')"
      using p store_inv_delete_reach by (fastforce simp: storage_dels_def)
    have ok: "tree_ok (fst p')" "tree_ok (fst p)" using p ok' by (auto simp: store_inv_def)
    have "store_map (fst p') = (store_map (fst p))(k := None)"
    proof (cases "store_map (fst p) k")
      case None
      with del delete_absent [OF ok(2) None] show ?thesis by (auto simp: storage_dels_def)
    next
      case (Some a)
      with del delete_core [OF p Some] show ?thesis
        by (auto simp: storage_dels_def c_assert_def split: if_splits)
    qed
    then show "bundle_storage_get j (fst p') = (if j = k then None else bundle_storage_get j (fst p))"
      using ok by (auto simp: bundle_storage_get_eq) }
qed

section \<open>Properties\<close>

lemma payload_length_adu:
  assumes "bundle_to_adu m b = Inr (adu, b', m')"
  shows "payload_length b' = Inr 0" and "bundle_id b' = bundle_id b" and "payload_block b \<noteq> None"
proof -
  obtain a pl where a: "payload_block b = Some a" "map_of (blocks b) a = Some pl"
      "b' = b\<lparr>blocks := update_block a (\<lambda>blk. blk\<lparr>blk_data := None, blk_length := 0\<rparr>) (blocks b)\<rparr>"
    using assms
    by (auto simp: bundle_to_adu_def obind_eq_Inr deref_payload_def split: option.splits)
  have "map_of (update_block a f bs) a = map_option f (map_of bs a)" for f bs
    by (induction bs) (auto simp: update_block_def)
  with a show "payload_length b' = Inr 0" "bundle_id b' = bundle_id b" "payload_block b \<noteq> None"
    by (auto simp: payload_length_def deref_payload_def)
qed

definition sample_heap :: bundle_heap where
  "sample_heap = [7 \<mapsto> sample_bundle]"

definition sample_store :: storage_state where
  "sample_store = \<lparr>storage_tree = Nd Null 1 7 1 Null, next_id = 2, bundle_bytes = 3\<rparr>"

definition sample_heap' :: bundle_heap where
  "sample_heap' = [7 \<mapsto> sample_bundle\<lparr>bundle_id := 1\<rparr>]"

lemma sample_add:
  "bundle_storage_add (Some 50) 7 storage_init sample_heap = Inr (Some (1, sample_store, sample_heap'))"
  by (auto simp: bundle_storage_add_def storage_init_def sample_heap_def sample_heap'_def
      sample_store_def find_free_id.simps [of Null 1] deref_bundle_def sample_bundle_def
      sample_payload_def payload_length_def deref_payload_def add_node_def create_node_def)

lemma sample_reach: "store_reach sample_store sample_heap'"
  using store_reach.add [OF store_reach.init sample_add] .

text \<open>
  C2 (invariant). In every state the store can reach by insertions, removals and changes of the heap
  that keep the identifiers and payload lengths of stored bundles, the tree is a balanced search tree
  over non-zero identifiers with correct heights, every stored bundle is live and carries its
  identifier, and \<open>bundle_bytes\<close> is the total of the stored payload lengths modulo 2^32; the height
  never exceeds 33, so that it fits the \<open>int8_t\<close> of the code.
\<close>

theorem storage_invariant: "store_reach s H \<Longrightarrow> store_inv s H \<and> height (storage_tree s) \<le> 33"
  using store_inv_reach [of s H] avl_height_int8 by (auto simp: store_inv_def tree_ok_def)

theorem storage_invariant_witness:
  "store_inv sample_store sample_heap' \<and> height (storage_tree sample_store) \<le> 33"
  using storage_invariant [OF sample_reach] .

text \<open>
  C25 (functional). Storing a bundle that has no identifier yet, with memory available and at least
  one identifier unused, returns without a failed assertion: the bundle is found afterwards under the
  returned non-zero, previously unused identifier, which is written to the bundle, every other
  lookup is as before, and the usage grows by its payload length.
\<close>

theorem storage_add_correct:
  assumes "store_inv s H" and "H a = Some b" and "bundle_id b = BUNDLE_INVALID_ID"
    and "payload_length b = Inr n" and "f \<noteq> BUNDLE_INVALID_ID" and "\<not> bundle_storage_contains f s"
  shows "\<exists>k s'. bundle_storage_add (Some m) a s H = Inr (Some (k, s', H(a \<mapsto> b\<lparr>bundle_id := k\<rparr>))) \<and>
    k \<noteq> BUNDLE_INVALID_ID \<and> bundle_storage_get k s = None \<and>
    store_inv s' (H(a \<mapsto> b\<lparr>bundle_id := k\<rparr>)) \<and>
    (\<forall>j. bundle_storage_get j s' = (if j = k then Some a else bundle_storage_get j s)) \<and>
    bundle_storage_get_usage s' = bundle_storage_get_usage s + n"
proof -
  have ok: "tree_ok s" using assms(1) by (simp add: store_inv_def)
  have "\<not> id_taken (storage_tree s) f"
    using assms(5,6) id_taken_iff [OF ok] bundle_storage_contains_eq [OF ok] by simp
  then obtain k t where
    add: "bundle_storage_add (Some m) a s H = Inr (Some (k,
       \<lparr>storage_tree = t, next_id = k + 1, bundle_bytes = bundle_bytes s + n\<rparr>,
       H(a \<mapsto> b\<lparr>bundle_id := k\<rparr>)))" and k: "k \<noteq> 0" "store_map s k = None"
    using add_ok_cases [of s H a b, OF ok assms(2-4)] by metis
  let ?s' = "\<lparr>storage_tree = t, next_id = k + 1, bundle_bytes = bundle_bytes s + n\<rparr>"
  let ?H' = "H(a \<mapsto> b\<lparr>bundle_id := k\<rparr>)"
  have "storage_adds k a (s, H) (?s', ?H')"
    using add k(1) by (auto simp: storage_adds_def)
  with assms(1) have "bundle_storage_get j ?s' = (if j = k then Some a else bundle_storage_get j s)" for j
    using storage.get_add [of "(s, H)" k a "(?s', ?H')" j] by simp
  moreover have "store_inv ?s' ?H'" using store_inv_add_reach [OF assms(1) add] .
  ultimately show ?thesis
    using add k by (auto simp: bundle_storage_get_usage_def bundle_storage_get_eq [OF ok])
qed

theorem storage_add_correct_witness:
  "\<exists>k s'. bundle_storage_add (Some 50) 7 storage_init sample_heap =
      Inr (Some (k, s', sample_heap(7 \<mapsto> sample_bundle\<lparr>bundle_id := k\<rparr>))) \<and>
    k \<noteq> BUNDLE_INVALID_ID \<and> bundle_storage_get k storage_init = None \<and>
    store_inv s' (sample_heap(7 \<mapsto> sample_bundle\<lparr>bundle_id := k\<rparr>)) \<and>
    (\<forall>j. bundle_storage_get j s' = (if j = k then Some 7 else bundle_storage_get j storage_init)) \<and>
    bundle_storage_get_usage s' = bundle_storage_get_usage storage_init + 3"
  by (rule storage_add_correct [of _ _ _ _ _ 1])
    (simp_all add: store_inv_reach store_reach.init sample_heap_def sample_bundle_def
      sample_payload_def payload_length_def deref_payload_def bundle_storage_contains_def
      storage_init_def [symmetric], simp add: storage_init_def)

text \<open>
  C24 (functional). Removing a stored bundle from a store that holds less than 4 GiB of payload
  succeeds, passes every assertion of the rebalancing and of the accounting, leaves every other
  lookup as it was and lowers the usage by exactly the payload length of that bundle; removing an
  identifier that is not stored changes nothing.
\<close>

theorem storage_delete_correct:
  assumes "store_inv s H" and "stored_bytes s H < 2 ^ 32"
  shows "case bundle_storage_get k s of
      None \<Rightarrow> bundle_storage_delete k s H = Inr (False, s)
    | Some a \<Rightarrow> \<exists>s'. bundle_storage_delete k s H = Inr (True, s') \<and> store_inv s' H \<and>
        (\<forall>j. bundle_storage_get j s' = (if j = k then None else bundle_storage_get j s)) \<and>
        unat (bundle_storage_get_usage s') = unat (bundle_storage_get_usage s) - held_bytes H a"
proof (cases "store_map s k")
  case None
  then show ?thesis
    using assms(1) delete_absent by (simp add: store_inv_def bundle_storage_get_eq)
next
  case (Some a)
  from store_inv_delete [OF assms(1) Some assms(2)] obtain s' where
    s': "bundle_storage_delete k s H = Inr (True, s')" "store_inv s' H"
      "store_map s' = (store_map s)(k := None)" "stored_bytes s H = held_bytes H a + stored_bytes s' H"
    by blast
  have "unat (bundle_bytes s) = stored_bytes s H" "unat (bundle_bytes s') = stored_bytes s' H"
    using usage_exact [OF assms] usage_exact [OF s'(2)] assms(2) s'(4) by simp_all
  moreover have "tree_ok s" "tree_ok s'" using assms(1) s'(2) by (auto simp: store_inv_def)
  ultimately show ?thesis
    using Some s' by (simp add: bundle_storage_get_eq bundle_storage_get_usage_def)
qed

theorem storage_delete_correct_witness:
  "case bundle_storage_get 1 sample_store of
      None \<Rightarrow> bundle_storage_delete 1 sample_store sample_heap' = Inr (False, sample_store)
    | Some a \<Rightarrow> \<exists>s'. bundle_storage_delete 1 sample_store sample_heap' = Inr (True, s') \<and>
        store_inv s' sample_heap' \<and>
        (\<forall>j. bundle_storage_get j s' = (if j = 1 then None else bundle_storage_get j sample_store)) \<and>
        unat (bundle_storage_get_usage s') =
          unat (bundle_storage_get_usage sample_store) - held_bytes sample_heap' a"
  by (rule storage_delete_correct [OF store_inv_reach [OF sample_reach]])
    (simp add: stored_bytes_def sample_store_def held_bytes_def
      sample_heap'_def sample_bundle_def sample_payload_def payload_length_def deref_payload_def)

text \<open>
  C39 (termination). The search of \<open>bundle_storage_add\<close> for an identifier ends exactly when some
  non-zero identifier is unused; with all 65535 identifiers in use it never does.
\<close>

theorem storage_id_search_terminates:
  "find_free_id t k (k + 1) \<noteq> None \<longleftrightarrow>
     (\<exists>f. f \<noteq> BUNDLE_INVALID_ID \<and> find_nodeptr f False t [] = None)"
proof
  assume "find_free_id t k (k + 1) \<noteq> None"
  then obtain j n where "find_free_id t k (k + 1) = Some (j, n)" by auto
  from find_free_id_free [OF this] show "\<exists>f. f \<noteq> BUNDLE_INVALID_ID \<and> find_nodeptr f False t [] = None"
    by (metis id_taken_def)
next
  assume "\<exists>f. f \<noteq> BUNDLE_INVALID_ID \<and> find_nodeptr f False t [] = None"
  then obtain f where "\<not> id_taken t f" by (metis id_taken_def)
  from find_free_id_ok [OF this, of k] show "find_free_id t k (k + 1) \<noteq> None" by auto
qed

text \<open>
  Turning a stored bundle into an ADU for local delivery zeroes the payload length in
  the bundle, so that removing it from the store afterwards leaves the reported usage as it was: the
  bytes of every locally delivered bundle stay accounted for.
\<close>

theorem storage_usage_after_adu:
  assumes "store_inv s H" and "bundle_storage_get k s = Some a" and "H a = Some b"
    and "bundle_to_adu m b = Inr (adu, b', m')"
  shows "\<exists>s'. bundle_storage_delete k s (H(a \<mapsto> b')) = Inr (True, s') \<and>
    bundle_storage_get k s' = None \<and> bundle_storage_get_usage s' = bundle_storage_get_usage s"
proof -
  have ok: "tree_ok s" using assms(1) by (simp add: store_inv_def)
  have "store_map s k = Some a" using assms(2) by (simp add: bundle_storage_get_eq [OF ok])
  from delete_cases [OF ok this] obtain l h r ctx t xs ys where d:
    "find_nodeptr k False (storage_tree s) [] = Some (Nd l k a h r, ctx)"
    "delete_node_at_ptr (Nd l k a h r) ctx = Inr t" "avl t"
    "inorder (storage_tree s) = xs @ (k, a) # ys" "inorder t = xs @ ys"
    by metis
  have "k \<noteq> 0" using ok d(4) by (auto simp: tree_ok_def)
  let ?s' = "s\<lparr>storage_tree := t, bundle_bytes := bundle_bytes s\<rparr>"
  have "bundle_storage_delete k s (H(a \<mapsto> b')) = Inr (True, ?s')"
    using d payload_length_adu(1) [OF assms(4)] \<open>k \<noteq> 0\<close>
    by (simp add: bundle_storage_delete_def deref_bundle_def)
  moreover have "bundle_storage_get k ?s' = None"
    using tree_ok_delete [OF ok d(3-5), of "bundle_bytes s"] by (simp add: bundle_storage_get_eq)
  ultimately show ?thesis by (simp add: bundle_storage_get_usage_def)
qed

theorem storage_usage_after_adu_witness:
  "\<exists>adu b' s'. bundle_to_adu [Some 1, Some 2] (sample_bundle\<lparr>bundle_id := 1\<rparr>) = Inr (adu, b', []) \<and>
    bundle_storage_delete 1 sample_store (sample_heap'(7 \<mapsto> b')) = Inr (True, s') \<and>
    bundle_storage_get 1 s' = None \<and>
    bundle_storage_get_usage s' = bundle_storage_get_usage sample_store"
proof -
  have "\<exists>adu b'. bundle_to_adu [Some 1, Some 2] (sample_bundle\<lparr>bundle_id := 1\<rparr>) = Inr (adu, b', [])"
    by (simp add: bundle_to_adu_def bundle_adu_init_def sample_bundle_def sample_payload_def
        strdup_def deref_payload_def)
  then obtain adu b' where
    "bundle_to_adu [Some 1, Some 2] (sample_bundle\<lparr>bundle_id := 1\<rparr>) = Inr (adu, b', [])" by blast
  with storage_usage_after_adu [OF store_inv_reach [OF sample_reach], of 1 7, OF _ _ this] show ?thesis
    by (auto simp: bundle_storage_get_def sample_store_def sample_heap'_def)
qed

end
