(* ===== verification/Simple_Htab.thy ===== *)
theory Simple_Htab
  imports Upcn_Prelude Key_Store
begin

text \<open>
  The chained hash table of \<open>components/upcn/simplehtab.c\<close>, which the routing table and the TCP
  convergence layers keep their nodes and links in. The hash function (\<open>hashlittle\<close>, third-party code)
  is a parameter \<open>hash\<close>; the code truncates its result to 16 bits. A key argument is a pointer with
  the string it points to, since the search compares pointers before it compares strings.
\<close>

section \<open>Data\<close>

record 'v htab_entrylist =
  entry_ptr :: addr
  entry_key :: string
  entry_value :: 'v

record 'v htab =
  slot_count :: u16
  elements :: "'v htab_entrylist list list"

section \<open>Operations\<close>

text \<open>\<open>n\<close> is the number of slots of the array the caller provides.\<close>

definition htab_init :: "u16 \<Rightarrow> nat \<Rightarrow> 'v htab outcome" where
  "htab_init slots n =
     (if n < unat slots then Inl Out_Of_Bounds
      else Inr \<lparr>slot_count = slots, elements = replicate (unat slots) []\<rparr>)"

definition htab_alloc :: "alloc_trace \<Rightarrow> u16 \<Rightarrow> ('v htab \<times> alloc_trace) outcome" where
  "htab_alloc m slots = (case malloc m of
       (tab, m1) \<Rightarrow>
         c_assert (slots \<noteq> 0)
           (if tab = None then Inl Null_Deref
            else case malloc m1 of
                (None, m2) \<Rightarrow> Inl Null_Deref
              | (Some _, m2) \<Rightarrow>
                  Inr (\<lparr>slot_count = slots, elements = replicate (unat slots) []\<rparr>, m2)))"

definition htab_trunc :: "'v htab \<Rightarrow> 'v htab outcome" where
  "htab_trunc tab =
     (if length (elements tab) < unat (slot_count tab) then Inl Out_Of_Bounds
      else Inr (tab\<lparr>elements := replicate (unat (slot_count tab)) [] @
                      drop (unat (slot_count tab)) (elements tab)\<rparr>))"

text \<open>The two search loops over a chain; the result is the position of the entry.\<close>

fun elist_find :: "bool \<Rightarrow> addr \<Rightarrow> string \<Rightarrow> 'v htab_entrylist list \<Rightarrow> nat option" where
  "elist_find compare_ptr_only p k [] = None"
| "elist_find compare_ptr_only p k (e # es) =
     (if entry_ptr e = p \<or> (\<not> compare_ptr_only \<and> entry_key e = k) then Some 0
      else map_option Suc (elist_find compare_ptr_only p k es))"

definition get_elist_ptr_by_hash :: "'v htab \<Rightarrow> u16 \<Rightarrow> addr \<Rightarrow> string \<Rightarrow> bool \<Rightarrow> nat option outcome" where
  "get_elist_ptr_by_hash tab shash p k compare_ptr_only =
     (if length (elements tab) \<le> unat shash then Inl Out_Of_Bounds
      else Inr (elist_find compare_ptr_only p k (elements tab ! unat shash)))"

text \<open>
  Neither allocation is checked. \<open>strncpy\<close> with \<open>key_length + 1\<close> copies the terminator only when
  \<open>key_length\<close> is at least the length of the string; without it the first comparison of the stored key
  would leave the buffer, which the model takes as a fault at once.
\<close>

definition htab_add_known ::
  "alloc_trace \<Rightarrow> 'v htab \<Rightarrow> addr \<Rightarrow> string \<Rightarrow> u16 \<Rightarrow> nat \<Rightarrow> 'v \<Rightarrow> bool \<Rightarrow>
   ('v htab_entrylist option \<times> 'v htab \<times> alloc_trace) outcome" where
  "htab_add_known m tab p k hash key_length valptr compare_ptr_only =
     c_assert (slot_count tab \<noteq> 0)
      (let shash = hash mod slot_count tab in
       obind (get_elist_ptr_by_hash tab shash p k compare_ptr_only) (\<lambda>found.
         if found \<noteq> None then Inr (None, tab, m)
         else case malloc m of
             (None, m1) \<Rightarrow> Inl Null_Deref
           | (Some _, m1) \<Rightarrow> (case malloc m1 of
                 (None, m2) \<Rightarrow> Inl Null_Deref
               | (Some kp, m2) \<Rightarrow>
                   if key_length < length k then Inl Out_Of_Bounds
                   else let e = \<lparr>entry_ptr = kp, entry_key = k, entry_value = valptr\<rparr> in
                     Inr (Some e, tab\<lparr>elements := (elements tab)
                            [unat shash := elements tab ! unat shash @ [e]]\<rparr>, m2))))"

definition htab_get_known_pair ::
  "'v htab \<Rightarrow> addr \<Rightarrow> string \<Rightarrow> u16 \<Rightarrow> bool \<Rightarrow> 'v htab_entrylist option outcome" where
  "htab_get_known_pair tab p k hash compare_ptr_only =
     c_assert (slot_count tab \<noteq> 0)
      (let shash = hash mod slot_count tab in
       obind (get_elist_ptr_by_hash tab shash p k compare_ptr_only) (\<lambda>found.
         Inr (map_option (\<lambda>i. elements tab ! unat shash ! i) found)))"

definition htab_get_known :: "'v htab \<Rightarrow> addr \<Rightarrow> string \<Rightarrow> u16 \<Rightarrow> bool \<Rightarrow> 'v option outcome" where
  "htab_get_known tab p k hash compare_ptr_only =
     c_assert (slot_count tab \<noteq> 0)
      (let shash = hash mod slot_count tab in
       obind (get_elist_ptr_by_hash tab shash p k compare_ptr_only) (\<lambda>found.
         Inr (map_option (\<lambda>i. entry_value (elements tab ! unat shash ! i)) found)))"

definition htab_remove_known ::
  "'v htab \<Rightarrow> addr \<Rightarrow> string \<Rightarrow> u16 \<Rightarrow> bool \<Rightarrow> ('v option \<times> 'v htab) outcome" where
  "htab_remove_known tab p k hash compare_ptr_only =
     c_assert (slot_count tab \<noteq> 0)
      (let shash = hash mod slot_count tab in
       obind (get_elist_ptr_by_hash tab shash p k compare_ptr_only) (\<lambda>found.
         case found of
           None \<Rightarrow> Inr (None, tab)
         | Some i \<Rightarrow> let c = elements tab ! unat shash in
             Inr (Some (entry_value (c ! i)),
                  tab\<lparr>elements := (elements tab)[unat shash := take i c @ drop (Suc i) c]\<rparr>)))"

definition HASH :: "(string \<Rightarrow> u32) \<Rightarrow> string \<Rightarrow> u16" where
  "HASH hash k = ucast (hash k)"

definition htab_add :: "(string \<Rightarrow> u32) \<Rightarrow> alloc_trace \<Rightarrow> 'v htab \<Rightarrow> addr \<Rightarrow> string \<Rightarrow> 'v \<Rightarrow>
   ('v htab_entrylist option \<times> 'v htab \<times> alloc_trace) outcome" where
  "htab_add hash m tab p k valptr = htab_add_known m tab p k (HASH hash k) (length k) valptr False"

definition htab_get :: "(string \<Rightarrow> u32) \<Rightarrow> 'v htab \<Rightarrow> addr \<Rightarrow> string \<Rightarrow> 'v option outcome" where
  "htab_get hash tab p k = htab_get_known tab p k (HASH hash k) False"

definition htab_get_pair ::
  "(string \<Rightarrow> u32) \<Rightarrow> 'v htab \<Rightarrow> addr \<Rightarrow> string \<Rightarrow> 'v htab_entrylist option outcome" where
  "htab_get_pair hash tab p k = htab_get_known_pair tab p k (HASH hash k) False"

definition htab_remove ::
  "(string \<Rightarrow> u32) \<Rightarrow> 'v htab \<Rightarrow> addr \<Rightarrow> string \<Rightarrow> ('v option \<times> 'v htab) outcome" where
  "htab_remove hash tab p k = htab_remove_known tab p k (HASH hash k) False"

section \<open>Invariant and abstraction\<close>

definition slot :: "(string \<Rightarrow> u32) \<Rightarrow> 'v htab \<Rightarrow> string \<Rightarrow> nat" where
  "slot hash tab k = unat (HASH hash k mod slot_count tab)"

definition htab_ok :: "(string \<Rightarrow> u32) \<Rightarrow> 'v htab \<Rightarrow> bool" where
  "htab_ok hash tab \<longleftrightarrow> slot_count tab \<noteq> 0 \<and> length (elements tab) = unat (slot_count tab) \<and>
     (\<forall>i < length (elements tab). distinct (map entry_key (elements tab ! i)) \<and>
        list_all (\<lambda>e. slot hash tab (entry_key e) = i) (elements tab ! i))"

definition chain_map :: "'v htab_entrylist list \<Rightarrow> string \<Rightarrow> 'v option" where
  "chain_map es = map_of (map (\<lambda>e. (entry_key e, entry_value e)) es)"

definition htab_lookup :: "(string \<Rightarrow> u32) \<Rightarrow> 'v htab \<Rightarrow> string \<Rightarrow> 'v option" where
  "htab_lookup hash tab k = chain_map (elements tab ! slot hash tab k) k"

text \<open>The key pointer, if it is a key of an entry, points to the string of that entry.\<close>

definition coherent :: "'v htab \<Rightarrow> addr \<Rightarrow> string \<Rightarrow> bool" where
  "coherent tab p k \<longleftrightarrow>
     list_all (list_all (\<lambda>e. entry_ptr e = p \<longrightarrow> entry_key e = k)) (elements tab)"

lemma slot_bound: "htab_ok hash tab \<Longrightarrow> slot hash tab k < length (elements tab)"
  by (simp add: slot_def htab_ok_def unat_mod unat_gt_0)

lemma elist_find_lookup:
  assumes "list_all (\<lambda>e. entry_ptr e = p \<longrightarrow> entry_key e = k) es"
  shows "case elist_find False p k es of
      None \<Rightarrow> k \<notin> entry_key ` set es
    | Some i \<Rightarrow> i < length es \<and> entry_key (es ! i) = k \<and> k \<notin> entry_key ` set (take i es)"
  using assms by (induction es) (auto split: option.splits)

lemma coherent_slot:
  "htab_ok hash tab \<Longrightarrow> coherent tab p k \<Longrightarrow>
    list_all (\<lambda>e. entry_ptr e = p \<longrightarrow> entry_key e = k) (elements tab ! slot hash tab k')"
  using slot_bound [of hash tab k'] by (auto simp: coherent_def list_all_iff)

lemma chain_map_None: "chain_map es k = None \<longleftrightarrow> k \<notin> entry_key ` set es"
  by (simp add: chain_map_def map_of_eq_None_iff image_image)

lemma chain_map_append:
  "chain_map (es @ fs) k = (case chain_map es k of None \<Rightarrow> chain_map fs k | Some v \<Rightarrow> Some v)"
  by (auto simp: chain_map_def map_add_def split: option.splits) (metis map_add_None map_add_Some_iff option.exhaust)?

lemma chain_map_Cons:
  "chain_map (e # es) k = (if entry_key e = k then Some (entry_value e) else chain_map es k)"
  by (simp add: chain_map_def)

lemma chain_map_found:
  assumes "i < length es" and "entry_key (es ! i) = k" and "k \<notin> entry_key ` set (take i es)"
  shows "chain_map es k = Some (entry_value (es ! i))"
proof -
  have "chain_map (take i es @ es ! i # drop (Suc i) es) k = Some (entry_value (es ! i))"
    using assms by (simp add: chain_map_append chain_map_Cons chain_map_None [THEN iffD2] image_def)
  with id_take_nth_drop [OF assms(1)] show ?thesis by simp
qed

lemma chain_map_removed:
  assumes "i < length es" and "entry_key (es ! i) = k" and "distinct (map entry_key es)"
  shows "chain_map (take i es @ drop (Suc i) es) j = (if j = k then None else chain_map es j)"
proof -
  let ?xs = "take i es" and ?ys = "drop (Suc i) es"
  have es: "es = ?xs @ es ! i # ?ys" using id_take_nth_drop [OF assms(1)] .
  have "distinct (map entry_key (?xs @ es ! i # ?ys))" using assms(3) es by simp
  then have "k \<notin> entry_key ` set ?xs" "k \<notin> entry_key ` set ?ys"
    using assms(2) by auto
  then have "chain_map ?xs k = None" "chain_map ?ys k = None" by (simp_all only: chain_map_None not_False_eq_True)
  moreover have "chain_map es j = chain_map (?xs @ es ! i # ?ys) j" using es by simp
  ultimately show ?thesis
    using assms(2) by (auto simp: chain_map_append chain_map_Cons split: option.splits)
qed

lemma slot_update [simp]: "slot hash (tab\<lparr>elements := es\<rparr>) = slot hash tab"
  by (simp add: slot_def fun_eq_iff)

text \<open>Replacing one chain by another that keeps the invariant.\<close>

lemma htab_update_chain:
  assumes ok: "htab_ok hash tab" and "distinct (map entry_key c)"
    and "list_all (\<lambda>e. slot hash tab (entry_key e) = slot hash tab k) c"
  defines "tab' \<equiv> tab\<lparr>elements := (elements tab)[slot hash tab k := c]\<rparr>"
  shows "htab_ok hash tab'"
    and "htab_lookup hash tab' j =
      (if slot hash tab j = slot hash tab k then chain_map c j else htab_lookup hash tab j)"
proof -
  show "htab_ok hash tab'"
    using assms(1-3) slot_bound [OF ok, of k] by (auto simp: htab_ok_def tab'_def nth_list_update)
  show "htab_lookup hash tab' j =
      (if slot hash tab j = slot hash tab k then chain_map c j else htab_lookup hash tab j)"
    using slot_bound [OF ok, of k] by (auto simp: htab_lookup_def tab'_def)
qed

lemma htab_find:
  assumes "htab_ok hash tab" and "coherent tab p k"
  obtains (absent) "get_elist_ptr_by_hash tab (HASH hash k mod slot_count tab) p k False = Inr None"
      "htab_lookup hash tab k = None" "k \<notin> entry_key ` set (elements tab ! slot hash tab k)"
    | (present) i where
      "get_elist_ptr_by_hash tab (HASH hash k mod slot_count tab) p k False = Inr (Some i)"
      "i < length (elements tab ! slot hash tab k)"
      "entry_key (elements tab ! slot hash tab k ! i) = k"
      "htab_lookup hash tab k = Some (entry_value (elements tab ! slot hash tab k ! i))"
proof -
  let ?c = "elements tab ! slot hash tab k"
  have g: "get_elist_ptr_by_hash tab (HASH hash k mod slot_count tab) p k False =
      Inr (elist_find False p k ?c)"
    using slot_bound [OF assms(1), of k] by (simp add: get_elist_ptr_by_hash_def slot_def)
  have f: "case elist_find False p k ?c of
      None \<Rightarrow> k \<notin> entry_key ` set ?c
    | Some i \<Rightarrow> i < length ?c \<and> entry_key (?c ! i) = k \<and> k \<notin> entry_key ` set (take i ?c)"
    using elist_find_lookup coherent_slot [OF assms] by blast
  show thesis
  proof (cases "elist_find False p k ?c")
    case None
    then show thesis using g f absent by (simp add: htab_lookup_def chain_map_None)
  next
    case (Some i)
    then show thesis using g f present [of i] chain_map_found [of i ?c k] by (simp add: htab_lookup_def)
  qed
qed

lemma htab_get_lookup:
  assumes "htab_ok hash tab" and "coherent tab p k"
  shows "htab_get hash tab p k = Inr (htab_lookup hash tab k)"
  by (cases rule: htab_find [OF assms])
    (use assms(1) in \<open>simp_all add: htab_get_def htab_get_known_def Let_def htab_ok_def slot_def\<close>)

lemma htab_add_absent:
  assumes ok: "htab_ok hash tab" and "coherent tab p k" and new: "htab_lookup hash tab k = None"
  shows "\<exists>e tab'. htab_add hash (Some a # Some kp # m) tab p k v = Inr (Some e, tab', m) \<and>
    htab_ok hash tab' \<and> (\<forall>j. htab_lookup hash tab' j = (if j = k then Some v else htab_lookup hash tab j))"
proof (cases rule: htab_find [OF ok assms(2)])
  case 1
  let ?e = "\<lparr>entry_ptr = kp, entry_key = k, entry_value = v\<rparr>"
  let ?c = "elements tab ! slot hash tab k @ [?e]"
  let ?tab' = "tab\<lparr>elements := (elements tab)[slot hash tab k := ?c]\<rparr>"
  have c: "distinct (map entry_key ?c)" "list_all (\<lambda>e. slot hash tab (entry_key e) = slot hash tab k) ?c"
    using ok 1(3) slot_bound [OF ok, of k] by (auto simp: htab_ok_def)
  note up = htab_update_chain [OF ok c]
  have "htab_lookup hash ?tab' j = (if j = k then Some v else htab_lookup hash tab j)" for j
    unfolding up(2) using new
    by (auto simp: chain_map_append chain_map_Cons chain_map_def [of "[]"] htab_lookup_def
        split: option.splits)
  moreover have "htab_add hash (Some a # Some kp # m) tab p k v = Inr (Some ?e, ?tab', m)"
    using 1(1) ok by (simp add: htab_add_def htab_add_known_def htab_ok_def slot_def Let_def)
  ultimately show ?thesis using up(1) by blast
next
  case 2
  with new show ?thesis by simp
qed

lemma htab_add_present:
  assumes ok: "htab_ok hash tab" and "coherent tab p k" and "htab_lookup hash tab k = Some w"
  shows "htab_add hash m tab p k v = Inr (None, tab, m)"
  by (cases rule: htab_find [OF ok assms(2)]) (use assms in \<open>simp_all add: htab_add_def htab_add_known_def htab_ok_def Let_def\<close>)

lemma htab_remove_ok:
  assumes ok: "htab_ok hash tab" and "coherent tab p k"
  shows "\<exists>tab'. htab_remove hash tab p k = Inr (htab_lookup hash tab k, tab') \<and> htab_ok hash tab' \<and>
    (\<forall>j. htab_lookup hash tab' j = (if j = k then None else htab_lookup hash tab j))"
proof (cases rule: htab_find [OF assms])
  case 1
  then show ?thesis
    using ok by (simp add: htab_remove_def htab_remove_known_def htab_ok_def Let_def) 
next
  case (2 i)
  let ?es = "elements tab ! slot hash tab k"
  let ?c = "take i ?es @ drop (Suc i) ?es"
  let ?tab' = "tab\<lparr>elements := (elements tab)[slot hash tab k := ?c]\<rparr>"
  have es: "distinct (map entry_key ?es)" "list_all (\<lambda>e. slot hash tab (entry_key e) = slot hash tab k) ?es"
    using ok slot_bound [OF ok, of k] by (auto simp: htab_ok_def)
  have c: "distinct (map entry_key ?c)" "list_all (\<lambda>e. slot hash tab (entry_key e) = slot hash tab k) ?c"
  proof -
    have s: "?es = take i ?es @ ?es ! i # drop (Suc i) ?es" using id_take_nth_drop [OF 2(2)] .
    show "distinct (map entry_key ?c)" using es(1) by (subst (asm) s) auto
    show "list_all (\<lambda>e. slot hash tab (entry_key e) = slot hash tab k) ?c"
      using es(2) by (subst (asm) s) auto
  qed
  note up = htab_update_chain [OF ok c]
  have "htab_lookup hash ?tab' j = (if j = k then None else htab_lookup hash tab j)" for j
    using chain_map_removed [OF 2(2,3) es(1), of j]
    unfolding up(2) by (auto simp: htab_lookup_def)
  moreover have "htab_remove hash tab p k = Inr (htab_lookup hash tab k, ?tab')"
    using 2 ok by (simp add: htab_remove_def htab_remove_known_def htab_ok_def slot_def Let_def)
  ultimately show ?thesis using up(1) by blast
qed

section \<open>The contract of a key store\<close>

definition htab_adds :: "(string \<Rightarrow> u32) \<Rightarrow> string \<Rightarrow> 'v \<Rightarrow> 'v htab \<Rightarrow> 'v htab \<Rightarrow> bool" where
  "htab_adds hash k v tab tab' \<longleftrightarrow> (\<exists>m p e m'. coherent tab p k \<and>
     htab_add hash m tab p k v = Inr (Some e, tab', m'))"

definition htab_dels :: "(string \<Rightarrow> u32) \<Rightarrow> string \<Rightarrow> 'v htab \<Rightarrow> 'v htab \<Rightarrow> bool" where
  "htab_dels hash k tab tab' \<longleftrightarrow> (\<exists>p v. coherent tab p k \<and> htab_remove hash tab p k = Inr (v, tab'))"

lemma malloc_Some: "malloc m = (Some a, m') \<longleftrightarrow> m = Some a # m'"
  by (cases m) auto

lemma htab_addsD:
  assumes "htab_ok hash tab" and "htab_adds hash k v tab tab'"
  shows "htab_lookup hash tab k = None" and "htab_ok hash tab'"
    and "htab_lookup hash tab' j = (if j = k then Some v else htab_lookup hash tab j)"
proof -
  obtain m p e m' where p: "coherent tab p k" "htab_add hash m tab p k v = Inr (Some e, tab', m')"
    using assms(2) by (auto simp: htab_adds_def)
  show n: "htab_lookup hash tab k = None"
    using htab_add_present [OF assms(1) p(1)] p(2) by (cases "htab_lookup hash tab k") auto
  obtain a kp m2 where "m = Some a # Some kp # m2"
    using p(2) by (auto simp: htab_add_def htab_add_known_def c_assert_eq_Inr obind_eq_Inr malloc_Some
        Let_def split: if_splits prod.splits option.splits)
  with htab_add_absent [OF assms(1) p(1) n, of a kp m2 v] p(2)
  show "htab_ok hash tab'"
    "htab_lookup hash tab' j = (if j = k then Some v else htab_lookup hash tab j)" by auto
qed

interpretation htab: key_store "htab_ok hash" "\<lambda>k tab. htab_lookup hash tab k" "htab_adds hash"
  "htab_dels hash" for hash :: "string \<Rightarrow> u32"
proof unfold_locales
  fix tab tab' :: "'a htab" and k j v
  assume ok: "htab_ok hash tab"
  { assume "htab_adds hash k v tab tab'"
    from htab_addsD [OF ok this] show "htab_ok hash tab'" "htab_lookup hash tab k = None"
      "htab_lookup hash tab' j = (if j = k then Some v else htab_lookup hash tab j)" by simp_all }
  { assume "htab_dels hash k tab tab'"
    then obtain p w where "coherent tab p k" "htab_remove hash tab p k = Inr (w, tab')"
      by (auto simp: htab_dels_def)
    with htab_remove_ok [OF ok, of p k] show "htab_ok hash tab'"
      "htab_lookup hash tab' j = (if j = k then None else htab_lookup hash tab j)" by auto }
qed

section \<open>Properties\<close>

text \<open>
  C26 (refinement). For any hash function, a table that satisfies the invariant is a map from strings to
  values: a lookup returns the value stored under the key, an insertion of an absent key adds
  exactly that pair, one of a present key returns null and changes nothing, and a removal returns
  the value and removes exactly that key; every operation keeps the invariant.
\<close>

theorem htab_is_map:
  assumes "htab_ok hash tab" and "coherent tab p k"
  shows "htab_get hash tab p k = Inr (htab_lookup hash tab k) \<and>
    (case htab_lookup hash tab k of
       Some w \<Rightarrow> htab_add hash (Some a # Some kp # m) tab p k v = Inr (None, tab, Some a # Some kp # m)
     | None \<Rightarrow> \<exists>e tab'. htab_add hash (Some a # Some kp # m) tab p k v = Inr (Some e, tab', m) \<and>
         htab_ok hash tab' \<and>
         (\<forall>j. htab_lookup hash tab' j = (if j = k then Some v else htab_lookup hash tab j))) \<and>
    (\<exists>tab'. htab_remove hash tab p k = Inr (htab_lookup hash tab k, tab') \<and> htab_ok hash tab' \<and>
         (\<forall>j. htab_lookup hash tab' j = (if j = k then None else htab_lookup hash tab j)))"
  using htab_get_lookup [OF assms] htab_remove_ok [OF assms] htab_add_present [OF assms]
    htab_add_absent [OF assms, of a kp m v]
  by (auto split: option.splits)

definition sample_hash :: "string \<Rightarrow> u32" where
  "sample_hash k = of_nat (length k)"

definition sample_tab :: "nat htab" where
  "sample_tab = \<lparr>slot_count = 2, elements =
     [[\<lparr>entry_ptr = 20, entry_key = ''ab'', entry_value = 5\<rparr>],
      [\<lparr>entry_ptr = 21, entry_key = ''a'', entry_value = 6\<rparr>,
       \<lparr>entry_ptr = 22, entry_key = ''b'', entry_value = 7\<rparr>]]\<rparr>"

lemma sample_tab_ok: "htab_ok sample_hash sample_tab"
  by (auto simp: htab_ok_def sample_tab_def slot_def HASH_def sample_hash_def less_Suc_eq)

theorem htab_is_map_witness:
  "htab_get sample_hash sample_tab 30 ''b'' = Inr (Some 7) \<and>
   htab_add sample_hash [Some 31, Some 32] sample_tab 30 ''b'' 8 = Inr (None, sample_tab, [Some 31, Some 32])"
proof -
  have l: "htab_lookup sample_hash sample_tab ''b'' = Some 7"
    by (simp add: htab_lookup_def slot_def HASH_def sample_hash_def sample_tab_def chain_map_def)
  have "coherent sample_tab 30 ''b''" by (simp add: coherent_def sample_tab_def)
  from htab_is_map [OF sample_tab_ok this, of 31 32 "[]" 8] l show ?thesis by simp
qed

text \<open>
  The observable contents of a table do not depend on the order of two insertions,
  whatever slots the keys share, and inserting a key and removing it again restores them.
\<close>

lemma htab_order_independent:
  assumes "htab_ok hash tab" and "htab_adds hash k v tab t1" and "htab_adds hash j w t1 t2"
    and "htab_adds hash j w tab u1" and "htab_adds hash k v u1 u2" and "htab_dels hash k t1 t3"
  shows "htab_lookup hash t2 i = htab_lookup hash u2 i \<and> htab_lookup hash t3 i = htab_lookup hash tab i"
  using htab.add_commute [OF assms(1-5), of i] htab.get_del_add [OF assms(1,2,6), of i] by simp

end
