(* ===== verification/Simple_Queue.thy ===== *)
theory Simple_Queue
  imports Upcn_Prelude
begin

text \<open>
  The bounded message queue of \<open>components/platform/posix/simple_queue.c\<close> between the tasks of the
  node: a byte buffer used as a ring, two counting semaphores for the stored items and the free
  slots, and a mutex around the accesses to the ring. Pointers into the ring are offsets from
  \<open>abs_start\<close>. An operation first takes a token from a counting semaphore and later enters the
  critical section; the calls of other tasks may come in between, so the state also counts the
  tasks between the two. Sizes and offsets, \<open>int\<close> in the code and never negative, are natural numbers.
\<close>

section \<open>State\<close>

record queue_t =
  item_length :: nat
  item_size :: nat
  sem_pop :: nat
  sem_push :: nat
  buffer :: bytes
  current_start :: nat
  current_end :: nat
  pushing :: nat
  popping :: nat
  forcing :: nat

abbreviation (input) abs_end :: "queue_t \<Rightarrow> nat" where
  "abs_end q \<equiv> item_length q * item_size q"

section \<open>Operations\<close>

definition increment :: "nat \<Rightarrow> nat \<Rightarrow> nat \<Rightarrow> nat" where
  "increment current limit sz = (let val = current + sz in if val > limit then 0 else val)"

definition decrement :: "nat \<Rightarrow> nat \<Rightarrow> nat \<Rightarrow> nat" where
  "decrement current limit sz = (if current < sz then limit - sz else current - sz)"

text \<open>\<open>None\<close> is the exit of the program on a zero length or size.\<close>

definition queueCreate :: "nat \<Rightarrow> nat \<Rightarrow> queue_t option" where
  "queueCreate queue_length sz =
     (if queue_length = 0 \<or> sz = 0 then None
      else Some \<lparr>item_length = queue_length, item_size = sz, sem_pop = 0, sem_push = queue_length,
        buffer = replicate (queue_length * sz) 0, current_start = 0, current_end = 0,
        pushing = 0, popping = 0, forcing = 0\<rparr>)"

definition queueReset :: "queue_t \<Rightarrow> queue_t" where
  "queueReset q = q\<lparr>current_start := 0, current_end := 0, sem_pop := 0, sem_push := item_length q\<rparr>"

definition queueItemsWaiting :: "queue_t \<Rightarrow> nat" where
  "queueItemsWaiting q = sem_pop q"

definition write_item :: "bytes \<Rightarrow> nat \<Rightarrow> bytes \<Rightarrow> bytes outcome" where
  "write_item buf off item =
     (if length buf < off + length item then Inl Out_Of_Bounds
      else Inr (take off buf @ item @ drop (off + length item) buf))"

definition read_item :: "bytes \<Rightarrow> nat \<Rightarrow> nat \<Rightarrow> bytes outcome" where
  "read_item buf off n =
     (if length buf < off + n then Inl Out_Of_Bounds else Inr (take n (drop off buf)))"

text \<open>The critical sections of the three ways through the operations.\<close>

definition pop_critical :: "queue_t \<Rightarrow> (bytes \<times> queue_t) outcome" where
  "pop_critical q =
     (let start = (if current_start q \<ge> abs_end q then 0 else current_start q) in
      obind (read_item (buffer q) start (item_size q)) (\<lambda>item.
        Inr (item, q\<lparr>current_start := increment start (abs_end q) (item_size q),
                     sem_push := sem_push q + 1\<rparr>)))"

definition push_critical :: "queue_t \<Rightarrow> bytes \<Rightarrow> queue_t outcome" where
  "push_critical q item =
     (let end = (if current_end q \<ge> abs_end q then 0 else current_end q) in
      obind (write_item (buffer q) end item) (\<lambda>buf.
        Inr (q\<lparr>buffer := buf, current_end := increment end (abs_end q) (item_size q),
               sem_pop := sem_pop q + 1\<rparr>)))"

definition force_critical :: "queue_t \<Rightarrow> bytes \<Rightarrow> queue_t outcome" where
  "force_critical q item =
     obind (write_item (buffer q) (decrement (current_end q) (abs_end q) (item_size q)) item)
       (\<lambda>buf. Inr (q\<lparr>buffer := buf\<rparr>))"

text \<open>
  The calls when no other task runs in between: a wait on a zero semaphore then times out, or blocks
  for ever when the timeout is negative. \<open>force\<close> first tries to take a free slot and, when there is
  one, still goes on to the wait of a non-negative timeout.
\<close>

datatype 'a wait_result = Done 'a | Timed_Out | Blocked

definition queuePop :: "queue_t \<Rightarrow> int \<Rightarrow> (bytes wait_result \<times> queue_t) outcome" where
  "queuePop q timeout =
     (if sem_pop q = 0 then Inr (if timeout \<ge> 0 then Timed_Out else Blocked, q)
      else obind (pop_critical (q\<lparr>sem_pop := sem_pop q - 1\<rparr>)) (\<lambda>(item, q'). Inr (Done item, q')))"

definition queuePush :: "queue_t \<Rightarrow> bytes \<Rightarrow> int \<Rightarrow> bool \<Rightarrow> (unit wait_result \<times> queue_t) outcome" where
  "queuePush q item timeout force =
     (if force \<and> sem_push q = 0
      then obind (force_critical q item) (\<lambda>q'. Inr (Done (), q'))
      else
        let q1 = (if force then q\<lparr>sem_push := sem_push q - 1\<rparr> else q) in
        if timeout \<ge> 0 then
          (if sem_push q1 = 0 then Inr (Timed_Out, q1)
           else obind (push_critical (q1\<lparr>sem_push := sem_push q1 - 1\<rparr>) item) (\<lambda>q'. Inr (Done (), q')))
        else if \<not> force then
          (if sem_push q1 = 0 then Inr (Blocked, q1)
           else obind (push_critical (q1\<lparr>sem_push := sem_push q1 - 1\<rparr>) item) (\<lambda>q'. Inr (Done (), q')))
        else obind (push_critical q1 item) (\<lambda>q'. Inr (Done (), q')))"

section \<open>Interleavings\<close>

datatype queue_event = Internal | Pushed bytes | Popped bytes | Forced bytes

inductive queue_step :: "queue_t \<Rightarrow> queue_event \<Rightarrow> queue_t \<Rightarrow> bool" where
  push_token: "sem_push q > 0 \<Longrightarrow>
     queue_step q Internal (q\<lparr>sem_push := sem_push q - 1, pushing := pushing q + 1\<rparr>)"
| pop_token: "sem_pop q > 0 \<Longrightarrow>
     queue_step q Internal (q\<lparr>sem_pop := sem_pop q - 1, popping := popping q + 1\<rparr>)"
| force_full: "sem_push q = 0 \<Longrightarrow> queue_step q Internal (q\<lparr>forcing := forcing q + 1\<rparr>)"
| push: "pushing q > 0 \<Longrightarrow> length item = item_size q \<Longrightarrow> push_critical q item = Inr q' \<Longrightarrow>
     queue_step q (Pushed item) (q'\<lparr>pushing := pushing q - 1\<rparr>)"
| pop: "popping q > 0 \<Longrightarrow> pop_critical q = Inr (item, q') \<Longrightarrow>
     queue_step q (Popped item) (q'\<lparr>popping := popping q - 1\<rparr>)"
| force: "forcing q > 0 \<Longrightarrow> length item = item_size q \<Longrightarrow> force_critical q item = Inr q' \<Longrightarrow>
     queue_step q (Forced item) (q'\<lparr>forcing := forcing q - 1\<rparr>)"

inductive_cases queue_stepE: "queue_step q e q'"
inductive_cases queue_pushedE: "queue_step q (Pushed item) q'"
inductive_cases queue_poppedE: "queue_step q (Popped item) q'"
inductive_cases queue_forcedE: "queue_step q (Forced item) q'"

section \<open>The ring as a list of items\<close>

definition slot_item :: "queue_t \<Rightarrow> nat \<Rightarrow> bytes" where
  "slot_item q i = take (item_size q) (drop (i * item_size q) (buffer q))"

definition head_slot :: "queue_t \<Rightarrow> nat" where
  "head_slot q = current_start q div item_size q mod item_length q"

definition stored :: "queue_t \<Rightarrow> nat" where
  "stored q = sem_pop q + popping q"

definition contents :: "queue_t \<Rightarrow> bytes list" where
  "contents q = map (\<lambda>i. slot_item q ((head_slot q + i) mod item_length q)) [0 ..< stored q]"

definition queue_inv :: "queue_t \<Rightarrow> bool" where
  "queue_inv q \<longleftrightarrow> item_length q > 0 \<and> item_size q > 0 \<and>
     length (buffer q) = item_length q * item_size q \<and>
     current_start q mod item_size q = 0 \<and> current_end q mod item_size q = 0 \<and>
     current_start q \<le> abs_end q \<and> current_end q \<le> abs_end q \<and>
     sem_push q + pushing q + stored q = item_length q \<and>
     current_end q div item_size q mod item_length q = (head_slot q + stored q) mod item_length q"

lemma ring_offset:
  assumes "0 < S" and "c mod S = 0" and "c \<le> L * S" and "0 < (L::nat)"
  defines "o1 \<equiv> if c \<ge> L * S then 0 else c"
  shows "o1 = (c div S mod L) * S" and "o1 + S \<le> L * S"
    and "increment o1 (L * S) S = Suc (c div S mod L) * S"
proof -
  obtain i where c: "c = i * S" using assms(2) by (metis mod_0_imp_dvd dvd_div_mult_self)
  have "i \<le> L" using assms(1,3) c by simp
  then have i: "o1 = (i mod L) * S" "i mod L < L"
    using assms(1,4) by (auto simp: o1_def c)
  then show o: "o1 = (c div S mod L) * S" using assms(1) by (simp add: c)
  have "Suc (i mod L) * S \<le> L * S" using i(2) by (intro mult_le_mono1) simp
  with i(1) show "o1 + S \<le> L * S" by simp
  with o show "increment o1 (L * S) S = Suc (c div S mod L) * S" by (simp add: increment_def Let_def)
qed

lemma write_item_slot:
  assumes "length buf = L * S" and "length item = S" and "i < L"
  shows "\<exists>buf'. write_item buf (i * S) item = Inr buf' \<and> length buf' = L * S \<and>
    (\<forall>j < L. take S (drop (j * S) buf') = (if j = i then item else take S (drop (j * S) buf)))"
proof -
  have le: "i * S + S \<le> L * S"
    using assms(3) by (metis Suc_leI add.commute mult_Suc mult_le_mono1)
  let ?b = "take (i * S) buf @ item @ drop (i * S + S) buf"
  have "take S (drop (j * S) ?b) = (if j = i then item else take S (drop (j * S) buf))" if "j < L" for j
  proof -
    consider "j = i" | "j < i" | "i < j" by linarith
    then show ?thesis
    proof cases
      case 2
      then have "j * S + S \<le> i * S" by (metis Suc_leI add.commute mult_Suc mult_le_mono1)
      then show ?thesis using 2 le assms by (simp add: take_drop min_def)
    next
      case 3
      then have "i * S + S \<le> j * S" by (metis Suc_leI add.commute mult_Suc mult_le_mono1)
      then show ?thesis using 3 le assms by (simp add: drop_append)
    qed (use le assms in simp)
  qed
  then show ?thesis using le assms by (simp add: write_item_def)
qed

lemma suc_mod_ring: "(Suc i * S) div S mod L = Suc i mod (L::nat)" if "0 < S"
  using that by simp

lemma suc_mod_inj: "Suc a mod L = Suc b mod L \<Longrightarrow> a mod L = b mod (L::nat)"
  by (simp add: nat_mod_eq_iff)

lemma ring_inj: "i \<le> n \<Longrightarrow> n < L \<Longrightarrow> (h + i) mod L = (h + n) mod L \<longleftrightarrow> i = (n::nat)"
proof
  assume "i \<le> n" "n < L" "(h + i) mod L = (h + n) mod L"
  then have "L dvd (h + n) - (h + i)" by (metis mod_eq_dvd_iff_nat add_le_cancel_left)
  then have "L dvd n - i" by simp
  with \<open>n < L\<close> \<open>i \<le> n\<close> show "i = n" by (meson diff_less_eq dvd_imp_le le_less_trans less_imp_diff_less nat_less_le not_less zero_less_diff)
qed simp

lemma contents_nth:
  "i < stored q \<Longrightarrow> contents q ! i = slot_item q ((head_slot q + i) mod item_length q)"
  by (simp add: contents_def)

lemma contents_length [simp]: "length (contents q) = stored q"
  by (simp add: contents_def)

lemma contents_push:
  assumes inv: "queue_inv q" and "pushing q > 0" and "length item = item_size q"
  shows "\<exists>q'. push_critical q item = Inr q' \<and> queue_inv (q'\<lparr>pushing := pushing q - 1\<rparr>) \<and>
    contents (q'\<lparr>pushing := pushing q - 1\<rparr>) = contents q @ [item]"
proof -
  let ?L = "item_length q" and ?S = "item_size q" and ?n = "stored q" and ?h = "head_slot q"
  let ?e = "(?h + ?n) mod ?L"
  have L: "0 < ?L" "0 < ?S" and n: "?n < ?L" and e: "current_end q div ?S mod ?L = ?e"
    using inv assms(2) by (auto simp: queue_inv_def)
  have r: "(if current_end q \<ge> ?L * ?S then 0 else current_end q) = ?e * ?S"
      "increment (?e * ?S) (?L * ?S) ?S = Suc ?e * ?S"
    using ring_offset [of ?S "current_end q" ?L] L inv e by (auto simp: queue_inv_def)
  obtain buf where w: "write_item (buffer q) (?e * ?S) item = Inr buf" "length buf = ?L * ?S"
      "\<forall>j < ?L. take ?S (drop (j * ?S) buf) = (if j = ?e then item else slot_item q j)"
    using write_item_slot [of "buffer q" ?L ?S item ?e] inv assms(3) L
    by (auto simp: queue_inv_def slot_item_def)
  define q' where "q' = q\<lparr>buffer := buf, current_end := Suc ?e * ?S, sem_pop := sem_pop q + 1,
    pushing := pushing q - 1\<rparr>"
  have crit: "push_critical q item = Inr (q\<lparr>buffer := buf, current_end := Suc ?e * ?S,
      sem_pop := sem_pop q + 1\<rparr>)"
    unfolding push_critical_def Let_def r w(1) obind_Inr ..
  have st: "stored q' = Suc ?n" "head_slot q' = ?h" "item_length q' = ?L"
    by (simp_all add: q'_def stored_def head_slot_def)
  have sl: "slot_item q' k = (if k = ?e then item else slot_item q k)" if "k < ?L" for k
    using w(3) that by (simp add: slot_item_def q'_def)
  have "Suc ?e * ?S \<le> ?L * ?S" using L by (intro mult_le_mono1) (simp add: Suc_leI)
  then have "queue_inv q'"
    using inv assms(2) w(2) L st suc_mod_ring [OF L(2), of ?e ?L]
    by (simp add: queue_inv_def q'_def mod_Suc_eq stored_def head_slot_def)
  moreover have "contents q' = contents q @ [item]"
  proof (rule nth_equalityI)
    fix i assume "i < length (contents q')"
    then have i: "i \<le> ?n" by (simp add: st)
    have "(?h + i) mod ?L = ?e \<longleftrightarrow> i = ?n" using ring_inj [OF i n] .
    then show "contents q' ! i = (contents q @ [item]) ! i"
      using i L by (auto simp: contents_nth st sl nth_append)
  qed (simp add: st)
  ultimately show ?thesis using crit by (auto simp: q'_def)
qed

lemma contents_pop:
  assumes inv: "queue_inv q" and "popping q > 0"
  shows "\<exists>item q'. pop_critical q = Inr (item, q') \<and> queue_inv (q'\<lparr>popping := popping q - 1\<rparr>) \<and>
    contents q = item # contents (q'\<lparr>popping := popping q - 1\<rparr>)"
proof -
  let ?L = "item_length q" and ?S = "item_size q" and ?h = "head_slot q"
  have L: "0 < ?L" "0 < ?S" "?h < ?L"
    using inv by (auto simp: queue_inv_def head_slot_def)
  have r: "(if current_start q \<ge> ?L * ?S then 0 else current_start q) = ?h * ?S"
      "increment (?h * ?S) (?L * ?S) ?S = Suc ?h * ?S" "?h * ?S + ?S \<le> ?L * ?S"
    using ring_offset [of ?S "current_start q" ?L] L inv by (auto simp: queue_inv_def head_slot_def)
  define q' where "q' = q\<lparr>current_start := Suc ?h * ?S, sem_push := sem_push q + 1,
    popping := popping q - 1\<rparr>"
  have rd: "read_item (buffer q) (?h * ?S) ?S = Inr (slot_item q ?h)"
    using r(3) inv by (simp add: read_item_def slot_item_def queue_inv_def)
  have crit: "pop_critical q = Inr (slot_item q ?h,
      q\<lparr>current_start := Suc ?h * ?S, sem_push := sem_push q + 1\<rparr>)"
    unfolding pop_critical_def Let_def r(1,2) rd obind_Inr ..
  have st: "stored q = Suc (stored q')" "head_slot q' = Suc ?h mod ?L" "item_length q' = ?L"
      "slot_item q' = slot_item q"
    using assms(2) suc_mod_ring [OF L(2), of ?h ?L]
    by (simp_all add: q'_def stored_def head_slot_def slot_item_def fun_eq_iff)
  have "(Suc ?h mod ?L + stored q') mod ?L = (?h + stored q) mod ?L"
    by (simp add: st mod_add_left_eq)
  then have "queue_inv q'"
    using inv st r(3) by (simp add: queue_inv_def q'_def)
  moreover have "contents q = slot_item q ?h # contents q'"
  proof (rule nth_equalityI)
    fix i assume "i < length (contents q)"
    then show "contents q ! i = (slot_item q ?h # contents q') ! i"
      using L(3) by (cases i) (simp_all add: contents_nth st mod_add_left_eq)
  qed (simp add: st)
  ultimately show ?thesis using crit by (auto simp: q'_def)
qed

lemma contents_force:
  assumes inv: "queue_inv q" and "length item = item_size q"
  shows "\<exists>q'. force_critical q item = Inr q' \<and> queue_inv (q'\<lparr>forcing := f\<rparr>) \<and>
    contents (q'\<lparr>forcing := f\<rparr>) = (if contents q = [] then [] else butlast (contents q) @ [item])"
proof -
  let ?L = "item_length q" and ?S = "item_size q" and ?h = "head_slot q" and ?n = "stored q"
  have L: "0 < ?L" "0 < ?S" using inv by (auto simp: queue_inv_def)
  obtain j where j: "current_end q = j * ?S" "j \<le> ?L"
    using inv L by (auto simp: queue_inv_def elim!: mod_eq_0_iff_dvd [THEN iffD1, elim_format] dvdE)
  define d where "d = (if j = 0 then ?L - 1 else j - 1)"
  have d: "d < ?L" "decrement (current_end q) (?L * ?S) ?S = d * ?S"
    using L j by (auto simp: d_def decrement_def diff_mult_distrib)
  have jm: "j mod ?L = (?h + ?n) mod ?L" using inv j L by (simp add: queue_inv_def)
  have "Suc d mod ?L = (?h + ?n) mod ?L" using jm L by (auto simp: d_def)
  then have last: "d = (?h + (?n - 1)) mod ?L" if "?n > 0"
  proof -
    have "Suc d mod ?L = Suc (?h + (?n - 1)) mod ?L" using \<open>Suc d mod ?L = _\<close> that by simp
    then have "d mod ?L = (?h + (?n - 1)) mod ?L" by (rule suc_mod_inj)
    then show ?thesis using d(1) by simp
  qed
  obtain buf where w: "write_item (buffer q) (d * ?S) item = Inr buf" "length buf = ?L * ?S"
      "\<forall>k < ?L. take ?S (drop (k * ?S) buf) = (if k = d then item else slot_item q k)"
    using write_item_slot [of "buffer q" ?L ?S item d] inv assms(2) L d(1)
    by (auto simp: queue_inv_def slot_item_def)
  define q' where "q' = q\<lparr>buffer := buf, forcing := f\<rparr>"
  have st: "stored q' = ?n" "head_slot q' = ?h" "item_length q' = ?L"
    by (simp_all add: q'_def stored_def head_slot_def)
  have sl: "slot_item q' k = (if k = d then item else slot_item q k)" if "k < ?L" for k
    using w(3) that by (simp add: slot_item_def q'_def)
  have "queue_inv q'" using inv w(2) by (simp add: queue_inv_def q'_def stored_def head_slot_def)
  moreover have "contents q' = (if contents q = [] then [] else butlast (contents q) @ [item])"
  proof (cases "?n = 0")
    case False
    have "contents q' ! i = (butlast (contents q) @ [item]) ! i" if "i < ?n" for i
    proof -
      have "(?h + i) mod ?L = d \<longleftrightarrow> i = ?n - 1"
        using ring_inj [of i "?n - 1" ?L ?h] that last inv by (auto simp: queue_inv_def)
      then show ?thesis
        using that L by (auto simp: contents_nth st sl nth_append nth_butlast)
    qed
    then show ?thesis using False by (auto intro!: nth_equalityI simp: st simp flip: length_0_conv)
  qed (simp add: st flip: length_0_conv)
  ultimately show ?thesis
    using w(1) d(2) by (simp add: force_critical_def q'_def)
qed

section \<open>The contract of a FIFO queue\<close>

text \<open>Runs of a step relation that names the items put in and the items taken out by each step.\<close>

inductive fifo_run ::
  "('q \<Rightarrow> 'i list \<Rightarrow> 'i list \<Rightarrow> 'q \<Rightarrow> bool) \<Rightarrow> 'q \<Rightarrow> 'i list \<Rightarrow> 'i list \<Rightarrow> 'q \<Rightarrow> bool"
  for step where
  none: "fifo_run step q [] [] q"
| snoc: "fifo_run step q ins outs q' \<Longrightarrow> step q' i out q'' \<Longrightarrow> fifo_run step q (ins @ i) (outs @ out) q''"

locale fifo_queue =
  fixes inv :: "'q \<Rightarrow> bool"
    and items :: "'q \<Rightarrow> 'i list"
    and step :: "'q \<Rightarrow> 'i list \<Rightarrow> 'i list \<Rightarrow> 'q \<Rightarrow> bool"
  assumes step_inv: "inv q \<Longrightarrow> step q ins outs q' \<Longrightarrow> inv q'"
    and step_items: "inv q \<Longrightarrow> step q ins outs q' \<Longrightarrow> items q @ ins = outs @ items q'"
begin

lemma run_inv_items:
  "fifo_run step q ins outs q' \<Longrightarrow> inv q \<Longrightarrow> inv q' \<and> items q @ ins = outs @ items q'"
proof (induction rule: fifo_run.induct)
  case (snoc q ins outs q' i out q'')
  then have "inv q'" "items q @ ins = outs @ items q'" by auto
  with step_inv [OF _ snoc.hyps(2)] step_items [OF _ snoc.hyps(2)] show ?case
    by (metis append_assoc)
qed simp

lemma run_order: "fifo_run step q ins outs q' \<Longrightarrow> inv q \<Longrightarrow> items q = [] \<Longrightarrow> ins = outs @ items q'"
  using run_inv_items by fastforce

end

text \<open>The steps of the queue without a forced replacement.\<close>

definition unforced_step :: "queue_t \<Rightarrow> bytes list \<Rightarrow> bytes list \<Rightarrow> queue_t \<Rightarrow> bool" where
  "unforced_step q ins outs q' \<longleftrightarrow>
     (queue_step q Internal q' \<and> ins = [] \<and> outs = []) \<or>
     (\<exists>item. queue_step q (Pushed item) q' \<and> ins = [item] \<and> outs = []) \<or>
     (\<exists>item. queue_step q (Popped item) q' \<and> ins = [] \<and> outs = [item])"

lemma internal_step:
  assumes "queue_inv q" and "queue_step q Internal q'"
  shows "queue_inv q' \<and> contents q' = contents q"
  using assms(2)
  by (cases rule: queue_stepE)
    (use assms(1) in \<open>auto simp: queue_inv_def contents_def head_slot_def stored_def slot_item_def\<close>)

lemma pushed_step:
  assumes "queue_inv q" and "queue_step q (Pushed item) q'"
  shows "queue_inv q' \<and> contents q' = contents q @ [item]"
  using assms(2) by (rule queue_pushedE) (use contents_push [OF assms(1), of item] in auto)

lemma popped_step:
  assumes "queue_inv q" and "queue_step q (Popped item) q'"
  shows "queue_inv q' \<and> contents q = item # contents q'"
  using assms(2) by (rule queue_poppedE) (use contents_pop [OF assms(1)] in auto)

lemma forced_step:
  assumes "queue_inv q" and "queue_step q (Forced item) q'"
  shows "queue_inv q' \<and> contents q' = (if contents q = [] then [] else butlast (contents q) @ [item])"
  using assms(2)
  by (rule queue_forcedE) (use contents_force [OF assms(1), of item "forcing q - 1"] in auto)

interpretation ring: fifo_queue queue_inv contents unforced_step
  by unfold_locales (auto simp: unforced_step_def dest: internal_step pushed_step popped_step)

lemma queue_inv_create: "queueCreate n sz = Some q \<Longrightarrow> queue_inv q \<and> contents q = []"
  by (auto simp: queueCreate_def queue_inv_def stored_def head_slot_def contents_def split: if_splits)

section \<open>Properties\<close>

text \<open>
  C11 (refinement). Whatever the interleaving of the pushes and pops of any number of tasks, each
  broken up into taking its token and its critical section, the items come out of the queue in the order
  of their critical sections, none lost and none duplicated, and never more than \<open>item_length\<close> are
  stored.
\<close>

theorem queue_fifo:
  assumes "queueCreate n sz = Some q" and "fifo_run unforced_step q ins outs q'"
  shows "ins = outs @ contents q' \<and> length (contents q') \<le> n"
proof -
  have q: "queue_inv q" "contents q = []" using queue_inv_create [OF assms(1)] by auto
  have len: "item_length q' = item_length q"
    using assms(2)
    by (induction rule: fifo_run.induct)
      (auto simp: unforced_step_def push_critical_def pop_critical_def obind_eq_Inr Let_def
        elim!: queue_stepE)
  have "queue_inv q'" using ring.run_inv_items [OF assms(2) q(1)] by simp
  then have "length (contents q') \<le> item_length q'" by (simp add: queue_inv_def)
  moreover have "item_length q = n" using assms(1) by (auto simp: queueCreate_def split: if_splits)
  ultimately show ?thesis using ring.run_order [OF assms(2) q] len by simp
qed

definition idle :: "queue_t \<Rightarrow> bool" where
  "idle q \<longleftrightarrow> pushing q = 0 \<and> popping q = 0 \<and> forcing q = 0"

lemma push_critical_token:
  assumes "queue_inv q" and "idle q" and "sem_push q > 0" and "length item = item_size q"
  shows "\<exists>q'. push_critical (q\<lparr>sem_push := sem_push q - 1\<rparr>) item = Inr q' \<and> queue_inv q' \<and>
    contents q' = contents q @ [item]"
proof -
  let ?q = "q\<lparr>sem_push := sem_push q - 1, pushing := 1\<rparr>"
  have p: "queue_inv ?q" "contents ?q = contents q"
    using assms by (auto simp: idle_def queue_inv_def contents_def head_slot_def stored_def slot_item_def)
  from contents_push [OF p(1)] assms(4) obtain q' where q': "push_critical ?q item = Inr q'"
      "queue_inv (q'\<lparr>pushing := 0\<rparr>)" "contents (q'\<lparr>pushing := 0\<rparr>) = contents ?q @ [item]"
    by auto
  have "push_critical (q\<lparr>sem_push := sem_push q - 1\<rparr>) item = Inr (q'\<lparr>pushing := 0\<rparr>)"
    using q'(1) assms(2) by (auto simp: push_critical_def idle_def obind_eq_Inr Let_def)
  with q'(2,3) p(2) show ?thesis by auto
qed

lemma pop_critical_token:
  assumes "queue_inv q" and "idle q" and "sem_pop q > 0"
  shows "\<exists>q'. pop_critical (q\<lparr>sem_pop := sem_pop q - 1\<rparr>) = Inr (hd (contents q), q') \<and> queue_inv q' \<and>
    contents q' = tl (contents q)"
proof -
  let ?q = "q\<lparr>sem_pop := sem_pop q - 1, popping := 1\<rparr>"
  have p: "queue_inv ?q" "contents ?q = contents q"
    using assms by (auto simp: idle_def queue_inv_def contents_def head_slot_def stored_def slot_item_def)
  from contents_pop [OF p(1)] obtain item q' where q': "pop_critical ?q = Inr (item, q')"
      "queue_inv (q'\<lparr>popping := 0\<rparr>)" "contents ?q = item # contents (q'\<lparr>popping := 0\<rparr>)"
    by auto
  have "pop_critical (q\<lparr>sem_pop := sem_pop q - 1\<rparr>) = Inr (item, q'\<lparr>popping := 0\<rparr>)"
    using q'(1) assms(2) by (auto simp: pop_critical_def idle_def obind_eq_Inr Let_def)
  moreover have "contents q = item # contents (q'\<lparr>popping := 0\<rparr>)" using q'(3) p(2) by simp
  ultimately show ?thesis using q'(2) by auto
qed

text \<open>
  The calls of a task that runs alone: a pop of a non-empty queue returns its oldest
  item, one of an empty queue times out or blocks; a push to a queue with a free slot appends the item,
  one to a full queue times out or blocks, and a forced push without a timeout replaces the newest item of a
  full queue. Each keeps the invariant.
\<close>

theorem queue_calls:
  assumes "queue_inv q" and "idle q" and "length item = item_size q"
  shows "(case contents q of
       [] \<Rightarrow> queuePop q t = Inr (if t \<ge> 0 then Timed_Out else Blocked, q)
     | x # xs \<Rightarrow> \<exists>q'. queuePop q t = Inr (Done x, q') \<and> queue_inv q' \<and> contents q' = xs) \<and>
    (if length (contents q) < item_length q
     then (\<exists>q'. queuePush q item t False = Inr (Done (), q') \<and> queue_inv q' \<and>
             contents q' = contents q @ [item]) \<and>
          (\<exists>q'. queuePush q item (-1) True = Inr (Done (), q') \<and> queue_inv q' \<and>
             contents q' = contents q @ [item])
     else queuePush q item t False = Inr (if t \<ge> 0 then Timed_Out else Blocked, q) \<and>
          (\<exists>q'. queuePush q item t True = Inr (Done (), q') \<and> queue_inv q' \<and>
             contents q' = butlast (contents q) @ [item]))"
proof -
  have n: "stored q = sem_pop q" "sem_push q + sem_pop q = item_length q" "item_length q > 0"
    using assms by (auto simp: idle_def stored_def queue_inv_def)
  have pop: "case contents q of
       [] \<Rightarrow> queuePop q t = Inr (if t \<ge> 0 then Timed_Out else Blocked, q)
     | x # xs \<Rightarrow> \<exists>q'. queuePop q t = Inr (Done x, q') \<and> queue_inv q' \<and> contents q' = xs"
  proof (cases "sem_pop q = 0")
    case True
    then have "contents q = []" using n contents_length [of q] by (metis length_0_conv)
    with True show ?thesis by (simp add: queuePop_def)
  next
    case False
    then have "contents q \<noteq> []" using n contents_length [of q] by (metis list.size(3))
    with False pop_critical_token [OF assms(1,2)] show ?thesis
      by (auto simp: queuePop_def split: list.splits)
  qed
  show ?thesis
  proof (cases "sem_push q = 0")
    case True
    from contents_force [OF assms(1,3), of 0] assms(2) obtain q' where
      "force_critical q item = Inr q'" "queue_inv (q'\<lparr>forcing := 0\<rparr>)"
      "contents (q'\<lparr>forcing := 0\<rparr>) = (if contents q = [] then [] else butlast (contents q) @ [item])"
      by blast
    moreover from this have "forcing q' = 0" using assms(2)
      by (auto simp: force_critical_def obind_eq_Inr idle_def)
    then have "q'\<lparr>forcing := 0\<rparr> = q'" by simp
    moreover have "contents q \<noteq> []" using True n contents_length [of q] by (metis add_0 list.size(3) less_irrefl)
    ultimately show ?thesis using True n pop by (auto simp: queuePush_def Let_def)
  next
    case False
    with push_critical_token [OF assms(1,2) _ assms(3)] n pop show ?thesis
      by (auto simp: queuePush_def Let_def)
  qed
qed

text \<open>A queue of one slot for items of one byte, and its states along a push, a pop and a forced push.\<close>

definition one_slot :: "nat \<Rightarrow> nat \<Rightarrow> bytes \<Rightarrow> nat \<Rightarrow> nat \<Rightarrow> nat \<Rightarrow> nat \<Rightarrow> nat \<Rightarrow> queue_t" where
  "one_slot pp ps buf st e ph po fo = \<lparr>item_length = 1, item_size = 1, sem_pop = pp, sem_push = ps,
     buffer = buf, current_start = st, current_end = e, pushing = ph, popping = po, forcing = fo\<rparr>"

lemma one_slot_create: "queueCreate 1 1 = Some (one_slot 0 1 [0] 0 0 0 0 0)"
  by (simp add: queueCreate_def one_slot_def)

lemma one_slot_push_token: "queue_step (one_slot pp 1 b st e 0 po fo) Internal (one_slot pp 0 b st e 1 po fo)"
  using queue_step.push_token [of "one_slot pp 1 b st e 0 po fo"] by (simp add: one_slot_def)

lemma one_slot_push: "queue_step (one_slot 0 0 [c] st 0 1 0 fo) (Pushed [x]) (one_slot 1 0 [x] st 1 0 0 fo)"
  using queue_step.push [of "one_slot 0 0 [c] st 0 1 0 fo" "[x]"]
  by (simp add: one_slot_def push_critical_def write_item_def increment_def)

lemma one_slot_pop_token: "queue_step (one_slot 1 0 b st e 0 0 fo) Internal (one_slot 0 0 b st e 0 1 fo)"
  using queue_step.pop_token [of "one_slot 1 0 b st e 0 0 fo"] by (simp add: one_slot_def)

lemma one_slot_pop: "queue_step (one_slot 0 0 [x] 0 e 0 1 fo) (Popped [x]) (one_slot 0 1 [x] 1 e 0 0 fo)"
  using queue_step.pop [of "one_slot 0 0 [x] 0 e 0 1 fo" "[x]"]
  by (simp add: one_slot_def pop_critical_def read_item_def increment_def)

lemma one_slot_full: "queue_step (one_slot 1 0 b st e 0 0 0) Internal (one_slot 1 0 b st e 0 0 1)"
  using queue_step.force_full [of "one_slot 1 0 b st e 0 0 0"] by (simp add: one_slot_def)

lemma one_slot_force: "queue_step (one_slot 0 1 [c] st 1 0 0 1) (Forced [x]) (one_slot 0 1 [x] st 1 0 0 0)"
  using queue_step.force [of "one_slot 0 1 [c] st 1 0 0 1" "[x]"]
  by (simp add: one_slot_def force_critical_def write_item_def decrement_def)

theorem queue_fifo_witness:
  "\<exists>q'. fifo_run unforced_step (one_slot 0 1 [0] 0 0 0 0 0) [[5]] [[5]] q' \<and>
     [[5]] = [[5]] @ contents q' \<and> length (contents q') \<le> 1"
proof -
  let ?run = "fifo_run unforced_step (one_slot 0 1 [0] 0 0 0 0 0)"
  have "?run [] [] (one_slot 0 0 [0] 0 0 1 0 0)"
    using fifo_run.snoc [OF fifo_run.none [of unforced_step], of _ "[]" "[]"] one_slot_push_token
    by (fastforce simp: unforced_step_def)
  from fifo_run.snoc [OF this, of "[[5]]" "[]"] one_slot_push
  have "?run [[5]] [] (one_slot 1 0 [5] 0 1 0 0 0)" by (fastforce simp: unforced_step_def)
  from fifo_run.snoc [OF this, of "[]" "[]"] one_slot_pop_token
  have "?run [[5]] [] (one_slot 0 0 [5] 0 1 0 1 0)" by (fastforce simp: unforced_step_def)
  from fifo_run.snoc [OF this, of "[]" "[[5]]"] one_slot_pop
  have run: "?run [[5]] [[5]] (one_slot 0 1 [5] 1 1 0 0 0)" by (fastforce simp: unforced_step_def)
  from queue_fifo [OF one_slot_create this] run show ?thesis by blast
qed

theorem queue_calls_witness:
  "\<exists>q'. queuePush (one_slot 0 1 [0] 0 0 0 0 0) [5] 0 False = Inr (Done (), q') \<and> queue_inv q' \<and>
     contents q' = [[5]]"
proof -
  let ?q = "one_slot 0 1 [0] 0 0 0 0 0"
  have q: "queue_inv ?q" "contents ?q = []" using queue_inv_create [OF one_slot_create] by auto
  have "idle ?q" "length [5 :: u8] = item_size ?q" "length (contents ?q) < item_length ?q"
    using q(2) by (simp_all add: idle_def one_slot_def del: contents_length)
  with queue_calls [OF q(1), of "[5]" 0] q(2) show ?thesis
    by (simp del: contents_length One_nat_def)
qed

inductive queue_run :: "queue_t \<Rightarrow> queue_event list \<Rightarrow> queue_t \<Rightarrow> bool" where
  none: "queue_run q [] q"
| step: "queue_step q e q' \<Longrightarrow> queue_run q' es q'' \<Longrightarrow> queue_run q (e # es) q''"

text \<open>
  A forced push is not one atomic step: when the queue is full at its test and another
  task empties it before the critical section, the item overwrites a slot that is no longer in use
  and is lost, although the call reports success. One run of a queue of length one does so.
\<close>

theorem queue_force_race:
  "\<exists>q es q'. queueCreate 1 1 = Some q \<and> queue_run q es q' \<and>
     filter (\<lambda>e. e \<noteq> Internal) es = [Pushed [5], Popped [5], Forced [9]] \<and>
     idle q' \<and> contents q' = [] \<and> queuePop q' 0 = Inr (Timed_Out, q')"
proof -
  let ?es = "[Internal, Pushed [5], Internal, Internal, Popped [5], Forced [9]]"
  have "queue_run (one_slot 0 1 [0] 0 0 0 0 0) ?es (one_slot 0 1 [9] 1 1 0 0 0)"
    by (rule queue_run.step [OF one_slot_push_token queue_run.step [OF one_slot_push
          queue_run.step [OF one_slot_full queue_run.step [OF one_slot_pop_token
          queue_run.step [OF one_slot_pop queue_run.step [OF one_slot_force queue_run.none]]]]]])
  then show ?thesis
    using one_slot_create
    by (intro exI [of _ "one_slot 0 1 [0] 0 0 0 0 0"] exI [of _ ?es] exI [of _ "one_slot 0 1 [9] 1 1 0 0 0"])
      (simp add: idle_def contents_def stored_def queuePop_def one_slot_def)
qed

end
