(* ===== verification/LL_Sort.thy ===== *)
theory LL_Sort
  imports Main "HOL-Library.Multiset"
begin

text \<open>
  The in-place list sort \<open>LLSORT\<close> of \<open>external/util/include/util/llsort.h\<close>, an iterative merge sort: one
  pass merges neighbouring runs of length \<open>insize\<close>, the passes double \<open>insize\<close> until one merge covered
  the list. A linked list is a HOL list, the pointers \<open>_p\<close> and \<open>_q\<close> with \<open>_psize\<close> and \<open>_qsize\<close> are the
  two runs. The counters, \<open>int\<close> in the code, are natural numbers: they do not wrap for a list that fits into memory
  of less than \<open>2 ^ 31\<close> elements. The sort is shown to be the stable sort by the accessor \<open>f\<close>.
\<close>

fun ll_merge :: "('a \<Rightarrow> 'k::linorder) \<Rightarrow> 'a list \<Rightarrow> 'a list \<Rightarrow> 'a list" where
  "ll_merge f [] q = q"
| "ll_merge f p [] = p"
| "ll_merge f (x # p) (y # q) =
     (if f x \<le> f y then x # ll_merge f p (y # q) else y # ll_merge f (x # p) q)"

text \<open>One pass, with the number of its merges.\<close>

function ll_pass :: "('a \<Rightarrow> 'k::linorder) \<Rightarrow> nat \<Rightarrow> 'a list \<Rightarrow> nat \<times> 'a list" where
  "ll_pass f insize xs =
     (if xs = [] \<or> insize = 0 then (0, xs)
      else let (nmerges, rest) = ll_pass f insize (drop (2 * insize) xs)
        in (Suc nmerges, ll_merge f (take insize xs) (take insize (drop insize xs)) @ rest))"
  by pat_completeness auto
termination by (relation "measure (\<lambda>(f, n, xs). length xs)") auto

declare ll_pass.simps [simp del]

lemma length_ll_merge [simp]: "length (ll_merge f p q) = length p + length q"
  by (induction f p q rule: ll_merge.induct) auto

lemma ll_pass_Nil [simp]: "ll_pass f n [] = (0, [])"
  by (simp add: ll_pass.simps)

lemma ll_pass_step:
  "xs \<noteq> [] \<Longrightarrow> 0 < n \<Longrightarrow> ll_pass f n xs =
     (Suc (fst (ll_pass f n (drop (2 * n) xs))),
      ll_merge f (take n xs) (take n (drop n xs)) @ snd (ll_pass f n (drop (2 * n) xs)))"
  by (simp add: ll_pass.simps [of f n xs] split_beta)

lemma ll_pass_0 [simp]: "ll_pass f 0 xs = (0, xs)"
  by (simp add: ll_pass.simps)

lemma length_ll_pass [simp]: "length (snd (ll_pass f n xs)) = length xs"
proof (induction f n xs rule: ll_pass.induct)
  case (1 f n xs)
  then show ?case by (cases "xs = [] \<or> n = 0") (auto simp: ll_pass_step)
qed

lemma ll_pass_count: "0 < n \<Longrightarrow> fst (ll_pass f n xs) \<le> 1 \<longleftrightarrow> length xs \<le> 2 * n"
  by (cases "xs = []"; cases "drop (2 * n) xs = []") (auto simp: ll_pass_step)

function llsort_loop :: "('a \<Rightarrow> 'k::linorder) \<Rightarrow> nat \<Rightarrow> 'a list \<Rightarrow> 'a list" where
  "llsort_loop f insize xs =
     (let (nmerges, ys) = ll_pass f insize xs in
      if nmerges \<le> 1 then ys else llsort_loop f (2 * insize) ys)"
  by pat_completeness auto
termination
proof (relation "measure (\<lambda>(f, n, xs). length xs - n)", goal_cases)
  case (2 f n xs r m ys)
  then have p: "ll_pass f n xs = (m, ys)" "\<not> m \<le> 1" by auto
  then have "0 < n" by (cases n) auto
  then have "length xs > 2 * n" using p ll_pass_count [of n f xs] by (metis fst_conv not_le)
  moreover have "length ys = length xs" using p by (metis length_ll_pass snd_conv)
  ultimately show ?case using \<open>0 < n\<close> by simp
qed simp

declare llsort_loop.simps [simp del]

definition LLSORT :: "('a \<Rightarrow> 'k::linorder) \<Rightarrow> 'a list \<Rightarrow> 'a list" where
  "LLSORT f head = (if head = [] then head else llsort_loop f 1 head)"

section \<open>Runs\<close>

text \<open>The runs of length \<open>n\<close> of a list are sorted.\<close>

definition runs_sorted :: "('a \<Rightarrow> 'k::linorder) \<Rightarrow> nat \<Rightarrow> 'a list \<Rightarrow> bool" where
  "runs_sorted f n xs \<longleftrightarrow> (\<forall>i. sorted (map f (take n (drop (i * n) xs))))"

lemma set_ll_merge [simp]: "set (ll_merge f p q) = set p \<union> set q"
  by (induction f p q rule: ll_merge.induct) auto

lemma mset_ll_merge [simp]: "mset (ll_merge f p q) = mset p + mset q"
  by (induction f p q rule: ll_merge.induct) auto

lemma sorted_ll_merge:
  "sorted (map f p) \<Longrightarrow> sorted (map f q) \<Longrightarrow> sorted (map f (ll_merge f p q))"
  by (induction f p q rule: ll_merge.induct) auto

lemma filter_ll_merge:
  "sorted (map f p) \<Longrightarrow> sorted (map f q) \<Longrightarrow>
     filter (\<lambda>x. k = f x) (ll_merge f p q) = filter (\<lambda>x. k = f x) p @ filter (\<lambda>x. k = f x) q"
proof (induction f p q rule: ll_merge.induct)
  case (3 f x p y q)
  show ?case
  proof (cases "f x \<le> f y \<or> k \<noteq> f y")
    case False
    then have "filter (\<lambda>z. k = f z) (x # p) = []"
      using 3(3) by (auto simp: filter_empty_conv)
    with 3 False show ?thesis by auto
  qed (use 3 in auto)
qed simp_all

lemma runs_sorted_1: "runs_sorted f 1 xs"
proof -
  have "sorted (map f (take 1 ys))" for ys by (cases ys) auto
  then show ?thesis by (simp add: runs_sorted_def)
qed

lemma runs_sorted_drop: "runs_sorted f n xs \<Longrightarrow> runs_sorted f n (drop (j * n) xs)"
  by (auto simp: runs_sorted_def add.commute simp flip: add_mult_distrib)

lemma runs_sorted_take: "runs_sorted f n xs \<Longrightarrow> sorted (map f (take n xs))"
  unfolding runs_sorted_def by (metis drop0 mult_0)

lemma runs_sorted_whole: "runs_sorted f n xs \<Longrightarrow> length xs \<le> n \<Longrightarrow> sorted (map f xs)"
  using runs_sorted_take by fastforce

lemma ll_pass_ok:
  assumes "0 < n" and "runs_sorted f n xs"
  shows "mset (snd (ll_pass f n xs)) = mset xs"
    and "filter (\<lambda>x. k = f x) (snd (ll_pass f n xs)) = filter (\<lambda>x. k = f x) xs"
    and "runs_sorted f (2 * n) (snd (ll_pass f n xs))"
proof -
  have "mset (snd (ll_pass f n xs)) = mset xs \<and>
    filter (\<lambda>x. k = f x) (snd (ll_pass f n xs)) = filter (\<lambda>x. k = f x) xs \<and>
    runs_sorted f (2 * n) (snd (ll_pass f n xs))"
    using assms
  proof (induction f n xs rule: ll_pass.induct)
    case (1 f n xs)
    show ?case
    proof (cases "xs = []")
      case True
      then show ?thesis by (simp add: runs_sorted_def)
    next
      case False
      let ?p = "take n xs" and ?q = "take n (drop n xs)" and ?r = "drop (2 * n) xs"
      have s: "sorted (map f ?p)" "sorted (map f ?q)"
        using runs_sorted_take [OF 1(3)] runs_sorted_take [OF runs_sorted_drop [OF 1(3), of 1]] by simp_all
      have IH: "mset (snd (ll_pass f n ?r)) = mset ?r"
        "filter (\<lambda>x. k = f x) (snd (ll_pass f n ?r)) = filter (\<lambda>x. k = f x) ?r"
        "runs_sorted f (2 * n) (snd (ll_pass f n ?r))"
        using 1(1) [OF _ 1(2) runs_sorted_drop [OF 1(3), of 2]] False 1(2) by auto
      have xs: "xs = ?p @ ?q @ ?r" 
        by (metis append_take_drop_id drop_drop mult_2)
      let ?m = "ll_merge f ?p ?q"
      have "mset xs = mset ?p + mset ?q + mset ?r" by (metis xs mset_append add.assoc)
      moreover have "filter (\<lambda>x. k = f x) xs =
          filter (\<lambda>x. k = f x) ?p @ filter (\<lambda>x. k = f x) ?q @ filter (\<lambda>x. k = f x) ?r"
        by (metis xs filter_append)
      moreover have "runs_sorted f (2 * n) (?m @ snd (ll_pass f n ?r))"
      proof (unfold runs_sorted_def, rule allI)
        fix i
        let ?l = "?m @ snd (ll_pass f n ?r)"
        show "sorted (map f (take (2 * n) (drop (i * (2 * n)) ?l)))"
        proof (cases "length xs \<le> 2 * n")
          case True
          then have "?l = ?m" by simp
          with sorted_ll_merge [OF s] show ?thesis
            by (metis sorted_wrt_drop sorted_wrt_take drop_map take_map)
        next
          case False
          then have m: "length ?m = 2 * n" by auto
          show ?thesis
          proof (cases i)
            case 0
            then show ?thesis using sorted_ll_merge [OF s] m by simp
          next
            case (Suc j)
            then have "drop (i * (2 * n)) ?l = drop (j * (2 * n)) (snd (ll_pass f n ?r))"
              using m by simp
            with IH(3) show ?thesis by (simp add: runs_sorted_def)
          qed
        qed
      qed
      ultimately show ?thesis
        using IH(1,2) False 1(2) filter_ll_merge [OF s, of k] by (simp add: ll_pass_step)
    qed
  qed
  then show "mset (snd (ll_pass f n xs)) = mset xs"
    "filter (\<lambda>x. k = f x) (snd (ll_pass f n xs)) = filter (\<lambda>x. k = f x) xs"
    "runs_sorted f (2 * n) (snd (ll_pass f n xs))" by auto
qed

lemma llsort_loop_ok:
  "0 < n \<Longrightarrow> runs_sorted f n xs \<Longrightarrow> llsort_loop f n xs = sort_key f xs"
proof (induction f n xs rule: llsort_loop.induct)
  case (1 f n xs)
  let ?ys = "snd (ll_pass f n xs)"
  note ok = ll_pass_ok [OF 1(2,3)]
  have "filter (\<lambda>x. k = f x) (sort_key f ?ys) = filter (\<lambda>x. k = f x) ?ys" for k
    using sort_key_stable [of f k ?ys] by (simp add: eq_commute [of _ k])
  then have same: "sort_key f xs = sort_key f ?ys"
    using ok(1,2) by (intro properties_for_sort_key) simp_all
  show ?case
  proof (cases "fst (ll_pass f n xs) \<le> 1")
    case True
    then have "sorted (map f ?ys)"
      using ok(3) 1(2) ll_pass_count [of n f xs] by (intro runs_sorted_whole [of f "2 * n"]) auto
    then have "sort_key f xs = ?ys" by (simp add: same sort_key_id_if_sorted)
    with True show ?thesis by (simp add: llsort_loop.simps [of f n xs] split_beta)
  next
    case False
    then have "llsort_loop f n xs = llsort_loop f (2 * n) ?ys"
      by (simp add: llsort_loop.simps [of f n xs] split_beta)
    also have "\<dots> = sort_key f ?ys"
      using False ok(3) 1(2) by (intro 1(1) [OF refl prod.collapse]) simp_all
    finally show ?thesis using same by simp
  qed
qed

text \<open>
  C35 (equivalence). The iterative merge sort terminates on every list and returns the stable sort of
  the list by the accessor.
\<close>

theorem llsort_is_stable_sort: "LLSORT f xs = sort_key f xs"
  using llsort_loop_ok [of 1 f xs] runs_sorted_1 [of f xs] by (auto simp: LLSORT_def)

end
