(* ===== verification/Node.thy ===== *)
theory Node
  imports Complex_Main Bundle LL_Sort
begin

text \<open>
  Nodes, contacts and their lists: \<open>components/upcn/node.c\<close> and \<open>include/upcn/node.h\<close>. Contacts are shared
  between the lists of the program, so they live in a heap of contacts and a list holds their
  addresses. An endpoint list holds each string with its address, since the code compares and orders
  the strings of a list by their addresses. Time stamps are unsigned 64-bit seconds, capacities 32-bit
  words; those declared \<open>int32_t\<close> are read with \<open>sint\<close>.
\<close>

section \<open>Data\<close>

type_synonym endpoint_list = "(addr \<times> string) list"

record routed_bundle =
  rb_id :: bundleid_t
  rb_destination :: string
  preemption_improvement :: u8
  prio :: bundle_routing_priority
  rb_size :: u32
  exp_time :: u64
  rb_contacts :: "addr list"
  contact_count :: u8
  serialized :: u8
  transmitted :: u8

record contact =
  contact_node :: addr
  from_time :: u64
  to_time :: u64
  bitrate :: u32
  total_capacity :: u32
  remaining_capacity_p0 :: u32
  remaining_capacity_p1 :: u32
  remaining_capacity_p2 :: u32
  contact_endpoints :: endpoint_list
  contact_bundles :: "addr list"
  bundle_count :: u8
  active :: bool

type_synonym contact_heap = "addr \<Rightarrow> contact option"
type_synonym contact_list = "addr list"

record node_t =
  node_eid :: "string option"
  cla_addr :: "string option"
  node_flags :: u32
  trustworthiness :: rat
  reliability :: rat
  endpoints :: endpoint_list
  node_contacts :: contact_list

abbreviation (input) "UINT32_MAX \<equiv> (0xFFFFFFFF :: u64)"
abbreviation (input) "INT32_MAX \<equiv> (0x7FFFFFFF :: u64)"

definition CONTACT_CAPACITY :: "contact \<Rightarrow> nat \<Rightarrow> u32" where
  "CONTACT_CAPACITY c p =
     (if p = 1 then remaining_capacity_p1 c
      else if p = 2 then remaining_capacity_p2 c else remaining_capacity_p0 c)"

definition deref_contact :: "contact_heap \<Rightarrow> addr \<Rightarrow> contact outcome" where
  "deref_contact H a = (case H a of None \<Rightarrow> Inl Use_After_Free | Some c \<Rightarrow> Inr c)"

section \<open>Creation and release\<close>

definition node_create :: "alloc_trace \<Rightarrow> string option \<Rightarrow> node_t option \<times> alloc_trace" where
  "node_create m eid = (case malloc m of
       (None, m1) \<Rightarrow> (None, m1)
     | (Some _, m1) \<Rightarrow> (let (e, m2) = strdup m1 eid in
         (Some \<lparr>node_eid = e, cla_addr = None, node_flags = 0, trustworthiness = 1, reliability = 1,
            endpoints = [], node_contacts = []\<rparr>, m2)))"

definition contact_create ::
  "alloc_trace \<Rightarrow> addr \<Rightarrow> contact_heap \<Rightarrow> addr option \<times> contact_heap \<times> alloc_trace" where
  "contact_create m nd H = (case malloc m of
       (None, m1) \<Rightarrow> (None, H, m1)
     | (Some a, m1) \<Rightarrow> (Some a, H(a \<mapsto>
         \<lparr>contact_node = nd, from_time = 0, to_time = 0, bitrate = 0, total_capacity = 0,
          remaining_capacity_p0 = 0, remaining_capacity_p1 = 0, remaining_capacity_p2 = 0,
          contact_endpoints = [], contact_bundles = [], bundle_count = 0, active = False\<rparr>), m1))"

text \<open>Only inactive contacts may be released; their lists go with them.\<close>

definition free_contact_internal :: "contact_heap \<Rightarrow> addr \<Rightarrow> contact_heap outcome" where
  "free_contact_internal H a =
     obind (deref_contact H a) (\<lambda>c. c_assert (\<not> active c) (Inr (H(a := None))))"

fun free_contacts :: "contact_heap \<Rightarrow> contact_list \<Rightarrow> contact_heap outcome" where
  "free_contacts H [] = Inr H"
| "free_contacts H (a # as) = obind (free_contact_internal H a) (\<lambda>H'. free_contacts H' as)"

definition free_node :: "contact_heap \<Rightarrow> node_t \<Rightarrow> contact_heap outcome" where
  "free_node H nd = free_contacts H (node_contacts nd)"

section \<open>Endpoint lists\<close>

text \<open>
  The scan of \<open>endpoint_list_add\<close>: \<open>None\<close> when the string is in the list already, otherwise the
  position before the first entry with a greater address, or the end.
\<close>

fun endpoint_scan :: "addr \<Rightarrow> string \<Rightarrow> nat \<Rightarrow> nat option \<Rightarrow> endpoint_list \<Rightarrow> nat option" where
  "endpoint_scan p e i target_pos [] = Some (case target_pos of None \<Rightarrow> i | Some j \<Rightarrow> j)"
| "endpoint_scan p e i target_pos ((q, s) # l) =
     (if q = p \<or> s = e then None
      else endpoint_scan p e (Suc i) (if q > p \<and> target_pos = None then Some i else target_pos) l)"

definition endpoint_list_add ::
  "alloc_trace \<Rightarrow> endpoint_list \<Rightarrow> addr \<times> string \<Rightarrow> bool \<times> endpoint_list \<times> alloc_trace" where
  "endpoint_list_add m l pe = (case endpoint_scan (fst pe) (snd pe) 0 None l of
       None \<Rightarrow> (False, l, m)
     | Some j \<Rightarrow> (case malloc m of
           (None, m1) \<Rightarrow> (False, l, m1)
         | (Some _, m1) \<Rightarrow> (True, take j l @ pe # drop j l, m1)))"

fun endpoint_list_remove :: "endpoint_list \<Rightarrow> string \<Rightarrow> bool \<times> endpoint_list" where
  "endpoint_list_remove [] e = (False, [])"
| "endpoint_list_remove ((q, s) # l) e =
     (if s = e then (True, l)
      else let (r, l') = endpoint_list_remove l e in (r, (q, s) # l'))"

fun endpoint_list_sorted_from :: "addr \<Rightarrow> endpoint_list \<Rightarrow> bool" where
  "endpoint_list_sorted_from last_eid [] = True"
| "endpoint_list_sorted_from last_eid ((q, s) # l) =
     (if q < last_eid then False else endpoint_list_sorted_from q l)"

definition endpoint_list_sorted :: "endpoint_list \<Rightarrow> bool" where
  "endpoint_list_sorted l = endpoint_list_sorted_from 0 l"

fun endpoint_list_union ::
  "alloc_trace \<Rightarrow> endpoint_list \<Rightarrow> endpoint_list \<Rightarrow> endpoint_list \<times> alloc_trace" where
  "endpoint_list_union m a [] = (a, m)"
| "endpoint_list_union m a (e # b) =
     (let (r, a', m') = endpoint_list_add m a e in endpoint_list_union m' a' b)"

fun endpoint_list_difference :: "endpoint_list \<Rightarrow> endpoint_list \<Rightarrow> endpoint_list" where
  "endpoint_list_difference a [] = a"
| "endpoint_list_difference a (e # b) =
     endpoint_list_difference (snd (endpoint_list_remove a (snd e))) b"

text \<open>Every later entry with the same string is removed, then the list is sorted by address.\<close>

function strip_duplicates :: "endpoint_list \<Rightarrow> endpoint_list" where
  "strip_duplicates [] = []"
| "strip_duplicates (e # l) = e # strip_duplicates (filter (\<lambda>i. snd i \<noteq> snd e) l)"
  by pat_completeness auto
termination by (relation "measure length") (auto simp: less_Suc_eq_le)

definition endpoint_list_strip_and_sort :: "endpoint_list \<Rightarrow> endpoint_list" where
  "endpoint_list_strip_and_sort el = LLSORT fst (strip_duplicates el)"

section \<open>Contact capacities\<close>

text \<open>
  \<open>capacity_difference\<close> is the 64-bit difference to the sign-extended old total, truncated to 32
  bits; it is added to the three remaining capacities.
\<close>

definition recalculate_contact_capacity :: "contact \<Rightarrow> contact" where
  "recalculate_contact_capacity c =
     (let duration = to_time c - from_time c;
          duration = (if duration > UINT32_MAX then UINT32_MAX else duration);
          new_capacity = duration * ucast (bitrate c);
          new_capacity = (if new_capacity > INT32_MAX then INT32_MAX else new_capacity);
          capacity_difference = (ucast (new_capacity - scast (total_capacity c)) :: u32)
      in c\<lparr>total_capacity := ucast new_capacity,
           remaining_capacity_p0 := remaining_capacity_p0 c + capacity_difference,
           remaining_capacity_p1 := remaining_capacity_p1 c + capacity_difference,
           remaining_capacity_p2 := remaining_capacity_p2 c + capacity_difference\<rparr>)"

text \<open>The result is an \<open>int32_t\<close>; \<open>now\<close> is the current time. The division is reached only with a
  positive divisor.\<close>

definition contact_get_cur_remaining_capacity :: "u64 \<Rightarrow> contact \<Rightarrow> nat \<Rightarrow> u32" where
  "contact_get_cur_remaining_capacity now c p =
     (if now \<ge> to_time c then 0
      else if now \<le> from_time c then CONTACT_CAPACITY c p
      else let cap_left = ucast (total_capacity c) * (to_time c - now) div (to_time c - from_time c);
               cap_left = (if cap_left > INT32_MAX then INT32_MAX else cap_left);
               cap_result = (ucast cap_left :: u32)
        in if sint (CONTACT_CAPACITY c p) < sint cap_result then CONTACT_CAPACITY c p else cap_result)"

section \<open>Contact lists\<close>

definition contact_key :: "bool \<Rightarrow> contact \<Rightarrow> u64" where
  "contact_key order_by_from c = (if order_by_from then from_time c else to_time c)"

fun contact_list_sorted_from :: "contact_heap \<Rightarrow> bool \<Rightarrow> u64 \<Rightarrow> contact_list \<Rightarrow> bool outcome" where
  "contact_list_sorted_from H by_from prev [] = Inr True"
| "contact_list_sorted_from H by_from prev (a # cl) =
     obind (deref_contact H a) (\<lambda>c.
       if contact_key by_from c < prev then Inr False
       else contact_list_sorted_from H by_from (contact_key by_from c) cl)"

definition contact_list_sorted :: "contact_heap \<Rightarrow> contact_list \<Rightarrow> bool \<Rightarrow> bool outcome" where
  "contact_list_sorted H cl order_by_from = contact_list_sorted_from H order_by_from 0 cl"

text \<open>The state the list operations thread: heap, allocator and the optional output list \<open>modified\<close>.\<close>

record list_state =
  contacts_of :: contact_heap
  memory :: alloc_trace
  modified :: "contact_list option"
  deleted :: "contact_list option"

definition add_to_modified_list :: "addr \<Rightarrow> list_state \<Rightarrow> list_state" where
  "add_to_modified_list c S = (case modified S of
       None \<Rightarrow> S
     | Some l \<Rightarrow> (case malloc (memory S) of
           (None, m) \<Rightarrow> S\<lparr>memory := m\<rparr>
         | (Some _, m) \<Rightarrow> S\<lparr>memory := m, modified := Some (c # l)\<rparr>))"

text \<open>The endpoints of \<open>new\<close> are handed over to \<open>old\<close>; the result tells whether the capacity changed.\<close>

definition merge_contacts :: "addr \<Rightarrow> addr \<Rightarrow> list_state \<Rightarrow> (bool \<times> list_state) outcome" where
  "merge_contacts old new S =
     obind (deref_contact (contacts_of S) old) (\<lambda>co.
     obind (deref_contact (contacts_of S) new) (\<lambda>cn.
       let (eps, m) = endpoint_list_union (memory S) (contact_endpoints co) (contact_endpoints cn);
           co1 = co\<lparr>contact_endpoints := eps\<rparr>;
           co2 = (if bitrate co \<noteq> bitrate cn
                  then recalculate_contact_capacity (co1\<lparr>bitrate := bitrate cn\<rparr>) else co1)
       in Inr (bitrate co \<noteq> bitrate cn,
               S\<lparr>contacts_of := (contacts_of S)(old \<mapsto> co2), memory := m\<rparr>)))"

text \<open>
  The two nested loops of \<open>contact_list_union\<close>, with the current slot at the head of \<open>a\<close> and the
  current candidate at the head of \<open>b\<close>: an earlier candidate is put before the slot, one that starts
  at the same time is merged (when it also ends at the same time) and released, a later one ends the
  inner loop. The result is the list from the current slot on.
\<close>

fun union_loop :: "contact_list \<Rightarrow> contact_list \<Rightarrow> list_state \<Rightarrow> (contact_list \<times> list_state) outcome" where
  "union_loop [] b S = Inr (b, S)"
| "union_loop (s # a) [] S = obind (union_loop a [] S) (\<lambda>(r, S'). Inr (s # r, S'))"
| "union_loop (s # a) (c # b) S =
     obind (deref_contact (contacts_of S) s) (\<lambda>cs.
     obind (deref_contact (contacts_of S) c) (\<lambda>cc.
       if from_time cc < from_time cs
       then obind (union_loop (s # a) b S) (\<lambda>(r, S'). Inr (c # r, S'))
       else if from_time cc = from_time cs
       then obind (if to_time cc = to_time cs
                   then obind (merge_contacts s c S) (\<lambda>(md, S1).
                          Inr (if md then add_to_modified_list s S1 else S1))
                   else Inr S) (\<lambda>S2.
            obind (free_contact_internal (contacts_of S2) c) (\<lambda>H.
              union_loop (s # a) b (S2\<lparr>contacts_of := H\<rparr>)))
       else obind (union_loop a (c # b) S) (\<lambda>(r, S'). Inr (s # r, S'))))"

definition contact_list_union ::
  "contact_list \<Rightarrow> contact_list \<Rightarrow> list_state \<Rightarrow> (contact_list \<times> list_state) outcome" where
  "contact_list_union a b S =
     obind (contact_list_sorted (contacts_of S) a True) (\<lambda>sa. c_assert sa
     (obind (contact_list_sorted (contacts_of S) b True) (\<lambda>sb. c_assert sb
       (if a = [] then Inr (b, S) else if b = [] then Inr (a, S) else union_loop a b S))))"

definition release_candidate :: "bool \<Rightarrow> addr \<Rightarrow> list_state \<Rightarrow> list_state outcome" where
  "release_candidate free_b c S =
     (if free_b
      then obind (free_contact_internal (contacts_of S) c) (\<lambda>H. Inr (S\<lparr>contacts_of := H\<rparr>))
      else Inr S)"

text \<open>Taking the contact of the slot out of the list, as \<open>contact_list_difference\<close> does it.\<close>

definition unlink_contact :: "addr \<Rightarrow> contact \<Rightarrow> list_state \<Rightarrow> list_state outcome" where
  "unlink_contact s cs S = (case deleted S of
       Some l \<Rightarrow> Inr (S\<lparr>deleted := Some (s # l)\<rparr>)
     | None \<Rightarrow> if active cs then Inr S
         else obind (free_contact_internal (contacts_of S) s) (\<lambda>H. Inr (S\<lparr>contacts_of := H\<rparr>)))"

fun difference_loop ::
  "bool \<Rightarrow> contact_list \<Rightarrow> contact_list \<Rightarrow> list_state \<Rightarrow> (contact_list \<times> list_state) outcome" where
  "difference_loop free_b [] b S = Inr ([], S)"
| "difference_loop free_b (s # a) [] S = Inr (s # a, S)"
| "difference_loop free_b (s # a) (c # b) S =
     obind (deref_contact (contacts_of S) s) (\<lambda>cs.
     obind (deref_contact (contacts_of S) c) (\<lambda>cc.
       if from_time cc \<le> from_time cs
       then (if from_time cc = from_time cs \<and> to_time cc = to_time cs
             then (if contact_endpoints cc = []
                   then obind (unlink_contact s cs S) (\<lambda>S1.
                        obind (release_candidate free_b c S1) (\<lambda>S2.
                          difference_loop free_b a b S2))
                   else let S1 = add_to_modified_list s (S\<lparr>contacts_of := (contacts_of S)(s \<mapsto>
                                   cs\<lparr>contact_endpoints := endpoint_list_difference
                                        (contact_endpoints cs) (contact_endpoints cc)\<rparr>)\<rparr>)
                     in obind (release_candidate free_b c S1) (\<lambda>S2.
                        obind (difference_loop free_b a b S2) (\<lambda>(r, S3). Inr (s # r, S3))))
             else obind (release_candidate free_b c S) (\<lambda>S2. difference_loop free_b (s # a) b S2))
       else obind (difference_loop free_b a (c # b) S) (\<lambda>(r, S'). Inr (s # r, S'))))"

definition contact_list_difference ::
  "contact_list \<Rightarrow> contact_list \<Rightarrow> bool \<Rightarrow> list_state \<Rightarrow> (contact_list \<times> list_state) outcome" where
  "contact_list_difference a b free_b S =
     obind (contact_list_sorted (contacts_of S) a True) (\<lambda>sa. c_assert sa
     (obind (contact_list_sorted (contacts_of S) b True) (\<lambda>sb. c_assert sb
       (if a = [] \<or> b = [] then Inr (a, S) else difference_loop free_b a b S))))"

definition contacts_overlap :: "contact \<Rightarrow> contact \<Rightarrow> bool" where
  "contacts_overlap a b \<longleftrightarrow>
     (from_time a \<ge> from_time b \<and> from_time a \<le> to_time b) \<or>
     (to_time a \<ge> from_time b \<and> to_time a \<le> to_time b)"

fun overlaps_any :: "contact_heap \<Rightarrow> contact \<Rightarrow> contact_list \<Rightarrow> bool outcome" where
  "overlaps_any H c [] = Inr False"
| "overlaps_any H c (i # l) =
     obind (deref_contact H i) (\<lambda>ci. if contacts_overlap c ci then Inr True else overlaps_any H c l)"

fun prepare_contacts :: "contact_heap \<Rightarrow> contact_list \<Rightarrow> (bool \<times> contact_heap) outcome" where
  "prepare_contacts H [] = Inr (True, H)"
| "prepare_contacts H (a # cl) =
     obind (deref_contact H a) (\<lambda>c.
       let c' = c\<lparr>contact_endpoints := endpoint_list_strip_and_sort (contact_endpoints c)\<rparr>;
           H' = H(a \<mapsto> c')
       in obind (overlaps_any H' c' cl) (\<lambda>ov.
            if ov then Inr (False, H') else prepare_contacts H' cl))"

definition heap_from :: "contact_heap \<Rightarrow> addr \<Rightarrow> u64" where
  "heap_from H a = (case H a of None \<Rightarrow> 0 | Some c \<Rightarrow> from_time c)"

definition node_prepare_and_verify ::
  "contact_heap \<Rightarrow> node_t \<Rightarrow> (bool \<times> contact_heap \<times> node_t) outcome" where
  "node_prepare_and_verify H nd =
     (if list_all (\<lambda>a. H a \<noteq> None) (node_contacts nd)
      then let cl = LLSORT (heap_from H) (node_contacts nd);
               nd' = nd\<lparr>node_contacts := cl, endpoints := endpoint_list_strip_and_sort (endpoints nd)\<rparr>
        in obind (prepare_contacts H cl) (\<lambda>(ok, H'). Inr (ok, H', nd'))
      else Inl Use_After_Free)"

text \<open>The scan of \<open>add_contact_to_ordered_list\<close>: \<open>None\<close> when the contact itself is met first.\<close>

fun ordered_position :: "contact_heap \<Rightarrow> bool \<Rightarrow> u64 \<Rightarrow> addr \<Rightarrow> contact_list \<Rightarrow> nat option outcome" where
  "ordered_position H by_from k a [] = Inr (Some 0)"
| "ordered_position H by_from k a (b # l) =
     (if b = a then Inr None
      else obind (deref_contact H b) (\<lambda>c.
        if contact_key by_from c > k then Inr (Some 0)
        else obind (ordered_position H by_from k a l) (\<lambda>p. Inr (map_option Suc p))))"

definition add_contact_to_ordered_list ::
  "alloc_trace \<Rightarrow> contact_heap \<Rightarrow> contact_list \<Rightarrow> addr \<Rightarrow> bool \<Rightarrow>
   (bool \<times> contact_list \<times> alloc_trace) outcome" where
  "add_contact_to_ordered_list m H l a by_from =
     obind (deref_contact H a) (\<lambda>c.
     obind (ordered_position H by_from (contact_key by_from c) a l) (\<lambda>pos. case pos of
         None \<Rightarrow> Inr (False, l, m)
       | Some j \<Rightarrow> (case malloc m of
             (None, m1) \<Rightarrow> Inr (False, l, m1)
           | (Some _, m1) \<Rightarrow> Inr (True, take j l @ a # drop j l, m1))))"

fun remove_contact_from_list :: "contact_list \<Rightarrow> addr \<Rightarrow> bool \<times> contact_list" where
  "remove_contact_from_list [] a = (False, [])"
| "remove_contact_from_list (b # l) a =
     (if b = a then (True, l)
      else let (r, l') = remove_contact_from_list l a in (r, b # l'))"

type_synonym assoc_list = "(addr \<times> rat) list"

definition add_contact_to_ordered_assoc_list ::
  "alloc_trace \<Rightarrow> contact_heap \<Rightarrow> assoc_list \<Rightarrow> addr \<Rightarrow> rat \<Rightarrow> bool \<Rightarrow>
   (bool \<times> assoc_list \<times> alloc_trace) outcome" where
  "add_contact_to_ordered_assoc_list m H l a p by_from =
     c_assert (p \<ge> 0 \<and> p \<le> 1)
      (obind (deref_contact H a) (\<lambda>c.
       obind (ordered_position H by_from (contact_key by_from c) a (map fst l)) (\<lambda>pos. case pos of
         None \<Rightarrow> Inr (False, l, m)
       | Some j \<Rightarrow> (case malloc m of
             (None, m1) \<Rightarrow> Inr (False, l, m1)
           | (Some _, m1) \<Rightarrow> Inr (True, take j l @ (a, p) # drop j l, m1)))))"

fun remove_contact_from_assoc_list :: "assoc_list \<Rightarrow> addr \<Rightarrow> bool \<times> assoc_list" where
  "remove_contact_from_assoc_list [] a = (False, [])"
| "remove_contact_from_assoc_list (b # l) a =
     (if fst b = a then (True, l)
      else let (r, l') = remove_contact_from_assoc_list l a in (r, b # l'))"

section \<open>Endpoint lists as sets of strings\<close>

lemma endpoint_scan_None: "endpoint_scan p e i t l = None \<longleftrightarrow> p \<in> fst ` set l \<or> e \<in> snd ` set l"
  by (induction p e i t l rule: endpoint_scan.induct) auto

lemma endpoint_scan_target:
  "endpoint_scan p e i (Some j) l = (if p \<in> fst ` set l \<or> e \<in> snd ` set l then None else Some j)"
proof (induction l arbitrary: i)
  case (Cons x l)
  then show ?case by (cases x) auto
qed simp

lemma endpoint_scan_Some:
  "endpoint_scan p e i None l = Some j \<Longrightarrow>
    i \<le> j \<and> j - i \<le> length l \<and> (\<forall>x \<in> set (take (j - i) l). fst x < p) \<and>
    (drop (j - i) l \<noteq> [] \<longrightarrow> p < fst (hd (drop (j - i) l)))"
proof (induction p e i "None :: nat option" l rule: endpoint_scan.induct)
  case (2 p e i q s l)
  then have ne: "q \<noteq> p" by (auto split: if_splits)
  show ?case
  proof (cases "q > p")
    case True
    with 2(2) show ?thesis by (auto simp: endpoint_scan_target split: if_splits)
  next
    case False
    with 2 have "Suc i \<le> j \<and> j - Suc i \<le> length l \<and> (\<forall>x \<in> set (take (j - Suc i) l). fst x < p) \<and>
      (drop (j - Suc i) l \<noteq> [] \<longrightarrow> p < fst (hd (drop (j - Suc i) l)))"
      by (auto split: if_splits)
    moreover from this have "j - i = Suc (j - Suc i)" by auto
    ultimately show ?thesis using False ne by auto
  qed
qed simp

lemma endpoint_list_add_ok:
  assumes "endpoint_list_add (Some a # m) l (p, e) = (r, l', m')" and "p \<notin> fst ` set l"
    and "sorted_wrt (<) (map fst l)" and "distinct (map snd l)"
  shows "snd ` set l' = insert e (snd ` set l)" and "sorted_wrt (<) (map fst l')"
    and "distinct (map snd l')" and "fst ` set l' \<subseteq> insert p (fst ` set l)"
    and "m' = m \<or> m' = Some a # m"
proof -
  have *: "snd ` set l' = insert e (snd ` set l) \<and> sorted_wrt (<) (map fst l') \<and> distinct (map snd l') \<and>
    fst ` set l' \<subseteq> insert p (fst ` set l) \<and> (m' = m \<or> m' = Some a # m)"
  proof (cases "endpoint_scan p e 0 None l")
    case None
    with assms show ?thesis by (auto simp: endpoint_list_add_def endpoint_scan_None)
  next
    case (Some j)
    have e: "e \<notin> snd ` set l" using Some endpoint_scan_None [of p e 0 None l] by simp
    let ?xs = "take j l" and ?ys = "drop j l"
    have l: "set l = set ?xs \<union> set ?ys" by (metis append_take_drop_id set_append)
    have b: "\<forall>x \<in> set ?xs. fst x < p" "?ys \<noteq> [] \<longrightarrow> p < fst (hd ?ys)"
      using endpoint_scan_Some [OF Some] by auto
    have s: "sorted_wrt (<) (map fst ?xs)" "sorted_wrt (<) (map fst ?ys)"
        "\<forall>x \<in> set ?xs. \<forall>y \<in> set ?ys. fst x < fst y"
      using assms(3) sorted_wrt_append [of "(<)" "map fst ?xs" "map fst ?ys"]
      by (auto simp flip: map_append)
    have "\<forall>y \<in> set ?ys. p < fst y"
      using b(2) s(2) by (cases ?ys) (auto intro: less_trans)
    moreover have "distinct (map snd ?xs)" "distinct (map snd ?ys)" "snd ` set ?xs \<inter> snd ` set ?ys = {}"
      using assms(4) distinct_append [of "map snd ?xs" "map snd ?ys"] by (auto simp flip: map_append)
    moreover have "l' = ?xs @ (p, e) # ?ys" "m' = m"
      using assms(1) Some by (auto simp: endpoint_list_add_def)
    ultimately show ?thesis
      using b(1) s e by (auto simp: l sorted_wrt_append image_Un)
  qed
  show "snd ` set l' = insert e (snd ` set l)" "sorted_wrt (<) (map fst l')"
    "distinct (map snd l')" "fst ` set l' \<subseteq> insert p (fst ` set l)" "m' = m \<or> m' = Some a # m"
    using * by blast+
qed

lemma endpoint_list_union_ok:
  assumes "length b \<le> length ms"
    and "sorted_wrt (<) (map fst a)" and "distinct (map snd a)"
    and "distinct (map fst b)" and "fst ` set a \<inter> fst ` set b = {}"
  shows "case endpoint_list_union (map Some ms) a b of (u, m') \<Rightarrow>
     snd ` set u = snd ` set a \<union> snd ` set b \<and> sorted_wrt (<) (map fst u) \<and> distinct (map snd u)"
  using assms
proof (induction b arbitrary: a ms)
  case (Cons e b)
  obtain p s where e: "e = (p, s)" by force
  obtain x ms' where ms: "ms = x # ms'" using Cons.prems(1) by (cases ms) auto
  obtain r a' m' where add: "endpoint_list_add (Some x # map Some ms') a (p, s) = (r, a', m')"
    by (metis prod_cases3)
  note ok = endpoint_list_add_ok [OF add]
  have p: "p \<notin> fst ` set a" using Cons.prems(5) e by auto
  obtain ns where ns: "m' = map Some ns" "length b \<le> length ns"
    using ok(5) [OF p Cons.prems(2,3)] Cons.prems(1) ms
    by (metis Suc_le_mono le_SucI length_Cons list.simps(9))
  have "fst ` set a' \<inter> fst ` set b = {}"
  proof -
    have "p \<notin> fst ` set b" "fst ` set a \<inter> fst ` set b = {}" using Cons.prems(4,5) e by auto
    with ok(4) [OF p Cons.prems(2,3)] show ?thesis by blast
  qed
  from Cons.IH [OF ns(2) ok(2) [OF p Cons.prems(2,3)] ok(3) [OF p Cons.prems(2,3)] _ this]
  show ?case
    using ok(1) [OF p Cons.prems(2,3)] Cons.prems(4) add ns(1) e ms by (auto split: prod.splits)
qed simp

lemma endpoint_list_remove_ok:
  assumes "distinct (map snd l)"
  shows "snd (endpoint_list_remove l e) = filter (\<lambda>x. snd x \<noteq> e) l"
  using assms
proof (induction l e rule: endpoint_list_remove.induct)
  case (2 q s l e)
  have "filter (\<lambda>x. snd x \<noteq> s) l = l" if "distinct (map snd ((q, s) # l))"
    using that by (auto simp: filter_id_conv)
  with 2 show ?case by (auto split: prod.splits)
qed simp

lemma endpoint_list_difference_ok:
  "distinct (map snd a) \<Longrightarrow>
    endpoint_list_difference a b = filter (\<lambda>x. snd x \<notin> snd ` set b) a"
proof (induction b arbitrary: a)
  case (Cons e b)
  have "distinct (map snd (filter (\<lambda>x. snd x \<noteq> snd e) a))"
    using Cons.prems by (simp add: distinct_map_filter)
  with Cons show ?case
    by (auto simp: endpoint_list_remove_ok intro!: filter_cong)
qed simp

lemma strip_duplicates_ok:
  "snd ` set (strip_duplicates l) = snd ` set l \<and> distinct (map snd (strip_duplicates l)) \<and>
    set (strip_duplicates l) \<subseteq> set l"
  by (induction l rule: strip_duplicates.induct) auto

section \<open>Capacities\<close>

lemma ucast_diff_down: "(ucast (a - b :: u64) :: u32) = ucast a - ucast b"
proof -
  have "take_bit 32 (take_bit 64 x - take_bit 64 y) = take_bit 32 (x - y :: int)" for x y
  proof -
    have "take_bit 32 (take_bit 64 x - take_bit 64 y) =
        take_bit 32 (take_bit 32 (take_bit 64 x) - take_bit 32 (take_bit 64 y))"
      by (simp only: take_bit_diff)
    also have "\<dots> = take_bit 32 (take_bit 32 x - take_bit 32 y)" by simp
    also have "\<dots> = take_bit 32 (x - y)" by (rule take_bit_diff)
    finally show ?thesis .
  qed
  then show ?thesis by transfer simp
qed

lemma ucast_scast_u32: "(ucast (scast (t :: u32) :: u64) :: u32) = t"
  by (intro bit_eqI) (auto simp: bit_simps)

lemma unat_u64_mult:
  "unat (x :: u64) * unat y < 2 ^ 64 \<Longrightarrow> unat (x * y) = unat x * unat y"
  by (simp add: unat_word_ariths)

lemma unat_ucast_u32_u64 [simp]: "unat (ucast (x :: u32) :: u64) = unat x"
  using unsigned_less [of x, where ?'a = nat]
  by (simp add: unsigned_ucast_eq take_bit_nat_eq_self)

lemma unat_ucast_u64_u32: "unat x < 2 ^ 32 \<Longrightarrow> unat (ucast (x :: u64) :: u32) = unat x"
  by (simp add: unsigned_ucast_eq take_bit_nat_eq_self)

lemma sint_ucast_small:
  assumes "unat (x :: u64) < 2 ^ 31"
  shows "sint (ucast x :: u32) = int (unat x)"
proof -
  have u: "uint x = int (unat x)" by simp
  have "uint x < 2 ^ 31" using assms unfolding u by (metis of_nat_less_iff of_nat_numeral of_nat_power)
  moreover have "- (2 ^ 31) \<le> uint x" by (rule order_trans [of _ 0]) simp_all
  ultimately have "take_bit 32 (uint x) = uint x" "signed_take_bit 31 (uint x) = uint x"
    by (auto intro!: take_bit_int_eq_self signed_take_bit_int_eq_self)
  moreover have "sint (ucast x :: u32) = signed_take_bit 31 (take_bit 32 (uint x))"
    by (simp add: sint_uint unsigned_ucast_eq)
  ultimately show ?thesis by (simp only: u)
qed

lemma unat_if_min: "unat (if x > y then y else x) = min (unat x) (unat (y :: 'a::len word))"
  by (auto simp: word_less_nat_alt min_def)

lemma recalc_total:
  "unat (total_capacity (recalculate_contact_capacity c)) =
     min (min (unat (to_time c - from_time c)) (2 ^ 32 - 1) * unat (bitrate c)) (2 ^ 31 - 1)"
proof -
  let ?d = "if to_time c - from_time c > UINT32_MAX then UINT32_MAX else to_time c - from_time c"
  let ?n = "?d * ucast (bitrate c)"
  have d: "unat ?d = min (unat (to_time c - from_time c)) (2 ^ 32 - 1)" by (simp add: unat_if_min)
  have "unat (bitrate c) < 2 ^ 32" using unsigned_less [of "bitrate c", where ?'a = nat] by simp
  then have "unat ?d * unat (bitrate c) \<le> (2 ^ 32 - 1) * (2 ^ 32 - 1)"
    unfolding d by (intro mult_le_mono) auto
  then have n: "unat ?n = unat ?d * unat (bitrate c)"
    using unat_u64_mult [of ?d "ucast (bitrate c)"] by simp
  have "unat (if ?n > INT32_MAX then INT32_MAX else ?n) = min (unat ?n) (2 ^ 31 - 1)"
    by (simp add: unat_if_min)
  then have "unat (ucast (if ?n > INT32_MAX then INT32_MAX else ?n) :: u32) = min (unat ?n) (2 ^ 31 - 1)"
    by (subst unat_ucast_u64_u32) auto
  then show ?thesis unfolding n d by (simp add: recalculate_contact_capacity_def Let_def)
qed

lemma recalc_booked:
  "total_capacity (recalculate_contact_capacity c) - CONTACT_CAPACITY (recalculate_contact_capacity c) p =
     total_capacity c - CONTACT_CAPACITY c p"
  by (simp add: recalculate_contact_capacity_def Let_def CONTACT_CAPACITY_def ucast_diff_down ucast_scast_u32)

section \<open>Union and difference of contact lists\<close>

definition live_at :: "contact_heap \<Rightarrow> addr \<Rightarrow> bool" where
  "live_at H x \<longleftrightarrow> H x \<noteq> None"

definition heap_to :: "contact_heap \<Rightarrow> addr \<Rightarrow> u64" where
  "heap_to H a = (case H a of None \<Rightarrow> 0 | Some c \<Rightarrow> to_time c)"

definition heap_active :: "contact_heap \<Rightarrow> addr \<Rightarrow> bool" where
  "heap_active H a = (case H a of None \<Rightarrow> False | Some c \<Rightarrow> active c)"

lemma sorted_from_ok:
  "list_all (live_at H) cl \<Longrightarrow>
     contact_list_sorted_from H True k cl = Inr (sorted (k # map (heap_from H) cl))"
proof (induction cl arbitrary: k)
  case (Cons a cl)
  then obtain c where c: "H a = Some c" "heap_from H a = from_time c"
    by (auto simp: live_at_def heap_from_def)
  have "sorted (k # map (heap_from H) (a # cl)) \<longleftrightarrow>
      k \<le> from_time c \<and> sorted (from_time c # map (heap_from H) cl)"
    using c(2) by (simp only: list.map sorted2)
  moreover have "contact_list_sorted_from H True k (a # cl) = (if from_time c < k then Inr False
      else Inr (sorted (from_time c # map (heap_from H) cl)))"
    using Cons c by (simp add: deref_contact_def contact_key_def)
  ultimately show ?case by (cases "from_time c < k") (metis leD, metis leI)
qed simp

lemma contact_list_sorted_ok:
  "list_all (live_at H) cl \<Longrightarrow> contact_list_sorted H cl True = Inr (sorted (map (heap_from H) cl))"
  by (simp add: contact_list_sorted_def sorted_from_ok)

text \<open>The list the union returns, in terms of the start times \<open>F\<close>.\<close>

fun union_spec :: "(addr \<Rightarrow> u64) \<Rightarrow> contact_list \<Rightarrow> contact_list \<Rightarrow> contact_list" where
  "union_spec F [] b = b"
| "union_spec F (s # a) [] = s # a"
| "union_spec F (s # a) (c # b) =
     (if F c < F s then c # union_spec F (s # a) b
      else if F c = F s then union_spec F (s # a) b
      else s # union_spec F a (c # b))"

text \<open>The times and activity of the contacts of a list are as in the reference heap.\<close>

definition same_times :: "contact_heap \<Rightarrow> contact_heap \<Rightarrow> addr set \<Rightarrow> bool" where
  "same_times H0 H X \<longleftrightarrow> (\<forall>x \<in> X. live_at H x \<and> heap_from H x = heap_from H0 x \<and>
     heap_to H x = heap_to H0 x \<and> heap_active H x = heap_active H0 x)"

lemma same_times_subset: "same_times H0 H X \<Longrightarrow> Y \<subseteq> X \<Longrightarrow> same_times H0 H Y"
  by (auto simp: same_times_def)

lemma same_timesE:
  assumes "same_times H0 H X" and "x \<in> X"
  obtains c where "H x = Some c" "from_time c = heap_from H0 x" "to_time c = heap_to H0 x"
    "active c = heap_active H0 x"
proof -
  have x: "live_at H x" "heap_from H x = heap_from H0 x" "heap_to H x = heap_to H0 x"
      "heap_active H x = heap_active H0 x"
    using assms by (auto simp: same_times_def)
  then obtain c where "H x = Some c" by (auto simp: live_at_def)
  with x show thesis by (intro that [of c]) (simp_all add: heap_from_def heap_to_def heap_active_def)
qed

lemma recalc_times [simp]:
  "from_time (recalculate_contact_capacity c) = from_time c"
  "to_time (recalculate_contact_capacity c) = to_time c"
  "active (recalculate_contact_capacity c) = active c"
  by (simp_all add: recalculate_contact_capacity_def Let_def)

lemma add_to_modified_heap [simp]: "contacts_of (add_to_modified_list c S) = contacts_of S"
  by (auto simp: add_to_modified_list_def split: option.splits prod.splits)

lemma same_times_update:
  assumes "same_times H0 H X" and "H s = Some cs" and "from_time c = from_time cs"
    and "to_time c = to_time cs" and "active c = active cs"
  shows "same_times H0 (H(s \<mapsto> c)) X"
  unfolding same_times_def
proof
  fix x assume "x \<in> X"
  then obtain d where "H x = Some d" "from_time d = heap_from H0 x" "to_time d = heap_to H0 x"
      "active d = heap_active H0 x"
    using same_timesE [OF assms(1)] by metis
  with assms(2-5) show "live_at (H(s \<mapsto> c)) x \<and> heap_from (H(s \<mapsto> c)) x = heap_from H0 x \<and>
      heap_to (H(s \<mapsto> c)) x = heap_to H0 x \<and> heap_active (H(s \<mapsto> c)) x = heap_active H0 x"
    by (cases "x = s") (auto simp: live_at_def heap_from_def [of "H(s \<mapsto> c)"] heap_to_def [of "H(s \<mapsto> c)"]
        heap_active_def [of "H(s \<mapsto> c)"])
qed

lemma merge_contacts_ok:
  assumes "same_times H0 (contacts_of S) X" and "s \<in> X" and "c \<in> X"
  shows "\<exists>md S'. merge_contacts s c S = Inr (md, S') \<and> same_times H0 (contacts_of S') X \<and>
    (\<forall>x. x \<noteq> s \<longrightarrow> contacts_of S' x = contacts_of S x)"
proof -
  obtain cs where cs: "contacts_of S s = Some cs" using same_timesE [OF assms(1,2)] by metis
  obtain cc where cc: "contacts_of S c = Some cc" using same_timesE [OF assms(1,3)] by metis
  obtain eps m where u: "endpoint_list_union (memory S) (contact_endpoints cs) (contact_endpoints cc) = (eps, m)"
    by force
  let ?c1 = "cs\<lparr>contact_endpoints := eps\<rparr>"
  let ?c2 = "if bitrate cs \<noteq> bitrate cc
      then recalculate_contact_capacity (?c1\<lparr>bitrate := bitrate cc\<rparr>) else ?c1"
  have "merge_contacts s c S = Inr (bitrate cs \<noteq> bitrate cc,
      S\<lparr>contacts_of := (contacts_of S)(s \<mapsto> ?c2), memory := m\<rparr>)"
    by (simp add: merge_contacts_def deref_contact_def cs cc u)
  moreover have "same_times H0 ((contacts_of S)(s \<mapsto> ?c2)) X"
    by (rule same_times_update [OF assms(1) cs]) simp_all
  ultimately show ?thesis by auto
qed

lemma free_contact_ok:
  assumes "same_times H0 H X" and "c \<in> X" and "\<not> heap_active H0 c"
  shows "free_contact_internal H c = Inr (H(c := None))" and "same_times H0 (H(c := None)) (X - {c})"
proof -
  obtain cc where "H c = Some cc" "\<not> active cc" using same_timesE [OF assms(1,2)] assms(3) by metis
  then show "free_contact_internal H c = Inr (H(c := None))"
    by (simp add: free_contact_internal_def deref_contact_def)
  show "same_times H0 (H(c := None)) (X - {c})"
    using assms(1) by (auto simp: same_times_def live_at_def heap_from_def heap_to_def heap_active_def)
qed

lemma same_times_frame:
  assumes "same_times H0 H (insert x X)" and "same_times H0 H' Y" and "H' x = H x"
  shows "same_times H0 H' (insert x Y)"
  using assms by (auto simp: same_times_def live_at_def heap_from_def heap_to_def heap_active_def)

lemma union_merge_step:
  assumes "same_times H0 (contacts_of S) X" and "s \<in> X" and "c \<in> X"
  shows "\<exists>S'. (if t then obind (merge_contacts s c S) (\<lambda>(md, S1).
                          Inr (if md then add_to_modified_list s S1 else S1)) else Inr S) = Inr S' \<and>
    same_times H0 (contacts_of S') X \<and> (\<forall>x. x \<noteq> s \<longrightarrow> contacts_of S' x = contacts_of S x)"
proof (cases t)
  case True
  obtain md S1 where "merge_contacts s c S = Inr (md, S1)" "same_times H0 (contacts_of S1) X"
      "\<forall>x. x \<noteq> s \<longrightarrow> contacts_of S1 x = contacts_of S x"
    using merge_contacts_ok [OF assms] by blast
  with True show ?thesis by (cases md) auto
qed (use assms in simp)

lemma union_loop_ok:
  assumes "same_times H0 (contacts_of S) (set a \<union> set b)" and "distinct (a @ b)"
    and "list_all (\<lambda>c. \<not> heap_active H0 c) b"
  shows "\<exists>S'. union_loop a b S = Inr (union_spec (heap_from H0) a b, S') \<and>
    same_times H0 (contacts_of S') (set (union_spec (heap_from H0) a b)) \<and>
    (\<forall>x. x \<notin> set a \<union> set b \<longrightarrow> contacts_of S' x = contacts_of S x) \<and>
    (\<forall>x \<in> set b. x \<notin> set (union_spec (heap_from H0) a b) \<longrightarrow> contacts_of S' x = None)"
  using assms
proof (induction a b S rule: union_loop.induct)
  case (2 s a S)
  have "union_loop a [] S = Inr (a, S)" for a S by (induction a) auto
  with 2 show ?case by auto
next
  case (3 s a c b S)
  let ?F = "heap_from H0"
  obtain cs where cs: "contacts_of S s = Some cs" "from_time cs = ?F s"
    using same_timesE [OF 3(4), of s] by auto
  obtain cc where cc: "contacts_of S c = Some cc" "from_time cc = ?F c"
    using same_timesE [OF 3(4), of c] by auto
  have d: "deref_contact (contacts_of S) s = Inr cs" "deref_contact (contacts_of S) c = Inr cc"
    using cs cc by (simp_all add: deref_contact_def)
  consider (before) "?F c < ?F s" | (same) "?F c = ?F s" | (later) "?F s < ?F c"
    by (metis linorder_less_linear)
  then show ?case
  proof cases
    case before
    have "same_times H0 (contacts_of S) (set (s # a) \<union> set b)"
      using 3(4) by (rule same_times_subset) auto
    from 3(1) [OF _ this, of cc cs] before cs cc 3(5,6) obtain S' where
      S': "union_loop (s # a) b S = Inr (union_spec ?F (s # a) b, S')"
        "same_times H0 (contacts_of S') (set (union_spec ?F (s # a) b))"
        "\<forall>x. x \<notin> set (s # a) \<union> set b \<longrightarrow> contacts_of S' x = contacts_of S x"
        "\<forall>x \<in> set b. x \<notin> set (union_spec ?F (s # a) b) \<longrightarrow> contacts_of S' x = None"
      by auto
    have "same_times H0 (contacts_of S') (insert c (set (union_spec ?F (s # a) b)))"
      using same_times_frame [OF _ S'(2), of "contacts_of S" c "{}"] same_times_subset [OF 3(4), of "{c}"]
        S'(3) 3(5) by auto
    with S' before cs cc d show ?thesis by auto
  next
    case same
    obtain S1 where S1: "(if to_time cc = to_time cs then obind (merge_contacts s c S) (\<lambda>(md, S1).
          Inr (if md then add_to_modified_list s S1 else S1)) else Inr S) = Inr S1"
        "same_times H0 (contacts_of S1) (set (s # a) \<union> set (c # b))"
        "\<forall>x. x \<noteq> s \<longrightarrow> contacts_of S1 x = contacts_of S x"
      using union_merge_step [OF 3(4), of s c] by auto
    note fr = free_contact_ok [OF S1(2), of c]
    have act: "\<not> heap_active H0 c" using 3(6) by simp
    let ?S2 = "S1\<lparr>contacts_of := (contacts_of S1)(c := None)\<rparr>"
    have "same_times H0 (contacts_of ?S2) (set (s # a) \<union> set b)"
      using fr(2) [OF _ act] 3(5) by (auto intro: same_times_subset)
    from 3(2) [OF _ _ this, of cc cs] same cs cc 3(5,6) obtain S' where
      S': "union_loop (s # a) b ?S2 = Inr (union_spec ?F (s # a) b, S')"
        "same_times H0 (contacts_of S') (set (union_spec ?F (s # a) b))"
        "\<forall>x. x \<notin> set (s # a) \<union> set b \<longrightarrow> contacts_of S' x = contacts_of ?S2 x"
        "\<forall>x \<in> set b. x \<notin> set (union_spec ?F (s # a) b) \<longrightarrow> contacts_of S' x = None"
      by auto
    have "union_loop (s # a) (c # b) S = union_loop (s # a) b ?S2"
      using same cs cc d S1(1) fr(1) [OF _ act] by simp
    moreover have "contacts_of S' c = None" using S'(3) 3(5) by simp
    ultimately show ?thesis using S' same S1(3) by auto
  next
    case later
    then have ne: "\<not> ?F c < ?F s" "?F c \<noteq> ?F s" by auto
    have "same_times H0 (contacts_of S) (set a \<union> set (c # b))"
      using 3(4) by (rule same_times_subset) auto
    from 3(3) [OF _ _ this, of cc cs] ne cs cc 3(5,6) obtain S' where
      S': "union_loop a (c # b) S = Inr (union_spec ?F a (c # b), S')"
        "same_times H0 (contacts_of S') (set (union_spec ?F a (c # b)))"
        "\<forall>x. x \<notin> set a \<union> set (c # b) \<longrightarrow> contacts_of S' x = contacts_of S x"
        "\<forall>x \<in> set (c # b). x \<notin> set (union_spec ?F a (c # b)) \<longrightarrow> contacts_of S' x = None"
      by auto
    have "same_times H0 (contacts_of S') (insert s (set (union_spec ?F a (c # b))))"
      using same_times_frame [OF _ S'(2), of "contacts_of S" s "{}"] same_times_subset [OF 3(4), of "{s}"]
        S'(3) 3(5) by auto
    with S' ne cs cc d show ?thesis by auto
  qed
qed auto

lemma union_spec_set:
  assumes "sorted (map F a)" and "sorted (map F b)"
  shows "set (union_spec F a b) = set a \<union> {c \<in> set b. F c \<notin> F ` set a}"
  using assms
proof (induction F a b rule: union_spec.induct)
  case (3 F s a c b)
  consider (before) "F c < F s" | (same) "F c = F s" | (later) "F s < F c"
    by (metis linorder_less_linear)
  then show ?case
  proof cases
    case before
    then have "F c \<notin> F ` set (s # a)" using 3(4) by fastforce
    with 3 before show ?thesis by auto
  next
    case same
    with 3 show ?thesis by auto
  next
    case later
    then have ne: "\<not> F c < F s" "F c \<noteq> F s" by auto
    have "\<And>x. x \<in> set (c # b) \<Longrightarrow> F x \<noteq> F s" using later 3(5) by fastforce
    with 3 ne show ?thesis by auto
  qed
qed auto

lemma union_spec_sorted:
  "sorted (map F a) \<Longrightarrow> sorted (map F b) \<Longrightarrow> sorted (map F (union_spec F a b))"
proof (induction F a b rule: union_spec.induct)
  case (3 F s a c b)
  consider (before) "F c < F s" | (same) "F c = F s" | (later) "F s < F c"
    by (metis linorder_less_linear)
  then show ?case
  proof cases
    case before
    have "\<forall>x \<in> set (union_spec F (s # a) b). F c \<le> F x"
      using before 3(4,5) union_spec_set [of F "s # a" b] by fastforce
    with 3 before show ?thesis by auto
  next
    case same
    with 3 show ?thesis by auto
  next
    case later
    then have ne: "\<not> F c < F s" "F c \<noteq> F s" by auto
    have "\<forall>x \<in> set (union_spec F a (c # b)). F s \<le> F x"
      using later 3(4,5) union_spec_set [of F a "c # b"] by fastforce
    with 3 ne show ?thesis by auto
  qed
qed auto

lemma same_times_refl: "list_all (live_at H) l \<Longrightarrow> same_times H H (set l)"
  by (auto simp: same_times_def list_all_iff)

section \<open>Ordered insertion\<close>

lemma ordered_position_absent:
  assumes "list_all (live_at H) l" and "a \<notin> set l" and "sorted (map (heap_from H) l)"
  shows "\<exists>j. ordered_position H True k a l = Inr (Some j) \<and> j \<le> length l \<and>
    (\<forall>x \<in> set (take j l). heap_from H x \<le> k) \<and> (\<forall>x \<in> set (drop j l). k < heap_from H x)"
  using assms
proof (induction l)
  case (Cons b l)
  obtain c where c: "H b = Some c" "from_time c = heap_from H b"
    using Cons.prems(1) by (auto simp: live_at_def heap_from_def)
  show ?case
  proof (cases "heap_from H b > k")
    case True
    with c Cons.prems show ?thesis
      by (intro exI [of _ 0]) (fastforce simp: deref_contact_def contact_key_def)
  next
    case False
    from Cons obtain j where "ordered_position H True k a l = Inr (Some j)" "j \<le> length l"
        "\<forall>x \<in> set (take j l). heap_from H x \<le> k" "\<forall>x \<in> set (drop j l). k < heap_from H x" by auto
    with c False Cons.prems show ?thesis
      by (intro exI [of _ "Suc j"]) (auto simp: deref_contact_def contact_key_def)
  qed
qed simp

lemma ordered_position_present:
  assumes "list_all (live_at H) l" and "a \<in> set l" and "sorted (map (heap_from H) l)"
  shows "ordered_position H True (heap_from H a) a l = Inr None"
  using assms
proof (induction l)
  case (Cons b l)
  obtain c where c: "H b = Some c" "from_time c = heap_from H b"
    using Cons.prems(1) by (auto simp: live_at_def heap_from_def)
  show ?case
  proof (cases "b = a")
    case False
    then have "a \<in> set l" using Cons.prems(2) by simp
    then have "heap_from H b \<le> heap_from H a" using Cons.prems(3) by simp
    with c False Cons show ?thesis by (auto simp: deref_contact_def contact_key_def)
  qed simp
qed simp

lemma remove_contact_split: "a \<notin> set xs \<Longrightarrow> remove_contact_from_list (xs @ a # ys) a = (True, xs @ ys)"
  by (induction xs) auto

section \<open>Difference\<close>

definition heap_eps :: "contact_heap \<Rightarrow> addr \<Rightarrow> endpoint_list" where
  "heap_eps H a = (case H a of None \<Rightarrow> [] | Some c \<Rightarrow> contact_endpoints c)"

text \<open>A contact the second list names for deletion: same times, and no endpoints listed.\<close>

definition named_for_removal :: "contact_heap \<Rightarrow> contact_list \<Rightarrow> addr \<Rightarrow> bool" where
  "named_for_removal H b s \<longleftrightarrow>
     (\<exists>c \<in> set b. heap_from H c = heap_from H s \<and> heap_to H c = heap_to H s \<and> heap_eps H c = [])"

definition strictly_sorted :: "contact_heap \<Rightarrow> contact_list \<Rightarrow> bool" where
  "strictly_sorted H l \<longleftrightarrow> sorted_wrt (<) (map (heap_from H) l)"

lemma unlink_contact_ok:
  assumes "contacts_of S s = Some cs"
  shows "\<exists>S'. unlink_contact s cs S = Inr S' \<and>
    deleted S' = map_option ((#) s) (deleted S) \<and> (\<forall>x. x \<noteq> s \<longrightarrow> contacts_of S' x = contacts_of S x)"
  using assms
  by (auto simp: unlink_contact_def free_contact_internal_def deref_contact_def split: option.splits)

lemma release_candidate_ok:
  assumes "contacts_of S c = Some cc" and "free_b \<longrightarrow> \<not> active cc"
  shows "\<exists>S'. release_candidate free_b c S = Inr S' \<and> deleted S' = deleted S \<and>
    (\<forall>x. x \<noteq> c \<longrightarrow> contacts_of S' x = contacts_of S x)"
  using assms by (auto simp: release_candidate_def free_contact_internal_def deref_contact_def)

lemma add_to_modified_deleted [simp]: "deleted (add_to_modified_list c S) = deleted S"
  by (auto simp: add_to_modified_list_def split: option.splits prod.splits)

lemma strict_tail:
  "strictly_sorted H (c # b) \<Longrightarrow> x \<in> set b \<Longrightarrow> heap_from H c < heap_from H x"
  by (simp add: strictly_sorted_def)

lemma named_Cons_other:
  "heap_from H c \<noteq> heap_from H s \<or> heap_to H c \<noteq> heap_to H s \<or> heap_eps H c \<noteq> [] \<Longrightarrow>
    named_for_removal H (c # b) s = named_for_removal H b s"
  by (auto simp: named_for_removal_def)

lemma not_named_later:
  "(\<And>x. x \<in> set b \<Longrightarrow> heap_from H s < heap_from H x) \<Longrightarrow> \<not> named_for_removal H b s"
  by (fastforce simp: named_for_removal_def)

lemma filter_named_Cons:
  assumes "\<And>x. x \<in> set a \<Longrightarrow> heap_from H c \<noteq> heap_from H x \<or> heap_to H c \<noteq> heap_to H x \<or> heap_eps H c \<noteq> []"
  shows "filter (\<lambda>x. P (named_for_removal H (c # b) x)) a = filter (\<lambda>x. P (named_for_removal H b x)) a"
  using assms by (intro filter_cong) (auto simp: named_Cons_other)

definition removed_list :: "contact_heap \<Rightarrow> contact_list \<Rightarrow> contact_list \<Rightarrow> contact_list \<Rightarrow> contact_list" where
  "removed_list H a b l = rev (filter (named_for_removal H b) a) @ l"

lemma difference_loop_ok:
  assumes "\<forall>x \<in> set a \<union> set b. contacts_of S x = H x \<and> H x \<noteq> None" and "distinct (a @ b)"
    and "strictly_sorted H a" and "strictly_sorted H b"
    and "free_b \<longrightarrow> list_all (\<lambda>c. \<not> heap_active H c) b"
  shows "\<exists>S'. difference_loop free_b a b S =
      Inr (filter (\<lambda>s. \<not> named_for_removal H b s) a, S') \<and>
    deleted S' = map_option (removed_list H a b) (deleted S)"
  using assms
proof (induction free_b a b S rule: difference_loop.induct)
  case (1 free_b b S)
  then show ?case by (cases "deleted S") (simp_all add: removed_list_def)
next
  case (2 free_b s a S)
  then show ?case by (cases "deleted S") (simp_all add: removed_list_def named_for_removal_def)
next
  case (3 free_b s a c b S)
  obtain cs where cs: "contacts_of S s = Some cs" "H s = Some cs" using 3(5) by auto
  obtain cc where cc: "contacts_of S c = Some cc" "H c = Some cc" using 3(5) by auto
  have t: "from_time cs = heap_from H s" "to_time cs = heap_to H s"
      "from_time cc = heap_from H c" "to_time cc = heap_to H c" "contact_endpoints cc = heap_eps H c"
      "active cc = heap_active H c"
    using cs cc by (simp_all add: heap_from_def heap_to_def heap_eps_def heap_active_def)
  have d: "deref_contact (contacts_of S) s = Inr cs" "deref_contact (contacts_of S) c = Inr cc"
    using cs cc by (simp_all add: deref_contact_def)
  have act: "free_b \<longrightarrow> \<not> active cc" using 3(9) t by simp
  have sa: "strictly_sorted H a" and sb: "strictly_sorted H b"
    using 3(7,8) by (auto simp: strictly_sorted_def)
  have la: "\<And>x. x \<in> set a \<Longrightarrow> heap_from H s < heap_from H x"
    and lb: "\<And>x. x \<in> set b \<Longrightarrow> heap_from H c < heap_from H x"
    using strict_tail 3(7,8) by blast+
  have actb: "free_b \<longrightarrow> list_all (\<lambda>c. \<not> heap_active H c) b" using 3(9) by simp
  consider (remove) "heap_from H c = heap_from H s" "heap_to H c = heap_to H s" "heap_eps H c = []"
    | (change) "heap_from H c = heap_from H s" "heap_to H c = heap_to H s" "heap_eps H c \<noteq> []"
    | (skip) "heap_from H c \<le> heap_from H s" "\<not> (heap_from H c = heap_from H s \<and> heap_to H c = heap_to H s)"
    | (later) "heap_from H s < heap_from H c"
    by (metis linorder_le_cases order.order_iff_strict)
  then show ?case
  proof cases
    case remove
    obtain S1 where S1: "unlink_contact s cs S = Inr S1" "deleted S1 = map_option ((#) s) (deleted S)"
        "\<forall>x. x \<noteq> s \<longrightarrow> contacts_of S1 x = contacts_of S x"
      using unlink_contact_ok [OF cs(1)] by blast
    obtain S2 where S2: "release_candidate free_b c S1 = Inr S2" "deleted S2 = deleted S1"
        "\<forall>x. x \<noteq> c \<longrightarrow> contacts_of S2 x = contacts_of S1 x"
      using release_candidate_ok [of S1 c cc free_b] S1(3) cc(1) act 3(6) by auto
    have "contacts_of S2 x = contacts_of S x" if "x \<in> set a \<union> set b" for x
    proof -
      have "x \<noteq> s" "x \<noteq> c" using that 3(6) by auto
      with S1(3) S2(3) show ?thesis by simp
    qed
    then have "\<forall>x \<in> set a \<union> set b. contacts_of S2 x = H x \<and> H x \<noteq> None"
      using 3(5) by simp
    from 3(1) [OF _ _ _ this _ sa sb actb, of cc cs] 3(6) t remove obtain S' where
      S': "difference_loop free_b a b S2 = Inr (filter (\<lambda>s. \<not> named_for_removal H b s) a, S')"
        "deleted S' = map_option (removed_list H a b) (deleted S2)" by auto
    have f: "filter (\<lambda>x. P (named_for_removal H (c # b) x)) a = filter (\<lambda>x. P (named_for_removal H b x)) a" for P
      using la remove by (intro filter_named_Cons) fastforce
    have n: "named_for_removal H (c # b) s" using remove by (auto simp: named_for_removal_def)
    have "difference_loop free_b (s # a) (c # b) S = difference_loop free_b a b S2"
      using d t remove S1(1) S2(1) by simp
    then show ?thesis
      using S' n f [of Not] f [of "\<lambda>x. x"] S1(2) S2(2)
      by (cases "deleted S") (simp_all add: removed_list_def)
  next
    case change
    let ?S1 = "add_to_modified_list s (S\<lparr>contacts_of := (contacts_of S)(s \<mapsto>
        cs\<lparr>contact_endpoints := endpoint_list_difference (contact_endpoints cs) (contact_endpoints cc)\<rparr>)\<rparr>)"
    obtain S2 where S2: "release_candidate free_b c ?S1 = Inr S2" "deleted S2 = deleted ?S1"
        "\<forall>x. x \<noteq> c \<longrightarrow> contacts_of S2 x = contacts_of ?S1 x"
      using release_candidate_ok [of ?S1 c cc free_b] cc(1) act 3(6) by auto
    have "contacts_of S2 x = contacts_of S x" if "x \<in> set a \<union> set b" for x
    proof -
      have "x \<noteq> s" "x \<noteq> c" using that 3(6) by auto
      with S2(3) show ?thesis by simp
    qed
    then have "\<forall>x \<in> set a \<union> set b. contacts_of S2 x = H x \<and> H x \<noteq> None"
      using 3(5) by simp
    from 3(2) [OF _ _ _ _ this _ sa sb actb, of cc cs] 3(6) t change obtain S' where
      S': "difference_loop free_b a b S2 = Inr (filter (\<lambda>s. \<not> named_for_removal H b s) a, S')"
        "deleted S' = map_option (removed_list H a b) (deleted S2)" by auto
    have f: "filter (\<lambda>x. P (named_for_removal H (c # b) x)) a = filter (\<lambda>x. P (named_for_removal H b x)) a" for P
      using change by (intro filter_named_Cons) simp
    have n: "\<not> named_for_removal H (c # b) s"
      using change lb not_named_later [of b H s] by (simp add: named_Cons_other)
    have "difference_loop free_b (s # a) (c # b) S =
        obind (difference_loop free_b a b S2) (\<lambda>(r, S3). Inr (s # r, S3))"
      using d t change S2(1) by simp
    then show ?thesis
      using S' n f [of Not] f [of "\<lambda>x. x"] S2(2) by (simp add: removed_list_def [abs_def])
  next
    case skip
    obtain S2 where S2: "release_candidate free_b c S = Inr S2" "deleted S2 = deleted S"
        "\<forall>x. x \<noteq> c \<longrightarrow> contacts_of S2 x = contacts_of S x"
      using release_candidate_ok [OF cc(1) act] by blast
    have "contacts_of S2 x = contacts_of S x" if "x \<in> set (s # a) \<union> set b" for x
    proof -
      have "x \<noteq> c" using that 3(6) by auto
      with S2(3) show ?thesis by simp
    qed
    then have "\<forall>x \<in> set (s # a) \<union> set b. contacts_of S2 x = H x \<and> H x \<noteq> None"
      using 3(5) by simp
    from 3(3) [OF _ _ this _ 3(7) sb actb, of cc cs] 3(6) t skip obtain S' where
      S': "difference_loop free_b (s # a) b S2 = Inr (filter (\<lambda>s. \<not> named_for_removal H b s) (s # a), S')"
        "deleted S' = map_option (removed_list H (s # a) b) (deleted S2)" by auto
    have f: "filter (\<lambda>x. P (named_for_removal H (c # b) x)) (s # a) =
        filter (\<lambda>x. P (named_for_removal H b x)) (s # a)" for P
      using skip la by (intro filter_named_Cons) fastforce
    have "difference_loop free_b (s # a) (c # b) S = difference_loop free_b (s # a) b S2"
      using d t skip S2(1) by auto
    then show ?thesis
      using S' f [of Not] f [of "\<lambda>x. x"] S2(2) by (simp add: removed_list_def [abs_def])
  next
    case later
    then have nle: "\<not> heap_from H c \<le> heap_from H s" by simp
    have "\<forall>x \<in> set a \<union> set (c # b). contacts_of S x = H x \<and> H x \<noteq> None"
      using 3(5) by auto
    from 3(4) [OF _ this _ sa 3(8,9), of cc cs] 3(6) t nle obtain S' where
      S': "difference_loop free_b a (c # b) S = Inr (filter (\<lambda>s. \<not> named_for_removal H (c # b) s) a, S')"
        "deleted S' = map_option (removed_list H a (c # b)) (deleted S)" by auto
    have n: "\<not> named_for_removal H (c # b) s"
      using later lb by (intro not_named_later) (auto intro: less_trans)
    have "difference_loop free_b (s # a) (c # b) S =
        obind (difference_loop free_b a (c # b) S) (\<lambda>(r, S3). Inr (s # r, S3))"
      using d t nle by simp
    then show ?thesis
      using S' n by (simp add: removed_list_def [abs_def])
  qed
qed

section \<open>Properties\<close>

text \<open>
  C12 (functional). The union of two contact lists sorted by start time, the second without active
  contacts, passes its assertions and returns a list sorted by start time that holds every contact of
  the first list and exactly those of the second whose start time does not occur in the first; all of
  them are still live and keep their times. Every contact of the second list that is not returned is released, and
  contacts of neither list are not touched.
\<close>

theorem contact_union_correct:
  assumes "list_all (live_at (contacts_of S)) (a @ b)" and "distinct (a @ b)"
    and "sorted (map (heap_from (contacts_of S)) a)" and "sorted (map (heap_from (contacts_of S)) b)"
    and "list_all (\<lambda>c. \<not> heap_active (contacts_of S) c) b"
  shows "\<exists>r S'. contact_list_union a b S = Inr (r, S') \<and>
    set r = set a \<union> {c \<in> set b. heap_from (contacts_of S) c \<notin> heap_from (contacts_of S) ` set a} \<and>
    sorted (map (heap_from (contacts_of S)) r) \<and>
    same_times (contacts_of S) (contacts_of S') (set r) \<and>
    (\<forall>c \<in> set b - set r. contacts_of S' c = None) \<and>
    (\<forall>c. c \<notin> set a \<union> set b \<longrightarrow> contacts_of S' c = contacts_of S c)"
proof -
  let ?H = "contacts_of S"
  have live: "list_all (live_at ?H) a" "list_all (live_at ?H) b" using assms(1) by auto
  have same: "same_times ?H ?H (set a \<union> set b)" using same_times_refl [OF assms(1)] by simp
  have c: "contact_list_union a b S =
      (if a = [] then Inr (b, S) else if b = [] then Inr (a, S) else union_loop a b S)"
    using assms(3,4) by (simp add: contact_list_union_def contact_list_sorted_ok [OF live(1)]
        contact_list_sorted_ok [OF live(2)])
  show ?thesis
  proof (cases "a = [] \<or> b = []")
    case True
    with c assms(3,4) same_times_subset [OF same] show ?thesis by auto
  next
    case False
    with union_loop_ok [OF same assms(2,5)] c union_spec_set [OF assms(3,4)]
      union_spec_sorted [OF assms(3,4)] show ?thesis by auto
  qed
qed

definition sample_contact :: "u64 \<Rightarrow> u64 \<Rightarrow> endpoint_list \<Rightarrow> contact" where
  "sample_contact f t eps = \<lparr>contact_node = 1, from_time = f, to_time = t, bitrate = 100,
     total_capacity = 0, remaining_capacity_p0 = 0, remaining_capacity_p1 = 0, remaining_capacity_p2 = 0,
     contact_endpoints = eps, contact_bundles = [], bundle_count = 0, active = False\<rparr>"

definition sample_lists :: list_state where
  "sample_lists = \<lparr>contacts_of = [1 \<mapsto> sample_contact 10 20 [], 2 \<mapsto> sample_contact 30 40 [],
     3 \<mapsto> sample_contact 15 18 [], 4 \<mapsto> sample_contact 30 40 []],
     memory = [], modified = Some [], deleted = Some []\<rparr>"

lemmas sample_lists_simps = sample_lists_def sample_contact_def live_at_def heap_from_def heap_to_def
  heap_active_def heap_eps_def strictly_sorted_def

theorem contact_union_correct_witness:
  "\<exists>r S'. contact_list_union [1, 2] [3, 4] sample_lists = Inr (r, S') \<and> set r = {1, 2, 3} \<and> contacts_of S' 4 = None"
proof -
  let ?H = "contacts_of sample_lists"
  have p: "list_all (live_at ?H) ([1, 2] @ [3, 4])" "distinct ([1, 2] @ [3, 4 :: addr])"
      "sorted (map (heap_from ?H) [1, 2])" "sorted (map (heap_from ?H) [3, 4])"
      "list_all (\<lambda>c. \<not> heap_active ?H c) [3, 4]"
    by (simp_all add: sample_lists_simps)
  have "set [1, 2] \<union> {c \<in> set [3, 4]. heap_from ?H c \<notin> heap_from ?H ` set [1, 2]} = {1, 2, 3}"
    by (auto simp: sample_lists_simps)
  with contact_union_correct [OF p] show ?thesis by auto
qed

text \<open>
  C34 (functional). The difference of two lists of contacts with strictly increasing start times removes
  exactly the contacts for which the second list has a contact with the same start and end and no
  endpoints, keeps the order of the others, and hands the removed ones to \<open>deleted\<close>, latest first.
\<close>

theorem contact_difference_correct:
  assumes "list_all (live_at (contacts_of S)) (a @ b)" and "distinct (a @ b)"
    and "strictly_sorted (contacts_of S) a" and "strictly_sorted (contacts_of S) b"
    and "free_b \<longrightarrow> list_all (\<lambda>c. \<not> heap_active (contacts_of S) c) b"
  shows "\<exists>S'. contact_list_difference a b free_b S =
      Inr (filter (\<lambda>s. \<not> named_for_removal (contacts_of S) b s) a, S') \<and>
    deleted S' = map_option (\<lambda>l. rev (filter (named_for_removal (contacts_of S) b) a) @ l) (deleted S)"
proof -
  let ?H = "contacts_of S"
  have live: "list_all (live_at ?H) a" "list_all (live_at ?H) b" using assms(1) by auto
  have "sorted (map (heap_from ?H) a)" "sorted (map (heap_from ?H) b)"
    using assms(3,4) by (simp_all add: strictly_sorted_def strict_sorted_imp_sorted)
  then have c: "contact_list_difference a b free_b S =
      (if a = [] \<or> b = [] then Inr (a, S) else difference_loop free_b a b S)"
    by (simp add: contact_list_difference_def contact_list_sorted_ok [OF live(1)]
        contact_list_sorted_ok [OF live(2)])
  have "\<forall>x \<in> set a \<union> set b. contacts_of S x = ?H x \<and> ?H x \<noteq> None"
    using assms(1) by (auto simp: list_all_iff live_at_def)
  note loop = difference_loop_ok [OF this assms(2-5)]
  show ?thesis
  proof (cases "a = [] \<or> b = []")
    case True
    with c show ?thesis by (cases "deleted S") (auto simp: named_for_removal_def)
  next
    case False
    with loop c show ?thesis by (simp add: removed_list_def [abs_def])
  qed
qed

theorem contact_difference_correct_witness:
  "\<exists>S'. contact_list_difference [1, 2] [3, 4] True sample_lists = Inr ([1], S') \<and> deleted S' = Some [2]"
proof -
  let ?H = "contacts_of sample_lists"
  have p: "list_all (live_at ?H) ([1, 2] @ [3, 4])" "distinct ([1, 2] @ [3, 4 :: addr])"
      "strictly_sorted ?H [1, 2]" "strictly_sorted ?H [3, 4]"
      "True \<longrightarrow> list_all (\<lambda>c. \<not> heap_active ?H c) [3, 4]"
    by (simp_all add: sample_lists_simps)
  have "\<not> named_for_removal ?H [3, 4] 1" "named_for_removal ?H [3, 4] 2" "deleted sample_lists = Some []"
    by (simp_all add: named_for_removal_def sample_lists_simps)
  with contact_difference_correct [OF p] show ?thesis by auto
qed

text \<open>
  Recomputing the capacity of a contact sets the total to duration times bit rate, with
  the duration clamped to 2^32 - 1 seconds and the product to 2^31 - 1 without any overflow in between,
  and leaves the amount already booked in each priority class as it was.
\<close>

theorem contact_capacity_recalculated:
  "unat (total_capacity (recalculate_contact_capacity c)) =
     min (min (unat (to_time c - from_time c)) (2 ^ 32 - 1) * unat (bitrate c)) (2 ^ 31 - 1) \<and>
   total_capacity (recalculate_contact_capacity c) - CONTACT_CAPACITY (recalculate_contact_capacity c) p =
     total_capacity c - CONTACT_CAPACITY c p"
  using recalc_total recalc_booked by blast

text \<open>
  While a contact of at most 2^32 - 1 seconds and 2^31 - 1 bytes is in progress, the
  remaining capacity is the smaller of the share of the total for the time left, rounded down, and the
  unbooked capacity of the priority class; the 64-bit product does not overflow.
\<close>

theorem contact_remaining_capacity:
  assumes "from_time c < now" and "now < to_time c"
    and "unat (to_time c - from_time c) < 2 ^ 32" and "unat (total_capacity c) < 2 ^ 31"
  shows "sint (contact_get_cur_remaining_capacity now c p) =
    min (int (unat (total_capacity c) * (unat (to_time c) - unat now) div
              (unat (to_time c) - unat (from_time c))))
        (sint (CONTACT_CAPACITY c p))"
proof -
  have s: "unat (to_time c - now) = unat (to_time c) - unat now"
      "unat (to_time c - from_time c) = unat (to_time c) - unat (from_time c)"
    using assms(1,2) by (simp_all add: unat_sub word_less_nat_alt word_le_nat_alt)
  let ?l = "unat (to_time c) - unat now" and ?d = "unat (to_time c) - unat (from_time c)"
  have lt: "?l < ?d" "?d < 2 ^ 32" using assms(1-3) s by (auto simp: word_less_nat_alt)
  have "unat (total_capacity c) * ?l < 2 ^ 31 * 2 ^ 32"
    using assms(4) lt by (intro mult_strict_mono) auto
  then have m: "unat (ucast (total_capacity c) * (to_time c - now)) = unat (total_capacity c) * ?l"
    by (subst unat_u64_mult) (simp_all add: s)
  let ?q = "ucast (total_capacity c) * (to_time c - now) div (to_time c - from_time c)"
  have q: "unat ?q = unat (total_capacity c) * ?l div ?d" by (simp add: unat_div m s)
  have "unat (total_capacity c) * ?l div ?d \<le> unat (total_capacity c)"
  proof -
    have "unat (total_capacity c) * ?l div ?d \<le> unat (total_capacity c) * ?d div ?d"
      using lt(1) by (intro div_le_mono mult_le_mono2) simp
    also have "\<dots> = unat (total_capacity c)" using lt(1) by simp
    finally show ?thesis .
  qed
  then have qb: "unat ?q < 2 ^ 31" using q assms(4) by simp
  then have "\<not> INT32_MAX < ?q" by (simp add: word_less_nat_alt)
  moreover have r: "sint (ucast ?q :: u32) = int (unat ?q)"
    using sint_ucast_small [OF qb] .
  moreover have "\<not> now \<ge> to_time c" "\<not> now \<le> from_time c" using assms(1,2) by auto
  ultimately show ?thesis
    unfolding q [symmetric] by (simp add: contact_get_cur_remaining_capacity_def Let_def min_def)
qed

theorem contact_remaining_capacity_witness:
  "sint (contact_get_cur_remaining_capacity 15
      ((sample_contact 10 20 [])\<lparr>total_capacity := 1000, remaining_capacity_p1 := 700\<rparr>) 1) = 500"
  using contact_remaining_capacity
    [of "(sample_contact 10 20 [])\<lparr>total_capacity := 1000, remaining_capacity_p1 := 700\<rparr>" 15 1]
  by (simp add: sample_contact_def CONTACT_CAPACITY_def)

text \<open>
  For contacts that do not end before they start, the overlap test is true exactly when
  the intervals share a point and the first does not strictly contain the second: a contact nested
  inside an earlier, longer one is not detected.
\<close>

theorem overlap_misses_nested:
  assumes "from_time a \<le> to_time a" and "from_time b \<le> to_time b"
  shows "contacts_overlap a b \<longleftrightarrow>
    (from_time a \<le> to_time b \<and> from_time b \<le> to_time a) \<and>
    \<not> (from_time a < from_time b \<and> to_time b < to_time a)"
proof -
  have "a1 \<le> a2 \<Longrightarrow> b1 \<le> b2 \<Longrightarrow> (b1 \<le> a1 \<and> a1 \<le> b2 \<or> b1 \<le> a2 \<and> a2 \<le> b2) =
      ((a1 \<le> b2 \<and> b1 \<le> a2) \<and> \<not> (a1 < b1 \<and> b2 < a2))" for a1 a2 b1 b2 :: nat
    by presburger
  with assms show ?thesis
    unfolding contacts_overlap_def word_le_nat_alt word_less_nat_alt by blast
qed

theorem overlap_misses_nested_witness:
  "\<not> contacts_overlap (sample_contact 10 20 []) (sample_contact 15 18 [])"
  using overlap_misses_nested [of "sample_contact 10 20 []" "sample_contact 15 18 []"]
  by (simp add: sample_contact_def)

text \<open>
  Inserting a contact into a list sorted by start time keeps it sorted and is undone
  by removing the contact; inserting a contact that is in the list already is refused and changes
  nothing.
\<close>

theorem ordered_insertion:
  assumes "list_all (live_at H) (a # l)" and "sorted (map (heap_from H) l)"
  shows "if a \<in> set l
    then add_contact_to_ordered_list (Some e # m) H l a True = Inr (False, l, Some e # m)
    else \<exists>l'. add_contact_to_ordered_list (Some e # m) H l a True = Inr (True, l', m) \<and>
      sorted (map (heap_from H) l') \<and> set l' = insert a (set l) \<and>
      remove_contact_from_list l' a = (True, l)"
proof -
  obtain c where c: "H a = Some c" "from_time c = heap_from H a"
    using assms(1) by (auto simp: live_at_def heap_from_def)
  show ?thesis
  proof (cases "a \<in> set l")
    case True
    then show ?thesis
      using ordered_position_present [of H l a] assms c
      by (simp add: add_contact_to_ordered_list_def deref_contact_def contact_key_def)
  next
    case False
    then obtain j where j: "ordered_position H True (heap_from H a) a l = Inr (Some j)"
        "\<forall>x \<in> set (take j l). heap_from H x \<le> heap_from H a"
        "\<forall>x \<in> set (drop j l). heap_from H a < heap_from H x"
      using ordered_position_absent [of H l a "heap_from H a"] assms by auto
    let ?l' = "take j l @ a # drop j l"
    have "sorted (map (heap_from H) (take j l) @ map (heap_from H) (drop j l))"
      using assms(2) by (simp flip: map_append)
    then have "sorted (map (heap_from H) ?l')" using j(2,3) by (auto simp: sorted_append)
    moreover have "set l = set (take j l) \<union> set (drop j l)" by (metis append_take_drop_id set_append)
    then have "set ?l' = insert a (set l)" by simp
    moreover have "remove_contact_from_list ?l' a = (True, l)"
      using remove_contact_split [of a "take j l" "drop j l"] False by (auto dest: in_set_takeD)
    moreover have "add_contact_to_ordered_list (Some e # m) H l a True = Inr (True, ?l', m)"
      using j(1) c by (simp add: add_contact_to_ordered_list_def deref_contact_def contact_key_def)
    ultimately show ?thesis using False by simp
  qed
qed

theorem ordered_insertion_witness:
  "\<exists>l'. add_contact_to_ordered_list [Some 9] (contacts_of sample_lists) [1, 2] 3 True = Inr (True, l', []) \<and>
     sorted (map (heap_from (contacts_of sample_lists)) l') \<and> set l' = insert 3 (set [1, 2]) \<and>
     remove_contact_from_list l' 3 = (True, [1, 2])"
  using ordered_insertion [of "contacts_of sample_lists" 3 "[1, 2]" 9 "[]"]
  by (simp add: sample_lists_simps)

text \<open>
  With memory for every new entry, the union of two endpoint lists, the first sorted by
  address and free of duplicate strings and the second with addresses of its own, has exactly the
  strings of the two, each once, and is sorted by address again; the difference keeps exactly the
  entries whose string is not in the second list.
\<close>

theorem endpoint_lists_as_sets:
  assumes "length b \<le> length ms" and "sorted_wrt (<) (map fst a)" and "distinct (map snd a)"
    and "distinct (map fst b)" and "fst ` set a \<inter> fst ` set b = {}"
  shows "(case endpoint_list_union (map Some ms) a b of (u, m') \<Rightarrow>
     snd ` set u = snd ` set a \<union> snd ` set b \<and> sorted_wrt (<) (map fst u) \<and> distinct (map snd u)) \<and>
    endpoint_list_difference a b = filter (\<lambda>x. snd x \<notin> snd ` set b) a"
  using endpoint_list_union_ok [OF assms] endpoint_list_difference_ok [OF assms(3), of b] by simp

theorem endpoint_lists_as_sets_witness:
  "snd ` set (fst (endpoint_list_union [Some 90, Some 91] [(5, ''a''), (8, ''b'')] [(6, ''b''), (7, ''c'')])) =
     {''a'', ''b'', ''c''} \<and>
   endpoint_list_difference [(5, ''a''), (8, ''b'')] [(6, ''b''), (7, ''c'')] = [(5, ''a'')]"
  using endpoint_lists_as_sets [of "[(6, ''b''), (7, ''c'')]" "[90, 91]" "[(5, ''a''), (8, ''b'')]"]
  by (auto split: prod.splits)

text \<open>
  Stripping and sorting an endpoint list returns its entries with the first occurrence
  of every string only, ordered by address.
\<close>

theorem strip_and_sort_correct:
  "snd ` set (endpoint_list_strip_and_sort l) = snd ` set l \<and>
   distinct (map snd (endpoint_list_strip_and_sort l)) \<and>
   sorted (map fst (endpoint_list_strip_and_sort l)) \<and>
   set (endpoint_list_strip_and_sort l) \<subseteq> set l"
proof -
  have "LLSORT fst xs = sort_key fst xs" for xs :: endpoint_list
    using llsort_loop_ok [of 1 fst xs] runs_sorted_1 [of fst xs] by (auto simp: LLSORT_def)
  then have e: "endpoint_list_strip_and_sort l = sort_key fst (strip_duplicates l)"
    by (simp add: endpoint_list_strip_and_sort_def)
  have "distinct (map snd (sort_key fst (strip_duplicates l)))"
    using strip_duplicates_ok [of l] by (metis distinct_map mset_eq_imp_distinct_iff mset_sort set_sort)
  with strip_duplicates_ok [of l] show ?thesis by (simp add: e)
qed

end
