(* ===== verification/Aap.thy ===== *)
theory Aap
  imports Bundle
begin

text \<open>
  The application agent protocol: messages (\<open>components/aap/aap.c\<close>), their serialization
  (\<open>aap_serializer.c\<close>), the incremental parser (\<open>aap_parser.c\<close>) and the loop of the application agent
  that drives it (\<open>parse_aap\<close> in \<open>components/agents/posix/application_agent.c\<close>). The message type is the
  byte of the C enumeration. The buffers \<open>eid\<close> and \<open>payload\<close> are the allocated bytes, the EID with its
  terminating zero. The function pointer \<open>parse\<close> of the parser is a value of \<open>aap_parse_fn\<close>.
\<close>

section \<open>Messages\<close>

abbreviation (input) "AAP_MESSAGE_ACK \<equiv> (0x0 :: u8)"
abbreviation (input) "AAP_MESSAGE_NACK \<equiv> (0x1 :: u8)"
abbreviation (input) "AAP_MESSAGE_REGISTER \<equiv> (0x2 :: u8)"
abbreviation (input) "AAP_MESSAGE_SENDBUNDLE \<equiv> (0x3 :: u8)"
abbreviation (input) "AAP_MESSAGE_RECVBUNDLE \<equiv> (0x4 :: u8)"
abbreviation (input) "AAP_MESSAGE_SENDCONFIRM \<equiv> (0x5 :: u8)"
abbreviation (input) "AAP_MESSAGE_CANCELBUNDLE \<equiv> (0x6 :: u8)"
abbreviation (input) "AAP_MESSAGE_WELCOME \<equiv> (0x7 :: u8)"
abbreviation (input) "AAP_MESSAGE_PING \<equiv> (0x8 :: u8)"
abbreviation (input) "AAP_MESSAGE_INVALID \<equiv> (0xFF :: u8)"

record aap_message =
  aap_type :: u8
  aap_eid :: "bytes option"
  aap_eid_length :: nat
  aap_payload :: "bytes option"
  aap_payload_length :: nat
  aap_bundle_id :: bundleid_t

definition has_eid :: "u8 \<Rightarrow> bool" where
  "has_eid t \<longleftrightarrow> t = AAP_MESSAGE_REGISTER \<or> t = AAP_MESSAGE_SENDBUNDLE \<or>
     t = AAP_MESSAGE_RECVBUNDLE \<or> t = AAP_MESSAGE_WELCOME"

definition has_payload :: "u8 \<Rightarrow> bool" where
  "has_payload t \<longleftrightarrow> t = AAP_MESSAGE_SENDBUNDLE \<or> t = AAP_MESSAGE_RECVBUNDLE"

definition has_bundle_id :: "u8 \<Rightarrow> bool" where
  "has_bundle_id t \<longleftrightarrow> t = AAP_MESSAGE_SENDCONFIRM \<or> t = AAP_MESSAGE_CANCELBUNDLE"

definition aap_message_is_valid :: "aap_message \<Rightarrow> bool outcome" where
  "aap_message_is_valid msg =
     (if aap_type msg > AAP_MESSAGE_PING then Inr False
      else
        obind (if has_eid (aap_type msg)
               then (case aap_eid msg of
                   None \<Rightarrow> Inr False
                 | Some e \<Rightarrow> if aap_eid_length msg > 65535 then Inr False
                     else obind (c_strlen e) (\<lambda>n. Inr (n = aap_eid_length msg)))
               else Inr (aap_eid msg = None)) (\<lambda>eid_ok.
          Inr (eid_ok \<and>
            (if has_payload (aap_type msg)
             then \<not> (aap_payload msg = None \<and> aap_payload_length msg \<noteq> 0)
             else aap_payload msg = None) \<and>
            \<not> (has_bundle_id (aap_type msg) \<and> aap_bundle_id msg = BUNDLE_INVALID_ID))))"

definition empty_message :: aap_message where
  "empty_message = \<lparr>aap_type = 0, aap_eid = None, aap_eid_length = 0, aap_payload = None,
     aap_payload_length = 0, aap_bundle_id = 0\<rparr>"

definition aap_message_clear :: "aap_message \<Rightarrow> aap_message" where
  "aap_message_clear msg = empty_message\<lparr>aap_type := AAP_MESSAGE_INVALID\<rparr>"

section \<open>Serialization\<close>

definition put_uint64 :: "u64 \<Rightarrow> bytes" where
  "put_uint64 v =
     [ucast (0xFF AND drop_bit 56 v), ucast (0xFF AND drop_bit 48 v), ucast (0xFF AND drop_bit 40 v),
      ucast (0xFF AND drop_bit 32 v), ucast (0xFF AND drop_bit 24 v), ucast (0xFF AND drop_bit 16 v),
      ucast (0xFF AND drop_bit 8 v), ucast (0xFF AND v)]"

definition aap_get_serialized_size :: "aap_message \<Rightarrow> nat" where
  "aap_get_serialized_size msg =
     1 + (if has_eid (aap_type msg) then 2 + aap_eid_length msg else 0)
       + (if has_payload (aap_type msg) then 8 + aap_payload_length msg else 0)
       + (if has_bundle_id (aap_type msg) then 8 else 0)"

text \<open>The bytes handed to the write function, in order.\<close>

definition aap_serialize :: "aap_message \<Rightarrow> bytes outcome" where
  "aap_serialize msg =
     obind (if has_eid (aap_type msg)
            then obind (copy_bytes (aap_eid msg) (aap_eid_length msg)) (\<lambda>e. Inr
              (ucast (0xFF AND drop_bit 8 (of_nat (aap_eid_length msg) :: u64)) #
               ucast (0xFF AND (of_nat (aap_eid_length msg) :: u64)) # e))
            else Inr []) (\<lambda>eid.
     obind (if has_payload (aap_type msg)
            then obind (copy_bytes (aap_payload msg) (aap_payload_length msg)) (\<lambda>p. Inr
              (put_uint64 (of_nat (aap_payload_length msg)) @ p))
            else Inr []) (\<lambda>pl.
       Inr ((push_bit 4 1 OR (aap_type msg AND 0xF)) # eid @ pl @
            (if has_bundle_id (aap_type msg) then put_uint64 (ucast (aap_bundle_id msg)) else []))))"

text \<open>Writing into a buffer of the given size.\<close>

definition aap_serialize_into :: "nat \<Rightarrow> aap_message \<Rightarrow> bytes outcome" where
  "aap_serialize_into n msg =
     obind (aap_serialize msg) (\<lambda>bs. if length bs > n then Inl Out_Of_Bounds else Inr bs)"

section \<open>The parser\<close>

datatype aap_parse_fn = Aap_parse_type | Aap_parse_eid_length | Aap_parse_eid
  | Aap_parse_payload_length | Aap_parse_payload | Aap_parse_bundle_id

record aap_parser =
  status :: parser_status
  max_payload_length :: nat
  parse :: aap_parse_fn
  message :: aap_message
  consumed :: nat
  remaining :: nat

definition read_uint64 :: "bytes \<Rightarrow> u64" where
  "read_uint64 b =
     push_bit 56 (ucast (b ! 0)) OR push_bit 48 (ucast (b ! 1)) OR push_bit 40 (ucast (b ! 2)) OR
     push_bit 32 (ucast (b ! 3)) OR push_bit 24 (ucast (b ! 4)) OR push_bit 16 (ucast (b ! 5)) OR
     push_bit 8 (ucast (b ! 6)) OR ucast (b ! 7)"

type_synonym parse_result = "(nat \<times> aap_parser \<times> alloc_trace) outcome"

definition aap_parse_type :: "alloc_trace \<Rightarrow> aap_parser \<Rightarrow> bytes \<Rightarrow> parse_result" where
  "aap_parse_type m p b = (case b of
       [] \<Rightarrow> Inr (0, p, m)
     | x # _ \<Rightarrow>
         if drop_bit 4 (x AND 0xF0) \<noteq> 0x1 then Inr (1, p\<lparr>status := PARSER_STATUS_ERROR\<rparr>, m)
         else let t = x AND 0x0F; p1 = p\<lparr>message := (message p)\<lparr>aap_type := t\<rparr>\<rparr> in
           Inr (1,
             if t = AAP_MESSAGE_ACK \<or> t = AAP_MESSAGE_NACK \<or> t = AAP_MESSAGE_PING
             then p1\<lparr>status := PARSER_STATUS_DONE\<rparr>
             else if has_eid t then p1\<lparr>parse := Aap_parse_eid_length\<rparr>
             else if has_bundle_id t then p1\<lparr>parse := Aap_parse_bundle_id\<rparr>
             else p1\<lparr>status := PARSER_STATUS_ERROR\<rparr>, m))"

text \<open>The terminator is written before the result of the allocation is tested.\<close>

definition aap_parse_eid_length :: "alloc_trace \<Rightarrow> aap_parser \<Rightarrow> bytes \<Rightarrow> parse_result" where
  "aap_parse_eid_length m p b =
     (if length b < 2 then Inr (0, p, m)
      else let n = unat (push_bit 8 (ucast (b ! 0)) OR ucast (b ! 1) :: u16) in
        (case malloc m of
           (None, m1) \<Rightarrow> Inl Null_Deref
         | (Some _, m1) \<Rightarrow>
             Inr (2, p\<lparr>message := (message p)\<lparr>aap_eid_length := n, aap_eid := Some (replicate (n + 1) 0)\<rparr>,
                       consumed := 0, remaining := n,
                       status := (if n = 0 then PARSER_STATUS_DONE else status p),
                       parse := Aap_parse_eid\<rparr>, m1)))"

definition aap_parse_eid :: "alloc_trace \<Rightarrow> aap_parser \<Rightarrow> bytes \<Rightarrow> parse_result" where
  "aap_parse_eid m p b =
     (let n = min (length b) (remaining p) in
      obind (put_bytes (aap_eid (message p)) (consumed p) (take n b)) (\<lambda>e.
      let p1 = p\<lparr>message := (message p)\<lparr>aap_eid := Some e\<rparr>, consumed := consumed p + n,
                 remaining := remaining p - n\<rparr>
      in if remaining p1 \<noteq> 0 then Inr (n, p1, m)
         else obind (put_bytes (Some e) (aap_eid_length (message p)) [0]) (\<lambda>e'.
           let p2 = p1\<lparr>message := (message p)\<lparr>aap_eid := Some e'\<rparr>\<rparr> in
           if aap_type (message p) = AAP_MESSAGE_REGISTER \<or> aap_type (message p) = AAP_MESSAGE_WELCOME
           then Inr (n, p2\<lparr>status := PARSER_STATUS_DONE\<rparr>, m)
           else if has_payload (aap_type (message p))
           then Inr (n, p2\<lparr>parse := Aap_parse_payload_length\<rparr>, m)
           else Inl Assert_Failed)))"

definition aap_parse_payload_length :: "nat \<Rightarrow> alloc_trace \<Rightarrow> aap_parser \<Rightarrow> bytes \<Rightarrow> parse_result" where
  "aap_parse_payload_length SIZE_MAX m p b =
     (if length b < 8 then Inr (0, p, m)
      else let n = unat (read_uint64 b) in
        if n > SIZE_MAX then Inr (8, p\<lparr>status := PARSER_STATUS_ERROR\<rparr>, m)
        else let p1 = p\<lparr>message := (message p)\<lparr>aap_payload_length := n\<rparr>, consumed := 0, remaining := n\<rparr> in
          if max_payload_length p \<noteq> 0 \<and> n > max_payload_length p
          then Inr (8, p1\<lparr>status := PARSER_STATUS_ERROR\<rparr>, m)
          else case malloc m of
              (None, m1) \<Rightarrow> Inr (8, p1\<lparr>message := (message p1)\<lparr>aap_payload := None\<rparr>,
                                      status := PARSER_STATUS_ERROR\<rparr>, m1)
            | (Some _, m1) \<Rightarrow>
                Inr (8, p1\<lparr>message := (message p1)\<lparr>aap_payload := Some (replicate n 0)\<rparr>,
                           status := (if n = 0 then PARSER_STATUS_DONE else status p),
                           parse := Aap_parse_payload\<rparr>, m1))"

definition aap_parse_payload :: "alloc_trace \<Rightarrow> aap_parser \<Rightarrow> bytes \<Rightarrow> parse_result" where
  "aap_parse_payload m p b =
     (let n = min (length b) (remaining p) in
      obind (put_bytes (aap_payload (message p)) (consumed p) (take n b)) (\<lambda>d.
        Inr (n, p\<lparr>message := (message p)\<lparr>aap_payload := Some d\<rparr>, consumed := consumed p + n,
                  remaining := remaining p - n,
                  status := (if remaining p - n = 0 then PARSER_STATUS_DONE else status p)\<rparr>, m)))"

definition aap_parse_bundle_id :: "alloc_trace \<Rightarrow> aap_parser \<Rightarrow> bytes \<Rightarrow> parse_result" where
  "aap_parse_bundle_id m p b =
     (if length b < 8 then Inr (0, p, m)
      else Inr (8, p\<lparr>message := (message p)\<lparr>aap_bundle_id := ucast (read_uint64 b)\<rparr>,
                     status := PARSER_STATUS_DONE\<rparr>, m))"

definition aap_parse :: "nat \<Rightarrow> alloc_trace \<Rightarrow> aap_parser \<Rightarrow> bytes \<Rightarrow> parse_result" where
  "aap_parse SIZE_MAX m p b = (case parse p of
       Aap_parse_type \<Rightarrow> aap_parse_type m p b
     | Aap_parse_eid_length \<Rightarrow> aap_parse_eid_length m p b
     | Aap_parse_eid \<Rightarrow> aap_parse_eid m p b
     | Aap_parse_payload_length \<Rightarrow> aap_parse_payload_length SIZE_MAX m p b
     | Aap_parse_payload \<Rightarrow> aap_parse_payload m p b
     | Aap_parse_bundle_id \<Rightarrow> aap_parse_bundle_id m p b)"

definition aap_parser_reset :: "aap_parser \<Rightarrow> aap_parser" where
  "aap_parser_reset p = p\<lparr>parse := Aap_parse_type, status := PARSER_STATUS_GOOD,
     message := aap_message_clear (message p)\<rparr>"

definition aap_parser_init :: "aap_parser \<Rightarrow> aap_parser" where
  "aap_parser_init p = aap_parser_reset (p\<lparr>max_payload_length := 0, message := empty_message\<rparr>)"

definition aap_parser_extract_message :: "aap_parser \<Rightarrow> aap_message \<times> aap_parser" where
  "aap_parser_extract_message p =
     ((if status p \<noteq> PARSER_STATUS_DONE then (message p)\<lparr>aap_type := AAP_MESSAGE_INVALID\<rparr> else message p),
      p\<lparr>message := aap_message_clear empty_message\<rparr>)"

section \<open>Driving the parser\<close>

text \<open>The loop of \<open>parse_aap\<close>: the number of bytes consumed, and the parser afterwards.\<close>

function parse_aap :: "nat \<Rightarrow> alloc_trace \<Rightarrow> aap_parser \<Rightarrow> bytes \<Rightarrow> parse_result" where
  "parse_aap SIZE_MAX m p b =
     (if status p = PARSER_STATUS_GOOD \<and> b \<noteq> []
      then obind (aap_parse SIZE_MAX m p b) (\<lambda>(delta, p1, m1).
        if delta = 0 then Inr (0, p1, m1)
        else obind (parse_aap SIZE_MAX m1 p1 (drop delta b)) (\<lambda>(n, p2, m2). Inr (delta + n, p2, m2)))
      else Inr (0, p, m))"
  by pat_completeness auto
termination by (relation "measure (\<lambda>(s, m, p, b). length b)") auto

declare parse_aap.simps [simp del]

section \<open>Byte order\<close>

lemma u64_FF_and: "0xFF AND (x :: u64) = take_bit 8 x"
  by (simp add: take_bit_eq_mask and.commute mask_eq_exp_minus_1)

lemma ucast_FF: "(ucast (ucast (0xFF AND x) :: u8) :: u64) = take_bit 8 x"
  by (rule bit_word_eqI) (auto simp: u64_FF_and bit_simps)

lemma or_next_byte:
  "push_bit k (take_bit 8 (drop_bit k v)) OR take_bit k v = take_bit (k + 8) (v :: u64)"
  by (rule bit_word_eqI) (auto simp: bit_simps)

lemma read_put_uint64: "read_uint64 (put_uint64 v @ xs) = v"
proof -
  have "push_bit 56 (take_bit 8 (drop_bit 56 v)) OR push_bit 48 (take_bit 8 (drop_bit 48 v)) OR
      push_bit 40 (take_bit 8 (drop_bit 40 v)) OR push_bit 32 (take_bit 8 (drop_bit 32 v)) OR
      push_bit 24 (take_bit 8 (drop_bit 24 v)) OR push_bit 16 (take_bit 8 (drop_bit 16 v)) OR
      push_bit 8 (take_bit 8 (drop_bit 8 v)) OR take_bit 8 v = v"
    using or_next_byte [of 8 v] or_next_byte [of 16 v] or_next_byte [of 24 v] or_next_byte [of 32 v]
      or_next_byte [of 40 v] or_next_byte [of 48 v] or_next_byte [of 56 v] by (simp add: take_bit_word_eq_self)
  then show ?thesis
    by (simp add: read_uint64_def put_uint64_def ucast_FF del: push_bit_of_1 cong del: if_weak_cong)
qed

lemma length_put_uint64 [simp]: "length (put_uint64 v) = 8"
  by (simp add: put_uint64_def)

lemma u16_be: "n \<le> 65535 \<Longrightarrow> unat (push_bit 8 (ucast (ucast (0xFF AND drop_bit 8 (of_nat n :: u64)) :: u8)) OR
    ucast (ucast (0xFF AND (of_nat n :: u64)) :: u8) :: u16) = n"
proof -
  assume n: "n \<le> 65535"
  have "(push_bit 8 (ucast (ucast (0xFF AND drop_bit 8 (of_nat n :: u64)) :: u8)) OR
    ucast (ucast (0xFF AND (of_nat n :: u64)) :: u8) :: u16) = of_nat n"
    by (rule bit_word_eqI) (auto simp: u64_FF_and bit_simps)
  then show ?thesis using n by (simp add: unsigned_of_nat take_bit_nat_eq_self)
qed

section \<open>Safety of the parser\<close>

text \<open>What the parser relies on in each of its states, and the allocations it may still make.\<close>

definition parser_ok :: "aap_parser \<Rightarrow> bool" where
  "parser_ok p \<longleftrightarrow> status p = PARSER_STATUS_GOOD \<longrightarrow> (case parse p of
       Aap_parse_type \<Rightarrow> True
     | Aap_parse_eid_length \<Rightarrow> has_eid (aap_type (message p))
     | Aap_parse_eid \<Rightarrow> has_eid (aap_type (message p)) \<and> aap_eid (message p) \<noteq> None \<and>
         length (the (aap_eid (message p))) = aap_eid_length (message p) + 1 \<and>
         consumed p + remaining p = aap_eid_length (message p) \<and> remaining p \<noteq> 0
     | Aap_parse_payload_length \<Rightarrow> has_payload (aap_type (message p))
     | Aap_parse_payload \<Rightarrow> aap_payload (message p) \<noteq> None \<and>
         length (the (aap_payload (message p))) = aap_payload_length (message p) \<and>
         consumed p + remaining p = aap_payload_length (message p) \<and> remaining p \<noteq> 0
     | Aap_parse_bundle_id \<Rightarrow> True)"

definition allocs_left :: "aap_parser \<Rightarrow> nat" where
  "allocs_left p = (if status p \<noteq> PARSER_STATUS_GOOD then 0 else case parse p of
       Aap_parse_type \<Rightarrow> 2 | Aap_parse_eid_length \<Rightarrow> 2 | Aap_parse_eid \<Rightarrow> 1
     | Aap_parse_payload_length \<Rightarrow> 1 | Aap_parse_payload \<Rightarrow> 0 | Aap_parse_bundle_id \<Rightarrow> 0)"

lemma malloc_map_Some: "as \<noteq> [] \<Longrightarrow> malloc (map Some as) = (Some (hd as), map Some (tl as))"
  by (cases as) auto

lemma ex_allocs [simp]:
  "(\<exists>as'. map Some l = map Some as' \<and> n \<le> length as') \<longleftrightarrow> n \<le> length l"
  "(\<exists>as'. Some a # map Some l = map Some as' \<and> n \<le> length as') \<longleftrightarrow> n \<le> Suc (length l)"
  "\<exists>as'. Some a # map Some l = map Some as'"
  using inj_map_eq_map [of Some l] inj_map_eq_map [of Some "a # l"] by (auto intro: exI [of _ "a # l"])

lemmas aap_parse_defs = aap_parse_type_def aap_parse_eid_length_def aap_parse_eid_def
  aap_parse_payload_length_def aap_parse_payload_def aap_parse_bundle_id_def

lemma aap_parse_ok:
  assumes "parser_ok p" and "status p = PARSER_STATUS_GOOD" and "allocs_left p \<le> length as"
  shows "case aap_parse s (map Some as) p b of
      Inl _ \<Rightarrow> False
    | Inr (n, p', m') \<Rightarrow> n \<le> length b \<and> parser_ok p' \<and>
        (\<exists>as'. m' = map Some as' \<and> allocs_left p' \<le> length as')"
proof (cases "parse p")
  case Aap_parse_type
  then show ?thesis
    using assms by (cases b)
      (auto simp: aap_parse_def aap_parse_type_def parser_ok_def allocs_left_def Let_def
        split: if_splits)
next
  case Aap_parse_eid_length
  then show ?thesis
    using assms
    by (cases as) (auto simp: aap_parse_def aap_parse_eid_length_def parser_ok_def allocs_left_def Let_def
        split: if_splits)
next
  case Aap_parse_eid
  then obtain e where e: "aap_eid (message p) = Some e" "length e = aap_eid_length (message p) + 1"
      "consumed p + remaining p = aap_eid_length (message p)" "has_eid (aap_type (message p))"
    using assms(1,2) by (auto simp: parser_ok_def)
  let ?n = "min (length b) (remaining p)"
  have 1: "put_bytes (Some e) (consumed p) (take ?n b) =
      Inr (take (consumed p) e @ take ?n b @ drop (consumed p + ?n) e)"
    using e by (subst put_bytes_Some) (auto simp: min_def)
  have 2: "\<exists>e'. put_bytes (Some (take (consumed p) e @ take ?n b @ drop (consumed p + ?n) e))
      (aap_eid_length (message p)) [0] = Inr e'"
    using e by (subst put_bytes_Some) (auto simp: min_def)
  have "aap_type (message p) = 2 \<or> aap_type (message p) = 7 \<or> has_payload (aap_type (message p))"
    using e(4) by (auto simp: has_eid_def has_payload_def)
  then show ?thesis
    using assms 1 2 e Aap_parse_eid
    by (auto simp: aap_parse_def aap_parse_eid_def parser_ok_def allocs_left_def Let_def
        min_def split: if_splits)
next
  case Aap_parse_payload_length
  then show ?thesis
    using assms
    by (cases as) (auto simp: aap_parse_def aap_parse_payload_length_def parser_ok_def allocs_left_def Let_def
        split: if_splits)
next
  case Aap_parse_payload
  then obtain d where d: "aap_payload (message p) = Some d" "length d = aap_payload_length (message p)"
      "consumed p + remaining p = aap_payload_length (message p)"
    using assms(1,2) by (auto simp: parser_ok_def)
  let ?n = "min (length b) (remaining p)"
  have "put_bytes (Some d) (consumed p) (take ?n b) =
      Inr (take (consumed p) d @ take ?n b @ drop (consumed p + ?n) d)"
    using d by (subst put_bytes_Some) (auto simp: min_def)
  then show ?thesis
    using assms d Aap_parse_payload
    by (auto simp: aap_parse_def aap_parse_payload_def parser_ok_def allocs_left_def Let_def
        min_def split: if_splits)
next
  case Aap_parse_bundle_id
  then show ?thesis
    using assms by (auto simp: aap_parse_def aap_parse_bundle_id_def parser_ok_def allocs_left_def
        split: if_splits)
qed

lemma parse_aap_ok:
  assumes "parser_ok p" and "allocs_left p \<le> length as"
  shows "case parse_aap s (map Some as) p b of
      Inl _ \<Rightarrow> False
    | Inr (n, p', m') \<Rightarrow> n \<le> length b \<and> parser_ok p' \<and>
        (\<exists>as'. m' = map Some as' \<and> allocs_left p' \<le> length as')"
  using assms
proof (induction b arbitrary: p as rule: length_induct)
  case (1 b)
  show ?case
  proof (cases "status p = PARSER_STATUS_GOOD \<and> b \<noteq> []")
    case False
    then show ?thesis using 1(2,3) by (auto simp: parse_aap.simps [of s "map Some as" p b])
  next
    case True
    then obtain n p1 as1 where st: "aap_parse s (map Some as) p b = Inr (n, p1, map Some as1)"
        "n \<le> length b" "parser_ok p1" "allocs_left p1 \<le> length as1"
      using aap_parse_ok [OF 1(2) _ 1(3), where s = s and b = b] by (auto split: sum.splits)
    show ?thesis
    proof (cases "n = 0")
      case True
      then show ?thesis
        using st \<open>status p = _ \<and> _\<close> by (auto simp: parse_aap.simps [of s "map Some as" p b])
    next
      case False
      have "length (drop n b) < length b" using False True by (cases b) auto
      with 1(1) st(3,4) have "case parse_aap s (map Some as1) p1 (drop n b) of Inl _ \<Rightarrow> False
        | Inr (k, p', m') \<Rightarrow> k \<le> length (drop n b) \<and> parser_ok p' \<and>
          (\<exists>as'. m' = map Some as' \<and> allocs_left p' \<le> length as')" by blast
      then show ?thesis
        using st True False by (auto simp: parse_aap.simps [of s "map Some as" p b] split: sum.splits)
    qed
  qed
qed

lemma parser_ok_init: "parser_ok (aap_parser_init p)" "allocs_left (aap_parser_init p) = 2"
  by (simp_all add: parser_ok_def aap_parser_init_def aap_parser_reset_def allocs_left_def)

section \<open>Input in pieces\<close>

text \<open>The parser after \<open>x\<close>, at most what it waits for, has been copied to the EID.\<close>

definition write_at :: "bytes \<Rightarrow> nat \<Rightarrow> bytes \<Rightarrow> bytes" where
  "write_at d off x = take off d @ x @ drop (off + length x) d"

lemma length_write_at [simp]: "off + length x \<le> length d \<Longrightarrow> length (write_at d off x) = length d"
  by (simp add: write_at_def)

lemma write_at_append:
  "off + length x + length y \<le> length d \<Longrightarrow>
    write_at (write_at d off x) (off + length x) y = write_at d off (x @ y)"
  by (simp add: write_at_def drop_append ac_simps)

lemma put_bytes_write: "off + length x \<le> length d \<Longrightarrow> put_bytes (Some d) off x = Inr (write_at d off x)"
  by (simp add: put_bytes_def write_at_def)

definition after_eid :: "aap_parser \<Rightarrow> bytes \<Rightarrow> aap_parser" where
  "after_eid p x =
     (let e = write_at (the (aap_eid (message p))) (consumed p) x;
          p1 = p\<lparr>message := (message p)\<lparr>aap_eid := Some e\<rparr>, consumed := consumed p + length x,
                 remaining := remaining p - length x\<rparr>
      in if remaining p \<noteq> length x then p1
         else let p2 = p1\<lparr>message := (message p)\<lparr>aap_eid := Some (write_at e (aap_eid_length (message p)) [0])\<rparr>\<rparr>
           in if has_payload (aap_type (message p)) then p2\<lparr>parse := Aap_parse_payload_length\<rparr>
              else p2\<lparr>status := PARSER_STATUS_DONE\<rparr>)"

definition after_payload :: "aap_parser \<Rightarrow> bytes \<Rightarrow> aap_parser" where
  "after_payload p x =
     p\<lparr>message := (message p)\<lparr>aap_payload := Some (write_at (the (aap_payload (message p))) (consumed p) x)\<rparr>,
       consumed := consumed p + length x, remaining := remaining p - length x,
       status := (if remaining p = length x then PARSER_STATUS_DONE else status p)\<rparr>"

lemma aap_parse_eid_after:
  assumes "parser_ok p" and "status p = PARSER_STATUS_GOOD" and "parse p = Aap_parse_eid"
  shows "aap_parse s m p b = (let n = min (length b) (remaining p) in Inr (n, after_eid p (take n b), m))"
proof -
  obtain e where e: "aap_eid (message p) = Some e" "length e = aap_eid_length (message p) + 1"
      "consumed p + remaining p = aap_eid_length (message p)" "has_eid (aap_type (message p))"
    using assms by (auto simp: parser_ok_def)
  let ?n = "min (length b) (remaining p)"
  let ?e1 = "write_at e (consumed p) (take ?n b)"
  have l: "consumed p + length (take ?n b) \<le> length e" using e by (auto simp: min_def)
  have 1: "put_bytes (Some e) (consumed p) (take ?n b) = Inr ?e1"
    using l by (rule put_bytes_write)
  have 2: "put_bytes (Some ?e1) (aap_eid_length (message p)) [0] =
      Inr (write_at ?e1 (aap_eid_length (message p)) [0])"
    using l e(2) by (intro put_bytes_write) simp
  have "aap_type (message p) = 2 \<or> aap_type (message p) = 7 \<longleftrightarrow> \<not> has_payload (aap_type (message p))"
    using e(4) by (auto simp: has_eid_def has_payload_def)
  then show ?thesis
    using e(1) 1 2 assms(3)
    by (cases "remaining p \<le> length b")
      (simp_all add: aap_parse_def aap_parse_eid_def after_eid_def Let_def)
qed

lemma aap_parse_payload_after:
  assumes "parser_ok p" and "status p = PARSER_STATUS_GOOD" and "parse p = Aap_parse_payload"
  shows "aap_parse s m p b = (let n = min (length b) (remaining p) in Inr (n, after_payload p (take n b), m))"
proof -
  obtain d where d: "aap_payload (message p) = Some d" "length d = aap_payload_length (message p)"
      "consumed p + remaining p = aap_payload_length (message p)"
    using assms by (auto simp: parser_ok_def)
  let ?n = "min (length b) (remaining p)"
  have "put_bytes (Some d) (consumed p) (take ?n b) = Inr (write_at d (consumed p) (take ?n b))"
    using d by (intro put_bytes_write) (auto simp: min_def)
  then show ?thesis
    using d(1) assms(3)
    by (auto simp: aap_parse_def aap_parse_payload_def after_payload_def Let_def min_def)
qed

lemma after_eid_append:
  assumes "parser_ok p" and "status p = PARSER_STATUS_GOOD" and "parse p = Aap_parse_eid"
    and "length x < remaining p" and "length x + length y \<le> remaining p"
  shows "after_eid (after_eid p x) y = after_eid p (x @ y)"
    and "parser_ok (after_eid p x)" and "status (after_eid p x) = PARSER_STATUS_GOOD"
    and "parse (after_eid p x) = Aap_parse_eid" and "remaining (after_eid p x) = remaining p - length x"
proof -
  obtain e where e: "aap_eid (message p) = Some e" "length e = aap_eid_length (message p) + 1"
      "consumed p + remaining p = aap_eid_length (message p)" "has_eid (aap_type (message p))"
    using assms by (auto simp: parser_ok_def)
  have w: "write_at (write_at e (consumed p) x) (consumed p + length x) y = write_at e (consumed p) (x @ y)"
    using e assms(5) by (intro write_at_append) simp
  show "after_eid (after_eid p x) y = after_eid p (x @ y)"
    using assms(4,5) e(1) w by (simp add: after_eid_def Let_def)
  show "parser_ok (after_eid p x)" "status (after_eid p x) = PARSER_STATUS_GOOD"
    "parse (after_eid p x) = Aap_parse_eid" "remaining (after_eid p x) = remaining p - length x"
    using assms e by (simp_all add: after_eid_def parser_ok_def)
qed

lemma after_payload_append:
  assumes "parser_ok p" and "status p = PARSER_STATUS_GOOD" and "parse p = Aap_parse_payload"
    and "length x < remaining p" and "length x + length y \<le> remaining p"
  shows "after_payload (after_payload p x) y = after_payload p (x @ y)"
    and "parser_ok (after_payload p x)" and "status (after_payload p x) = PARSER_STATUS_GOOD"
    and "parse (after_payload p x) = Aap_parse_payload"
    and "remaining (after_payload p x) = remaining p - length x"
proof -
  obtain d where d: "aap_payload (message p) = Some d" "length d = aap_payload_length (message p)"
      "consumed p + remaining p = aap_payload_length (message p)"
    using assms by (auto simp: parser_ok_def)
  have w: "write_at (write_at d (consumed p) x) (consumed p + length x) y = write_at d (consumed p) (x @ y)"
    using d assms(5) by (intro write_at_append) simp
  show "after_payload (after_payload p x) y = after_payload p (x @ y)"
    using assms(4,5) d(1) w by (simp add: after_payload_def)
  show "parser_ok (after_payload p x)" "status (after_payload p x) = PARSER_STATUS_GOOD"
    "parse (after_payload p x) = Aap_parse_payload" "remaining (after_payload p x) = remaining p - length x"
    using assms d by (simp_all add: after_payload_def parser_ok_def)
qed

definition bump :: "nat \<Rightarrow> nat \<times> aap_parser \<times> alloc_trace \<Rightarrow> parse_result" where
  "bump n r = Inr (n + fst r, snd r)"

lemma bump_tuple: "bump n (k, p, m) = Inr (n + k, p, m)"
  by (simp add: bump_def)

lemma bump_bump: "obind (bump a r) (bump b) = bump (b + a) r"
  by (simp add: bump_def)

lemma bump_0: "obind r (bump 0) = r"
  by (cases r) (simp_all add: bump_def)

lemma obind_assoc: "obind (obind r f) g = obind r (\<lambda>x. obind (f x) g)"
  by (cases r) auto

lemma parse_aap_stop: "status p \<noteq> PARSER_STATUS_GOOD \<or> b = [] \<Longrightarrow> parse_aap s m p b = Inr (0, p, m)"
  by (auto simp: parse_aap.simps [of s m p b])

lemma parse_aap_step:
  "status p = PARSER_STATUS_GOOD \<Longrightarrow> b \<noteq> [] \<Longrightarrow> aap_parse s m p b = Inr (n, p1, m1) \<Longrightarrow> 0 < n \<Longrightarrow>
    parse_aap s m p b = obind (parse_aap s m1 p1 (drop n b)) (bump n)"
  by (cases "parse_aap s m1 p1 (drop n b)") (auto simp: parse_aap.simps [of s m p b] bump_def)

lemma parse_aap_wait:
  "status p = PARSER_STATUS_GOOD \<Longrightarrow> b \<noteq> [] \<Longrightarrow> aap_parse s m p b = Inr (0, p1, m1) \<Longrightarrow>
    parse_aap s m p b = Inr (0, p1, m1)"
  by (simp add: parse_aap.simps [of s m p b])

definition then_parse :: "nat \<Rightarrow> parse_result \<Rightarrow> bytes \<Rightarrow> bytes \<Rightarrow> parse_result" where
  "then_parse s r b c = obind r (\<lambda>(n, p1, m1).
     obind (parse_aap s m1 p1 (drop n b @ c)) (bump n))"

lemma split_prefix:
  assumes "\<And>m p b'. length b' < length b \<Longrightarrow> P m p b' \<Longrightarrow> parse_aap s m p (b' @ c) = then_parse s (parse_aap s m p b') b' c"
    and "status p = PARSER_STATUS_GOOD" and "b \<noteq> []" and "0 < n" and "n \<le> length b"
    and "aap_parse s m p b = Inr (n, p1, m1)" and "aap_parse s m p (b @ c) = Inr (n, p1, m1)"
    and "P m1 p1 (drop n b)"
  shows "parse_aap s m p (b @ c) = then_parse s (parse_aap s m p b) b c"
proof -
  have l: "length (drop n b) < length b" using assms(3,4) by (cases b) auto
  have "parse_aap s m p (b @ c) =
      obind (parse_aap s m1 p1 (drop n b @ c)) (bump n)"
    using parse_aap_step [OF assms(2) _ assms(7,4)] assms(3,5) by simp
  also have "\<dots> = obind (then_parse s (parse_aap s m1 p1 (drop n b)) (drop n b) c)
      (bump n)"
    using assms(1) [OF l assms(8)] by simp
  also have "\<dots> = then_parse s (parse_aap s m p b) b c"
    using parse_aap_step [OF assms(2,3,6,4)]
    by (cases "parse_aap s m1 p1 (drop n b)")
      (auto simp: then_parse_def obind_assoc bump_bump bump_tuple add.commute)
  finally show ?thesis .
qed

lemma split_partial:
  assumes "status p = PARSER_STATUS_GOOD" and "b \<noteq> []" and "c \<noteq> []"
    and "aap_parse s m p b = Inr (length b, p1, m)" and "status p1 = PARSER_STATUS_GOOD"
    and "0 < n" and "n \<le> length c"
    and "aap_parse s m p1 c = Inr (n, p2, m)" and "aap_parse s m p (b @ c) = Inr (length b + n, p2, m)"
  shows "parse_aap s m p (b @ c) = then_parse s (parse_aap s m p b) b c"
proof -
  have "parse_aap s m p b = Inr (length b, p1, m)"
    using parse_aap_step [OF assms(1,2,4)] assms(2) by (simp add: parse_aap_stop bump_tuple)
  moreover have "parse_aap s m p (b @ c) =
      obind (parse_aap s m p2 (drop n c)) (bump (length b + n))"
    using parse_aap_step [OF assms(1) _ assms(9)] assms(2,6) by simp
  moreover have "parse_aap s m p1 c =
      obind (parse_aap s m p2 (drop n c)) (bump n)"
    using parse_aap_step [OF assms(5,3,8,6)] .
  ultimately show ?thesis by (simp add: then_parse_def obind_assoc bump_bump)
qed

lemma read_uint64_append: "8 \<le> length b \<Longrightarrow> read_uint64 (b @ c) = read_uint64 b"
proof -
  assume "8 \<le> length b"
  then have "(b @ c) ! i = b ! i" if "i < 8" for i using that by (simp add: nth_append)
  then show ?thesis by (simp add: read_uint64_def)
qed

lemma aap_parse_fixed:
  assumes "parse p \<noteq> Aap_parse_eid" and "parse p \<noteq> Aap_parse_payload"
    and "aap_parse s m p b = Inr (n, p1, m1)" and "0 < n"
  shows "aap_parse s m p (b @ c) = Inr (n, p1, m1)"
proof (cases "parse p")
  case Aap_parse_type
  with assms show ?thesis by (cases b) (simp_all add: aap_parse_def aap_parse_type_def)
next
  case Aap_parse_eid_length
  with assms have "2 \<le> length b" by (auto simp: aap_parse_def aap_parse_eid_length_def split: if_splits)
  then obtain x y b' where "b = x # y # b'" by (cases b; cases "tl b") auto
  with Aap_parse_eid_length assms(3) show ?thesis
    by (simp add: aap_parse_def aap_parse_eid_length_def)
next
  case Aap_parse_payload_length
  with assms have "8 \<le> length b" by (auto simp: aap_parse_def aap_parse_payload_length_def split: if_splits)
  with Aap_parse_payload_length assms(3) show ?thesis
    by (simp add: aap_parse_def aap_parse_payload_length_def read_uint64_append)
next
  case Aap_parse_bundle_id
  with assms have "8 \<le> length b" by (auto simp: aap_parse_def aap_parse_bundle_id_def split: if_splits)
  with Aap_parse_bundle_id assms(3) show ?thesis
    by (simp add: aap_parse_def aap_parse_bundle_id_def read_uint64_append)
qed (use assms in auto)

lemma aap_parse_zero:
  assumes "parser_ok p" and "status p = PARSER_STATUS_GOOD" and "b \<noteq> []"
    and "aap_parse s m p b = Inr (0, p1, m1)"
  shows "p1 = p \<and> m1 = m"
proof (cases "parse p")
  case Aap_parse_eid
  with assms show ?thesis by (simp add: aap_parse_eid_after Let_def min_def parser_ok_def split: if_splits)
next
  case Aap_parse_payload
  with assms show ?thesis by (simp add: aap_parse_payload_after Let_def min_def parser_ok_def split: if_splits)
qed (use assms in \<open>auto simp: aap_parse_def aap_parse_type_def aap_parse_eid_length_def Let_def
  aap_parse_payload_length_def aap_parse_bundle_id_def split: if_splits prod.splits option.splits list.splits\<close>)

lemma split_eid:
  assumes "parser_ok p" and "status p = PARSER_STATUS_GOOD" and "parse p = Aap_parse_eid"
    and "b \<noteq> []" and "c \<noteq> []" and "length b < remaining p"
  shows "parse_aap s m p (b @ c) = then_parse s (parse_aap s m p b) b c"
proof -
  let ?n = "min (length c) (remaining p - length b)"
  have le: "length b + length (take ?n c) \<le> remaining p" using assms(6) by auto
  note ap = after_eid_append [OF assms(1-3,6) le]
  have 1: "aap_parse s m (after_eid p b) c = Inr (?n, after_eid p (b @ take ?n c), m)"
    using aap_parse_eid_after [OF ap(2-4), of s m c] ap(1,5) by (simp add: Let_def)
  have 2: "aap_parse s m p (b @ c) = Inr (length b + ?n, after_eid p (b @ take ?n c), m)"
    using aap_parse_eid_after [OF assms(1-3), of s m "b @ c"] assms(6) by (auto simp: Let_def min_def)
  have 3: "aap_parse s m p b = Inr (length b, after_eid p b, m)"
    using aap_parse_eid_after [OF assms(1-3), of s m b] assms(6) by (simp add: Let_def)
  have 4: "0 < ?n" using assms(5,6) by auto
  show ?thesis by (rule split_partial [OF assms(2,4,5) 3 ap(3) 4 _ 1 2]) simp
qed

lemma split_payload:
  assumes "parser_ok p" and "status p = PARSER_STATUS_GOOD" and "parse p = Aap_parse_payload"
    and "b \<noteq> []" and "c \<noteq> []" and "length b < remaining p"
  shows "parse_aap s m p (b @ c) = then_parse s (parse_aap s m p b) b c"
proof -
  let ?n = "min (length c) (remaining p - length b)"
  have le: "length b + length (take ?n c) \<le> remaining p" using assms(6) by auto
  note ap = after_payload_append [OF assms(1-3,6) le]
  have 1: "aap_parse s m (after_payload p b) c = Inr (?n, after_payload p (b @ take ?n c), m)"
    using aap_parse_payload_after [OF ap(2-4), of s m c] ap(1,5) by (simp add: Let_def)
  have 2: "aap_parse s m p (b @ c) = Inr (length b + ?n, after_payload p (b @ take ?n c), m)"
    using aap_parse_payload_after [OF assms(1-3), of s m "b @ c"] assms(6) by (auto simp: Let_def min_def)
  have 3: "aap_parse s m p b = Inr (length b, after_payload p b, m)"
    using aap_parse_payload_after [OF assms(1-3), of s m b] assms(6) by (simp add: Let_def)
  have 4: "0 < ?n" using assms(5,6) by auto
  show ?thesis by (rule split_partial [OF assms(2,4,5) 3 ap(3) 4 _ 1 2]) simp
qed

lemma parse_aap_stream:
  assumes "parser_ok p" and "allocs_left p \<le> length as" and "c \<noteq> []"
  shows "parse_aap s (map Some as) p (b @ c) = then_parse s (parse_aap s (map Some as) p b) b c"
  using assms(1,2)
proof (induction b arbitrary: p as rule: length_induct)
  case (1 b)
  let ?m = "map Some as"
  let ?P = "\<lambda>m p b'. parser_ok p \<and> (\<exists>as. m = map Some as \<and> allocs_left p \<le> length as)"
  show ?case
  proof (cases "status p = PARSER_STATUS_GOOD \<and> b \<noteq> []")
    case False
    then show ?thesis
      by (auto simp: parse_aap_stop then_parse_def bump_0)
  next
    case True
    then have g: "status p = PARSER_STATUS_GOOD" "b \<noteq> []" by auto
    have IH: "\<And>m p b'. length b' < length b \<Longrightarrow> ?P m p b' \<Longrightarrow>
        parse_aap s m p (b' @ c) = then_parse s (parse_aap s m p b') b' c"
      using 1(1) by blast
    obtain n p1 as1 where st: "aap_parse s ?m p b = Inr (n, p1, map Some as1)" "n \<le> length b"
        "parser_ok p1" "allocs_left p1 \<le> length as1"
      using aap_parse_ok [OF 1(2) g(1) 1(3), where s = s and b = b] by (auto split: sum.splits)
    then have P1: "?P (map Some as1) p1 (drop n b)" by blast
    have whole: ?thesis if "0 < n" "aap_parse s ?m p (b @ c) = Inr (n, p1, map Some as1)"
      using split_prefix [where P = ?P, OF IH g that(1) st(2,1) that(2) P1] .
    show ?thesis
    proof (cases "n = 0")
      case True
      then have "parse_aap s ?m p b = Inr (0, p, ?m)"
        using aap_parse_zero [OF 1(2) g] st(1) parse_aap_wait [OF g] by metis
      then show ?thesis
        by (simp add: then_parse_def bump_0)
    next
      case False
      consider "parse p = Aap_parse_eid" "length b < remaining p" | "parse p = Aap_parse_payload" "length b < remaining p"
        | "parse p = Aap_parse_eid" "remaining p \<le> length b" | "parse p = Aap_parse_payload" "remaining p \<le> length b"
        | "parse p \<noteq> Aap_parse_eid" "parse p \<noteq> Aap_parse_payload" by linarith
      then show ?thesis
      proof cases
        case 1
        then show ?thesis using split_eid [OF \<open>parser_ok p\<close> g(1) _ g(2) assms(3)] by blast
      next
        case 2
        then show ?thesis using split_payload [OF \<open>parser_ok p\<close> g(1) _ g(2) assms(3)] by blast
      next
        case 3
        then have "aap_parse s ?m p (b @ c) = aap_parse s ?m p b"
          using aap_parse_eid_after [OF \<open>parser_ok p\<close> g(1)] by (simp add: Let_def min_def)
        then show ?thesis using whole False st(1) by simp
      next
        case 4
        then have "aap_parse s ?m p (b @ c) = aap_parse s ?m p b"
          using aap_parse_payload_after [OF \<open>parser_ok p\<close> g(1)] by (simp add: Let_def min_def)
        then show ?thesis using whole False st(1) by simp
      next
        case 5
        then show ?thesis using whole False st(1) aap_parse_fixed by simp
      qed
    qed
  qed
qed

section \<open>Round trip\<close>

definition aap_canonical :: "nat \<Rightarrow> aap_message \<Rightarrow> bool" where
  "aap_canonical SIZE_MAX msg \<longleftrightarrow> aap_type msg \<le> AAP_MESSAGE_PING \<and>
     (if has_eid (aap_type msg)
      then (case aap_eid msg of None \<Rightarrow> False
        | Some e \<Rightarrow> e = butlast e @ [0] \<and> 0 \<notin> set (butlast e) \<and> length e = aap_eid_length msg + 1) \<and>
        aap_eid_length msg \<le> 65535
      else aap_eid msg = None \<and> aap_eid_length msg = 0) \<and>
     (if has_payload (aap_type msg)
      then (case aap_payload msg of None \<Rightarrow> False | Some d \<Rightarrow> length d = aap_payload_length msg) \<and>
        aap_payload_length msg < 2 ^ 64 \<and> aap_payload_length msg \<le> SIZE_MAX \<and> aap_eid_length msg \<noteq> 0
      else aap_payload msg = None \<and> aap_payload_length msg = 0) \<and>
     (if has_bundle_id (aap_type msg) then aap_bundle_id msg \<noteq> BUNDLE_INVALID_ID else aap_bundle_id msg = 0)"

lemma aap_type_cases:
  assumes "(t :: u8) \<le> 8"
  obtains "t = 0" | "t = 1" | "t = 2" | "t = 3" | "t = 4" | "t = 5" | "t = 6" | "t = 7" | "t = 8"
proof -
  have "unat t \<le> 8" using assms by (simp add: word_le_nat_alt)
  then have "unat t \<in> {0, 1, 2, 3, 4, 5, 6, 7, 8}" by auto
  moreover have "n \<in> {0, 1, 2, 3, 4, 5, 6, 7, 8} \<Longrightarrow>
      (of_nat n :: u8) \<in> {0, 1, 2, 3, 4, 5, 6, 7, 8}" for n :: nat
    by auto
  ultimately have "(of_nat (unat t) :: u8) \<in> {0, 1, 2, 3, 4, 5, 6, 7, 8}" by blast
  then show thesis using that by auto
qed
lemma parse_first_byte:
  assumes "t \<le> AAP_MESSAGE_PING" and "status p = PARSER_STATUS_GOOD" and "parse p = Aap_parse_type"
  shows "aap_parse s m p ((push_bit 4 1 OR (t AND 0xF)) # b) =
    (let p1 = p\<lparr>message := (message p)\<lparr>aap_type := t\<rparr>\<rparr> in
     Inr (1, if has_eid t then p1\<lparr>parse := Aap_parse_eid_length\<rparr>
             else if has_bundle_id t then p1\<lparr>parse := Aap_parse_bundle_id\<rparr>
             else p1\<lparr>status := PARSER_STATUS_DONE\<rparr>, m))"
  using assms(1)
  by (rule aap_type_cases) (use assms(2,3) in \<open>simp_all add: aap_parse_def aap_parse_type_def has_eid_def
      has_bundle_id_def Let_def\<close>)

lemma write_at_whole: "length x = n \<Longrightarrow> write_at (replicate n 0) 0 x = x"
  by (simp add: write_at_def)

lemma parse_bundle_id_bytes:
  assumes "status p = PARSER_STATUS_GOOD" and "parse p = Aap_parse_bundle_id"
  shows "parse_aap s m p (put_uint64 (ucast (k :: u16))) =
    Inr (8, p\<lparr>message := (message p)\<lparr>aap_bundle_id := k\<rparr>, status := PARSER_STATUS_DONE\<rparr>, m)"
proof -
  have "(ucast (ucast k :: u64) :: u16) = k" by (rule bit_word_eqI) (auto simp: bit_simps)
  then have "aap_parse s m p (put_uint64 (ucast k)) =
      Inr (8, p\<lparr>message := (message p)\<lparr>aap_bundle_id := k\<rparr>, status := PARSER_STATUS_DONE\<rparr>, m)"
    using assms read_put_uint64 [of "ucast k" "[]"] by (simp add: aap_parse_def aap_parse_bundle_id_def)
  with assms(1) show ?thesis
    by (subst parse_aap_step) (auto simp: parse_aap_stop bump_tuple simp flip: length_greater_0_conv)
qed

lemma parse_payload_bytes:
  assumes "status p = PARSER_STATUS_GOOD" and "parse p = Aap_parse_payload_length"
    and "has_payload (aap_type (message p))" and "length d < 2 ^ 64" and "length d \<le> s"
    and "max_payload_length p = 0"
  shows "\<exists>p'. parse_aap s (Some a # m) p (put_uint64 (of_nat (length d)) @ d) = Inr (8 + length d, p', m) \<and>
    status p' = PARSER_STATUS_DONE \<and>
    message p' = (message p)\<lparr>aap_payload_length := length d, aap_payload := Some d\<rparr>"
proof -
  let ?b = "put_uint64 (of_nat (length d)) @ d"
  let ?p1 = "p\<lparr>message := (message p)\<lparr>aap_payload_length := length d, aap_payload := Some (replicate (length d) 0)\<rparr>,
     consumed := 0, remaining := length d,
     status := (if length d = 0 then PARSER_STATUS_DONE else PARSER_STATUS_GOOD), parse := Aap_parse_payload\<rparr>"
  have n: "unat (read_uint64 ?b) = length d"
    using assms(4) by (simp add: read_put_uint64 unsigned_of_nat take_bit_nat_eq_self)
  have "aap_parse s (Some a # m) p ?b = Inr (8, ?p1, m)"
    using assms n by (auto simp: aap_parse_def aap_parse_payload_length_def Let_def)
  then have st: "parse_aap s (Some a # m) p ?b = obind (parse_aap s m ?p1 d) (bump 8)"
    using assms(1) by (subst parse_aap_step) (auto simp flip: length_greater_0_conv)
  show ?thesis
  proof (cases "d = []")
    case True
    then show ?thesis using st by (simp add: parse_aap_stop bump_tuple)
  next
    case False
    let ?p2 = "after_payload ?p1 d"
    have "parser_ok ?p1" using False by (simp add: parser_ok_def)
    then have "aap_parse s m ?p1 d = Inr (length d, ?p2, m)"
      using aap_parse_payload_after [of ?p1 s m d] False by (simp add: Let_def)
    moreover have "status ?p2 = PARSER_STATUS_DONE" by (simp add: after_payload_def)
    ultimately have "parse_aap s m ?p1 d = Inr (length d, ?p2, m)"
      using False by (subst parse_aap_step) (auto simp: parse_aap_stop bump_tuple)
    moreover have "message ?p2 = (message p)\<lparr>aap_payload_length := length d, aap_payload := Some d\<rparr>"
      by (simp add: after_payload_def write_at_whole)
    ultimately show ?thesis using st \<open>status ?p2 = _\<close> by (simp add: bump_tuple del: after_payload_def)
  qed
qed

lemma parse_eid_bytes:
  assumes "status p = PARSER_STATUS_GOOD" and "parse p = Aap_parse_eid_length"
    and "has_eid (aap_type (message p))" and "length x \<le> 65535"
    and "x = [] \<longrightarrow> \<not> has_payload (aap_type (message p))"
  shows "\<exists>p'. parse_aap s (Some a # m) p (ucast (0xFF AND drop_bit 8 (of_nat (length x) :: u64)) #
      ucast (0xFF AND (of_nat (length x) :: u64)) # x @ rest) =
        obind (parse_aap s m p' rest) (bump (2 + length x)) \<and>
    message p' = (message p)\<lparr>aap_eid_length := length x, aap_eid := Some (x @ [0])\<rparr> \<and>
    max_payload_length p' = max_payload_length p \<and>
    (if has_payload (aap_type (message p))
     then status p' = PARSER_STATUS_GOOD \<and> parse p' = Aap_parse_payload_length
     else status p' = PARSER_STATUS_DONE)"
proof -
  let ?b = "ucast (0xFF AND drop_bit 8 (of_nat (length x) :: u64)) #
      ucast (0xFF AND (of_nat (length x) :: u64)) # x @ rest"
  let ?p1 = "p\<lparr>message := (message p)\<lparr>aap_eid_length := length x, aap_eid := Some (replicate (length x + 1) 0)\<rparr>,
     consumed := 0, remaining := length x,
     status := (if length x = 0 then PARSER_STATUS_DONE else PARSER_STATUS_GOOD), parse := Aap_parse_eid\<rparr>"
  have "aap_parse s (Some a # m) p ?b = Inr (2, ?p1, m)"
    using assms u16_be [OF assms(4)] by (auto simp: aap_parse_def aap_parse_eid_length_def Let_def)
  then have st: "parse_aap s (Some a # m) p ?b = obind (parse_aap s m ?p1 (x @ rest)) (bump 2)"
    using assms(1) by (subst parse_aap_step) auto
  show ?thesis
  proof (cases "x = []")
    case True
    then show ?thesis
      using st assms(5) by (intro exI [of _ ?p1]) simp
  next
    case False
    let ?p2 = "after_eid ?p1 x"
    have "parser_ok ?p1" using False assms(3) by (simp add: parser_ok_def)
    then have "aap_parse s m ?p1 (x @ rest) = Inr (length x, ?p2, m)"
      using aap_parse_eid_after [of ?p1 s m "x @ rest"] False by (simp add: Let_def)
    then have "parse_aap s m ?p1 (x @ rest) = obind (parse_aap s m ?p2 rest) (bump (length x))"
      using False by (subst parse_aap_step) auto
    with st have "parse_aap s (Some a # m) p ?b = obind (parse_aap s m ?p2 rest) (bump (2 + length x))"
      by (simp only: obind_assoc bump_bump)
    moreover have "write_at (write_at (replicate (Suc (length x)) 0) 0 x) (length x) [0] = x @ [0]"
      by (simp add: write_at_def)
    then have "message ?p2 = (message p)\<lparr>aap_eid_length := length x, aap_eid := Some (x @ [0])\<rparr> \<and>
      max_payload_length ?p2 = max_payload_length p \<and>
      (if has_payload (aap_type (message p))
       then status ?p2 = PARSER_STATUS_GOOD \<and> parse ?p2 = Aap_parse_payload_length
       else status ?p2 = PARSER_STATUS_DONE)"
      using False by (simp add: after_eid_def Let_def)
    ultimately show ?thesis by blast
  qed
qed

lemma copy_bytes_eid: "length e = n + 1 \<Longrightarrow> copy_bytes (Some e) n = Inr (butlast e)"
  by (auto simp: copy_bytes_def butlast_conv_take)

lemma copy_bytes_all: "length d = n \<Longrightarrow> copy_bytes (Some d) n = Inr d"
  by (auto simp: copy_bytes_def)

lemma roundtrip_aux:
  assumes c: "aap_canonical s msg"
    and p: "status p = PARSER_STATUS_GOOD" "parse p = Aap_parse_type" "max_payload_length p = 0"
      "message p = aap_message_clear empty_message"
  shows "\<exists>bs p' m'. aap_serialize msg = Inr bs \<and>
    parse_aap s (Some a1 # Some a2 # m) p bs = Inr (length bs, p', m') \<and>
    status p' = PARSER_STATUS_DONE \<and> message p' = msg"
proof -
  let ?t = "aap_type msg" and ?m = "Some a1 # Some a2 # m"
  have t: "?t \<le> 8" using c by (simp add: aap_canonical_def)
  let ?h = "push_bit 4 1 OR (?t AND 0xF)"
  let ?p1 = "p\<lparr>message := (message p)\<lparr>aap_type := ?t\<rparr>\<rparr>"
  have first: "parse_aap s ?m p (?h # b) = obind (parse_aap s ?m (if has_eid ?t then ?p1\<lparr>parse := Aap_parse_eid_length\<rparr>
             else if has_bundle_id ?t then ?p1\<lparr>parse := Aap_parse_bundle_id\<rparr>
             else ?p1\<lparr>status := PARSER_STATUS_DONE\<rparr>) b) (bump 1)" for b
    using p by (subst parse_aap_step [OF p(1) _ parse_first_byte [OF t p(1,2), unfolded Let_def]]) auto
  consider (eid) "has_eid ?t" "\<not> has_payload ?t" | (full) "has_eid ?t" "has_payload ?t"
    | (id) "\<not> has_eid ?t" "has_bundle_id ?t" | (plain) "\<not> has_eid ?t" "\<not> has_bundle_id ?t" by blast
  then show ?thesis
  proof cases
    case plain
    then have "\<not> has_payload ?t" by (auto simp: has_eid_def has_payload_def)
    with plain c have ser: "aap_serialize msg = Inr [?h]" by (simp add: aap_serialize_def)
    have "msg = (message p)\<lparr>aap_type := ?t\<rparr>"
      using c plain \<open>\<not> has_payload ?t\<close> p(4)
      by (simp add: aap_canonical_def aap_message_clear_def empty_message_def)
    with plain ser first [of "[]"] show ?thesis by (simp add: parse_aap_stop bump_tuple)
  next
    case id
    then have np: "\<not> has_payload ?t" by (auto simp: has_eid_def has_payload_def)
    with id c have ser: "aap_serialize msg = Inr (?h # put_uint64 (ucast (aap_bundle_id msg)))"
      by (simp add: aap_serialize_def)
    have "msg = (message p)\<lparr>aap_type := ?t, aap_bundle_id := aap_bundle_id msg\<rparr>"
      using c id np p(4) by (simp add: aap_canonical_def aap_message_clear_def empty_message_def)
    with id ser first [of "put_uint64 (ucast (aap_bundle_id msg))"] p(1) show ?thesis
      by (simp add: parse_bundle_id_bytes bump_tuple)
  next
    case eid
    then have nb: "\<not> has_bundle_id ?t" by (auto simp: has_eid_def has_bundle_id_def)
    obtain e where e: "aap_eid msg = Some e" "e = butlast e @ [0]" "length e = aap_eid_length msg + 1"
        "aap_eid_length msg \<le> 65535"
      using c eid by (auto simp: aap_canonical_def split: option.splits)
    let ?x = "butlast e"
    have len: "length ?x = aap_eid_length msg" using e(3) by simp
    let ?b = "ucast (0xFF AND drop_bit 8 (of_nat (length ?x) :: u64)) #
      ucast (0xFF AND (of_nat (length ?x) :: u64)) # ?x @ []"
    have ser: "aap_serialize msg = Inr (?h # ?b)"
      using eid nb e(1) copy_bytes_eid [OF e(3)] len by (simp add: aap_serialize_def)
    obtain p' where p': "parse_aap s ?m (?p1\<lparr>parse := Aap_parse_eid_length\<rparr>) ?b =
          obind (parse_aap s (Some a2 # m) p' []) (bump (2 + length ?x))"
        "message p' = (message ?p1)\<lparr>aap_eid_length := length ?x, aap_eid := Some (?x @ [0])\<rparr>"
        "status p' = PARSER_STATUS_DONE"
      using parse_eid_bytes [of "?p1\<lparr>parse := Aap_parse_eid_length\<rparr>" ?x s a1 "Some a2 # m" "[]"]
        p(1) eid e(4) len by auto
    have "message p' = msg"
      using c eid nb p'(2) p(4) e(1,2) len
      by (simp add: aap_canonical_def aap_message_clear_def empty_message_def)
    moreover have "parse_aap s ?m p (?h # ?b) = Inr (length (?h # ?b), p', Some a2 # m)"
      unfolding first using eid(1) p'(1) by (simp add: parse_aap_stop bump_tuple)
    ultimately show ?thesis using ser p'(3) by blast
  next
    case full
    then have nb: "\<not> has_bundle_id ?t" by (auto simp: has_eid_def has_bundle_id_def)
    obtain e where e: "aap_eid msg = Some e" "e = butlast e @ [0]" "length e = aap_eid_length msg + 1"
        "aap_eid_length msg \<le> 65535"
      using c full by (auto simp: aap_canonical_def split: option.splits)
    obtain d where d: "aap_payload msg = Some d" "length d = aap_payload_length msg"
        "length d < 2 ^ 64" "length d \<le> s" "aap_eid_length msg \<noteq> 0"
      using c full by (auto simp: aap_canonical_def split: option.splits)
    let ?x = "butlast e"
    have len: "length ?x = aap_eid_length msg" using e(3) by simp
    let ?pl = "put_uint64 (of_nat (length d)) @ d"
    let ?b = "ucast (0xFF AND drop_bit 8 (of_nat (length ?x) :: u64)) #
      ucast (0xFF AND (of_nat (length ?x) :: u64)) # ?x @ ?pl"
    have ser: "aap_serialize msg = Inr (?h # ?b)"
      using full nb e(1) d(1,2) copy_bytes_eid [OF e(3)] copy_bytes_all [OF d(2)] len
      by (simp add: aap_serialize_def)
    have x: "?x \<noteq> []" using len d(5) by (metis list.size(3))
    obtain p' where p': "parse_aap s ?m (?p1\<lparr>parse := Aap_parse_eid_length\<rparr>) ?b =
          obind (parse_aap s (Some a2 # m) p' ?pl) (bump (2 + length ?x))"
        "message p' = (message ?p1)\<lparr>aap_eid_length := length ?x, aap_eid := Some (?x @ [0])\<rparr>"
        "status p' = PARSER_STATUS_GOOD" "parse p' = Aap_parse_payload_length" "max_payload_length p' = 0"
      using parse_eid_bytes [of "?p1\<lparr>parse := Aap_parse_eid_length\<rparr>" ?x s a1 "Some a2 # m" ?pl]
        p(1,3) full e(4) len x by auto
    obtain p2 where p2: "parse_aap s (Some a2 # m) p' ?pl = Inr (8 + length d, p2, m)"
        "status p2 = PARSER_STATUS_DONE"
        "message p2 = (message p')\<lparr>aap_payload_length := length d, aap_payload := Some d\<rparr>"
      using parse_payload_bytes [OF p'(3,4) _ d(3,4) p'(5), of a2 m] full(2) p'(2) by auto
    have "message p2 = msg"
      using c full nb p'(2) p2(3) p(4) e(1,2) len d(1,2)
      by (simp add: aap_canonical_def aap_message_clear_def empty_message_def)
    moreover have "parse_aap s ?m p (?h # ?b) = Inr (length (?h # ?b), p2, m)"
      unfolding first using full(1) p'(1) p2(1) by (simp add: bump_tuple)
    ultimately show ?thesis using ser p2(2) by blast
  qed
qed

section \<open>Properties\<close>

definition sample_message :: aap_message where
  "sample_message = \<lparr>aap_type = AAP_MESSAGE_SENDBUNDLE, aap_eid = Some [0x64, 0x74, 0], aap_eid_length = 2,
     aap_payload = Some [7, 8, 9], aap_payload_length = 3, aap_bundle_id = 0\<rparr>"

lemma canonical_valid: "aap_canonical s msg \<Longrightarrow> aap_message_is_valid msg = Inr True"
proof -
  assume c: "aap_canonical s msg"
  have "c_strlen e = Inr (length e - 1)" if "e = butlast e @ [0]" "0 \<notin> set (butlast e)" for e :: bytes
  proof -
    have "takeWhile (\<lambda>x. x \<noteq> 0) (butlast e @ [0]) = butlast e"
      using that(2) by (subst takeWhile_append2) auto
    moreover have "0 \<in> set (butlast e @ [0])" by simp
    ultimately show ?thesis using that(1) by (metis c_strlen_def length_butlast)
  qed
  then show ?thesis
    using c by (auto simp: aap_canonical_def aap_message_is_valid_def not_less split: option.splits if_splits)
qed

lemma serialized_size: "aap_serialize msg = Inr bs \<Longrightarrow> length bs = aap_get_serialized_size msg"
  by (auto simp: aap_serialize_def aap_get_serialized_size_def copy_bytes_def obind_eq_Inr
      split: if_splits option.splits)

lemma init_fields: "status (aap_parser_init p) = PARSER_STATUS_GOOD"
  "parse (aap_parser_init p) = Aap_parse_type" "max_payload_length (aap_parser_init p) = 0"
  "message (aap_parser_init p) = aap_message_clear empty_message"
  by (simp_all add: aap_parser_init_def aap_parser_reset_def)

text \<open>
  C4 (roundtrip). A well-formed application agent message of any type is serialized to exactly the
  announced number of bytes, which a fresh parser driven by the agent's loop consumes completely; it
  reports completion and the extracted message is the one that was sent, a valid one. The parser needs
  two successful allocations.
\<close>

theorem aap_roundtrip:
  assumes "aap_canonical s msg"
  shows "aap_message_is_valid msg = Inr True \<and>
    (\<exists>bs p' m'. aap_serialize msg = Inr bs \<and> length bs = aap_get_serialized_size msg \<and>
       aap_serialize_into (aap_get_serialized_size msg) msg = Inr bs \<and>
       parse_aap s (Some a1 # Some a2 # m) (aap_parser_init p) bs = Inr (length bs, p', m') \<and>
       status p' = PARSER_STATUS_DONE \<and> fst (aap_parser_extract_message p') = msg)"
proof -
  obtain bs p' m' where "aap_serialize msg = Inr bs"
      "parse_aap s (Some a1 # Some a2 # m) (aap_parser_init p) bs = Inr (length bs, p', m')"
      "status p' = PARSER_STATUS_DONE" "message p' = msg"
    using roundtrip_aux [OF assms init_fields, of a1 a2 m p] by blast
  then show ?thesis
    using canonical_valid [OF assms] serialized_size [of msg bs]
    by (auto simp: aap_parser_extract_message_def aap_serialize_into_def)
qed

theorem aap_roundtrip_witness:
  "aap_canonical 1000 sample_message \<and> aap_message_is_valid sample_message = Inr True \<and>
   (\<exists>bs p' m'. aap_serialize sample_message = Inr bs \<and> length bs = 16 \<and>
      parse_aap 1000 [Some 1, Some 2] (aap_parser_init undefined) bs = Inr (16, p', m') \<and>
      status p' = PARSER_STATUS_DONE \<and> fst (aap_parser_extract_message p') = sample_message)"
proof -
  have c: "aap_canonical 1000 sample_message"
    by (simp add: aap_canonical_def sample_message_def has_eid_def has_payload_def has_bundle_id_def)
  have "aap_get_serialized_size sample_message = 16"
    by (simp add: aap_get_serialized_size_def sample_message_def has_eid_def has_payload_def has_bundle_id_def)
  then show ?thesis using aap_roundtrip [OF c, of 1 2 "[]" undefined] c by auto
qed

text \<open>
  C29 (safety). From any state the parser can be in, and whatever bytes arrive, feeding them never faults
  while allocations succeed, consumes at most what was given, and keeps the parser's invariant; and it
  does not matter how the stream is cut: parsing two pieces together gives what parsing the first piece
  and then, with what was left of it, the second gives.
\<close>

theorem aap_parser_stream:
  assumes "parser_ok p" and "allocs_left p \<le> length as" and "c \<noteq> []"
  shows "(\<exists>n p' as'. parse_aap s (map Some as) p b = Inr (n, p', map Some as') \<and> n \<le> length b \<and>
            parser_ok p' \<and> allocs_left p' \<le> length as') \<and>
    parse_aap s (map Some as) p (b @ c) = then_parse s (parse_aap s (map Some as) p b) b c"
  using parse_aap_ok [OF assms(1,2), where s = s and b = b] parse_aap_stream [OF assms, where s = s and b = b]
  by (auto split: sum.splits)

theorem aap_parser_stream_witness:
  "(\<exists>n p' as'. parse_aap 1000 [Some 1, Some 2] (aap_parser_init undefined) [0x12, 0] = Inr (n, p', map Some as') \<and>
      n \<le> length [0x12, 0 :: u8] \<and> parser_ok p' \<and> allocs_left p' \<le> length as') \<and>
   parse_aap 1000 [Some 1, Some 2] (aap_parser_init undefined) [0x12, 0, 1, 0x61] =
     then_parse 1000 (parse_aap 1000 [Some 1, Some 2] (aap_parser_init undefined) [0x12, 0]) [0x12, 0] [1, 0x61]"
  using aap_parser_stream [OF parser_ok_init(1) [of undefined], where as = "[1, 2]" and c = "[1, 0x61]" and s = 1000 and b = "[0x12, 0]"]
  by (simp add: parser_ok_init)

text \<open>
  C38 (error). The error paths of the parser: a wrong protocol version or an unknown type in the first
  byte, a payload length above the configured maximum or above the size of the address space, and a
  failed allocation of the payload all end in the error status; a failed allocation of the EID buffer
  does not, since the terminator is written through the null pointer before it is tested.
\<close>

theorem aap_parse_errors:
  "(drop_bit 4 (x AND 0xF0) \<noteq> 0x1 \<or> x AND 0x0F > AAP_MESSAGE_PING \<longrightarrow>
      (\<exists>p'. aap_parse_type m p (x # b) = Inr (1, p', m) \<and> status p' = PARSER_STATUS_ERROR)) \<and>
   (8 \<le> length b \<and> (unat (read_uint64 b) > s \<or>
      max_payload_length p \<noteq> 0 \<and> unat (read_uint64 b) > max_payload_length p) \<longrightarrow>
      (\<exists>p'. aap_parse_payload_length s m p b = Inr (8, p', m) \<and> status p' = PARSER_STATUS_ERROR)) \<and>
   (8 \<le> length b \<longrightarrow>
      (\<exists>p' m'. aap_parse_payload_length s (None # m) p b = Inr (8, p', m') \<and> status p' = PARSER_STATUS_ERROR)) \<and>
   (2 \<le> length b \<longrightarrow> aap_parse_eid_length (None # m) p b = Inl Null_Deref)"
proof (intro conjI impI)
  assume "drop_bit 4 (x AND 0xF0) \<noteq> 0x1 \<or> x AND 0x0F > AAP_MESSAGE_PING"
  then show "\<exists>p'. aap_parse_type m p (x # b) = Inr (1, p', m) \<and> status p' = PARSER_STATUS_ERROR"
    by (auto simp: aap_parse_type_def has_eid_def has_bundle_id_def Let_def)
qed (auto simp: aap_parse_payload_length_def aap_parse_eid_length_def Let_def)

theorem aap_parse_errors_witness:
  "(\<exists>p'. aap_parse_type [] (aap_parser_init undefined) [0x20, 0, 0, 0, 0, 0, 0, 0, 9] = Inr (1, p', []) \<and>
      status p' = PARSER_STATUS_ERROR) \<and>
   aap_parse_eid_length [None] (aap_parser_init undefined) [0, 0, 0, 0, 0, 0, 0, 9] = Inl Null_Deref"
  using aap_parse_errors [of "0x20" "[]" "aap_parser_init undefined" "[0, 0, 0, 0, 0, 0, 0, 9]"] by simp

text \<open>
  A bundle message whose EID has length zero is complete for the parser after three
  bytes: the payload that follows it is never read, and the message is delivered without one.
\<close>

theorem aap_empty_eid:
  assumes "t = AAP_MESSAGE_SENDBUNDLE \<or> t = AAP_MESSAGE_RECVBUNDLE"
  shows "\<exists>p'. parse_aap s (Some a # m) (aap_parser_init p) ((push_bit 4 1 OR t) # 0 # 0 # b) = Inr (3, p', m) \<and>
    status p' = PARSER_STATUS_DONE \<and> aap_type (message p') = t \<and> aap_payload (message p') = None"
proof -
  have t: "t AND 0xF = t" "t \<le> 8" "has_eid t" using assms by (auto simp: has_eid_def)
  note first = parse_first_byte [OF t(2) init_fields(1,2), unfolded t(1), of s "Some a # m" p "0 # 0 # b"]
  let ?p = "(aap_parser_init p)\<lparr>message := (message (aap_parser_init p))\<lparr>aap_type := t\<rparr>,
      parse := Aap_parse_eid_length\<rparr>"
  have "parse_aap s (Some a # m) (aap_parser_init p) ((push_bit 4 1 OR t) # 0 # 0 # b) =
      obind (parse_aap s (Some a # m) ?p (0 # 0 # b)) (bump 1)"
    using parse_aap_step [OF init_fields(1) _ first [unfolded Let_def]] t(3) by simp
  moreover obtain p' where "aap_parse s (Some a # m) ?p (0 # 0 # b) = Inr (2, p', m)"
      "status p' = PARSER_STATUS_DONE" "aap_type (message p') = t" "aap_payload (message p') = None"
    by (simp add: aap_parse_def aap_parse_eid_length_def Let_def init_fields aap_message_clear_def
        empty_message_def)
  ultimately show ?thesis
    using parse_aap_step [of ?p "0 # 0 # b" s "Some a # m" 2 p' m]
    by (simp add: init_fields parse_aap_stop bump_tuple)
qed

theorem aap_empty_eid_witness:
  "\<exists>p'. parse_aap 1000 [Some 1] (aap_parser_init undefined) [0x13, 0, 0, 0, 0, 0, 0, 0, 0, 0, 1, 0xAA] = Inr (3, p', []) \<and>
    status p' = PARSER_STATUS_DONE \<and> aap_type (message p') = AAP_MESSAGE_SENDBUNDLE \<and> aap_payload (message p') = None"
  using aap_empty_eid [of 3 1000 1 "[]" undefined "[0, 0, 0, 0, 0, 0, 0, 1, 0xAA]"] by simp

end
