(* ===== verification/Bundle6.thy ===== *)
theory Bundle6
  imports Sdnv Bundle
begin

text \<open>
  RFC 5050 bundles: the dictionary and the sizes of \<open>components/bundle6/bundle6.c\<close>, the creation of
  local bundles (\<open>create.c\<close>) and the serializer (\<open>serializer.c\<close>). EIDs are \<open>string option\<close>, \<open>None\<close>
  being the null pointer; the dictionary is a sequence of bytes. Sizes of type \<open>size_t\<close> are natural
  numbers, the 16-bit offsets and lengths are words, with the truncation of each assignment written
  out. The flexible array \<open>eid_references\<close> is a list; its allocated size is \<open>eid_reference_count\<close>, and
  an access behind it is the fault \<open>Out_Of_Bounds\<close>. The serializer writes the first byte of the
  enumeration \<open>type\<close>, the lowest one on the little-endian machines the program runs on.
\<close>

section \<open>The dictionary\<close>

datatype upcn_result = UPCN_OK | UPCN_FAIL

abbreviation (input) "BUNDLE_V6_BLOCK_FLAG_LAST_BLOCK \<equiv> (0x08 :: u32)"
abbreviation (input) "BUNDLE_V6_BLOCK_FLAG_HAS_EID_REF_FIELD \<equiv> (0x40 :: u32)"

definition char_byte :: "char \<Rightarrow> u8" where
  "char_byte c = of_nat (of_char c)"

definition byte_char :: "u8 \<Rightarrow> char" where
  "byte_char b = char_of (unat b)"

definition c_chars :: "string \<Rightarrow> bytes" where
  "c_chars s = map char_byte s"

text \<open>The part of an EID before its first colon and the part behind it.\<close>

definition eid_scheme :: "string \<Rightarrow> string" where
  "eid_scheme eid = takeWhile (\<lambda>c. c \<noteq> CHR '':'') eid"

definition eid_ssp :: "string \<Rightarrow> string" where
  "eid_ssp eid = tl (dropWhile (\<lambda>c. c \<noteq> CHR '':'') eid)"

record bundle6_eid_info =
  str_ptr :: "string option"
  ssp_ptr :: nat
  dict_scheme_offset :: u16
  dict_ssp_offset :: u16

record bundle6_dict_descriptor =
  dict_length_bytes :: nat
  eid_reference_count :: nat
  destination_eid_info :: bundle6_eid_info
  source_eid_info :: bundle6_eid_info
  report_to_eid_info :: bundle6_eid_info
  custodian_eid_info :: bundle6_eid_info
  eid_references :: "bundle6_eid_info list"

definition write_scheme :: "string option \<Rightarrow> bytes" where
  "write_scheme eid = (case eid of
       None \<Rightarrow> c_chars ''dtn'' @ [0]
     | Some s \<Rightarrow> if CHR '':'' \<in> set s then c_chars (eid_scheme s) @ [0] else c_chars ''dtn'' @ [0])"

definition write_ssp :: "string option \<Rightarrow> bytes" where
  "write_ssp eid = (case eid of
       None \<Rightarrow> c_chars ''none'' @ [0]
     | Some s \<Rightarrow> if CHR '':'' \<in> set s then c_chars (eid_ssp s) @ [0] else c_chars ''none'' @ [0])"

definition write_eid :: "bundle6_eid_info \<Rightarrow> bytes" where
  "write_eid info = write_scheme (str_ptr info) @ write_ssp (str_ptr info)"

text \<open>The bytes written to \<open>buf\<close>; the loop over the references runs up to \<open>eid_reference_count\<close>.\<close>

definition bundle6_serialize_dictionary :: "bundle6_dict_descriptor \<Rightarrow> bytes" where
  "bundle6_serialize_dictionary desc =
     write_eid (destination_eid_info desc) @ write_eid (source_eid_info desc) @
     write_eid (report_to_eid_info desc) @ write_eid (custodian_eid_info desc) @
     concat (map write_eid (take (eid_reference_count desc) (eid_references desc)))"

text \<open>\<open>strlen\<close> of every EID; those of the extension blocks must not be null.\<close>

fun sum_eid_refs :: "string option list \<Rightarrow> nat outcome" where
  "sum_eid_refs [] = Inr 0"
| "sum_eid_refs (None # rs) = Inl Null_Deref"
| "sum_eid_refs (Some s # rs) = obind (sum_eid_refs rs) (\<lambda>n. Inr (length s + 1 + n))"

definition bundle6_get_dict_length :: "bundle_t \<Rightarrow> nat outcome" where
  "bundle6_get_dict_length b =
     (let eid_size = (\<lambda>e. case e of None \<Rightarrow> 9 | Some s \<Rightarrow> length s + 1) in
      obind (sum_eid_refs (concat (map (eid_refs \<circ> snd) (blocks b)))) (\<lambda>n. Inr
        (eid_size (destination b) + eid_size (source b) + eid_size (report_to b) +
         eid_size (current_custodian b) + n)))"

record eid_len_info =
  scheme_len :: nat
  ssp_len :: nat

definition analyze_eid :: "string option \<Rightarrow> eid_len_info" where
  "analyze_eid eid = (case eid of
       None \<Rightarrow> \<lparr>scheme_len = 3, ssp_len = 4\<rparr>
     | Some s \<Rightarrow> if CHR '':'' \<in> set s
         then \<lparr>scheme_len = length (eid_scheme s), ssp_len = length (eid_ssp s)\<rparr>
         else \<lparr>scheme_len = 3, ssp_len = 4\<rparr>)"

text \<open>The information on one EID, and the length of the dictionary after it.\<close>

definition calculate_eid_info :: "string option \<Rightarrow> nat \<Rightarrow> bundle6_eid_info \<times> nat" where
  "calculate_eid_info eid len =
     (let info = analyze_eid eid in
      (\<lparr>str_ptr = eid, ssp_ptr = scheme_len info + 1, dict_scheme_offset = of_nat len,
        dict_ssp_offset = of_nat (len + scheme_len info + 1)\<rparr>,
       len + scheme_len info + ssp_len info + 2))"

fun calculate_eid_infos :: "string option list \<Rightarrow> nat \<Rightarrow> bundle6_eid_info list \<times> nat" where
  "calculate_eid_infos [] len = ([], len)"
| "calculate_eid_infos (e # es) len =
     (let (i, len1) = calculate_eid_info e len; (is, len2) = calculate_eid_infos es len1
      in (i # is, len2))"

text \<open>
  Space is allocated for the references of the blocks that carry the flag, and the references of all
  blocks are stored.
\<close>

definition has_eid_ref_field :: "bundle_block \<Rightarrow> bool" where
  "has_eid_ref_field blk \<longleftrightarrow> HAS_FLAG (blk_flags blk) BUNDLE_V6_BLOCK_FLAG_HAS_EID_REF_FIELD"

definition count_eid_refs :: "block_list \<Rightarrow> nat" where
  "count_eid_refs bl = sum_list (map (length \<circ> eid_refs) (filter has_eid_ref_field (map snd bl)))"

definition bundle6_calculate_dict ::
  "alloc_trace \<Rightarrow> bundle_t \<Rightarrow> (bundle6_dict_descriptor \<times> alloc_trace) outcome" where
  "bundle6_calculate_dict m b = (case malloc m of
       (None, m1) \<Rightarrow> Inl Null_Deref
     | (Some _, m1) \<Rightarrow>
         let cnt = count_eid_refs (blocks b);
             (d, n1) = calculate_eid_info (destination b) 0;
             (s, n2) = calculate_eid_info (source b) n1;
             (r, n3) = calculate_eid_info (report_to b) n2;
             (c, n4) = calculate_eid_info (current_custodian b) n3;
             (refs, n5) = calculate_eid_infos (concat (map (eid_refs \<circ> snd) (blocks b))) n4
         in if length refs > cnt then Inl Out_Of_Bounds
            else Inr (\<lparr>dict_length_bytes = n5, eid_reference_count = cnt, destination_eid_info = d,
              source_eid_info = s, report_to_eid_info = r, custodian_eid_info = c,
              eid_references = refs\<rparr>, m1))"

section \<open>Sizes\<close>

definition eid_info_size_u32 :: "bundle6_eid_info \<Rightarrow> nat" where
  "eid_info_size_u32 i = sdnv_get_size_u32 (ucast (dict_scheme_offset i)) +
     sdnv_get_size_u32 (ucast (dict_ssp_offset i))"

definition bundle6_recalculate_header_length_internal ::
  "alloc_trace \<Rightarrow> bundle_t \<Rightarrow> (bundle6_dict_descriptor \<times> bundle_t \<times> alloc_trace) outcome" where
  "bundle6_recalculate_header_length_internal m b =
     obind (bundle6_calculate_dict m b) (\<lambda>(ddesc, m1). Inr (ddesc, b\<lparr>primary_block_length := of_nat
       (1 + sdnv_get_size_u32 (proc_flags b) + sdnv_get_size_u32 (ucast (primary_block_length b)) +
        eid_info_size_u32 (destination_eid_info ddesc) + eid_info_size_u32 (source_eid_info ddesc) +
        eid_info_size_u32 (report_to_eid_info ddesc) + eid_info_size_u32 (custodian_eid_info ddesc) +
        sdnv_get_size_u64 (creation_timestamp b) + sdnv_get_size_u64 (sequence_number b) +
        sdnv_get_size_u64 (lifetime b div 1000000) +
        sdnv_get_size_u32 (of_nat (dict_length_bytes ddesc)) + dict_length_bytes ddesc +
        (if HAS_FLAG (proc_flags b) BUNDLE_FLAG_IS_FRAGMENT
         then sdnv_get_size_u32 (fragment_offset b) + sdnv_get_size_u32 (total_adu_length b) else 0))\<rparr>, m1))"

definition bundle6_recalculate_header_length ::
  "alloc_trace \<Rightarrow> bundle_t \<Rightarrow> (bundle_t \<times> alloc_trace) outcome" where
  "bundle6_recalculate_header_length m b =
     obind (bundle6_recalculate_header_length_internal m b) (\<lambda>(_, b1, m1). Inr (b1, m1))"

text \<open>The sizes of \<open>n\<close> references from index \<open>off\<close> on.\<close>

fun eid_ref_sizes :: "bundle6_eid_info list \<Rightarrow> nat \<Rightarrow> nat \<Rightarrow> nat outcome" where
  "eid_ref_sizes refs off 0 = Inr 0"
| "eid_ref_sizes refs off (Suc n) =
     (if off < length refs
      then obind (eid_ref_sizes refs (Suc off) n) (\<lambda>k. Inr
        (sdnv_get_size_u16 (dict_scheme_offset (refs ! off)) +
         sdnv_get_size_u16 (dict_ssp_offset (refs ! off)) + k))
      else Inl Out_Of_Bounds)"

fun serialized_size_loop :: "bundle6_eid_info list \<Rightarrow> bool \<Rightarrow> bool \<Rightarrow> bool \<Rightarrow> bool \<Rightarrow> nat \<Rightarrow> nat \<Rightarrow>
    block_list \<Rightarrow> nat outcome" where
  "serialized_size_loop refs exclude_payload first_fragment last_fragment payload_reached off result [] =
     Inr result"
| "serialized_size_loop refs exclude_payload first_fragment last_fragment payload_reached off result
     ((a, blk) # rest) =
     (let is_payload = (blk_type blk = BUNDLE_BLOCK_TYPE_PAYLOAD);
          block_wanted = (HAS_FLAG (blk_flags blk) BUNDLE_BLOCK_FLAG_MUST_BE_REPLICATED \<or>
            (first_fragment \<and> \<not> payload_reached) \<or> (last_fragment \<and> payload_reached));
          count = (if has_eid_ref_field blk then length (eid_refs blk) else 0)
      in obind (if has_eid_ref_field blk
                then obind (eid_ref_sizes refs off count) (\<lambda>k. Inr (k + sdnv_get_size_u16 (of_nat count)))
                else Inr 0) (\<lambda>eid_ref_size.
        serialized_size_loop refs exclude_payload first_fragment last_fragment (payload_reached \<or> is_payload)
          (off + count)
          (if block_wanted
           then result + (1 + sdnv_get_size_u32 (blk_flags blk) + sdnv_get_size_u32 (blk_length blk) +
             eid_ref_size) + (if is_payload \<and> exclude_payload then 0 else unat (blk_length blk))
           else result) rest))"

definition get_serialized_size ::
  "alloc_trace \<Rightarrow> bundle_t \<Rightarrow> bool \<Rightarrow> bool \<Rightarrow> bool \<Rightarrow> (nat \<times> bundle_t \<times> alloc_trace) outcome" where
  "get_serialized_size m b exclude_payload first_fragment last_fragment =
     obind (bundle6_recalculate_header_length_internal m b) (\<lambda>(ddesc, b1, m1).
     obind (serialized_size_loop (eid_references ddesc) exclude_payload first_fragment last_fragment False 0
              (unat (primary_block_length b1)) (blocks b1)) (\<lambda>result. Inr
       (if HAS_FLAG (proc_flags b1) BUNDLE_FLAG_IS_FRAGMENT \<and> payload_block b1 \<noteq> None
        then result + sdnv_get_size_u32 (total_adu_length b1) + sdnv_get_size_u32 (fragment_offset b1)
        else result, b1, m1)))"

definition bundle6_get_serialized_size ::
  "alloc_trace \<Rightarrow> bundle_t \<Rightarrow> (nat \<times> bundle_t \<times> alloc_trace) outcome" where
  "bundle6_get_serialized_size m b = get_serialized_size m b False True True"

definition bundle6_get_first_fragment_min_size ::
  "alloc_trace \<Rightarrow> bundle_t \<Rightarrow> (nat \<times> bundle_t \<times> alloc_trace) outcome" where
  "bundle6_get_first_fragment_min_size m b = get_serialized_size m b True True False"

definition bundle6_get_mid_fragment_min_size ::
  "alloc_trace \<Rightarrow> bundle_t \<Rightarrow> (nat \<times> bundle_t \<times> alloc_trace) outcome" where
  "bundle6_get_mid_fragment_min_size m b = get_serialized_size m b True False False"

definition bundle6_get_last_fragment_min_size ::
  "alloc_trace \<Rightarrow> bundle_t \<Rightarrow> (nat \<times> bundle_t \<times> alloc_trace) outcome" where
  "bundle6_get_last_fragment_min_size m b = get_serialized_size m b True False True"

section \<open>Creation\<close>

definition create_fields :: "bundle_t \<Rightarrow> u64 \<Rightarrow> u64 \<Rightarrow> u32 \<Rightarrow> bundle_t" where
  "create_fields b creation_time life flags = b\<lparr>protocol_version := 0x6,
     proc_flags := flags OR BUNDLE_V6_FLAG_SINGLETON_ENDPOINT, creation_timestamp := creation_time,
     sequence_number := 1, lifetime := life * 1000000\<rparr>"

text \<open>
  The flags of the payload block are set before its allocation is checked. \<open>None\<close> is the null result,
  after which the payload is freed.
\<close>

definition bundle6_create_local :: "alloc_trace \<Rightarrow> bytes \<Rightarrow> string \<Rightarrow> string \<Rightarrow> u64 \<Rightarrow> u64 \<Rightarrow> u32 \<Rightarrow>
    (bundle_t option \<times> alloc_trace) outcome" where
  "bundle6_create_local m payload src dest creation_time life flags = (case bundle_init m of
       (None, m1) \<Rightarrow> Inr (None, m1)
     | (Some b0, m1) \<Rightarrow>
         let b1 = create_fields b0 creation_time life flags in
         case bundle_block_create m1 BUNDLE_BLOCK_TYPE_PAYLOAD of
           (None, m2) \<Rightarrow> Inl Null_Deref
         | (Some (a, pl), m2) \<Rightarrow>
             (case malloc m2 of
                (None, m3) \<Rightarrow> Inr (None, m3)
              | (Some _, m3) \<Rightarrow>
                  let (s, m4) = strdup m3 (Some src) in
                  if s = None \<or> CHR '':'' \<notin> set src then Inr (None, m4)
                  else let (d, m5) = strdup m4 (Some dest) in
                    if d = None \<or> CHR '':'' \<notin> set dest then Inr (None, m5)
                    else let (r, m6) = strdup m5 (Some ''dtn:none'');
                             (c, m7) = strdup m6 (Some ''dtn:none'');
                             b2 = b1\<lparr>source := s, destination := d, report_to := r,
                               current_custodian := c, payload_block := Some a,
                               blocks := [(a, pl\<lparr>blk_flags := BUNDLE_V6_BLOCK_FLAG_LAST_BLOCK,
                                 blk_data := Some payload, blk_length := of_nat (length payload)\<rparr>)]\<rparr>
                         in obind (bundle6_recalculate_header_length m7 b2) (\<lambda>(b3, m8). Inr (Some b3, m8))))"

section \<open>Serialization\<close>

definition V6_FLAGS :: u32 where
  "V6_FLAGS = BUNDLE_FLAG_IS_FRAGMENT OR BUNDLE_FLAG_ADMINISTRATIVE_RECORD
     OR BUNDLE_FLAG_MUST_NOT_BE_FRAGMENTED OR BUNDLE_V6_FLAG_CUSTODY_TRANSFER_REQUESTED
     OR BUNDLE_V6_FLAG_SINGLETON_ENDPOINT OR BUNDLE_FLAG_ACKNOWLEDGEMENT_REQUESTED
     OR BUNDLE_V6_FLAG_NORMAL_PRIORITY OR BUNDLE_V6_FLAG_EXPEDITED_PRIORITY
     OR BUNDLE_FLAG_REPORT_RECEPTION OR BUNDLE_V6_FLAG_REPORT_CUSTODY_ACCEPTANCE
     OR BUNDLE_FLAG_REPORT_FORWARDING OR BUNDLE_FLAG_REPORT_DELIVERY OR BUNDLE_FLAG_REPORT_DELETION"

definition eid_info_bytes :: "bundle6_eid_info \<Rightarrow> bytes" where
  "eid_info_bytes i = snd (sdnv_write_u16 (dict_scheme_offset i)) @ snd (sdnv_write_u16 (dict_ssp_offset i))"

text \<open>Everything up to the first block, with the serialized dictionary.\<close>

definition serialize_primary :: "bundle6_dict_descriptor \<Rightarrow> bytes \<Rightarrow> bundle_t \<Rightarrow> bytes" where
  "serialize_primary desc dict b =
     [protocol_version b] @ snd (sdnv_write_u32 (proc_flags b AND V6_FLAGS)) @
     snd (sdnv_write_u32 (ucast (primary_block_length b))) @
     eid_info_bytes (destination_eid_info desc) @ eid_info_bytes (source_eid_info desc) @
     eid_info_bytes (report_to_eid_info desc) @ eid_info_bytes (custodian_eid_info desc) @
     snd (sdnv_write_u64 (creation_timestamp b)) @ snd (sdnv_write_u64 (sequence_number b)) @
     snd (sdnv_write_u64 (lifetime b div 1000000)) @
     snd (sdnv_write_u16 (of_nat (dict_length_bytes desc))) @ dict @
     (if HAS_FLAG (proc_flags b) BUNDLE_FLAG_IS_FRAGMENT
      then snd (sdnv_write_u32 (fragment_offset b)) @ snd (sdnv_write_u32 (total_adu_length b)) else [])"

text \<open>
  The references of a block: the loop runs its own counter from zero for every block, the running
  index \<open>eid_idx\<close> is counted and not used.
\<close>

fun serialize_eid_refs :: "bundle6_eid_info list \<Rightarrow> nat \<Rightarrow> nat \<Rightarrow> bytes outcome" where
  "serialize_eid_refs refs c 0 = Inr []"
| "serialize_eid_refs refs c (Suc n) =
     (if c < length refs
      then obind (serialize_eid_refs refs (Suc c) n) (\<lambda>bs. Inr (eid_info_bytes (refs ! c) @ bs))
      else Inl Out_Of_Bounds)"

definition serialize_block :: "bundle6_eid_info list \<Rightarrow> bundle_block \<Rightarrow> bytes outcome" where
  "serialize_block refs blk =
     obind (if has_eid_ref_field blk
            then obind (serialize_eid_refs refs 0 (length (eid_refs blk))) (\<lambda>bs. Inr
              (snd (sdnv_write_u16 (of_nat (length (eid_refs blk)))) @ bs))
            else Inr []) (\<lambda>ref_bytes.
     obind (copy_bytes (blk_data blk) (unat (blk_length blk))) (\<lambda>data. Inr
       ([ucast (blk_type blk)] @ snd (sdnv_write_u32 (blk_flags blk)) @ ref_bytes @
        snd (sdnv_write_u32 (blk_length blk)) @ data)))"

fun serialize_blocks :: "bundle6_eid_info list \<Rightarrow> block_list \<Rightarrow> bytes outcome" where
  "serialize_blocks refs [] = Inr []"
| "serialize_blocks refs ((a, blk) # rest) =
     obind (serialize_block refs blk) (\<lambda>bs. obind (serialize_blocks refs rest) (\<lambda>cs. Inr (bs @ cs)))"

text \<open>The dictionary is written to a buffer of \<open>dict_length_bytes\<close> bytes.\<close>

definition bundle6_serialize ::
  "alloc_trace \<Rightarrow> bundle_t \<Rightarrow> (upcn_result \<times> bytes \<times> alloc_trace) outcome" where
  "bundle6_serialize m b =
     obind (bundle6_calculate_dict m b) (\<lambda>(desc, m1). case malloc m1 of
         (None, m2) \<Rightarrow> Inr (UPCN_FAIL, [], m2)
       | (Some _, m2) \<Rightarrow>
           let dict = bundle6_serialize_dictionary desc in
           if length dict > dict_length_bytes desc then Inl Out_Of_Bounds
           else obind (serialize_blocks (eid_references desc) (blocks b)) (\<lambda>bs.
             Inr (UPCN_OK, serialize_primary desc dict b @ bs, m2)))"

end
