(* ===== verification/Bundle6_Parser.thy ===== *)
theory Bundle6_Parser
  imports Bundle6
begin

text \<open>
  The incremental parser of RFC 5050 bundles, \<open>components/bundle6/parser.c\<close>. The parser owns the bundle
  it fills (\<open>None\<close> after it was passed on). The pointer \<open>current_block_entry\<close> into the block list is
  the number of links in front of it: \<open>*current_block_entry\<close> is null when that is the length of the list.
  The buffer of a bulk read is the data of the current block. Delivering a bundle through the send
  callback appends it to \<open>sent\<close>. Enumeration values share the low byte with \<open>uint8_t\<close> pointers cast from
  them (little-endian).
\<close>

section \<open>State\<close>

datatype bundle6_parser_stage =
    PARSER_STAGE_VERSION | PARSER_STAGE_PROC_FLAGS | PARSER_STAGE_BLOCK_LENGTH
  | PARSER_STAGE_DESTINATION_EID_SCHEME | PARSER_STAGE_DESTINATION_EID_SSP
  | PARSER_STAGE_SOURCE_EID_SCHEME | PARSER_STAGE_SOURCE_EID_SSP
  | PARSER_STAGE_REPORT_EID_SCHEME | PARSER_STAGE_REPORT_EID_SSP
  | PARSER_STAGE_CUSTODIAN_EID_SCHEME | PARSER_STAGE_CUSTODIAN_EID_SSP
  | PARSER_STAGE_TIMESTAMP | PARSER_STAGE_SEQUENCE_NUM | PARSER_STAGE_LIFETIME
  | PARSER_STAGE_DICT_LENGTH | PARSER_STAGE_DICTIONARY
  | PARSER_STAGE_FRAGMENT_OFFSET | PARSER_STAGE_ADU_LENGTH
  | PARSER_STAGE_BLOCK_TYPE | PARSER_STAGE_BLOCK_FLAGS | PARSER_STAGE_BLOCK_EID_REF_CNT
  | PARSER_STAGE_BLOCK_EID_REF_SCH | PARSER_STAGE_BLOCK_EID_REF_SSP
  | PARSER_STAGE_BLOCK_DATA_LENGTH | PARSER_STAGE_BLOCK_DATA | PARSER_STAGE_DONE

datatype bundle6_parser_block =
  PARSER_BLOCK_PRIMARY | PARSER_BLOCK_GENERIC | PARSER_BLOCK_PAYLOAD | PARSER_BLOCK_EXTENSION

datatype bundle6_parser_error =
  PARSER_ERROR_NONE | PARSER_ERROR_BLOCK_LENGTH_EXHAUSTED | PARSER_ERROR_SDNV_FAILURE

record bundle6_eid_reference =
  scheme_offset :: u16
  ssp_offset :: u16

abbreviation (input) "PARSER_FLAG_NONE \<equiv> (0x00 :: u32)"
abbreviation (input) "PARSER_FLAG_BULK_READ \<equiv> (0x01 :: u32)"
abbreviation (input) "BUNDLE_QUOTA \<equiv> (1073741824 :: u32)"

record bundle6_parser =
  p6_status :: parser_status
  p6_flags :: u32
  next_bytes :: nat
  p6_error :: bundle6_parser_error
  current_stage :: bundle6_parser_stage
  next_stage :: bundle6_parser_stage
  current_block :: bundle6_parser_block
  p6_sdnv :: sdnv_state
  p6_bundle :: "bundle_t option"
  primary_bytes_remaining :: u16
  cur_bytes_remaining :: u32
  current_index :: u32
  current_size :: u32
  destination_eidref :: bundle6_eid_reference
  source_eidref :: bundle6_eid_reference
  report_to_eidref :: bundle6_eid_reference
  custodian_eidref :: bundle6_eid_reference
  cur_eidref :: bundle6_eid_reference
  dict_length :: u16
  dict :: "bytes option"
  current_block_entry :: nat
  last_block :: bool
  has_callback :: bool
  sent :: "bundle_t list"

type_synonym p6_result = "(bundle6_parser \<times> alloc_trace) outcome"

section \<open>Operations\<close>

text \<open>\<open>usage\<close> is \<open>bundle_storage_get_usage()\<close>, \<open>sz\<close> is \<open>sizeof(struct bundle)\<close>.\<close>

definition bundle6_parser_reset ::
  "u32 \<Rightarrow> u32 \<Rightarrow> alloc_trace \<Rightarrow> bundle6_parser \<Rightarrow> upcn_result \<times> bundle6_parser \<times> alloc_trace" where
  "bundle6_parser_reset usage sz m st =
     (if p6_status st = PARSER_STATUS_GOOD \<and> current_stage st = PARSER_STAGE_VERSION then (UPCN_OK, st, m)
      else
        let (b, m1) = (case p6_bundle st of
                Some b \<Rightarrow> (Some (bundle_reset_internal b), m)
              | None \<Rightarrow> bundle_init m);
            st1 = st\<lparr>p6_status := PARSER_STATUS_GOOD, p6_flags := PARSER_FLAG_NONE,
              p6_error := PARSER_ERROR_NONE, current_stage := PARSER_STAGE_VERSION,
              next_stage := PARSER_STAGE_VERSION, current_block := PARSER_BLOCK_PRIMARY,
              p6_sdnv := sdnv_reset (p6_sdnv st), primary_bytes_remaining := 0, cur_bytes_remaining := 0,
              current_index := 0, current_size := usage + sz, last_block := False, p6_bundle := b\<rparr>
        in if b = None then (UPCN_FAIL, st1, m1)
           else (UPCN_OK, st1\<lparr>dict := None, current_block_entry := 0\<rparr>, m1))"

text \<open>The parser is allocated by its user; the allocation is that of \<open>basedata\<close>.\<close>

definition bundle6_parser_init ::
  "u32 \<Rightarrow> u32 \<Rightarrow> alloc_trace \<Rightarrow> bool \<Rightarrow> bundle6_parser \<Rightarrow> bundle6_parser option \<times> alloc_trace" where
  "bundle6_parser_init usage sz m callback st = (case malloc m of
       (None, m1) \<Rightarrow> (None, m1)
     | (Some _, m1) \<Rightarrow>
         (case bundle6_parser_reset usage sz m1 (st\<lparr>has_callback := callback, sent := [], p6_bundle := None,
              dict := None, p6_status := PARSER_STATUS_ERROR\<rparr>) of
            (UPCN_OK, st1, m2) \<Rightarrow> (Some st1, m2)
          | (UPCN_FAIL, st1, m2) \<Rightarrow> (None, m2)))"

definition bundle6_parser_length_known :: "bundle6_parser \<Rightarrow> bool" where
  "bundle6_parser_length_known st \<longleftrightarrow>
     current_stage st \<notin> {PARSER_STAGE_VERSION, PARSER_STAGE_PROC_FLAGS, PARSER_STAGE_BLOCK_LENGTH}"

text \<open>Following \<open>state->bundle\<close> and \<open>*state->current_block_entry\<close>.\<close>

definition with_bundle :: "bundle6_parser \<Rightarrow> (bundle_t \<Rightarrow> 'a outcome) \<Rightarrow> 'a outcome" where
  "with_bundle st f = (case p6_bundle st of None \<Rightarrow> Inl Null_Deref | Some b \<Rightarrow> f b)"

definition with_block :: "bundle6_parser \<Rightarrow> (bundle_block \<Rightarrow> 'a outcome) \<Rightarrow> 'a outcome" where
  "with_block st f = with_bundle st (\<lambda>b.
     if current_block_entry st < length (blocks b) then f (snd (blocks b ! current_block_entry st))
     else Inl Null_Deref)"

definition upd_bundle :: "(bundle_t \<Rightarrow> bundle_t) \<Rightarrow> bundle6_parser \<Rightarrow> bundle6_parser" where
  "upd_bundle f st = st\<lparr>p6_bundle := map_option f (p6_bundle st)\<rparr>"

definition upd_block :: "(bundle_block \<Rightarrow> bundle_block) \<Rightarrow> bundle6_parser \<Rightarrow> bundle6_parser" where
  "upd_block f st = upd_bundle (\<lambda>b. b\<lparr>blocks := (blocks b)[current_block_entry st :=
     (fst (blocks b ! current_block_entry st), f (snd (blocks b ! current_block_entry st)))]\<rparr>) st"

definition bundle6_parser_begin_block :: "alloc_trace \<Rightarrow> u8 \<Rightarrow> bundle6_parser \<Rightarrow> p6_result" where
  "bundle6_parser_begin_block m type st = (case bundle_block_create m (ucast type) of
       (None, m1) \<Rightarrow> Inr (st\<lparr>p6_status := PARSER_STATUS_ERROR\<rparr>, m1)
     | (Some (a, new), m1) \<Rightarrow> with_bundle st (\<lambda>b.
         let payload = (ucast type = BUNDLE_BLOCK_TYPE_PAYLOAD);
             st1 = st\<lparr>p6_bundle := Some (if payload then b\<lparr>payload_block := Some a\<rparr> else b),
                current_block := (if payload then PARSER_BLOCK_PAYLOAD else PARSER_BLOCK_EXTENSION)\<rparr>
         in case malloc m1 of
             (None, m2) \<Rightarrow> Inr (upd_bundle (\<lambda>b. b\<lparr>blocks := take (current_block_entry st) (blocks b)\<rparr>) st1
                \<lparr>p6_status := PARSER_STATUS_ERROR\<rparr>, m2)
           | (Some _, m2) \<Rightarrow> Inr (upd_bundle (\<lambda>b. b\<lparr>blocks :=
                take (current_block_entry st) (blocks b) @ [(a, new)]\<rparr>) st1, m2)))"

definition bundle6_parser_end_block :: "bundle6_parser \<Rightarrow> bundle6_parser" where
  "bundle6_parser_end_block st = st\<lparr>current_block_entry := current_block_entry st + 1\<rparr>"

text \<open>The bytes of the string that starts at an offset of the dictionary.\<close>

definition string_at :: "bytes \<Rightarrow> nat \<Rightarrow> bytes outcome" where
  "string_at d off = obind (c_strlen (drop off d)) (\<lambda>n. Inr (take n (drop off d)))"

definition bundle6_read_eid ::
  "alloc_trace \<Rightarrow> bytes option \<Rightarrow> nat \<Rightarrow> bundle6_eid_reference \<Rightarrow> (string option \<times> alloc_trace) outcome" where
  "bundle6_read_eid m dct dict_len ref =
     (if unat (scheme_offset ref) \<ge> dict_len \<or> unat (ssp_offset ref) \<ge> dict_len then Inr (None, m)
      else case dct of None \<Rightarrow> Inl Null_Deref
        | Some d \<Rightarrow>
            obind (string_at d (unat (scheme_offset ref))) (\<lambda>scheme.
            obind (string_at d (unat (ssp_offset ref))) (\<lambda>ssp. case malloc m of
                (None, m1) \<Rightarrow> Inr (None, m1)
              | (Some _, m1) \<Rightarrow>
                  if unat (scheme_offset ref) + length scheme > dict_len then Inr (None, m1)
                  else if char_byte CHR '':'' \<in> set scheme then Inr (None, m1)
                  else if unat (ssp_offset ref) + length ssp > dict_len then Inr (None, m1)
                  else Inr (Some (map byte_char scheme @ '':'' @ map byte_char ssp), m1))))"

definition bundle_is_valid :: "bundle_t \<Rightarrow> bool" where
  "bundle_is_valid b \<longleftrightarrow> payload_block b \<noteq> None"

definition bundle6_parser_send_bundle :: "bundle6_parser \<Rightarrow> bundle6_parser outcome" where
  "bundle6_parser_send_bundle st =
     (if \<not> has_callback st then Inr (st\<lparr>p6_bundle := None\<rparr>)
      else with_bundle st (\<lambda>b. Inr
        (if \<not> bundle_is_valid b then st\<lparr>p6_bundle := None\<rparr>
         else st\<lparr>p6_bundle := None, sent := sent st @ [b]\<rparr>)))"

text \<open>What entering a stage does, before \<open>current_stage\<close> is set.\<close>

definition enter_dictionary :: "alloc_trace \<Rightarrow> bundle6_parser \<Rightarrow> bundle6_parser \<times> alloc_trace" where
  "enter_dictionary m st0 =
     (let st = st0\<lparr>current_index := 0\<rparr> in
      if dict_length st = 0 then (st\<lparr>p6_status := PARSER_STATUS_ERROR\<rparr>, m)
      else
        let st1 = st\<lparr>cur_bytes_remaining := ucast (dict_length st),
              current_size := current_size st + (ucast (dict_length st) + 1)\<rparr>
        in if current_size st1 > BUNDLE_QUOTA then (st1\<lparr>p6_status := PARSER_STATUS_ERROR\<rparr>, m)
           else case malloc m of
               (None, m1) \<Rightarrow> (st1\<lparr>dict := None, p6_status := PARSER_STATUS_ERROR\<rparr>, m1)
             | (Some _, m1) \<Rightarrow> (st1\<lparr>dict := Some (replicate (unat (dict_length st) + 1) 0)\<rparr>, m1))"

definition enter_block_data :: "alloc_trace \<Rightarrow> bundle6_parser \<Rightarrow> p6_result" where
  "enter_block_data m st = with_block st (\<lambda>blk.
     let st1 = st\<lparr>current_index := 0, cur_bytes_remaining := 0, next_bytes := unat (blk_length blk),
           current_size := current_size st + blk_length blk\<rparr>
     in if current_size st1 > BUNDLE_QUOTA then Inr (st1\<lparr>p6_status := PARSER_STATUS_ERROR\<rparr>, m)
        else case malloc m of
            (None, m1) \<Rightarrow> Inr (st1\<lparr>p6_status := PARSER_STATUS_ERROR\<rparr>, m1)
          | (Some _, m1) \<Rightarrow> Inr (upd_block (\<lambda>blk. blk\<lparr>blk_data := Some (replicate (unat (blk_length blk)) 0)\<rparr>) st1
               \<lparr>p6_flags := p6_flags st1 OR PARSER_FLAG_BULK_READ\<rparr>, m1))"

definition reset_sdnv :: "bundle6_parser \<Rightarrow> bundle6_parser" where
  "reset_sdnv st = st\<lparr>p6_sdnv := sdnv_reset (p6_sdnv st)\<rparr>"

definition enter_stage :: "alloc_trace \<Rightarrow> bundle6_parser \<Rightarrow> p6_result" where
  "enter_stage m st = (case next_stage st of
       PARSER_STAGE_VERSION \<Rightarrow> Inr (st, m)
     | PARSER_STAGE_DESTINATION_EID_SCHEME \<Rightarrow> with_bundle st (\<lambda>b.
         Inr (reset_sdnv (st\<lparr>primary_bytes_remaining := primary_block_length b\<rparr>), m))
     | PARSER_STAGE_DICT_LENGTH \<Rightarrow> with_bundle st (\<lambda>b.
         Inr (reset_sdnv (upd_bundle (\<lambda>b. b\<lparr>lifetime := lifetime b * 1000000\<rparr>) st), m))
     | PARSER_STAGE_DICTIONARY \<Rightarrow> Inr (enter_dictionary m st)
     | PARSER_STAGE_BLOCK_TYPE \<Rightarrow> Inr (st\<lparr>current_block := PARSER_BLOCK_GENERIC\<rparr>, m)
     | PARSER_STAGE_BLOCK_DATA \<Rightarrow> enter_block_data m st
     | PARSER_STAGE_DONE \<Rightarrow> Inr (st, m)
     | _ \<Rightarrow> Inr (reset_sdnv st, m))"

definition bundle6_parser_next :: "alloc_trace \<Rightarrow> bundle6_parser \<Rightarrow> p6_result" where
  "bundle6_parser_next m st =
     obind (enter_stage m st) (\<lambda>(st1, m1).
       let st2 = st1\<lparr>current_stage := next_stage st1\<rparr> in
       if current_stage st2 = PARSER_STAGE_DONE
       then obind (bundle6_parser_send_bundle (st2\<lparr>p6_status := PARSER_STATUS_DONE\<rparr>)) (\<lambda>st3. Inr (st3, m1))
       else Inr (st2, m1))"

definition bundle6_parser_wait_for_sdnv ::
  "bundle6_parser_stage \<Rightarrow> bundle6_parser \<Rightarrow> bool \<times> bundle6_parser" where
  "bundle6_parser_wait_for_sdnv next st = (case sdnv_st (p6_sdnv st) of
       SDNV_IN_PROGRESS \<Rightarrow> (False, st)
     | SDNV_DONE \<Rightarrow> (True, st\<lparr>next_stage := next\<rparr>)
     | SDNV_ERROR \<Rightarrow> (False, st\<lparr>p6_status := PARSER_STATUS_ERROR, p6_error := PARSER_ERROR_SDNV_FAILURE\<rparr>))"

text \<open>Reading one byte of a number into the variable whose content is \<open>value\<close>.\<close>

definition read_sdnv ::
  "(sdnv_state \<Rightarrow> 'a word \<Rightarrow> u8 \<Rightarrow> sdnv_state \<times> 'a word) \<Rightarrow> 'a::len word \<Rightarrow>
    ('a word \<Rightarrow> bundle6_parser \<Rightarrow> bundle6_parser) \<Rightarrow> u8 \<Rightarrow> bundle6_parser \<Rightarrow> bundle6_parser" where
  "read_sdnv rd value store byte st =
     (let (s, v) = rd (p6_sdnv st) value byte in store v (st\<lparr>p6_sdnv := s\<rparr>))"

definition dict_put :: "u32 \<Rightarrow> u8 \<Rightarrow> bundle6_parser \<Rightarrow> bundle6_parser outcome" where
  "dict_put i byte st = (case dict st of
       None \<Rightarrow> Inl Null_Deref
     | Some d \<Rightarrow> if unat i < length d then Inr (st\<lparr>dict := Some (d[unat i := byte]), current_index := i + 1\<rparr>)
         else Inl Out_Of_Bounds)"

text \<open>The EIDs of the primary block, read from the complete dictionary.\<close>

definition read_dict_eids :: "alloc_trace \<Rightarrow> bundle6_parser \<Rightarrow> p6_result" where
  "read_dict_eids m st = with_bundle st (\<lambda>b.
     obind (bundle6_read_eid m (dict st) (unat (dict_length st)) (source_eidref st)) (\<lambda>(s, m1).
     obind (bundle6_read_eid m1 (dict st) (unat (dict_length st)) (destination_eidref st)) (\<lambda>(d, m2).
     obind (bundle6_read_eid m2 (dict st) (unat (dict_length st)) (report_to_eidref st)) (\<lambda>(r, m3).
     obind (bundle6_read_eid m3 (dict st) (unat (dict_length st)) (custodian_eidref st)) (\<lambda>(c, m4).
       let st1 = st\<lparr>p6_bundle := Some (b\<lparr>source := s, destination := d, report_to := r, current_custodian := c\<rparr>)\<rparr>
       in Inr (if s = None \<or> d = None \<or> r = None \<or> c = None then st1\<lparr>p6_status := PARSER_STATUS_ERROR\<rparr>
               else st1\<lparr>next_stage := (if bundle_is_fragmented b then PARSER_STAGE_FRAGMENT_OFFSET
                                      else PARSER_STAGE_BLOCK_TYPE)\<rparr>, m4))))))"

definition read_dictionary_byte :: "alloc_trace \<Rightarrow> u8 \<Rightarrow> bundle6_parser \<Rightarrow> p6_result" where
  "read_dictionary_byte m byte st0 =
     (let st = st0\<lparr>cur_bytes_remaining := cur_bytes_remaining st0 - 1\<rparr> in
      obind (dict_put (current_index st) byte st) (\<lambda>st1.
        if cur_bytes_remaining st1 = 0
        then obind (dict_put (current_index st1) 0 st1) (read_dict_eids m)
        else Inr (st1, m)))"

definition set_block_flags :: "u8 \<Rightarrow> bundle6_parser \<Rightarrow> bundle6_parser" where
  "set_block_flags v = upd_block (\<lambda>blk. blk\<lparr>blk_flags := (blk_flags blk AND NOT 0xFF) OR ucast v\<rparr>)"

definition read_block_flags_byte :: "alloc_trace \<Rightarrow> u8 \<Rightarrow> bundle6_parser \<Rightarrow> p6_result" where
  "read_block_flags_byte m byte st = with_block st (\<lambda>blk.
     let (fin, st1) = bundle6_parser_wait_for_sdnv PARSER_STAGE_BLOCK_DATA_LENGTH
           (read_sdnv sdnv_read_u8 (ucast (blk_flags blk)) set_block_flags byte st)
     in if fin then with_block st1 (\<lambda>blk1.
          let st2 = st1\<lparr>last_block := HAS_FLAG (blk_flags blk1) BUNDLE_V6_BLOCK_FLAG_LAST_BLOCK\<rparr>
          in Inr (if has_eid_ref_field blk1 then st2\<lparr>next_stage := PARSER_STAGE_BLOCK_EID_REF_CNT\<rparr> else st2, m))
        else Inr (st1, m))"

definition read_eid_ref_cnt_byte :: "u8 \<Rightarrow> bundle6_parser \<Rightarrow> bundle6_parser" where
  "read_eid_ref_cnt_byte byte st =
     (let (fin, st1) = bundle6_parser_wait_for_sdnv PARSER_STAGE_BLOCK_EID_REF_SCH
           (read_sdnv sdnv_read_u32 (current_size st) (\<lambda>v st. st\<lparr>current_size := v\<rparr>) byte st)
      in if fin then (let st2 = st1\<lparr>current_index := 0\<rparr> in
           if current_size st2 = 0 then st2\<lparr>next_stage := PARSER_STAGE_BLOCK_DATA_LENGTH\<rparr> else st2)
         else st1)"

definition store_eid_ref :: "alloc_trace \<Rightarrow> bundle6_parser \<Rightarrow> p6_result" where
  "store_eid_ref m st = (case malloc m of
       (None, m1) \<Rightarrow> Inr (st\<lparr>p6_status := PARSER_STATUS_ERROR\<rparr>, m1)
     | (Some _, m1) \<Rightarrow>
         obind (bundle6_read_eid m1 (dict st) (unat (dict_length st)) (cur_eidref st)) (\<lambda>(eid, m2).
         with_block st (\<lambda>blk.
           let st2 = (upd_block (\<lambda>blk. blk\<lparr>eid_refs := eid # eid_refs blk\<rparr>) st)
                 \<lparr>current_index := current_index st + 1\<rparr>
           in Inr (if eid = None then st2\<lparr>p6_status := PARSER_STATUS_ERROR\<rparr>
                   else if current_index st2 = current_size st2
                   then st2\<lparr>next_stage := PARSER_STAGE_BLOCK_DATA_LENGTH\<rparr> else st2, m2))))"

definition read_eid_ref_ssp_byte :: "alloc_trace \<Rightarrow> u8 \<Rightarrow> bundle6_parser \<Rightarrow> p6_result" where
  "read_eid_ref_ssp_byte m byte st =
     (let (fin, st1) = bundle6_parser_wait_for_sdnv PARSER_STAGE_BLOCK_EID_REF_SCH
           (read_sdnv sdnv_read_u16 (ssp_offset (cur_eidref st))
              (\<lambda>v st. st\<lparr>cur_eidref := (cur_eidref st)\<lparr>ssp_offset := v\<rparr>\<rparr>) byte st)
      in if fin then store_eid_ref m st1 else Inr (st1, m))"

definition read_block_data_byte :: "bundle6_parser \<Rightarrow> bundle6_parser" where
  "read_block_data_byte st =
     (if cur_bytes_remaining st \<noteq> 0 then st\<lparr>p6_status := PARSER_STATUS_ERROR\<rparr>
      else let st1 = bundle6_parser_end_block st in
        if last_block st1 then st1\<lparr>next_stage := PARSER_STAGE_DONE\<rparr>
        else st1\<lparr>next_stage := PARSER_STAGE_BLOCK_TYPE\<rparr>)"

text \<open>A stage that reads a number into a field of the bundle, or into a field of the parser.\<close>

definition bundle_sdnv :: "bundle6_parser_stage \<Rightarrow>
    (sdnv_state \<Rightarrow> 'a word \<Rightarrow> u8 \<Rightarrow> sdnv_state \<times> 'a word) \<Rightarrow> (bundle_t \<Rightarrow> 'a::len word) \<Rightarrow>
    ('a word \<Rightarrow> bundle_t \<Rightarrow> bundle_t) \<Rightarrow> alloc_trace \<Rightarrow> u8 \<Rightarrow> bundle6_parser \<Rightarrow> p6_result" where
  "bundle_sdnv next rd get put m byte st = with_bundle st (\<lambda>b.
     Inr (snd (bundle6_parser_wait_for_sdnv next
       (read_sdnv rd (get b) (\<lambda>v. upd_bundle (put v)) byte st)), m))"

definition state_sdnv :: "bundle6_parser_stage \<Rightarrow> (bundle6_parser \<Rightarrow> u16) \<Rightarrow>
    (u16 \<Rightarrow> bundle6_parser \<Rightarrow> bundle6_parser) \<Rightarrow> alloc_trace \<Rightarrow> u8 \<Rightarrow> bundle6_parser \<Rightarrow> p6_result" where
  "state_sdnv next get put m byte st =
     Inr (snd (bundle6_parser_wait_for_sdnv next (read_sdnv sdnv_read_u16 (get st) put byte st)), m)"

definition read_stage_byte :: "alloc_trace \<Rightarrow> u8 \<Rightarrow> bundle6_parser \<Rightarrow> p6_result" where
  "read_stage_byte m byte st = (case current_stage st of
       PARSER_STAGE_VERSION \<Rightarrow> with_bundle st (\<lambda>b. Inr
         ((upd_bundle (\<lambda>b. b\<lparr>protocol_version := byte\<rparr>) st)\<lparr>next_stage := PARSER_STAGE_PROC_FLAGS\<rparr>, m))
     | PARSER_STAGE_PROC_FLAGS \<Rightarrow> bundle_sdnv PARSER_STAGE_BLOCK_LENGTH sdnv_read_u32
         proc_flags (\<lambda>v b. b\<lparr>proc_flags := v\<rparr>) m byte st
     | PARSER_STAGE_BLOCK_LENGTH \<Rightarrow> bundle_sdnv PARSER_STAGE_DESTINATION_EID_SCHEME sdnv_read_u16
         primary_block_length (\<lambda>v b. b\<lparr>primary_block_length := v\<rparr>) m byte st
     | PARSER_STAGE_DESTINATION_EID_SCHEME \<Rightarrow> state_sdnv PARSER_STAGE_DESTINATION_EID_SSP
         (scheme_offset \<circ> destination_eidref)
         (\<lambda>v st. st\<lparr>destination_eidref := (destination_eidref st)\<lparr>scheme_offset := v\<rparr>\<rparr>) m byte st
     | PARSER_STAGE_DESTINATION_EID_SSP \<Rightarrow> state_sdnv PARSER_STAGE_SOURCE_EID_SCHEME
         (ssp_offset \<circ> destination_eidref)
         (\<lambda>v st. st\<lparr>destination_eidref := (destination_eidref st)\<lparr>ssp_offset := v\<rparr>\<rparr>) m byte st
     | PARSER_STAGE_SOURCE_EID_SCHEME \<Rightarrow> state_sdnv PARSER_STAGE_SOURCE_EID_SSP
         (scheme_offset \<circ> source_eidref)
         (\<lambda>v st. st\<lparr>source_eidref := (source_eidref st)\<lparr>scheme_offset := v\<rparr>\<rparr>) m byte st
     | PARSER_STAGE_SOURCE_EID_SSP \<Rightarrow> state_sdnv PARSER_STAGE_REPORT_EID_SCHEME
         (ssp_offset \<circ> source_eidref)
         (\<lambda>v st. st\<lparr>source_eidref := (source_eidref st)\<lparr>ssp_offset := v\<rparr>\<rparr>) m byte st
     | PARSER_STAGE_REPORT_EID_SCHEME \<Rightarrow> state_sdnv PARSER_STAGE_REPORT_EID_SSP
         (scheme_offset \<circ> report_to_eidref)
         (\<lambda>v st. st\<lparr>report_to_eidref := (report_to_eidref st)\<lparr>scheme_offset := v\<rparr>\<rparr>) m byte st
     | PARSER_STAGE_REPORT_EID_SSP \<Rightarrow> state_sdnv PARSER_STAGE_CUSTODIAN_EID_SCHEME
         (ssp_offset \<circ> report_to_eidref)
         (\<lambda>v st. st\<lparr>report_to_eidref := (report_to_eidref st)\<lparr>ssp_offset := v\<rparr>\<rparr>) m byte st
     | PARSER_STAGE_CUSTODIAN_EID_SCHEME \<Rightarrow> state_sdnv PARSER_STAGE_CUSTODIAN_EID_SSP
         (scheme_offset \<circ> custodian_eidref)
         (\<lambda>v st. st\<lparr>custodian_eidref := (custodian_eidref st)\<lparr>scheme_offset := v\<rparr>\<rparr>) m byte st
     | PARSER_STAGE_CUSTODIAN_EID_SSP \<Rightarrow> state_sdnv PARSER_STAGE_TIMESTAMP
         (ssp_offset \<circ> custodian_eidref)
         (\<lambda>v st. st\<lparr>custodian_eidref := (custodian_eidref st)\<lparr>ssp_offset := v\<rparr>\<rparr>) m byte st
     | PARSER_STAGE_TIMESTAMP \<Rightarrow> bundle_sdnv PARSER_STAGE_SEQUENCE_NUM sdnv_read_u64
         creation_timestamp (\<lambda>v b. b\<lparr>creation_timestamp := v\<rparr>) m byte st
     | PARSER_STAGE_SEQUENCE_NUM \<Rightarrow> bundle_sdnv PARSER_STAGE_LIFETIME sdnv_read_u64
         sequence_number (\<lambda>v b. b\<lparr>sequence_number := v\<rparr>) m byte st
     | PARSER_STAGE_LIFETIME \<Rightarrow> bundle_sdnv PARSER_STAGE_DICT_LENGTH sdnv_read_u64
         lifetime (\<lambda>v b. b\<lparr>lifetime := v\<rparr>) m byte st
     | PARSER_STAGE_DICT_LENGTH \<Rightarrow> state_sdnv PARSER_STAGE_DICTIONARY dict_length
         (\<lambda>v st. st\<lparr>dict_length := v\<rparr>) m byte st
     | PARSER_STAGE_DICTIONARY \<Rightarrow> read_dictionary_byte m byte st
     | PARSER_STAGE_FRAGMENT_OFFSET \<Rightarrow> bundle_sdnv PARSER_STAGE_ADU_LENGTH sdnv_read_u32
         fragment_offset (\<lambda>v b. b\<lparr>fragment_offset := v\<rparr>) m byte st
     | PARSER_STAGE_ADU_LENGTH \<Rightarrow> bundle_sdnv PARSER_STAGE_BLOCK_TYPE sdnv_read_u32
         total_adu_length (\<lambda>v b. b\<lparr>total_adu_length := v\<rparr>) m byte st
     | PARSER_STAGE_BLOCK_TYPE \<Rightarrow>
         bundle6_parser_begin_block m byte (st\<lparr>next_stage := PARSER_STAGE_BLOCK_FLAGS\<rparr>)
     | PARSER_STAGE_BLOCK_FLAGS \<Rightarrow> read_block_flags_byte m byte st
     | PARSER_STAGE_BLOCK_EID_REF_CNT \<Rightarrow> Inr (read_eid_ref_cnt_byte byte st, m)
     | PARSER_STAGE_BLOCK_EID_REF_SCH \<Rightarrow> state_sdnv PARSER_STAGE_BLOCK_EID_REF_SSP
         (scheme_offset \<circ> cur_eidref)
         (\<lambda>v st. st\<lparr>cur_eidref := (cur_eidref st)\<lparr>scheme_offset := v\<rparr>\<rparr>) m byte st
     | PARSER_STAGE_BLOCK_EID_REF_SSP \<Rightarrow> read_eid_ref_ssp_byte m byte st
     | PARSER_STAGE_BLOCK_DATA_LENGTH \<Rightarrow> with_block st (\<lambda>blk.
         Inr (snd (bundle6_parser_wait_for_sdnv PARSER_STAGE_BLOCK_DATA
           (read_sdnv sdnv_read_u32 (blk_length blk) (\<lambda>v. upd_block (\<lambda>blk. blk\<lparr>blk_length := v\<rparr>)) byte st)), m))
     | PARSER_STAGE_BLOCK_DATA \<Rightarrow> Inr (read_block_data_byte st, m)
     | PARSER_STAGE_DONE \<Rightarrow> Inr (st\<lparr>p6_status := PARSER_STATUS_ERROR\<rparr>, m))"

definition bundle6_parser_read_byte :: "alloc_trace \<Rightarrow> u8 \<Rightarrow> bundle6_parser \<Rightarrow> p6_result" where
  "bundle6_parser_read_byte m byte st =
     (if current_block st = PARSER_BLOCK_PRIMARY \<and> bundle6_parser_length_known st \<and>
         primary_bytes_remaining st = 0
      then Inr (st\<lparr>p6_status := PARSER_STATUS_ERROR, p6_error := PARSER_ERROR_BLOCK_LENGTH_EXHAUSTED\<rparr>, m)
      else obind (read_stage_byte m byte
             (if current_block st = PARSER_BLOCK_PRIMARY
              then st\<lparr>primary_bytes_remaining := primary_bytes_remaining st - 1\<rparr> else st)) (\<lambda>(st1, m1).
        if current_stage st1 \<noteq> next_stage st1 \<and> p6_status st1 \<noteq> PARSER_STATUS_ERROR
        then bundle6_parser_next m1 st1 else Inr (st1, m1)))"

section \<open>Reading buffers\<close>

lemma upd_fields [simp]:
  "p6_flags (upd_bundle f st) = p6_flags st" "p6_flags (upd_block g st) = p6_flags st"
  "p6_status (upd_bundle f st) = p6_status st" "p6_status (upd_block g st) = p6_status st"
  "current_stage (upd_bundle f st) = current_stage st" "current_stage (upd_block g st) = current_stage st"
  "next_stage (upd_bundle f st) = next_stage st" "next_stage (upd_block g st) = next_stage st"
  by (simp_all add: upd_bundle_def upd_block_def)

lemma wait_fields [simp]:
  "p6_flags (snd (bundle6_parser_wait_for_sdnv n st)) = p6_flags st"
  "current_stage (snd (bundle6_parser_wait_for_sdnv n st)) = current_stage st"
  by (auto simp: bundle6_parser_wait_for_sdnv_def split: sdnv_status.split)

lemma read_sdnv_fields:
  "(\<And>v s. P (store v s) = P s) \<Longrightarrow> (\<And>s x. P (s\<lparr>p6_sdnv := x\<rparr>) = P s) \<Longrightarrow>
    P (read_sdnv rd x store byte st) = P st"
  by (simp add: read_sdnv_def split_beta)

definition kept :: "bundle6_parser \<Rightarrow> p6_result \<Rightarrow> bool" where
  "kept st r \<longleftrightarrow> (case r of Inl _ \<Rightarrow> True | Inr (st', _) \<Rightarrow>
     p6_flags st' = p6_flags st \<and> current_stage st' = current_stage st)"

lemma kept_simps [simp]:
  "kept st (Inl e)"
  "kept st (Inr (st', m)) \<longleftrightarrow> p6_flags st' = p6_flags st \<and> current_stage st' = current_stage st"
  by (simp_all add: kept_def)

lemma kept_with_bundle: "(\<And>b. kept st (f b)) \<Longrightarrow> kept st (with_bundle st' f)"
  by (simp add: with_bundle_def split: option.split)

lemma kept_with_block: "(\<And>b. kept st (f b)) \<Longrightarrow> kept st (with_block st' f)"
  by (simp add: with_block_def with_bundle_def split: option.split)

lemma kept_obind: "(\<And>x. r = Inr x \<Longrightarrow> kept st (f x)) \<Longrightarrow> kept st (obind r f)"
  by (cases r) simp_all

lemma kept_bundle_sdnv: "kept st (bundle_sdnv n rd get put m byte st)"
  unfolding bundle_sdnv_def by (rule kept_with_bundle) (simp add: read_sdnv_fields [of p6_flags] read_sdnv_fields [of current_stage])

lemma kept_state_sdnv:
  assumes "\<And>v s. p6_flags (put v s) = p6_flags s" and "\<And>v s. current_stage (put v s) = current_stage s"
  shows "kept st (state_sdnv n get put m byte st)"
  using assms by (simp add: state_sdnv_def read_sdnv_fields [of p6_flags] read_sdnv_fields [of current_stage])

lemma kept_begin_block:
  "p6_flags st = p6_flags st' \<Longrightarrow> current_stage st = current_stage st' \<Longrightarrow>
    kept st' (bundle6_parser_begin_block m byte st)"
  by (auto simp: bundle6_parser_begin_block_def Let_def split: prod.split option.split intro!: kept_with_bundle)

lemma dict_put_kept: "dict_put i byte st = Inr st' \<Longrightarrow>
    p6_flags st' = p6_flags st \<and> current_stage st' = current_stage st"
  by (auto simp: dict_put_def split: option.splits if_splits)

lemma kept_read_dict_eids:
  "p6_flags st = p6_flags st' \<Longrightarrow> current_stage st = current_stage st' \<Longrightarrow> kept st' (read_dict_eids m st)"
  unfolding read_dict_eids_def by (intro kept_with_bundle kept_obind) (auto simp: Let_def split: prod.splits intro!: kept_obind)

lemma kept_dictionary: "kept st (read_dictionary_byte m byte st)"
  unfolding read_dictionary_byte_def Let_def
  by (rule kept_obind) (auto dest!: dict_put_kept intro!: kept_obind kept_read_dict_eids)

lemma set_block_flags_fields [simp]:
  "p6_flags (set_block_flags v st) = p6_flags st" "current_stage (set_block_flags v st) = current_stage st"
  by (simp_all add: set_block_flags_def)

lemma wait_pair:
  "bundle6_parser_wait_for_sdnv n st = (fin, st') \<Longrightarrow> p6_flags st' = p6_flags st \<and> current_stage st' = current_stage st"
  using wait_fields [of n st] by simp

lemma kept_block_flags: "kept st (read_block_flags_byte m byte st)"
  unfolding read_block_flags_byte_def
  by (intro kept_with_block)
    (auto simp: Let_def read_sdnv_fields [of p6_flags] read_sdnv_fields [of current_stage]
      split: prod.split dest!: wait_pair intro!: kept_with_block)

lemma kept_eid_ref_cnt: "p6_flags (read_eid_ref_cnt_byte byte st) = p6_flags st"
  "current_stage (read_eid_ref_cnt_byte byte st) = current_stage st"
  by (auto simp: read_eid_ref_cnt_byte_def Let_def read_sdnv_fields [of p6_flags] read_sdnv_fields [of current_stage]
      split: prod.split dest!: wait_pair)

lemma kept_store_eid_ref:
  "p6_flags st = p6_flags st' \<Longrightarrow> current_stage st = current_stage st' \<Longrightarrow> kept st' (store_eid_ref m st)"
  by (auto simp: store_eid_ref_def Let_def split: prod.split option.split intro!: kept_with_block kept_obind)

lemma kept_eid_ref_ssp: "kept st (read_eid_ref_ssp_byte m byte st)"
  by (auto simp: read_eid_ref_ssp_byte_def Let_def read_sdnv_fields [of p6_flags] read_sdnv_fields [of current_stage]
      split: prod.split dest!: wait_pair intro!: kept_store_eid_ref)

lemma kept_block_data: "p6_flags (read_block_data_byte st) = p6_flags st"
  "current_stage (read_block_data_byte st) = current_stage st"
  by (simp_all add: read_block_data_byte_def Let_def bundle6_parser_end_block_def)

lemma kept_read_stage: "kept st (read_stage_byte m byte st)"
proof (cases "current_stage st")
qed (auto simp: read_stage_byte_def kept_eid_ref_cnt kept_block_data
      read_sdnv_fields [of p6_flags] read_sdnv_fields [of current_stage]
    intro!: kept_bundle_sdnv kept_state_sdnv kept_begin_block kept_dictionary kept_block_flags
      kept_eid_ref_ssp kept_with_bundle kept_with_block)

definition bulk :: "bundle6_parser \<Rightarrow> bool" where
  "bulk st \<longleftrightarrow> HAS_FLAG (p6_flags st) PARSER_FLAG_BULK_READ"

lemma next_bulk:
  assumes "bundle6_parser_next m st = Inr (st', m')" and "\<not> bulk st"
  shows "bulk st' \<longrightarrow> next_stage st = PARSER_STAGE_BLOCK_DATA \<and> current_stage st' = PARSER_STAGE_BLOCK_DATA"
proof (cases "next_stage st = PARSER_STAGE_BLOCK_DATA")
  case True
  then show ?thesis
    using assms(1)
    by (auto simp: bundle6_parser_next_def enter_stage_def obind_eq_Inr enter_block_data_def with_block_def
        with_bundle_def Let_def bundle6_parser_send_bundle_def split: option.splits if_splits prod.splits)
next
  case False
  then have "p6_flags st' = p6_flags st"
    using assms(1)
    by (cases "next_stage st") (auto simp: bundle6_parser_next_def enter_stage_def obind_eq_Inr with_bundle_def Let_def
        enter_dictionary_def reset_sdnv_def
        bundle6_parser_send_bundle_def split: option.splits if_splits prod.splits)
  then show ?thesis using assms(2) by (simp add: bulk_def)
qed

lemma block_data_next: "next_stage (read_block_data_byte st) = PARSER_STAGE_BLOCK_DATA \<Longrightarrow>
    p6_status (read_block_data_byte st) = PARSER_STATUS_ERROR"
  by (auto simp: read_block_data_byte_def Let_def split: if_splits)

lemma read_byte_bulk:
  assumes "bundle6_parser_read_byte m byte st = Inr (st', m')" and "\<not> bulk st"
  shows "bulk st' \<longrightarrow> current_stage st \<noteq> PARSER_STAGE_BLOCK_DATA \<and> current_stage st' = PARSER_STAGE_BLOCK_DATA"
proof (cases "current_block st = PARSER_BLOCK_PRIMARY \<and> bundle6_parser_length_known st \<and>
    primary_bytes_remaining st = 0")
  case True
  then show ?thesis using assms by (auto simp: bundle6_parser_read_byte_def bulk_def)
next
  case False
  let ?s = "if current_block st = PARSER_BLOCK_PRIMARY
      then st\<lparr>primary_bytes_remaining := primary_bytes_remaining st - 1\<rparr> else st"
  obtain st1 m1 where 1: "read_stage_byte m byte ?s = Inr (st1, m1)"
      "(if current_stage st1 \<noteq> next_stage st1 \<and> p6_status st1 \<noteq> PARSER_STATUS_ERROR
        then bundle6_parser_next m1 st1 else Inr (st1, m1)) = Inr (st', m')"
    using assms(1) False by (auto simp: bundle6_parser_read_byte_def obind_eq_Inr split: if_splits)
  have k: "p6_flags st1 = p6_flags st" "current_stage st1 = current_stage st"
    using kept_read_stage [of ?s m byte] 1(1) by (auto split: if_splits)
  show ?thesis
  proof (cases "current_stage st1 \<noteq> next_stage st1 \<and> p6_status st1 \<noteq> PARSER_STATUS_ERROR")
    case True
    then show ?thesis
      using next_bulk [of m1 st1 st' m'] 1(2) k assms(2) by (auto simp: bulk_def)
  next
    case False
    then show ?thesis using 1(2) k assms(2) by (auto simp: bulk_def)
  qed
qed

definition read_rank :: "bundle6_parser \<Rightarrow> nat" where
  "read_rank st = (if \<not> bulk st then 0 else if current_stage st = PARSER_STAGE_BLOCK_DATA then 1 else 3)"

text \<open>
  The loop of \<open>bundle6_parser_read\<close>: the number of bytes consumed. A bulk read of which the buffer does
  not hold all bytes is left to the caller.
\<close>

definition bulk_copy :: "bytes \<Rightarrow> bundle6_parser \<Rightarrow> bundle6_parser outcome" where
  "bulk_copy bs st = with_block st (\<lambda>blk. obind (put_bytes (blk_data blk) 0 bs) (\<lambda>d.
     Inr ((upd_block (\<lambda>blk. blk\<lparr>blk_data := Some d\<rparr>) st)
       \<lparr>p6_flags := p6_flags st AND NOT PARSER_FLAG_BULK_READ\<rparr>)))"

lemma bulk_copy_fields:
  assumes "bulk_copy bs st = Inr st'"
  shows "\<not> bulk st'" "current_stage st' = current_stage st"
  using assms HAS_FLAG_clear [of "p6_flags st" 1]
  by (auto simp: bulk_copy_def with_block_def with_bundle_def obind_eq_Inr bulk_def split: option.splits if_splits)

declare obind_cong [fundef_cong]

function bundle6_parser_read_loop :: "alloc_trace \<Rightarrow> bundle6_parser \<Rightarrow> bytes \<Rightarrow>
    (nat \<times> bundle6_parser \<times> alloc_trace) outcome" where
  "bundle6_parser_read_loop m st buf =
     (if p6_status st = PARSER_STATUS_GOOD \<and> buf \<noteq> []
      then if bulk st
        then if next_bytes st > length buf then Inr (0, st, m)
          else obind (bulk_copy (take (next_bytes st) buf) st) (\<lambda>st0.
            obind (bundle6_parser_read_byte m 0 st0) (\<lambda>(st1, m1).
            obind (bundle6_parser_read_loop m1 st1 (drop (next_bytes st1) buf)) (\<lambda>(n, st2, m2).
              Inr (next_bytes st1 + n, st2, m2))))
        else obind (bundle6_parser_read_byte m (hd buf) st) (\<lambda>(st1, m1).
          obind (bundle6_parser_read_loop m1 st1 (tl buf)) (\<lambda>(n, st2, m2). Inr (1 + n, st2, m2)))
      else Inr (0, st, m))"
  by pat_completeness auto
termination
proof (relation "measure (\<lambda>(m, st, buf). 4 * length buf + read_rank st)", goal_cases)
  case 1
  show ?case by simp
next
  case (2 m st buf st0 x st1 m1)
  have "read_rank st1 < read_rank st"
    using read_byte_bulk [OF 2(5) [unfolded 2(6) [symmetric]]] 2(2) bulk_copy_fields [OF 2(4)]
    by (auto simp: read_rank_def)
  moreover have "length (drop (next_bytes st1) buf) \<le> length buf" by simp
  ultimately show ?case by simp
next
  case (3 m st buf x st1 m1)
  have "length (tl buf) < length buf" using 3(1) by (cases buf) auto
  then show ?case by (auto simp: read_rank_def)
qed

declare bundle6_parser_read_loop.simps [simp del]

text \<open>
  \<open>None\<close> is the null pointer that the outer reader passes after it has done the bulk read itself: a zero byte is fed.
\<close>

definition bundle6_parser_read :: "alloc_trace \<Rightarrow> bundle6_parser \<Rightarrow> bytes option \<Rightarrow>
    (nat \<times> bundle6_parser \<times> alloc_trace) outcome" where
  "bundle6_parser_read m st buffer = (case buffer of
       None \<Rightarrow> obind (bundle6_parser_read_byte m 0 st) (\<lambda>(st1, m1). Inr (0, st1, m1))
     | Some buf \<Rightarrow> bundle6_parser_read_loop m st buf)"

text \<open>
  That outer reader, \<open>bulk_read\<close> of \<open>components/cla/cla_contact_rx_task.c\<close>, for this parser: \<open>input\<close> is the unread part of the
  input buffer and \<open>later\<close> what the convergence layer delivers before a read fails. The bytes that are left of the input
  buffer are returned. A parser that is done or has failed is reset, which must succeed.
\<close>

definition rx_task_reset_parsers :: "u32 \<Rightarrow> u32 \<Rightarrow> alloc_trace \<Rightarrow> bundle6_parser \<Rightarrow> p6_result" where
  "rx_task_reset_parsers usage sz m st = (case bundle6_parser_reset usage sz m st of
       (r, st1, m1) \<Rightarrow> c_assert (r = UPCN_OK) (Inr (st1, m1)))"

definition bulk_read :: "u32 \<Rightarrow> u32 \<Rightarrow> alloc_trace \<Rightarrow> bundle6_parser \<Rightarrow> bytes \<Rightarrow> bytes \<Rightarrow>
    (bytes \<times> bundle6_parser \<times> alloc_trace) outcome" where
  "bulk_read usage sz m st input later =
     (if next_bytes st \<le> length (input @ later)
      then obind (bulk_copy (take (next_bytes st) (input @ later)) st) (\<lambda>st0.
           obind (bundle6_parser_read m st0 None) (\<lambda>(_, st1, m1).
           obind (if p6_status st1 \<noteq> PARSER_STATUS_GOOD then rx_task_reset_parsers usage sz m1 st1 else Inr (st1, m1))
             (\<lambda>(st2, m2). Inr (drop (next_bytes st) input, st2, m2))))
      else obind (rx_task_reset_parsers usage sz m st) (\<lambda>(st1, m1). Inr ([], st1, m1)))"

section \<open>Safety\<close>

text \<open>
  What holds between two calls while the status is good: the parser owns a bundle, the dictionary
  buffer is allocated with its terminator and the remaining bytes fit into it, the current block
  exists in the stages that access it, and a bulk read is under way exactly in the data stage.
\<close>

definition dict_ok :: "bundle6_parser \<Rightarrow> bool" where
  "dict_ok st \<longleftrightarrow> (\<exists>d. dict st = Some d \<and>
     length d = unat (dict_length st) + 1 \<and> d ! unat (dict_length st) = 0)"

definition before_dict :: "bundle6_parser_stage \<Rightarrow> bool" where
  "before_dict s \<longleftrightarrow> s \<in> {PARSER_STAGE_VERSION, PARSER_STAGE_PROC_FLAGS, PARSER_STAGE_BLOCK_LENGTH,
     PARSER_STAGE_DESTINATION_EID_SCHEME, PARSER_STAGE_DESTINATION_EID_SSP, PARSER_STAGE_SOURCE_EID_SCHEME,
     PARSER_STAGE_SOURCE_EID_SSP, PARSER_STAGE_REPORT_EID_SCHEME, PARSER_STAGE_REPORT_EID_SSP,
     PARSER_STAGE_CUSTODIAN_EID_SCHEME, PARSER_STAGE_CUSTODIAN_EID_SSP, PARSER_STAGE_TIMESTAMP,
     PARSER_STAGE_SEQUENCE_NUM, PARSER_STAGE_LIFETIME, PARSER_STAGE_DICT_LENGTH}"

definition in_block :: "bundle6_parser_stage \<Rightarrow> bool" where
  "in_block s \<longleftrightarrow> s \<in> {PARSER_STAGE_BLOCK_FLAGS, PARSER_STAGE_BLOCK_EID_REF_CNT, PARSER_STAGE_BLOCK_EID_REF_SCH,
     PARSER_STAGE_BLOCK_EID_REF_SSP, PARSER_STAGE_BLOCK_DATA_LENGTH, PARSER_STAGE_BLOCK_DATA}"

definition entry_need :: "bundle6_parser_stage \<Rightarrow> nat" where
  "entry_need s = (if in_block s then 1 else 0)"

definition entry_ok :: "bundle6_parser_stage \<Rightarrow> bundle6_parser \<Rightarrow> bool" where
  "entry_ok s st \<longleftrightarrow> (\<exists>b. p6_bundle st = Some b \<and>
     current_block_entry st + entry_need s \<le> length (blocks b))"

definition stage_ok :: "bundle6_parser_stage \<Rightarrow> bundle6_parser \<Rightarrow> bool" where
  "stage_ok s st \<longleftrightarrow> entry_ok s st \<and> (before_dict s \<or> dict_ok st) \<and>
     (s = PARSER_STAGE_DICTIONARY \<longrightarrow>
        unat (current_index st) + unat (cur_bytes_remaining st) = unat (dict_length st) \<and>
        cur_bytes_remaining st \<noteq> 0)"

definition p6_ok :: "bundle6_parser \<Rightarrow> bool" where
  "p6_ok st \<longleftrightarrow> p6_status st = PARSER_STATUS_GOOD \<longrightarrow>
     current_stage st = next_stage st \<and> current_stage st \<noteq> PARSER_STAGE_DONE \<and>
     stage_ok (current_stage st) st"

text \<open>What a stage leaves behind: an error, or what the stage to come needs.\<close>

definition left_ok :: "bundle6_parser_stage \<Rightarrow> bundle6_parser \<Rightarrow> bool" where
  "left_ok s st \<longleftrightarrow> current_stage st = s \<and> (p6_status st = PARSER_STATUS_ERROR \<or>
     p6_status st = PARSER_STATUS_GOOD \<and>
      (if next_stage st = s then s \<noteq> PARSER_STAGE_DONE \<and> stage_ok s st
       else entry_ok (next_stage st) st \<and> (before_dict (next_stage st) \<or> next_stage st = PARSER_STAGE_DICTIONARY \<or> dict_ok st)))"

definition safe :: "(bundle6_parser \<Rightarrow> bool) \<Rightarrow> p6_result \<Rightarrow> bool" where
  "safe P r \<longleftrightarrow> (case r of Inl _ \<Rightarrow> False | Inr (st, m) \<Rightarrow> P st)"

lemma safe_simps [simp]: "safe P (Inr (st, m)) \<longleftrightarrow> P st" "\<not> safe P (Inl e)"
  by (simp_all add: safe_def)

lemma unat_u16_u32 [simp]: "unat (ucast (x :: u16) :: u32) = unat x"
proof -
  have "unat x < 2 ^ 32" using unsigned_less [of x, where ?'a = nat] by simp
  then show ?thesis by (simp add: unsigned_ucast_eq take_bit_nat_eq_self)
qed

lemma u16_u32_0 [simp]: "(ucast (x :: u16) :: u32) = 0 \<longleftrightarrow> x = 0"
  by (metis unat_u16_u32 unat_eq_zero)

lemma entry_ok_bundle: "entry_ok s st \<Longrightarrow> \<exists>b. p6_bundle st = Some b"
  by (auto simp: entry_ok_def split: option.splits)

lemma next_safe:
  assumes "left_ok s st" and "next_stage st \<noteq> s" and "p6_status st \<noteq> PARSER_STATUS_ERROR"
  shows "safe p6_ok (bundle6_parser_next m st)"
proof -
  have e: "entry_ok (next_stage st) st" "p6_status st = PARSER_STATUS_GOOD"
      "before_dict (next_stage st) \<or> next_stage st = PARSER_STAGE_DICTIONARY \<or> dict_ok st"
    using assms by (auto simp: left_ok_def)
  then obtain b where b: "p6_bundle st = Some b" using entry_ok_bundle by blast
  note defs = bundle6_parser_next_def enter_stage_def with_bundle_def p6_ok_def stage_ok_def entry_ok_def
    dict_ok_def before_dict_def entry_need_def in_block_def reset_sdnv_def
  show ?thesis
  proof (cases "next_stage st")
    case PARSER_STAGE_DICTIONARY
    then show ?thesis
      using e b by (auto simp: defs enter_dictionary_def Let_def simp del: replicate.simps split: prod.splits option.splits)
  next
    case PARSER_STAGE_BLOCK_DATA
    then show ?thesis
      using e b by (auto simp: defs enter_block_data_def with_block_def upd_block_def upd_bundle_def Let_def split: prod.splits option.splits)
  next
    case PARSER_STAGE_DONE
    then show ?thesis
      using e b by (auto simp: defs bundle6_parser_send_bundle_def Let_def split: option.splits)
  qed (use e b in \<open>auto simp: defs upd_bundle_def split: option.splits\<close>)
qed

lemma ok_fields [simp]:
  "stage_ok s (st\<lparr>next_stage := n\<rparr>) = stage_ok s st" "stage_ok s (st\<lparr>p6_status := t\<rparr>) = stage_ok s st"
  "stage_ok s (st\<lparr>p6_sdnv := x\<rparr>) = stage_ok s st" "entry_ok s (st\<lparr>next_stage := n\<rparr>) = entry_ok s st"
  "stage_ok s (st\<lparr>primary_bytes_remaining := r\<rparr>) = stage_ok s st"
  "stage_ok s (st\<lparr>p6_error := e\<rparr>) = stage_ok s st" "stage_ok s (st\<lparr>last_block := l\<rparr>) = stage_ok s st"
  "entry_ok s (st\<lparr>p6_sdnv := x\<rparr>) = entry_ok s st" "entry_ok s (st\<lparr>last_block := l\<rparr>) = entry_ok s st"
  "entry_ok s (st\<lparr>p6_status := t\<rparr>) = entry_ok s st" "entry_ok s (st\<lparr>current_index := i\<rparr>) = entry_ok s st"
  "dict_ok (st\<lparr>next_stage := n\<rparr>) = dict_ok st" "dict_ok (st\<lparr>p6_sdnv := x\<rparr>) = dict_ok st"
  "dict_ok (st\<lparr>last_block := l\<rparr>) = dict_ok st" "dict_ok (st\<lparr>p6_status := t\<rparr>) = dict_ok st"
  "dict_ok (st\<lparr>current_index := i\<rparr>) = dict_ok st"
  by (simp_all add: stage_ok_def entry_ok_def dict_ok_def)

lemma wait_left_ok:
  assumes "p6_status st = PARSER_STATUS_GOOD" and "current_stage st = s" and "next_stage st = s"
    and "s \<noteq> PARSER_STAGE_DONE" and "stage_ok s st" and "n \<noteq> s" and "entry_ok n st"
    and "before_dict n \<or> n = PARSER_STAGE_DICTIONARY \<or> dict_ok st"
  shows "left_ok s (snd (bundle6_parser_wait_for_sdnv n st))"
  using assms by (auto simp: bundle6_parser_wait_for_sdnv_def left_ok_def split: sdnv_status.split)

text \<open>A field that reading a number may store to without an effect on the invariant.\<close>

definition neutral :: "('v \<Rightarrow> bundle6_parser \<Rightarrow> bundle6_parser) \<Rightarrow> bundle6_parser_stage set \<Rightarrow> bool" where
  "neutral put S \<longleftrightarrow> (\<forall>v st. p6_status (put v st) = p6_status st \<and> current_stage (put v st) = current_stage st \<and>
     next_stage (put v st) = next_stage st \<and> (\<forall>s \<in> S. stage_ok s st \<longrightarrow> stage_ok s (put v st)) \<and>
     (\<forall>n. entry_ok n (put v st) = entry_ok n st) \<and> dict_ok (put v st) = dict_ok st)"

lemma read_sdnv_left_ok:
  assumes "neutral put {s}" and "p6_status st = PARSER_STATUS_GOOD" and "current_stage st = s" and "next_stage st = s"
    and "s \<noteq> PARSER_STAGE_DONE" and "stage_ok s st" and "n \<noteq> s" and "entry_ok n st"
    and "before_dict n \<or> n = PARSER_STAGE_DICTIONARY \<or> dict_ok st"
  shows "left_ok s (snd (bundle6_parser_wait_for_sdnv n (read_sdnv rd x put byte st)))"
  using assms by (intro wait_left_ok) (auto simp: read_sdnv_def neutral_def split_beta)

lemma neutral_bundle:
  "(\<And>v b. blocks (f v b) = blocks b) \<Longrightarrow> neutral (\<lambda>v. upd_bundle (f v)) S"
  by (auto simp: neutral_def stage_ok_def entry_ok_def dict_ok_def upd_bundle_def split: option.splits)

lemma neutral_block: "neutral (\<lambda>v. upd_block (f v)) S"
  by (auto simp: neutral_def stage_ok_def entry_ok_def dict_ok_def upd_block_def upd_bundle_def split: option.splits)

lemma bundle_sdnv_safe:
  assumes "\<And>v b. blocks (put v b) = blocks b" and "p6_status st = PARSER_STATUS_GOOD" and "current_stage st = s"
    and "next_stage st = s" and "s \<noteq> PARSER_STAGE_DONE" and "stage_ok s st" and "n \<noteq> s" and "entry_ok n st"
    and "before_dict n \<or> n = PARSER_STAGE_DICTIONARY \<or> dict_ok st"
  shows "safe (left_ok s) (bundle_sdnv n rd get put m byte st)"
  using entry_ok_bundle [OF assms(8)]
    read_sdnv_left_ok [OF neutral_bundle [of put, OF assms(1)] assms(2-9)]
  by (auto simp: bundle_sdnv_def with_bundle_def)

lemma state_sdnv_safe:
  assumes "neutral put {s}" and "p6_status st = PARSER_STATUS_GOOD" and "current_stage st = s"
    and "next_stage st = s" and "s \<noteq> PARSER_STAGE_DONE" and "stage_ok s st" and "n \<noteq> s" and "entry_ok n st"
    and "before_dict n \<or> n = PARSER_STAGE_DICTIONARY \<or> dict_ok st"
  shows "safe (left_ok s) (state_sdnv n get put m byte st)"
  using read_sdnv_left_ok [OF assms] by (auto simp: state_sdnv_def)

lemma begin_block_safe:
  assumes "p6_status st = PARSER_STATUS_GOOD" and "current_stage st = PARSER_STAGE_BLOCK_TYPE"
    and "stage_ok PARSER_STAGE_BLOCK_TYPE st"
  shows "safe (left_ok PARSER_STAGE_BLOCK_TYPE)
    (bundle6_parser_begin_block m byte (st\<lparr>next_stage := PARSER_STAGE_BLOCK_FLAGS\<rparr>))"
  using assms
  by (auto simp: bundle6_parser_begin_block_def bundle_block_create_def with_bundle_def left_ok_def stage_ok_def
      entry_ok_def dict_ok_def before_dict_def entry_need_def in_block_def upd_bundle_def Let_def split: prod.splits option.splits)

lemma string_at_ok:
  assumes "length d = n + 1" and "d ! n = 0" and "off < n"
  shows "\<exists>s. string_at d off = Inr s"
proof -
  have "0 \<in> set (drop off d)"
    using assms nth_mem [of "n - off" "drop off d"] by simp
  then show ?thesis by (simp add: string_at_def c_strlen_def)
qed

lemma read_eid_safe:
  assumes "dict_ok st"
  shows "\<exists>e m'. bundle6_read_eid m (dict st) (unat (dict_length st)) ref = Inr (e, m')"
proof -
  obtain d where d: "dict st = Some d" "length d = unat (dict_length st) + 1" "d ! unat (dict_length st) = 0"
    using assms by (auto simp: dict_ok_def split: option.splits)
  show ?thesis
    using d(1) string_at_ok [OF d(2,3), of "unat (scheme_offset ref)"] string_at_ok [OF d(2,3), of "unat (ssp_offset ref)"]
    by (auto simp: bundle6_read_eid_def not_le split: prod.split option.split)
qed

lemma read_dict_eids_safe:
  assumes "dict_ok st" and "p6_status st = PARSER_STATUS_GOOD" and "current_stage st = PARSER_STAGE_DICTIONARY"
    and "entry_ok PARSER_STAGE_DICTIONARY st"
  shows "safe (left_ok PARSER_STAGE_DICTIONARY) (read_dict_eids m st)"
proof -
  obtain b where b: "p6_bundle st = Some b" using entry_ok_bundle [OF assms(4)] by blast
  obtain s m1 where 1: "bundle6_read_eid m (dict st) (unat (dict_length st)) (source_eidref st) = Inr (s, m1)"
    using read_eid_safe [OF assms(1)] by blast
  obtain d m2 where 2: "bundle6_read_eid m1 (dict st) (unat (dict_length st)) (destination_eidref st) = Inr (d, m2)"
    using read_eid_safe [OF assms(1)] by blast
  obtain r m3 where 3: "bundle6_read_eid m2 (dict st) (unat (dict_length st)) (report_to_eidref st) = Inr (r, m3)"
    using read_eid_safe [OF assms(1)] by blast
  obtain c m4 where 4: "bundle6_read_eid m3 (dict st) (unat (dict_length st)) (custodian_eidref st) = Inr (c, m4)"
    using read_eid_safe [OF assms(1)] by blast
  show ?thesis
    using assms b
    by (simp add: read_dict_eids_def with_bundle_def 1 2 3 4 Let_def left_ok_def entry_ok_def dict_ok_def
        entry_need_def in_block_def before_dict_def)
qed

lemma dictionary_safe:
  assumes "p6_status st = PARSER_STATUS_GOOD" and "current_stage st = PARSER_STAGE_DICTIONARY"
    and "next_stage st = PARSER_STAGE_DICTIONARY" and "stage_ok PARSER_STAGE_DICTIONARY st"
  shows "safe (left_ok PARSER_STAGE_DICTIONARY) (read_dictionary_byte m byte st)"
proof -
  obtain d where d: "dict st = Some d" "length d = unat (dict_length st) + 1" "d ! unat (dict_length st) = 0"
      "unat (current_index st) + unat (cur_bytes_remaining st) = unat (dict_length st)" "cur_bytes_remaining st \<noteq> 0"
      "entry_ok PARSER_STAGE_DICTIONARY st"
    using assms(4) by (auto simp: stage_ok_def dict_ok_def before_dict_def split: option.splits)
  have pos: "0 < unat (cur_bytes_remaining st)" using d(5) by (simp add: unat_gt_0)
  have rem: "unat (cur_bytes_remaining st - 1) = unat (cur_bytes_remaining st) - 1"
    using pos by (metis unat_minus_one d(5))
  have "unat (dict_length st) < 2 ^ 16" using unsigned_less [of "dict_length st", where ?'a = nat] by simp
  then have idx: "unat (current_index st + 1) = unat (current_index st) + 1"
    using d(4) by (simp add: unat_word_ariths)
  define c where "c = cur_bytes_remaining st - 1"
  note rem = rem [folded c_def]
  let ?st1 = "st\<lparr>cur_bytes_remaining := c, dict := Some (d[unat (current_index st) := byte]),
      current_index := current_index st + 1\<rparr>"
  have put1: "dict_put (current_index st) byte (st\<lparr>cur_bytes_remaining := c\<rparr>) = Inr ?st1"
    using d(1,2,4) pos by (simp add: dict_put_def)
  show ?thesis
  proof (cases "c = 0")
    case True
    then have c1: "unat (cur_bytes_remaining st) = 1" using rem pos by simp
    let ?st2 = "?st1\<lparr>dict := Some (d[unat (current_index st) := byte, unat (current_index st + 1) := 0]),
        current_index := current_index st + 1 + 1\<rparr>"
    have r1: "read_dictionary_byte m byte st = obind (dict_put (current_index st + 1) 0 ?st1) (read_dict_eids m)"
      using put1 True by (simp add: read_dictionary_byte_def flip: c_def)
    have put2: "dict_put (current_index st + 1) 0 ?st1 = Inr ?st2"
      using d(2,4) idx c1 by (simp add: dict_put_def)
    have "dict_ok ?st2" using d(2,4) idx c1 by (simp add: dict_ok_def)
    then have safe: "safe (left_ok PARSER_STAGE_DICTIONARY) (read_dict_eids m ?st2)"
      using assms d(6) by (intro read_dict_eids_safe) (simp_all add: entry_ok_def)
    show ?thesis unfolding r1 put2 obind_Inr by (rule safe)
  next
    case False
    then have "left_ok PARSER_STAGE_DICTIONARY ?st1"
      using assms d rem idx pos
      by (auto simp: left_ok_def stage_ok_def entry_ok_def dict_ok_def before_dict_def entry_need_def in_block_def)
    then show ?thesis using False by (simp add: read_dictionary_byte_def put1 flip: c_def)
  qed
qed

lemma entry_ok_block: "entry_ok s st \<Longrightarrow> in_block s \<Longrightarrow> \<exists>b. p6_bundle st = Some b \<and> current_block_entry st < length (blocks b)"
  by (auto simp: entry_ok_def entry_need_def)

lemma with_block_eq:
  "p6_bundle st = Some b \<Longrightarrow> current_block_entry st < length (blocks b) \<Longrightarrow>
    with_block st f = f (snd (blocks b ! current_block_entry st))"
  by (simp add: with_block_def with_bundle_def)

lemma block_flags_safe:
  assumes "p6_status st = PARSER_STATUS_GOOD" and "current_stage st = PARSER_STAGE_BLOCK_FLAGS"
    and "next_stage st = PARSER_STAGE_BLOCK_FLAGS" and "stage_ok PARSER_STAGE_BLOCK_FLAGS st"
  shows "safe (left_ok PARSER_STAGE_BLOCK_FLAGS) (read_block_flags_byte m byte st)"
proof -
  obtain b where b: "p6_bundle st = Some b" "current_block_entry st < length (blocks b)"
    using assms(4) entry_ok_block by (auto simp: stage_ok_def in_block_def)
  let ?blk = "snd (blocks b ! current_block_entry st)"
  let ?s1 = "read_sdnv sdnv_read_u8 (ucast (blk_flags ?blk)) set_block_flags byte st"
  let ?w = "bundle6_parser_wait_for_sdnv PARSER_STAGE_BLOCK_DATA_LENGTH ?s1"
  have n: "neutral set_block_flags {PARSER_STAGE_BLOCK_FLAGS}"
    unfolding set_block_flags_def by (rule neutral_block)
  have e: "entry_ok PARSER_STAGE_BLOCK_DATA_LENGTH st" "dict_ok st" "entry_ok PARSER_STAGE_BLOCK_EID_REF_CNT st"
    using assms(4) by (auto simp: stage_ok_def entry_ok_def entry_need_def in_block_def before_dict_def)
  have l: "left_ok PARSER_STAGE_BLOCK_FLAGS (snd ?w)"
    using assms e by (intro read_sdnv_left_ok [OF n]) simp_all
  show ?thesis
  proof (cases "fst ?w")
    case False
    then show ?thesis
      using l by (simp add: read_block_flags_byte_def with_block_eq [OF b] Let_def split_beta)
  next
    case True
    then have "sdnv_st (p6_sdnv ?s1) = SDNV_DONE"
      by (simp add: bundle6_parser_wait_for_sdnv_def split: sdnv_status.splits)
    then have w: "snd ?w = ?s1\<lparr>next_stage := PARSER_STAGE_BLOCK_DATA_LENGTH\<rparr>"
      by (simp add: bundle6_parser_wait_for_sdnv_def)
    have st: "p6_status (snd ?w) = PARSER_STATUS_GOOD"
      unfolding w using assms(1) n by (simp add: read_sdnv_def split_beta neutral_def)
    have eo: "entry_ok PARSER_STAGE_BLOCK_DATA_LENGTH (snd ?w)" "dict_ok (snd ?w)"
        "current_stage (snd ?w) = PARSER_STAGE_BLOCK_FLAGS" "entry_ok PARSER_STAGE_BLOCK_EID_REF_CNT (snd ?w)"
      unfolding w using assms(2) e n by (simp_all add: read_sdnv_def split_beta neutral_def)
    then obtain b' where b': "p6_bundle (snd ?w) = Some b'" "current_block_entry (snd ?w) < length (blocks b')"
      using entry_ok_block by (auto simp: in_block_def)
    show ?thesis
      using True st eo w
      by (auto simp: read_block_flags_byte_def with_block_eq [OF b] with_block_eq [OF b' [unfolded w]] Let_def split_beta left_ok_def)
  qed
qed

lemma eid_ref_cnt_safe:
  assumes "p6_status st = PARSER_STATUS_GOOD" and "current_stage st = PARSER_STAGE_BLOCK_EID_REF_CNT"
    and "next_stage st = PARSER_STAGE_BLOCK_EID_REF_CNT" and "stage_ok PARSER_STAGE_BLOCK_EID_REF_CNT st"
  shows "left_ok PARSER_STAGE_BLOCK_EID_REF_CNT (read_eid_ref_cnt_byte byte st)"
  using assms
  by (auto simp: read_eid_ref_cnt_byte_def bundle6_parser_wait_for_sdnv_def read_sdnv_def Let_def split_beta
      left_ok_def stage_ok_def entry_ok_def dict_ok_def entry_need_def in_block_def before_dict_def
      split: sdnv_status.split)

lemma store_eid_ref_safe:
  assumes "p6_status st = PARSER_STATUS_GOOD" and "current_stage st = PARSER_STAGE_BLOCK_EID_REF_SSP"
    and "next_stage st = PARSER_STAGE_BLOCK_EID_REF_SCH" and "entry_ok PARSER_STAGE_BLOCK_EID_REF_SSP st"
    and "dict_ok st"
  shows "safe (left_ok PARSER_STAGE_BLOCK_EID_REF_SSP) (store_eid_ref m st)"
proof (cases "malloc m")
  case (Pair a m1)
  obtain b where b: "p6_bundle st = Some b" "current_block_entry st < length (blocks b)"
    using assms(4) entry_ok_block by (auto simp: in_block_def)
  obtain eid m2 where r: "bundle6_read_eid m1 (dict st) (unat (dict_length st)) (cur_eidref st) = Inr (eid, m2)"
    using read_eid_safe [OF assms(5)] by blast
  show ?thesis
    using assms b(1) Pair
    by (cases a) (auto simp: store_eid_ref_def with_block_eq [OF b] r left_ok_def Let_def upd_block_def
        upd_bundle_def entry_ok_def dict_ok_def entry_need_def in_block_def before_dict_def)
qed

lemma eid_ref_ssp_safe:
  assumes "p6_status st = PARSER_STATUS_GOOD" and "current_stage st = PARSER_STAGE_BLOCK_EID_REF_SSP"
    and "next_stage st = PARSER_STAGE_BLOCK_EID_REF_SSP" and "stage_ok PARSER_STAGE_BLOCK_EID_REF_SSP st"
  shows "safe (left_ok PARSER_STAGE_BLOCK_EID_REF_SSP) (read_eid_ref_ssp_byte m byte st)"
proof -
  let ?s1 = "read_sdnv sdnv_read_u16 (ssp_offset (cur_eidref st))
      (\<lambda>v st. st\<lparr>cur_eidref := (cur_eidref st)\<lparr>ssp_offset := v\<rparr>\<rparr>) byte st"
  let ?w = "bundle6_parser_wait_for_sdnv PARSER_STAGE_BLOCK_EID_REF_SCH ?s1"
  have s1: "p6_status ?s1 = PARSER_STATUS_GOOD" "current_stage ?s1 = PARSER_STAGE_BLOCK_EID_REF_SSP"
      "next_stage ?s1 = PARSER_STAGE_BLOCK_EID_REF_SSP" "stage_ok PARSER_STAGE_BLOCK_EID_REF_SSP ?s1"
    using assms by (simp_all add: read_sdnv_def split_beta stage_ok_def entry_ok_def dict_ok_def)
  show ?thesis
  proof (cases "fst ?w")
    case False
    then have "left_ok PARSER_STAGE_BLOCK_EID_REF_SSP (snd ?w)"
      using s1 by (auto simp: bundle6_parser_wait_for_sdnv_def left_ok_def split: sdnv_status.splits)
    then show ?thesis using False by (simp add: read_eid_ref_ssp_byte_def Let_def split_beta)
  next
    case True
    let ?s2 = "?s1\<lparr>next_stage := PARSER_STAGE_BLOCK_EID_REF_SCH\<rparr>"
    have w: "?w = (True, ?s2)"
      using True by (simp add: bundle6_parser_wait_for_sdnv_def split: sdnv_status.splits)
    have d: "dict_ok ?s2" using s1(4) by (simp add: stage_ok_def before_dict_def)
    have "safe (left_ok PARSER_STAGE_BLOCK_EID_REF_SSP) (store_eid_ref m ?s2)"
      using s1 d by (intro store_eid_ref_safe) (simp_all add: stage_ok_def)
    then show ?thesis by (simp add: read_eid_ref_ssp_byte_def w)
  qed
qed

lemma block_data_safe:
  assumes "p6_status st = PARSER_STATUS_GOOD" and "current_stage st = PARSER_STAGE_BLOCK_DATA"
    and "next_stage st = PARSER_STAGE_BLOCK_DATA" and "stage_ok PARSER_STAGE_BLOCK_DATA st"
  shows "left_ok PARSER_STAGE_BLOCK_DATA (read_block_data_byte st)"
  using assms
  by (auto simp: read_block_data_byte_def Let_def bundle6_parser_end_block_def left_ok_def stage_ok_def entry_ok_def
      dict_ok_def entry_need_def in_block_def before_dict_def)

lemma block_length_safe:
  assumes "p6_status st = PARSER_STATUS_GOOD" and "current_stage st = PARSER_STAGE_BLOCK_DATA_LENGTH"
    and "next_stage st = PARSER_STAGE_BLOCK_DATA_LENGTH" and "stage_ok PARSER_STAGE_BLOCK_DATA_LENGTH st"
  shows "safe (left_ok PARSER_STAGE_BLOCK_DATA_LENGTH) (read_stage_byte m byte st)"
proof -
  obtain b where b: "p6_bundle st = Some b" "current_block_entry st < length (blocks b)"
    using assms(4) entry_ok_block by (auto simp: stage_ok_def in_block_def)
  have "entry_ok PARSER_STAGE_BLOCK_DATA st" "dict_ok st"
    using assms(4) by (auto simp: stage_ok_def entry_ok_def entry_need_def in_block_def before_dict_def)
  then show ?thesis
    using assms by (simp add: read_stage_byte_def with_block_eq [OF b] read_sdnv_left_ok [OF neutral_block])
qed

lemma read_stage_safe:
  assumes "p6_status st = PARSER_STATUS_GOOD" and "next_stage st = current_stage st"
    and "current_stage st \<noteq> PARSER_STAGE_DONE" and "stage_ok (current_stage st) st"
  shows "safe (left_ok (current_stage st)) (read_stage_byte m byte st)"
proof (cases "current_stage st")
  case PARSER_STAGE_VERSION
  then show ?thesis
    using assms by (auto simp: read_stage_byte_def with_bundle_def left_ok_def stage_ok_def entry_ok_def
        upd_bundle_def entry_need_def in_block_def before_dict_def)
next
  case PARSER_STAGE_BLOCK_DATA_LENGTH
  then show ?thesis using assms block_length_safe by simp
next
  case PARSER_STAGE_DICT_LENGTH
  then show ?thesis
    using assms
    by (auto simp: read_stage_byte_def state_sdnv_def bundle6_parser_wait_for_sdnv_def read_sdnv_def split_beta
        left_ok_def stage_ok_def entry_ok_def entry_need_def in_block_def before_dict_def split: sdnv_status.split)
qed (use assms in \<open>simp_all add: read_stage_byte_def begin_block_safe dictionary_safe block_flags_safe
      eid_ref_cnt_safe eid_ref_ssp_safe block_data_safe\<close>,
    (rule bundle_sdnv_safe state_sdnv_safe;
      use assms in \<open>auto simp: neutral_def stage_ok_def entry_ok_def dict_ok_def entry_need_def in_block_def before_dict_def\<close>)+)

lemma read_byte_safe:
  assumes "p6_ok st" and "p6_status st = PARSER_STATUS_GOOD"
  shows "safe p6_ok (bundle6_parser_read_byte m byte st)"
proof -
  have i: "next_stage st = current_stage st" "current_stage st \<noteq> PARSER_STAGE_DONE" "stage_ok (current_stage st) st"
    using assms unfolding p6_ok_def by metis+
  let ?s = "if current_block st = PARSER_BLOCK_PRIMARY
      then st\<lparr>primary_bytes_remaining := primary_bytes_remaining st - 1\<rparr> else st"
  have s: "safe (left_ok (current_stage st)) (read_stage_byte m byte ?s)"
    using read_stage_safe [of ?s m byte] i assms(2) by auto
  then obtain st1 m1 where 1: "read_stage_byte m byte ?s = Inr (st1, m1)" "left_ok (current_stage st) st1"
    by (cases "read_stage_byte m byte ?s") auto
  show ?thesis
  proof (cases "current_stage st1 \<noteq> next_stage st1 \<and> p6_status st1 \<noteq> PARSER_STATUS_ERROR")
    case True
    then have "safe p6_ok (bundle6_parser_next m1 st1)"
      using next_safe [OF 1(2)] 1(2) by (auto simp: left_ok_def)
    then show ?thesis using True 1(1) by (simp add: bundle6_parser_read_byte_def p6_ok_def)
  next
    case False
    then have "p6_ok st1" using 1(2) by (auto simp: p6_ok_def left_ok_def)
    then show ?thesis using False 1(1) by (auto simp: bundle6_parser_read_byte_def p6_ok_def)
  qed
qed

text \<open>During a bulk read the buffer of the current block has the announced size.\<close>

definition bulk_ok :: "bundle6_parser \<Rightarrow> bool" where
  "bulk_ok st \<longleftrightarrow> bulk st \<longrightarrow> (\<exists>b d. p6_bundle st = Some b \<and> current_block_entry st < length (blocks b) \<and>
     blk_data (snd (blocks b ! current_block_entry st)) = Some d \<and> length d = next_bytes st)"

lemma next_bulk_ok:
  assumes "bundle6_parser_next m st = Inr (st', m')" and "\<not> bulk st"
  shows "bulk_ok st'"
proof (cases "next_stage st = PARSER_STAGE_BLOCK_DATA")
  case True
  then show ?thesis
    using assms
    by (auto simp: bundle6_parser_next_def enter_stage_def obind_eq_Inr enter_block_data_def with_block_def
        with_bundle_def upd_block_def upd_bundle_def bulk_ok_def bulk_def Let_def split: option.splits if_splits prod.splits)
next
  case False
  then show ?thesis using next_bulk [OF assms] by (auto simp: bulk_ok_def)
qed

lemma read_byte_bulk_ok:
  assumes "bundle6_parser_read_byte m byte st = Inr (st', m')" and "\<not> bulk st"
  shows "bulk_ok st'"
proof (cases "bulk st'")
  case True
  let ?s = "if current_block st = PARSER_BLOCK_PRIMARY
      then st\<lparr>primary_bytes_remaining := primary_bytes_remaining st - 1\<rparr> else st"
  have s: "\<not> (current_block st = PARSER_BLOCK_PRIMARY \<and> bundle6_parser_length_known st \<and> primary_bytes_remaining st = 0)"
    using assms True by (auto simp: bundle6_parser_read_byte_def bulk_def)
  then obtain st1 m1 where 1: "read_stage_byte m byte ?s = Inr (st1, m1)"
      "(if current_stage st1 \<noteq> next_stage st1 \<and> p6_status st1 \<noteq> PARSER_STATUS_ERROR
        then bundle6_parser_next m1 st1 else Inr (st1, m1)) = Inr (st', m')"
    using assms(1) by (auto simp: bundle6_parser_read_byte_def obind_eq_Inr split: if_splits)
  have "p6_flags st1 = p6_flags st"
    using kept_read_stage [of ?s m byte] 1(1) by (auto split: if_splits)
  then have nb: "\<not> bulk st1" using assms(2) by (simp add: bulk_def)
  with True 1(2) have "bundle6_parser_next m1 st1 = Inr (st', m')" by (auto split: if_splits)
  then show ?thesis using next_bulk_ok nb by blast
qed (simp add: bulk_ok_def)

lemma bulk_copy_ok:
  assumes "p6_ok st" and "bulk_ok st" and "bulk st" and "next_bytes st \<le> length buf"
  shows "\<exists>st0. bulk_copy (take (next_bytes st) buf) st = Inr st0 \<and> p6_ok st0 \<and>
    p6_status st0 = p6_status st"
proof -
  obtain b d where b: "p6_bundle st = Some b" "current_block_entry st < length (blocks b)"
      "blk_data (snd (blocks b ! current_block_entry st)) = Some d" "length d = next_bytes st"
    using assms(2,3) by (auto simp: bulk_ok_def)
  show ?thesis
    using assms(1,4) b(3,4)
    by (auto simp: bulk_copy_def with_block_eq [OF b(1,2)] put_bytes_Some p6_ok_def stage_ok_def entry_ok_def dict_ok_def
        upd_block_def upd_bundle_def)
qed

lemma parser_read_safe:
  "p6_ok st \<Longrightarrow> bulk_ok st \<Longrightarrow>
    \<exists>n st' m'. bundle6_parser_read_loop m st buf = Inr (n, st', m') \<and> p6_ok st' \<and> bulk_ok st'"
proof (induction m st buf rule: bundle6_parser_read_loop.induct)
  case (1 m st buf)
  note unfold = bundle6_parser_read_loop.simps [of m st buf]
  show ?case
  proof (cases "p6_status st = PARSER_STATUS_GOOD \<and> buf \<noteq> []")
    case False
    then show ?thesis using 1(3,4) by (auto simp: unfold)
  next
    case good: True
    show ?thesis
    proof (cases "bulk st")
      case False
      obtain st1 m1 where r: "bundle6_parser_read_byte m (hd buf) st = Inr (st1, m1)" "p6_ok st1"
        using read_byte_safe [OF 1(3), of m "hd buf"] good
        by (cases "bundle6_parser_read_byte m (hd buf) st") auto
      show ?thesis
        using 1(2) [OF good False r(1) refl r(2) read_byte_bulk_ok [OF r(1) False]] good False r(1)
        by (auto simp: unfold)
    next
      case bulk: True
      show ?thesis
      proof (cases "next_bytes st > length buf")
        case True
        then show ?thesis using good bulk 1(3,4) by (simp add: unfold)
      next
        case False
        then obtain st0 where c: "bulk_copy (take (next_bytes st) buf) st = Inr st0" "p6_ok st0"
            "p6_status st0 = p6_status st"
          using bulk_copy_ok [OF 1(3,4) bulk, of buf] by auto
        obtain st1 m1 where r: "bundle6_parser_read_byte m 0 st0 = Inr (st1, m1)" "p6_ok st1"
          using read_byte_safe [OF c(2), of m 0] good c(3)
          by (cases "bundle6_parser_read_byte m 0 st0") auto
        show ?thesis
          using 1(1) [OF good bulk False c(1) r(1) refl r(2) read_byte_bulk_ok [OF r(1) bulk_copy_fields(1) [OF c(1)]]]
            good bulk False c(1) r(1)
          by (auto simp: unfold)
      qed
    qed
  qed
qed

lemma fresh_ok:
  assumes "current_stage st = PARSER_STAGE_VERSION" and "next_stage st = PARSER_STAGE_VERSION" and "p6_flags st = 0"
    and "p6_bundle st = Some b" and "current_block_entry st = 0"
  shows "p6_ok st \<and> bulk_ok st"
  using assms by (simp add: p6_ok_def bulk_ok_def bulk_def HAS_FLAG_def stage_ok_def entry_ok_def before_dict_def
      entry_need_def in_block_def)

lemma reset_fresh:
  assumes "bundle6_parser_reset usage sz m st = (UPCN_OK, st', m')"
    and "\<not> (p6_status st = PARSER_STATUS_GOOD \<and> current_stage st = PARSER_STAGE_VERSION)"
  shows "p6_ok st' \<and> bulk_ok st'"
proof -
  obtain b where "current_stage st' = PARSER_STAGE_VERSION" "next_stage st' = PARSER_STAGE_VERSION" "p6_flags st' = 0"
      "p6_bundle st' = Some b" "current_block_entry st' = 0"
    using assms unfolding bundle6_parser_reset_def
    by (simp only: if_False) (auto simp: Let_def split: prod.splits if_splits)
  then show ?thesis by (rule fresh_ok)
qed

lemma reset_ok:
  assumes "bundle6_parser_reset usage sz m st = (UPCN_OK, st', m')" and "p6_ok st" and "bulk_ok st"
  shows "p6_ok st' \<and> bulk_ok st'"
proof (cases "p6_status st = PARSER_STATUS_GOOD \<and> current_stage st = PARSER_STAGE_VERSION")
  case True
  then have "st' = st" using assms(1) by (simp add: bundle6_parser_reset_def)
  then show ?thesis using assms(2,3) by simp
next
  case False
  then show ?thesis using reset_fresh [OF assms(1)] by blast
qed

lemma init_ok:
  assumes "bundle6_parser_init usage sz m cb st = (Some st', m')"
  shows "p6_ok st' \<and> bulk_ok st'"
proof -
  obtain m1 m2 where "bundle6_parser_reset usage sz m1 (st\<lparr>has_callback := cb, sent := [], p6_bundle := None,
      dict := None, p6_status := PARSER_STATUS_ERROR\<rparr>) = (UPCN_OK, st', m2)"
    using assms by (auto simp: bundle6_parser_init_def split: prod.splits option.splits upcn_result.splits)
  then show ?thesis by (rule reset_fresh) simp
qed

lemma bulk_copy_all:
  assumes "p6_ok st" and "bulk_ok st" and "bulk st" and "next_bytes st \<le> length bs"
  shows "\<exists>st0. bulk_copy (take (next_bytes st) bs) st = Inr st0 \<and> p6_ok st0 \<and> bulk_ok st0 \<and> \<not> bulk st0 \<and>
    p6_status st0 = p6_status st"
  using bulk_copy_ok [OF assms] bulk_copy_fields(1) by (fastforce simp: bulk_ok_def)

lemma read_null_safe:
  assumes "p6_ok st" and "p6_status st = PARSER_STATUS_GOOD" and "\<not> bulk st"
  shows "\<exists>st' m'. bundle6_parser_read m st None = Inr (0, st', m') \<and> p6_ok st' \<and> bulk_ok st'"
proof -
  obtain st' m' where r: "bundle6_parser_read_byte m 0 st = Inr (st', m')" "p6_ok st'"
    using read_byte_safe [OF assms(1,2), of m 0] by (cases "bundle6_parser_read_byte m 0 st") auto
  then show ?thesis using read_byte_bulk_ok [OF r(1) assms(3)] by (simp add: bundle6_parser_read_def)
qed

lemma reset_parsers_safe:
  assumes "p6_ok st" and "bulk_ok st"
  shows "rx_task_reset_parsers usage sz m st = Inl Assert_Failed \<or>
    (\<exists>st' m'. rx_task_reset_parsers usage sz m st = Inr (st', m') \<and> p6_ok st' \<and> bulk_ok st')"
proof -
  obtain r st1 m1 where r: "bundle6_parser_reset usage sz m st = (r, st1, m1)" by (metis prod_cases3)
  then show ?thesis
    using reset_ok [of usage sz m st st1 m1] assms by (cases r) (simp_all add: rx_task_reset_parsers_def c_assert_def)
qed

lemma bulk_read_safe:
  assumes "p6_ok st" and "bulk_ok st" and "p6_status st = PARSER_STATUS_GOOD" and "bulk st"
  shows "bulk_read usage sz m st input later = Inl Assert_Failed \<or>
    (\<exists>rest st' m'. bulk_read usage sz m st input later = Inr (rest, st', m') \<and> p6_ok st' \<and> bulk_ok st')"
proof (cases "next_bytes st \<le> length (input @ later)")
  case True
  obtain st0 where c: "bulk_copy (take (next_bytes st) (input @ later)) st = Inr st0" "p6_ok st0" "\<not> bulk st0"
    "p6_status st0 = PARSER_STATUS_GOOD"
    using bulk_copy_all [OF assms(1,2,4) True] assms(3) by auto
  obtain st1 m1 where r: "bundle6_parser_read m st0 None = Inr (0, st1, m1)" "p6_ok st1" "bulk_ok st1"
    using read_null_safe [OF c(2,4,3)] by blast
  show ?thesis
  proof (cases "p6_status st1 = PARSER_STATUS_GOOD")
    case good: True
    have "bulk_read usage sz m st input later = Inr (drop (next_bytes st) input, st1, m1)"
      using True c(1) r(1) good by (simp add: bulk_read_def)
    then show ?thesis using r(2,3) by blast
  next
    case False
    have "bulk_read usage sz m st input later = obind (rx_task_reset_parsers usage sz m1 st1)
        (\<lambda>(st2, m2). Inr (drop (next_bytes st) input, st2, m2))"
      using True c(1) r(1) False by (simp add: bulk_read_def)
    then show ?thesis using reset_parsers_safe [OF r(2,3), of usage sz m1] by auto
  qed
next
  case False
  then have "bulk_read usage sz m st input later = obind (rx_task_reset_parsers usage sz m st)
      (\<lambda>(st1, m1). Inr ([], st1, m1))"
    by (simp add: bulk_read_def)
  then show ?thesis using reset_parsers_safe [OF assms(1,2), of usage sz m] by auto
qed

text \<open>A reset that fails leaves a parser that seems to be ready but has no bundle.\<close>

lemma failed_reset:
  assumes "bundle6_parser_reset usage sz m st = (UPCN_FAIL, st1, m1)"
  shows "p6_status st1 = PARSER_STATUS_GOOD \<and> p6_bundle st1 = None \<and>
    bundle6_parser_read m2 st1 (Some (byte # buf)) = Inl Null_Deref"
proof -
  have st1: "p6_status st1 = PARSER_STATUS_GOOD" "p6_bundle st1 = None" "p6_flags st1 = 0"
    "current_stage st1 = PARSER_STAGE_VERSION" "current_block st1 = PARSER_BLOCK_PRIMARY"
    using assms by (auto simp: bundle6_parser_reset_def Let_def split: prod.splits if_splits option.splits)
  have "bundle6_parser_read_byte m2 byte st1 = Inl Null_Deref"
    using st1 by (simp add: bundle6_parser_read_byte_def bundle6_parser_length_known_def read_stage_byte_def with_bundle_def)
  then show ?thesis
    using st1 by (simp add: bundle6_parser_read_def bundle6_parser_read_loop.simps [of m2 st1] bulk_def HAS_FLAG_def)
qed

section \<open>Properties\<close>



end
