(* ===== verification/Bundle6_Roundtrip.thy ===== *)
theory Bundle6_Roundtrip
  imports Bundle6_Parser
begin

text \<open>
  The round trip of RFC 5050 bundles: what \<open>bundle6_serialize\<close> writes is what the parser of
  \<open>components/bundle6/parser.c\<close> reads back. The relation \<open>consumes\<close> says that the parser reads a
  sequence of bytes and is then in a given state, whatever follows; there is one lemma of this kind per
  field of the primary block, one for the dictionary and one for a block, and they compose. On the way
  the sizes of \<open>bundle6.c\<close> are compared with the bytes written.
\<close>


section \<open>Consuming bytes\<close>

definition shift :: "nat \<Rightarrow> nat \<times> bundle6_parser \<times> alloc_trace \<Rightarrow> (nat \<times> bundle6_parser \<times> alloc_trace) outcome" where
  "shift n = (\<lambda>(k, st, m). Inr (n + k, st, m))"

text \<open>
  The parser reads \<open>bs\<close> and is then in state \<open>st'\<close>, whatever follows; unless \<open>e\<close> holds, something has to.
\<close>

definition consumes :: "bool \<Rightarrow> alloc_trace \<Rightarrow> bundle6_parser \<Rightarrow> bytes \<Rightarrow> alloc_trace \<Rightarrow> bundle6_parser \<Rightarrow> bool" where
  "consumes e m st bs m' st' \<longleftrightarrow> (\<forall>cs. e \<or> cs \<noteq> [] \<longrightarrow>
     bundle6_parser_read_loop m st (bs @ cs) = obind (bundle6_parser_read_loop m' st' cs) (shift (length bs)))"

lemma obind_shift: "obind (obind r (shift a)) (shift b) = obind r (shift (b + a))"
  by (cases r) (auto simp: shift_def)

lemma obind_shift_0: "obind r (shift 0) = r"
  by (cases r) (auto simp: shift_def)

lemma consumes_nil: "consumes True m st [] m st"
  by (simp add: consumes_def obind_shift_0)

lemma consumes_trans:
  assumes "consumes e m st bs m1 st1" and "consumes e' m1 st1 cs m2 st2" and "e \<or> cs \<noteq> []"
  shows "consumes e' m st (bs @ cs) m2 st2"
  using assms by (auto simp: consumes_def obind_shift)

lemma read_step:
  assumes "p6_status st = PARSER_STATUS_GOOD" and "\<not> bulk st"
    and "bundle6_parser_read_byte m x st = Inr (st1, m1)"
  shows "consumes True m st [x] m1 st1"
  using assms by (simp add: consumes_def bundle6_parser_read_loop.simps [of m st] shift_def case_prod_unfold)

lemma consumed_read:
  assumes "consumes True m st bs m' st'"
  shows "bundle6_parser_read m st (Some bs) = Inr (length bs, st', m')"
proof -
  have "bundle6_parser_read_loop m st (bs @ []) = obind (bundle6_parser_read_loop m' st' []) (shift (length bs))"
    using assms unfolding consumes_def by blast
  then show ?thesis
    by (simp add: bundle6_parser_read_def bundle6_parser_read_loop.simps [of m' st' "[]"] shift_def)
qed

section \<open>Numbers\<close>

definition room :: "bundle6_parser \<Rightarrow> nat \<Rightarrow> bool" where
  "room st n \<longleftrightarrow> (current_block st = PARSER_BLOCK_PRIMARY \<and> bundle6_parser_length_known st \<longrightarrow>
     n \<le> unat (primary_bytes_remaining st))"

definition take_room :: "nat \<Rightarrow> bundle6_parser \<Rightarrow> bundle6_parser" where
  "take_room n st = (if current_block st = PARSER_BLOCK_PRIMARY
     then st\<lparr>primary_bytes_remaining := primary_bytes_remaining st - of_nat n\<rparr> else st)"

lemma read_byte_room:
  assumes "room st (Suc n)"
  shows "bundle6_parser_read_byte m byte st = obind (read_stage_byte m byte (take_room 1 st)) (\<lambda>(st1, m1).
        if current_stage st1 \<noteq> next_stage st1 \<and> p6_status st1 \<noteq> PARSER_STATUS_ERROR
        then bundle6_parser_next m1 st1 else Inr (st1, m1))"
  using assms by (auto simp: bundle6_parser_read_byte_def room_def take_room_def)

lemma take_room_0 [simp]: "take_room 0 st = st"
  by (simp add: take_room_def)

lemma take_room_take: "take_room a (take_room b st) = take_room (a + b) st"
  by (simp add: take_room_def algebra_simps)

lemma room_take: "room st (a + b) \<Longrightarrow> room (take_room a st) b"
proof (cases "current_block st = PARSER_BLOCK_PRIMARY \<and> bundle6_parser_length_known st")
  case True
  assume "room st (a + b)"
  then have le: "a + b \<le> unat (primary_bytes_remaining st)" using True by (simp add: room_def)
  then have "(of_nat a :: u16) \<le> primary_bytes_remaining st" "unat (of_nat a :: u16) = a"
    using unsigned_less [of "primary_bytes_remaining st", where ?'a = nat]
    by (simp_all add: word_le_nat_alt unsigned_of_nat take_bit_nat_eq_self)
  then have "unat (primary_bytes_remaining st - of_nat a) = unat (primary_bytes_remaining st) - a"
    by (simp add: unat_sub)
  then show ?thesis using le by (auto simp: room_def take_room_def)
qed (auto simp: room_def take_room_def bundle6_parser_length_known_def)

text \<open>
  A stage that reads a number: \<open>mk\<close> is the state as a function of the reader's state and of the variable,
  \<open>post\<close> is what the stage does once the number is complete.
\<close>

lemma take_room_fields:
  "p6_status (take_room k st) = p6_status st" "p6_flags (take_room k st) = p6_flags st"
  "current_stage (take_room k st) = current_stage st" "next_stage (take_room k st) = next_stage st"
  by (simp_all add: take_room_def)

lemma sdnv_consumed_post:
  fixes mk :: "sdnv_state \<Rightarrow> 'a::len word \<Rightarrow> bundle6_parser \<Rightarrow> bundle6_parser"
  assumes step: "\<And>ss w st byte. current_stage st = s \<Longrightarrow> read_stage_byte m byte (mk ss w st) =
      post (mk (fst (rd ss w byte)) (snd (rd ss w byte)) st)"
    and post: "\<And>ss w st. sdnv_st ss = SDNV_IN_PROGRESS \<Longrightarrow> post (mk ss w st) = Inr (mk ss w st, m)"
    and mk: "\<And>ss w st. p6_status (mk ss w st) = p6_status st" "\<And>ss w st. p6_flags (mk ss w st) = p6_flags st"
      "\<And>ss w st. current_stage (mk ss w st) = current_stage st" "\<And>ss w st. next_stage (mk ss w st) = next_stage st"
      "\<And>ss w st k. room (mk ss w st) k = room st k"
      "\<And>ss w st k. take_room k (mk ss w st) = mk ss w (take_room k st)"
    and feed: "sdnv_feed rd ss w bs = (ss', w', [])" and fin: "sdnv_st ss' = SDNV_DONE"
    and st: "p6_status st = PARSER_STATUS_GOOD" "\<not> bulk st" "current_stage st = s" "next_stage st = s"
    and room: "room st (length bs)"
    and z: "post (mk ss' w' (take_room (length bs) st)) = Inr (z, m1)" "current_stage z \<noteq> next_stage z"
      "p6_status z \<noteq> PARSER_STATUS_ERROR"
    and nxt: "bundle6_parser_next m1 z = Inr (st', m')"
    and prog: "sdnv_st ss = SDNV_IN_PROGRESS"
  shows "consumes True m (mk ss w st) bs m' st'"
  using feed st room z(1) prog
proof (induction bs arbitrary: ss w st)
  case Nil
  then show ?case using fin by simp
next
  case (Cons x bs)
  note tr = take_room_fields
  obtain ss1 w1 where r: "rd ss w x = (ss1, w1)" by force
  have rb: "bundle6_parser_read_byte m x (mk ss w st) = obind (post (mk ss1 w1 (take_room 1 st))) (\<lambda>(st1, m1).
        if current_stage st1 \<noteq> next_stage st1 \<and> p6_status st1 \<noteq> PARSER_STATUS_ERROR
        then bundle6_parser_next m1 st1 else Inr (st1, m1))"
    using read_byte_room [of "mk ss w st" "length bs" m x] Cons.prems(6) step [of "take_room 1 st" x ss w] Cons.prems(4)
    by (simp add: mk r tr)
  have nb: "\<not> bulk (mk ss w st)" using Cons.prems(3) by (simp add: bulk_def mk)
  show ?case
  proof (cases "sdnv_st ss1 = SDNV_IN_PROGRESS")
    case True
    then have "bundle6_parser_read_byte m x (mk ss w st) = Inr (mk ss1 w1 (take_room 1 st), m)"
      using Cons.prems(2,4,5) by (simp add: rb post mk tr)
    then have 1: "consumes True m (mk ss w st) [x] m (mk ss1 w1 (take_room 1 st))"
      using Cons.prems(2) nb by (intro read_step) (simp_all add: mk)
    have "consumes True m (mk ss1 w1 (take_room 1 st)) bs m' st'"
    proof (rule Cons.IH)
      show "sdnv_feed rd ss1 w1 bs = (ss', w', [])" using Cons.prems(1) True by (simp add: r)
      show "\<not> bulk (take_room 1 st)" using Cons.prems(3) by (simp add: bulk_def tr)
      show "room (take_room 1 st) (length bs)" using room_take [of st 1 "length bs"] Cons.prems(6) by simp
      show "post (mk ss' w' (take_room (length bs) (take_room 1 st))) = Inr (z, m1)"
        using Cons.prems(7) by (simp add: take_room_take)
    qed (use Cons.prems True in \<open>simp_all add: tr\<close>)
    then show ?thesis using consumes_trans [OF 1] by simp
  next
    case False
    then have "bs = []" "ss1 = ss'" "w1 = w'" using Cons.prems(1) by (simp_all add: r)
    then have "bundle6_parser_read_byte m x (mk ss w st) = Inr (st', m')"
      using Cons.prems(7) z(2,3) nxt by (simp add: rb)
    then have "consumes True m (mk ss w st) [x] m' st'"
      using Cons.prems(2) nb by (intro read_step) (simp_all add: mk)
    then show ?thesis using \<open>bs = []\<close> by simp
  qed
qed

lemma sdnv_consumed:
  fixes mk :: "sdnv_state \<Rightarrow> 'a::len word \<Rightarrow> bundle6_parser \<Rightarrow> bundle6_parser"
  assumes step: "\<And>ss w st byte. current_stage st = s \<Longrightarrow> read_stage_byte m byte (mk ss w st) =
      Inr (snd (bundle6_parser_wait_for_sdnv n (mk (fst (rd ss w byte)) (snd (rd ss w byte)) st)), m)"
    and mk: "\<And>ss w st. p6_status (mk ss w st) = p6_status st" "\<And>ss w st. p6_flags (mk ss w st) = p6_flags st"
      "\<And>ss w st. current_stage (mk ss w st) = current_stage st" "\<And>ss w st. next_stage (mk ss w st) = next_stage st"
      "\<And>ss w st. p6_sdnv (mk ss w st) = ss" "\<And>ss w st k. room (mk ss w st) k = room st k"
      "\<And>ss w st k. take_room k (mk ss w st) = mk ss w (take_room k st)"
    and feed: "sdnv_feed rd ss w bs = (ss', w', [])" and fin: "sdnv_st ss' = SDNV_DONE"
    and st: "p6_status st = PARSER_STATUS_GOOD" "\<not> bulk st" "current_stage st = s" "next_stage st = s" "s \<noteq> n"
    and room: "room st (length bs)"
    and nxt: "bundle6_parser_next m ((mk ss' w' (take_room (length bs) st))\<lparr>next_stage := n\<rparr>) = Inr (st', m')"
    and prog: "sdnv_st ss = SDNV_IN_PROGRESS"
  shows "consumes True m (mk ss w st) bs m' st'"
  by (rule sdnv_consumed_post [where post = "\<lambda>st. Inr (snd (bundle6_parser_wait_for_sdnv n st), m)" and mk = mk and s = s and rd = rd,
        OF _ _ mk(1-4,6,7) feed fin st(1-4) room _ _ _ nxt prog])
    (use nxt st fin in \<open>simp_all add: step bundle6_parser_wait_for_sdnv_def mk take_room_fields\<close>)

definition sdnv0 :: sdnv_state where
  "sdnv0 = \<lparr>sdnv_st = SDNV_IN_PROGRESS, sdnv_err = SDNV_ERROR_NONE, bytes_parsed = 0\<rparr>"

definition sdnv_fin :: "nat \<Rightarrow> sdnv_state" where
  "sdnv_fin n = \<lparr>sdnv_st = SDNV_DONE, sdnv_err = SDNV_ERROR_NONE, bytes_parsed = of_nat n\<rparr>"

lemma sdnv_reset_eq [simp]: "sdnv_reset s = sdnv0"
  by (simp add: sdnv_reset_def sdnv0_def)

lemma sdnv_status_simps [simp]: "sdnv_st sdnv0 = SDNV_IN_PROGRESS" "sdnv_st (sdnv_fin n) = SDNV_DONE"
  by (simp_all add: sdnv0_def sdnv_fin_def)

lemma feed_written:
  "sdnv_feed sdnv_read_u8 sdnv0 a0 (snd (sdnv_write_u8 a)) = (sdnv_fin (sdnv_get_size_u8 a), a, [])"
  "sdnv_feed sdnv_read_u16 sdnv0 b0 (snd (sdnv_write_u16 b)) = (sdnv_fin (sdnv_get_size_u16 b), b, [])"
  "sdnv_feed sdnv_read_u32 sdnv0 c0 (snd (sdnv_write_u32 c)) = (sdnv_fin (sdnv_get_size_u32 c), c, [])"
  "sdnv_feed sdnv_read_u64 sdnv0 d0 (snd (sdnv_write_u64 d)) = (sdnv_fin (sdnv_get_size_u64 d), d, [])"
  using u8.write_read [where cs = "[]" and s = sdnv0 and ?v0.0 = a0 and v = a]
    u16.write_read [where cs = "[]" and s = sdnv0 and ?v0.0 = b0 and v = b]
    u32.write_read [where cs = "[]" and s = sdnv0 and ?v0.0 = c0 and v = c]
    u64.write_read [where cs = "[]" and s = sdnv0 and ?v0.0 = d0 and v = d]
  by (simp_all add: sdnv_fin_def sdnv_write_u8_def sdnv_write_u16_def sdnv_write_u32_def sdnv_write_u64_def Let_def
      sdnv_read_u8_def sdnv_read_u16_def sdnv_read_u32_def sdnv_read_u64_def)

lemma length_written [simp]:
  "length (snd (sdnv_write_u8 a)) = sdnv_get_size_u8 a" "length (snd (sdnv_write_u16 b)) = sdnv_get_size_u16 b"
  "length (snd (sdnv_write_u32 c)) = sdnv_get_size_u32 c" "length (snd (sdnv_write_u64 d)) = sdnv_get_size_u64 d"
  by (simp_all add: sdnv_write_u8_def sdnv_write_u16_def sdnv_write_u32_def sdnv_write_u64_def Let_def)

lemma bundle_stage_consumed:
  assumes stage: "\<And>st byte. current_stage st = s \<Longrightarrow> read_stage_byte m byte st = bundle_sdnv n rd get put m byte st"
    and lens: "\<And>v b. get (put v b) = v" "\<And>v w b. put v (put w b) = put v b" "\<And>b. put (get b) b = b"
    and feed: "sdnv_feed rd sdnv0 (get b) bs = (sdnv_fin k, v, [])"
    and st: "p6_status st = PARSER_STATUS_GOOD" "\<not> bulk st" "current_stage st = s" "next_stage st = s" "s \<noteq> n"
      "p6_sdnv st = sdnv0" "p6_bundle st = Some b"
    and room: "room st (length bs)"
    and nxt: "bundle6_parser_next m ((take_room (length bs) st)
        \<lparr>p6_sdnv := sdnv_fin k, p6_bundle := Some (put v b), next_stage := n\<rparr>) = Inr (st', m')"
  shows "consumes True m st bs m' st'"
proof -
  let ?mk = "\<lambda>ss w st. st\<lparr>p6_sdnv := ss, p6_bundle := Some (put w b)\<rparr>"
  have "consumes True m (?mk sdnv0 (get b) st) bs m' st'"
  proof (rule sdnv_consumed [where mk = ?mk and s = s and n = n and rd = rd, OF _ _ _ _ _ _ _ _ feed])
    show "read_stage_byte m byte (?mk ss w st) =
        Inr (snd (bundle6_parser_wait_for_sdnv n (?mk (fst (rd ss w byte)) (snd (rd ss w byte)) st)), m)"
      if "current_stage st = s" for ss w st byte
      using that by (simp add: stage bundle_sdnv_def with_bundle_def read_sdnv_def upd_bundle_def split_beta lens)
  qed (use st room nxt in \<open>simp_all add: room_def take_room_def bundle6_parser_length_known_def\<close>)
  moreover have "?mk sdnv0 (get b) st = st" using st lens(3) by simp
  ultimately show ?thesis by simp
qed

lemma sdnv_primary_commute:
  "st\<lparr>p6_sdnv := ss, primary_bytes_remaining := r\<rparr> = st\<lparr>primary_bytes_remaining := r, p6_sdnv := ss\<rparr>"
  by simp

lemma state_stage_consumed:
  assumes stage: "\<And>st byte. current_stage st = s \<Longrightarrow> read_stage_byte m byte st = state_sdnv n get put m byte st"
    and lens: "\<And>v st. get (put v st) = v" "\<And>v w st. put v (put w st) = put v st" "\<And>st. put (get st) st = st"
      "\<And>ss st. get (st\<lparr>p6_sdnv := ss\<rparr>) = get st"
    and other: "\<And>v st ss. (put v st)\<lparr>p6_sdnv := ss\<rparr> = put v (st\<lparr>p6_sdnv := ss\<rparr>)"
      "\<And>v st. p6_status (put v st) = p6_status st" "\<And>v st. p6_flags (put v st) = p6_flags st"
      "\<And>v st. current_stage (put v st) = current_stage st" "\<And>v st. next_stage (put v st) = next_stage st"
      "\<And>v st. p6_sdnv (put v st) = p6_sdnv st" "\<And>v st. current_block (put v st) = current_block st"
      "\<And>v st. primary_bytes_remaining (put v st) = primary_bytes_remaining st"
      "\<And>v st r. (put v st)\<lparr>primary_bytes_remaining := r\<rparr> = put v (st\<lparr>primary_bytes_remaining := r\<rparr>)"
    and st: "p6_status st = PARSER_STATUS_GOOD" "\<not> bulk st" "current_stage st = s" "next_stage st = s" "s \<noteq> n"
      "p6_sdnv st = sdnv0"
    and room: "room st (sdnv_get_size_u16 v)"
    and nxt: "bundle6_parser_next m ((put v ((take_room (sdnv_get_size_u16 v) st)\<lparr>p6_sdnv := sdnv_fin (sdnv_get_size_u16 v)\<rparr>))
        \<lparr>next_stage := n\<rparr>) = Inr (st', m')"
  shows "consumes True m st (snd (sdnv_write_u16 v)) m' st'"
proof -
  let ?mk = "\<lambda>ss w st. put w (st\<lparr>p6_sdnv := ss\<rparr>)"
  have "consumes True m (?mk sdnv0 (get st) st) (snd (sdnv_write_u16 v)) m' st'"
  proof (rule sdnv_consumed [where mk = ?mk and s = s and n = n and rd = sdnv_read_u16, OF _ _ _ _ _ _ _ _ feed_written(2)])
    show "read_stage_byte m byte (?mk ss w st) = Inr (snd (bundle6_parser_wait_for_sdnv n
        (?mk (fst (sdnv_read_u16 ss w byte)) (snd (sdnv_read_u16 ss w byte)) st)), m)"
      if "current_stage st = s" for ss w st byte
      using that by (simp add: stage other state_sdnv_def read_sdnv_def split_beta lens)
  qed (use st room nxt in \<open>simp_all add: room_def take_room_def bundle6_parser_length_known_def other sdnv_primary_commute\<close>)
  moreover have "?mk sdnv0 (get st) st = st"
    using st(6) lens(3,4) by (metis (no_types) bundle6_parser.surjective bundle6_parser.update_convs(8))
  ultimately show ?thesis by simp
qed

section \<open>The primary block\<close>

text \<open>
  The parser in a stage of the primary block that reads a number, up to the number of bytes that are
  left: \<open>x\<close> holds the fields read so far.
\<close>

definition prim :: "bundle6_parser_stage \<Rightarrow> bundle6_parser \<Rightarrow> nat \<Rightarrow> bundle6_parser \<Rightarrow> bool" where
  "prim s x r st \<longleftrightarrow> p6_status x = PARSER_STATUS_GOOD \<and> p6_flags x = 0 \<and>
     current_block x = PARSER_BLOCK_PRIMARY \<and>
     (\<exists>q. unat q = r \<and> st = x\<lparr>current_stage := s, next_stage := s, p6_sdnv := sdnv0, primary_bytes_remaining := q\<rparr>)"

definition plain :: "bundle6_parser_stage \<Rightarrow> bool" where
  "plain n \<longleftrightarrow> (\<forall>m y. next_stage y = n \<longrightarrow>
     bundle6_parser_next m y = Inr (y\<lparr>p6_sdnv := sdnv0, current_stage := n\<rparr>, m))"

lemma plain_stages:
  "plain PARSER_STAGE_PROC_FLAGS" "plain PARSER_STAGE_BLOCK_LENGTH" "plain PARSER_STAGE_DESTINATION_EID_SSP" "plain PARSER_STAGE_SOURCE_EID_SCHEME"
  "plain PARSER_STAGE_SOURCE_EID_SSP" "plain PARSER_STAGE_REPORT_EID_SCHEME" "plain PARSER_STAGE_REPORT_EID_SSP"
  "plain PARSER_STAGE_CUSTODIAN_EID_SCHEME" "plain PARSER_STAGE_CUSTODIAN_EID_SSP" "plain PARSER_STAGE_TIMESTAMP"
  "plain PARSER_STAGE_SEQUENCE_NUM" "plain PARSER_STAGE_LIFETIME" "plain PARSER_STAGE_ADU_LENGTH"
  "plain PARSER_STAGE_FRAGMENT_OFFSET"
  by (auto simp: plain_def bundle6_parser_next_def enter_stage_def reset_sdnv_def)

lemma prim_facts:
  assumes "prim s x r st"
  shows "p6_status st = PARSER_STATUS_GOOD" "\<not> bulk st" "current_stage st = s" "next_stage st = s"
    "p6_sdnv st = sdnv0" "p6_bundle st = p6_bundle x" "current_block st = PARSER_BLOCK_PRIMARY"
    "unat (primary_bytes_remaining st) = r"
  using assms by (auto simp: prim_def bulk_def HAS_FLAG_def)

lemma prim_room: "prim s x r st \<Longrightarrow> k \<le> r \<Longrightarrow> room st k"
  by (simp add: room_def prim_facts)

lemma prim_take:
  assumes "prim s x r st" and "k \<le> r"
  shows "unat (primary_bytes_remaining st - of_nat k) = r - k"
proof -
  have "unat (of_nat k :: u16) = k" "(of_nat k :: u16) \<le> primary_bytes_remaining st"
    using assms(2) prim_facts(8) [OF assms(1)] unsigned_less [of "primary_bytes_remaining st", where ?'a = nat]
    by (simp_all add: word_le_nat_alt unsigned_of_nat take_bit_nat_eq_self)
  then show ?thesis using prim_facts(8) [OF assms(1)] by (simp add: unat_sub)
qed

lemma prim_bundle:
  assumes stage: "\<And>st byte. current_stage st = s \<Longrightarrow> read_stage_byte m byte st = bundle_sdnv n rd get put m byte st"
    and lens: "\<And>v b. get (put v b) = v" "\<And>v w b. put v (put w b) = put v b" "\<And>b. put (get b) b = b"
    and feed: "sdnv_feed rd sdnv0 (get b) bs = (sdnv_fin k, v, [])"
    and nxt: "\<And>y. next_stage y = n \<Longrightarrow> p6_bundle y = Some (put v b) \<Longrightarrow>
      bundle6_parser_next m y = Inr (y\<lparr>p6_bundle := Some b', p6_sdnv := sdnv0, current_stage := n\<rparr>, m)"
    and st: "prim s x r st" "p6_bundle x = Some b" "s \<noteq> n" "length bs \<le> r"
  shows "\<exists>st'. consumes True m st bs m st' \<and> prim n (x\<lparr>p6_bundle := Some b'\<rparr>) (r - length bs) st'"
proof -
  note f = prim_facts [OF st(1)]
  let ?y = "(take_room (length bs) st)\<lparr>p6_sdnv := sdnv_fin k, p6_bundle := Some (put v b), next_stage := n\<rparr>"
  let ?st' = "?y\<lparr>p6_bundle := Some b', p6_sdnv := sdnv0, current_stage := n\<rparr>"
  have "bundle6_parser_next m ?y = Inr (?st', m)" by (rule nxt) simp_all
  then have "consumes True m st bs m ?st'"
    using f(6) st(2) by (intro bundle_stage_consumed [OF stage lens feed f(1-4) st(3) f(5) _ prim_room [OF st(1,4)]]) simp_all
  moreover have "prim n (x\<lparr>p6_bundle := Some b'\<rparr>) (r - length bs) ?st'"
    using st(1) prim_take [OF st(1,4)] by (auto simp: prim_def take_room_def)
  ultimately show ?thesis by blast
qed

lemma plainD: "plain n \<Longrightarrow> next_stage y = n \<Longrightarrow> p6_bundle y = Some b \<Longrightarrow>
    bundle6_parser_next m y = Inr (y\<lparr>p6_bundle := Some b, p6_sdnv := sdnv0, current_stage := n\<rparr>, m)"
  by (simp add: plain_def)

lemma prim_state:
  assumes stage: "\<And>st byte. current_stage st = s \<Longrightarrow> read_stage_byte m byte st = state_sdnv n get put m byte st"
    and lens: "\<And>v st. get (put v st) = v" "\<And>v w st. put v (put w st) = put v st" "\<And>st. put (get st) st = st"
      "\<And>ss st. get (st\<lparr>p6_sdnv := ss\<rparr>) = get st"
    and other: "\<And>v st ss. (put v st)\<lparr>p6_sdnv := ss\<rparr> = put v (st\<lparr>p6_sdnv := ss\<rparr>)"
      "\<And>v st. p6_status (put v st) = p6_status st" "\<And>v st. p6_flags (put v st) = p6_flags st"
      "\<And>v st. current_stage (put v st) = current_stage st" "\<And>v st. next_stage (put v st) = next_stage st"
      "\<And>v st. p6_sdnv (put v st) = p6_sdnv st" "\<And>v st. current_block (put v st) = current_block st"
      "\<And>v st. primary_bytes_remaining (put v st) = primary_bytes_remaining st"
      "\<And>v st r. (put v st)\<lparr>primary_bytes_remaining := r\<rparr> = put v (st\<lparr>primary_bytes_remaining := r\<rparr>)"
      "\<And>v st r. (put v st)\<lparr>current_stage := r\<rparr> = put v (st\<lparr>current_stage := r\<rparr>)"
      "\<And>v st r. (put v st)\<lparr>next_stage := r\<rparr> = put v (st\<lparr>next_stage := r\<rparr>)"
    and st: "prim s x r st" "plain n" "s \<noteq> n" "sdnv_get_size_u16 v \<le> r"
  shows "\<exists>st'. consumes True m st (snd (sdnv_write_u16 v)) m st' \<and> prim n (put v x) (r - sdnv_get_size_u16 v) st'"
proof -
  note f = prim_facts [OF st(1)]
  let ?k = "sdnv_get_size_u16 v"
  let ?y = "(put v ((take_room ?k st)\<lparr>p6_sdnv := sdnv_fin ?k\<rparr>))\<lparr>next_stage := n\<rparr>"
  let ?st' = "?y\<lparr>p6_sdnv := sdnv0, current_stage := n\<rparr>"
  have nx: "bundle6_parser_next m ?y = Inr (?st', m)" using st(2) by (simp add: plain_def)
  have "consumes True m st (snd (sdnv_write_u16 v)) m ?st'"
  proof (rule state_stage_consumed [where s = s and n = n and get = get and put = put])
    show "read_stage_byte m byte st = state_sdnv n get put m byte st" if "current_stage st = s" for st byte
      using that by (rule stage)
    show "room st ?k" by (rule prim_room [OF st(1,4)])
    show "bundle6_parser_next m ?y = Inr (?st', m)" by (rule nx)
  qed (use lens other f st(3) in simp_all)
  moreover have "prim n (put v x) (r - ?k) ?st'"
  proof -
    obtain q where q: "unat q = r" "st = x\<lparr>current_stage := s, next_stage := s, p6_sdnv := sdnv0, primary_bytes_remaining := q\<rparr>"
      using st(1) by (auto simp: prim_def)
    have "?st' = put v x\<lparr>current_stage := n, next_stage := n, p6_sdnv := sdnv0, primary_bytes_remaining := q - of_nat ?k\<rparr>"
      using q(2) st(1) by (simp add: prim_def take_room_def other) (rule arg_cong [where f = "put v"], simp)
    moreover have "unat (q - of_nat ?k) = r - ?k" using prim_take [OF st(1,4)] q(2) by simp
    ultimately show ?thesis using st(1) by (auto simp: prim_def other)
  qed
  ultimately show ?thesis by blast
qed

text \<open>The fields of the primary block, one lemma each.\<close>

lemma number_stages:
  "current_stage st = PARSER_STAGE_TIMESTAMP \<Longrightarrow> read_stage_byte m byte st =
     bundle_sdnv PARSER_STAGE_SEQUENCE_NUM sdnv_read_u64 creation_timestamp (\<lambda>v b. b\<lparr>creation_timestamp := v\<rparr>) m byte st"
  "current_stage st = PARSER_STAGE_SEQUENCE_NUM \<Longrightarrow> read_stage_byte m byte st =
     bundle_sdnv PARSER_STAGE_LIFETIME sdnv_read_u64 sequence_number (\<lambda>v b. b\<lparr>sequence_number := v\<rparr>) m byte st"
  "current_stage st = PARSER_STAGE_LIFETIME \<Longrightarrow> read_stage_byte m byte st =
     bundle_sdnv PARSER_STAGE_DICT_LENGTH sdnv_read_u64 lifetime (\<lambda>v b. b\<lparr>lifetime := v\<rparr>) m byte st"
  by (simp_all add: read_stage_byte_def)

lemma prim_timestamp:
  assumes "prim PARSER_STAGE_TIMESTAMP x r st" and "p6_bundle x = Some b" and "sdnv_get_size_u64 v \<le> r"
  shows "\<exists>st'. consumes True m st (snd (sdnv_write_u64 v)) m st' \<and>
    prim PARSER_STAGE_SEQUENCE_NUM (x\<lparr>p6_bundle := Some (b\<lparr>creation_timestamp := v\<rparr>)\<rparr>) (r - sdnv_get_size_u64 v) st'"
  using prim_bundle [where put = "\<lambda>v b. b\<lparr>creation_timestamp := v\<rparr>" and rd = sdnv_read_u64 and get = creation_timestamp,
      OF number_stages(1) _ _ _ feed_written(4) plainD [OF plain_stages(11)] assms(1,2)] assms(3)
  by simp

lemma prim_sequence:
  assumes "prim PARSER_STAGE_SEQUENCE_NUM x r st" and "p6_bundle x = Some b" and "sdnv_get_size_u64 v \<le> r"
  shows "\<exists>st'. consumes True m st (snd (sdnv_write_u64 v)) m st' \<and>
    prim PARSER_STAGE_LIFETIME (x\<lparr>p6_bundle := Some (b\<lparr>sequence_number := v\<rparr>)\<rparr>) (r - sdnv_get_size_u64 v) st'"
  using prim_bundle [where put = "\<lambda>v b. b\<lparr>sequence_number := v\<rparr>" and rd = sdnv_read_u64 and get = sequence_number,
      OF number_stages(2) _ _ _ feed_written(4) plainD [OF plain_stages(12)] assms(1,2)] assms(3)
  by simp

lemma prim_lifetime:
  assumes "prim PARSER_STAGE_LIFETIME x r st" and "p6_bundle x = Some b" and "sdnv_get_size_u64 v \<le> r"
    and "w = v * 1000000"
  shows "\<exists>st'. consumes True m st (snd (sdnv_write_u64 v)) m st' \<and>
    prim PARSER_STAGE_DICT_LENGTH (x\<lparr>p6_bundle := Some (b\<lparr>lifetime := w\<rparr>)\<rparr>) (r - sdnv_get_size_u64 v) st'"
proof -
  have nx: "bundle6_parser_next m y = Inr (y\<lparr>p6_bundle := Some (b\<lparr>lifetime := w\<rparr>), p6_sdnv := sdnv0,
      current_stage := PARSER_STAGE_DICT_LENGTH\<rparr>, m)"
    if "next_stage y = PARSER_STAGE_DICT_LENGTH" "p6_bundle y = Some (b\<lparr>lifetime := v\<rparr>)" for y
    using that assms(4) by (simp add: bundle6_parser_next_def enter_stage_def reset_sdnv_def with_bundle_def upd_bundle_def)
  have "\<exists>st'. consumes True m st (snd (sdnv_write_u64 v)) m st' \<and>
    prim PARSER_STAGE_DICT_LENGTH (x\<lparr>p6_bundle := Some (b\<lparr>lifetime := w\<rparr>)\<rparr>) (r - length (snd (sdnv_write_u64 v))) st'"
  proof (rule prim_bundle [where put = "\<lambda>v b. b\<lparr>lifetime := v\<rparr>" and get = lifetime])
    show "sdnv_feed sdnv_read_u64 sdnv0 (lifetime b) (snd (sdnv_write_u64 v)) = (sdnv_fin (sdnv_get_size_u64 v), v, [])"
      by (rule feed_written)
    show "bundle6_parser_next m y = Inr (y\<lparr>p6_bundle := Some (b\<lparr>lifetime := w\<rparr>), p6_sdnv := sdnv0,
      current_stage := PARSER_STAGE_DICT_LENGTH\<rparr>, m)"
      if "next_stage y = PARSER_STAGE_DICT_LENGTH" "p6_bundle y = Some (b\<lparr>lifetime := v\<rparr>)" for y
      using that by (rule nx)
    show "prim PARSER_STAGE_LIFETIME x r st" by (rule assms(1))
    show "p6_bundle x = Some b" by (rule assms(2))
  qed (use assms(3) in \<open>simp_all add: number_stages(3)\<close>)
  then show ?thesis by (simp only: length_written)
qed

lemma prim_eid_pair:
  assumes st: "prim s x r st" and stages: "(s, n1, n2) \<in> {
      (PARSER_STAGE_DESTINATION_EID_SCHEME, PARSER_STAGE_DESTINATION_EID_SSP, PARSER_STAGE_SOURCE_EID_SCHEME),
      (PARSER_STAGE_SOURCE_EID_SCHEME, PARSER_STAGE_SOURCE_EID_SSP, PARSER_STAGE_REPORT_EID_SCHEME),
      (PARSER_STAGE_REPORT_EID_SCHEME, PARSER_STAGE_REPORT_EID_SSP, PARSER_STAGE_CUSTODIAN_EID_SCHEME),
      (PARSER_STAGE_CUSTODIAN_EID_SCHEME, PARSER_STAGE_CUSTODIAN_EID_SSP, PARSER_STAGE_TIMESTAMP)}"
    and put1: "\<And>st byte. current_stage st = s \<Longrightarrow> read_stage_byte m byte st = state_sdnv n1 (scheme_offset \<circ> get)
      (\<lambda>v st. put ((get st)\<lparr>scheme_offset := v\<rparr>) st) m byte st"
    and put2: "\<And>st byte. current_stage st = n1 \<Longrightarrow> read_stage_byte m byte st = state_sdnv n2 (ssp_offset \<circ> get)
      (\<lambda>v st. put ((get st)\<lparr>ssp_offset := v\<rparr>) st) m byte st"
    and lens: "\<And>v st. get (put v st) = v" "\<And>v w st. put v (put w st) = put v st" "\<And>st. put (get st) st = st"
      "\<And>ss st. get (st\<lparr>p6_sdnv := ss\<rparr>) = get st" "\<And>ss st. get (st\<lparr>primary_bytes_remaining := ss\<rparr>) = get st"
      "\<And>ss st. get (st\<lparr>current_stage := ss\<rparr>) = get st" "\<And>ss st. get (st\<lparr>next_stage := ss\<rparr>) = get st"
    and other: "\<And>v st ss. (put v st)\<lparr>p6_sdnv := ss\<rparr> = put v (st\<lparr>p6_sdnv := ss\<rparr>)"
      "\<And>v st. p6_status (put v st) = p6_status st" "\<And>v st. p6_flags (put v st) = p6_flags st"
      "\<And>v st. current_stage (put v st) = current_stage st" "\<And>v st. next_stage (put v st) = next_stage st"
      "\<And>v st. p6_sdnv (put v st) = p6_sdnv st" "\<And>v st. current_block (put v st) = current_block st"
      "\<And>v st. primary_bytes_remaining (put v st) = primary_bytes_remaining st"
      "\<And>v st r. (put v st)\<lparr>primary_bytes_remaining := r\<rparr> = put v (st\<lparr>primary_bytes_remaining := r\<rparr>)"
      "\<And>v st r. (put v st)\<lparr>current_stage := r\<rparr> = put v (st\<lparr>current_stage := r\<rparr>)"
      "\<And>v st r. (put v st)\<lparr>next_stage := r\<rparr> = put v (st\<lparr>next_stage := r\<rparr>)"
    and r: "length (eid_info_bytes i) \<le> r"
  shows "\<exists>st'. consumes True m st (eid_info_bytes i) m st' \<and>
    prim n2 (put \<lparr>scheme_offset = dict_scheme_offset i, ssp_offset = dict_ssp_offset i\<rparr> x) (r - length (eid_info_bytes i)) st'"
proof -
  have pl: "plain n1" "plain n2" "s \<noteq> n1" "n1 \<noteq> n2" using stages plain_stages by auto
  let ?a = "dict_scheme_offset i" and ?b = "dict_ssp_offset i"
  let ?x1 = "put ((get x)\<lparr>scheme_offset := ?a\<rparr>) x"
  obtain st1 where 1: "consumes True m st (snd (sdnv_write_u16 ?a)) m st1"
      "prim n1 ?x1 (r - sdnv_get_size_u16 ?a) st1"
    using prim_state [where put = "\<lambda>v st. put ((get st)\<lparr>scheme_offset := v\<rparr>) st" and get = "scheme_offset \<circ> get"
        and s = s and n = n1 and v = ?a and m = m and r = r and x = x and st = st] put1 st pl r
    by (auto simp: lens other eid_info_bytes_def)
  have r2: "sdnv_get_size_u16 ?b \<le> r - sdnv_get_size_u16 ?a" using r by (simp add: eid_info_bytes_def)
  obtain st2 where 2: "consumes True m st1 (snd (sdnv_write_u16 ?b)) m st2"
      "prim n2 (put ((get ?x1)\<lparr>ssp_offset := ?b\<rparr>) ?x1) (r - sdnv_get_size_u16 ?a - sdnv_get_size_u16 ?b) st2"
    using prim_state [where put = "\<lambda>v st. put ((get st)\<lparr>ssp_offset := v\<rparr>) st" and get = "ssp_offset \<circ> get"
        and s = n1 and n = n2 and v = ?b and m = m and r = "r - sdnv_get_size_u16 ?a" and x = ?x1 and st = st1] put2 1(2) pl r2
    by (auto simp: lens other eid_info_bytes_def)
  have "(get x)\<lparr>scheme_offset := ?a, ssp_offset := ?b\<rparr> = \<lparr>scheme_offset = ?a, ssp_offset = ?b\<rparr>"
    by (cases "get x") simp
  then have "put ((get x)\<lparr>scheme_offset := ?a, ssp_offset := ?b\<rparr>) x = put \<lparr>scheme_offset = ?a, ssp_offset = ?b\<rparr> x"
    by (rule arg_cong [where f = "\<lambda>v. put v x"])
  moreover have "put ((get ?x1)\<lparr>ssp_offset := ?b\<rparr>) ?x1 = put ((get x)\<lparr>scheme_offset := ?a, ssp_offset := ?b\<rparr>) x"
    by (simp add: lens)
  ultimately have "put ((get ?x1)\<lparr>ssp_offset := ?b\<rparr>) ?x1 = put \<lparr>scheme_offset = ?a, ssp_offset = ?b\<rparr> x" by (rule trans [rotated])
  then show ?thesis
    using consumes_trans [OF 1(1) 2(1)] 2(2) by (auto simp: eid_info_bytes_def)
qed

definition eidref_of :: "bundle6_eid_info \<Rightarrow> bundle6_eid_reference" where
  "eidref_of i = \<lparr>scheme_offset = dict_scheme_offset i, ssp_offset = dict_ssp_offset i\<rparr>"

lemma prim_eids:
  assumes st: "prim PARSER_STAGE_DESTINATION_EID_SCHEME x r st"
    and r: "length (eid_info_bytes d @ eid_info_bytes s @ eid_info_bytes rp @ eid_info_bytes c) \<le> r"
  shows "\<exists>st'. consumes True m st (eid_info_bytes d @ eid_info_bytes s @ eid_info_bytes rp @ eid_info_bytes c) m st' \<and>
    prim PARSER_STAGE_TIMESTAMP (x\<lparr>destination_eidref := eidref_of d, source_eidref := eidref_of s,
      report_to_eidref := eidref_of rp, custodian_eidref := eidref_of c\<rparr>)
      (r - length (eid_info_bytes d @ eid_info_bytes s @ eid_info_bytes rp @ eid_info_bytes c)) st'"
proof -
  let ?l = "\<lambda>i. length (eid_info_bytes i)"
  have rs: "?l d \<le> r" "?l s \<le> r - ?l d" "?l rp \<le> r - ?l d - ?l s" "?l c \<le> r - ?l d - ?l s - ?l rp"
    using r by simp_all
  obtain st1 where 1: "consumes True m st (eid_info_bytes d) m st1" "prim PARSER_STAGE_SOURCE_EID_SCHEME
      (x\<lparr>destination_eidref := eidref_of d\<rparr>) (r - length (eid_info_bytes d)) st1"
    using prim_eid_pair [where get = destination_eidref and put = "\<lambda>v st. st\<lparr>destination_eidref := v\<rparr>" and m = m and i = d
        and ?n1.0 = PARSER_STAGE_DESTINATION_EID_SSP and ?n2.0 = PARSER_STAGE_SOURCE_EID_SCHEME, OF st] rs(1)
    by (auto simp: read_stage_byte_def eidref_of_def)
  obtain st2 where 2: "consumes True m st1 (eid_info_bytes s) m st2" "prim PARSER_STAGE_REPORT_EID_SCHEME
      (x\<lparr>destination_eidref := eidref_of d, source_eidref := eidref_of s\<rparr>)
      (r - length (eid_info_bytes d) - length (eid_info_bytes s)) st2"
    using prim_eid_pair [where get = source_eidref and put = "\<lambda>v st. st\<lparr>source_eidref := v\<rparr>" and m = m and i = s
        and ?n1.0 = PARSER_STAGE_SOURCE_EID_SSP and ?n2.0 = PARSER_STAGE_REPORT_EID_SCHEME, OF 1(2)] rs(2)
    by (auto simp: read_stage_byte_def eidref_of_def)
  obtain st3 where 3: "consumes True m st2 (eid_info_bytes rp) m st3" "prim PARSER_STAGE_CUSTODIAN_EID_SCHEME
      (x\<lparr>destination_eidref := eidref_of d, source_eidref := eidref_of s, report_to_eidref := eidref_of rp\<rparr>)
      (r - length (eid_info_bytes d) - length (eid_info_bytes s) - length (eid_info_bytes rp)) st3"
    using prim_eid_pair [where get = report_to_eidref and put = "\<lambda>v st. st\<lparr>report_to_eidref := v\<rparr>" and m = m and i = rp
        and ?n1.0 = PARSER_STAGE_REPORT_EID_SSP and ?n2.0 = PARSER_STAGE_CUSTODIAN_EID_SCHEME, OF 2(2)] rs(3)
    by (auto simp: read_stage_byte_def eidref_of_def)
  obtain st4 where 4: "consumes True m st3 (eid_info_bytes c) m st4" "prim PARSER_STAGE_TIMESTAMP
      (x\<lparr>destination_eidref := eidref_of d, source_eidref := eidref_of s, report_to_eidref := eidref_of rp,
        custodian_eidref := eidref_of c\<rparr>)
      (r - length (eid_info_bytes d) - length (eid_info_bytes s) - length (eid_info_bytes rp) - length (eid_info_bytes c)) st4"
    using prim_eid_pair [where get = custodian_eidref and put = "\<lambda>v st. st\<lparr>custodian_eidref := v\<rparr>" and m = m and i = c
        and ?n1.0 = PARSER_STAGE_CUSTODIAN_EID_SSP and ?n2.0 = PARSER_STAGE_TIMESTAMP, OF 3(2)] rs(4)
    by (auto simp: read_stage_byte_def eidref_of_def)
  have "consumes True m st (eid_info_bytes d @ eid_info_bytes s @ eid_info_bytes rp @ eid_info_bytes c) m st4"
    using 1(1) 2(1) 3(1) 4(1) by (blast intro: consumes_trans)
  then show ?thesis using 4(2) by (auto simp: diff_diff_left algebra_simps)
qed

section \<open>Widths\<close>

lemma write_loop_ucast:
  fixes v :: "'a::len word"
  assumes "LENGTH('a) \<le> LENGTH('b::len)" and "7 \<le> LENGTH('a)"
  shows "sdnv_write_loop n (ucast v :: 'b word) acc = sdnv_write_loop n v acc"
proof (induction n arbitrary: v acc)
  case (Suc n)
  have m: "(0x7F :: 'c::len word) = mask 7" by (simp add: mask_eq_exp_minus_1)
  have 1: "drop_bit 7 (ucast v :: 'b word) = ucast (drop_bit 7 v)"
    using assms by (intro bit_word_eqI) (auto simp: bit_simps dest: bit_imp_le_length)
  have 2: "(ucast ((ucast v :: 'b word) AND 0x7F) :: u8) = ucast (v AND 0x7F)"
    unfolding m using assms by (intro bit_word_eqI) (auto simp: bit_simps)
  show ?case by (simp add: 1 2 Suc)
qed simp

lemma size_u16_u32 [simp]: "sdnv_get_size_u32 (ucast (v :: u16)) = sdnv_get_size_u16 v"
proof -
  have "unat v < 2 ^ 16" using unsigned_less [of v, where ?'a = nat] by simp
  then show ?thesis
    by (simp add: sdnv_get_size_u32_def sdnv_get_size_u16_def mask_simps)
qed

lemma size_u8_u32 [simp]: "sdnv_get_size_u32 (ucast (v :: u8)) = sdnv_get_size_u8 v"
proof -
  have "unat v < 2 ^ 8" using unsigned_less [of v, where ?'a = nat] by simp
  moreover have "unat (ucast v :: u32) = unat v"
    using calculation by (simp add: unsigned_ucast_eq take_bit_nat_eq_self)
  ultimately show ?thesis
    by (simp add: sdnv_get_size_u32_def sdnv_get_size_u8_def mask_simps)
qed

lemma write_u16_u32: "snd (sdnv_write_u32 (ucast (v :: u16))) = snd (sdnv_write_u16 v)"
  by (simp add: sdnv_write_u32_def sdnv_write_u16_def sdnv_write_generic_def write_loop_ucast)

lemma write_u8_u32: "snd (sdnv_write_u32 (ucast (v :: u8))) = snd (sdnv_write_u8 v)"
  by (simp add: sdnv_write_u32_def sdnv_write_u8_def sdnv_write_generic_def write_loop_ucast)

section \<open>The front of the primary block\<close>

text \<open>The parser ready for a new bundle.\<close>

definition fresh :: "bundle_t \<Rightarrow> bundle6_parser \<Rightarrow> bool" where
  "fresh b st \<longleftrightarrow> p6_status st = PARSER_STATUS_GOOD \<and> p6_flags st = 0 \<and> current_stage st = PARSER_STAGE_VERSION \<and>
     next_stage st = PARSER_STAGE_VERSION \<and> current_block st = PARSER_BLOCK_PRIMARY \<and> p6_bundle st = Some b \<and>
     current_block_entry st = 0"

lemma front_consumed:
  assumes f: "fresh b st"
  shows "\<exists>st'. consumes True m st (v # snd (sdnv_write_u32 fl) @ snd (sdnv_write_u32 (ucast (l :: u16)))) m st' \<and>
    prim PARSER_STAGE_DESTINATION_EID_SCHEME
      (st\<lparr>p6_bundle := Some (b\<lparr>protocol_version := v, proc_flags := fl, primary_block_length := l\<rparr>)\<rparr>) (unat l) st'"
proof -
  let ?b1 = "b\<lparr>protocol_version := v\<rparr>"
  let ?st1 = "st\<lparr>primary_bytes_remaining := primary_bytes_remaining st - 1, p6_bundle := Some ?b1,
      current_stage := PARSER_STAGE_PROC_FLAGS, next_stage := PARSER_STAGE_PROC_FLAGS, p6_sdnv := sdnv0\<rparr>"
  have "bundle6_parser_read_byte m v st = Inr (?st1, m)"
    using f by (simp add: fresh_def bundle6_parser_read_byte_def bundle6_parser_length_known_def read_stage_byte_def
        with_bundle_def upd_bundle_def bundle6_parser_next_def enter_stage_def reset_sdnv_def)
  then have 1: "consumes True m st [v] m ?st1"
    using f by (intro read_step) (simp_all add: fresh_def bulk_def HAS_FLAG_def)
  let ?b2 = "?b1\<lparr>proc_flags := fl\<rparr>" and ?k = "sdnv_get_size_u32 fl"
  let ?st2 = "(take_room ?k ?st1)\<lparr>p6_sdnv := sdnv0, p6_bundle := Some ?b2, next_stage := PARSER_STAGE_BLOCK_LENGTH,
      current_stage := PARSER_STAGE_BLOCK_LENGTH\<rparr>"
  have 2: "consumes True m ?st1 (snd (sdnv_write_u32 fl)) m ?st2"
  proof (rule bundle_stage_consumed [where s = PARSER_STAGE_PROC_FLAGS and n = PARSER_STAGE_BLOCK_LENGTH and
        rd = sdnv_read_u32 and get = proc_flags and put = "\<lambda>v b. b\<lparr>proc_flags := v\<rparr>" and b = ?b1, OF _ _ _ _ feed_written(3)])
  qed (use f in \<open>simp_all add: fresh_def read_stage_byte_def bulk_def HAS_FLAG_def room_def bundle6_parser_length_known_def
      bundle6_parser_next_def enter_stage_def reset_sdnv_def take_room_def\<close>)
  let ?b3 = "?b2\<lparr>primary_block_length := l\<rparr>" and ?j = "sdnv_get_size_u16 l"
  let ?st3 = "(take_room ?j ?st2)\<lparr>p6_bundle := Some ?b3, primary_bytes_remaining := l, p6_sdnv := sdnv0,
      next_stage := PARSER_STAGE_DESTINATION_EID_SCHEME, current_stage := PARSER_STAGE_DESTINATION_EID_SCHEME\<rparr>"
  have 3: "consumes True m ?st2 (snd (sdnv_write_u16 l)) m ?st3"
  proof (rule bundle_stage_consumed [where s = PARSER_STAGE_BLOCK_LENGTH and n = PARSER_STAGE_DESTINATION_EID_SCHEME and
        rd = sdnv_read_u16 and get = primary_block_length and put = "\<lambda>v b. b\<lparr>primary_block_length := v\<rparr>" and b = ?b2,
        OF _ _ _ _ feed_written(2)])
  qed (use f in \<open>simp_all add: fresh_def read_stage_byte_def bulk_def HAS_FLAG_def room_def bundle6_parser_length_known_def
      bundle6_parser_next_def enter_stage_def reset_sdnv_def take_room_def with_bundle_def\<close>)
  have "consumes True m st ([v] @ snd (sdnv_write_u32 fl) @ snd (sdnv_write_u16 l)) m ?st3"
    using 1 2 3 by (blast intro: consumes_trans)
  moreover have "prim PARSER_STAGE_DESTINATION_EID_SCHEME
      (st\<lparr>p6_bundle := Some (b\<lparr>protocol_version := v, proc_flags := fl, primary_block_length := l\<rparr>)\<rparr>) (unat l) ?st3"
    using f by (simp add: fresh_def prim_def take_room_def) (rule exI [of _ l], simp)
  ultimately show ?thesis by (auto simp: write_u16_u32)
qed

section \<open>The dictionary\<close>

text \<open>While the dictionary is read: \<open>pre\<close> is there, \<open>n\<close> bytes are missing.\<close>

definition dict_at :: "bundle6_parser \<Rightarrow> bytes \<Rightarrow> nat \<Rightarrow> nat \<Rightarrow> bundle6_parser \<Rightarrow> bool" where
  "dict_at x pre n r st \<longleftrightarrow> p6_status x = PARSER_STATUS_GOOD \<and> p6_flags x = 0 \<and>
     current_block x = PARSER_BLOCK_PRIMARY \<and> length pre + n = unat (dict_length x) \<and>
     (\<exists>q s. unat q = r \<and> st = x\<lparr>current_stage := PARSER_STAGE_DICTIONARY, next_stage := PARSER_STAGE_DICTIONARY,
        p6_sdnv := s, primary_bytes_remaining := q, dict := Some (pre @ replicate (n + 1) 0),
        current_index := of_nat (length pre), cur_bytes_remaining := of_nat n\<rparr>)"

lemma dict_length_consumed:
  assumes st: "prim PARSER_STAGE_DICT_LENGTH x r st" and "sdnv_get_size_u16 l \<le> r" and "l \<noteq> 0"
    and quota: "current_size x + (ucast l + 1) \<le> BUNDLE_QUOTA"
  shows "\<exists>st'. consumes True (Some a # m) st (snd (sdnv_write_u16 l)) m st' \<and>
    dict_at (x\<lparr>dict_length := l, current_size := current_size x + (ucast l + 1)\<rparr>) [] (unat l) (r - sdnv_get_size_u16 l) st'"
proof -
  note f = prim_facts [OF st]
  let ?k = "sdnv_get_size_u16 l"
  obtain q where q: "unat q = r" "st = x\<lparr>current_stage := PARSER_STAGE_DICT_LENGTH, next_stage := PARSER_STAGE_DICT_LENGTH,
      p6_sdnv := sdnv0, primary_bytes_remaining := q\<rparr>" and x: "p6_status x = PARSER_STATUS_GOOD" "p6_flags x = 0"
      "current_block x = PARSER_BLOCK_PRIMARY"
    using st by (auto simp: prim_def)
  let ?y = "(take_room ?k st)\<lparr>p6_sdnv := sdnv_fin ?k, dict_length := l, next_stage := PARSER_STAGE_DICTIONARY\<rparr>"
  let ?st' = "?y\<lparr>current_index := 0, cur_bytes_remaining := ucast l, current_size := current_size x + (ucast l + 1),
      dict := Some (replicate (unat l + 1) 0), current_stage := PARSER_STAGE_DICTIONARY\<rparr>"
  have nx: "bundle6_parser_next (Some a # m) ?y = Inr (?st', m)"
    using assms(3) quota q(2) x(3)
    by (simp add: bundle6_parser_next_def enter_stage_def enter_dictionary_def take_room_def Let_def not_less del: replicate.simps)
  have "consumes True (Some a # m) st (snd (sdnv_write_u16 l)) m ?st'"
  proof (rule state_stage_consumed [where s = PARSER_STAGE_DICT_LENGTH and n = PARSER_STAGE_DICTIONARY and
        get = dict_length and put = "\<lambda>v st. st\<lparr>dict_length := v\<rparr>"])
    show "room st ?k" by (rule prim_room [OF st assms(2)])
    show "bundle6_parser_next (Some a # m) (take_room ?k st\<lparr>p6_sdnv := sdnv_fin ?k, dict_length := l,
        next_stage := PARSER_STAGE_DICTIONARY\<rparr>) = Inr (?st', m)" using nx by simp
  qed (use f in \<open>simp_all add: read_stage_byte_def\<close>)
  moreover have "?st' = x\<lparr>dict_length := l, current_size := current_size x + (ucast l + 1),
      current_stage := PARSER_STAGE_DICTIONARY, next_stage := PARSER_STAGE_DICTIONARY, p6_sdnv := sdnv_fin ?k,
      primary_bytes_remaining := q - of_nat ?k, dict := Some ([] @ replicate (unat l + 1) 0),
      current_index := of_nat (length ([] :: bytes)), cur_bytes_remaining := of_nat (unat l)\<rparr>"
    using q(2) x(3) by (simp add: take_room_def)
  moreover have "unat (q - of_nat ?k) = r - ?k" using prim_take [OF st assms(2)] q(2) by simp
  ultimately show ?thesis using x by (auto simp: dict_at_def simp del: replicate.simps append.simps)
qed

lemma dict_byte_consumed:
  assumes "dict_at x pre (Suc (Suc n)) (Suc r) st"
  shows "\<exists>st'. consumes True m st [c] m st' \<and> dict_at x (pre @ [c]) (Suc n) r st'"
proof -
  obtain q s where q: "unat q = Suc r" and st: "st = x\<lparr>current_stage := PARSER_STAGE_DICTIONARY,
      next_stage := PARSER_STAGE_DICTIONARY, p6_sdnv := s, primary_bytes_remaining := q,
      dict := Some (pre @ replicate (Suc (Suc n) + 1) 0), current_index := of_nat (length pre),
      cur_bytes_remaining := of_nat (Suc (Suc n))\<rparr>"
    and x: "p6_status x = PARSER_STATUS_GOOD" "p6_flags x = 0" "current_block x = PARSER_BLOCK_PRIMARY"
      "length pre + Suc (Suc n) = unat (dict_length x)"
    using assms by (auto simp: dict_at_def)
  have lt: "length pre + Suc (Suc n) < 2 ^ 16" using x(4) unsigned_less [of "dict_length x", where ?'a = nat] by simp
  have u: "unat (of_nat (length pre) :: u32) = length pre" "unat (of_nat (Suc n) :: u32) = Suc n"
    using lt by (simp_all add: unsigned_of_nat take_bit_nat_eq_self del: of_nat_Suc)
  then have nz: "(of_nat (Suc n) :: u32) \<noteq> 0" by (metis nat.distinct(1) unat_0)
  have e: "(of_nat (Suc (Suc n)) :: u32) - 1 = of_nat (Suc n)" by simp
  let ?st' = "x\<lparr>current_stage := PARSER_STAGE_DICTIONARY, next_stage := PARSER_STAGE_DICTIONARY, p6_sdnv := s,
      primary_bytes_remaining := q - 1, dict := Some ((pre @ [c]) @ replicate (Suc n + 1) 0),
      current_index := of_nat (length pre) + 1, cur_bytes_remaining := of_nat (Suc n)\<rparr>"
  have i: "(of_nat (length pre) + 1 :: u32) = of_nat (length (pre @ [c]))" by simp
  have qz: "q \<noteq> 0" using q by auto
  have "bundle6_parser_read_byte m c st = Inr (?st', m)"
    unfolding st using x(3) qz nz
    by (simp add: bundle6_parser_read_byte_def read_stage_byte_def read_dictionary_byte_def dict_put_def u e
        list_update_append add.commute del: of_nat_Suc)
  then have "consumes True m st [c] m ?st'"
    unfolding st using x by (intro read_step) (simp_all add: bulk_def HAS_FLAG_def)
  moreover have "unat (q - 1) = r" using q qz by (simp add: unat_minus_one)
  ultimately show ?thesis using x unfolding dict_at_def i by auto
qed

section \<open>EIDs in the dictionary\<close>

lemma byte_char_byte [simp]: "byte_char (char_byte c) = c"
proof -
  have "(of_char c :: nat) < 256" using nat_of_char_less_256 .
  then show ?thesis by (simp add: byte_char_def char_byte_def unsigned_of_nat take_bit_nat_eq_self)
qed

lemma char_byte_inj: "char_byte c = char_byte d \<longleftrightarrow> c = d"
  by (metis byte_char_byte)

lemma char_byte_0: "char_byte c = 0 \<longleftrightarrow> c = CHR 0x00"
  using char_byte_inj [of c "CHR 0x00"] by (simp add: char_byte_def)

lemma map_byte_char [simp]: "map byte_char (c_chars s) = s"
  by (simp add: c_chars_def comp_def)

lemma length_c_chars [simp]: "length (c_chars s) = length s"
  by (simp add: c_chars_def)

lemma c_chars_zero: "0 \<in> set (c_chars s) \<longleftrightarrow> CHR 0x00 \<in> set s"
  by (auto simp: c_chars_def char_byte_0 image_iff)

lemma string_at_c_chars:
  assumes "CHR 0x00 \<notin> set s"
  shows "string_at (pre @ c_chars s @ 0 # post) (length pre) = Inr (c_chars s)"
proof -
  have "takeWhile (\<lambda>x. x \<noteq> 0) (c_chars s @ 0 # post) = c_chars s"
    using assms c_chars_zero by (subst takeWhile_append2) auto
  then show ?thesis by (simp add: string_at_def c_strlen_def)
qed

definition good_eid :: "string \<Rightarrow> bool" where
  "good_eid s \<longleftrightarrow> CHR '':'' \<in> set s \<and> CHR 0x00 \<notin> set s"

lemma eid_split: "CHR '':'' \<in> set s \<Longrightarrow> eid_scheme s @ '':'' @ eid_ssp s = s"
proof -
  assume "CHR '':'' \<in> set s"
  then have ne: "dropWhile (\<lambda>c. c \<noteq> CHR '':'') s \<noteq> []" by (simp add: dropWhile_eq_Nil_conv)
  then have "hd (dropWhile (\<lambda>c. c \<noteq> CHR '':'') s) = CHR '':''" using hd_dropWhile [OF ne] by simp
  with ne have "'':'' @ eid_ssp s = dropWhile (\<lambda>c. c \<noteq> CHR '':'') s"
    unfolding eid_ssp_def by (cases "dropWhile (\<lambda>c. c \<noteq> CHR '':'') s") simp_all
  then show ?thesis by (simp add: eid_scheme_def)
qed

lemma good_eid_parts:
  assumes "good_eid s"
  shows "CHR 0x00 \<notin> set (eid_scheme s)" "CHR 0x00 \<notin> set (eid_ssp s)" "CHR '':'' \<notin> set (eid_scheme s)"
proof -
  have tl: "set (tl xs) \<subseteq> set xs" for xs :: string by (cases xs) auto
  have "set (eid_scheme s) \<subseteq> set s" "set (eid_ssp s) \<subseteq> set s"
    using tl by (auto simp: eid_scheme_def eid_ssp_def dest: set_takeWhileD set_dropWhileD)
  then show "CHR 0x00 \<notin> set (eid_scheme s)" "CHR 0x00 \<notin> set (eid_ssp s)" using assms by (auto simp: good_eid_def)
  show "CHR '':'' \<notin> set (eid_scheme s)" by (auto simp: eid_scheme_def dest: set_takeWhileD)
qed

definition eid_entry :: "string \<Rightarrow> bytes" where
  "eid_entry s = c_chars (eid_scheme s) @ [0] @ c_chars (eid_ssp s) @ [0]"

lemma write_eid_entry: "CHR '':'' \<in> set s \<Longrightarrow> str_ptr i = Some s \<Longrightarrow> write_eid i = eid_entry s"
  by (simp add: write_eid_def write_scheme_def write_ssp_def eid_entry_def)

lemma read_eid_entry:
  assumes g: "good_eid s" and d: "D = pre @ eid_entry s @ post"
    and o1: "unat (scheme_offset ref) = length pre"
    and o2: "unat (ssp_offset ref) = length pre + length (eid_scheme s) + 1"
  shows "bundle6_read_eid (Some a # m) (Some (D @ [0])) (length D) ref = Inr (Some s, m)"
proof -
  note p = good_eid_parts [OF g]
  have s1: "string_at (D @ [0]) (unat (scheme_offset ref)) = Inr (c_chars (eid_scheme s))"
    using string_at_c_chars [OF p(1), of pre "c_chars (eid_ssp s) @ [0] @ post @ [0]"] by (simp add: d eid_entry_def o1)
  have s2: "string_at (D @ [0]) (unat (ssp_offset ref)) = Inr (c_chars (eid_ssp s))"
    using string_at_c_chars [OF p(2), of "pre @ c_chars (eid_scheme s) @ [0]" "post @ [0]"] by (simp add: d eid_entry_def o2)
  have "char_byte CHR '':'' \<notin> set (c_chars (eid_scheme s))"
    using p(3) by (auto simp: c_chars_def char_byte_inj)
  then show ?thesis
    using eid_split [of s] g s1 s2 by (simp add: bundle6_read_eid_def o1 o2 d eid_entry_def good_eid_def)
qed

text \<open>The layout of the dictionary of a bundle with good EIDs: the four of the primary block, then the references.\<close>

definition info_at :: "string \<Rightarrow> nat \<Rightarrow> bundle6_eid_info" where
  "info_at s n = \<lparr>str_ptr = Some s, ssp_ptr = length (eid_scheme s) + 1,
    dict_scheme_offset = of_nat n, dict_ssp_offset = of_nat (n + length (eid_scheme s) + 1)\<rparr>"

fun infos_at :: "string list \<Rightarrow> nat \<Rightarrow> bundle6_eid_info list" where
  "infos_at [] n = []"
| "infos_at (s # ss) n = info_at s n # infos_at ss (n + length (eid_entry s))"

lemma calculate_eid_info_good:
  "CHR '':'' \<in> set s \<Longrightarrow> calculate_eid_info (Some s) n = (info_at s n, n + length (eid_entry s))"
  by (simp add: calculate_eid_info_def analyze_eid_def eid_entry_def info_at_def)

lemma calculate_eid_infos_good:
  "\<forall>s \<in> set ss. CHR '':'' \<in> set s \<Longrightarrow>
    calculate_eid_infos (map Some ss) n = (infos_at ss n, n + length (concat (map eid_entry ss)))"
  by (induction ss arbitrary: n) (simp_all add: calculate_eid_info_good)

lemma length_infos_at [simp]: "length (infos_at ss n) = length ss"
  by (induction ss arbitrary: n) simp_all

definition good_bundle_eids :: "bundle_t \<Rightarrow> string \<Rightarrow> string \<Rightarrow> string \<Rightarrow> string \<Rightarrow> bool" where
  "good_bundle_eids b d s r c \<longleftrightarrow> destination b = Some d \<and> source b = Some s \<and> report_to b = Some r \<and>
     current_custodian b = Some c \<and> good_eid d \<and> good_eid s \<and> good_eid r \<and> good_eid c"

text \<open>The references of the blocks are \<open>rs\<close>, all of them of blocks that carry the flag.\<close>

definition good_refs :: "bundle_t \<Rightarrow> string list \<Rightarrow> bool" where
  "good_refs b rs \<longleftrightarrow> concat (map (eid_refs \<circ> snd) (blocks b)) = map Some rs \<and>
     count_eid_refs (blocks b) = length rs \<and> (\<forall>s \<in> set rs. good_eid s)"

definition main_dict :: "string \<Rightarrow> string \<Rightarrow> string \<Rightarrow> string \<Rightarrow> bytes" where
  "main_dict d s r c = eid_entry d @ eid_entry s @ eid_entry r @ eid_entry c"

definition full_dict :: "string \<Rightarrow> string \<Rightarrow> string \<Rightarrow> string \<Rightarrow> string list \<Rightarrow> bytes" where
  "full_dict d s r c rs = main_dict d s r c @ concat (map eid_entry rs)"

definition ref_infos :: "string \<Rightarrow> string \<Rightarrow> string \<Rightarrow> string \<Rightarrow> string list \<Rightarrow> bundle6_eid_info list" where
  "ref_infos d s r c rs = infos_at rs (length (main_dict d s r c))"

definition the_desc :: "string \<Rightarrow> string \<Rightarrow> string \<Rightarrow> string \<Rightarrow> string list \<Rightarrow> bundle6_dict_descriptor" where
  "the_desc d s r c rs = \<lparr>dict_length_bytes = length (full_dict d s r c rs), eid_reference_count = length rs,
     destination_eid_info = info_at d 0, source_eid_info = info_at s (length (eid_entry d)),
     report_to_eid_info = info_at r (length (eid_entry d @ eid_entry s)),
     custodian_eid_info = info_at c (length (eid_entry d @ eid_entry s @ eid_entry r)),
     eid_references = ref_infos d s r c rs\<rparr>"

lemma calculate_dict_good:
  assumes "good_bundle_eids b d s r c" and "good_refs b rs"
  shows "bundle6_calculate_dict (Some a # m) b = Inr (the_desc d s r c rs, m)"
proof -
  have "calculate_eid_infos (map Some rs) n = (infos_at rs n, n + length (concat (map eid_entry rs)))" for n
    using assms(2) by (intro calculate_eid_infos_good) (auto simp: good_refs_def good_eid_def)
  moreover have "concat (map (eid_refs \<circ> snd) (blocks b)) = map Some rs" "count_eid_refs (blocks b) = length rs"
    using assms(2) by (simp_all add: good_refs_def)
  ultimately show ?thesis
    unfolding bundle6_calculate_dict_def
    using assms(1) by (simp add: Let_def good_bundle_eids_def good_eid_def calculate_eid_info_good the_desc_def
        full_dict_def main_dict_def ref_infos_def add.assoc)
qed

lemma write_info_at: "good_eid s \<Longrightarrow> write_eid (info_at s n) = eid_entry s"
  by (simp add: write_eid_entry good_eid_def info_at_def)

lemma write_infos_at: "\<forall>s \<in> set ss. good_eid s \<Longrightarrow> map write_eid (infos_at ss n) = map eid_entry ss"
  by (induction ss arbitrary: n) (simp_all add: write_info_at)

lemma serialize_dictionary_good:
  assumes "good_bundle_eids b d s r c" and "good_refs b rs"
  shows "bundle6_serialize_dictionary (the_desc d s r c rs) = full_dict d s r c rs"
  using assms by (simp add: bundle6_serialize_dictionary_def the_desc_def write_info_at write_infos_at good_bundle_eids_def
      good_refs_def ref_infos_def full_dict_def main_dict_def)

text \<open>The entry that \<open>i\<close> refers to is read from the dictionary \<open>D\<close> as the EID \<open>s\<close>.\<close>

definition readable :: "bytes \<Rightarrow> bundle6_eid_info \<Rightarrow> string \<Rightarrow> bool" where
  "readable D i s \<longleftrightarrow>
     (\<forall>a m. bundle6_read_eid (Some a # m) (Some (D @ [0])) (length D) (eidref_of i) = Inr (Some s, m))"

lemma readable_info:
  assumes "good_eid s" and "D = pre @ eid_entry s @ post" and "length D < 65536"
  shows "readable D (info_at s (length pre)) s"
  unfolding readable_def
proof (intro allI read_eid_entry [OF assms(1,2)])
  have "length pre + length (eid_scheme s) + 1 < 65536"
    using assms(2,3) by (simp add: eid_entry_def)
  then show "unat (scheme_offset (eidref_of (info_at s (length pre)))) = length pre"
    "unat (ssp_offset (eidref_of (info_at s (length pre)))) = length pre + length (eid_scheme s) + 1"
    by (simp_all add: eidref_of_def info_at_def unsigned_of_nat take_bit_nat_eq_self del: of_nat_add of_nat_Suc)
qed

lemma readable_infos:
  "\<forall>s \<in> set ss. good_eid s \<Longrightarrow> D = pre @ concat (map eid_entry ss) @ post \<Longrightarrow> length D < 65536 \<Longrightarrow>
    list_all2 (readable D) (infos_at ss (length pre)) ss"
proof (induction ss arbitrary: pre)
  case (Cons s ss)
  have "list_all2 (readable D) (infos_at ss (length (pre @ eid_entry s))) ss"
    using Cons.prems by (intro Cons.IH) simp_all
  moreover have "readable D (info_at s (length pre)) s"
    using Cons.prems by (intro readable_info [where post = "concat (map eid_entry ss) @ post"]) simp_all
  ultimately show ?case by simp
qed simp

lemma readable_dict:
  assumes "good_eid d" "good_eid s" "good_eid r" "good_eid c" "\<forall>e \<in> set rs. good_eid e"
    and "length (full_dict d s r c rs) < 65536"
  defines "D \<equiv> full_dict d s r c rs" and "desc \<equiv> the_desc d s r c rs"
  shows "readable D (destination_eid_info desc) d" "readable D (source_eid_info desc) s"
    "readable D (report_to_eid_info desc) r" "readable D (custodian_eid_info desc) c"
    "list_all2 (readable D) (ref_infos d s r c rs) rs"
  using readable_info [OF assms(1), of D "[]"] readable_info [OF assms(2), of D "eid_entry d"]
    readable_info [OF assms(3), of D "eid_entry d @ eid_entry s"]
    readable_info [OF assms(4), of D "eid_entry d @ eid_entry s @ eid_entry r"]
    readable_infos [OF assms(5), of D "main_dict d s r c" "[]"] assms(6)
  by (simp_all add: D_def desc_def the_desc_def full_dict_def main_dict_def ref_infos_def)

text \<open>Every entry takes at least two bytes, so the number of references is bounded by the length of the dictionary.\<close>

lemma refs_fit: "2 * length rs \<le> length (full_dict d s r c rs)"
proof -
  have "2 * length rs \<le> length (concat (map eid_entry rs))"
    by (induction rs) (simp_all add: eid_entry_def)
  then show ?thesis by (simp add: full_dict_def)
qed

section \<open>From the dictionary to the blocks\<close>

text \<open>The parser has the dictionary \<open>D\<close> and is about to read the type of a block.\<close>

definition has_dict :: "bytes \<Rightarrow> bundle6_parser \<Rightarrow> bool" where
  "has_dict D st \<longleftrightarrow> dict st = Some (D @ [0]) \<and> unat (dict_length st) = length D"

definition block_at :: "bytes \<Rightarrow> bundle6_parser \<Rightarrow> bundle_t \<Rightarrow> bundle6_parser \<Rightarrow> bool" where
  "block_at D x b st \<longleftrightarrow> has_dict D st \<and> p6_status st = PARSER_STATUS_GOOD \<and> p6_flags st = 0 \<and>
     current_stage st = PARSER_STAGE_BLOCK_TYPE \<and> next_stage st = PARSER_STAGE_BLOCK_TYPE \<and>
     current_block st = PARSER_BLOCK_GENERIC \<and> p6_bundle st = Some b \<and>
     current_block_entry st = current_block_entry x \<and> current_size st = current_size x \<and>
     has_callback st = has_callback x \<and> sent st = sent x"

lemma dict_last_consumed:
  assumes st: "dict_at x pre (Suc 0) (Suc r) st" and b: "p6_bundle x = Some b"
    and D: "pre @ [c] = D" and rdb: "readable D id0 d" "readable D is0 s" "readable D ir0 rp" "readable D ic0 cu"
    and refs: "destination_eidref x = eidref_of id0" "source_eidref x = eidref_of is0"
      "report_to_eidref x = eidref_of ir0" "custodian_eidref x = eidref_of ic0"
  shows "\<exists>st'. consumes True (Some a1 # Some a2 # Some a3 # Some a4 # m) st [c] m st' \<and>
    (let b' = b\<lparr>source := Some s, destination := Some d, report_to := Some rp, current_custodian := Some cu\<rparr> in
     if bundle_is_fragmented b then
       \<exists>y. prim PARSER_STAGE_FRAGMENT_OFFSET y r st' \<and> p6_bundle y = Some b' \<and>
         current_block_entry y = current_block_entry x \<and> current_size y = current_size x \<and>
         has_callback y = has_callback x \<and> sent y = sent x \<and> has_dict D y
     else block_at D x b' st')"
proof -
  obtain q ss where q: "unat q = Suc r" and stq: "st = x\<lparr>current_stage := PARSER_STAGE_DICTIONARY,
      next_stage := PARSER_STAGE_DICTIONARY, p6_sdnv := ss, primary_bytes_remaining := q,
      dict := Some (pre @ replicate (Suc 0 + 1) 0), current_index := of_nat (length pre),
      cur_bytes_remaining := of_nat (Suc 0)\<rparr>"
    and x: "p6_status x = PARSER_STATUS_GOOD" "p6_flags x = 0" "current_block x = PARSER_BLOCK_PRIMARY"
      "length pre + Suc 0 = unat (dict_length x)"
    using st by (auto simp: dict_at_def)
  have lt: "length pre + 1 < 65536" using x(4) unsigned_less [of "dict_length x", where ?'a = nat] by simp
  have u: "unat (of_nat (length pre) :: u32) = length pre" "unat (of_nat (length pre) + 1 :: u32) = length pre + 1"
    using lt by (simp_all add: unsigned_of_nat take_bit_nat_eq_self unat_word_ariths)
  have len: "length D = unat (dict_length x)" using x(4) by (simp flip: D)
  let ?y = "x\<lparr>current_stage := PARSER_STAGE_DICTIONARY, next_stage := PARSER_STAGE_DICTIONARY, p6_sdnv := ss,
      primary_bytes_remaining := q - 1, cur_bytes_remaining := 0, dict := Some (D @ [0]),
      current_index := of_nat (length pre) + 1 + 1\<rparr>"
  let ?b' = "b\<lparr>source := Some s, destination := Some d, report_to := Some rp, current_custodian := Some cu\<rparr>"
  let ?n = "if bundle_is_fragmented b then PARSER_STAGE_FRAGMENT_OFFSET else PARSER_STAGE_BLOCK_TYPE"
  let ?m = "Some a1 # Some a2 # Some a3 # Some a4 # m"
  note e = rdb [unfolded readable_def, folded refs, unfolded len]
  have qz: "q \<noteq> 0" using q by auto
  have rd: "read_dict_eids ?m ?y = Inr (?y\<lparr>p6_bundle := Some ?b', next_stage := ?n\<rparr>, m)"
    using b by (simp add: read_dict_eids_def with_bundle_def e)
  let ?T = "take_room 1 st"
  let ?y1 = "?y\<lparr>current_index := of_nat (length pre) + 1\<rparr>"
  have T: "current_stage ?T = PARSER_STAGE_DICTIONARY" unfolding stq by (simp add: take_room_def)
  have p1: "dict_put (current_index (?T\<lparr>cur_bytes_remaining := cur_bytes_remaining ?T - 1\<rparr>)) c
      (?T\<lparr>cur_bytes_remaining := cur_bytes_remaining ?T - 1\<rparr>) = Inr ?y1"
    unfolding stq using x(3) by (simp add: dict_put_def take_room_def u list_update_append flip: D)
  have "length D = length pre + 1" by (simp flip: D)
  then have p2: "dict_put (current_index ?y1) 0 ?y1 = Inr ?y"
    by (simp add: dict_put_def u list_update_append)
  have "read_stage_byte ?m c ?T = read_dictionary_byte ?m c ?T" using T by (simp add: read_stage_byte_def)
  also have "\<dots> = (if cur_bytes_remaining ?y1 = 0 then obind (dict_put (current_index ?y1) 0 ?y1) (read_dict_eids ?m)
      else Inr (?y1, ?m))"
    unfolding read_dictionary_byte_def Let_def p1 obind_Inr by (rule refl)
  also have "\<dots> = read_dict_eids ?m ?y" unfolding p2 obind_Inr by simp
  finally have rs: "read_stage_byte ?m c ?T = Inr (?y\<lparr>p6_bundle := Some ?b', next_stage := ?n\<rparr>, m)"
    unfolding rd .
  let ?z = "?y\<lparr>p6_bundle := Some ?b', next_stage := ?n\<rparr>"
  let ?st' = "if bundle_is_fragmented b then ?z\<lparr>p6_sdnv := sdnv0, current_stage := ?n\<rparr>
      else ?z\<lparr>current_block := PARSER_BLOCK_GENERIC, current_stage := ?n\<rparr>"
  have "room st (Suc 0)" using q unfolding stq by (simp add: room_def)
  then have "bundle6_parser_read_byte ?m c st = Inr (?st', m)"
    using rs x(1) by (simp add: read_byte_room [of st 0] bundle6_parser_next_def enter_stage_def reset_sdnv_def)
  then have c1: "consumes True ?m st [c] m ?st'"
    using x unfolding stq by (intro read_step) (simp_all add: bulk_def HAS_FLAG_def)
  have r: "unat (q - 1) = r" using q qz by (simp add: unat_minus_one)
  have "if bundle_is_fragmented b then prim PARSER_STAGE_FRAGMENT_OFFSET ?z r ?st' else block_at D x ?b' ?st'"
    using x r len by (auto simp: prim_def block_at_def has_dict_def intro!: exI [of _ "q - 1"])
  then have "let b' = ?b' in if bundle_is_fragmented b then
       \<exists>y. prim PARSER_STAGE_FRAGMENT_OFFSET y r ?st' \<and> p6_bundle y = Some b' \<and>
         current_block_entry y = current_block_entry x \<and> current_size y = current_size x \<and>
         has_callback y = has_callback x \<and> sent y = sent x \<and> has_dict D y
     else block_at D x b' ?st'"
    by (cases "bundle_is_fragmented b") (simp_all add: Let_def, rule exI [of _ ?z], simp add: has_dict_def len)
  with c1 show ?thesis by blast
qed

lemma dict_bytes_consumed:
  "dict_at x pre (Suc (length cs)) r st \<Longrightarrow> length cs \<le> r \<Longrightarrow>
    \<exists>st'. consumes True m st cs m st' \<and> dict_at x (pre @ cs) (Suc 0) (r - length cs) st'"
proof (induction cs arbitrary: pre r st)
  case Nil
  then show ?case using consumes_nil by auto
next
  case (Cons c cs)
  then obtain r' where r: "r = Suc r'" by (cases r) auto
  obtain st1 where 1: "consumes True m st [c] m st1" "dict_at x (pre @ [c]) (Suc (length cs)) r' st1"
    using dict_byte_consumed [of x pre "length cs" r' st m c] Cons.prems(1) r by auto
  obtain st2 where 2: "consumes True m st1 cs m st2" "dict_at x ((pre @ [c]) @ cs) (Suc 0) (r' - length cs) st2"
    using Cons.IH [OF 1(2)] Cons.prems(2) r by auto
  then show ?case using consumes_trans [OF 1(1) 2(1)] r by auto
qed

lemma fragment_consumed:
  assumes st: "prim PARSER_STAGE_FRAGMENT_OFFSET x r st" and b: "p6_bundle x = Some b"
    and D: "has_dict D x" and r: "sdnv_get_size_u32 off + sdnv_get_size_u32 tot \<le> r"
  shows "\<exists>st'. consumes True m st (snd (sdnv_write_u32 off) @ snd (sdnv_write_u32 tot)) m st' \<and>
    block_at D x (b\<lparr>fragment_offset := off, total_adu_length := tot\<rparr>) st'"
proof -
  have s1: "current_stage st = PARSER_STAGE_FRAGMENT_OFFSET \<Longrightarrow> read_stage_byte m byte st = bundle_sdnv PARSER_STAGE_ADU_LENGTH
      sdnv_read_u32 fragment_offset (\<lambda>v b. b\<lparr>fragment_offset := v\<rparr>) m byte st" for st byte
    by (simp add: read_stage_byte_def)
  have "\<exists>st1. consumes True m st (snd (sdnv_write_u32 off)) m st1 \<and> prim PARSER_STAGE_ADU_LENGTH
      (x\<lparr>p6_bundle := Some (b\<lparr>fragment_offset := off\<rparr>)\<rparr>) (r - length (snd (sdnv_write_u32 off))) st1"
    by (rule prim_bundle [where put = "\<lambda>v b. b\<lparr>fragment_offset := v\<rparr>" and rd = sdnv_read_u32 and get = fragment_offset,
      OF s1 _ _ _ feed_written(3) plainD [OF plain_stages(13)] st b]) (use r in simp_all)
  then obtain st1 where 1: "consumes True m st (snd (sdnv_write_u32 off)) m st1" "prim PARSER_STAGE_ADU_LENGTH
      (x\<lparr>p6_bundle := Some (b\<lparr>fragment_offset := off\<rparr>)\<rparr>) (r - sdnv_get_size_u32 off) st1"
    unfolding length_written by blast
  note f = prim_facts [OF 1(2)]
  have r1: "sdnv_get_size_u32 tot \<le> r - sdnv_get_size_u32 off" using r by simp
  let ?b1 = "b\<lparr>fragment_offset := off\<rparr>" and ?k = "sdnv_get_size_u32 tot"
  let ?st2 = "(take_room ?k st1)\<lparr>p6_sdnv := sdnv_fin ?k, p6_bundle := Some (?b1\<lparr>total_adu_length := tot\<rparr>),
      next_stage := PARSER_STAGE_BLOCK_TYPE, current_block := PARSER_BLOCK_GENERIC, current_stage := PARSER_STAGE_BLOCK_TYPE\<rparr>"
  have 2: "consumes True m st1 (snd (sdnv_write_u32 tot)) m ?st2"
  proof (rule bundle_stage_consumed [where s = PARSER_STAGE_ADU_LENGTH and n = PARSER_STAGE_BLOCK_TYPE and rd = sdnv_read_u32
        and get = total_adu_length and put = "\<lambda>v b. b\<lparr>total_adu_length := v\<rparr>" and b = ?b1, OF _ _ _ _ feed_written(3)])
    show "room st1 (length (snd (sdnv_write_u32 tot)))" using prim_room [OF 1(2) r1] by simp
  qed (use f in \<open>simp_all add: read_stage_byte_def bundle6_parser_next_def enter_stage_def\<close>)
  moreover have "block_at D x (b\<lparr>fragment_offset := off, total_adu_length := tot\<rparr>) ?st2"
    using 1(2) D by (auto simp: prim_def block_at_def take_room_def has_dict_def)
  ultimately show ?thesis using consumes_trans [OF 1(1) 2] by auto
qed

section \<open>Blocks\<close>

text \<open>A block with one byte of type and of flags, the references \<open>rs\<close> and the data \<open>d\<close>.\<close>

definition wire_block :: "u8 \<Rightarrow> u8 \<Rightarrow> string list \<Rightarrow> bytes \<Rightarrow> bundle_block" where
  "wire_block t f rs d = \<lparr>blk_type = ucast t, blk_number = (if t = 1 then 1 else 0), blk_flags = ucast f,
     blk_length = of_nat (length d), blk_data = Some d, eid_refs = map Some rs, blk_crc_type = 0\<rparr>"

text \<open>
  What is written for it. Of its references only the number counts: the offsets are taken from the start of \<open>I\<close>,
  the information on the references of all blocks.
\<close>

definition refs_bytes :: "bundle6_eid_info list \<Rightarrow> u8 \<Rightarrow> nat \<Rightarrow> bytes" where
  "refs_bytes I f n = (if f AND 0x40 \<noteq> 0
     then snd (sdnv_write_u16 (of_nat n)) @ concat (map eid_info_bytes (take n I)) else [])"

definition front_bytes :: "bundle6_eid_info list \<Rightarrow> u8 \<Rightarrow> u8 \<Rightarrow> string list \<Rightarrow> bytes \<Rightarrow> bytes" where
  "front_bytes I t f rs d = t # snd (sdnv_write_u8 f) @ refs_bytes I f (length rs) @ snd (sdnv_write_u32 (of_nat (length d)))"

definition block_bytes :: "bundle6_eid_info list \<Rightarrow> u8 \<Rightarrow> u8 \<Rightarrow> string list \<Rightarrow> bytes \<Rightarrow> bytes" where
  "block_bytes I t f rs d = front_bytes I t f rs d @ d"

definition add_block :: "addr \<Rightarrow> bundle_block \<Rightarrow> bundle_t \<Rightarrow> bundle_t" where
  "add_block a blk b = b\<lparr>payload_block := (if blk_type blk = BUNDLE_BLOCK_TYPE_PAYLOAD then Some a else payload_block b),
     blocks := blocks b @ [(a, blk)]\<rparr>"

lemma unat_u8_u32 [simp]: "unat (ucast (t :: u8) :: u32) = unat t"
proof -
  have "unat t < 2 ^ 32" using unsigned_less [of t, where ?'a = nat] by simp
  then show ?thesis by (simp add: unsigned_ucast_eq take_bit_nat_eq_self)
qed

lemma u8_one: "(ucast (t :: u8) :: u32) = 1 \<longleftrightarrow> t = 1"
  by (simp add: word_unat_eq_iff)

lemma u8_u32_u8 [simp]: "(ucast (ucast (w :: u8) :: u32) :: u8) = w"
  by (rule bit_word_eqI) (auto simp: bit_simps)

lemma flags_byte: "((ucast (w :: u8) :: u32) AND NOT 0xFF) OR ucast (v :: u8) = ucast v"
proof -
  have m: "(0xFF :: u32) = mask 8" by (simp add: mask_eq_exp_minus_1)
  show ?thesis unfolding m by (rule bit_word_eqI) (auto simp: bit_simps dest: bit_imp_le_length)
qed

lemma HAS_FLAG_u8: "HAS_FLAG (ucast (f :: u8) :: u32) (ucast g) \<longleftrightarrow> f AND g \<noteq> 0"
proof -
  have "(ucast f AND ucast g :: u32) = ucast (f AND g)"
    by (rule bit_word_eqI) (auto simp: bit_simps dest: bit_imp_le_length)
  moreover have "(ucast (f AND g) :: u32) = 0 \<longleftrightarrow> f AND g = 0"
    by (simp add: word_unat_eq_iff)
  ultimately show ?thesis by (simp add: HAS_FLAG_def)
qed

lemmas flag_tests = HAS_FLAG_u8 [of _ "0x08", simplified] HAS_FLAG_u8 [of _ "0x40", simplified]

lemma with_block_last:
  "p6_bundle st = Some (add_block a blk b) \<Longrightarrow> current_block_entry st = length (blocks b) \<Longrightarrow> with_block st g = g blk"
  by (simp add: with_block_def with_bundle_def add_block_def nth_append)

lemma upd_block_last:
  "p6_bundle st = Some (add_block a blk b) \<Longrightarrow> current_block_entry st = length (blocks b) \<Longrightarrow> blk_type (g blk) = blk_type blk \<Longrightarrow>
    upd_block g st = st\<lparr>p6_bundle := Some (add_block a (g blk) b)\<rparr>"
  by (simp add: upd_block_def upd_bundle_def add_block_def nth_append)

lemma nth_last_block: "blocks (add_block a blk b) ! length (blocks b) = (a, blk)"
  by (simp add: add_block_def nth_append)

text \<open>The parser is in stage \<open>s\<close> of the block \<open>blk\<close>, which it has added to the bundle.\<close>

definition in_blk :: "bytes \<Rightarrow> bundle6_parser_stage \<Rightarrow> bundle6_parser \<Rightarrow> bundle_t \<Rightarrow> addr \<Rightarrow> bundle_block \<Rightarrow> bool \<Rightarrow>
    bundle6_parser \<Rightarrow> bool" where
  "in_blk D s x b a blk l st \<longleftrightarrow> has_dict D st \<and> p6_status st = PARSER_STATUS_GOOD \<and> p6_flags st = 0 \<and>
     current_stage st = s \<and> next_stage st = s \<and> current_block st \<noteq> PARSER_BLOCK_PRIMARY \<and> p6_sdnv st = sdnv0 \<and>
     p6_bundle st = Some (add_block a blk b) \<and> current_block_entry st = length (blocks b) \<and> last_block st = l \<and>
     has_callback st = has_callback x \<and> sent st = sent x"

lemma in_blk_bulk: "in_blk D s x b a blk l st \<Longrightarrow> \<not> bulk st"
  by (simp add: in_blk_def bulk_def HAS_FLAG_def)

lemma ref_count_consumed:
  assumes st: "in_blk D PARSER_STAGE_BLOCK_EID_REF_CNT x b a blk l st"
  shows "\<exists>st'. consumes True m st (snd (sdnv_write_u16 n)) m st' \<and> current_size st' = ucast n \<and> current_index st' = 0 \<and>
    in_blk D (if n = 0 then PARSER_STAGE_BLOCK_DATA_LENGTH else PARSER_STAGE_BLOCK_EID_REF_SCH) x b a blk l st'"
proof -
  note s = st [unfolded in_blk_def]
  let ?k = "sdnv_get_size_u16 n"
  let ?n = "if n = 0 then PARSER_STAGE_BLOCK_DATA_LENGTH else PARSER_STAGE_BLOCK_EID_REF_SCH"
  let ?mk = "\<lambda>ss w st. st\<lparr>p6_sdnv := ss, current_size := w\<rparr>"
  let ?post = "\<lambda>S. let (fin, S1) = bundle6_parser_wait_for_sdnv PARSER_STAGE_BLOCK_EID_REF_SCH S in
      if fin then let S2 = S1\<lparr>current_index := 0\<rparr> in
        if current_size S2 = 0 then S2\<lparr>next_stage := PARSER_STAGE_BLOCK_DATA_LENGTH\<rparr> else S2
      else S1"
  let ?st' = "st\<lparr>p6_sdnv := sdnv0, current_size := ucast n, current_index := 0, next_stage := ?n, current_stage := ?n\<rparr>"
  let ?z = "st\<lparr>p6_sdnv := sdnv_fin ?k, current_size := ucast n, current_index := 0, next_stage := ?n\<rparr>"
  have z: "(ucast n :: u32) = 0 \<longleftrightarrow> n = 0" by (simp add: word_unat_eq_iff)
  have "consumes True m (?mk sdnv0 (current_size st) st) (snd (sdnv_write_u16 n)) m ?st'"
  proof (rule sdnv_consumed_post [where mk = ?mk and s = PARSER_STAGE_BLOCK_EID_REF_CNT and post = "\<lambda>S. Inr (?post S, m)"
        and rd = sdnv_read_u32 and w' = "ucast n" and ss' = "sdnv_fin ?k"])
    show "read_stage_byte m byte (?mk ss w st) =
        Inr (?post (?mk (fst (sdnv_read_u32 ss w byte)) (snd (sdnv_read_u32 ss w byte)) st), m)"
      if "current_stage st = PARSER_STAGE_BLOCK_EID_REF_CNT" for ss w st byte
      using that by (simp add: read_stage_byte_def read_eid_ref_cnt_byte_def read_sdnv_def split_beta Let_def)
    show "sdnv_feed sdnv_read_u32 sdnv0 (current_size st) (snd (sdnv_write_u16 n)) = (sdnv_fin ?k, ucast n, [])"
      using feed_written(3) [of "current_size st" "ucast n"] by (simp add: write_u16_u32)
    show "room st (length (snd (sdnv_write_u16 n)))" using s by (simp add: room_def)
    show "Inr (?post (?mk (sdnv_fin ?k) (ucast n) (take_room (length (snd (sdnv_write_u16 n))) st)), m) = Inr (?z, m)"
      using s z by (cases "n = 0") (simp_all add: bundle6_parser_wait_for_sdnv_def take_room_def Let_def)
    show "bundle6_parser_next m ?z = Inr (?st', m)"
      using s by (cases "n = 0") (simp_all add: bundle6_parser_next_def enter_stage_def reset_sdnv_def)
  qed (use s in_blk_bulk [OF st] in \<open>simp_all add: bundle6_parser_wait_for_sdnv_def room_def take_room_def
      bundle6_parser_length_known_def\<close>)
  moreover have "?mk sdnv0 (current_size st) st = st" using s by simp
  ultimately show ?thesis using s by (intro exI [of _ ?st']) (simp add: in_blk_def has_dict_def)
qed

lemma ref_scheme_consumed:
  assumes st: "in_blk D PARSER_STAGE_BLOCK_EID_REF_SCH x b a blk l st"
  shows "\<exists>st'. consumes True m st (snd (sdnv_write_u16 off)) m st' \<and> scheme_offset (cur_eidref st') = off \<and>
    current_size st' = current_size st \<and> current_index st' = current_index st \<and>
    in_blk D PARSER_STAGE_BLOCK_EID_REF_SSP x b a blk l st'"
proof -
  note s = st [unfolded in_blk_def]
  let ?put = "\<lambda>v st. st\<lparr>cur_eidref := (cur_eidref st)\<lparr>scheme_offset := v\<rparr>\<rparr>"
  let ?st' = "(?put off st)\<lparr>p6_sdnv := sdnv0, next_stage := PARSER_STAGE_BLOCK_EID_REF_SSP,
      current_stage := PARSER_STAGE_BLOCK_EID_REF_SSP\<rparr>"
  have "consumes True m st (snd (sdnv_write_u16 off)) m ?st'"
    by (rule state_stage_consumed [where s = PARSER_STAGE_BLOCK_EID_REF_SCH and n = PARSER_STAGE_BLOCK_EID_REF_SSP and
        get = "scheme_offset \<circ> cur_eidref" and put = ?put])
      (use s in_blk_bulk [OF st] in \<open>simp_all add: read_stage_byte_def room_def take_room_def bundle6_parser_next_def
        enter_stage_def reset_sdnv_def\<close>)
  then show ?thesis using s by (intro exI [of _ ?st']) (simp add: in_blk_def has_dict_def)
qed

text \<open>A reference that has been read is put in front of those read before.\<close>

lemma ref_ssp_consumed:
  assumes st: "in_blk D PARSER_STAGE_BLOCK_EID_REF_SSP x b a blk l st"
    and i: "scheme_offset (cur_eidref st) = dict_scheme_offset i" and r: "readable D i e"
  shows "\<exists>st'. consumes True (Some a1 # Some a2 # m) st (snd (sdnv_write_u16 (dict_ssp_offset i))) m st' \<and>
    current_size st' = current_size st \<and> current_index st' = current_index st + 1 \<and>
    in_blk D (if current_index st + 1 = current_size st then PARSER_STAGE_BLOCK_DATA_LENGTH else PARSER_STAGE_BLOCK_EID_REF_SCH)
      x b a (blk\<lparr>eid_refs := Some e # eid_refs blk\<rparr>) l st'"
proof -
  note s = st [unfolded in_blk_def]
  let ?m = "Some a1 # Some a2 # m" and ?v = "dict_ssp_offset i"
  let ?k = "sdnv_get_size_u16 ?v"
  let ?n = "if current_index st + 1 = current_size st then PARSER_STAGE_BLOCK_DATA_LENGTH else PARSER_STAGE_BLOCK_EID_REF_SCH"
  let ?mk = "\<lambda>ss w st. st\<lparr>p6_sdnv := ss, cur_eidref := (cur_eidref st)\<lparr>ssp_offset := w\<rparr>\<rparr>"
  let ?post = "\<lambda>S. let (fin, S1) = bundle6_parser_wait_for_sdnv PARSER_STAGE_BLOCK_EID_REF_SCH S in
      if fin then store_eid_ref ?m S1 else Inr (S1, ?m)"
  let ?c = "st\<lparr>p6_sdnv := sdnv_fin ?k, cur_eidref := eidref_of i, next_stage := PARSER_STAGE_BLOCK_EID_REF_SCH\<rparr>"
  let ?blk = "blk\<lparr>eid_refs := Some e # eid_refs blk\<rparr>"
  let ?z = "?c\<lparr>p6_bundle := Some (add_block a ?blk b), current_index := current_index st + 1, next_stage := ?n\<rparr>"
  let ?st' = "?z\<lparr>p6_sdnv := sdnv0, current_stage := ?n\<rparr>"
  have ref: "(cur_eidref st)\<lparr>ssp_offset := ?v\<rparr> = eidref_of i"
    using i by (cases "cur_eidref st") (simp add: eidref_of_def)
  have d: "dict ?c = Some (D @ [0])" "unat (dict_length ?c) = length D" "p6_bundle ?c = Some (add_block a blk b)"
      "current_block_entry ?c = length (blocks b)"
    using s by (simp_all add: has_dict_def)
  have rd: "bundle6_read_eid (Some a2 # m) (Some (D @ [0])) (length D) (cur_eidref ?c) = Inr (Some e, m)"
    using r by (simp add: readable_def)
  have sto: "store_eid_ref ?m ?c = Inr (?z, m)"
    unfolding store_eid_ref_def malloc.simps option.case prod.case d(1,2) rd obind_Inr with_block_last [OF d(3,4)] Let_def
    using s by (cases "current_index st + 1 = current_size st") (simp_all add: upd_block_last [OF d(3,4)])
  have c: "consumes True ?m (?mk sdnv0 (ssp_offset (cur_eidref st)) st) (snd (sdnv_write_u16 ?v)) m ?st'"
  proof (rule sdnv_consumed_post [where mk = ?mk and s = PARSER_STAGE_BLOCK_EID_REF_SSP and post = ?post
        and rd = sdnv_read_u16 and w' = ?v and ss' = "sdnv_fin ?k"])
    show "read_stage_byte ?m byte (?mk ss w st) = ?post (?mk (fst (sdnv_read_u16 ss w byte)) (snd (sdnv_read_u16 ss w byte)) st)"
      if "current_stage st = PARSER_STAGE_BLOCK_EID_REF_SSP" for ss w st byte
      using that by (simp add: read_stage_byte_def read_eid_ref_ssp_byte_def read_sdnv_def split_beta)
    show "sdnv_feed sdnv_read_u16 sdnv0 (ssp_offset (cur_eidref st)) (snd (sdnv_write_u16 ?v)) = (sdnv_fin ?k, ?v, [])"
      by (rule feed_written)
    show "room st (length (snd (sdnv_write_u16 ?v)))" using s by (simp add: room_def)
    show "?post (?mk (sdnv_fin ?k) ?v (take_room (length (snd (sdnv_write_u16 ?v))) st)) = Inr (?z, m)"
      using s sto by (simp add: bundle6_parser_wait_for_sdnv_def take_room_def ref del: if_split)
    show "bundle6_parser_next m ?z = Inr (?st', m)"
      using s by (cases "current_index st + 1 = current_size st")
        (simp_all add: bundle6_parser_next_def enter_stage_def reset_sdnv_def)
  qed (use s in_blk_bulk [OF st] in \<open>simp_all add: bundle6_parser_wait_for_sdnv_def room_def take_room_def
      bundle6_parser_length_known_def\<close>)
  have mk: "?mk sdnv0 (ssp_offset (cur_eidref st)) st = st" using s by simp
  have "consumes True ?m st (snd (sdnv_write_u16 ?v)) m ?st'" using c unfolding mk .
  moreover have "in_blk D ?n x b a ?blk l ?st'" using s by (simp add: in_blk_def has_dict_def)
  ultimately show ?thesis by (intro exI [of _ ?st']) simp
qed

text \<open>The references of a block that are left, one after the other.\<close>

lemma refs_consumed:
  "in_blk D (if is = [] then PARSER_STAGE_BLOCK_DATA_LENGTH else PARSER_STAGE_BLOCK_EID_REF_SCH) x b a blk l st \<Longrightarrow>
    list_all2 (readable D) is es \<Longrightarrow> length as = 2 * length is \<Longrightarrow>
    unat (current_index st) + length is = unat (current_size st) \<Longrightarrow>
    \<exists>st'. consumes True (map Some as @ m) st (concat (map eid_info_bytes is)) m st' \<and>
      current_size st' = current_size st \<and>
      in_blk D PARSER_STAGE_BLOCK_DATA_LENGTH x b a (blk\<lparr>eid_refs := map Some (rev es) @ eid_refs blk\<rparr>) l st'"
proof (induction "is" arbitrary: es as blk st)
  case Nil
  then have "in_blk D PARSER_STAGE_BLOCK_DATA_LENGTH x b a blk l st" "es = []" "as = []" by simp_all
  then show ?case using consumes_nil by (intro exI [of _ st]) simp
next
  case (Cons i "is")
  obtain e es' where es: "es = e # es'" "readable D i e" "list_all2 (readable D) is es'"
    using Cons.prems(2) by (auto simp: list_all2_Cons1)
  obtain a1 a2 as' where as: "as = a1 # a2 # as'" "length as' = 2 * length is"
    using Cons.prems(3) by (cases as; cases "tl as") auto
  have st: "in_blk D PARSER_STAGE_BLOCK_EID_REF_SCH x b a blk l st" using Cons.prems(1) by simp
  let ?m = "map Some as' @ m"
  obtain st1 where 1: "consumes True (Some a1 # Some a2 # ?m) st (snd (sdnv_write_u16 (dict_scheme_offset i))) (Some a1 # Some a2 # ?m) st1"
      "scheme_offset (cur_eidref st1) = dict_scheme_offset i" "current_size st1 = current_size st"
      "current_index st1 = current_index st" "in_blk D PARSER_STAGE_BLOCK_EID_REF_SSP x b a blk l st1"
    using ref_scheme_consumed [OF st] by blast
  obtain st2 where 2: "consumes True (Some a1 # Some a2 # ?m) st1 (snd (sdnv_write_u16 (dict_ssp_offset i))) ?m st2"
      "current_size st2 = current_size st1" "current_index st2 = current_index st1 + 1"
      "in_blk D (if current_index st1 + 1 = current_size st1 then PARSER_STAGE_BLOCK_DATA_LENGTH else PARSER_STAGE_BLOCK_EID_REF_SCH)
        x b a (blk\<lparr>eid_refs := Some e # eid_refs blk\<rparr>) l st2"
    using ref_ssp_consumed [OF 1(5,2) es(2)] by blast
  have sum: "unat (current_index st) + (length is + 1) = unat (current_size st)" using Cons.prems(4) by simp
  then have ix: "unat (current_index st + 1) = unat (current_index st) + 1"
    using unsigned_less [of "current_size st", where ?'a = nat] by (simp add: unat_word_ariths)
  then have "current_index st + 1 = current_size st \<longleftrightarrow> is = []"
    using sum by (cases "is") (simp_all add: word_unat_eq_iff)
  then have in2: "in_blk D (if is = [] then PARSER_STAGE_BLOCK_DATA_LENGTH else PARSER_STAGE_BLOCK_EID_REF_SCH)
        x b a (blk\<lparr>eid_refs := Some e # eid_refs blk\<rparr>) l st2"
    using 2(4) 1(3,4) by (simp del: if_split)
  have sum2: "unat (current_index st2) + length is = unat (current_size st2)" using sum ix 1(3,4) 2(2,3) by simp
  obtain st3 where 3: "consumes True ?m st2 (concat (map eid_info_bytes is)) m st3" "current_size st3 = current_size st2"
      "in_blk D PARSER_STAGE_BLOCK_DATA_LENGTH x b a (blk\<lparr>eid_refs := map Some (rev es') @ Some e # eid_refs blk\<rparr>) l st3"
    using Cons.IH [OF in2 es(3) as(2) sum2] by auto
  have "consumes True (Some a1 # Some a2 # ?m) st (snd (sdnv_write_u16 (dict_scheme_offset i)) @
      snd (sdnv_write_u16 (dict_ssp_offset i)) @ concat (map eid_info_bytes is)) m st3"
    using 1(1) 2(1) 3(1) by (blast intro: consumes_trans)
  then show ?case using 1(3) 2(2) 3(2,3) by (intro exI [of _ st3]) (simp add: as es eid_info_bytes_def [of i])
qed

text \<open>The block before its data is allocated.\<close>

definition bare_block :: "u8 \<Rightarrow> u8 \<Rightarrow> string list \<Rightarrow> u32 \<Rightarrow> bundle_block" where
  "bare_block t f rs n = \<lparr>blk_type = ucast t, blk_number = (if t = 1 then 1 else 0), blk_flags = ucast f,
     blk_length = n, blk_data = None, eid_refs = map Some rs, blk_crc_type = 0\<rparr>"

definition after_flags :: "u8 \<Rightarrow> bundle6_parser_stage" where
  "after_flags f = (if f AND 0x40 \<noteq> 0 then PARSER_STAGE_BLOCK_EID_REF_CNT else PARSER_STAGE_BLOCK_DATA_LENGTH)"

lemma block_head_consumed:
  assumes st: "block_at D x b st" and e: "current_block_entry x = length (blocks b)"
  shows "\<exists>st'. consumes True (Some a1 # Some a2 # m) st (t # snd (sdnv_write_u8 f)) m st' \<and>
    current_size st' = current_size x \<and> in_blk D (after_flags f) x b a1 (bare_block t f [] 0) (f AND 0x08 \<noteq> 0) st'"
proof -
  define nr :: u8 where "nr = (if t = 1 then 1 else 0)"
  let ?blk = "\<lambda>w. \<lparr>blk_type = ucast t, blk_number = nr, blk_flags = ucast (w :: u8),
      blk_length = 0, blk_data = None, eid_refs = [], blk_crc_type = 0\<rparr>"
  let ?cb = "if t = 1 then PARSER_BLOCK_PAYLOAD else PARSER_BLOCK_EXTENSION"
  note s = st [unfolded block_at_def]
  let ?S = "st\<lparr>p6_bundle := Some (add_block a1 (?blk 0) b), current_block := ?cb, current_stage := PARSER_STAGE_BLOCK_FLAGS,
      next_stage := PARSER_STAGE_BLOCK_FLAGS, p6_sdnv := sdnv0\<rparr>"
  have "bundle6_parser_read_byte (Some a1 # Some a2 # m) t st = Inr (?S, m)"
    using s e by (simp add: bundle6_parser_read_byte_def read_stage_byte_def bundle6_parser_begin_block_def
        bundle_block_create_def with_bundle_def upd_bundle_def bundle6_parser_next_def enter_stage_def reset_sdnv_def
        add_block_def u8_one nr_def)
  then have 1: "consumes True (Some a1 # Some a2 # m) st [t] m ?S"
    using s by (intro read_step) (simp_all add: bulk_def HAS_FLAG_def)
  let ?e = "length (blocks b)"
  let ?mk = "\<lambda>ss w st. st\<lparr>p6_sdnv := ss, p6_bundle := Some (add_block a1 (?blk w) b), current_block_entry := ?e\<rparr>"
  let ?post = "\<lambda>S. let (fin, S1) = bundle6_parser_wait_for_sdnv PARSER_STAGE_BLOCK_DATA_LENGTH S in
      if fin then let blk = snd (blocks (the (p6_bundle S1)) ! current_block_entry S1);
          S2 = S1\<lparr>last_block := HAS_FLAG (blk_flags blk) BUNDLE_V6_BLOCK_FLAG_LAST_BLOCK\<rparr>
        in if has_eid_ref_field blk then S2\<lparr>next_stage := PARSER_STAGE_BLOCK_EID_REF_CNT\<rparr> else S2
      else S1"
  let ?z = "?S\<lparr>p6_bundle := Some (add_block a1 (?blk f) b), last_block := (f AND 0x08 \<noteq> 0),
      p6_sdnv := sdnv_fin (sdnv_get_size_u8 f), next_stage := after_flags f\<rparr>"
  let ?st2 = "?z\<lparr>p6_sdnv := sdnv0, current_stage := after_flags f\<rparr>"
  have nb: "\<not> bulk ?S" using s by (simp add: bulk_def HAS_FLAG_def)
  have "consumes True m (?mk sdnv0 0 ?S) (snd (sdnv_write_u8 f)) m ?st2"
  proof (rule sdnv_consumed_post [where mk = ?mk and s = PARSER_STAGE_BLOCK_FLAGS and post = "\<lambda>S. Inr (?post S, m)" and rd = sdnv_read_u8
        and z = ?z, OF _ _ _ _ _ _ _ _ feed_written(1) sdnv_status_simps(2) _ nb])
    show "read_stage_byte m byte (?mk ss w st) = Inr (?post (?mk (fst (sdnv_read_u8 ss w byte)) (snd (sdnv_read_u8 ss w byte)) st), m)"
      if "current_stage st = PARSER_STAGE_BLOCK_FLAGS" for ss w st byte
    proof -
      obtain ss' w' where r: "sdnv_read_u8 ss w byte = (ss', w')" by force
      have "read_sdnv sdnv_read_u8 w set_block_flags byte (?mk ss w st) = ?mk ss' w' st"
        by (simp add: read_sdnv_def r set_block_flags_def upd_block_last flags_byte [simplified])
      then show ?thesis
        using that
        by (simp add: read_stage_byte_def read_block_flags_byte_def with_block_last r bundle6_parser_wait_for_sdnv_def
            nth_last_block Let_def split: sdnv_status.split)
    qed
    show "Inr (?post (?mk (sdnv_fin (sdnv_get_size_u8 f)) f (take_room (length (snd (sdnv_write_u8 f))) ?S)), m) = Inr (?z, m)"
      using s e by (cases "f AND 0x40 = 0") (simp_all add: bundle6_parser_wait_for_sdnv_def take_room_def nth_last_block
          has_eid_ref_field_def flag_tests after_flags_def)
    show "bundle6_parser_next m ?z = Inr (?st2, m)"
      using s by (simp add: bundle6_parser_next_def enter_stage_def reset_sdnv_def after_flags_def)
  qed (use s in \<open>simp_all add: bundle6_parser_wait_for_sdnv_def room_def take_room_def bundle6_parser_length_known_def
      after_flags_def\<close>)
  moreover have "?mk sdnv0 0 ?S = ?S" using s e by simp
  ultimately have 2: "consumes True m ?S (snd (sdnv_write_u8 f)) m ?st2" by simp
  have "consumes True (Some a1 # Some a2 # m) st ([t] @ snd (sdnv_write_u8 f)) m ?st2"
    using 1 2 by (blast intro: consumes_trans)
  then show ?thesis
    using s e by (intro exI [of _ ?st2]) (simp add: in_blk_def has_dict_def bare_block_def nr_def)
qed

lemma refs_field_consumed:
  assumes st: "in_blk D (after_flags f) x b a (bare_block t f [] 0) l st" and es: "list_all2 (readable D) (take (length es) I) es"
    and fl: "es \<noteq> [] \<Longrightarrow> f AND 0x40 \<noteq> 0" and small: "length es < 65536" and as: "length as = 2 * length es"
  shows "\<exists>st'. consumes True (map Some as @ m) st (refs_bytes I f (length es)) m st' \<and>
    current_size st' = (if f AND 0x40 \<noteq> 0 then of_nat (length es) else current_size st) \<and>
    in_blk D PARSER_STAGE_BLOCK_DATA_LENGTH x b a (bare_block t f (rev es) 0) l st'"
proof (cases "f AND 0x40 = 0")
  case True
  then have e: "es = []" using fl by blast
  then have "as = []" using as by simp
  with e show ?thesis using True st consumes_nil by (intro exI [of _ st]) (simp add: after_flags_def refs_bytes_def)
next
  case False
  let ?n = "of_nat (length es) :: u16" and ?is = "take (length es) I"
  have un: "unat ?n = length es" using small by (simp add: unsigned_of_nat take_bit_nat_eq_self)
  then have z: "?n = 0 \<longleftrightarrow> es = []" by (metis length_0_conv unat_0 word_unat_eq_iff)
  have len: "length ?is = length es" using list_all2_lengthD [OF es] .
  then have z2: "?is = [] \<longleftrightarrow> es = []" by (metis length_0_conv)
  have cnt: "in_blk D PARSER_STAGE_BLOCK_EID_REF_CNT x b a (bare_block t f [] 0) l st" using st False by (simp add: after_flags_def)
  obtain st1 where 1: "consumes True (map Some as @ m) st (snd (sdnv_write_u16 ?n)) (map Some as @ m) st1"
      "current_size st1 = ucast ?n" "current_index st1 = 0"
      "in_blk D (if ?n = 0 then PARSER_STAGE_BLOCK_DATA_LENGTH else PARSER_STAGE_BLOCK_EID_REF_SCH) x b a (bare_block t f [] 0) l st1"
    using ref_count_consumed [OF cnt] by blast
  have "unat (current_index st1) + length ?is = unat (current_size st1)" using 1(2,3) un len by simp
  moreover have "length as = 2 * length ?is" using as len by simp
  ultimately obtain st2 where 2: "consumes True (map Some as @ m) st1 (concat (map eid_info_bytes ?is)) m st2"
      "current_size st2 = current_size st1" "in_blk D PARSER_STAGE_BLOCK_DATA_LENGTH x b a
        (bare_block t f [] 0\<lparr>eid_refs := map Some (rev es) @ eid_refs (bare_block t f [] 0)\<rparr>) l st2"
    using refs_consumed [OF 1(4) [unfolded z, folded z2] es] by blast
  have "(ucast ?n :: u32) = of_nat (length es)"
    using un small by (simp add: word_unat_eq_iff unsigned_of_nat take_bit_nat_eq_self)
  then show ?thesis
    using consumes_trans [OF 1(1) 2(1)] 1(2) 2(2,3) False
    by (intro exI [of _ st2]) (simp add: refs_bytes_def bare_block_def)
qed

text \<open>
  The parser has allocated the buffer of a block and waits for its \<open>n\<close> bytes in bulk.
\<close>

definition awaits :: "nat \<Rightarrow> bytes \<Rightarrow> bundle6_parser \<Rightarrow> bundle_t \<Rightarrow> addr \<Rightarrow> bundle_block \<Rightarrow> bool \<Rightarrow> bundle6_parser \<Rightarrow> bool" where
  "awaits n D x b a blk l st \<longleftrightarrow> has_dict D st \<and> p6_status st = PARSER_STATUS_GOOD \<and> p6_flags st = 1 \<and>
     current_stage st = PARSER_STAGE_BLOCK_DATA \<and> next_stage st = PARSER_STAGE_BLOCK_DATA \<and>
     current_block st \<noteq> PARSER_BLOCK_PRIMARY \<and> p6_bundle st = Some (add_block a blk b) \<and>
     current_block_entry st = length (blocks b) \<and> next_bytes st = n \<and> cur_bytes_remaining st = 0 \<and> last_block st = l \<and>
     has_callback st = has_callback x \<and> sent st = sent x"

lemma data_length_consumed:
  assumes st: "in_blk D PARSER_STAGE_BLOCK_DATA_LENGTH x b a (bare_block t f rs 0) l st"
    and sz: "unat (current_size st) + length d \<le> 1073741824"
  shows "\<exists>st'. consumes True (Some a3 # m) st (snd (sdnv_write_u32 (of_nat (length d)))) m st' \<and>
    current_size st' = current_size st + of_nat (length d) \<and>
    awaits (length d) D x b a (wire_block t f rs (replicate (length d) 0)) l st'"
proof -
  let ?l = "of_nat (length d) :: u32"
  note s = st [unfolded in_blk_def]
  have len: "unat ?l = length d" using sz by (simp add: unsigned_of_nat take_bit_nat_eq_self)
  let ?mk = "\<lambda>ss w st. st\<lparr>p6_sdnv := ss, p6_bundle := Some (add_block a (bare_block t f rs w) b), current_block_entry := length (blocks b)\<rparr>"
  let ?st' = "st\<lparr>p6_sdnv := sdnv_fin (sdnv_get_size_u32 ?l),
      p6_bundle := Some (add_block a (wire_block t f rs (replicate (length d) 0)) b),
      current_index := 0, cur_bytes_remaining := 0, next_bytes := length d, current_size := current_size st + ?l,
      p6_flags := p6_flags st OR 1, current_stage := PARSER_STAGE_BLOCK_DATA, next_stage := PARSER_STAGE_BLOCK_DATA\<rparr>"
  have q: "\<not> 1073741824 < current_size st + ?l"
  proof -
    have "unat (current_size st) + unat ?l < 2 ^ 32" using sz len by simp
    then have "unat (current_size st + ?l) = unat (current_size st) + unat ?l" by (simp add: unat_word_ariths)
    then show ?thesis using sz len by (simp add: word_less_nat_alt)
  qed
  have "consumes True (Some a3 # m) (?mk sdnv0 0 st) (snd (sdnv_write_u32 ?l)) m ?st'"
  proof (rule sdnv_consumed [where mk = ?mk and s = PARSER_STAGE_BLOCK_DATA_LENGTH and n = PARSER_STAGE_BLOCK_DATA
        and rd = sdnv_read_u32, OF _ _ _ _ _ _ _ _ feed_written(3) sdnv_status_simps(2) _ in_blk_bulk [OF st]])
    show "read_stage_byte (Some a3 # m) byte (?mk ss w st) = Inr (snd (bundle6_parser_wait_for_sdnv PARSER_STAGE_BLOCK_DATA
        (?mk (fst (sdnv_read_u32 ss w byte)) (snd (sdnv_read_u32 ss w byte)) st)), Some a3 # m)"
      if "current_stage st = PARSER_STAGE_BLOCK_DATA_LENGTH" for ss w st byte
    proof -
      obtain ss' w' where r: "sdnv_read_u32 ss w byte = (ss', w')" by force
      have "read_sdnv sdnv_read_u32 w (\<lambda>v. upd_block (\<lambda>blk. blk\<lparr>blk_length := v\<rparr>)) byte (?mk ss w st) = ?mk ss' w' st"
        by (simp add: read_sdnv_def r upd_block_last bare_block_def)
      then show ?thesis using that by (simp add: read_stage_byte_def with_block_last r bare_block_def)
    qed
    show "bundle6_parser_next (Some a3 # m) (?mk (sdnv_fin (sdnv_get_size_u32 ?l)) ?l (take_room (length (snd (sdnv_write_u32 ?l))) st)
        \<lparr>next_stage := PARSER_STAGE_BLOCK_DATA\<rparr>) = Inr (?st', m)"
      using s q len
      by (simp add: bundle6_parser_next_def enter_stage_def enter_block_data_def with_block_last take_room_def
          upd_block_last Let_def wire_block_def bare_block_def)
  qed (use s in \<open>simp_all add: room_def take_room_def bundle6_parser_length_known_def\<close>)
  moreover have "?mk sdnv0 0 st = st" using s by simp
  ultimately have "consumes True (Some a3 # m) st (snd (sdnv_write_u32 ?l)) m ?st'" by simp
  then show ?thesis
    using s by (intro exI [of _ ?st']) (simp add: awaits_def has_dict_def)
qed

text \<open>The bulk read of \<open>d\<close> takes the parser from \<open>st\<close> to \<open>st'\<close>.\<close>

definition finishes :: "bytes \<Rightarrow> bundle6_parser \<Rightarrow> bundle6_parser \<Rightarrow> bool" where
  "finishes d st st' \<longleftrightarrow> p6_status st = PARSER_STATUS_GOOD \<and> bulk st \<and> next_bytes st = length d \<and> next_bytes st' = length d \<and>
     (\<exists>st0. bulk_copy d st = Inr st0 \<and> (\<forall>m. bundle6_parser_read_byte m 0 st0 = Inr (st', m)))"

lemma finishes_consumed: "finishes d st st' \<Longrightarrow> consumes (d \<noteq> []) m st d m st'"
  by (auto simp: finishes_def consumes_def bundle6_parser_read_loop.simps [of m st] shift_def case_prod_unfold split: if_splits)

lemma block_front_consumed:
  assumes st: "block_at D x b st" and e: "current_block_entry x = length (blocks b)"
    and I: "list_all2 (readable D) I R" "length R < 65536" and rs: "length rs \<le> length R" "rs \<noteq> [] \<Longrightarrow> f AND 0x40 \<noteq> 0"
    and as: "length as = 2 * length rs" and sz: "max (unat (current_size x)) (length R) + length d \<le> 1073741824"
  shows "\<exists>st'. consumes True (Some a1 # Some a2 # map Some as @ Some a3 # m) st (front_bytes I t f rs d) m st' \<and>
    unat (current_size st') \<le> max (unat (current_size x)) (length R) + length d \<and>
    awaits (length d) D x b a1 (wire_block t f (rev (take (length rs) R)) (replicate (length d) 0)) (f AND 0x08 \<noteq> 0) st'"
proof -
  let ?es = "take (length rs) R" and ?m = "Some a3 # m"
  have n: "length ?es = length rs" using rs(1) by simp
  obtain st1 where 1: "consumes True (Some a1 # Some a2 # map Some as @ ?m) st (t # snd (sdnv_write_u8 f)) (map Some as @ ?m) st1"
      "current_size st1 = current_size x" "in_blk D (after_flags f) x b a1 (bare_block t f [] 0) (f AND 0x08 \<noteq> 0) st1"
    using block_head_consumed [OF st e] by blast
  have "list_all2 (readable D) (take (length ?es) I) ?es" unfolding n using I(1) by (rule list_all2_takeI)
  moreover have "?es \<noteq> [] \<Longrightarrow> f AND 0x40 \<noteq> 0" using rs(2) by auto
  moreover have "length ?es < 65536" "length as = 2 * length ?es" using n rs(1) I(2) as by simp_all
  ultimately obtain st2 where 2: "consumes True (map Some as @ ?m) st1 (refs_bytes I f (length ?es)) ?m st2"
      "current_size st2 = (if f AND 0x40 \<noteq> 0 then of_nat (length ?es) else current_size st1)"
      "in_blk D PARSER_STAGE_BLOCK_DATA_LENGTH x b a1 (bare_block t f (rev ?es) 0) (f AND 0x08 \<noteq> 0) st2"
    using refs_field_consumed [OF 1(3)] by blast
  have le: "unat (current_size st2) \<le> max (unat (current_size x)) (length R)"
    using 1(2) 2(2) n rs(1) I(2) by (auto simp: unsigned_of_nat take_bit_nat_eq_self le_max_iff_disj)
  then have "unat (current_size st2) + length d \<le> 1073741824" using sz by simp
  then obtain st3 where 3: "consumes True ?m st2 (snd (sdnv_write_u32 (of_nat (length d)))) m st3"
      "current_size st3 = current_size st2 + of_nat (length d)"
      "awaits (length d) D x b a1 (wire_block t f (rev ?es) (replicate (length d) 0)) (f AND 0x08 \<noteq> 0) st3"
    using data_length_consumed [OF 2(3)] by blast
  have "unat (current_size st3) \<le> max (unat (current_size x)) (length R) + length d"
    using le sz by (simp add: 3(2) unat_word_ariths unsigned_of_nat take_bit_nat_eq_self)
  moreover have "consumes True (Some a1 # Some a2 # map Some as @ ?m) st ((t # snd (sdnv_write_u8 f)) @
      refs_bytes I f (length ?es) @ snd (sdnv_write_u32 (of_nat (length d)))) m st3"
    using 1(1) 2(1) 3(1) by (blast intro: consumes_trans)
  ultimately show ?thesis using 3(3) by (intro exI [of _ st3]) (simp add: front_bytes_def min_absorb2 [OF rs(1)])
qed

lemma block_data_read:
  assumes st: "awaits (length d) D x b a (wire_block t f rs (replicate (length d) 0)) l st"
  shows "\<exists>st'. finishes d st st' \<and> (let b' = add_block a (wire_block t f rs d) b in
     if l then p6_status st' = PARSER_STATUS_DONE \<and> p6_bundle st' = None \<and> has_callback st' = has_callback x \<and>
       (has_callback x \<and> bundle_is_valid b' \<longrightarrow> sent st' = sent x @ [b'])
     else block_at D st' b' st' \<and> current_block_entry st' = length (blocks b') \<and> current_size st' = current_size st \<and>
       has_callback st' = has_callback x \<and> sent st' = sent x)"
proof -
  note s = st [unfolded awaits_def]
  let ?b' = "add_block a (wire_block t f rs d) b"
  let ?st0 = "st\<lparr>p6_bundle := Some ?b', p6_flags := 0\<rparr>"
  have cp: "bulk_copy d st = Inr ?st0"
    using s by (simp add: bulk_copy_def with_block_last upd_block_last put_bytes_def wire_block_def)
  let ?d = "?st0\<lparr>current_block_entry := length (blocks b) + 1, next_stage := PARSER_STAGE_DONE,
      current_stage := PARSER_STAGE_DONE, p6_status := PARSER_STATUS_DONE, p6_bundle := None\<rparr>"
  let ?st2 = "if l then (if has_callback x \<and> bundle_is_valid ?b' then ?d\<lparr>sent := sent x @ [?b']\<rparr> else ?d)
      else ?st0\<lparr>current_block_entry := length (blocks b) + 1, next_stage := PARSER_STAGE_BLOCK_TYPE,
        current_stage := PARSER_STAGE_BLOCK_TYPE, current_block := PARSER_BLOCK_GENERIC\<rparr>"
  have "bundle6_parser_read_byte m 0 ?st0 = Inr (?st2, m)" for m
    using s by (simp add: bundle6_parser_read_byte_def read_stage_byte_def read_block_data_byte_def bundle6_parser_end_block_def
        bundle6_parser_next_def enter_stage_def bundle6_parser_send_bundle_def with_bundle_def Let_def)
  moreover have "bulk st" using s by (simp add: bulk_def HAS_FLAG_def)
  ultimately have "finishes d st ?st2" using s cp by (auto simp: finishes_def)
  then show ?thesis
    using s by (intro exI [of _ ?st2]) (auto simp: Let_def block_at_def add_block_def has_dict_def)
qed

text \<open>The blocks of a bundle, as they are written: type, flags, references and data.\<close>

type_synonym wire = "u8 \<times> u8 \<times> string list \<times> bytes"

definition the_block :: "wire \<Rightarrow> bundle_block" where
  "the_block = (\<lambda>(t, f, rs, d). wire_block t f rs d)"

definition the_bytes :: "bundle6_eid_info list \<Rightarrow> wire \<Rightarrow> bytes" where
  "the_bytes I = (\<lambda>(t, f, rs, d). block_bytes I t f rs d)"

definition data_size :: "wire list \<Rightarrow> nat" where
  "data_size ws = sum_list (map (\<lambda>(t, f, rs, d). length d) ws)"

definition refs_of :: "wire list \<Rightarrow> string list" where
  "refs_of ws = concat (map (\<lambda>(t, f, rs, d). rs) ws)"

text \<open>The number of allocations of the parser: three for a block and two for each of its references.\<close>

definition allocs :: "wire list \<Rightarrow> nat" where
  "allocs ws = sum_list (map (\<lambda>(t, f, rs, d). 3 + 2 * length rs) ws)"

fun last_data :: "wire list \<Rightarrow> bytes" where
  "last_data [] = []"
| "last_data [(t, f, rs, d)] = d"
| "last_data (w # ws) = last_data ws"

text \<open>
  References only in blocks with the flag for them; the last block and only it carries the flag of the last block.
\<close>

definition block_ok :: "wire \<Rightarrow> bool" where
  "block_ok = (\<lambda>(t, f, rs, d). (rs \<noteq> [] \<longrightarrow> f AND 0x40 \<noteq> 0) \<and> (\<forall>s \<in> set rs. good_eid s))"

fun wire_ok :: "wire list \<Rightarrow> bool" where
  "wire_ok [] = False"
| "wire_ok [(t, f, rs, d)] \<longleftrightarrow> block_ok (t, f, rs, d) \<and> f AND 0x08 \<noteq> 0"
| "wire_ok ((t, f, rs, d) # ws) \<longleftrightarrow> block_ok (t, f, rs, d) \<and> f AND 0x08 = 0 \<and> wire_ok ws"

text \<open>What the parser adds to a bundle; \<open>R\<close> are the references of all blocks.\<close>

fun add_all :: "string list \<Rightarrow> addr list \<Rightarrow> wire list \<Rightarrow> bundle_t \<Rightarrow> bundle_t" where
  "add_all R as [] b = b"
| "add_all R as ((t, f, rs, d) # ws) b = add_all R (drop (3 + 2 * length rs) as) ws
     (add_block (hd as) (wire_block t f (rev (take (length rs) R)) d) b)"

text \<open>All bytes but those of the last data.\<close>

fun front_part :: "bundle6_eid_info list \<Rightarrow> wire list \<Rightarrow> bytes" where
  "front_part I [] = []"
| "front_part I [(t, f, rs, d)] = front_bytes I t f rs d"
| "front_part I ((t, f, rs, d) # ws) = block_bytes I t f rs d @ front_part I ws"

lemma front_part_data: "front_part I ws @ last_data ws = concat (map (the_bytes I) ws)"
  by (induction I ws rule: front_part.induct) (simp_all add: the_bytes_def block_bytes_def)

lemma front_part_nonempty: "ws \<noteq> [] \<Longrightarrow> front_part I ws \<noteq> []"
  by (induction I ws rule: front_part.induct) (simp_all add: front_bytes_def block_bytes_def)

lemma alloc_split:
  assumes "length as = 3 + 2 * n + k"
  shows "\<exists>a2 as' a3. as = hd as # a2 # as' @ a3 # drop (3 + 2 * n) as \<and> length as' = 2 * n"
proof -
  obtain a1 a2 bs where as: "as = a1 # a2 # bs" "length bs = 2 * n + (k + 1)" using assms by (cases as; cases "tl as") auto
  then have "drop (2 * n) bs = bs ! (2 * n) # drop (Suc (2 * n)) bs" by (simp add: Cons_nth_drop_Suc)
  then have "bs = take (2 * n) bs @ bs ! (2 * n) # drop (Suc (2 * n)) bs" by (metis append_take_drop_id)
  moreover have "drop (3 + 2 * n) as = drop (Suc (2 * n)) bs" using as(1) by (simp add: numeral_3_eq_3)
  ultimately have "as = hd as # a2 # take (2 * n) bs @ bs ! (2 * n) # drop (3 + 2 * n) as" using as(1) by simp
  moreover have "length (take (2 * n) bs) = 2 * n" using as(2) by simp
  ultimately show ?thesis by blast
qed

lemma block_consumed:
  assumes st: "block_at D x b st" and e: "current_block_entry x = length (blocks b)"
    and I: "list_all2 (readable D) I R" "length R < 65536" and rs: "length rs \<le> length R" and ok: "block_ok (t, f, rs, d)"
    and as: "length as = 3 + 2 * length rs + k" and sz: "max (unat (current_size x)) (length R) + length d \<le> 1073741824"
  defines "b' \<equiv> add_block (hd as) (wire_block t f (rev (take (length rs) R)) d) b"
  shows "\<exists>st1 st2. consumes True (map Some as @ m) st (front_bytes I t f rs d) (map Some (drop (3 + 2 * length rs) as) @ m) st1 \<and>
    finishes d st1 st2 \<and> sent st1 = sent x \<and>
    (if f AND 0x08 \<noteq> 0 then p6_status st2 = PARSER_STATUS_DONE \<and> p6_bundle st2 = None \<and> has_callback st2 = has_callback x \<and>
       (has_callback x \<and> bundle_is_valid b' \<longrightarrow> sent st2 = sent x @ [b'])
     else block_at D st2 b' st2 \<and> current_block_entry st2 = length (blocks b') \<and>
       unat (current_size st2) \<le> max (unat (current_size x)) (length R) + length d \<and>
       has_callback st2 = has_callback x \<and> sent st2 = sent x)"
proof -
  obtain a2 as' a3 where a: "as = hd as # a2 # as' @ a3 # drop (3 + 2 * length rs) as" "length as' = 2 * length rs"
    using alloc_split [OF as] by blast
  let ?m = "map Some (drop (3 + 2 * length rs) as) @ m"
  have fl: "rs \<noteq> [] \<Longrightarrow> f AND 0x40 \<noteq> 0" using ok by (auto simp: block_ok_def)
  obtain st1 where 1: "consumes True (Some (hd as) # Some a2 # map Some as' @ Some a3 # ?m) st (front_bytes I t f rs d) ?m st1"
      "unat (current_size st1) \<le> max (unat (current_size x)) (length R) + length d"
      "awaits (length d) D x b (hd as) (wire_block t f (rev (take (length rs) R)) (replicate (length d) 0)) (f AND 0x08 \<noteq> 0) st1"
    using block_front_consumed [OF st e I rs fl a(2) sz] by blast
  have "map Some as @ m = map Some (hd as # a2 # as' @ a3 # drop (3 + 2 * length rs) as) @ m"
    using a(1) by (rule arg_cong)
  then have m: "map Some as @ m = Some (hd as) # Some a2 # map Some as' @ Some a3 # ?m" by simp
  have snt: "sent st1 = sent x" using 1(3) by (simp add: awaits_def)
  obtain st2 where 2: "finishes d st1 st2" "if f AND 0x08 \<noteq> 0
     then p6_status st2 = PARSER_STATUS_DONE \<and> p6_bundle st2 = None \<and> has_callback st2 = has_callback x \<and>
       (has_callback x \<and> bundle_is_valid b' \<longrightarrow> sent st2 = sent x @ [b'])
     else block_at D st2 b' st2 \<and> current_block_entry st2 = length (blocks b') \<and> current_size st2 = current_size st1 \<and>
       has_callback st2 = has_callback x \<and> sent st2 = sent x"
    using block_data_read [OF 1(3)] unfolding b'_def Let_def by blast
  show ?thesis
    unfolding m
  proof (intro exI conjI)
    show "if f AND 0x08 \<noteq> 0 then p6_status st2 = PARSER_STATUS_DONE \<and> p6_bundle st2 = None \<and> has_callback st2 = has_callback x \<and>
       (has_callback x \<and> bundle_is_valid b' \<longrightarrow> sent st2 = sent x @ [b'])
     else block_at D st2 b' st2 \<and> current_block_entry st2 = length (blocks b') \<and>
       unat (current_size st2) \<le> max (unat (current_size x)) (length R) + length d \<and>
       has_callback st2 = has_callback x \<and> sent st2 = sent x"
      using 1(2) 2(2) by (cases "f AND 0x08 = 0") simp_all
  qed (rule 1(1) 2(1) snt)+
qed

lemma blocks_consumed:
  "block_at D x b st \<Longrightarrow> current_block_entry x = length (blocks b) \<Longrightarrow> wire_ok ws \<Longrightarrow> length as = allocs ws \<Longrightarrow>
    list_all2 (readable D) I R \<Longrightarrow> length R < 65536 \<Longrightarrow> length (refs_of ws) \<le> length R \<Longrightarrow>
    max (unat (current_size x)) (length R) + data_size ws \<le> 1073741824 \<Longrightarrow>
    \<exists>st1 st2. consumes True (map Some as @ m) st (front_part I ws) m st1 \<and> finishes (last_data ws) st1 st2 \<and>
      sent st1 = sent x \<and> p6_status st2 = PARSER_STATUS_DONE \<and> p6_bundle st2 = None \<and>
      (has_callback x \<and> bundle_is_valid (add_all R as ws b) \<longrightarrow> sent st2 = sent x @ [add_all R as ws b])"
proof (induction ws arbitrary: x b st as rule: wire_ok.induct)
  case 1
  then show ?case by simp
next
  case (2 t f rs d)
  have "length as = 3 + 2 * length rs + 0" "length rs \<le> length R" "block_ok (t, f, rs, d)" "f AND 0x08 \<noteq> 0"
      "max (unat (current_size x)) (length R) + length d \<le> 1073741824"
    using 2(3,4,7,8) by (simp_all add: allocs_def refs_of_def data_size_def)
  then show ?case
    using block_consumed [OF 2(1,2,5,6), of rs t f d as 0 m] by auto
next
  case (3 t f rs d w ws)
  let ?as = "drop (3 + 2 * length rs) as"
  have ok: "block_ok (t, f, rs, d)" "f AND 0x08 = 0" "wire_ok (w # ws)" using 3(4) by auto
  have as: "length as = 3 + 2 * length rs + allocs (w # ws)" using 3(5) by (simp add: allocs_def split_beta)
  have as': "length ?as = allocs (w # ws)" using as by simp
  have le: "length rs \<le> length R" "length (refs_of (w # ws)) \<le> length R" using 3(8) by (simp_all add: refs_of_def split_beta)
  have sz: "max (unat (current_size x)) (length R) + length d + data_size (w # ws) \<le> 1073741824"
    using 3(9) by (simp add: data_size_def split_beta)
  let ?b = "add_block (hd as) (wire_block t f (rev (take (length rs) R)) d) b"
  obtain st1 st2 where 1: "consumes True (map Some as @ m) st (front_bytes I t f rs d) (map Some ?as @ m) st1" "finishes d st1 st2"
      "block_at D st2 ?b st2" "current_block_entry st2 = length (blocks ?b)"
      "unat (current_size st2) \<le> max (unat (current_size x)) (length R) + length d"
      "has_callback st2 = has_callback x" "sent st2 = sent x"
    using block_consumed [OF 3(2,3,6,7) le(1) ok(1) as, of m] sz ok(2) by auto
  have sz2: "max (unat (current_size st2)) (length R) + data_size (w # ws) \<le> 1073741824" using sz 1(5) by simp
  obtain st3 st4 where 2: "consumes True (map Some ?as @ m) st2 (front_part I (w # ws)) m st3" "finishes (last_data (w # ws)) st3 st4"
      "sent st3 = sent st2" "p6_status st4 = PARSER_STATUS_DONE" "p6_bundle st4 = None"
      "has_callback st2 \<and> bundle_is_valid (add_all R ?as (w # ws) ?b) \<longrightarrow> sent st4 = sent st2 @ [add_all R ?as (w # ws) ?b]"
    using "3.IH" [OF 1(3,4) ok(3) as' 3(6,7) le(2) sz2] by blast
  have "consumes True (map Some as @ m) st (front_bytes I t f rs d @ d @ front_part I (w # ws)) m st3"
    using consumes_trans [OF 1(1) consumes_trans [OF finishes_consumed [OF 1(2)] 2(1)]] front_part_nonempty [of "w # ws" I]
    by auto
  then show ?case
    using 2(2-6) 1(6,7) by (intro exI [of _ st3] exI [of _ st4]) (simp add: block_bytes_def)
qed

text \<open>What the wire carries of a bundle.\<close>

definition wire_view where
  "wire_view b = (protocol_version b, proc_flags b, primary_block_length b, destination b, source b, report_to b,
     current_custodian b, creation_timestamp b, sequence_number b, lifetime b, fragment_offset b, total_adu_length b,
     map snd (blocks b))"

text \<open>A block as it is read back: with the first references of all, in reverse order.\<close>

definition read_block :: "string list \<Rightarrow> wire \<Rightarrow> bundle_block" where
  "read_block R = (\<lambda>(t, f, rs, d). wire_block t f (rev (take (length rs) R)) d)"

definition refs_as_read :: "bundle_t \<Rightarrow> bundle_t" where
  "refs_as_read b = (let R = concat (map (eid_refs \<circ> snd) (blocks b)) in
     b\<lparr>blocks := map (\<lambda>(a, blk). (a, blk\<lparr>eid_refs := rev (take (length (eid_refs blk)) R)\<rparr>)) (blocks b)\<rparr>)"

lemma wire_view_add_all:
  "wire_view (add_all R as ws b) = wire_view (b\<lparr>blocks := blocks b @ map (Pair 0 \<circ> read_block R) ws\<rparr>)"
proof (induction R as ws b rule: add_all.induct)
  case (2 R as t f rs d ws b)
  then show ?case by (simp add: wire_view_def add_block_def read_block_def comp_def)
qed (simp add: wire_view_def)

lemma refs_of_blocks:
  "map snd bl = map the_block ws \<Longrightarrow> concat (map (eid_refs \<circ> snd) bl) = map Some (refs_of ws)"
proof (induction ws arbitrary: bl)
  case (Cons w ws)
  then obtain x bl' where bl: "bl = x # bl'" "snd x = the_block w" "map snd bl' = map the_block ws"
    by (auto simp: map_eq_Cons_conv)
  then show ?case using Cons.IH [OF bl(3)] by (cases w) (simp add: refs_of_def the_block_def wire_block_def)
qed (simp add: refs_of_def)

lemma blocks_as_read:
  assumes "map snd (blocks b) = map the_block ws"
  shows "map snd (blocks (refs_as_read b)) = map (read_block (refs_of ws)) ws"
proof -
  have "map snd (blocks (refs_as_read b)) =
      map (\<lambda>blk. blk\<lparr>eid_refs := rev (take (length (eid_refs blk)) (map Some (refs_of ws)))\<rparr>) (map snd (blocks b))"
    by (simp add: refs_as_read_def refs_of_blocks [OF assms, unfolded comp_def] Let_def split_beta comp_def)
  also have "\<dots> = map (read_block (refs_of ws)) ws"
    unfolding assms by (auto simp: the_block_def read_block_def wire_block_def rev_map take_map)
  finally show ?thesis .
qed

text \<open>With at most one reference in the bundle, the blocks are read as they were.\<close>

lemma refs_as_read_same:
  assumes "length (concat (map (eid_refs \<circ> snd) (blocks b))) \<le> 1"
  shows "refs_as_read b = b"
proof -
  let ?R = "concat (map (eid_refs \<circ> snd) (blocks b))"
  have "rev (take (length (eid_refs (snd x))) ?R) = eid_refs (snd x)" if x: "x \<in> set (blocks b)" for x
  proof -
    obtain us vs where s: "blocks b = us @ x # vs" using split_list [OF x] by blast
    have one: "length (u @ v @ w) \<le> 1 \<Longrightarrow> rev (take (length v) (u @ v @ w)) = v" for u v w :: "string option list"
      by (cases v; cases u; cases w) simp_all
    have "?R = concat (map (eid_refs \<circ> snd) us) @ eid_refs (snd x) @ concat (map (eid_refs \<circ> snd) vs)" by (simp add: s)
    then show ?thesis using one assms by metis
  qed
  then have "map (\<lambda>(a, blk). (a, blk\<lparr>eid_refs := rev (take (length (eid_refs blk)) ?R)\<rparr>)) (blocks b) = blocks b"
    by (intro map_idI) (auto simp: split_beta)
  then show ?thesis by (simp add: refs_as_read_def Let_def)
qed

lemma add_all_payload:
  "payload_block b \<noteq> None \<or> (\<exists>w \<in> set ws. fst w = 1) \<Longrightarrow> bundle_is_valid (add_all R as ws b)"
proof (induction R as ws b rule: add_all.induct)
  case (2 R as t f rs d ws b)
  have "payload_block (add_block (hd as) (wire_block t f (rev (take (length rs) R)) d) b) \<noteq> None \<or> (\<exists>w \<in> set ws. fst w = 1)"
    using 2(2) by (auto simp: add_block_def wire_block_def u8_one)
  then show ?case using 2(1) by simp
qed (simp add: bundle_is_valid_def)

section \<open>Writing blocks\<close>

lemma serialize_refs:
  "c + n \<le> length I \<Longrightarrow> serialize_eid_refs I c n = Inr (concat (map eid_info_bytes (take n (drop c I))))"
proof (induction n arbitrary: c)
  case (Suc n)
  then have "drop c I = I ! c # drop (Suc c) I" by (simp add: Cons_nth_drop_Suc)
  then show ?case using Suc by simp
qed simp

lemma wire_fields:
  "blk_flags (wire_block t f rs d) = ucast f" "blk_type (wire_block t f rs d) = ucast t"
  "length (eid_refs (wire_block t f rs d)) = length rs" "blk_data (wire_block t f rs d) = Some d"
  "blk_length (wire_block t f rs d) = of_nat (length d)"
  "has_eid_ref_field (wire_block t f rs d) \<longleftrightarrow> f AND 0x40 \<noteq> 0"
  by (simp_all add: wire_block_def has_eid_ref_field_def flag_tests)

lemma serialize_wire:
  assumes "length rs \<le> length I" and "length d < 2 ^ 32"
  shows "serialize_block I (wire_block t f rs d) = Inr (block_bytes I t f rs d)"
proof -
  have "unat (of_nat (length d) :: u32) = length d" using assms(2) by (simp add: unsigned_of_nat take_bit_nat_eq_self)
  then show ?thesis
    using serialize_refs [of 0 "length rs" I] assms(1)
    by (simp add: serialize_block_def wire_fields copy_bytes_def block_bytes_def front_bytes_def refs_bytes_def write_u8_u32)
qed

lemma serialize_wires:
  "map snd bl = map the_block ws \<Longrightarrow> length (refs_of ws) \<le> length I \<Longrightarrow> data_size ws < 2 ^ 32 \<Longrightarrow>
    serialize_blocks I bl = Inr (concat (map (the_bytes I) ws))"
proof (induction ws arbitrary: bl)
  case (Cons w ws)
  obtain t f rs d where w: "w = (t, f, rs, d)" by (cases w)
  obtain a bl' where bl: "bl = (a, wire_block t f rs d) # bl'" "map snd bl' = map the_block ws"
    using Cons.prems(1) by (auto simp: the_block_def map_eq_Cons_conv w)
  then show ?case
    using serialize_wire [of rs I d t f] Cons.IH [OF bl(2)] Cons.prems(2,3)
    by (simp add: data_size_def the_bytes_def refs_of_def w)
qed simp

lemma wire_ok_blocks: "wire_ok ws \<Longrightarrow> w \<in> set ws \<Longrightarrow> block_ok w"
  by (induction ws rule: wire_ok.induct) auto

lemma count_refs_blocks:
  "map snd bl = map the_block ws \<Longrightarrow> \<forall>w \<in> set ws. block_ok w \<Longrightarrow> count_eid_refs bl = length (refs_of ws)"
proof (induction ws arbitrary: bl)
  case (Cons w ws)
  then obtain x bl' where bl: "bl = x # bl'" "snd x = the_block w" "map snd bl' = map the_block ws"
    by (auto simp: map_eq_Cons_conv)
  moreover have "count_eid_refs bl' = length (refs_of ws)" using Cons.IH [OF bl(3)] Cons.prems(2) by simp
  ultimately show ?case
    using Cons.prems(2)
    by (cases w) (auto simp: refs_of_def count_eid_refs_def the_block_def wire_fields block_ok_def)
qed (simp add: refs_of_def count_eid_refs_def)

section \<open>The whole bundle\<close>

text \<open>
  The bundles the format can carry: version 6 flags only, whole seconds of lifetime, EIDs with a scheme, blocks as
  above with a payload among them, no fragment fields in a bundle that is not a fragment, and a dictionary for
  which the length of the primary block does not overflow.
\<close>

definition v6_bundle :: "bundle_t \<Rightarrow> wire list \<Rightarrow> string \<Rightarrow> string \<Rightarrow> string \<Rightarrow> string \<Rightarrow> bool" where
  "v6_bundle b ws d s r c \<longleftrightarrow> good_bundle_eids b d s r c \<and> length (full_dict d s r c (refs_of ws)) \<le> 60000 \<and>
     proc_flags b AND V6_FLAGS = proc_flags b \<and> lifetime b div 1000000 * 1000000 = lifetime b \<and>
     map snd (blocks b) = map the_block ws \<and> wire_ok ws \<and> (\<exists>w \<in> set ws. fst w = 1) \<and>
     data_size ws \<le> 1073741824 \<and>
     (bundle_is_fragmented b \<or> fragment_offset b = 0 \<and> total_adu_length b = 0)"

lemma v6_refs:
  assumes "v6_bundle b ws d s r c"
  shows "good_refs b (refs_of ws)"
proof -
  have b: "map snd (blocks b) = map the_block ws" "\<forall>w \<in> set ws. block_ok w"
    using assms wire_ok_blocks by (auto simp: v6_bundle_def)
  have "\<forall>e \<in> set (refs_of ws). good_eid e" using b(2) by (auto simp: refs_of_def block_ok_def)
  then show ?thesis
    using refs_of_blocks [OF b(1)] count_refs_blocks [OF b] by (simp add: good_refs_def)
qed

definition primary_tail :: "bundle6_dict_descriptor \<Rightarrow> bytes \<Rightarrow> bundle_t \<Rightarrow> bytes" where
  "primary_tail desc dct b =
     (eid_info_bytes (destination_eid_info desc) @ eid_info_bytes (source_eid_info desc) @
      eid_info_bytes (report_to_eid_info desc) @ eid_info_bytes (custodian_eid_info desc)) @
     snd (sdnv_write_u64 (creation_timestamp b)) @ snd (sdnv_write_u64 (sequence_number b)) @
     snd (sdnv_write_u64 (lifetime b div 1000000)) @
     snd (sdnv_write_u16 (of_nat (dict_length_bytes desc))) @ dct @
     (if HAS_FLAG (proc_flags b) BUNDLE_FLAG_IS_FRAGMENT
      then snd (sdnv_write_u32 (fragment_offset b)) @ snd (sdnv_write_u32 (total_adu_length b)) else [])"

lemma serialize_primary_split:
  "serialize_primary desc dct b = (protocol_version b # snd (sdnv_write_u32 (proc_flags b AND V6_FLAGS)) @
     snd (sdnv_write_u32 (ucast (primary_block_length b)))) @ primary_tail desc dct b"
  by (simp add: serialize_primary_def primary_tail_def)

text \<open>The bundle the parser has built at the end of the primary block.\<close>

definition read_primary :: "bundle_t \<Rightarrow> bundle_t \<Rightarrow> bundle_t" where
  "read_primary b b0 = b0\<lparr>protocol_version := protocol_version b, proc_flags := proc_flags b,
     primary_block_length := primary_block_length b, creation_timestamp := creation_timestamp b,
     sequence_number := sequence_number b, lifetime := lifetime b, source := source b, destination := destination b,
     report_to := report_to b, current_custodian := current_custodian b,
     fragment_offset := (if bundle_is_fragmented b then fragment_offset b else fragment_offset b0),
     total_adu_length := (if bundle_is_fragmented b then total_adu_length b else total_adu_length b0)\<rparr>"

lemma tail_consumed:
  fixes d s rp c :: string and ws :: "wire list"
  defines "dct \<equiv> full_dict d s rp c (refs_of ws)"
  assumes st: "prim PARSER_STAGE_DESTINATION_EID_SCHEME x r st" and xb: "p6_bundle x = Some b1"
    and b1: "proc_flags b1 = proc_flags b"
    and b: "v6_bundle b ws d s rp c" and desc: "desc = the_desc d s rp c (refs_of ws)"
    and fit: "length (primary_tail desc dct b) \<le> r"
    and quota: "unat (current_size x) + length dct + 1 \<le> 1073741824"
  shows "\<exists>st' x' b2. consumes True (Some a0 # Some a1 # Some a2 # Some a3 # Some a4 # m) st (primary_tail desc dct b) m st' \<and>
    block_at dct x' b2 st' \<and> current_block_entry x' = current_block_entry x \<and>
    unat (current_size x') = unat (current_size x) + length dct + 1 \<and> has_callback x' = has_callback x \<and> sent x' = sent x \<and>
    b2 = b1\<lparr>creation_timestamp := creation_timestamp b, sequence_number := sequence_number b, lifetime := lifetime b,
      source := source b, destination := destination b, report_to := report_to b, current_custodian := current_custodian b,
      fragment_offset := (if bundle_is_fragmented b then fragment_offset b else fragment_offset b1),
      total_adu_length := (if bundle_is_fragmented b then total_adu_length b else total_adu_length b1)\<rparr>"
proof -
  note v = b [unfolded v6_bundle_def good_bundle_eids_def]
  let ?m = "Some a1 # Some a2 # Some a3 # Some a4 # m"
  let ?M = "Some a0 # ?m"
  let ?e = "eid_info_bytes (destination_eid_info desc) @ eid_info_bytes (source_eid_info desc) @
      eid_info_bytes (report_to_eid_info desc) @ eid_info_bytes (custodian_eid_info desc)"
  let ?l = "of_nat (length dct) :: u16"
  let ?fr = "if bundle_is_fragmented b then snd (sdnv_write_u32 (fragment_offset b)) @ snd (sdnv_write_u32 (total_adu_length b)) else []"
  have dl: "dict_length_bytes desc = length dct" by (simp add: desc the_desc_def dct_def)
  have lt: "length dct \<le> 60000" using v by (simp add: dct_def)
  have ul: "unat ?l = length dct" using lt by (simp add: unsigned_of_nat take_bit_nat_eq_self)
  define ke kt ks kl kd kf where k: "ke = length ?e" "kt = sdnv_get_size_u64 (creation_timestamp b)"
    "ks = sdnv_get_size_u64 (sequence_number b)" "kl = sdnv_get_size_u64 (lifetime b div 1000000)"
    "kd = sdnv_get_size_u16 ?l" "kf = length ?fr"
  have total: "ke + kt + ks + kl + kd + length dct + kf \<le> r"
    using fit by (simp add: primary_tail_def k dl bundle_is_fragmented_def)
  obtain st1 where 1: "consumes True ?M st ?e ?M st1" "prim PARSER_STAGE_TIMESTAMP (x\<lparr>
      destination_eidref := eidref_of (destination_eid_info desc), source_eidref := eidref_of (source_eid_info desc),
      report_to_eidref := eidref_of (report_to_eid_info desc), custodian_eidref := eidref_of (custodian_eid_info desc)\<rparr>)
      (r - ke) st1"
    using prim_eids [OF st, of "destination_eid_info desc" "source_eid_info desc" "report_to_eid_info desc" "custodian_eid_info desc" ?M]
      total unfolding k by auto
  define x1 where "x1 = x\<lparr>destination_eidref := eidref_of (destination_eid_info desc), source_eidref := eidref_of (source_eid_info desc),
      report_to_eidref := eidref_of (report_to_eid_info desc), custodian_eidref := eidref_of (custodian_eid_info desc)\<rparr>"
  note 1 = 1 [folded x1_def]
  have le: "kt \<le> r - ke" "ks \<le> r - ke - kt" "kl \<le> r - ke - kt - ks" "kd \<le> r - ke - kt - ks - kl"
      "length dct \<le> r - ke - kt - ks - kl - kd" "kf \<le> r - ke - kt - ks - kl - kd - length dct"
    using total by simp_all
  have x1b: "p6_bundle x1 = Some b1" using xb by (simp add: x1_def)
  obtain st2 where 2: "consumes True ?M st1 (snd (sdnv_write_u64 (creation_timestamp b))) ?M st2"
      "prim PARSER_STAGE_SEQUENCE_NUM (x1\<lparr>p6_bundle := Some (b1\<lparr>creation_timestamp := creation_timestamp b\<rparr>)\<rparr>) (r - ke - kt) st2"
    using prim_timestamp [OF 1(2) x1b le(1) [unfolded k(2)], of ?M] unfolding k(2) by blast
  obtain st3 where 3: "consumes True ?M st2 (snd (sdnv_write_u64 (sequence_number b))) ?M st3"
      "prim PARSER_STAGE_LIFETIME (x1\<lparr>p6_bundle := Some (b1\<lparr>creation_timestamp := creation_timestamp b,
        sequence_number := sequence_number b\<rparr>)\<rparr>) (r - ke - kt - ks) st3"
    using prim_sequence [OF 2(2) _ le(2) [unfolded k(3)], of _ ?M] unfolding k(3) by auto
  define b3 where "b3 = b1\<lparr>creation_timestamp := creation_timestamp b, sequence_number := sequence_number b, lifetime := lifetime b\<rparr>"
  have lf: "lifetime b = lifetime b div 1000000 * 1000000" using v by simp
  obtain st4 where 4: "consumes True ?M st3 (snd (sdnv_write_u64 (lifetime b div 1000000))) ?M st4"
      "prim PARSER_STAGE_DICT_LENGTH (x1\<lparr>p6_bundle := Some b3\<rparr>) (r - ke - kt - ks - kl) st4"
    using prim_lifetime [OF 3(2) _ le(3) [unfolded k(4)] lf, of _ ?M] unfolding k(4) b3_def by auto
  have ne: "dct \<noteq> []" by (simp add: dct_def full_dict_def main_dict_def eid_entry_def)
  have lnz: "?l \<noteq> 0" using ul ne by (metis length_0_conv unat_0)
  have cs: "unat (current_size x + (ucast ?l + 1)) = unat (current_size x) + length dct + 1"
  proof -
    have "unat (ucast ?l + 1 :: u32) = length dct + 1" using ul lt by (simp add: unat_word_ariths)
    then show ?thesis using quota by (simp add: unat_word_ariths)
  qed
  have q: "current_size (x1\<lparr>p6_bundle := Some b3\<rparr>) + (ucast ?l + 1) \<le> 1073741824"
    using cs quota by (simp add: x1_def word_le_nat_alt)
  define x2 where "x2 = x1\<lparr>p6_bundle := Some b3, dict_length := ?l, current_size := current_size x + (ucast ?l + 1)\<rparr>"
  obtain st5 where 5: "consumes True ?M st4 (snd (sdnv_write_u16 ?l)) ?m st5"
      "dict_at x2 [] (unat ?l) (r - ke - kt - ks - kl - kd) st5"
    using dict_length_consumed [OF 4(2) le(4) [unfolded k(5)] lnz q, of a0 ?m] unfolding k(5) x2_def by (auto simp: x1_def)
  have bl: "dct = butlast dct @ [last dct]" "length (butlast dct) = length dct - 1" using ne by simp_all
  have lb: "length (butlast dct) \<le> r - ke - kt - ks - kl - kd" using le(5) by simp
  have "dict_at x2 [] (Suc (length (butlast dct))) (r - ke - kt - ks - kl - kd) st5"
    using 5(2) ul ne by simp
  from dict_bytes_consumed [OF this lb, of ?m]
  obtain st6 where 6: "consumes True ?m st5 (butlast dct) ?m st6"
      "dict_at x2 (butlast dct) (Suc 0) (r - ke - kt - ks - kl - kd - length (butlast dct)) st6" by auto
  define r7 where "r7 = r - ke - kt - ks - kl - kd - length dct"
  have r7: "r - ke - kt - ks - kl - kd - length (butlast dct) = Suc r7"
    using le(5) ne unfolding r7_def by (cases dct) auto
  have rdb: "readable dct (destination_eid_info desc) d" "readable dct (source_eid_info desc) s"
    "readable dct (report_to_eid_info desc) rp" "readable dct (custodian_eid_info desc) c"
    using readable_dict [of d s rp c "refs_of ws"] v v6_refs [OF b] by (simp_all add: dct_def desc good_refs_def)
  define b4 where "b4 = b3\<lparr>source := Some s, destination := Some d, report_to := Some rp, current_custodian := Some c\<rparr>"
  have fr: "bundle_is_fragmented b3 = bundle_is_fragmented b" using b1 by (simp add: b3_def bundle_is_fragmented_def)
  obtain st7 where 7: "consumes True ?m st6 [last dct] m st7"
      "if bundle_is_fragmented b then
         \<exists>y. prim PARSER_STAGE_FRAGMENT_OFFSET y r7 st7 \<and> p6_bundle y = Some b4 \<and>
           current_block_entry y = current_block_entry x2 \<and> current_size y = current_size x2 \<and>
           has_callback y = has_callback x2 \<and> sent y = sent x2 \<and> has_dict dct y
       else block_at dct x2 b4 st7"
    using dict_last_consumed [OF 6(2) [unfolded r7], of b3 "last dct" dct "destination_eid_info desc" d "source_eid_info desc" s
        "report_to_eid_info desc" rp "custodian_eid_info desc" c a1 a2 a3 a4 m] rdb bl(1)
    unfolding Let_def fr b4_def [symmetric] by (auto simp: x2_def x1_def)
  define b5 where "b5 = b4\<lparr>fragment_offset := (if bundle_is_fragmented b then fragment_offset b else fragment_offset b1),
      total_adu_length := (if bundle_is_fragmented b then total_adu_length b else total_adu_length b1)\<rparr>"
  have "\<exists>st8 x8. consumes True m st7 ?fr m st8 \<and> block_at dct x8 b5 st8 \<and> current_block_entry x8 = current_block_entry x2 \<and>
      current_size x8 = current_size x2 \<and> has_callback x8 = has_callback x2 \<and> sent x8 = sent x2"
  proof (cases "bundle_is_fragmented b")
    case False
    then have "b5 = b4" by (simp add: b5_def b4_def b3_def)
    then show ?thesis using 7(2) False consumes_nil by auto
  next
    case True
    then obtain y where y: "prim PARSER_STAGE_FRAGMENT_OFFSET y r7 st7" "p6_bundle y = Some b4"
        "current_block_entry y = current_block_entry x2" "current_size y = current_size x2"
        "has_callback y = has_callback x2" "sent y = sent x2" "has_dict dct y" using 7(2) by auto
    have "sdnv_get_size_u32 (fragment_offset b) + sdnv_get_size_u32 (total_adu_length b) \<le> r7"
      using le(6) True by (simp add: r7_def k(6))
    from fragment_consumed [OF y(1,2,7) this, of m] y(3-6) True show ?thesis by (auto simp: b5_def)
  qed
  then obtain st8 x8 where 8: "consumes True m st7 ?fr m st8" "block_at dct x8 b5 st8"
      "current_block_entry x8 = current_block_entry x2" "current_size x8 = current_size x2"
      "has_callback x8 = has_callback x2" "sent x8 = sent x2" by blast
  have "consumes True ?M st (?e @ snd (sdnv_write_u64 (creation_timestamp b)) @ snd (sdnv_write_u64 (sequence_number b)) @
      snd (sdnv_write_u64 (lifetime b div 1000000)) @ snd (sdnv_write_u16 ?l) @ butlast dct @ [last dct] @ ?fr) m st8"
    using 1(1) 2(1) 3(1) 4(1) 5(1) 6(1) 7(1) 8(1) by (blast intro: consumes_trans)
  moreover have "primary_tail desc dct b = ?e @ snd (sdnv_write_u64 (creation_timestamp b)) @ snd (sdnv_write_u64 (sequence_number b)) @
      snd (sdnv_write_u64 (lifetime b div 1000000)) @ snd (sdnv_write_u16 ?l) @ butlast dct @ [last dct] @ ?fr"
    using bl(1) by (simp add: primary_tail_def dl bundle_is_fragmented_def)
  ultimately have c8: "consumes True ?M st (primary_tail desc dct b) m st8" by simp
  have b5: "b5 = b1\<lparr>creation_timestamp := creation_timestamp b, sequence_number := sequence_number b, lifetime := lifetime b,
      source := source b, destination := destination b, report_to := report_to b, current_custodian := current_custodian b,
      fragment_offset := (if bundle_is_fragmented b then fragment_offset b else fragment_offset b1),
      total_adu_length := (if bundle_is_fragmented b then total_adu_length b else total_adu_length b1)\<rparr>"
    using v by (simp add: b5_def b4_def b3_def)
  show ?thesis
  proof (intro exI conjI)
    show "consumes True ?M st (primary_tail desc dct b) m st8" by (rule c8)
    show "block_at dct x8 b5 st8" by (rule 8(2))
    show "unat (current_size x8) = unat (current_size x) + length dct + 1" using 8(4) cs by (simp add: x2_def)
    show "b5 = b1\<lparr>creation_timestamp := creation_timestamp b, sequence_number := sequence_number b, lifetime := lifetime b,
      source := source b, destination := destination b, report_to := report_to b, current_custodian := current_custodian b,
      fragment_offset := (if bundle_is_fragmented b then fragment_offset b else fragment_offset b1),
      total_adu_length := (if bundle_is_fragmented b then total_adu_length b else total_adu_length b1)\<rparr>" by (rule b5)
  qed (use 8(3,5,6) in \<open>simp_all add: x2_def x1_def\<close>)
qed

text \<open>A whole serialized bundle, read by a fresh parser up to its last data.\<close>

lemma bundle_consumed:
  fixes d s rp c :: string and ws :: "wire list"
  defines "dct \<equiv> full_dict d s rp c (refs_of ws)" and "desc \<equiv> the_desc d s rp c (refs_of ws)" and "R \<equiv> refs_of ws"
  assumes f: "fresh b0 st" and b0: "blocks b0 = []" and b: "v6_bundle b ws d s rp c"
    and fit: "length (primary_tail desc dct b) \<le> unat (primary_block_length b)"
    and quota: "unat (current_size st) + length dct + 1 + data_size ws \<le> 1073741824"
    and as: "length as = allocs ws"
  shows "\<exists>st1 st2. consumes True (Some a0 # Some a1 # Some a2 # Some a3 # Some a4 # map Some as @ m) st
      (serialize_primary desc dct b @ front_part (eid_references desc) ws) m st1 \<and>
    finishes (last_data ws) st1 st2 \<and> p6_status st2 = PARSER_STATUS_DONE \<and> p6_bundle st2 = None \<and>
    (has_callback st \<longrightarrow> sent st2 = sent st @ [add_all R as ws (read_primary b b0)])"
proof -
  let ?M = "Some a0 # Some a1 # Some a2 # Some a3 # Some a4 # map Some as @ m"
  let ?I = "eid_references desc"
  have fl: "proc_flags b AND V6_FLAGS = proc_flags b" and w: "wire_ok ws" "\<exists>w \<in> set ws. fst w = 1"
    using b by (simp_all add: v6_bundle_def)
  let ?b1 = "b0\<lparr>protocol_version := protocol_version b, proc_flags := proc_flags b, primary_block_length := primary_block_length b\<rparr>"
  obtain st1 where 1: "consumes True ?M st (protocol_version b # snd (sdnv_write_u32 (proc_flags b)) @
      snd (sdnv_write_u32 (ucast (primary_block_length b)))) ?M st1"
      "prim PARSER_STAGE_DESTINATION_EID_SCHEME (st\<lparr>p6_bundle := Some ?b1\<rparr>) (unat (primary_block_length b)) st1"
    using front_consumed [OF f, of ?M "protocol_version b" "proc_flags b" "primary_block_length b"] by blast
  have qu: "unat (current_size (st\<lparr>p6_bundle := Some ?b1\<rparr>)) + length dct + 1 \<le> 1073741824" using quota by simp
  obtain st2 x2 b2 where 2: "consumes True ?M st1 (primary_tail desc dct b) (map Some as @ m) st2"
      "block_at dct x2 b2 st2" "current_block_entry x2 = current_block_entry st"
      "unat (current_size x2) = unat (current_size st) + length dct + 1"
      "has_callback x2 = has_callback st" "sent x2 = sent st" "b2 = read_primary b b0"
    using tail_consumed [OF 1(2) _ _ b refl fit [unfolded dct_def desc_def] qu [unfolded dct_def], of ?b1 a0 a1 a2 a3 a4 "map Some as @ m"]
    unfolding read_primary_def dct_def desc_def by (auto cong: if_cong)
  have e: "current_block_entry x2 = length (blocks b2)" using 2(3,7) f b0 by (simp add: read_primary_def fresh_def)
  have lt: "length dct \<le> 60000" using b by (simp add: v6_bundle_def dct_def)
  have R: "length R < 65536" "length R \<le> unat (current_size x2)"
    using refs_fit [of R d s rp c] lt 2(4) by (simp_all add: dct_def R_def)
  have I: "list_all2 (readable dct) ?I R"
    using readable_dict(5) [of d s rp c R] b v6_refs [OF b] lt
    by (simp add: v6_bundle_def good_bundle_eids_def good_refs_def dct_def desc_def the_desc_def R_def)
  have q2: "max (unat (current_size x2)) (length R) + data_size ws \<le> 1073741824" using 2(4) quota R(2) by simp
  obtain st3 st4 where 3: "consumes True (map Some as @ m) st2 (front_part ?I ws) m st3" "finishes (last_data ws) st3 st4"
      "p6_status st4 = PARSER_STATUS_DONE" "p6_bundle st4 = None"
      "has_callback x2 \<and> bundle_is_valid (add_all R as ws b2) \<longrightarrow> sent st4 = sent x2 @ [add_all R as ws b2]"
    using blocks_consumed [OF 2(2) e w(1) as I R(1) _ q2, of m] by (auto simp: R_def)
  have "consumes True ?M st (((protocol_version b # snd (sdnv_write_u32 (proc_flags b)) @
      snd (sdnv_write_u32 (ucast (primary_block_length b)))) @ primary_tail desc dct b) @ front_part ?I ws) m st3"
    using 1(1) 2(1) 3(1) by (blast intro: consumes_trans)
  then show ?thesis
    using 3(2-5) 2(5-7) add_all_payload [of b2 ws R as] w(2)
    by (intro exI [of _ st3] exI [of _ st4]) (simp add: serialize_primary_split fl)
qed

text \<open>The bulk read of the receiving task completes what the buffer did not.\<close>

lemma bulk_read_finishes:
  assumes f: "finishes d st1 st2" and s: "p6_status st2 = PARSER_STATUS_DONE" "p6_bundle st2 = None"
  shows "\<exists>st3. bulk_read usage sz [Some k] st1 (d @ rest) later = Inr (rest, st3, []) \<and> sent st3 = sent st2"
proof -
  obtain st0 where 0: "bulk_copy d st1 = Inr st0" "bundle6_parser_read_byte [Some k] 0 st0 = Inr (st2, [Some k])"
    "next_bytes st1 = length d" using f by (auto simp: finishes_def)
  obtain st3 where 3: "rx_task_reset_parsers usage sz [Some k] st2 = Inr (st3, [])" "sent st3 = sent st2"
    using s by (simp add: rx_task_reset_parsers_def bundle6_parser_reset_def bundle_init_def Let_def c_assert_def)
  have "bulk_read usage sz [Some k] st1 (d @ rest) later = Inr (rest, st3, [])"
    using 0 3(1) s(1) by (simp add: bulk_read_def bundle6_parser_read_def)
  then show ?thesis using 3(2) by blast
qed

section \<open>Header lengths\<close>

lemma size_bounds: "sdnv_get_size_u16 v \<le> 3" "sdnv_get_size_u32 w \<le> 5" "sdnv_get_size_u64 x \<le> 10"
  by (simp_all add: sdnv_get_size_u16_def sdnv_get_size_u32_def sdnv_get_size_u64_def)

lemma eid_info_size: "eid_info_size_u32 i = length (eid_info_bytes i)"
  by (simp add: eid_info_size_u32_def eid_info_bytes_def)

lemma dict_size_u32: "n < 65536 \<Longrightarrow> sdnv_get_size_u32 (of_nat n) = sdnv_get_size_u16 (of_nat n)"
proof -
  assume n: "n < 65536"
  have "unat (of_nat n :: u32) = unat (ucast (of_nat n :: u16) :: u32)"
    using n by (simp add: unsigned_of_nat take_bit_nat_eq_self)
  then have "(of_nat n :: u32) = ucast (of_nat n :: u16)" by (simp only: word_unat_eq_iff)
  then show ?thesis by (metis size_u16_u32)
qed

text \<open>The recalculated length counts the fields in front of the length too, with the size of the old length.\<close>

lemma recalculated:
  fixes d s r c :: string and ws :: "wire list"
  defines "desc \<equiv> the_desc d s r c (refs_of ws)" and "dct \<equiv> full_dict d s r c (refs_of ws)"
  assumes b: "v6_bundle b ws d s r c"
  shows "\<exists>h. bundle6_recalculate_header_length_internal (Some a # m) b = Inr (desc, b\<lparr>primary_block_length := h\<rparr>, m) \<and>
    unat h = 1 + sdnv_get_size_u32 (proc_flags b) + sdnv_get_size_u16 (primary_block_length b) + length (primary_tail desc dct b)"
proof -
  have g: "good_bundle_eids b d s r c" "length dct \<le> 60000" using b by (simp_all add: v6_bundle_def dct_def)
  have dl: "dict_length_bytes desc = length dct" by (simp add: desc_def the_desc_def dct_def)
  let ?t = "length (primary_tail desc dct b)"
  let ?n = "1 + sdnv_get_size_u32 (proc_flags b) + sdnv_get_size_u16 (primary_block_length b) + ?t"
  have li: "length (eid_info_bytes i) \<le> 6" for i
    using size_bounds(1) [of "dict_scheme_offset i"] size_bounds(1) [of "dict_ssp_offset i"] by (simp add: eid_info_bytes_def)
  have "?t \<le> 4 * 6 + 3 * 10 + 3 + 60000 + 10"
    using g(2) li [of "destination_eid_info desc"] li [of "source_eid_info desc"] li [of "report_to_eid_info desc"]
      li [of "custodian_eid_info desc"] size_bounds(3) [of "creation_timestamp b"] size_bounds(3) [of "sequence_number b"]
      size_bounds(3) [of "lifetime b div 1000000"] size_bounds(1) [of "of_nat (length dct)"]
      size_bounds(2) [of "fragment_offset b"] size_bounds(2) [of "total_adu_length b"]
    by (simp add: primary_tail_def dl)
  then have small: "?n < 65536"
    using size_bounds(2) [of "proc_flags b"] size_bounds(1) [of "primary_block_length b"] by simp
  have "bundle6_recalculate_header_length_internal (Some a # m) b =
      Inr (desc, b\<lparr>primary_block_length := of_nat ?n\<rparr>, m)"
    unfolding bundle6_recalculate_header_length_internal_def
      calculate_dict_good [OF g(1) v6_refs [OF b], folded desc_def] obind_Inr prod.case
    using g(2) by (simp add: eid_info_size primary_tail_def dl dict_size_u32 add.assoc flip: of_nat_add)
  moreover have "unat (of_nat ?n :: u16) = ?n" using small by (simp add: unsigned_of_nat take_bit_nat_eq_self del: of_nat_add of_nat_Suc)
  ultimately show ?thesis by blast
qed

lemma primary_tail_update [simp]: "primary_tail desc dct (b\<lparr>primary_block_length := l\<rparr>) = primary_tail desc dct b"
  by (simp add: primary_tail_def cong: if_cong)

lemma v6_bundle_length: "v6_bundle (b\<lparr>primary_block_length := h\<rparr>) ws d s r c = v6_bundle b ws d s r c"
  by (simp add: v6_bundle_def good_bundle_eids_def bundle_is_fragmented_def)

lemma serialized:
  fixes d s r c :: string and ws :: "wire list"
  defines "desc \<equiv> the_desc d s r c (refs_of ws)"
  assumes b: "v6_bundle b ws d s r c"
  shows "bundle6_serialize (Some a # Some a' # m) b = Inr (UPCN_OK,
    serialize_primary desc (full_dict d s r c (refs_of ws)) b @ concat (map (the_bytes (eid_references desc)) ws), m)"
proof -
  have g: "good_bundle_eids b d s r c" "map snd (blocks b) = map the_block ws" "data_size ws < 2 ^ 32"
    using b by (simp_all add: v6_bundle_def)
  have l: "length (refs_of ws) \<le> length (eid_references desc)" by (simp add: desc_def the_desc_def ref_infos_def)
  show ?thesis
    unfolding bundle6_serialize_def calculate_dict_good [OF g(1) v6_refs [OF b], folded desc_def] obind_Inr prod.case malloc.simps
      option.case Let_def serialize_dictionary_good [OF g(1) v6_refs [OF b], folded desc_def] serialize_wires [OF g(2) l g(3)]
    by (simp add: the_desc_def desc_def)
qed

text \<open>The bytes of the first \<open>n\<close> references.\<close>

definition ref_sizes :: "bundle6_eid_info list \<Rightarrow> nat \<Rightarrow> nat" where
  "ref_sizes I n = length (concat (map eid_info_bytes (take n I)))"

lemma ref_sizes_add: "ref_sizes I (m + n) = ref_sizes I m + ref_sizes (drop m I) n"
  by (simp add: ref_sizes_def take_add)

lemma eid_ref_sizes_eq: "c + n \<le> length I \<Longrightarrow> eid_ref_sizes I c n = Inr (ref_sizes (drop c I) n)"
proof (induction n arbitrary: c)
  case (Suc n)
  then have "drop c I = I ! c # drop (Suc c) I" by (simp add: Cons_nth_drop_Suc)
  then show ?case using Suc by (simp add: ref_sizes_def eid_info_bytes_def [of "I ! c"])
qed (simp add: ref_sizes_def)

text \<open>The size loop goes through the references, the serializer starts from the first one for every block.\<close>

lemma size_loop:
  "map snd bl = map the_block ws \<Longrightarrow> \<forall>w \<in> set ws. block_ok w \<Longrightarrow> off + length (refs_of ws) \<le> length I \<Longrightarrow> data_size ws < 2 ^ 32 \<Longrightarrow>
    \<exists>k. serialized_size_loop I False True True pr off n bl = Inr k \<and>
      k + sum_list (map (\<lambda>(t, f, rs, d). ref_sizes I (length rs)) ws) =
      n + length (concat (map (the_bytes I) ws)) + ref_sizes (drop off I) (length (refs_of ws))"
proof (induction ws arbitrary: bl pr off n)
  case Nil
  then show ?case by (simp add: refs_of_def ref_sizes_def)
next
  case (Cons w ws)
  obtain t f rs d where w: "w = (t, f, rs, d)" by (cases w)
  obtain a bl' where bl: "bl = (a, wire_block t f rs d) # bl'" "map snd bl' = map the_block ws"
    using Cons.prems(1) by (auto simp: the_block_def map_eq_Cons_conv w)
  have refs: "length (refs_of (w # ws)) = length rs + length (refs_of ws)" by (simp add: refs_of_def w)
  have sz: "data_size ws < 2 ^ 32" "length d < 2 ^ 32" using Cons.prems(4) by (simp_all add: data_size_def w)
  have ud: "unat (of_nat (length d) :: u32) = length d" using sz(2) by (simp add: unsigned_of_nat take_bit_nat_eq_self)
  have own: "eid_ref_sizes I off (length rs) = Inr (ref_sizes (drop off I) (length rs))"
    using Cons.prems(3) refs by (intro eid_ref_sizes_eq) simp
  let ?cnt = "if f AND 0x40 \<noteq> 0 then length rs else 0"
  have cnt: "?cnt = length rs" using Cons.prems(2) by (auto simp: w block_ok_def)
  let ?e = "if f AND 0x40 \<noteq> 0 then ref_sizes (drop off I) (length rs) + sdnv_get_size_u16 (of_nat (length rs)) else 0"
  let ?n = "n + (1 + sdnv_get_size_u8 f + sdnv_get_size_u32 (of_nat (length d)) + ?e) + length d"
  obtain k where k: "serialized_size_loop I False True True (pr \<or> t = 1) (off + length rs) ?n bl' = Inr k"
      "k + sum_list (map (\<lambda>(t, f, rs, d). ref_sizes I (length rs)) ws) =
       ?n + length (concat (map (the_bytes I) ws)) + ref_sizes (drop (off + length rs) I) (length (refs_of ws))"
    using Cons.IH [OF bl(2), of "off + length rs" "pr \<or> t = 1" ?n] Cons.prems(2,3) refs sz(1) by auto
  have "serialized_size_loop I False True True pr off n bl = Inr k"
    using k(1) own cnt by (cases "f AND 0x40 = 0") (simp_all add: bl(1) wire_fields ud u8_one Let_def)
  moreover have "length (the_bytes I w) + ref_sizes (drop off I) (length rs) =
      1 + sdnv_get_size_u8 f + sdnv_get_size_u32 (of_nat (length d)) + ?e + length d + ref_sizes I (length rs)"
    using cnt by (cases "f AND 0x40 = 0")
      (auto simp: w the_bytes_def block_bytes_def front_bytes_def refs_bytes_def ref_sizes_def)
  ultimately show ?case
    using k(2) ref_sizes_add [of "drop off I" "length rs" "length (refs_of ws)"]
    by (intro exI [of _ k]) (simp add: w refs [unfolded w] add.commute [of "length rs" off])
qed

lemma init_fresh:
  assumes "bundle6_parser_init usage sz [Some i1, Some i2] True p0 = (Some st, m)"
  shows "\<exists>b0. fresh b0 st \<and> blocks b0 = [] \<and> fragment_offset b0 = 0 \<and> total_adu_length b0 = 0 \<and>
    current_size st = usage + sz \<and> has_callback st \<and> sent st = []"
  using assms by (auto simp: bundle6_parser_init_def bundle6_parser_reset_def bundle_init_def Let_def fresh_def)

section \<open>Properties\<close>

definition sample_v6 :: bundle_t where
  "sample_v6 = sample_bundle\<lparr>protocol_version := 6, proc_flags := 0x90, current_custodian := Some ''dtn:none'',
     total_adu_length := 0, primary_block_length := 0,
     blocks := [(50, wire_block 5 0x41 [''dtn:x''] []), (55, wire_block 6 0x40 [''dtn:y'', ''dtn:z''] [9]),
       (60, wire_block 1 0x08 [] [1, 2, 3])], payload_block := Some 60\<rparr>"

definition sample_wires :: "wire list" where
  "sample_wires = [(5, 0x41, [''dtn:x''], []), (6, 0x40, [''dtn:y'', ''dtn:z''], [9]), (1, 0x08, [], [1, 2, 3])]"

lemma sample_v6_ok: "v6_bundle sample_v6 sample_wires ''dtn:b'' ''dtn:a'' ''dtn:none'' ''dtn:none''"
  by (simp add: v6_bundle_def sample_v6_def sample_wires_def sample_bundle_def good_bundle_eids_def good_eid_def full_dict_def
      main_dict_def refs_of_def block_ok_def eid_entry_def V6_FLAGS_def the_block_def data_size_def bundle_is_fragmented_def
      HAS_FLAG_def c_chars_def eid_scheme_def eid_ssp_def)

text \<open>
  C1 (roundtrip). The wire format of RFC 5050 bundles, for all that the code can represent: fragment or not, any number of
  extension blocks, with or without data and with any EID references, provided that every EID has a scheme, the lifetime is a
  number of whole seconds, types and flags of blocks take one byte, references are in blocks with the flag for them,
  the last block alone has the flag of the last one, and the dictionary has at most 60000 bytes. With its header
  length recalculated the bundle is serialized, and a freshly initialized parser consumes exactly the bytes written and
  delivers one bundle, a valid one, which has every field and every block as they were sent. Only the references come
  back changed, unless the bundle has at most one: a block with \<open>n\<close> references gets the first \<open>n\<close> of those of all blocks, in reverse
  order. The delivery is immediate when the last block has data; when it is empty the parser waits
  for a bulk read of no bytes, and the bulk read of the receiving task delivers the bundle.
\<close>

theorem bundle6_roundtrip:
  assumes "v6_bundle b0 ws d s r c"
    and "bundle6_parser_init usage sz [Some i1, Some i2] True p0 = (Some st, [])"
    and "unat usage + unat sz + length (full_dict d s r c (refs_of ws)) + 1 + data_size ws \<le> 1073741824"
    and "length as = allocs ws"
  shows "\<exists>b bs st1 st2 b'. bundle6_recalculate_header_length [Some h] b0 = Inr (b, []) \<and>
    bundle6_serialize [Some k1, Some k2] b = Inr (UPCN_OK, bs, []) \<and>
    bundle6_parser_read (map Some (a0 # a1 # a2 # a3 # a4 # as)) st (Some bs) = Inr (length bs, st1, []) \<and>
    (if last_data ws \<noteq> [] then p6_status st1 = PARSER_STATUS_DONE \<and> st2 = st1
     else p6_status st1 = PARSER_STATUS_GOOD \<and> bulk st1 \<and> next_bytes st1 = 0 \<and>
       bulk_read usage' sz' [Some k] st1 rest later = Inr (rest, st2, [])) \<and>
    sent st2 = [b'] \<and> bundle_is_valid b' \<and> wire_view b' = wire_view (refs_as_read b) \<and>
    (length (refs_of ws) \<le> 1 \<longrightarrow> wire_view b' = wire_view b)"
proof -
  let ?D = "full_dict d s r c (refs_of ws)" and ?desc = "the_desc d s r c (refs_of ws)"
  obtain l where l: "bundle6_recalculate_header_length_internal [Some h] b0 = Inr (?desc, b0\<lparr>primary_block_length := l\<rparr>, [])"
      "unat l \<ge> length (primary_tail ?desc ?D b0)"
    using recalculated [OF assms(1), of h "[]"] by auto
  define b where "b = b0\<lparr>primary_block_length := l\<rparr>"
  have v: "v6_bundle b ws d s r c" using assms(1) by (simp add: b_def v6_bundle_length)
  let ?bs = "(serialize_primary ?desc ?D b @ front_part (eid_references ?desc) ws) @ last_data ws"
  have ser: "bundle6_serialize [Some k1, Some k2] b = Inr (UPCN_OK, ?bs, [])"
    using serialized [OF v, of k1 k2 "[]"] front_part_data [of "eid_references ?desc" ws] by simp
  have fit: "length (primary_tail ?desc ?D b) \<le> unat (primary_block_length b)" using l(2) by (simp add: b_def)
  obtain e where e: "fresh e st" "blocks e = []" "fragment_offset e = 0" "total_adu_length e = 0"
      "current_size st = usage + sz" "has_callback st" "sent st = []"
    using init_fresh [OF assms(2)] by blast
  have q: "unat (current_size st) + length ?D + 1 + data_size ws \<le> 1073741824"
    using assms(3) e(5) by (simp add: unat_word_ariths)
  let ?M = "map Some (a0 # a1 # a2 # a3 # a4 # as)" and ?b' = "add_all (refs_of ws) as ws (read_primary b e)"
  obtain st1 st' where st': "consumes True ?M st (serialize_primary ?desc ?D b @ front_part (eid_references ?desc) ws) [] st1"
      "finishes (last_data ws) st1 st'" "p6_status st' = PARSER_STATUS_DONE" "p6_bundle st' = None" "sent st' = [?b']"
    using bundle_consumed [OF e(1,2) v fit q assms(4), of a0 a1 a2 a3 a4 "[]"] e(6,7) by auto
  have "\<exists>st1 st2. bundle6_parser_read ?M st (Some ?bs) = Inr (length ?bs, st1, []) \<and> sent st2 = [?b'] \<and>
    (if last_data ws \<noteq> [] then p6_status st1 = PARSER_STATUS_DONE \<and> st2 = st1
     else p6_status st1 = PARSER_STATUS_GOOD \<and> bulk st1 \<and> next_bytes st1 = 0 \<and>
       bulk_read usage' sz' [Some k] st1 rest later = Inr (rest, st2, []))"
  proof (cases "last_data ws = []")
    case False
    then have "consumes True ?M st ?bs [] st'" using consumes_trans [OF st'(1) finishes_consumed [OF st'(2)]] by simp
    then have "bundle6_parser_read ?M st (Some ?bs) = Inr (length ?bs, st', [])" by (rule consumed_read)
    then show ?thesis using False st'(3,5) by (intro exI [of _ st']) simp
  next
    case True
    obtain st3 where 3: "bulk_read usage' sz' [Some k] st1 ([] @ rest) later = Inr (rest, st3, [])" "sent st3 = sent st'"
      using bulk_read_finishes [OF st'(2-4)] unfolding True by blast
    have "bundle6_parser_read ?M st (Some ?bs) = Inr (length ?bs, st1, [])" using consumed_read [OF st'(1)] True by simp
    then show ?thesis using True st'(2,5) 3 by (intro exI [of _ st1] exI [of _ st3]) (simp add: finishes_def)
  qed
  moreover have view: "wire_view ?b' = wire_view (refs_as_read b)"
    unfolding wire_view_add_all
    using v e(2-4) blocks_as_read [of b ws]
    by (auto simp: wire_view_def read_primary_def v6_bundle_def comp_def refs_as_read_def Let_def)
  moreover have "wire_view ?b' = wire_view b" if "length (refs_of ws) \<le> 1"
  proof -
    have "length (concat (map (eid_refs \<circ> snd) (blocks b))) \<le> 1"
      using that v6_refs [OF v] unfolding good_refs_def by (metis length_map)
    then show ?thesis using view refs_as_read_same by simp
  qed
  moreover have "bundle_is_valid ?b'" using add_all_payload v by (simp add: v6_bundle_def)
  moreover have "bundle6_recalculate_header_length [Some h] b0 = Inr (b, [])"
    using l(1) by (simp add: bundle6_recalculate_header_length_def b_def)
  ultimately show ?thesis using ser by blast
qed

theorem bundle6_roundtrip_witness:
  "\<exists>b bs st st' b'. bundle6_parser_init 0 200 [Some 1, Some 2] True undefined = (Some st, []) \<and>
    bundle6_recalculate_header_length [Some 3] sample_v6 = Inr (b, []) \<and>
    bundle6_serialize [Some 4, Some 5] b = Inr (UPCN_OK, bs, []) \<and>
    bundle6_parser_read (map Some [6..<26]) st (Some bs) = Inr (length bs, st', []) \<and>
    p6_status st' = PARSER_STATUS_DONE \<and> sent st' = [b'] \<and> bundle_is_valid b' \<and>
    map (eid_refs \<circ> snd) (blocks b') = [[Some ''dtn:x''], [Some ''dtn:y'', Some ''dtn:x''], []]"
proof -
  obtain st where st: "bundle6_parser_init 0 200 [Some 1, Some 2] True undefined = (Some st, [])"
    by (simp add: bundle6_parser_init_def bundle6_parser_reset_def bundle_init_def Let_def)
  have "unat (0 :: u32) + unat (200 :: u32) + length (full_dict ''dtn:b'' ''dtn:a'' ''dtn:none'' ''dtn:none'' (refs_of sample_wires)) + 1 +
      data_size sample_wires \<le> 1073741824"
    by (simp add: full_dict_def main_dict_def refs_of_def eid_entry_def eid_scheme_def eid_ssp_def data_size_def sample_wires_def)
  moreover have "length [11..<26] = allocs sample_wires" by (simp add: sample_wires_def allocs_def)
  moreover have "last_data sample_wires \<noteq> []" by (simp add: sample_wires_def)
  ultimately obtain b bs st' b' where r: "bundle6_recalculate_header_length [Some 3] sample_v6 = Inr (b, [])"
      "bundle6_serialize [Some 4, Some 5] b = Inr (UPCN_OK, bs, [])"
      "bundle6_parser_read (map Some (6 # 7 # 8 # 9 # 10 # [11..<26])) st (Some bs) = Inr (length bs, st', [])"
      "p6_status st' = PARSER_STATUS_DONE" "sent st' = [b']" "bundle_is_valid b'" "wire_view b' = wire_view (refs_as_read b)"
    using bundle6_roundtrip [OF sample_v6_ok st, where as = "[11..<26]" and h = 3 and ?k1.0 = 4 and ?k2.0 = 5
        and ?a0.0 = 6 and ?a1.0 = 7 and ?a2.0 = 8 and ?a3.0 = 9 and ?a4.0 = 10] by auto
  have "blocks b = blocks sample_v6"
    using r(1) by (auto simp: bundle6_recalculate_header_length_def bundle6_recalculate_header_length_internal_def
        obind_eq_Inr)
  then have "map snd (blocks b') = map snd (blocks (refs_as_read sample_v6))"
    using r(7) by (simp add: wire_view_def refs_as_read_def Let_def)
  then have "map eid_refs (map snd (blocks b')) = [[Some ''dtn:x''], [Some ''dtn:y'', Some ''dtn:x''], []]"
    by (simp add: refs_as_read_def sample_v6_def wire_block_def Let_def)
  moreover have "map Some (6 # 7 # 8 # 9 # 10 # [11..<26]) = map Some [6..<26]" by (simp add: upt_rec)
  ultimately show ?thesis using st r by auto
qed

text \<open>
  C36 (bounds). The announced size of a bundle of that kind and the number of bytes its serialization takes: they agree up to
  three terms, the encoded sizes of the header length before and after its recalculation, for a
  fragment the two fragment fields, which the size counts twice, and the references: the size counts every reference
  of the bundle once, the serializer writes for every block with \<open>n\<close> references the first \<open>n\<close> of all.
\<close>

theorem bundle6_serialized_size:
  assumes "v6_bundle b ws d s r c"
  shows "\<exists>desc n b' bs. bundle6_calculate_dict (Some a # m) b = Inr (desc, m) \<and>
    bundle6_get_serialized_size (Some a # m) b = Inr (n, b', m) \<and>
    bundle6_serialize (Some k1 # Some k2 # m) b' = Inr (UPCN_OK, bs, m) \<and>
    n + sdnv_get_size_u16 (primary_block_length b') +
      sum_list (map (\<lambda>blk. ref_sizes (eid_references desc) (length (eid_refs blk))) (map snd (blocks b))) =
    length bs + sdnv_get_size_u16 (primary_block_length b) + ref_sizes (eid_references desc) (length (eid_references desc)) +
      (if bundle_is_fragmented b \<and> payload_block b \<noteq> None
       then sdnv_get_size_u32 (total_adu_length b) + sdnv_get_size_u32 (fragment_offset b) else 0)"
proof -
  let ?desc = "the_desc d s r c (refs_of ws)" and ?D = "full_dict d s r c (refs_of ws)"
  let ?I = "eid_references ?desc"
  obtain l where l: "bundle6_recalculate_header_length_internal (Some a # m) b = Inr (?desc, b\<lparr>primary_block_length := l\<rparr>, m)"
      "unat l = 1 + sdnv_get_size_u32 (proc_flags b) + sdnv_get_size_u16 (primary_block_length b) +
        length (primary_tail ?desc ?D b)"
    using recalculated [OF assms, of a m] by auto
  define b' where "b' = b\<lparr>primary_block_length := l\<rparr>"
  have v: "v6_bundle b' ws d s r c" using assms by (simp add: b'_def v6_bundle_length)
  let ?bs = "serialize_primary ?desc ?D b' @ concat (map (the_bytes ?I) ws)"
  have w: "map snd (blocks b') = map the_block ws" "\<forall>w \<in> set ws. block_ok w" "data_size ws < 2 ^ 32"
      "proc_flags b' AND V6_FLAGS = proc_flags b'"
    using v wire_ok_blocks by (auto simp: v6_bundle_def)
  have I: "length ?I = length (refs_of ws)" by (simp add: the_desc_def ref_infos_def)
  have len: "length ?bs + sdnv_get_size_u16 (primary_block_length b) =
      unat l + length (concat (map (the_bytes ?I) ws)) + sdnv_get_size_u16 l"
    using l(2) w(4) by (simp add: serialize_primary_split b'_def)
  obtain k where k: "serialized_size_loop ?I False True True False 0 (unat l) (blocks b') = Inr k"
      "k + sum_list (map (\<lambda>(t, f, rs, d). ref_sizes ?I (length rs)) ws) =
       unat l + length (concat (map (the_bytes ?I) ws)) + ref_sizes ?I (length ?I)"
    using size_loop [OF w(1,2), of 0 ?I False "unat l"] w(3) I by auto
  have "map (\<lambda>blk. ref_sizes ?I (length (eid_refs blk))) (map snd (blocks b)) = map (\<lambda>(t, f, rs, d). ref_sizes ?I (length rs)) ws"
  proof -
    have "map snd (blocks b) = map the_block ws" using w(1) by (simp add: b'_def)
    then show ?thesis by (auto simp: the_block_def wire_fields simp del: map_map) (auto simp: wire_fields)
  qed
  moreover have "bundle6_get_serialized_size (Some a # m) b = Inr (k +
      (if bundle_is_fragmented b \<and> payload_block b \<noteq> None
       then sdnv_get_size_u32 (total_adu_length b) + sdnv_get_size_u32 (fragment_offset b) else 0), b', m)"
    using k(1) unfolding bundle6_get_serialized_size_def get_serialized_size_def l(1) obind_Inr prod.case b'_def [symmetric]
    by (auto simp: b'_def bundle_is_fragmented_def)
  moreover have "bundle6_calculate_dict (Some a # m) b = Inr (?desc, m)"
    using calculate_dict_good v6_refs [OF assms] assms by (simp add: v6_bundle_def)
  ultimately show ?thesis using serialized [OF v, of k1 k2 m] len k(2) by (auto simp: b'_def)
qed

theorem bundle6_serialized_size_witness:
  "\<exists>desc n b' bs. bundle6_calculate_dict [Some 1] sample_v6 = Inr (desc, []) \<and>
    bundle6_get_serialized_size [Some 1] sample_v6 = Inr (n, b', []) \<and>
    bundle6_serialize [Some 2, Some 3] b' = Inr (UPCN_OK, bs, []) \<and>
    n + sdnv_get_size_u16 (primary_block_length b') + (ref_sizes (eid_references desc) 1 + ref_sizes (eid_references desc) 2) =
      length bs + 1 + ref_sizes (eid_references desc) (length (eid_references desc))"
  using bundle6_serialized_size [OF sample_v6_ok, of 1 "[]" 2 3]
  by (simp add: sample_v6_def sample_bundle_def bundle_is_fragmented_def HAS_FLAG_def sdnv_get_size_u16_def wire_fields
      ref_sizes_def numeral_2_eq_2)

end
