(* ===== verification/Bundle7.thy ===== *)
theory Bundle7
  imports Bundle
begin

text \<open>
  BPv7-bis bundles: the lengths of CBOR items, endpoint identifiers, primary and extension blocks and
  the minimum sizes of fragments, \<open>components/bundle7/bundle7.c\<close>. A \<open>size_t\<close> is a 64-bit word, as
  \<open>bundle7_eid_sizeof\<close> subtracts from a string length that may be smaller. The encoder and the parser of
  the components directory rest on a CBOR library that is not part of the repository.
\<close>

section \<open>Constants\<close>

abbreviation (input) "BUNDLE_CRC_TYPE_32 \<equiv> (2 :: u32)"
abbreviation (input) "BUNDLE_BLOCK_FLAG_REPORT_IF_UNPROC \<equiv> (0x02 :: u32)"
abbreviation (input) "BUNDLE_BLOCK_FLAG_DELETE_BUNDLE_IF_UNPROC \<equiv> (0x04 :: u32)"
abbreviation (input) "BUNDLE_BLOCK_FLAG_DISCARD_IF_UNPROC \<equiv> (0x10 :: u32)"
abbreviation (input) "BUNDLE_V7_EID_SCHEMA_DTN \<equiv> (1 :: u64)"
abbreviation (input) "BUNDLE_V7_EID_SCHEMA_IPN \<equiv> (2 :: u64)"

section \<open>CBOR integers and endpoint identifiers\<close>

definition bundle7_cbor_uint_sizeof :: "u64 \<Rightarrow> u64" where
  "bundle7_cbor_uint_sizeof num =
     (if num \<le> 0xFFFF then
        if num \<le> 0xFF then if num \<le> 23 then 1 else 2
        else 3
      else if num \<le> 0xFFFFFFFF then 5
      else 9)"

text \<open>
  The conversion \<open>%u\<close> of \<open>sscanf\<close>: leading white space and a sign are accepted, the number is that of
  \<open>strtoul\<close>, which saturates at the largest \<open>unsigned long\<close>, and is stored in 32 bits.
\<close>

definition c_isspace :: "char \<Rightarrow> bool" where
  "c_isspace c \<longleftrightarrow> c = CHR '' '' \<or> ((9 :: nat) \<le> of_char c \<and> (of_char c :: nat) \<le> 13)"

definition c_isdigit :: "char \<Rightarrow> bool" where
  "c_isdigit c \<longleftrightarrow> (48 :: nat) \<le> of_char c \<and> (of_char c :: nat) \<le> 57"

definition decimal :: "string \<Rightarrow> nat" where
  "decimal ds = foldl (\<lambda>n d. 10 * n + (of_char d - 48)) 0 ds"

definition scan_u32 :: "string \<Rightarrow> (u32 \<times> string) option" where
  "scan_u32 s =
     (let s1 = dropWhile c_isspace s;
          signed = (s1 \<noteq> [] \<and> (hd s1 = CHR ''+'' \<or> hd s1 = CHR ''-''));
          s2 = (if signed then tl s1 else s1);
          ds = takeWhile c_isdigit s2;
          n = (of_nat (min (decimal ds) (2 ^ 64 - 1)) :: u64)
      in if ds = [] then None
         else Some (ucast (if signed \<and> hd s1 = CHR ''-'' \<and> decimal ds < 2 ^ 64 then - n else n),
                    dropWhile c_isdigit s2))"

text \<open>\<open>sscanf (eid, "ipn:%u.%u", ...)\<close>, when both numbers are converted.\<close>

definition scan_ipn :: "string \<Rightarrow> (u32 \<times> u32) option" where
  "scan_ipn s =
     (if take 4 s \<noteq> ''ipn:'' then None
      else case scan_u32 (drop 4 s) of
        None \<Rightarrow> None
      | Some (node, rest) \<Rightarrow>
          if rest = [] \<or> hd rest \<noteq> CHR ''.'' then None
          else case scan_u32 (tl rest) of None \<Rightarrow> None | Some (service, _) \<Rightarrow> Some (node, service))"

definition bundle7_eid_sizeof :: "string option \<Rightarrow> u64" where
  "bundle7_eid_sizeof eid = (case eid of
       None \<Rightarrow> 3
     | Some e \<Rightarrow>
         if e = ''dtn:none'' then 3
         else if e \<noteq> [] \<and> hd e = CHR ''d'' then
           let len = of_nat (length e) - 4
           in 1 + bundle7_cbor_uint_sizeof BUNDLE_V7_EID_SCHEMA_DTN + bundle7_cbor_uint_sizeof len + len
         else (case scan_ipn e of
             None \<Rightarrow> 0
           | Some (node, service) \<Rightarrow>
               1 + bundle7_cbor_uint_sizeof BUNDLE_V7_EID_SCHEMA_IPN + 1 +
               bundle7_cbor_uint_sizeof (ucast node) + bundle7_cbor_uint_sizeof (ucast service)))"

section \<open>Blocks\<close>

definition bundle7_convert_to_protocol_block_flags :: "bundle_block \<Rightarrow> u16" where
  "bundle7_convert_to_protocol_block_flags block =
     (let flags = (ucast (blk_flags block AND
            (BUNDLE_BLOCK_FLAG_MUST_BE_REPLICATED OR BUNDLE_BLOCK_FLAG_DISCARD_IF_UNPROC
             OR BUNDLE_BLOCK_FLAG_REPORT_IF_UNPROC OR BUNDLE_BLOCK_FLAG_DELETE_BUNDLE_IF_UNPROC)) :: u8)
      in ucast flags)"

definition crc_field_size :: "u32 \<Rightarrow> u64" where
  "crc_field_size t = (if t = BUNDLE_CRC_TYPE_32 then 5 else if t = BUNDLE_CRC_TYPE_16 then 3 else 0)"

definition bundle7_recalculate_primary_block_length :: "bundle_t \<Rightarrow> bundle_t" where
  "bundle7_recalculate_primary_block_length b =
     (let size = 1 + bundle7_cbor_uint_sizeof (ucast (protocol_version b))
            + bundle7_cbor_uint_sizeof (ucast (proc_flags b))
            + bundle7_cbor_uint_sizeof (ucast (crc_type b))
            + bundle7_eid_sizeof (destination b) + bundle7_eid_sizeof (source b)
            + bundle7_eid_sizeof (report_to b)
            + 1 + bundle7_cbor_uint_sizeof (creation_timestamp b)
            + bundle7_cbor_uint_sizeof (sequence_number b) + bundle7_cbor_uint_sizeof (lifetime b);
          size = (if bundle_is_fragmented b
            then size + bundle7_cbor_uint_sizeof (ucast (fragment_offset b))
                   + bundle7_cbor_uint_sizeof (ucast (total_adu_length b))
            else size)
      in b\<lparr>primary_block_length := ucast (size + crc_field_size (crc_type b))\<rparr>)"

definition bundle7_block_get_serialized_size :: "bundle_block \<Rightarrow> u64" where
  "bundle7_block_get_serialized_size block =
     1 + bundle7_cbor_uint_sizeof (ucast (blk_type block))
       + bundle7_cbor_uint_sizeof (ucast (blk_number block))
       + bundle7_cbor_uint_sizeof (ucast (bundle7_convert_to_protocol_block_flags block))
       + bundle7_cbor_uint_sizeof (ucast (blk_crc_type block))
       + bundle7_cbor_uint_sizeof (ucast (blk_length block))
       + ucast (blk_length block)
       + crc_field_size (blk_crc_type block)"

fun blocks_size :: "block_list \<Rightarrow> u64" where
  "blocks_size [] = 0"
| "blocks_size ((a, blk) # rest) = bundle7_block_get_serialized_size blk + blocks_size rest"

definition bundle7_get_serialized_size :: "bundle_t \<Rightarrow> u64" where
  "bundle7_get_serialized_size b = 1 + ucast (primary_block_length b) + blocks_size (blocks b) + 1"

text \<open>The loop ends at the payload block; without one it runs off the list.\<close>

fun size_before_payload :: "block_list \<Rightarrow> u64 outcome" where
  "size_before_payload [] = Inl Null_Deref"
| "size_before_payload ((a, blk) # rest) =
     (if blk_type blk = BUNDLE_BLOCK_TYPE_PAYLOAD then Inr 0
      else obind (size_before_payload rest) (\<lambda>n. Inr (bundle7_block_get_serialized_size blk + n)))"

definition bundle7_get_serialized_size_without_payload :: "bundle_t \<Rightarrow> u64 outcome" where
  "bundle7_get_serialized_size_without_payload b =
     obind (size_before_payload (blocks b)) (\<lambda>size. Inr (1 + ucast (primary_block_length b) + size + 1))"

section \<open>Minimum sizes of fragments\<close>

definition payload_header_size :: "bundle_block \<Rightarrow> u64" where
  "payload_header_size blk =
     1 + bundle7_cbor_uint_sizeof (ucast (blk_type blk)) + bundle7_cbor_uint_sizeof (ucast (blk_number blk))
       + bundle7_cbor_uint_sizeof (ucast (blk_flags blk)) + bundle7_cbor_uint_sizeof (ucast (blk_crc_type blk))
       + bundle7_cbor_uint_sizeof (ucast (blk_length blk)) + crc_field_size (blk_crc_type blk) + 2"

fun first_fragment_size :: "block_list \<Rightarrow> u64" where
  "first_fragment_size [] = 0"
| "first_fragment_size ((a, blk) # rest) =
     (if blk_type blk = BUNDLE_BLOCK_TYPE_PAYLOAD then payload_header_size blk
      else bundle7_block_get_serialized_size blk) + first_fragment_size rest"

fun last_fragment_size :: "block_list \<Rightarrow> u64" where
  "last_fragment_size [] = 0"
| "last_fragment_size ((a, blk) # rest) =
     (if blk_type blk = BUNDLE_BLOCK_TYPE_PAYLOAD then payload_header_size blk
      else if HAS_FLAG (blk_flags blk) BUNDLE_BLOCK_FLAG_MUST_BE_REPLICATED
      then bundle7_block_get_serialized_size blk
      else 0) + last_fragment_size rest"

text \<open>What a bundle that is a fragment already adds for its two fields, which it has.\<close>

definition fragment_fields_size :: "bundle_t \<Rightarrow> u64 outcome" where
  "fragment_fields_size b =
     (if bundle_is_fragmented b
      then obind (deref_payload b) (\<lambda>pl. Inr (bundle7_cbor_uint_sizeof (ucast (blk_length pl)) + 1))
      else Inr 0)"

definition bundle7_get_first_fragment_min_size :: "bundle_t \<Rightarrow> u64 outcome" where
  "bundle7_get_first_fragment_min_size b =
     obind (fragment_fields_size b) (\<lambda>extra. Inr
       (ucast (primary_block_length b) + (first_fragment_size (blocks b) + extra)))"

definition bundle7_get_last_fragment_min_size :: "bundle_t \<Rightarrow> u64 outcome" where
  "bundle7_get_last_fragment_min_size b =
     obind (fragment_fields_size b) (\<lambda>extra. Inr
       (ucast (primary_block_length b) + (last_fragment_size (blocks b) + extra)))"

end
