(* ===== verification/Fragment.thy ===== *)
theory Fragment
  imports Bundle6 Bundle7
begin

text \<open>
  Proactive fragmentation: \<open>components/upcn/bundle_fragmenter.c\<close>, \<open>components/bundle6/fragment.c\<close>,
  \<open>components/bundle7/fragment.c\<close> and the operations of \<open>components/upcn/bundle.c\<close> that choose between
  the two protocol versions. An operation that changes the bundle it is given returns the changed
  bundle; the result of fragmentation is no bundle, the working bundle itself, or a new remainder.
\<close>

section \<open>Operations of both protocol versions\<close>

definition bundle_recalculate_header_length ::
  "alloc_trace \<Rightarrow> bundle_t \<Rightarrow> (upcn_result \<times> bundle_t \<times> alloc_trace) outcome" where
  "bundle_recalculate_header_length m b =
     (if protocol_version b = 6 then
        obind (bundle6_recalculate_header_length m b) (\<lambda>(b1, m1). Inr (UPCN_OK, b1, m1))
      else if protocol_version b = 7 then Inr (UPCN_OK, bundle7_recalculate_primary_block_length b, m)
      else Inr (UPCN_FAIL, b, m))"

text \<open>The RFC 5050 sizes also store a new header length; they are converted to \<open>size_t\<close>.\<close>

definition size_by_version ::
  "(alloc_trace \<Rightarrow> bundle_t \<Rightarrow> (nat \<times> bundle_t \<times> alloc_trace) outcome) \<Rightarrow> (bundle_t \<Rightarrow> u64 outcome) \<Rightarrow>
   alloc_trace \<Rightarrow> bundle_t \<Rightarrow> (u64 \<times> bundle_t \<times> alloc_trace) outcome" where
  "size_by_version v6 v7 m b =
     (if protocol_version b = 6 then obind (v6 m b) (\<lambda>(n, b1, m1). Inr (of_nat n, b1, m1))
      else if protocol_version b = 7 then obind (v7 b) (\<lambda>n. Inr (n, b, m))
      else Inr (0, b, m))"

definition bundle_get_serialized_size ::
  "alloc_trace \<Rightarrow> bundle_t \<Rightarrow> (u64 \<times> bundle_t \<times> alloc_trace) outcome" where
  "bundle_get_serialized_size =
     size_by_version bundle6_get_serialized_size (Inr \<circ> bundle7_get_serialized_size)"

definition bundle_get_first_fragment_min_size ::
  "alloc_trace \<Rightarrow> bundle_t \<Rightarrow> (u64 \<times> bundle_t \<times> alloc_trace) outcome" where
  "bundle_get_first_fragment_min_size =
     size_by_version bundle6_get_first_fragment_min_size bundle7_get_first_fragment_min_size"

definition bundle_get_mid_fragment_min_size ::
  "alloc_trace \<Rightarrow> bundle_t \<Rightarrow> (u64 \<times> bundle_t \<times> alloc_trace) outcome" where
  "bundle_get_mid_fragment_min_size =
     size_by_version bundle6_get_mid_fragment_min_size bundle7_get_last_fragment_min_size"

definition bundle_get_last_fragment_min_size ::
  "alloc_trace \<Rightarrow> bundle_t \<Rightarrow> (u64 \<times> bundle_t \<times> alloc_trace) outcome" where
  "bundle_get_last_fragment_min_size =
     size_by_version bundle6_get_last_fragment_min_size bundle7_get_last_fragment_min_size"

section \<open>New fragments\<close>

definition bundlefragmenter_create_new_fragment ::
  "alloc_trace \<Rightarrow> bundle_t \<Rightarrow> bool \<Rightarrow> (bundle_t option \<times> alloc_trace) outcome" where
  "bundlefragmenter_create_new_fragment m prototype init_payload = (case malloc m of
       (None, m1) \<Rightarrow> Inr (None, m1)
     | (Some _, m1) \<Rightarrow>
         let (f, m2) = bundle_copy_headers m1 prototype in
         obind (if bundle_is_fragmented prototype then Inr (total_adu_length prototype)
                else obind (deref_payload prototype) (\<lambda>pl. Inr (blk_length pl))) (\<lambda>total.
         let fragment = f\<lparr>bundle_id := BUNDLE_INVALID_ID, total_adu_length := total,
               proc_flags := proc_flags f OR BUNDLE_FLAG_IS_FRAGMENT\<rparr> in
         if init_payload then (case bundle_block_create m2 BUNDLE_BLOCK_TYPE_PAYLOAD of
             (None, m3) \<Rightarrow> Inr (None, m3)
           | (Some (a, fragment_pl), m3) \<Rightarrow>
               obind (deref_payload prototype) (\<lambda>pl. case malloc m3 of
                   (None, m4) \<Rightarrow> Inr (None, m4)
                 | (Some _, m4) \<Rightarrow> Inr (Some (fragment\<lparr>
                     blocks := [(a, fragment_pl\<lparr>blk_flags := blk_flags pl\<rparr>)], payload_block := Some a\<rparr>), m4)))
         else Inr (Some (fragment\<lparr>blocks := [], payload_block := None\<rparr>), m2)))"

fun find_payload :: "block_list \<Rightarrow> addr option" where
  "find_payload [] = None"
| "find_payload ((a, blk) # rest) =
     (if blk_type blk = BUNDLE_BLOCK_TYPE_PAYLOAD then Some a else find_payload rest)"

text \<open>A failed duplication of the blocks leaves a null list, in which no payload block is found.\<close>

definition bundlefragmenter_initialize_first_fragment ::
  "alloc_trace \<Rightarrow> bundle_t \<Rightarrow> (bundle_t option \<times> alloc_trace) outcome" where
  "bundlefragmenter_initialize_first_fragment m input =
     obind (bundlefragmenter_create_new_fragment m input False) (\<lambda>(res, m1). case res of
         None \<Rightarrow> Inr (None, m1)
       | Some result \<Rightarrow>
           obind (bundle_block_list_dup m1 (blocks input)) (\<lambda>(dup, m2).
           let bl = (case dup of None \<Rightarrow> [] | Some l \<Rightarrow> l) in
           (case find_payload bl of
              None \<Rightarrow> Inr (None, m2)
            | Some a \<Rightarrow>
                obind (bundle_recalculate_header_length m2 (result\<lparr>blocks := bl, payload_block := Some a\<rparr>))
                  (\<lambda>(status, result', m3). Inr (if status = UPCN_FAIL then None else Some result', m3)))))"

section \<open>Splitting a bundle\<close>

datatype fragment_result = Fragment_None | Fragment_Whole | Fragment_Remainder bundle_t

text \<open>\<open>memcpy\<close> of \<open>n\<close> bytes from offset \<open>off\<close> of a buffer.\<close>

definition copy_from :: "bytes option \<Rightarrow> nat \<Rightarrow> nat \<Rightarrow> bytes outcome" where
  "copy_from src off n =
     (if n = 0 then Inr []
      else case src of None \<Rightarrow> Inl Null_Deref
        | Some bs \<Rightarrow> if length bs < off + n then Inl Out_Of_Bounds else Inr (take n (drop off bs)))"

text \<open>\<open>realloc\<close> to at most the old size, with its assertion; the trace decides also for no bytes.\<close>

definition shorten :: "alloc_trace \<Rightarrow> bytes option \<Rightarrow> nat \<Rightarrow> (bytes option \<times> alloc_trace) outcome" where
  "shorten m data n = (case malloc m of
       (None, m1) \<Rightarrow> Inl Assert_Failed
     | (Some _, m1) \<Rightarrow> Inr (map_option (take n) data, m1))"

text \<open>Copies of the blocks that every fragment must have; the payload is not one of them.\<close>

fun dup_replicated :: "alloc_trace \<Rightarrow> block_list \<Rightarrow> (block_list option \<times> alloc_trace) outcome" where
  "dup_replicated m [] = Inr (Some [], m)"
| "dup_replicated m ((a, blk) # rest) =
     (if bundle_block_must_be_replicated blk \<and> blk_type blk \<noteq> BUNDLE_BLOCK_TYPE_PAYLOAD
      then obind (bundle_block_entry_dup m blk) (\<lambda>(dup, m1). case dup of
          None \<Rightarrow> Inr (None, m1)
        | Some entry \<Rightarrow> obind (dup_replicated m1 rest) (\<lambda>(ds, m2).
            Inr (map_option (\<lambda>l. entry # l) ds, m2)))
      else dup_replicated m rest)"

text \<open>
  With replicated blocks before the payload, \<open>item\<close> is the address of the last copy's null \<open>next\<close>
  pointer, and \<open>(*item)->next\<close> is written through it.
\<close>

definition replicate_blocks :: "alloc_trace \<Rightarrow> bundle_t \<Rightarrow> bundle_t \<Rightarrow>
    (upcn_result \<times> bundle_t \<times> bundle_t \<times> alloc_trace) outcome" where
  "replicate_blocks m first second =
     obind (dup_replicated m (blocks first)) (\<lambda>(before, m1). case before of
         None \<Rightarrow> Inr (UPCN_FAIL, first, second, m1)
       | Some list \<Rightarrow>
           if list \<noteq> [] then Inl Null_Deref
           else obind (dup_replicated m1 (blocks second)) (\<lambda>(after, m2). case after of
               None \<Rightarrow> Inr (UPCN_FAIL, first, second, m2)
             | Some list' \<Rightarrow>
                 if list' = [] then Inr (UPCN_OK, first, second, m2)
                 else c_assert (blocks first \<noteq> [])
                   (Inr (UPCN_OK, first\<lparr>blocks :=
                      butlast (blocks first) @
                      [(fst (last (blocks first)), (snd (last (blocks first)))
                         \<lparr>blk_flags := blk_flags (snd (last (blocks first))) AND NOT BUNDLE_V6_BLOCK_FLAG_LAST_BLOCK\<rparr>)]
                      @ list'\<rparr>, second, m2))))"

definition recalculate_both :: "alloc_trace \<Rightarrow> bundle_t \<Rightarrow> bundle_t \<Rightarrow>
    (fragment_result \<times> bundle_t \<times> alloc_trace) outcome" where
  "recalculate_both m working remainder =
     obind (bundle_recalculate_header_length m working) (\<lambda>(status, working', m1).
       if status = UPCN_FAIL then Inr (Fragment_None, working', m1)
       else obind (bundle_recalculate_header_length m1 remainder) (\<lambda>(status', remainder', m2).
         Inr (if status' = UPCN_FAIL then Fragment_None else Fragment_Remainder remainder', working', m2)))"

definition set_total_adu_length :: "bundle_t \<Rightarrow> bundle_block \<Rightarrow> bundle_t" where
  "set_total_adu_length b pl =
     (if bundle_is_fragmented b then b else b\<lparr>total_adu_length := blk_length pl\<rparr>)"

text \<open>
  The working bundle's blocks up to the payload block, which becomes the last one, and what follows.
\<close>

definition split_at_payload :: "addr \<Rightarrow> block_list \<Rightarrow> block_list \<times> block_list" where
  "split_at_payload a bl =
     (case dropWhile (\<lambda>(a', _). a' \<noteq> a) bl of
        [] \<Rightarrow> (bl, [])
      | (a', pl) # rest \<Rightarrow> (takeWhile (\<lambda>(a', _). a' \<noteq> a) bl @
          [(a', pl\<lparr>blk_flags := blk_flags pl OR BUNDLE_V6_BLOCK_FLAG_LAST_BLOCK\<rparr>)], rest))"

definition bundle6_fragment_bundle ::
  "alloc_trace \<Rightarrow> bundle_t \<Rightarrow> u64 \<Rightarrow> (fragment_result \<times> bundle_t \<times> alloc_trace) outcome" where
  "bundle6_fragment_bundle m b first_max =
     obind (bundle_get_first_fragment_min_size m b) (\<lambda>(min_size, b1, m1).
     obind (deref_payload b1) (\<lambda>pl.
     let first_payload_length = (ucast (first_max - min_size) :: u32) in
     if first_payload_length \<ge> blk_length pl then Inr (Fragment_Whole, b1, m1)
     else obind (bundlefragmenter_create_new_fragment m1 b1 True) (\<lambda>(res, m2). case res of
         None \<Rightarrow> Inr (Fragment_None, b1, m2)
       | Some rem \<Rightarrow>
           let b2 = set_total_adu_length b1 pl; rem_length = blk_length pl - first_payload_length in
           (case malloc m2 of
              (None, m3) \<Rightarrow> Inr (Fragment_None, b2, m3)
            | (Some _, m3) \<Rightarrow>
                obind (copy_from (blk_data pl) (unat first_payload_length) (unat rem_length)) (\<lambda>rem_data.
                obind (shorten m3 (blk_data pl) (unat first_payload_length)) (\<lambda>(first_data, m4).
                let (front, back) = split_at_payload (the (payload_block b2)) (blocks b2);
                    b3 = b2\<lparr>blocks := update_block (the (payload_block b2))
                      (\<lambda>blk. blk\<lparr>blk_data := first_data, blk_length := first_payload_length\<rparr>) front\<rparr>;
                    rem1 = rem\<lparr>blocks := map (\<lambda>(a, blk).
                        (a, blk\<lparr>blk_length := rem_length, blk_data := Some rem_data\<rparr>)) (blocks rem) @ back,
                      fragment_offset := fragment_offset b2 + first_payload_length\<rparr>
                in obind (replicate_blocks m4 b3 rem1) (\<lambda>(_, b4, rem2, m5).
                   recalculate_both m5
                     (b4\<lparr>proc_flags := proc_flags b4 OR BUNDLE_FLAG_IS_FRAGMENT\<rparr>) rem2)))))))"

definition bundle7_fragment_bundle ::
  "alloc_trace \<Rightarrow> bundle_t \<Rightarrow> u64 \<Rightarrow> (fragment_result \<times> bundle_t \<times> alloc_trace) outcome" where
  "bundle7_fragment_bundle m b first_max =
     obind (bundle_get_first_fragment_min_size m b) (\<lambda>(first_min, b1, m1).
     if first_min > first_max then Inr (Fragment_None, b1, m1)
     else obind (deref_payload b1) (\<lambda>pl.
     let first_payload_length = (ucast (first_max - first_min) :: u32) in
     if first_payload_length \<ge> blk_length pl then Inr (Fragment_Whole, b1, m1)
     else obind (bundlefragmenter_create_new_fragment m1 b1 False) (\<lambda>(res, m2). case res of
         None \<Rightarrow> Inr (Fragment_None, b1, m2)
       | Some rem \<Rightarrow>
           obind (dup_replicated m2 (blocks b1)) (\<lambda>(dups, m3). case dups of
               None \<Rightarrow> Inr (Fragment_None, b1, m3)
             | Some list \<Rightarrow>
           (case bundle_block_create m3 BUNDLE_BLOCK_TYPE_PAYLOAD of
              (None, m4) \<Rightarrow> Inr (Fragment_None, b1, m4)
            | (Some (a, rem_pl), m4) \<Rightarrow>
                let rem_length = blk_length pl - first_payload_length in
           (case malloc m4 of
              (None, m5) \<Rightarrow> Inr (Fragment_None, b1, m5)
            | (Some _, m5) \<Rightarrow>
                obind (copy_from (blk_data pl) (unat first_payload_length) (unat rem_length)) (\<lambda>rem_data.
           (case malloc m5 of
              (None, m6) \<Rightarrow> Inr (Fragment_None, b1, m6)
            | (Some _, m6) \<Rightarrow>
                obind (shorten m6 (blk_data pl) (unat first_payload_length)) (\<lambda>(first_data, m7).
                let b2 = set_total_adu_length b1 pl;
                    b3 = b2\<lparr>blocks := update_block (the (payload_block b2))
                        (\<lambda>blk. blk\<lparr>blk_data := first_data, blk_length := first_payload_length\<rparr>) (blocks b2),
                      proc_flags := proc_flags b2 OR BUNDLE_FLAG_IS_FRAGMENT\<rparr>;
                    rem1 = rem\<lparr>blocks := list @
                        [(a, rem_pl\<lparr>blk_length := rem_length, blk_data := Some rem_data\<rparr>)],
                      payload_block := Some a,
                      fragment_offset := fragment_offset b2 + first_payload_length,
                      total_adu_length := total_adu_length b2,
                      proc_flags := proc_flags rem OR BUNDLE_FLAG_IS_FRAGMENT\<rparr>
                in recalculate_both m7 b3 rem1)))))))))"

definition bundlefragmenter_fragment_bundle ::
  "alloc_trace \<Rightarrow> bundle_t \<Rightarrow> u64 \<Rightarrow> (fragment_result \<times> bundle_t \<times> alloc_trace) outcome" where
  "bundlefragmenter_fragment_bundle m working_bundle first_max =
     (if protocol_version working_bundle = 6 then bundle6_fragment_bundle m working_bundle first_max
      else if protocol_version working_bundle = 7 then bundle7_fragment_bundle m working_bundle first_max
      else Inr (Fragment_None, working_bundle, m))"

end
