(* ===== verification/Fragment_Correctness.thy ===== *)
theory Fragment_Correctness
  imports Fragment
begin

text \<open>
  Correctness of proactive fragmentation: what one split of a BPv7-bis and of an RFC 5050 bundle yields, the
  contract of a routine that splits bundles as a locale with its interpretation on the fragmenter, and the
  sizes of the first fragment. \<open>mem_ok as\<close> is a memory in which the allocations succeed with the fresh
  addresses \<open>as\<close>; \<open>list_allocs\<close> counts those a copy of a block list needs.
\<close>

section \<open>Fragments of a bundle\<close>

definition replicated :: "block_list \<Rightarrow> bundle_block list" where
  "replicated bl = filter (\<lambda>blk. bundle_block_must_be_replicated blk \<and> blk_type blk \<noteq> BUNDLE_BLOCK_TYPE_PAYLOAD)
     (map snd bl)"

definition payload_is :: "bundle_t \<Rightarrow> addr \<Rightarrow> bundle_block \<Rightarrow> bool" where
  "payload_is b a pl \<longleftrightarrow> payload_block b = Some a \<and> map_of (blocks b) a = Some pl \<and>
     blk_type pl = BUNDLE_BLOCK_TYPE_PAYLOAD"

definition blocks_wf :: "block_list \<Rightarrow> bool" where
  "blocks_wf bl \<longleftrightarrow> distinct (map fst bl) \<and> (\<forall>blk \<in> snd ` set bl. block_wf blk)"

lemma payload_deref: "payload_is b a pl \<Longrightarrow> deref_payload b = Inr pl"
  by (simp add: payload_is_def deref_payload_def)

lemma payload_data:
  assumes "payload_is b a pl" and "blocks_wf (blocks b)"
  obtains d where "blk_data pl = Some d" and "length d = unat (blk_length pl)"
  using assms by (force simp: payload_is_def blocks_wf_def block_wf_def dest: map_of_SomeD)

lemma dup_replicated_ok:
  assumes "\<forall>blk \<in> snd ` set bl. block_wf blk" and "list_allocs bl \<le> length as"
  shows "\<exists>l n. dup_replicated (mem_ok as) bl = Inr (Some l, mem_ok (drop n as)) \<and> n \<le> list_allocs bl \<and>
    map snd l = map block_copy (replicated bl) \<and> set (map fst l) \<subseteq> set (take n as) \<and>
    (distinct as \<longrightarrow> distinct (map fst l))"
  using assms
proof (induction bl arbitrary: as)
  case (Cons e bl)
  obtain a blk where e: "e = (a, blk)" by (cases e)
  show ?case
  proof (cases "bundle_block_must_be_replicated blk \<and> blk_type blk \<noteq> BUNDLE_BLOCK_TYPE_PAYLOAD")
    case True
    let ?k = "copy_allocs blk"
    let ?as = "drop ?k as"
    have wf: "block_wf blk" and len: "?k \<le> length as" and k: "0 < ?k"
      using Cons.prems by (auto simp: e copy_allocs_def)
    obtain l n where l: "dup_replicated (mem_ok ?as) bl = Inr (Some l, mem_ok (drop n ?as))"
        "n \<le> list_allocs bl" "map snd l = map block_copy (replicated bl)"
        "set (map fst l) \<subseteq> set (take n ?as)" "distinct ?as \<longrightarrow> distinct (map fst l)"
    proof -
      have "list_allocs bl \<le> length ?as" and "\<forall>blk \<in> snd ` set bl. block_wf blk"
        using Cons.prems by (auto simp: e)
      then show thesis using Cons.IH [of ?as] that by blast
    qed
    have "dup_replicated (mem_ok as) (e # bl) =
        Inr (Some ((hd as, block_copy blk) # l), mem_ok (drop (?k + n) as))"
      using l(1) True by (rule_tac block_dup_ok [OF wf len]) (auto simp: e add.commute)
    moreover have "set (take n ?as) \<subseteq> set (take (?k + n) as)"
      by (simp add: take_add)
    moreover have hd: "hd as \<in> set (take ?k as)"
      using k len by (cases as; cases ?k) auto
    moreover have "hd as \<notin> set ?as" if "distinct as"
      using that hd set_take_disj_set_drop_if_distinct [OF that, of ?k ?k] by auto
    then have "distinct as \<longrightarrow> hd as \<notin> set (map fst l)"
      using l(4) in_set_takeD by fastforce
    moreover have "set (take ?k as) \<subseteq> set (take (?k + n) as)"
      by (simp add: set_take_subset_set_take)
    ultimately show ?thesis
      using l True
      by (intro exI [of _ "(hd as, block_copy blk) # l"] exI [of _ "?k + n"])
        (auto simp: e replicated_def)
  next
    case False
    then have "dup_replicated (mem_ok as) (e # bl) = dup_replicated (mem_ok as) bl"
      and "replicated (e # bl) = replicated bl"
      by (auto simp: e replicated_def)
    moreover obtain l n where "dup_replicated (mem_ok as) bl = Inr (Some l, mem_ok (drop n as))"
        "n \<le> list_allocs bl" "map snd l = map block_copy (replicated bl)"
        "set (map fst l) \<subseteq> set (take n as)" "distinct as \<longrightarrow> distinct (map fst l)"
    proof -
      have "list_allocs bl \<le> length as" and "\<forall>blk \<in> snd ` set bl. block_wf blk"
        using Cons.prems by (auto simp: e)
      then show thesis using Cons.IH [of as] that by blast
    qed
    ultimately show ?thesis
      by (intro exI [of _ l] exI [of _ n]) (simp add: e)
  qed
qed (auto simp: replicated_def intro: exI [of _ 0])

lemma copy_headers_ok:
  assumes "4 \<le> length as"
  obtains as' where "bundle_copy_headers (mem_ok as) b = (b\<lparr>blocks := [], payload_block := None\<rparr>, mem_ok as')"
    and "leaves 4 as as'"
proof -
  obtain a1 a2 a3 a4 where s: "strdup (mem_ok as) (destination b) = (destination b, mem_ok a1)"
      "strdup (mem_ok a1) (source b) = (source b, mem_ok a2)"
      "strdup (mem_ok a2) (report_to b) = (report_to b, mem_ok a3)"
      "strdup (mem_ok a3) (current_custodian b) = (current_custodian b, mem_ok a4)" "leaves 4 as a4"
    by (rule strdups_leave [OF assms])
  then show thesis
    using that [of a4] by (simp add: bundle_copy_headers_def)
qed

definition adu_total :: "bundle_t \<Rightarrow> bundle_block \<Rightarrow> u32" where
  "adu_total b pl = (if bundle_is_fragmented b then total_adu_length b else blk_length pl)"

definition new_fragment :: "bundle_t \<Rightarrow> bundle_block \<Rightarrow> bundle_t" where
  "new_fragment b pl = b\<lparr>bundle_id := BUNDLE_INVALID_ID, total_adu_length := adu_total b pl,
     proc_flags := proc_flags b OR BUNDLE_FLAG_IS_FRAGMENT, blocks := [], payload_block := None\<rparr>"

lemma create_new_fragment_ok:
  assumes "payload_is b a pl" and "5 \<le> length as"
  obtains as' where "bundlefragmenter_create_new_fragment (mem_ok as) b False =
      Inr (Some (new_fragment b pl), mem_ok as')" and "leaves 5 as as'"
proof -
  obtain x as0 where as: "as = x # as0" "4 \<le> length as0"
    using assms(2) by (cases as) auto
  obtain as' where h: "bundle_copy_headers (mem_ok as0) b = (b\<lparr>blocks := [], payload_block := None\<rparr>, mem_ok as')"
    and l: "leaves 4 as0 as'"
    by (rule copy_headers_ok [OF as(2)])
  have "leaves 5 as as'"
    using leaves_trans [OF leaves_Cons [of 0] l, of 5] by (simp add: as(1))
  moreover have "bundlefragmenter_create_new_fragment (mem_ok as) b False =
      Inr (Some (new_fragment b pl), mem_ok as')"
    using h payload_deref [OF assms(1)]
    by (simp add: bundlefragmenter_create_new_fragment_def as(1) new_fragment_def adu_total_def)
  ultimately show thesis using that by blast
qed

lemma copy_from_ok:
  "length d = n + k \<Longrightarrow> copy_from (Some d) n k = Inr (drop n d)"
  by (auto simp: copy_from_def)

definition first_part :: "bundle_t \<Rightarrow> bundle_block \<Rightarrow> nat \<Rightarrow> bundle_t" where
  "first_part b pl n = b\<lparr>total_adu_length := adu_total b pl,
     proc_flags := proc_flags b OR BUNDLE_FLAG_IS_FRAGMENT,
     blocks := update_block (the (payload_block b))
       (\<lambda>blk. blk\<lparr>blk_data := map_option (take n) (blk_data pl), blk_length := of_nat n\<rparr>) (blocks b)\<rparr>"

definition remainder_part :: "bundle_t \<Rightarrow> bundle_block \<Rightarrow> nat \<Rightarrow> block_list \<Rightarrow> addr \<Rightarrow> bundle_t" where
  "remainder_part b pl n bl a = (new_fragment b pl)\<lparr>fragment_offset := fragment_offset b + of_nat n,
     blocks := bl, payload_block := Some a\<rparr>"

definition rest_payload :: "nat \<Rightarrow> bundle_block \<Rightarrow> bundle_block" where
  "rest_payload n pl = \<lparr>blk_type = BUNDLE_BLOCK_TYPE_PAYLOAD, blk_number = 1, blk_flags = BUNDLE_BLOCK_FLAG_NONE,
     blk_length = blk_length pl - of_nat n, blk_data = map_option (drop n) (blk_data pl), eid_refs = [],
     blk_crc_type = BUNDLE_CRC_TYPE_NONE\<rparr>"

lemma set_total_eq: "set_total_adu_length b pl = b\<lparr>total_adu_length := adu_total b pl\<rparr>"
  by (cases b) (simp add: set_total_adu_length_def adu_total_def)

lemma new_payload_block: "bundle_block_create (mem_ok (a # as)) BUNDLE_BLOCK_TYPE_PAYLOAD =
   (Some (a, rest_payload n pl\<lparr>blk_length := 0, blk_data := None\<rparr>), mem_ok as)"
  by (simp add: bundle_block_create_def rest_payload_def)

lemma recalculate_both_v7:
  "protocol_version w = 7 \<Longrightarrow> protocol_version r = 7 \<Longrightarrow> recalculate_both m w r =
     Inr (Fragment_Remainder (bundle7_recalculate_primary_block_length r),
          bundle7_recalculate_primary_block_length w, m)"
  by (simp add: recalculate_both_def bundle_recalculate_header_length_def)

lemma four_elements: "4 \<le> length xs \<Longrightarrow> \<exists>a b c d ys. xs = a # b # c # d # ys"
  by (auto simp: Suc_le_length_iff numeral_eq_Suc)

lemma cut_words:
  fixes len :: u32
  assumes "n < unat len"
  shows "unat (of_nat n :: u32) = n" and "\<not> len \<le> of_nat n" and "unat (len - of_nat n) = unat len - n"
proof -
  have "n < 2 ^ 32" using assms unsigned_less [of len, where ?'a = nat] by simp
  then show n: "unat (of_nat n :: u32) = n" by (simp add: unsigned_of_nat take_bit_nat_eq_self)
  then show lt: "\<not> len \<le> of_nat n" using assms by (simp add: word_le_nat_alt)
  then show "unat (len - of_nat n) = unat len - n" using n by (simp add: unat_sub)
qed

lemma bundle7_fragment_split:
  assumes v7: "protocol_version b = 7" and pl: "payload_is b a pl" and wf: "blocks_wf (blocks b)"
    and size: "bundle7_get_first_fragment_min_size b = Inr first_min" and le: "first_min \<le> first_max"
    and n: "n = unat (ucast (first_max - first_min) :: u32)" "n < unat (blk_length pl)"
    and mem: "9 + list_allocs (blocks b) \<le> length as"
  obtains l ra as' where "map snd l = map block_copy (replicated (blocks b))"
    and "distinct as \<longrightarrow> distinct (ra # map fst l)" and "set (ra # map fst l) \<subseteq> set as"
    and "leaves (9 + list_allocs (blocks b)) as as'"
    and "bundle7_fragment_bundle (mem_ok as) b first_max =
      Inr (Fragment_Remainder (bundle7_recalculate_primary_block_length
             (remainder_part b pl n (l @ [(ra, rest_payload n pl)]) ra)),
           bundle7_recalculate_primary_block_length (first_part b pl n), mem_ok as')"
proof -
  obtain d where d: "blk_data pl = Some d" "length d = unat (blk_length pl)"
    by (rule payload_data [OF pl wf])
  note cut = cut_words [OF n(2)]
  have fpl: "(ucast (first_max - first_min) :: u32) = of_nat n"
    unfolding n(1) by (metis of_nat_unat ucast_id)
  obtain as1 where new: "bundlefragmenter_create_new_fragment (mem_ok as) b False =
      Inr (Some (new_fragment b pl), mem_ok as1)" "leaves 5 as as1"
    using mem by (auto intro: create_new_fragment_ok [OF pl, of as])
  have len1: "4 + list_allocs (blocks b) \<le> length as1"
    using leaves_length [OF new(2)] mem by simp
  obtain l k where l: "dup_replicated (mem_ok as1) (blocks b) = Inr (Some l, mem_ok (drop k as1))"
      "k \<le> list_allocs (blocks b)" "map snd l = map block_copy (replicated (blocks b))"
      "set (map fst l) \<subseteq> set (take k as1)" "distinct as1 \<longrightarrow> distinct (map fst l)"
    using dup_replicated_ok [of "blocks b" as1] wf len1 by (auto simp: blocks_wf_def)
  obtain ra x y z as' where as': "drop k as1 = ra # x # y # z # as'"
  proof -
    have "4 \<le> length (drop k as1)" using l(2) len1 by simp
    then show thesis
      using that four_elements by metis
  qed
  have "leaves (4 + k) as1 as'"
  proof (rule leavesI)
    show "as' = drop (4 + k) as1"
      using arg_cong [OF as', of "drop 4"] by simp
  qed simp
  then have lv: "leaves (9 + list_allocs (blocks b)) as as'"
    using leaves_trans [OF new(2)] l(2) by fastforce
  have ra: "ra \<in> set (drop k as1)" "distinct as1 \<longrightarrow> ra \<notin> set (map fst l)"
    using as' l(4) set_take_disj_set_drop_if_distinct [of as1 k k] by auto
  have sub: "set (ra # map fst l) \<subseteq> set as"
    using ra(1) l(4) leaves_set [OF new(2)] by (auto dest!: in_set_takeD in_set_dropD)
  have dist: "distinct as \<longrightarrow> distinct (ra # map fst l)"
    using ra(2) l(5) leaves_distinct [OF new(2)] by auto
  have pb: "payload_block b = Some a" using pl by (simp add: payload_is_def)
  have "bundle7_fragment_bundle (mem_ok as) b first_max =
      Inr (Fragment_Remainder (bundle7_recalculate_primary_block_length
             (remainder_part b pl n (l @ [(ra, rest_payload n pl)]) ra)),
           bundle7_recalculate_primary_block_length (first_part b pl n), mem_ok as')"
  proof -
    let ?w = "b\<lparr>total_adu_length := adu_total b pl,
        blocks := update_block a (\<lambda>blk. blk\<lparr>blk_data := Some (take n d), blk_length := of_nat n\<rparr>) (blocks b),
        proc_flags := proc_flags b OR BUNDLE_FLAG_IS_FRAGMENT\<rparr>"
    let ?r = "(new_fragment b pl)\<lparr>blocks := l @ [(ra, rest_payload n pl
          \<lparr>blk_length := blk_length pl - of_nat n, blk_data := Some (drop n d)\<rparr>)],
        payload_block := Some ra, fragment_offset := fragment_offset b + of_nat n,
        total_adu_length := adu_total b pl,
        proc_flags := proc_flags (new_fragment b pl) OR BUNDLE_FLAG_IS_FRAGMENT\<rparr>"
    have w: "?w = first_part b pl n"
      using d pb by (simp add: first_part_def)
    have r: "?r = remainder_part b pl n (l @ [(ra, rest_payload n pl)]) ra"
      using d by (simp add: remainder_part_def new_fragment_def rest_payload_def)
    have "bundle7_fragment_bundle (mem_ok as) b first_max = recalculate_both (mem_ok as') ?w ?r"
      unfolding bundle7_fragment_bundle_def bundle_get_first_fragment_min_size_def size_by_version_def
      using v7 size leD [OF le] payload_deref [OF pl] cut new(1) l(1) d pb copy_from_ok [of d n "length d - n"] n(2)
      by (simp add: fpl new_payload_block [of _ _ n pl] as' set_total_eq shorten_def Let_def)
    then show ?thesis
      unfolding w r using v7
      by (simp add: recalculate_both_v7 first_part_def remainder_part_def new_fragment_def)
  qed
  then show thesis using that l(3) dist sub lv by blast
qed

section \<open>RFC 5050\<close>

definition refs_ok :: "block_list \<Rightarrow> bool" where
  "refs_ok bl \<longleftrightarrow> (\<forall>blk \<in> snd ` set bl. has_eid_ref_field blk \<or> eid_refs blk = [])"

lemma length_calculate_eid_infos: "length (fst (calculate_eid_infos es n)) = length es"
proof (induction es arbitrary: n)
  case (Cons e es)
  show ?case
    using Cons.IH [of "snd (calculate_eid_info e n)"] by (simp add: Let_def case_prod_beta)
qed simp

lemma count_refs_ok: "refs_ok bl \<Longrightarrow> count_eid_refs bl = length (concat (map (eid_refs \<circ> snd) bl))"
  by (induction bl) (auto simp: refs_ok_def count_eid_refs_def)

lemma calculate_dict_ok:
  assumes "refs_ok (blocks b)"
  shows "\<exists>desc. bundle6_calculate_dict (mem_ok (x # as)) b = Inr (desc, mem_ok as) \<and>
    length (eid_references desc) = count_eid_refs (blocks b)"
  by (simp add: bundle6_calculate_dict_def count_refs_ok [OF assms] Let_def case_prod_beta
      length_calculate_eid_infos)

lemma recalculate_internal_ok:
  assumes "refs_ok (blocks b)"
  shows "\<exists>desc k. bundle6_recalculate_header_length_internal (mem_ok (x # as)) b =
      Inr (desc, b\<lparr>primary_block_length := k\<rparr>, mem_ok as) \<and>
    length (eid_references desc) = count_eid_refs (blocks b)"
proof -
  obtain desc where "bundle6_calculate_dict (mem_ok (x # as)) b = Inr (desc, mem_ok as)"
    and "length (eid_references desc) = count_eid_refs (blocks b)"
    using calculate_dict_ok [OF assms] by blast
  then show ?thesis
    unfolding bundle6_recalculate_header_length_internal_def by (intro exI conjI) (simp, assumption)
qed

lemma recalculate_header_ok:
  assumes "refs_ok (blocks b)" and "protocol_version b = 6"
  shows "\<exists>k. bundle_recalculate_header_length (mem_ok (x # as)) b =
      Inr (UPCN_OK, b\<lparr>primary_block_length := k\<rparr>, mem_ok as)"
proof -
  obtain desc k where "bundle6_recalculate_header_length_internal (mem_ok (x # as)) b =
      Inr (desc, b\<lparr>primary_block_length := k\<rparr>, mem_ok as)"
    using recalculate_internal_ok [OF assms(1)] by blast
  then show ?thesis
    using assms(2)
    by (intro exI [of _ k]) (simp add: bundle_recalculate_header_length_def bundle6_recalculate_header_length_def)
qed

lemma eid_ref_sizes_ok: "off + n \<le> length refs \<Longrightarrow> \<exists>k. eid_ref_sizes refs off n = Inr k"
proof (induction n arbitrary: off)
  case (Suc n)
  then obtain k where "eid_ref_sizes refs (Suc off) n = Inr k"
    by (metis add_Suc_shift)
  then show ?case using Suc.prems by simp
qed simp

lemma size_loop_ok:
  "refs_ok bl \<Longrightarrow> off + count_eid_refs bl \<le> length refs \<Longrightarrow>
   \<exists>k. serialized_size_loop refs ep ff lf pr off res bl = Inr k"
proof (induction bl arbitrary: pr off res)
  case (Cons e bl)
  obtain a blk where e: "e = (a, blk)" by (cases e)
  let ?c = "if has_eid_ref_field blk then length (eid_refs blk) else 0"
  have len: "off + ?c \<le> length refs" "off + ?c + count_eid_refs bl \<le> length refs" and ok: "refs_ok bl"
    using Cons.prems by (auto simp: e count_eid_refs_def refs_ok_def)
  obtain k where "eid_ref_sizes refs off ?c = Inr k"
    using eid_ref_sizes_ok [OF len(1)] by blast
  then show ?case
    using Cons.IH [OF ok len(2)] by (auto simp: e Let_def)
qed simp

lemma first_min_size_ok:
  assumes "refs_ok (blocks b)" and "protocol_version b = 6"
  shows "\<exists>k n. bundle_get_first_fragment_min_size (mem_ok (x # as)) b =
      Inr (n, b\<lparr>primary_block_length := k\<rparr>, mem_ok as)"
proof -
  obtain desc k where r: "bundle6_recalculate_header_length_internal (mem_ok (x # as)) b =
      Inr (desc, b\<lparr>primary_block_length := k\<rparr>, mem_ok as)"
    and l: "length (eid_references desc) = count_eid_refs (blocks b)"
    using recalculate_internal_ok [OF assms(1)] by blast
  obtain n where "serialized_size_loop (eid_references desc) True True False False 0 (unat k) (blocks b) = Inr n"
    using size_loop_ok [OF assms(1), of 0 "eid_references desc"] l by (metis add_0 order_refl)
  then show ?thesis
    using r assms(2)
    by (intro exI [of _ k]) (simp add: bundle_get_first_fragment_min_size_def size_by_version_def
        bundle6_get_first_fragment_min_size_def get_serialized_size_def)
qed

lemma split_at_payload_eq:
  assumes "distinct (map fst (front @ (a, pl) # rear))"
  shows "split_at_payload a (front @ (a, pl) # rear) =
    (front @ [(a, pl\<lparr>blk_flags := blk_flags pl OR BUNDLE_V6_BLOCK_FLAG_LAST_BLOCK\<rparr>)], rear)"
proof -
  have front: "\<forall>e \<in> set front. (\<lambda>(a', _). a' \<noteq> a) e"
    using assms by force
  then have "dropWhile (\<lambda>(a', _). a' \<noteq> a) (front @ (a, pl) # rear) = (a, pl) # rear"
    and "takeWhile (\<lambda>(a', _). a' \<noteq> a) (front @ (a, pl) # rear) = front"
    by (simp_all add: dropWhile_append2 takeWhile_append2)
  then show ?thesis by (simp add: split_at_payload_def)
qed

lemma update_block_other: "a \<notin> fst ` set bl \<Longrightarrow> update_block a f bl = bl"
  by (induction bl) (auto simp: update_block_def)

lemma update_block_append [simp]: "update_block a f (xs @ ys) = update_block a f xs @ update_block a f ys"
  by (simp add: update_block_def)

lemma update_block_Cons [simp]:
  "update_block a f ((a', blk) # bl) = (a', if a' = a then f blk else blk) # update_block a f bl"
  by (simp add: update_block_def)

lemma update_block_Nil [simp]: "update_block a f [] = []"
  by (simp add: update_block_def)

lemma payload_split:
  assumes "payload_is b a pl"
  obtains front rear where "blocks b = front @ (a, pl) # rear"
  using assms by (meson map_of_SomeD payload_is_def split_list)

text \<open>Copies of the blocks after the payload block take its mark as the last block away.\<close>

definition first_part6 :: "bundle_t \<Rightarrow> bundle_block \<Rightarrow> nat \<Rightarrow> block_list \<Rightarrow> block_list \<Rightarrow> u16 \<Rightarrow> bundle_t" where
  "first_part6 b pl n front copies k = b\<lparr>total_adu_length := adu_total b pl,
     proc_flags := proc_flags b OR BUNDLE_FLAG_IS_FRAGMENT, primary_block_length := k,
     blocks := front @ [(the (payload_block b), pl\<lparr>
         blk_flags := (if copies = [] then blk_flags pl OR BUNDLE_V6_BLOCK_FLAG_LAST_BLOCK
           else blk_flags pl AND NOT BUNDLE_V6_BLOCK_FLAG_LAST_BLOCK),
         blk_data := map_option (take n) (blk_data pl), blk_length := of_nat n\<rparr>)] @ copies\<rparr>"

definition remainder_part6 :: "bundle_t \<Rightarrow> bundle_block \<Rightarrow> nat \<Rightarrow> block_list \<Rightarrow> addr \<Rightarrow> u16 \<Rightarrow> bundle_t" where
  "remainder_part6 b pl n rear ra k = (remainder_part b pl n
     ((ra, (rest_payload n pl)\<lparr>blk_flags := blk_flags pl\<rparr>) # rear) ra)\<lparr>primary_block_length := k\<rparr>"

lemma clear_set_flag: "(x OR f) AND NOT f = x AND NOT (f :: 'a::len word)"
  by (auto simp: bit_eq_iff bit_simps)

lemma replicate_blocks_ok:
  assumes front: "replicated (blocks f) = []" and wf: "\<forall>blk \<in> snd ` set rear. block_wf blk"
    and f: "blocks f = front @ [(a, p)]" and p: "blk_type p = BUNDLE_BLOCK_TYPE_PAYLOAD"
    and s: "blocks s = (ra, rp) # rear" and rp: "blk_type rp = BUNDLE_BLOCK_TYPE_PAYLOAD"
    and wff: "\<forall>blk \<in> snd ` set (blocks f). block_wf blk"
    and mem: "list_allocs (blocks f) + list_allocs rear \<le> length as"
  shows "\<exists>l n. replicate_blocks (mem_ok as) f s = Inr (UPCN_OK,
      if l = [] then f else f\<lparr>blocks := front @
        [(a, p\<lparr>blk_flags := blk_flags p AND NOT BUNDLE_V6_BLOCK_FLAG_LAST_BLOCK\<rparr>)] @ l\<rparr>, s, mem_ok (drop n as)) \<and>
    map snd l = map block_copy (replicated rear) \<and> n \<le> list_allocs (blocks f) + list_allocs rear \<and>
    set (map fst l) \<subseteq> set as \<and> (distinct as \<longrightarrow> distinct (map fst l))"
proof -
  obtain l0 k where l0: "dup_replicated (mem_ok as) (blocks f) = Inr (Some l0, mem_ok (drop k as))"
      "k \<le> list_allocs (blocks f)" "map snd l0 = map block_copy (replicated (blocks f))"
    using dup_replicated_ok [OF wff, of as] mem by auto
  have nil: "l0 = []" using l0(3) front by simp
  obtain l j where l: "dup_replicated (mem_ok (drop k as)) rear = Inr (Some l, mem_ok (drop j (drop k as)))"
      "j \<le> list_allocs rear" "map snd l = map block_copy (replicated rear)"
      "set (map fst l) \<subseteq> set (take j (drop k as))" "distinct (drop k as) \<longrightarrow> distinct (map fst l)"
  proof -
    have "list_allocs rear \<le> length (drop k as)" using l0(2) mem by simp
    then show thesis using dup_replicated_ok [OF wf] that by blast
  qed
  have "dup_replicated (mem_ok (drop k as)) (blocks s) = dup_replicated (mem_ok (drop k as)) rear"
    by (simp add: s rp)
  then have "replicate_blocks (mem_ok as) f s = Inr (UPCN_OK,
      if l = [] then f else f\<lparr>blocks := front @
        [(a, p\<lparr>blk_flags := blk_flags p AND NOT BUNDLE_V6_BLOCK_FLAG_LAST_BLOCK\<rparr>)] @ l\<rparr>, s, mem_ok (drop (j + k) as))"
    using l(1) l0(1) nil by (simp add: replicate_blocks_def f)
  moreover have "set (map fst l) \<subseteq> set as"
    using l(4) by (auto dest!: in_set_takeD in_set_dropD)
  ultimately show ?thesis
    using l(2,3,5) l0(2) by (intro exI [of _ l] exI [of _ "j + k"]) auto
qed

lemma create_payload_fragment_ok:
  assumes "payload_is b a pl" and "7 \<le> length as"
  obtains ra as' where "bundlefragmenter_create_new_fragment (mem_ok as) b True =
      Inr (Some ((new_fragment b pl)\<lparr>blocks := [(ra, (rest_payload n pl)
        \<lparr>blk_length := 0, blk_data := None, blk_flags := blk_flags pl\<rparr>)], payload_block := Some ra\<rparr>), mem_ok as')"
    and "leaves 7 as as'" and "ra \<in> set as" and "distinct as \<longrightarrow> ra \<notin> set as'"
proof -
  obtain x as0 where as: "as = x # as0" "6 \<le> length as0"
    using assms(2) by (cases as) auto
  obtain as1 where h: "bundle_copy_headers (mem_ok as0) b = (b\<lparr>blocks := [], payload_block := None\<rparr>, mem_ok as1)"
    and l: "leaves 4 as0 as1"
    using as(2) by (auto intro: copy_headers_ok [of as0 b])
  obtain ra y as' where as1: "as1 = ra # y # as'"
    using leaves_length [OF l] as(2) by (cases as1; cases "tl as1") auto
  have "leaves 2 as1 as'"
    by (rule leavesI [of _ 2]) (simp_all add: as1)
  then have l5: "leaves 5 as as1" and "leaves 7 as as'"
    using leaves_trans [OF leaves_Cons [of 0] l, of 5] leaves_trans [of 5 as as1 2 as' 7] by (auto simp: as(1))
  moreover have "ra \<in> set as" and "distinct as \<longrightarrow> ra \<notin> set as'"
    using leaves_set [OF l5] leaves_distinct [OF l5] by (auto simp: as1)
  moreover have "bundlefragmenter_create_new_fragment (mem_ok as) b True =
      Inr (Some ((new_fragment b pl)\<lparr>blocks := [(ra, (rest_payload n pl)
        \<lparr>blk_length := 0, blk_data := None, blk_flags := blk_flags pl\<rparr>)], payload_block := Some ra\<rparr>), mem_ok as')"
    using h payload_deref [OF assms(1)]
    by (simp add: bundlefragmenter_create_new_fragment_def as(1) as1 new_payload_block [of _ _ n pl]
        new_fragment_def adu_total_def)
  ultimately show thesis using that by blast
qed

lemma recalculate_both_v6:
  assumes "protocol_version w = 6" "protocol_version r = 6" "refs_ok (blocks w)" "refs_ok (blocks r)"
  shows "\<exists>k k'. recalculate_both (mem_ok (x # y # as)) w r =
    Inr (Fragment_Remainder (r\<lparr>primary_block_length := k'\<rparr>), w\<lparr>primary_block_length := k\<rparr>, mem_ok as)"
proof -
  obtain k where k: "bundle_recalculate_header_length (mem_ok (x # y # as)) w =
      Inr (UPCN_OK, w\<lparr>primary_block_length := k\<rparr>, mem_ok (y # as))"
    using recalculate_header_ok [OF assms(3,1)] by blast
  obtain k' where "bundle_recalculate_header_length (mem_ok (y # as)) r =
      Inr (UPCN_OK, r\<lparr>primary_block_length := k'\<rparr>, mem_ok as)"
    using recalculate_header_ok [OF assms(4,2)] by blast
  with k show ?thesis by (simp add: recalculate_both_def) blast
qed

lemma list_allocs_append: "list_allocs (xs @ ys) = list_allocs xs + list_allocs ys"
  by (induction xs) auto

lemma refs_ok_copies: "map snd l = map block_copy (replicated bl) \<Longrightarrow> refs_ok bl \<Longrightarrow> refs_ok l"
proof -
  assume l: "map snd l = map block_copy (replicated bl)" and ok: "refs_ok bl"
  have "snd ` set l = block_copy ` set (replicated bl)"
    using l by (metis list.set_map)
  then show "refs_ok l"
    using ok by (auto simp: refs_ok_def replicated_def block_copy_def has_eid_ref_field_def)
qed

lemma other_flag_kept:
  "HAS_FLAG (x OR BUNDLE_V6_BLOCK_FLAG_LAST_BLOCK) BUNDLE_V6_BLOCK_FLAG_HAS_EID_REF_FIELD \<longleftrightarrow>
   HAS_FLAG x BUNDLE_V6_BLOCK_FLAG_HAS_EID_REF_FIELD"
  "HAS_FLAG (x AND NOT BUNDLE_V6_BLOCK_FLAG_LAST_BLOCK) BUNDLE_V6_BLOCK_FLAG_HAS_EID_REF_FIELD \<longleftrightarrow>
   HAS_FLAG x BUNDLE_V6_BLOCK_FLAG_HAS_EID_REF_FIELD"
proof -
  show "HAS_FLAG (x OR 8) 64 \<longleftrightarrow> HAS_FLAG x 64"
    by (simp add: HAS_FLAG_or) (simp add: HAS_FLAG_def)
  have "(x AND NOT 8) AND 64 = x AND (NOT 8 AND 64)"
    by (rule and.assoc)
  then show "HAS_FLAG (x AND NOT 8) 64 \<longleftrightarrow> HAS_FLAG x 64"
    by (simp add: HAS_FLAG_def)
qed

text \<open>The working bundle and the remainder when \<open>replicate_blocks\<close> is called.\<close>

definition cut_payload :: "bundle_block \<Rightarrow> nat \<Rightarrow> bundle_block" where
  "cut_payload pl n = pl\<lparr>blk_flags := blk_flags pl OR BUNDLE_V6_BLOCK_FLAG_LAST_BLOCK,
     blk_data := map_option (take n) (blk_data pl), blk_length := of_nat n\<rparr>"

definition cut_first :: "bundle_t \<Rightarrow> bundle_block \<Rightarrow> nat \<Rightarrow> block_list \<Rightarrow> bundle_t" where
  "cut_first b pl n front = b\<lparr>total_adu_length := adu_total b pl,
     blocks := front @ [(the (payload_block b), cut_payload pl n)]\<rparr>"

definition cut_rest :: "bundle_t \<Rightarrow> bundle_block \<Rightarrow> nat \<Rightarrow> block_list \<Rightarrow> addr \<Rightarrow> bundle_t" where
  "cut_rest b pl n rear ra =
     remainder_part b pl n ((ra, (rest_payload n pl)\<lparr>blk_flags := blk_flags pl\<rparr>) # rear) ra"

lemma bundle6_fragment_run:
  assumes v6: "protocol_version b = 6" and pl: "payload_is b a pl" and wf: "blocks_wf (blocks b)"
    and refs: "refs_ok (blocks b)" and bl: "blocks b = front @ (a, pl) # rear"
    and size: "bundle_get_first_fragment_min_size (mem_ok as) b = Inr (first_min, b0, m0)"
    and n: "n = unat (ucast (first_max - first_min) :: u32)" "n < unat (blk_length pl)"
    and mem: "10 \<le> length as"
  obtains k0 ra as2 where "b0 = b\<lparr>primary_block_length := k0\<rparr>" and "leaves 10 as as2"
    and "ra \<in> set as" and "distinct as \<longrightarrow> ra \<notin> set as2"
    and "bundle6_fragment_bundle (mem_ok as) b first_max =
      obind (replicate_blocks (mem_ok as2) (cut_first b0 pl n front) (cut_rest b0 pl n rear ra))
        (\<lambda>(_, b4, rem2, m5). recalculate_both m5
          (b4\<lparr>proc_flags := proc_flags b4 OR BUNDLE_FLAG_IS_FRAGMENT\<rparr>) rem2)"
proof -
  obtain d where d: "blk_data pl = Some d" "length d = unat (blk_length pl)"
    by (rule payload_data [OF pl wf])
  note cut = cut_words [OF n(2)]
  have fpl: "(ucast (first_max - first_min) :: u32) = of_nat n"
    unfolding n(1) by (metis of_nat_unat ucast_id)
  obtain x as0 where as: "as = x # as0" "9 \<le> length as0"
    using mem by (cases as) auto
  obtain k0 where b0: "b0 = b\<lparr>primary_block_length := k0\<rparr>" "m0 = mem_ok as0"
    using first_min_size_ok [OF refs v6, of x as0] size by (auto simp: as(1))
  have pl0: "payload_is b0 a pl" using pl by (simp add: payload_is_def b0)
  have pb: "payload_block b0 = Some a" using pl0 by (simp add: payload_is_def)
  have as0: "7 \<le> length as0" using as(2) by simp
  obtain ra as1 where new: "bundlefragmenter_create_new_fragment (mem_ok as0) b0 True =
      Inr (Some ((new_fragment b0 pl)\<lparr>blocks := [(ra, (rest_payload n pl)
        \<lparr>blk_length := 0, blk_data := None, blk_flags := blk_flags pl\<rparr>)], payload_block := Some ra\<rparr>), mem_ok as1)"
    and l7: "leaves 7 as0 as1" and ra: "ra \<in> set as0" "distinct as0 \<longrightarrow> ra \<notin> set as1"
    by (rule create_payload_fragment_ok [OF pl0 as0, of n])
  obtain y z as2 where as1: "as1 = y # z # as2"
    using leaves_length [OF l7] as(2) by (cases as1; cases "tl as1") auto
  have dist: "distinct (map fst (front @ (a, pl) # rear))" using wf by (simp add: blocks_wf_def bl)
  then have "a \<notin> fst ` set front" by auto
  then have split: "update_block a (\<lambda>blk. blk\<lparr>blk_data := Some (take n d), blk_length := of_nat n\<rparr>)
      (fst (split_at_payload a (blocks b0))) = front @ [(a, cut_payload pl n)]"
      "snd (split_at_payload a (blocks b0)) = rear"
    using d by (simp_all add: b0(1) bl split_at_payload_eq [OF dist] update_block_other cut_payload_def)
  have r: "(new_fragment b0 pl)\<lparr>payload_block := Some ra, blocks := (ra, (rest_payload n pl)
        \<lparr>blk_flags := blk_flags pl, blk_length := blk_length pl - of_nat n, blk_data := Some (drop n d)\<rparr>) # rear,
      fragment_offset := fragment_offset b0 + of_nat n\<rparr> = cut_rest b0 pl n rear ra"
    by (simp add: cut_rest_def remainder_part_def rest_payload_def d)
  have w: "b0\<lparr>total_adu_length := adu_total b0 pl, blocks := front @ [(a, cut_payload pl n)]\<rparr> = cut_first b0 pl n front"
    using pb by (simp add: cut_first_def)
  have "bundle6_fragment_bundle (mem_ok as) b first_max =
      obind (replicate_blocks (mem_ok as2) (cut_first b0 pl n front) (cut_rest b0 pl n rear ra))
        (\<lambda>(_, b4, rem2, m5). recalculate_both m5
          (b4\<lparr>proc_flags := proc_flags b4 OR BUNDLE_FLAG_IS_FRAGMENT\<rparr>) rem2)"
    unfolding bundle6_fragment_bundle_def
    using size payload_deref [OF pl0] cut new d pb copy_from_ok [of d n "length d - n"] n(2)
    by (simp add: fpl b0(2) as1 set_total_eq shorten_def Let_def case_prod_beta split r w)
  moreover have "leaves 9 as0 as2"
    using leaves_trans [OF l7 leavesI [of as2 2 as1 2], of 9] by (simp add: as1)
  then have "leaves 10 as as2"
    using leaves_trans [OF leaves_Cons [of 0 x as0], of 9 as2 10] by (simp add: as(1))
  ultimately show thesis
    using that [OF b0(1)] ra by (auto simp: as(1) as1)
qed

lemma cut_first_wf:
  assumes "blocks_wf (blocks b)" and "blocks b = front @ (a, pl) # rear" and "n < unat (blk_length pl)"
  shows "\<forall>blk \<in> snd ` set (blocks (cut_first b0 pl n front)). block_wf blk"
    and "\<forall>blk \<in> snd ` set rear. block_wf blk"
    and "list_allocs (blocks (cut_first b0 pl n front)) + list_allocs rear = list_allocs (blocks b)"
    and "blk_type pl = BUNDLE_BLOCK_TYPE_PAYLOAD \<Longrightarrow> replicated (blocks (cut_first b0 pl n front)) = replicated front"
  using assms cut_words(1) [OF assms(3)]
  by (auto simp: blocks_wf_def cut_first_def cut_payload_def block_wf_def list_allocs_append copy_allocs_def replicated_def)

lemma bundle6_fragment_split:
  assumes v6: "protocol_version b = 6" and pl: "payload_is b a pl" and wf: "blocks_wf (blocks b)"
    and refs: "refs_ok (blocks b)" and bl: "blocks b = front @ (a, pl) # rear" and front: "replicated front = []"
    and size: "bundle_get_first_fragment_min_size (mem_ok as) b = Inr (first_min, b0, m0)"
    and n: "n = unat (ucast (first_max - first_min) :: u32)" "n < unat (blk_length pl)"
    and mem: "12 + list_allocs (blocks b) \<le> length as"
  obtains l ra k k' as' where "map snd l = map block_copy (replicated rear)"
    and "distinct as \<longrightarrow> distinct (ra # map fst l)" and "set (ra # map fst l) \<subseteq> set as"
    and "leaves (12 + list_allocs (blocks b)) as as'"
    and "bundle6_fragment_bundle (mem_ok as) b first_max =
      Inr (Fragment_Remainder (remainder_part6 b pl n rear ra k'), first_part6 b pl n front l k, mem_ok as')"
proof -
  obtain k0 ra as2 where b0: "b0 = b\<lparr>primary_block_length := k0\<rparr>" and l10: "leaves 10 as as2"
    and ra: "ra \<in> set as" "distinct as \<longrightarrow> ra \<notin> set as2"
    and run: "bundle6_fragment_bundle (mem_ok as) b first_max =
      obind (replicate_blocks (mem_ok as2) (cut_first b0 pl n front) (cut_rest b0 pl n rear ra))
        (\<lambda>(_, b4, rem2, m5). recalculate_both m5
          (b4\<lparr>proc_flags := proc_flags b4 OR BUNDLE_FLAG_IS_FRAGMENT\<rparr>) rem2)"
    by (rule bundle6_fragment_run [OF v6 pl wf refs bl size n]) (use mem in auto)
  have len2: "2 + list_allocs (blocks b) \<le> length as2"
    using leaves_length [OF l10] mem by simp
  have pt: "blk_type pl = BUNDLE_BLOCK_TYPE_PAYLOAD" and pb: "payload_block b = Some a"
    using pl by (simp_all add: payload_is_def)
  have same: "adu_total b0 pl = adu_total b pl"
    by (simp add: b0 adu_total_def bundle_is_fragmented_def)
  let ?w = "cut_first b0 pl n front" and ?r = "cut_rest b0 pl n rear ra" and ?p = "cut_payload pl n"
  let ?q = "(rest_payload n pl)\<lparr>blk_flags := blk_flags pl\<rparr>"
  note cwf = cut_first_wf [OF wf bl n(2)]
  have wb: "blocks ?w = front @ [(a, ?p)]" "blk_type ?p = BUNDLE_BLOCK_TYPE_PAYLOAD"
    and rb: "blocks ?r = (ra, ?q) # rear" "blk_type ?q = BUNDLE_BLOCK_TYPE_PAYLOAD"
    using pt pb by (simp_all add: cut_first_def cut_rest_def cut_payload_def remainder_part_def rest_payload_def b0)
  have wr: "replicated (blocks ?w) = []" and wm: "list_allocs (blocks ?w) + list_allocs rear \<le> length as2"
    using cwf(3,4) front pt len2 by simp_all
  obtain l j where rep: "replicate_blocks (mem_ok as2) ?w ?r = Inr (UPCN_OK,
      if l = [] then ?w else ?w\<lparr>blocks := front @
        [(a, ?p\<lparr>blk_flags := blk_flags ?p AND NOT BUNDLE_V6_BLOCK_FLAG_LAST_BLOCK\<rparr>)] @ l\<rparr>, ?r, mem_ok (drop j as2))"
    and l: "map snd l = map block_copy (replicated rear)" "j \<le> list_allocs (blocks b)"
      "set (map fst l) \<subseteq> set as2" "distinct as2 \<longrightarrow> distinct (map fst l)"
    using replicate_blocks_ok [OF wr cwf(2) wb rb cwf(1) wm] cwf(3) by metis
  obtain u v as' where as': "drop j as2 = u # v # as'"
    using l(2) len2 by (cases "drop j as2"; cases "tl (drop j as2)") (auto dest: arg_cong [of _ _ length])
  define w' where "w' = first_part6 b pl n front l k0"
  have w': "(\<lambda>w. w\<lparr>proc_flags := proc_flags w OR BUNDLE_FLAG_IS_FRAGMENT\<rparr>) (if l = [] then ?w else ?w\<lparr>blocks := front @
        [(a, ?p\<lparr>blk_flags := blk_flags ?p AND NOT BUNDLE_V6_BLOCK_FLAG_LAST_BLOCK\<rparr>)] @ l\<rparr>) = w'"
    using same by (simp add: w'_def first_part6_def cut_first_def cut_payload_def b0 pb
        clear_set_flag [of _ "8 :: u32", simplified])
  have "refs_ok (blocks w')" and "refs_ok (blocks ?r)"
    using refs refs_ok_copies [OF l(1)]
    by (auto simp: w'_def first_part6_def cut_rest_def remainder_part_def rest_payload_def refs_ok_def bl
        has_eid_ref_field_def other_flag_kept(1) other_flag_kept(2) [simplified])
  moreover have "protocol_version w' = 6" and "protocol_version ?r = 6"
    using v6 by (simp_all add: w'_def first_part6_def cut_rest_def remainder_part_def new_fragment_def b0)
  ultimately obtain k k' where rec: "recalculate_both (mem_ok (u # v # as')) w' ?r =
      Inr (Fragment_Remainder (?r\<lparr>primary_block_length := k'\<rparr>), w'\<lparr>primary_block_length := k\<rparr>, mem_ok as')"
    using recalculate_both_v6 [of w' ?r u v as'] by blast
  have r6: "?r\<lparr>primary_block_length := k'\<rparr> = remainder_part6 b pl n rear ra k'"
    using same by (simp add: cut_rest_def remainder_part6_def remainder_part_def new_fragment_def b0)
  have f6: "w'\<lparr>primary_block_length := k\<rparr> = first_part6 b pl n front l k"
    by (simp add: w'_def first_part6_def)
  have "bundle6_fragment_bundle (mem_ok as) b first_max =
      Inr (Fragment_Remainder (remainder_part6 b pl n rear ra k'), first_part6 b pl n front l k, mem_ok as')"
    using run rep rec w' r6 f6 by (simp add: as' del: if_split)
  moreover have "leaves (2 + j) as2 as'"
    by (rule leavesI [of _ "2 + j"]) (use arg_cong [OF as', of "drop 2"] in simp_all)
  then have "leaves (12 + list_allocs (blocks b)) as as'"
    using leaves_trans [OF l10] l(2) by fastforce
  moreover have "set (ra # map fst l) \<subseteq> set as" "distinct as \<longrightarrow> distinct (ra # map fst l)"
    using ra l(3,4) leaves_set [OF l10] leaves_distinct [OF l10] by auto
  ultimately show thesis
    using that l(1) by blast
qed

section \<open>What a split promises\<close>

definition adu_bytes :: "bundle_t \<Rightarrow> bytes" where
  "adu_bytes b = (case deref_payload b of
       Inl _ \<Rightarrow> []
     | Inr pl \<Rightarrow> (case blk_data pl of None \<Rightarrow> [] | Some d \<Rightarrow> take (unat (blk_length pl)) d))"

definition same_header :: "bundle_t \<Rightarrow> bundle_t \<Rightarrow> bool" where
  "same_header b f \<longleftrightarrow> f = b\<lparr>bundle_id := bundle_id f, proc_flags := proc_flags b OR BUNDLE_FLAG_IS_FRAGMENT,
     fragment_offset := fragment_offset f, total_adu_length := total_adu_length f,
     primary_block_length := primary_block_length f, blocks := blocks f, payload_block := payload_block f\<rparr>"

definition splits :: "bundle_t \<Rightarrow> nat \<Rightarrow> bundle_t \<Rightarrow> bundle_t \<Rightarrow> bool" where
  "splits b n f r \<longleftrightarrow>
     adu_bytes f = take n (adu_bytes b) \<and> adu_bytes r = drop n (adu_bytes b) \<and>
     fragment_offset f = fragment_offset b \<and> fragment_offset r = fragment_offset b + of_nat n \<and>
     (let total = (if bundle_is_fragmented b then total_adu_length b else of_nat (length (adu_bytes b)))
      in total_adu_length f = total \<and> total_adu_length r = total) \<and>
     bundle_is_fragmented f \<and> bundle_is_fragmented r \<and> same_header b f \<and> same_header b r \<and>
     bundle_id r = BUNDLE_INVALID_ID"

definition ready :: "bundle_t \<Rightarrow> bool" where
  "ready b \<longleftrightarrow> blocks_wf (blocks b) \<and> (\<exists>a pl. payload_is b a pl)"

lemma adu_bytes_payload:
  "payload_is b a pl \<Longrightarrow> blk_data pl = Some d \<Longrightarrow> length d = unat (blk_length pl) \<Longrightarrow> adu_bytes b = d"
  by (simp add: adu_bytes_def payload_deref)

lemma fragment_flag_set: "bundle_is_fragmented (b\<lparr>proc_flags := proc_flags b OR BUNDLE_FLAG_IS_FRAGMENT\<rparr>)"
  by (simp add: bundle_is_fragmented_def HAS_FLAG_self)

lemma splitsI:
  assumes pl: "payload_is b a pl" and d: "blk_data pl = Some d" "length d = unat (blk_length pl)"
    and n: "n < unat (blk_length pl)"
    and f: "f = b\<lparr>total_adu_length := adu_total b pl, proc_flags := proc_flags b OR BUNDLE_FLAG_IS_FRAGMENT,
        primary_block_length := k, blocks := fbl\<rparr>"
    and fpl: "payload_is f a (pl\<lparr>blk_flags := x, blk_data := Some (take n d), blk_length := of_nat n\<rparr>)"
    and r: "r = (remainder_part b pl n rbl ra)\<lparr>primary_block_length := k'\<rparr>"
    and rpl: "payload_is r ra ((rest_payload n pl)\<lparr>blk_flags := y\<rparr>)"
  shows "splits b n f r"
proof -
  note cut = cut_words [OF n]
  have "adu_bytes b = d" by (rule adu_bytes_payload [OF pl d])
  moreover have "adu_bytes f = take n d"
    by (rule adu_bytes_payload [OF fpl]) (use n d(2) cut(1) in simp_all)
  moreover have "adu_bytes r = drop n d"
    by (rule adu_bytes_payload [OF rpl]) (use n d cut(3) in \<open>simp_all add: rest_payload_def\<close>)
  moreover have "blk_length pl = of_nat (length d)"
    using d(2) by simp
  ultimately show ?thesis
    by (simp add: splits_def same_header_def f r remainder_part_def new_fragment_def adu_total_def
        bundle_is_fragmented_def HAS_FLAG_self)
qed

lemma map_of_update_block: "map_of (update_block a f bl) a = map_option f (map_of bl a)"
  by (induction bl) (auto simp: update_block_def)

lemma fst_update_block [simp]: "map fst (update_block a f bl) = map fst bl"
  by (induction bl) (auto simp: update_block_def)

lemma snd_update_block:
  assumes "distinct (map fst bl)" and "map_of bl a = Some pl"
  shows "snd ` set (update_block a f bl) \<subseteq> insert (f pl) (snd ` set bl)"
proof -
  have "blk = pl" if "(a, blk) \<in> set bl" for blk
    using that assms by (metis map_of_is_SomeI option.inject)
  then show ?thesis by (force simp: update_block_def)
qed

lemma block_wf_part:
  "blk_data pl = Some d \<Longrightarrow> length d = unat (blk_length pl) \<Longrightarrow> n < unat (blk_length pl) \<Longrightarrow> block_wf pl \<Longrightarrow>
    block_wf (pl\<lparr>blk_flags := x, blk_data := Some (take n d), blk_length := of_nat n\<rparr>) \<and>
    block_wf ((rest_payload n pl)\<lparr>blk_flags := x\<rparr>)"
  using cut_words [of n "blk_length pl"] by (simp add: block_wf_def rest_payload_def)

lemma block_wf_copies:
  assumes "map snd l = map block_copy (replicated bl)" and "\<forall>blk \<in> snd ` set bl. block_wf blk"
  shows "\<forall>blk \<in> snd ` set l. block_wf blk"
proof -
  have "snd ` set l = block_copy ` set (replicated bl)"
    using assms(1) by (metis list.set_map)
  then show ?thesis
    using assms(2) by (auto simp: replicated_def block_copy_def block_wf_def)
qed

lemma bundle7_split_ok:
  assumes v7: "protocol_version b = 7" and pl: "payload_is b a pl" and wf: "blocks_wf (blocks b)"
    and size: "bundle7_get_first_fragment_min_size b = Inr first_min" and le: "first_min \<le> first_max"
    and n: "n = unat (ucast (first_max - first_min) :: u32)" "n < unat (blk_length pl)"
    and mem: "9 + list_allocs (blocks b) \<le> length as" "distinct as"
  shows "\<exists>f r l ra rpl as'. bundlefragmenter_fragment_bundle (mem_ok as) b first_max =
      Inr (Fragment_Remainder r, f, mem_ok as') \<and> splits b n f r \<and> ready f \<and> ready r \<and>
    blocks f = update_block a (\<lambda>blk. blk\<lparr>blk_data := Some (take n (adu_bytes b)), blk_length := of_nat n\<rparr>) (blocks b) \<and>
    blocks r = l @ [(ra, rpl)] \<and> payload_block r = Some ra \<and> map snd l = map block_copy (replicated (blocks b))"
proof -
  obtain d where d: "blk_data pl = Some d" "length d = unat (blk_length pl)"
    by (rule payload_data [OF pl wf])
  have ad: "adu_bytes b = d" by (rule adu_bytes_payload [OF pl d])
  obtain l ra as' where l: "map snd l = map block_copy (replicated (blocks b))"
      "distinct as \<longrightarrow> distinct (ra # map fst l)"
    and run: "bundle7_fragment_bundle (mem_ok as) b first_max =
      Inr (Fragment_Remainder (bundle7_recalculate_primary_block_length
             (remainder_part b pl n (l @ [(ra, rest_payload n pl)]) ra)),
           bundle7_recalculate_primary_block_length (first_part b pl n), mem_ok as')"
    by (rule bundle7_fragment_split [OF v7 pl wf size le n mem(1)])
  define f where "f = bundle7_recalculate_primary_block_length (first_part b pl n)"
  define r where "r = bundle7_recalculate_primary_block_length
    (remainder_part b pl n (l @ [(ra, rest_payload n pl)]) ra)"
  obtain k where f: "f = (first_part b pl n)\<lparr>primary_block_length := k\<rparr>"
    by (simp add: f_def bundle7_recalculate_primary_block_length_def Let_def)
  obtain k' where r: "r = (remainder_part b pl n (l @ [(ra, rest_payload n pl)]) ra)\<lparr>primary_block_length := k'\<rparr>"
    by (simp add: r_def bundle7_recalculate_primary_block_length_def Let_def)
  let ?upd = "\<lambda>blk. blk\<lparr>blk_data := Some (take n d), blk_length := of_nat n\<rparr>"
  have pb: "payload_block b = Some a" and pm: "map_of (blocks b) a = Some pl" and pt: "blk_type pl = BUNDLE_BLOCK_TYPE_PAYLOAD"
    using pl by (simp_all add: payload_is_def)
  have fb: "blocks f = update_block a ?upd (blocks b)"
    using d pb by (simp add: f first_part_def)
  have fpl: "payload_is f a (pl\<lparr>blk_flags := blk_flags pl, blk_data := Some (take n d), blk_length := of_nat n\<rparr>)"
    unfolding payload_is_def fb map_of_update_block using pb pm pt by (simp add: f first_part_def)
  have notl: "map_of l ra = None"
    using l(2) mem(2) by (auto simp: map_of_eq_None_iff)
  have rpl: "payload_is r ra ((rest_payload n pl)\<lparr>blk_flags := BUNDLE_BLOCK_FLAG_NONE\<rparr>)"
    using notl by (simp add: payload_is_def r remainder_part_def rest_payload_def map_add_def)
  have "splits b n f r"
  proof (rule splitsI [OF pl d n(2) _ fpl _ rpl])
    show "f = b\<lparr>total_adu_length := adu_total b pl, proc_flags := proc_flags b OR BUNDLE_FLAG_IS_FRAGMENT,
        primary_block_length := k, blocks := update_block a ?upd (blocks b)\<rparr>"
      using d pb by (simp add: f first_part_def)
    show "r = (remainder_part b pl n (l @ [(ra, rest_payload n pl)]) ra)\<lparr>primary_block_length := k'\<rparr>"
      by (rule r)
  qed
  moreover have wpl: "block_wf pl"
    using pm wf by (force simp: blocks_wf_def dest: map_of_SomeD)
  note parts = block_wf_part [OF d n(2) wpl]
  have "blocks_wf (blocks f)"
    unfolding blocks_wf_def fb
  proof (intro conjI ballI)
    show "distinct (map fst (update_block a ?upd (blocks b)))"
      using wf by (simp add: blocks_wf_def)
    fix blk
    assume "blk \<in> snd ` set (update_block a ?upd (blocks b))"
    then have "blk = ?upd pl \<or> blk \<in> snd ` set (blocks b)"
      using snd_update_block [OF _ pm, of ?upd] wf by (auto simp: blocks_wf_def)
    then show "block_wf blk"
      using wf parts [of "blk_flags pl"] by (auto simp: blocks_wf_def)
  qed
  then have "ready f"
    using fpl by (auto simp: ready_def)
  moreover have rb: "blocks r = l @ [(ra, rest_payload n pl)]" and "payload_block r = Some ra"
    by (simp_all add: r remainder_part_def)
  moreover have "block_wf (rest_payload n pl)"
    using parts [of BUNDLE_BLOCK_FLAG_NONE] by (simp add: rest_payload_def)
  then have "blocks_wf (blocks r)"
    using block_wf_copies [OF l(1)] wf l(2) mem(2) unfolding blocks_wf_def rb by auto
  then have "ready r"
    using rpl by (auto simp: ready_def)
  moreover have "bundlefragmenter_fragment_bundle (mem_ok as) b first_max = Inr (Fragment_Remainder r, f, mem_ok as')"
    using run v7 by (simp add: bundlefragmenter_fragment_bundle_def f_def r_def)
  ultimately show ?thesis
    using fb l(1) unfolding ad by blast
qed

lemma bundle6_split_ok:
  assumes v6: "protocol_version b = 6" and pl: "payload_is b a pl" and wf: "blocks_wf (blocks b)"
    and refs: "refs_ok (blocks b)" and bl: "blocks b = front @ (a, pl) # rear" and front: "replicated front = []"
    and size: "bundle_get_first_fragment_min_size (mem_ok as) b = Inr (first_min, b0, m0)"
    and n: "n = unat (ucast (first_max - first_min) :: u32)" "n < unat (blk_length pl)"
    and mem: "12 + list_allocs (blocks b) \<le> length as" "distinct as" "set as \<inter> fst ` set (blocks b) = {}"
  shows "\<exists>f r l ra fpl rpl as'. bundlefragmenter_fragment_bundle (mem_ok as) b first_max =
      Inr (Fragment_Remainder r, f, mem_ok as') \<and> splits b n f r \<and> ready f \<and> ready r \<and>
    blocks f = front @ (a, fpl) # l \<and> map snd l = map block_copy (replicated rear) \<and>
    blocks r = (ra, rpl) # rear \<and> payload_block r = Some ra \<and> eid_refs rpl = []"
proof -
  obtain d where d: "blk_data pl = Some d" "length d = unat (blk_length pl)"
    by (rule payload_data [OF pl wf])
  obtain l ra k k' as' where l: "map snd l = map block_copy (replicated rear)"
      "distinct as \<longrightarrow> distinct (ra # map fst l)" "set (ra # map fst l) \<subseteq> set as"
    and run: "bundle6_fragment_bundle (mem_ok as) b first_max =
      Inr (Fragment_Remainder (remainder_part6 b pl n rear ra k'), first_part6 b pl n front l k, mem_ok as')"
    by (rule bundle6_fragment_split [OF v6 pl wf refs bl front size n mem(1)])
  define x where "x = (if l = [] then blk_flags pl OR BUNDLE_V6_BLOCK_FLAG_LAST_BLOCK
    else blk_flags pl AND NOT BUNDLE_V6_BLOCK_FLAG_LAST_BLOCK)"
  define p where "p = pl\<lparr>blk_flags := x, blk_data := Some (take n d), blk_length := of_nat n\<rparr>"
  define q where "q = (rest_payload n pl)\<lparr>blk_flags := blk_flags pl\<rparr>"
  define f where "f = first_part6 b pl n front l k"
  define r where "r = remainder_part6 b pl n rear ra k'"
  have pb: "payload_block b = Some a" and pt: "blk_type pl = BUNDLE_BLOCK_TYPE_PAYLOAD"
    using pl by (simp_all add: payload_is_def)
  have fb: "f = b\<lparr>total_adu_length := adu_total b pl, proc_flags := proc_flags b OR BUNDLE_FLAG_IS_FRAGMENT,
      primary_block_length := k, blocks := front @ (a, p) # l\<rparr>"
    using d pb by (simp add: f_def first_part6_def p_def x_def)
  have rb: "r = (remainder_part b pl n ((ra, q) # rear) ra)\<lparr>primary_block_length := k'\<rparr>"
    by (simp add: r_def remainder_part6_def q_def)
  have dist: "a \<notin> fst ` set front" "distinct (map fst front)" "distinct (map fst rear)"
      "a \<notin> fst ` set l" "ra \<notin> fst ` set rear" "fst ` set front \<inter> fst ` set l = {}"
    using wf l(3) mem(3) by (auto simp: blocks_wf_def bl)
  have "map_of front a = None"
    using dist(1) by (simp add: map_of_eq_None_iff)
  then have fpl: "payload_is f a p"
    using pb pt by (simp add: payload_is_def fb p_def map_add_def)
  have rpl: "payload_is r ra q"
    by (simp add: payload_is_def rb remainder_part_def q_def rest_payload_def)
  have "splits b n f r"
    by (rule splitsI [OF pl d n(2) fb fpl [unfolded p_def] rb rpl [unfolded q_def]])
  moreover have wfs: "block_wf pl" "\<forall>blk \<in> snd ` set front. block_wf blk" "\<forall>blk \<in> snd ` set rear. block_wf blk"
    using wf by (auto simp: blocks_wf_def bl)
  have pq: "block_wf p" "block_wf q"
    using block_wf_part [OF d n(2) wfs(1)] by (auto simp: p_def q_def)
  have "ready f"
    using fpl pq(1) wfs(2) block_wf_copies [OF l(1) wfs(3)] dist l(2) mem(2)
    by (auto simp: ready_def blocks_wf_def fb)
  moreover have "ready r"
    using rpl pq(2) wfs(3) dist by (auto simp: ready_def blocks_wf_def rb remainder_part_def)
  moreover have "blocks f = front @ (a, p) # l" and "blocks r = (ra, q) # rear" and "payload_block r = Some ra" and "eid_refs q = []"
    by (simp_all add: fb rb remainder_part_def q_def rest_payload_def)
  moreover have "bundlefragmenter_fragment_bundle (mem_ok as) b first_max = Inr (Fragment_Remainder r, f, mem_ok as')"
    using run v6 by (simp add: bundlefragmenter_fragment_bundle_def f_def r_def)
  ultimately show ?thesis
    using l(1) by blast
qed

section \<open>Bundles that are not split\<close>

lemma first_min_v7: "payload_is b a pl \<Longrightarrow> \<exists>first_min. bundle7_get_first_fragment_min_size b = Inr first_min"
  by (simp add: bundle7_get_first_fragment_min_size_def fragment_fields_size_def payload_deref)

lemma bundle7_not_split:
  assumes "protocol_version b = 7" and "payload_is b a pl"
    and "bundle7_get_first_fragment_min_size b = Inr first_min"
  shows "first_max < first_min \<Longrightarrow> bundlefragmenter_fragment_bundle m b first_max = Inr (Fragment_None, b, m)"
    and "first_min \<le> first_max \<Longrightarrow> unat (blk_length pl) \<le> unat (ucast (first_max - first_min) :: u32) \<Longrightarrow>
      bundlefragmenter_fragment_bundle m b first_max = Inr (Fragment_Whole, b, m)"
  using assms by (auto simp: bundlefragmenter_fragment_bundle_def bundle7_fragment_bundle_def Let_def
      bundle_get_first_fragment_min_size_def size_by_version_def payload_deref word_le_nat_alt word_less_nat_alt)

lemma bundle6_not_split:
  assumes "protocol_version b = 6" and "payload_is b a pl" and "refs_ok (blocks b)"
    and "bundle_get_first_fragment_min_size (mem_ok (x # as)) b = Inr (first_min, b0, m0)"
    and "unat (blk_length pl) \<le> unat (ucast (first_max - first_min) :: u32)"
  shows "bundlefragmenter_fragment_bundle (mem_ok (x # as)) b first_max = Inr (Fragment_Whole, b0, m0)"
proof -
  obtain k where "b0 = b\<lparr>primary_block_length := k\<rparr>"
    using first_min_size_ok [OF assms(3,1), of x as] assms(4) by auto
  then have "payload_is b0 a pl"
    using assms(2) by (simp add: payload_is_def)
  then show ?thesis
    using assms(1,4,5)
    by (simp add: bundlefragmenter_fragment_bundle_def bundle6_fragment_bundle_def Let_def payload_deref word_le_nat_alt)
qed

text \<open>
  A block before the payload that every fragment must have: the copies are linked through a null
  pointer.
\<close>

lemma replicate_blocks_null:
  assumes "replicated (blocks f) \<noteq> []" and "\<forall>blk \<in> snd ` set (blocks f). block_wf blk"
    and "list_allocs (blocks f) \<le> length as"
  shows "replicate_blocks (mem_ok as) f s = Inl Null_Deref"
proof -
  obtain l n where "dup_replicated (mem_ok as) (blocks f) = Inr (Some l, mem_ok (drop n as))"
    and "map snd l = map block_copy (replicated (blocks f))"
    using dup_replicated_ok [OF assms(2,3)] by blast
  then show ?thesis
    using assms(1) by (auto simp: replicate_blocks_def)
qed

lemma bundle6_fragment_null:
  assumes v6: "protocol_version b = 6" and pl: "payload_is b a pl" and wf: "blocks_wf (blocks b)"
    and refs: "refs_ok (blocks b)" and bl: "blocks b = front @ (a, pl) # rear" and front: "replicated front \<noteq> []"
    and size: "bundle_get_first_fragment_min_size (mem_ok as) b = Inr (first_min, b0, m0)"
    and n: "n = unat (ucast (first_max - first_min) :: u32)" "n < unat (blk_length pl)"
    and mem: "12 + list_allocs (blocks b) \<le> length as"
  shows "bundlefragmenter_fragment_bundle (mem_ok as) b first_max = Inl Null_Deref"
proof (rule bundle6_fragment_run [OF v6 pl wf refs bl size n])
  fix k0 ra as2
  assume "leaves 10 as as2"
    and run: "bundle6_fragment_bundle (mem_ok as) b first_max =
      obind (replicate_blocks (mem_ok as2) (cut_first b0 pl n front) (cut_rest b0 pl n rear ra))
        (\<lambda>(_, b4, rem2, m5). recalculate_both m5
          (b4\<lparr>proc_flags := proc_flags b4 OR BUNDLE_FLAG_IS_FRAGMENT\<rparr>) rem2)"
  then have "list_allocs (blocks b) \<le> length as2"
    using leaves_length mem by fastforce
  then have "list_allocs (blocks (cut_first b0 pl n front)) \<le> length as2"
    using cut_first_wf(3) [OF wf bl n(2), of b0] by simp
  then have "replicate_blocks (mem_ok as2) (cut_first b0 pl n front) (cut_rest b0 pl n rear ra) = Inl Null_Deref"
    using cut_first_wf [OF wf bl n(2)] front pl
    by (intro replicate_blocks_null) (simp_all add: payload_is_def)
  then show ?thesis
    using run v6 by (simp add: bundlefragmenter_fragment_bundle_def)
qed (use mem in simp)

section \<open>Successive fragmentation\<close>

text \<open>
  The contract of a routine that splits a bundle in two, as the router task relies on it when it splits
  a bundle into any number of fragments.
\<close>

inductive chain :: "('b \<Rightarrow> 'b \<Rightarrow> 'b \<Rightarrow> bool) \<Rightarrow> 'b \<Rightarrow> 'b list \<Rightarrow> bool" for split where
  chain_end: "chain split b [b]"
| chain_step: "split b f r \<Longrightarrow> chain split r fs \<Longrightarrow> chain split b (f # fs)"

fun contiguous :: "('b \<Rightarrow> nat) \<Rightarrow> ('b \<Rightarrow> bytes) \<Rightarrow> nat \<Rightarrow> 'b list \<Rightarrow> bool" where
  "contiguous offset content n [] = True"
| "contiguous offset content n (f # fs) \<longleftrightarrow>
     offset f = n \<and> contiguous offset content (n + length (content f)) fs"

locale payload_splitter =
  fixes inv :: "'b \<Rightarrow> bool" and content :: "'b \<Rightarrow> bytes" and offset :: "'b \<Rightarrow> nat" and total :: "'b \<Rightarrow> 'c"
    and split :: "'b \<Rightarrow> 'b \<Rightarrow> 'b \<Rightarrow> bool"
  assumes split_inv: "inv b \<Longrightarrow> split b f r \<Longrightarrow> inv r"
    and split_content: "inv b \<Longrightarrow> split b f r \<Longrightarrow> content b = content f @ content r"
    and split_first: "inv b \<Longrightarrow> split b f r \<Longrightarrow> offset f = offset b"
    and split_rest: "inv b \<Longrightarrow> split b f r \<Longrightarrow> offset r = offset b + length (content f)"
    and split_total: "inv b \<Longrightarrow> split b f r \<Longrightarrow> total r = total f"
    and split_total_kept: "inv b \<Longrightarrow> split b f r \<Longrightarrow> split r f' r' \<Longrightarrow> total f' = total r"
begin

lemma chain_content: "chain split b fs \<Longrightarrow> inv b \<Longrightarrow> concat (map content fs) = content b"
  by (induction rule: chain.induct) (auto simp: split_content split_inv)

lemma chain_contiguous: "chain split b fs \<Longrightarrow> inv b \<Longrightarrow> contiguous offset content (offset b) fs"
  by (induction rule: chain.induct) (auto simp: split_first split_rest split_inv)

lemma chain_total:
  "chain split r fs \<Longrightarrow> inv b \<Longrightarrow> split b f r \<Longrightarrow> \<forall>x \<in> set fs. total x = total f"
proof (induction arbitrary: b f rule: chain.induct)
  case (chain_end r)
  then show ?case by (simp add: split_total)
next
  case (chain_step r f' r' fs)
  then have "inv r" and "total f' = total f"
    using split_inv split_total split_total_kept by metis+
  then show ?case
    using chain_step.IH [OF \<open>inv r\<close> chain_step.hyps(1)] by simp
qed

end

text \<open>One fragmentation that succeeded, with fresh memory.\<close>

definition memory_for :: "bundle_t \<Rightarrow> addr list \<Rightarrow> bool" where
  "memory_for b as \<longleftrightarrow> 12 + list_allocs (blocks b) \<le> length as \<and> distinct as \<and>
     set as \<inter> fst ` set (blocks b) = {}"

definition fragment_step :: "bundle_t \<Rightarrow> bundle_t \<Rightarrow> bundle_t \<Rightarrow> bool" where
  "fragment_step b f r \<longleftrightarrow> (\<exists>as first_max m. memory_for b as \<and>
     bundlefragmenter_fragment_bundle (mem_ok as) b first_max = Inr (Fragment_Remainder r, f, m))"

definition fragmentable :: "bundle_t \<Rightarrow> bool" where
  "fragmentable b \<longleftrightarrow> ready b \<and> unat (fragment_offset b) + length (adu_bytes b) < 2 ^ 32 \<and>
     (protocol_version b = 6 \<and> refs_ok (blocks b) \<or> protocol_version b = 7)"

lemma adu_bytes_length: "payload_is b a pl \<Longrightarrow> blocks_wf (blocks b) \<Longrightarrow> length (adu_bytes b) = unat (blk_length pl)"
  using payload_data adu_bytes_payload by metis

lemma fragment_step_splits:
  assumes inv: "fragmentable b" and step: "fragment_step b f r"
  shows "ready f \<and> ready r \<and> (protocol_version b = 6 \<longrightarrow> refs_ok (blocks r)) \<and> (\<exists>n < length (adu_bytes b). splits b n f r)"
proof -
  obtain as first_max m where as: "12 + list_allocs (blocks b) \<le> length as" "distinct as"
      "set as \<inter> fst ` set (blocks b) = {}"
    and run: "bundlefragmenter_fragment_bundle (mem_ok as) b first_max = Inr (Fragment_Remainder r, f, m)"
    using step by (auto simp: fragment_step_def memory_for_def)
  obtain a pl where wf: "blocks_wf (blocks b)" and pl: "payload_is b a pl"
    using inv by (auto simp: fragmentable_def ready_def)
  have len: "length (adu_bytes b) = unat (blk_length pl)" by (rule adu_bytes_length [OF pl wf])
  show ?thesis
  proof (cases "protocol_version b = 6")
    case True
    then have refs: "refs_ok (blocks b)" using inv by (simp add: fragmentable_def)
    obtain x as0 where as0: "as = x # as0" using as(1) by (cases as) auto
    obtain first_min b0 m0 where size: "bundle_get_first_fragment_min_size (mem_ok as) b = Inr (first_min, b0, m0)"
      using first_min_size_ok [OF refs True, of x as0] as0 by auto
    define n where "n = unat (ucast (first_max - first_min) :: u32)"
    have n: "n < unat (blk_length pl)"
      using bundle6_not_split [OF True pl refs size [unfolded as0], of first_max] run as0 by (force simp: n_def)
    obtain front rear where bl: "blocks b = front @ (a, pl) # rear" by (rule payload_split [OF pl])
    have front: "replicated front = []"
      using bundle6_fragment_null [OF True pl wf refs bl _ size n_def n as(1)] run by auto
    obtain ra rpl where "splits b n f r" "ready f" "ready r" "blocks r = (ra, rpl) # rear" "eid_refs rpl = []"
      using bundle6_split_ok [OF True pl wf refs bl front size n_def n as] run by auto
    moreover from this have "refs_ok (blocks r)"
      using refs by (simp add: refs_ok_def bl)
    ultimately show ?thesis using n len by auto
  next
    case False
    then have v7: "protocol_version b = 7" using inv by (simp add: fragmentable_def)
    obtain first_min where size: "bundle7_get_first_fragment_min_size b = Inr first_min"
      using first_min_v7 [OF pl] by blast
    define n where "n = unat (ucast (first_max - first_min) :: u32)"
    have le: "first_min \<le> first_max"
      using bundle7_not_split(1) [OF v7 pl size, of first_max "mem_ok as"] run by (force simp: not_le)
    have n: "n < unat (blk_length pl)"
      using bundle7_not_split(2) [OF v7 pl size le, of "mem_ok as"] run by (force simp: n_def)
    show ?thesis
      using bundle7_split_ok [OF v7 pl wf size le n_def n _ as(2)] as(1) run len n v7 by auto
  qed
qed

lemma same_header_version: "same_header b f \<Longrightarrow> protocol_version f = protocol_version b"
  unfolding same_header_def by (drule arg_cong [of _ _ protocol_version]) simp

text \<open>The laws of a splitter for one successful fragmentation.\<close>

lemma fragment_step_laws:
  assumes inv: "fragmentable b" and step: "fragment_step b f r"
  shows "fragmentable r" and "adu_bytes b = adu_bytes f @ adu_bytes r"
    and "fragment_offset f = fragment_offset b"
    and "unat (fragment_offset r) = unat (fragment_offset b) + length (adu_bytes f)"
    and "total_adu_length r = total_adu_length f" and "bundle_is_fragmented r"
    and "bundle_is_fragmented b \<Longrightarrow> total_adu_length f = total_adu_length b"
proof -
  obtain n where n: "n < length (adu_bytes b)" and s: "splits b n f r"
    and ok: "ready r" "protocol_version b = 6 \<longrightarrow> refs_ok (blocks r)"
    using fragment_step_splits [OF inv step] by blast
  have c: "adu_bytes f = take n (adu_bytes b)" "adu_bytes r = drop n (adu_bytes b)"
    and o: "fragment_offset f = fragment_offset b" "fragment_offset r = fragment_offset b + of_nat n"
    and h: "same_header b r"
    using s by (simp_all add: splits_def)
  show "adu_bytes b = adu_bytes f @ adu_bytes r" by (simp add: c)
  show "fragment_offset f = fragment_offset b" by (rule o(1))
  show "total_adu_length r = total_adu_length f" "bundle_is_fragmented r"
    and "bundle_is_fragmented b \<Longrightarrow> total_adu_length f = total_adu_length b"
    using s by (simp_all add: splits_def Let_def)
  have range: "unat (fragment_offset b) + length (adu_bytes b) < 2 ^ 32"
    using inv by (simp add: fragmentable_def)
  then have "unat (of_nat n :: u32) = n"
    using n by (simp add: unsigned_of_nat take_bit_nat_eq_self)
  then have off: "unat (fragment_offset r) = unat (fragment_offset b) + n"
    using range n by (simp add: o(2) unat_word_ariths(1))
  then show "unat (fragment_offset r) = unat (fragment_offset b) + length (adu_bytes f)"
    using n by (simp add: c)
  show "fragmentable r"
    using inv ok off range n same_header_version [OF h] by (auto simp: fragmentable_def c)
qed

interpretation fragmenter: payload_splitter fragmentable adu_bytes "\<lambda>b. unat (fragment_offset b)"
  total_adu_length fragment_step
  by unfold_locales (blast intro: fragment_step_laws, simp_all add: fragment_step_laws(2-4), (metis fragment_step_laws)+)

lemma chain_covers:
  assumes "fragmentable b" and "chain fragment_step b fs"
  shows "concat (map adu_bytes fs) = adu_bytes b"
    and "contiguous (\<lambda>f. unat (fragment_offset f)) adu_bytes (unat (fragment_offset b)) fs"
    and "\<forall>f \<in> set fs. total_adu_length f = total_adu_length (hd fs)"
proof -
  show "concat (map adu_bytes fs) = adu_bytes b"
    by (rule fragmenter.chain_content [OF assms(2,1)])
  show "contiguous (\<lambda>f. unat (fragment_offset f)) adu_bytes (unat (fragment_offset b)) fs"
    by (rule fragmenter.chain_contiguous [OF assms(2,1)])
  show "\<forall>f \<in> set fs. total_adu_length f = total_adu_length (hd fs)"
    using assms(2)
  proof (cases rule: chain.cases)
    case (chain_step f r fs')
    then show ?thesis using fragmenter.chain_total [OF chain_step(3) assms(1) chain_step(2)] by simp
  qed simp
qed

lemma sample_payload_is: "payload_is sample_bundle 100 sample_payload"
  and sample_blocks_wf: "blocks_wf (blocks sample_bundle)"
  by (simp_all add: payload_is_def blocks_wf_def sample_bundle_def sample_payload_def block_wf_def)

lemma sample_min: "bundle7_get_first_fragment_min_size sample_bundle = Inr 28"
  by code_simp

lemma ucast_u16_add: "(ucast (x + y :: u64) :: u16) = ucast x + ucast y"
proof -
  have "(unat x + unat y) mod 2 ^ 64 mod 2 ^ 16 = (unat x mod 2 ^ 16 + unat y mod 2 ^ 16) mod 2 ^ 16"
    by (simp add: mod_mod_cancel mod_add_eq)
  then show ?thesis
    by (simp add: word_unat_eq_iff unsigned_ucast_eq take_bit_eq_mod unat_word_ariths)
qed

lemma cbor_sizeof_unat: "bundle7_cbor_uint_sizeof v =
    (if unat v \<le> 0xFFFF then if unat v \<le> 0xFF then if unat v \<le> 23 then 1 else 2 else 3
     else if unat v \<le> 0xFFFFFFFF then 5 else 9)"
  by (simp add: bundle7_cbor_uint_sizeof_def word_le_nat_alt)

lemma cbor_sizeof_flag:
  assumes "\<not> HAS_FLAG (x :: u32) 1"
  shows "bundle7_cbor_uint_sizeof (ucast (x OR 1)) = bundle7_cbor_uint_sizeof (ucast x)"
proof -
  have zero: "x AND 1 = 0" using assms by (simp add: HAS_FLAG_def)
  then have "unat (x mod 2) = 0" by (simp add: and_one_eq)
  then have even: "even (unat x)" by (simp add: unat_mod even_iff_mod_2_eq_zero)
  from zero have "x OR 1 = x + 1" by (simp add: disjunctive_add_eq_or)
  moreover have "unat x < 2 ^ 32 - 1"
    using even unsigned_less [of x, where ?'a = nat] by (simp) presburger
  ultimately have "unat (x OR 1) = unat x + 1" by (simp add: unat_word_ariths)
  then show ?thesis
    using even unsigned_less [of x, where ?'a = nat] unsigned_less [of "x OR 1", where ?'a = nat]
    by (simp add: cbor_sizeof_unat unsigned_ucast_eq take_bit_nat_eq_self) presburger
qed

lemma flag_one_kept:
  assumes "HAS_FLAG x 1"
  shows "x OR 1 = (x :: u32)"
proof -
  have "bit x 0"
    using assms by (metis HAS_FLAG_def and_one_eq bit_0 even_iff_mod_2_eq_zero)
  then show ?thesis
    by (intro bit_word_eqI) (auto simp: bit_simps bit_1_iff)
qed

lemma cbor_sizeof_le: "bundle7_cbor_uint_sizeof v \<le> 9"
  by (simp add: bundle7_cbor_uint_sizeof_def)

text \<open>The length of the primary block without the fields of a fragment.\<close>

definition plain_primary_size :: "bundle_t \<Rightarrow> u64" where
  "plain_primary_size b = 1 + bundle7_cbor_uint_sizeof (ucast (protocol_version b))
     + bundle7_cbor_uint_sizeof (ucast (proc_flags b)) + bundle7_cbor_uint_sizeof (ucast (crc_type b))
     + bundle7_eid_sizeof (destination b) + bundle7_eid_sizeof (source b) + bundle7_eid_sizeof (report_to b)
     + 1 + bundle7_cbor_uint_sizeof (creation_timestamp b)
     + bundle7_cbor_uint_sizeof (sequence_number b) + bundle7_cbor_uint_sizeof (lifetime b)
     + crc_field_size (crc_type b)"

definition primary_fragment_fields :: "bundle_t \<Rightarrow> u64" where
  "primary_fragment_fields b = (if bundle_is_fragmented b
     then bundle7_cbor_uint_sizeof (ucast (fragment_offset b)) + bundle7_cbor_uint_sizeof (ucast (total_adu_length b))
     else 0)"

lemma primary_size_split: "primary_block_length (bundle7_recalculate_primary_block_length b) =
    ucast (plain_primary_size b) + ucast (primary_fragment_fields b)"
  unfolding ucast_u16_add [symmetric]
  by (simp add: bundle7_recalculate_primary_block_length_def plain_primary_size_def primary_fragment_fields_def
      Let_def algebra_simps)

lemma first_part_primary:
  assumes "payload_is b a pl" and "bundle_is_fragmented b \<or> fragment_offset b = 0"
    and "bundle7_recalculate_primary_block_length b = b" and "unat (primary_block_length b) < 65520"
  shows "(ucast (primary_block_length (bundle7_recalculate_primary_block_length (first_part b pl n))) :: u64) =
    ucast (primary_block_length b) + (if bundle_is_fragmented b then 0 else 1 + bundle7_cbor_uint_sizeof (ucast (blk_length pl)))"
proof -
  let ?f = "first_part b pl n"
  have old: "primary_block_length b = ucast (plain_primary_size b) + ucast (primary_fragment_fields b)"
    using primary_size_split [of b] assms(3) by simp
  note flag_one_kept [simp]
  have plain: "plain_primary_size ?f = plain_primary_size b"
    by (cases "bundle_is_fragmented b")
      (simp_all add: plain_primary_size_def first_part_def cbor_sizeof_flag bundle_is_fragmented_def)
  show ?thesis
  proof (cases "bundle_is_fragmented b")
    case True
    then have "primary_fragment_fields ?f = primary_fragment_fields b"
      by (simp add: primary_fragment_fields_def first_part_def bundle_is_fragmented_def HAS_FLAG_or adu_total_def)
    then show ?thesis
      using True plain primary_size_split [of ?f] old by simp
  next
    case False
    have "bundle_is_fragmented ?f"
      by (simp add: first_part_def bundle_is_fragmented_def HAS_FLAG_self)
    moreover have "fragment_offset ?f = 0" and "total_adu_length ?f = blk_length pl"
      using False assms(2) by (simp_all add: first_part_def adu_total_def)
    moreover have "bundle7_cbor_uint_sizeof 0 = 1"
      by (simp add: bundle7_cbor_uint_sizeof_def)
    ultimately have new: "primary_fragment_fields ?f = 1 + bundle7_cbor_uint_sizeof (ucast (blk_length pl))"
      and "primary_fragment_fields b = 0"
      using False by (simp_all add: primary_fragment_fields_def)
    then have p: "primary_block_length (bundle7_recalculate_primary_block_length ?f) =
        primary_block_length b + ucast (1 + bundle7_cbor_uint_sizeof (ucast (blk_length pl)))"
      using plain primary_size_split [of ?f] old by simp
    have "unat (1 + bundle7_cbor_uint_sizeof (ucast (blk_length pl))) \<le> 10"
      by (simp add: bundle7_cbor_uint_sizeof_def)
    then show ?thesis
      using False assms(4) by (simp add: p word_unat_eq_iff unat_word_ariths unsigned_ucast_eq take_bit_eq_mod)
  qed
qed

lemma blocks_size_first_fragment:
  assumes "distinct (map fst bl)" and "map_of bl a = Some pl" and "blk_type pl = BUNDLE_BLOCK_TYPE_PAYLOAD"
    and "\<forall>(a', blk) \<in> set bl. blk_type blk = BUNDLE_BLOCK_TYPE_PAYLOAD \<longrightarrow> a' = a"
  shows "blocks_size (update_block a g bl) + payload_header_size pl =
    first_fragment_size bl + bundle7_block_get_serialized_size (g pl)"
  using assms
proof (induction bl)
  case (Cons e bl)
  obtain a' blk where e: "e = (a', blk)" by (cases e)
  show ?case
  proof (cases "a' = a")
    case True
    then have "blk = pl" and notin: "a \<notin> fst ` set bl" using Cons.prems by (auto simp: e)
    have "blocks_size bl = first_fragment_size bl"
    proof -
      have "\<forall>(a', blk) \<in> set bl. blk_type blk \<noteq> BUNDLE_BLOCK_TYPE_PAYLOAD"
        using Cons.prems(4) notin by (force simp: e)
      then show ?thesis by (induction bl) auto
    qed
    then show ?thesis
      using True \<open>blk = pl\<close> notin Cons.prems(3) by (simp add: e update_block_other)
  next
    case False
    then have "blk_type blk \<noteq> BUNDLE_BLOCK_TYPE_PAYLOAD" using Cons.prems(4) by (auto simp: e)
    then show ?thesis
      using False Cons by (simp add: e add.assoc)
  qed
qed simp

lemma cancel_common:
  fixes x s f k j h y :: u64
  assumes "x + h = f + y" and "y + 2 + s = h + k + j"
  shows "x + 2 + s = f + k + j"
proof -
  have "(x + h) + (y + 2 + s) = (f + y) + (h + k + j)" using assms by simp
  then show ?thesis by (simp add: algebra_simps)
qed

lemma shortened_block_size:
  assumes "ucast (bundle7_convert_to_protocol_block_flags pl) = blk_flags pl" and "n < 2 ^ 32"
  shows "bundle7_block_get_serialized_size (pl\<lparr>blk_data := d, blk_length := of_nat n\<rparr>) + 2
      + bundle7_cbor_uint_sizeof (ucast (blk_length pl)) =
    payload_header_size pl + bundle7_cbor_uint_sizeof (of_nat n) + of_nat n"
proof -
  have n: "(ucast (of_nat n :: u32) :: u64) = of_nat n"
    using assms(2) by (simp add: word_unat_eq_iff unsigned_ucast_eq unsigned_of_nat take_bit_nat_eq_self)
  have "(ucast (bundle7_convert_to_protocol_block_flags pl) :: u64) = ucast (blk_flags pl)"
    unfolding assms(1) [symmetric]
    using unsigned_less [of "bundle7_convert_to_protocol_block_flags pl", where ?'a = nat]
    by (simp add: word_unat_eq_iff unsigned_ucast_eq unsigned_take_bit_eq take_bit_nat_eq_self)
  moreover have "bundle7_convert_to_protocol_block_flags (pl\<lparr>blk_data := d, blk_length := of_nat n\<rparr>) =
      bundle7_convert_to_protocol_block_flags pl"
    by (simp add: bundle7_convert_to_protocol_block_flags_def)
  ultimately show ?thesis
    by (simp add: bundle7_block_get_serialized_size_def payload_header_size_def n)
qed

text \<open>
  The exact serialized size of the first fragment of a BPv7-bis bundle with one payload block and an
  up-to-date header: for a bundle that was not a fragment it is the limit plus one plus the size of the new
  payload length, so that it never keeps to the limit, as the two fields a fragment adds are only counted for
  bundles that already have them; for those the fragment stays below the limit.
\<close>

theorem bundle7_first_fragment_size:
  assumes v7: "protocol_version b = 7" and pl: "payload_is b a pl" and wf: "blocks_wf (blocks b)"
    and one: "\<forall>(a', blk) \<in> set (blocks b). blk_type blk = BUNDLE_BLOCK_TYPE_PAYLOAD \<longrightarrow> a' = a"
    and flags: "ucast (bundle7_convert_to_protocol_block_flags pl) = blk_flags pl"
    and header: "bundle7_recalculate_primary_block_length b = b" "unat (primary_block_length b) < 65520"
    and off: "bundle_is_fragmented b \<or> fragment_offset b = 0"
    and size: "bundle7_get_first_fragment_min_size b = Inr first_min" and le: "first_min \<le> first_max"
    and n: "n = unat (first_max - first_min)" "n < unat (blk_length pl)"
    and mem: "9 + list_allocs (blocks b) \<le> length as"
  shows "\<exists>r f m. bundlefragmenter_fragment_bundle (mem_ok as) b first_max = Inr (Fragment_Remainder r, f, m) \<and>
    bundle7_get_serialized_size f =
      (if bundle_is_fragmented b
       then first_max + bundle7_cbor_uint_sizeof (of_nat n) - 1 - 2 * bundle7_cbor_uint_sizeof (ucast (blk_length pl))
       else first_max + bundle7_cbor_uint_sizeof (of_nat n) + 1)"
proof -
  have n32: "n < 2 ^ 32" using n(2) unsigned_less [of "blk_length pl", where ?'a = nat] by simp
  then have nt: "n = unat (ucast (first_max - first_min) :: u32)"
    using n(1) by (simp add: unsigned_ucast_eq take_bit_nat_eq_self)
  have fm: "first_max = first_min + of_nat n" by (simp add: n(1))
  obtain r m where run: "bundle7_fragment_bundle (mem_ok as) b first_max =
      Inr (Fragment_Remainder r, bundle7_recalculate_primary_block_length (first_part b pl n), m)"
    by (rule bundle7_fragment_split [OF v7 pl wf size le nt n(2) mem]) blast
  define f where "f = bundle7_recalculate_primary_block_length (first_part b pl n)"
  let ?g = "\<lambda>blk. blk\<lparr>blk_data := map_option (take n) (blk_data pl), blk_length := of_nat n\<rparr>"
  have sum: "blocks_size (update_block a ?g (blocks b)) + payload_header_size pl =
      first_fragment_size (blocks b) + bundle7_block_get_serialized_size (?g pl)"
    using blocks_size_first_fragment [of "blocks b" a pl ?g] pl wf one by (simp add: payload_is_def blocks_wf_def)
  have fb: "blocks f = update_block a ?g (blocks b)"
    using pl by (simp add: f_def bundle7_recalculate_primary_block_length_def Let_def first_part_def payload_is_def)
  have blk: "blocks_size (blocks f) + 2 + bundle7_cbor_uint_sizeof (ucast (blk_length pl)) =
      first_fragment_size (blocks b) + bundle7_cbor_uint_sizeof (of_nat n) + of_nat n"
    unfolding fb by (rule cancel_common [OF sum shortened_block_size [OF flags n32]])
  have prim: "(ucast (primary_block_length f) :: u64) = ucast (primary_block_length b) +
      (if bundle_is_fragmented b then 0 else 1 + bundle7_cbor_uint_sizeof (ucast (blk_length pl)))"
    unfolding f_def by (rule first_part_primary [OF pl off header])
  have min: "first_min = ucast (primary_block_length b) + (first_fragment_size (blocks b) +
      (if bundle_is_fragmented b then bundle7_cbor_uint_sizeof (ucast (blk_length pl)) + 1 else 0))"
    using size payload_deref [OF pl]
    by (auto simp: bundle7_get_first_fragment_min_size_def fragment_fields_size_def split: if_splits)
  have total: "bundle7_get_serialized_size f = ucast (primary_block_length f) + first_fragment_size (blocks b)
      + bundle7_cbor_uint_sizeof (of_nat n) + of_nat n - bundle7_cbor_uint_sizeof (ucast (blk_length pl))"
    using blk by (simp add: bundle7_get_serialized_size_def algebra_simps)
  have "bundle7_get_serialized_size f =
      (if bundle_is_fragmented b
       then first_max + bundle7_cbor_uint_sizeof (of_nat n) - 1 - 2 * bundle7_cbor_uint_sizeof (ucast (blk_length pl))
       else first_max + bundle7_cbor_uint_sizeof (of_nat n) + 1)"
    unfolding total prim min fm by (cases "bundle_is_fragmented b") (simp_all add: algebra_simps)
  then show ?thesis
    using run v7 by (auto simp: bundlefragmenter_fragment_bundle_def f_def)
qed

theorem bundle7_first_fragment_size_witness:
  "\<exists>r f m. bundlefragmenter_fragment_bundle (mem_ok [1, 2, 3, 4, 5, 6, 7, 8, 9, 10, 11, 12])
      (bundle7_recalculate_primary_block_length sample_bundle) 35 = Inr (Fragment_Remainder r, f, m) \<and>
    bundle7_get_serialized_size f = 37"
proof -
  let ?b = "bundle7_recalculate_primary_block_length sample_bundle"
  have p: "primary_block_length ?b = 26"
    by code_simp
  then have b: "?b = sample_bundle\<lparr>primary_block_length := 26\<rparr>"
    by (simp add: bundle7_recalculate_primary_block_length_def Let_def)
  have fixed: "bundle7_recalculate_primary_block_length ?b = ?b"
    by (simp add: bundle7_recalculate_primary_block_length_def Let_def bundle_is_fragmented_def)
  have size: "bundle7_get_first_fragment_min_size ?b = Inr 34"
    by code_simp
  have "payload_is ?b 100 sample_payload" "blocks_wf (blocks ?b)" "protocol_version ?b = 7"
    "\<forall>(a', blk) \<in> set (blocks ?b). blk_type blk = BUNDLE_BLOCK_TYPE_PAYLOAD \<longrightarrow> a' = 100"
    "\<not> bundle_is_fragmented ?b" "fragment_offset ?b = 0" "list_allocs (blocks ?b) = 3"
    unfolding b by (simp_all add: payload_is_def blocks_wf_def sample_bundle_def sample_payload_def block_wf_def
        bundle_is_fragmented_def HAS_FLAG_def copy_allocs_def)
  moreover have "ucast (bundle7_convert_to_protocol_block_flags sample_payload) = blk_flags sample_payload"
    and "unat (blk_length sample_payload) = 3"
    by (simp_all add: sample_payload_def bundle7_convert_to_protocol_block_flags_def)
  ultimately show ?thesis
    using bundle7_first_fragment_size [of ?b 100 sample_payload 34 35 1 "[1, 2, 3, 4, 5, 6, 7, 8, 9, 10, 11, 12]"]
      fixed size p by (simp add: bundle7_cbor_uint_sizeof_def)
qed

section \<open>Properties\<close>

text \<open>
  C13 (functional). The result of fragmenting a BPv7-bis bundle whose blocks and payload pointer are sound, given
  memory (also for a payload cut to no bytes, where \<open>realloc\<close> with size 0 must return a buffer), for every size limit: no result if the limit is below the minimum size of the first fragment; the
  bundle itself if the \<open>n\<close> bytes left for the payload, a 32-bit number, suffice; otherwise the bundle is cut
  after \<open>n\<close> bytes of payload. The parts together are the payload, the offset of the remainder is \<open>n\<close> further,
  both are fragments of the same total length and keep the other header fields, the first one keeps all
  blocks, the remainder has copies of those marked for replication before its payload block, and both can be
  split again.
\<close>

theorem bundle7_fragment_correct:
  assumes "protocol_version b = 7" and "payload_is b a pl" and "blocks_wf (blocks b)"
    and "bundle7_get_first_fragment_min_size b = Inr first_min"
    and "n = unat (ucast (first_max - first_min) :: u32)"
    and "9 + list_allocs (blocks b) \<le> length as" and "distinct as"
  shows "(first_max < first_min \<longrightarrow>
      bundlefragmenter_fragment_bundle (mem_ok as) b first_max = Inr (Fragment_None, b, mem_ok as)) \<and>
    (first_min \<le> first_max \<and> unat (blk_length pl) \<le> n \<longrightarrow>
      bundlefragmenter_fragment_bundle (mem_ok as) b first_max = Inr (Fragment_Whole, b, mem_ok as)) \<and>
    (first_min \<le> first_max \<and> n < unat (blk_length pl) \<longrightarrow>
      (\<exists>f r l ra rpl as'. bundlefragmenter_fragment_bundle (mem_ok as) b first_max =
          Inr (Fragment_Remainder r, f, mem_ok as') \<and> splits b n f r \<and> ready f \<and> ready r \<and>
        blocks f = update_block a (\<lambda>blk. blk\<lparr>blk_data := Some (take n (adu_bytes b)), blk_length := of_nat n\<rparr>) (blocks b) \<and>
        blocks r = l @ [(ra, rpl)] \<and> payload_block r = Some ra \<and> map snd l = map block_copy (replicated (blocks b))))"
  using bundle7_not_split [OF assms(1,2,4)] bundle7_split_ok [OF assms(1-4) _ assms(5) _ assms(6,7)] assms(5)
  by blast

theorem bundle7_fragment_correct_witness:
  "\<exists>f r m. bundlefragmenter_fragment_bundle (mem_ok [1..<20]) sample_bundle 29 =
      Inr (Fragment_Remainder r, f, m) \<and> splits sample_bundle 1 f r"
proof -
  have "list_allocs (blocks sample_bundle) = 3"
    by (simp add: sample_bundle_def copy_allocs_def sample_payload_def)
  moreover have "unat (blk_length sample_payload) = 3"
    by (simp add: sample_payload_def)
  ultimately show ?thesis
    using bundle7_fragment_correct [of sample_bundle 100 sample_payload 28 1 29 "[1..<20]"]
      sample_payload_is sample_blocks_wf sample_min by (simp add: sample_bundle_def) blast
qed

text \<open>
  C33 (error). The result of fragmenting an RFC 5050 bundle: the bundle itself if the payload fits (a limit below
  the minimum size wraps around and is not detected); a write through a null pointer whenever a block before
  the payload is marked for replication; otherwise a cut after \<open>n\<close> bytes as for BPv7-bis, where the blocks after
  the payload move to the remainder and copies of the replicated ones among them stay.
\<close>

theorem bundle6_fragment_correct:
  assumes "protocol_version b = 6" and "payload_is b a pl" and "blocks_wf (blocks b)" and "refs_ok (blocks b)"
    and "blocks b = front @ (a, pl) # rear"
    and "bundle_get_first_fragment_min_size (mem_ok as) b = Inr (first_min, b0, m0)"
    and "n = unat (ucast (first_max - first_min) :: u32)"
    and "12 + list_allocs (blocks b) \<le> length as" and "distinct as" and "set as \<inter> fst ` set (blocks b) = {}"
  shows "(unat (blk_length pl) \<le> n \<longrightarrow>
      bundlefragmenter_fragment_bundle (mem_ok as) b first_max = Inr (Fragment_Whole, b0, m0)) \<and>
    (n < unat (blk_length pl) \<and> replicated front \<noteq> [] \<longrightarrow>
      bundlefragmenter_fragment_bundle (mem_ok as) b first_max = Inl Null_Deref) \<and>
    (n < unat (blk_length pl) \<and> replicated front = [] \<longrightarrow>
      (\<exists>f r l ra fpl rpl as'. bundlefragmenter_fragment_bundle (mem_ok as) b first_max =
          Inr (Fragment_Remainder r, f, mem_ok as') \<and> splits b n f r \<and> ready f \<and> ready r \<and>
        blocks f = front @ (a, fpl) # l \<and> map snd l = map block_copy (replicated rear) \<and>
        blocks r = (ra, rpl) # rear \<and> payload_block r = Some ra))"
proof -
  obtain x as' where as: "as = x # as'" using assms(8) by (cases as) auto
  have "unat (blk_length pl) \<le> n \<longrightarrow>
      bundlefragmenter_fragment_bundle (mem_ok as) b first_max = Inr (Fragment_Whole, b0, m0)"
    using bundle6_not_split [OF assms(1,2,4) assms(6) [unfolded as], of first_max] assms(7) by (simp add: as)
  moreover note bundle6_fragment_null [OF assms(1-5) _ assms(6,7) _ assms(8)]
    bundle6_split_ok [OF assms(1-5) _ assms(6,7) _ assms(8-10)]
  ultimately show ?thesis by blast
qed

definition sample_v6_bundle :: "block_list \<Rightarrow> bundle_t" where
  "sample_v6_bundle front = sample_bundle\<lparr>protocol_version := 6, blocks := front @ [(100, sample_payload)]\<rparr>"

definition sample_replicated :: bundle_block where
  "sample_replicated = sample_payload\<lparr>blk_type := 9, blk_flags := BUNDLE_BLOCK_FLAG_MUST_BE_REPLICATED\<rparr>"

definition sample_memory :: "addr list" where
  "sample_memory = [1..<30]"

lemma sample_memory_facts: "length sample_memory = 29" "distinct sample_memory" "100 \<notin> set sample_memory"
    "50 \<notin> set sample_memory" "sample_memory = 1 # tl sample_memory"
  by (simp_all add: sample_memory_def upt_conv_Cons del: upt_rec_numeral)

lemma sample_v6_facts:
  assumes "front = [] \<or> front = [(50, sample_replicated)]"
  shows "list_allocs (blocks (sample_v6_bundle front)) \<le> 6" and "blocks_wf (blocks (sample_v6_bundle front))"
    and "refs_ok (blocks (sample_v6_bundle front))" and "payload_is (sample_v6_bundle front) 100 sample_payload"
    and "set sample_memory \<inter> fst ` set (blocks (sample_v6_bundle front)) = {}"
    and "\<exists>first_min b0 m0. bundle_get_first_fragment_min_size (mem_ok sample_memory) (sample_v6_bundle front) =
      Inr (first_min, b0, m0)"
proof -
  show refs: "refs_ok (blocks (sample_v6_bundle front))"
    using assms by (auto simp: refs_ok_def sample_v6_bundle_def sample_payload_def sample_replicated_def)
  show "list_allocs (blocks (sample_v6_bundle front)) \<le> 6" "blocks_wf (blocks (sample_v6_bundle front))"
    and "payload_is (sample_v6_bundle front) 100 sample_payload"
    and "set sample_memory \<inter> fst ` set (blocks (sample_v6_bundle front)) = {}"
    using assms sample_memory_facts(3,4) by (auto simp: copy_allocs_def sample_payload_def blocks_wf_def block_wf_def
        payload_is_def sample_v6_bundle_def sample_bundle_def sample_replicated_def)
  show "\<exists>first_min b0 m0. bundle_get_first_fragment_min_size (mem_ok sample_memory) (sample_v6_bundle front) =
      Inr (first_min, b0, m0)"
    using first_min_size_ok [OF refs, of 1 "tl sample_memory"] unfolding sample_memory_facts(5) [symmetric]
    by (auto simp: sample_v6_bundle_def)
qed

theorem bundle6_fragment_correct_witness:
  "(\<exists>first_max f r m. bundlefragmenter_fragment_bundle (mem_ok sample_memory) (sample_v6_bundle []) first_max =
      Inr (Fragment_Remainder r, f, m) \<and> splits (sample_v6_bundle []) 1 f r) \<and>
   (\<exists>first_max. bundlefragmenter_fragment_bundle (mem_ok sample_memory)
      (sample_v6_bundle [(50, sample_replicated)]) first_max = Inl Null_Deref)"
proof -
  have n: "1 = unat (ucast (first_min + 1 - first_min :: u64) :: u32)" for first_min by simp
  have len: "unat (blk_length sample_payload) = 3" by (simp add: sample_payload_def)
  have v: "protocol_version (sample_v6_bundle front) = 6" for front by (simp add: sample_v6_bundle_def)
  have mem: "12 + list_allocs (blocks (sample_v6_bundle front)) \<le> length sample_memory"
    if "front = [] \<or> front = [(50, sample_replicated)]" for front
    using sample_v6_facts(1) [OF that] by (simp add: sample_memory_facts(1))
  note frag = bundle6_fragment_correct [OF v sample_v6_facts(4,2,3) _ _ n mem sample_memory_facts(2) sample_v6_facts(5)]
  obtain m1 b1 t1 where r1: "bundle_get_first_fragment_min_size (mem_ok sample_memory) (sample_v6_bundle []) = Inr (m1, b1, t1)"
    using sample_v6_facts(6) by blast
  obtain m2 b2 t2 where r2: "bundle_get_first_fragment_min_size (mem_ok sample_memory)
      (sample_v6_bundle [(50, sample_replicated)]) = Inr (m2, b2, t2)"
    using sample_v6_facts(6) by blast
  have b1: "blocks (sample_v6_bundle []) = [] @ (100, sample_payload) # []"
    and b2: "blocks (sample_v6_bundle [(50, sample_replicated)]) = [(50, sample_replicated)] @ (100, sample_payload) # []"
    by (simp_all add: sample_v6_bundle_def)
  have c: "1 < unat (blk_length sample_payload) \<and> replicated [] = []"
      "1 < unat (blk_length sample_payload) \<and> replicated [(50, sample_replicated)] \<noteq> []"
    by (simp_all add: len replicated_def bundle_block_must_be_replicated_def HAS_FLAG_def sample_replicated_def
        sample_payload_def)
  have "bundlefragmenter_fragment_bundle (mem_ok sample_memory) (sample_v6_bundle [(50, sample_replicated)]) (m2 + 1) =
      Inl Null_Deref"
    by (rule frag [OF _ _ _ b2 r2, THEN conjunct2, THEN conjunct1, THEN mp, OF _ _ _ _ _ c(2)]) simp_all
  moreover have "\<exists>f r l ra fpl rpl as'. bundlefragmenter_fragment_bundle (mem_ok sample_memory) (sample_v6_bundle [])
        (m1 + 1) = Inr (Fragment_Remainder r, f, mem_ok as') \<and> splits (sample_v6_bundle []) 1 f r \<and> ready f \<and> ready r \<and>
      blocks f = [] @ (100, fpl) # l \<and> map snd l = map block_copy (replicated []) \<and>
      blocks r = (ra, rpl) # [] \<and> payload_block r = Some ra"
    by (rule frag [OF _ _ _ b1 r1, THEN conjunct2, THEN conjunct2, THEN mp, OF _ _ _ _ _ c(1)]) simp_all
  ultimately show ?thesis by blast
qed

text \<open>
  C3 (refinement). However often a bundle of either version is fragmented, each time cutting the last remainder
  anywhere, the payloads of the fragments in order are the original payload, their offsets are contiguous from
  the original one, and all carry the same total length.
\<close>

theorem fragments_cover_payload:
  assumes "fragmentable b" and "chain fragment_step b fs"
  shows "concat (map adu_bytes fs) = adu_bytes b \<and>
    contiguous (\<lambda>f. unat (fragment_offset f)) adu_bytes (unat (fragment_offset b)) fs \<and>
    (\<forall>f \<in> set fs. total_adu_length f = total_adu_length (hd fs))"
  using chain_covers [OF assms] by blast

lemma sample_step: "\<exists>f r. fragment_step sample_bundle f r"
proof -
  have allocs: "12 + list_allocs (blocks sample_bundle) = 15"
    by (simp add: sample_bundle_def copy_allocs_def sample_payload_def)
  then have mem: "memory_for sample_bundle sample_memory"
    using sample_memory_facts(1-3) by (simp add: memory_for_def) (simp add: sample_bundle_def)
  obtain f r as' where "bundlefragmenter_fragment_bundle (mem_ok sample_memory) sample_bundle 29 =
      Inr (Fragment_Remainder r, f, mem_ok as')"
    using bundle7_split_ok [of sample_bundle 100 sample_payload 28 29 1 sample_memory]
      sample_payload_is sample_blocks_wf sample_min allocs sample_memory_facts(1,2)
    by (auto simp: sample_bundle_def sample_payload_def)
  then show ?thesis using mem unfolding fragment_step_def by blast
qed

theorem fragments_cover_payload_witness:
  "\<exists>f r. chain fragment_step sample_bundle [f, r] \<and> adu_bytes f @ adu_bytes r = [1, 2, 3]"
proof -
  obtain f r where step: "fragment_step sample_bundle f r"
    using sample_step by blast
  have ad: "adu_bytes sample_bundle = [1, 2, 3]"
    by (simp add: adu_bytes_def payload_deref [OF sample_payload_is]) (simp add: sample_payload_def)
  then have "fragmentable sample_bundle"
    using sample_payload_is sample_blocks_wf by (auto simp: fragmentable_def ready_def) (simp_all add: sample_bundle_def)
  moreover have "chain fragment_step sample_bundle [f, r]"
    by (rule chain_step [of fragment_step, OF step]) (rule chain_end)
  ultimately show ?thesis
    using fragments_cover_payload [of sample_bundle "[f, r]"] ad by auto
qed

end
