(* ===== verification/Reports.thy ===== *)
theory Reports
  imports Bundle6 Bundle7
begin

text \<open>
  Administrative records: the generator and the parser of RFC 5050 status reports and custody signals,
  \<open>components/bundle6/reports.c\<close>, the choice by protocol version of \<open>components/upcn/report_manager.c\<close>,
  and the creation of local BPv7-bis bundles, \<open>components/bundle7/create.c\<close>. The records of BPv7-bis are
  written and read with a CBOR library that is not part of the repository, so that their generator and parser
  are arguments. The seconds and milliseconds of the clock are arguments too.
\<close>

section \<open>Data\<close>

abbreviation (input) "BUNDLE_AR_STATUS_REPORT \<equiv> (1 :: u32)"
abbreviation (input) "BUNDLE_AR_CUSTODY_SIGNAL \<equiv> (2 :: u32)"
abbreviation (input) "BUNDLE_AR_FLAG_FRAGMENT \<equiv> (1 :: u32)"

record bundle_status_report =
  sr_status :: u32
  sr_reason :: u32

datatype bundle_custody_signal_type = BUNDLE_CS_TYPE_ACCEPTANCE | BUNDLE_CS_TYPE_REFUSAL

record bundle_custody_signal =
  cs_type :: bundle_custody_signal_type
  cs_reason :: u32

record bundle_administrative_record =
  ar_type :: u32
  ar_flags :: u32
  ar_status_report :: "bundle_status_report option"
  ar_custody_signal :: "bundle_custody_signal option"
  ar_fragment_offset :: u32
  ar_fragment_length :: u32
  event_timestamp :: u64
  event_nanoseconds :: u32
  bundle_creation_timestamp :: u64
  bundle_sequence_number :: u64
  bundle_source_eid_length :: u16
  bundle_source_eid :: "bytes option"

section \<open>Generation of RFC 5050 records\<close>

definition ADMINISTRATVE_RECORD_MAX_SIZE :: nat where
  "ADMINISTRATVE_RECORD_MAX_SIZE = 1 + 2 + 4 * 2 + 9 * 2 + 4 + 2 + 40"

text \<open>The bytes before the source EID.\<close>

definition record_header :: "bundle_t \<Rightarrow> u32 \<Rightarrow> u64 \<Rightarrow> nat \<Rightarrow> bool \<Rightarrow> u8 \<Rightarrow> u8 \<Rightarrow> bytes" where
  "record_header b payload_length now_ms eid_length is_custody_signal prefix_1 prefix_2 =
     [(if is_custody_signal then 0x20 else 0x10) OR (if bundle_is_fragmented b then 0x01 else 0x00), prefix_1] @
     (if is_custody_signal then [prefix_2] else []) @
     (if bundle_is_fragmented b
      then snd (sdnv_write_u32 (fragment_offset b)) @ snd (sdnv_write_u32 payload_length) else []) @
     snd (sdnv_write_u64 (now_ms div 1000)) @ snd (sdnv_write_u32 (ucast (now_ms mod 1000) * 1000)) @
     snd (sdnv_write_u64 (creation_timestamp b)) @ snd (sdnv_write_u64 (sequence_number b)) @
     snd (sdnv_write_u32 (of_nat eid_length))"

definition encapsulate_record :: "alloc_trace \<Rightarrow> u64 \<Rightarrow> bundle_t \<Rightarrow> string \<Rightarrow> string option \<Rightarrow> bytes \<Rightarrow>
    (bundle_t option \<times> alloc_trace) outcome" where
  "encapsulate_record m now b source_eid dest_eid payload =
     (let lifetime_seconds = bundle_get_expiration_time now b - now in
      if lifetime_seconds <s 0 then Inr (None, m)
      else case dest_eid of
        None \<Rightarrow> Inl Null_Deref
      | Some dest \<Rightarrow>
          obind (bundle6_create_local m payload source_eid dest now lifetime_seconds
                   BUNDLE_FLAG_ADMINISTRATIVE_RECORD) (\<lambda>(result, m1).
            Inr (map_option (\<lambda>r. r\<lparr>ret_constraints := BUNDLE_RET_CONSTRAINT_FLAG_OWN\<rparr>) result, m1)))"

text \<open>The length of the source EID is stored in 16 bits; the result of \<open>realloc\<close> is not tested.\<close>

definition generate_record :: "alloc_trace \<Rightarrow> u64 \<Rightarrow> u64 \<Rightarrow> bundle_t \<Rightarrow> string \<Rightarrow> string option \<Rightarrow> bool \<Rightarrow> u8 \<Rightarrow> u8 \<Rightarrow>
    (bundle_t option \<times> alloc_trace) outcome" where
  "generate_record m now now_ms b source_eid dest_eid is_custody_signal prefix_1 prefix_2 = (case malloc m of
       (None, m1) \<Rightarrow> Inr (None, m1)
     | (Some _, m1) \<Rightarrow>
         obind (if bundle_is_fragmented b then obind (deref_payload b) (\<lambda>pl. Inr (blk_length pl)) else Inr 0)
           (\<lambda>payload_length. case source b of
             None \<Rightarrow> Inl Null_Deref
           | Some src \<Rightarrow>
               let eid_length = unat (of_nat (length src) :: u16);
                   header = record_header b payload_length now_ms eid_length is_custody_signal prefix_1 prefix_2
               in if length header > ADMINISTRATVE_RECORD_MAX_SIZE then Inl Out_Of_Bounds
                  else (case malloc m1 of
                      (None, m2) \<Rightarrow> Inl Null_Deref
                    | (Some _, m2) \<Rightarrow>
                        encapsulate_record m2 now b source_eid dest_eid (header @ c_chars (take eid_length src)))))"

definition bundle6_generate_status_report :: "alloc_trace \<Rightarrow> u64 \<Rightarrow> u64 \<Rightarrow> bundle_t \<Rightarrow> bundle_status_report \<Rightarrow>
    string \<Rightarrow> (bundle_t option \<times> alloc_trace) outcome" where
  "bundle6_generate_status_report m now now_ms b report local_eid =
     generate_record m now now_ms b local_eid (report_to b) True (ucast (sr_status report)) (ucast (sr_reason report))"

definition bundle6_generate_custody_signal :: "alloc_trace \<Rightarrow> u64 \<Rightarrow> u64 \<Rightarrow> bundle_t \<Rightarrow> bundle_custody_signal \<Rightarrow>
    string \<Rightarrow> (bundle_t option \<times> alloc_trace) outcome" where
  "bundle6_generate_custody_signal m now now_ms b signal local_eid =
     generate_record m now now_ms b local_eid (current_custodian b) False
       ((ucast (cs_reason signal) AND 0x7F) OR (if cs_type signal = BUNDLE_CS_TYPE_ACCEPTANCE then 0x80 else 0x00)) 0"

section \<open>Parsing of RFC 5050 records\<close>

datatype record_parser_stage =
  RP_EXPECT_TYPE | RP_EXPECT_REPORT_FLAGS | RP_EXPECT_REPORT_REASON | RP_EXPECT_CUSTODY_STATUS
| RP_EXPECT_FRAGMENT_OFFSET | RP_EXPECT_FRAGMENT_LENGTH | RP_EXPECT_RECORD_DTN_SECONDS
| RP_EXPECT_RECORD_DTN_NANOSECONDS | RP_EXPECT_BUNDLE_CREATION_TIMESTAMP
| RP_EXPECT_BUNDLE_CREATION_SEQUENCE | RP_EXPECT_BUNDLE_SOURCE_LENGTH | RP_EXPECT_BUNDLE_SOURCE_EID

record record_parser =
  rp_status :: parser_status
  rp_stage :: record_parser_stage
  rp_sdnv :: sdnv_state
  rp_record :: bundle_administrative_record
  rp_index :: u16
  rp_remaining :: u16

text \<open>Members that the initialization leaves as they are in memory come from \<open>junk\<close>.\<close>

definition record_parser_init :: "alloc_trace \<Rightarrow> record_parser \<Rightarrow> record_parser option \<times> alloc_trace" where
  "record_parser_init m junk = (case malloc m of
       (None, m1) \<Rightarrow> (None, m1)
     | (Some _, m1) \<Rightarrow> (Some (junk\<lparr>rp_status := PARSER_STATUS_GOOD, rp_stage := RP_EXPECT_TYPE,
         rp_record := (rp_record junk)\<lparr>ar_status_report := None, ar_custody_signal := None,
           ar_fragment_offset := 0, ar_fragment_length := 0, event_timestamp := 0, event_nanoseconds := 0,
           bundle_creation_timestamp := 0, bundle_sequence_number := 0, bundle_source_eid_length := 0,
           bundle_source_eid := None\<rparr>\<rparr>), m1))"

definition record_parser_next :: "record_parser_stage \<Rightarrow> record_parser \<Rightarrow> record_parser" where
  "record_parser_next next p = p\<lparr>rp_stage := next, rp_sdnv := sdnv_reset (rp_sdnv p)\<rparr>"

definition record_parser_wait_for_sdnv :: "record_parser_stage \<Rightarrow> record_parser \<Rightarrow> bool \<times> record_parser" where
  "record_parser_wait_for_sdnv next p = (case sdnv_st (rp_sdnv p) of
       SDNV_IN_PROGRESS \<Rightarrow> (False, p)
     | SDNV_DONE \<Rightarrow> (True, record_parser_next next p)
     | SDNV_ERROR \<Rightarrow> (False, p\<lparr>rp_status := PARSER_STATUS_ERROR\<rparr>))"

definition after_prefix :: "record_parser \<Rightarrow> record_parser" where
  "after_prefix p =
     (if HAS_FLAG (ar_flags (rp_record p)) BUNDLE_AR_FLAG_FRAGMENT
      then record_parser_next RP_EXPECT_FRAGMENT_OFFSET p
      else record_parser_next RP_EXPECT_RECORD_DTN_SECONDS p)"

text \<open>One byte of a number: the reader, the member of the record it fills, and the next stage.\<close>

definition record_sdnv :: "(sdnv_state \<Rightarrow> 'n \<Rightarrow> u8 \<Rightarrow> sdnv_state \<times> 'n) \<Rightarrow> (bundle_administrative_record \<Rightarrow> 'n) \<Rightarrow>
    ('n \<Rightarrow> bundle_administrative_record \<Rightarrow> bundle_administrative_record) \<Rightarrow> record_parser_stage \<Rightarrow> u8 \<Rightarrow>
    record_parser \<Rightarrow> bool \<times> record_parser" where
  "record_sdnv read get put next byte p =
     (let (s, v) = read (rp_sdnv p) (get (rp_record p)) byte
      in record_parser_wait_for_sdnv next (p\<lparr>rp_sdnv := s, rp_record := put v (rp_record p)\<rparr>))"

type_synonym rp_result = "(record_parser \<times> alloc_trace) outcome"

text \<open>
  The type of a record: the structure for its content is allocated and not tested, a null pointer is only
  met by the next byte. Until its members are written, the fresh structure has unspecified content, here zero.
\<close>

definition read_record_type :: "alloc_trace \<Rightarrow> u8 \<Rightarrow> record_parser \<Rightarrow> record_parser \<times> alloc_trace" where
  "read_record_type m byte p =
     (let r = (rp_record p)\<lparr>ar_type := ucast (drop_bit 4 byte AND 0x0F), ar_flags := ucast (byte AND 0x0F)\<rparr> in
      if ar_type r = BUNDLE_AR_STATUS_REPORT then
        (let (a, m1) = malloc m in
         (record_parser_next RP_EXPECT_REPORT_FLAGS (p\<lparr>rp_record := r\<lparr>ar_status_report :=
            map_option (\<lambda>_. \<lparr>sr_status = 0, sr_reason = 0\<rparr>) a\<rparr>\<rparr>), m1))
      else if ar_type r = BUNDLE_AR_CUSTODY_SIGNAL then
        (let (a, m1) = malloc m in
         (record_parser_next RP_EXPECT_CUSTODY_STATUS (p\<lparr>rp_record := r\<lparr>ar_custody_signal :=
            map_option (\<lambda>_. \<lparr>cs_type = BUNDLE_CS_TYPE_ACCEPTANCE, cs_reason = 0\<rparr>) a\<rparr>\<rparr>), m1))
      else (p\<lparr>rp_record := r, rp_status := PARSER_STATUS_ERROR\<rparr>, m))"

definition read_source_length :: "alloc_trace \<Rightarrow> u8 \<Rightarrow> record_parser \<Rightarrow> record_parser \<times> alloc_trace" where
  "read_source_length m byte p =
     (let (done, p1) = record_sdnv sdnv_read_u16 bundle_source_eid_length
            (\<lambda>v r. r\<lparr>bundle_source_eid_length := v\<rparr>) RP_EXPECT_BUNDLE_SOURCE_EID byte p
      in if done then
           (let (a, m1) = malloc m; n = bundle_source_eid_length (rp_record p1);
                p2 = p1\<lparr>rp_record := (rp_record p1)\<lparr>bundle_source_eid :=
                  map_option (\<lambda>_. replicate (unat n + 1) 0) a\<rparr>\<rparr>;
                p3 = (if a = None then p2\<lparr>rp_status := PARSER_STATUS_ERROR\<rparr> else p2)
            in (p3\<lparr>rp_index := 0, rp_remaining := n\<rparr>, m1))
         else (p1, m))"

text \<open>
  A byte of the source EID. The case falls through to the default one, which sets the error status.
\<close>

definition read_source_byte :: "u8 \<Rightarrow> record_parser \<Rightarrow> record_parser outcome" where
  "read_source_byte byte p =
     (let p1 = p\<lparr>rp_remaining := rp_remaining p - 1\<rparr> in
      obind (put_bytes (bundle_source_eid (rp_record p1)) (unat (rp_index p1)) [byte]) (\<lambda>e.
      let p2 = p1\<lparr>rp_record := (rp_record p1)\<lparr>bundle_source_eid := Some e\<rparr>, rp_index := rp_index p1 + 1\<rparr> in
      obind (if rp_remaining p2 = 0
             then obind (put_bytes (Some e) (unat (rp_index p2)) [0]) (\<lambda>e'. Inr
               (p2\<lparr>rp_record := (rp_record p2)\<lparr>bundle_source_eid := Some e'\<rparr>, rp_status := PARSER_STATUS_DONE\<rparr>))
             else Inr p2) (\<lambda>p3.
      Inr (p3\<lparr>rp_status := PARSER_STATUS_ERROR\<rparr>))))"

definition record_parser_read_byte :: "alloc_trace \<Rightarrow> u8 \<Rightarrow> record_parser \<Rightarrow> rp_result" where
  "record_parser_read_byte m byte p = (case rp_stage p of
       RP_EXPECT_TYPE \<Rightarrow> Inr (read_record_type m byte p)
     | RP_EXPECT_REPORT_FLAGS \<Rightarrow> (case ar_status_report (rp_record p) of
           None \<Rightarrow> Inl Null_Deref
         | Some sr \<Rightarrow> Inr (record_parser_next RP_EXPECT_REPORT_REASON (p\<lparr>rp_record := (rp_record p)
             \<lparr>ar_status_report := Some (sr\<lparr>sr_status := ucast byte\<rparr>)\<rparr>\<rparr>), m))
     | RP_EXPECT_REPORT_REASON \<Rightarrow> (case ar_status_report (rp_record p) of
           None \<Rightarrow> Inl Null_Deref
         | Some sr \<Rightarrow> Inr (after_prefix (p\<lparr>rp_record := (rp_record p)
             \<lparr>ar_status_report := Some (sr\<lparr>sr_reason := ucast byte\<rparr>)\<rparr>\<rparr>), m))
     | RP_EXPECT_CUSTODY_STATUS \<Rightarrow> (case ar_custody_signal (rp_record p) of
           None \<Rightarrow> Inl Null_Deref
         | Some cs \<Rightarrow> Inr (after_prefix (p\<lparr>rp_record := (rp_record p)
             \<lparr>ar_custody_signal := Some (cs\<lparr>
                cs_type := (if drop_bit 7 byte \<noteq> 0 then BUNDLE_CS_TYPE_ACCEPTANCE else BUNDLE_CS_TYPE_REFUSAL),
                cs_reason := ucast (byte AND 0x7F)\<rparr>)\<rparr>\<rparr>), m))
     | RP_EXPECT_FRAGMENT_OFFSET \<Rightarrow> Inr (snd (record_sdnv sdnv_read_u32 ar_fragment_offset
         (\<lambda>v r. r\<lparr>ar_fragment_offset := v\<rparr>) RP_EXPECT_FRAGMENT_LENGTH byte p), m)
     | RP_EXPECT_FRAGMENT_LENGTH \<Rightarrow> Inr (snd (record_sdnv sdnv_read_u32 ar_fragment_length
         (\<lambda>v r. r\<lparr>ar_fragment_length := v\<rparr>) RP_EXPECT_RECORD_DTN_SECONDS byte p), m)
     | RP_EXPECT_RECORD_DTN_SECONDS \<Rightarrow> Inr (snd (record_sdnv sdnv_read_u64 event_timestamp
         (\<lambda>v r. r\<lparr>event_timestamp := v\<rparr>) RP_EXPECT_RECORD_DTN_NANOSECONDS byte p), m)
     | RP_EXPECT_RECORD_DTN_NANOSECONDS \<Rightarrow> Inr (snd (record_sdnv sdnv_read_u32 event_nanoseconds
         (\<lambda>v r. r\<lparr>event_nanoseconds := v\<rparr>) RP_EXPECT_BUNDLE_CREATION_TIMESTAMP byte p), m)
     | RP_EXPECT_BUNDLE_CREATION_TIMESTAMP \<Rightarrow> Inr (snd (record_sdnv sdnv_read_u64 bundle_creation_timestamp
         (\<lambda>v r. r\<lparr>bundle_creation_timestamp := v\<rparr>) RP_EXPECT_BUNDLE_CREATION_SEQUENCE byte p), m)
     | RP_EXPECT_BUNDLE_CREATION_SEQUENCE \<Rightarrow> Inr (snd (record_sdnv sdnv_read_u64 bundle_sequence_number
         (\<lambda>v r. r\<lparr>bundle_sequence_number := v\<rparr>) RP_EXPECT_BUNDLE_SOURCE_LENGTH byte p), m)
     | RP_EXPECT_BUNDLE_SOURCE_LENGTH \<Rightarrow> Inr (read_source_length m byte p)
     | RP_EXPECT_BUNDLE_SOURCE_EID \<Rightarrow> obind (read_source_byte byte p) (\<lambda>p1. Inr (p1, m)))"

fun record_parser_loop :: "alloc_trace \<Rightarrow> bytes \<Rightarrow> record_parser \<Rightarrow> rp_result" where
  "record_parser_loop m [] p = Inr (p, m)"
| "record_parser_loop m (byte # data) p =
     (if rp_status p = PARSER_STATUS_GOOD
      then obind (record_parser_read_byte m byte p) (\<lambda>(p1, m1). record_parser_loop m1 data p1)
      else Inr (p, m))"

text \<open>\<open>data\<close> is the buffer, its length the argument \<open>length\<close>; the buffer must not be null.\<close>

definition bundle6_parse_administrative_record :: "alloc_trace \<Rightarrow> record_parser \<Rightarrow> bytes option \<Rightarrow>
    (bundle_administrative_record option \<times> alloc_trace) outcome" where
  "bundle6_parse_administrative_record m junk data = (case data of
       None \<Rightarrow> Inl Assert_Failed
     | Some bs \<Rightarrow> (case record_parser_init m junk of
           (None, m1) \<Rightarrow> Inr (None, m1)
         | (Some p, m1) \<Rightarrow> obind (record_parser_loop m1 bs p) (\<lambda>(p1, m2). Inr
             (if rp_status p1 = PARSER_STATUS_DONE then Some (rp_record p1) else None, m2))))"

section \<open>Local BPv7-bis bundles\<close>

definition bundle7_create_local :: "alloc_trace \<Rightarrow> bytes \<Rightarrow> string \<Rightarrow> string \<Rightarrow> u64 \<Rightarrow> u64 \<Rightarrow> u32 \<Rightarrow>
    bundle_t option \<times> alloc_trace" where
  "bundle7_create_local m payload src dest creation_time life flags = (case bundle_init m of
       (None, m1) \<Rightarrow> (None, m1)
     | (Some b0, m1) \<Rightarrow>
         let b1 = b0\<lparr>protocol_version := 0x7, proc_flags := flags, creation_timestamp := creation_time,
               sequence_number := 1, lifetime := life * 1000000, crc_type := BUNDLE_CRC_TYPE_16\<rparr> in
         (case bundle_block_create m1 BUNDLE_BLOCK_TYPE_PAYLOAD of
           (None, m2) \<Rightarrow> (None, m2)
         | (Some (a, pl), m2) \<Rightarrow> (case malloc m2 of
             (None, m3) \<Rightarrow> (None, m3)
           | (Some _, m3) \<Rightarrow>
               (let (s, m4) = strdup m3 (Some src) in
                if s = None then (None, m4)
                else let (d, m5) = strdup m4 (Some dest) in
                  if d = None then (None, m5)
                  else let (r, m6) = strdup m5 (Some ''dtn:none'') in
                    if r = None then (None, m6)
                    else (Some (bundle7_recalculate_primary_block_length (b1\<lparr>source := s, destination := d,
                        report_to := r, payload_block := Some a,
                        blocks := [(a, pl\<lparr>blk_data := Some payload, blk_length := of_nat (length payload)\<rparr>)]\<rparr>)),
                      m6)))))"

section \<open>The report manager\<close>

type_synonym report_generator = "alloc_trace \<Rightarrow> u64 \<Rightarrow> u64 \<Rightarrow> bundle_t \<Rightarrow> bundle_status_report \<Rightarrow> string \<Rightarrow>
  (bundle_t option \<times> alloc_trace) outcome"

type_synonym record_reader = "alloc_trace \<Rightarrow> bytes option \<Rightarrow>
  (bundle_administrative_record option \<times> alloc_trace) outcome"

definition generate_status_report :: "report_generator \<Rightarrow> report_generator" where
  "generate_status_report bundle7_generate m now now_ms b report local_eid =
     (if protocol_version b = 6 then bundle6_generate_status_report m now now_ms b report local_eid
      else if protocol_version b = 7 then bundle7_generate m now now_ms b report local_eid
      else Inr (None, m))"

text \<open>A list of at most one signal; the entry is allocated after it.\<close>

definition generate_custody_signal :: "alloc_trace \<Rightarrow> u64 \<Rightarrow> u64 \<Rightarrow> bundle_t \<Rightarrow> bundle_custody_signal \<Rightarrow> string \<Rightarrow>
    (bundle_t list \<times> alloc_trace) outcome" where
  "generate_custody_signal m now now_ms b signal local_eid =
     (if protocol_version b = 6 then
        obind (bundle6_generate_custody_signal m now now_ms b signal local_eid) (\<lambda>(res, m1). case res of
            None \<Rightarrow> Inr ([], m1)
          | Some s \<Rightarrow> (case malloc m1 of (None, m2) \<Rightarrow> Inr ([], m2) | (Some _, m2) \<Rightarrow> Inr ([s], m2)))
      else Inr ([], m))"

definition parse_administrative_record :: "record_reader \<Rightarrow> alloc_trace \<Rightarrow> record_parser \<Rightarrow> u8 \<Rightarrow> bytes option \<Rightarrow>
    (bundle_administrative_record option \<times> alloc_trace) outcome" where
  "parse_administrative_record bundle7_parse m junk version data =
     (if version = 6 then bundle6_parse_administrative_record m junk data
      else if version = 7 then bundle7_parse m data
      else Inr (None, m))"

section \<open>Properties\<close>

text \<open>Only a byte of the source EID could complete a record, and it never does.\<close>

lemma wait_not_done: "rp_status p = PARSER_STATUS_GOOD \<Longrightarrow>
    rp_status (snd (record_parser_wait_for_sdnv next p)) \<noteq> PARSER_STATUS_DONE"
  by (simp add: record_parser_wait_for_sdnv_def record_parser_next_def split: sdnv_status.splits)

lemma record_sdnv_not_done: "rp_status p = PARSER_STATUS_GOOD \<Longrightarrow>
    rp_status (snd (record_sdnv read get put next byte p)) \<noteq> PARSER_STATUS_DONE"
  by (simp add: record_sdnv_def wait_not_done split: prod.splits)

lemma read_source_length_not_done:
  assumes "rp_status p = PARSER_STATUS_GOOD"
  shows "rp_status (fst (read_source_length m byte p)) \<noteq> PARSER_STATUS_DONE"
proof -
  let ?put = "\<lambda>v r. r\<lparr>bundle_source_eid_length := v\<rparr>"
  obtain fin p1 where r: "record_sdnv sdnv_read_u16 bundle_source_eid_length ?put
      RP_EXPECT_BUNDLE_SOURCE_EID byte p = (fin, p1)"
    by fastforce
  then have "rp_status p1 \<noteq> PARSER_STATUS_DONE"
    using record_sdnv_not_done [OF assms, of sdnv_read_u16 bundle_source_eid_length ?put
        RP_EXPECT_BUNDLE_SOURCE_EID byte] by simp
  then show ?thesis
    by (cases "malloc m") (simp add: read_source_length_def r Let_def)
qed

lemma read_source_byte_not_done:
  assumes "read_source_byte byte p = Inr p'"
  shows "rp_status p' = PARSER_STATUS_ERROR"
proof -
  have last: "\<exists>q. p' = f q" if "obind x (\<lambda>e. obind (y e) (\<lambda>q. Inr (f q))) = Inr p'"
    for x :: "bytes outcome" and y and f :: "record_parser \<Rightarrow> record_parser"
    using that by (auto simp: obind_eq_Inr)
  show ?thesis
    using last [OF assms [unfolded read_source_byte_def Let_def]] by (elim exE) simp
qed

lemma after_prefix_status [simp]: "rp_status (after_prefix p) = rp_status p"
  by (simp add: after_prefix_def record_parser_next_def)

lemma next_status [simp]: "rp_status (record_parser_next next p) = rp_status p"
  by (simp add: record_parser_next_def)

lemma read_type_not_done: "rp_status p = PARSER_STATUS_GOOD \<Longrightarrow>
    rp_status (fst (read_record_type m byte p)) \<noteq> PARSER_STATUS_DONE"
  by (simp add: read_record_type_def Let_def split: prod.splits)

lemma read_byte_not_done:
  assumes good: "rp_status p = PARSER_STATUS_GOOD" and step: "record_parser_read_byte m byte p = Inr (p', m')"
  shows "rp_status p' \<noteq> PARSER_STATUS_DONE"
proof (cases "rp_stage p")
  case RP_EXPECT_TYPE
  then show ?thesis
    using step read_type_not_done [OF good, of m byte] by (simp add: record_parser_read_byte_def)
next
  case RP_EXPECT_BUNDLE_SOURCE_LENGTH
  then show ?thesis
    using step read_source_length_not_done [OF good, of m byte] by (simp add: record_parser_read_byte_def)
next
  case RP_EXPECT_BUNDLE_SOURCE_EID
  then show ?thesis
    using step by (auto simp: record_parser_read_byte_def obind_eq_Inr dest: read_source_byte_not_done)
qed (use step good in
      \<open>auto simp: record_parser_read_byte_def record_sdnv_not_done split: option.splits\<close>)

lemma parser_loop_not_done:
  "record_parser_loop m bs p = Inr (p', m') \<Longrightarrow> rp_status p \<noteq> PARSER_STATUS_DONE \<Longrightarrow>
    rp_status p' \<noteq> PARSER_STATUS_DONE"
proof (induction bs arbitrary: m p)
  case (Cons byte bs)
  then show ?case
    using read_byte_not_done [of p m byte] by (auto simp: obind_eq_Inr split: if_splits)
qed simp

text \<open>What a generated bundle carries: the header of the record and as much of the source EID as its length says.\<close>

lemma create_local_payload:
  assumes "bundle6_create_local m payload src dest creation life flags = Inr (Some r, m')"
  shows "\<exists>pl. deref_payload r = Inr pl \<and> blk_data pl = Some payload"
  using assms
  by (auto simp: bundle6_create_local_def bundle6_recalculate_header_length_def
      bundle6_recalculate_header_length_internal_def obind_eq_Inr deref_payload_def Let_def
      split: option.splits prod.splits if_splits)

lemma encapsulated_payload:
  assumes "encapsulate_record m now b src dest payload = Inr (Some r, m')"
  shows "\<exists>pl. deref_payload r = Inr pl \<and> blk_data pl = Some payload"
proof -
  obtain d r1 where "bundle6_create_local m payload src d now (bundle_get_expiration_time now b - now)
      BUNDLE_FLAG_ADMINISTRATIVE_RECORD = Inr (Some r1, m')"
    and r: "r = r1\<lparr>ret_constraints := BUNDLE_RET_CONSTRAINT_FLAG_OWN\<rparr>"
    using assms by (auto simp: encapsulate_record_def obind_eq_Inr Let_def split: if_splits option.splits)
  from create_local_payload [OF this(1)] show ?thesis by (cases "payload_block r1") (simp_all add: r deref_payload_def)
qed

lemma generated_record:
  assumes "generate_record m now now_ms b src dest c p1 p2 = Inr (Some r, m')"
  shows "\<exists>pl n len rest. deref_payload r = Inr pl \<and> blk_data pl = Some (record_header b n now_ms len c p1 p2 @ rest)"
proof -
  obtain m2 n len rest where "encapsulate_record m2 now b src dest (record_header b n now_ms len c p1 p2 @ rest) = Inr (Some r, m')"
  proof -
    obtain x m1 n src' where "malloc m = (Some x, m1)" "source b = Some src'" and
      s: "(if length (record_header b n now_ms (unat (of_nat (length src') :: u16)) c p1 p2) > ADMINISTRATVE_RECORD_MAX_SIZE
        then Inl Out_Of_Bounds else (case malloc m1 of (None, m2) \<Rightarrow> Inl Null_Deref
          | (Some _, m2) \<Rightarrow> encapsulate_record m2 now b src dest
              (record_header b n now_ms (unat (of_nat (length src') :: u16)) c p1 p2 @
               c_chars (take (unat (of_nat (length src') :: u16)) src')))) = Inr (Some r, m')"
      using assms by (cases "malloc m"; cases "source b")
        (auto simp: generate_record_def obind_eq_Inr Let_def split: option.splits)
    then show ?thesis
      by (cases "malloc m1") (auto split: if_splits option.splits intro: that)
  qed
  from encapsulated_payload [OF this] show ?thesis by blast
qed

definition typed_as :: "u32 \<Rightarrow> bundle_t \<Rightarrow> bool" where
  "typed_as t r \<longleftrightarrow> (\<exists>pl byte rest. deref_payload r = Inr pl \<and> blk_data pl = Some (byte # rest) \<and>
     (\<forall>m p. ar_type (rp_record (fst (read_record_type m byte p))) = t))"

lemma generated_type:
  assumes "generate_record m now now_ms b src dest c p1 p2 = Inr (Some r, m')"
  shows "typed_as (if c then BUNDLE_AR_CUSTODY_SIGNAL else BUNDLE_AR_STATUS_REPORT) r"
proof -
  obtain pl n len rest where "deref_payload r = Inr pl" "blk_data pl = Some (record_header b n now_ms len c p1 p2 @ rest)"
    using generated_record [OF assms] by blast
  then show ?thesis
    by (auto simp: typed_as_def record_header_def read_record_type_def record_parser_next_def split: prod.splits)
qed

text \<open>
  C28 (error). No administrative record of RFC 5050 is ever understood: whatever the payload and the memory,
  the parser does not return a record, because the case that reads the source EID falls through to the one that
  sets the error status. The type would be misread as well, since both generators pass the opposite of the flag
  that \<open>generate_record\<close> tests: in the bundle made by \<open>bundle6_generate_status_report\<close> the first byte of the payload is
  read back as that of a custody signal, and in the one made by \<open>bundle6_generate_custody_signal\<close> as that of a status report.
\<close>

theorem reports_never_understood:
  "bundle6_parse_administrative_record m junk data \<noteq> Inr (Some record, m') \<and>
   (bundle6_generate_status_report m now now_ms b report eid = Inr (Some r, m1) \<longrightarrow>
     typed_as BUNDLE_AR_CUSTODY_SIGNAL r \<and> \<not> typed_as BUNDLE_AR_STATUS_REPORT r) \<and>
   (bundle6_generate_custody_signal m now now_ms b signal eid = Inr (Some r, m1) \<longrightarrow>
     typed_as BUNDLE_AR_STATUS_REPORT r \<and> \<not> typed_as BUNDLE_AR_CUSTODY_SIGNAL r)"
proof -
  have "bundle6_parse_administrative_record m junk data \<noteq> Inr (Some record, m')"
    by (auto simp: bundle6_parse_administrative_record_def record_parser_init_def obind_eq_Inr
        dest!: parser_loop_not_done split: option.splits prod.splits if_splits)
  moreover have "t = t'" if "typed_as t r" "typed_as t' r" for t t'
    using that by (auto simp: typed_as_def)
  ultimately show ?thesis
    by (auto simp: bundle6_generate_status_report_def bundle6_generate_custody_signal_def dest!: generated_type)
      (auto simp: typed_as_def)
qed

text \<open>A bundle whose reports go to another node.\<close>

definition reported_bundle :: bundle_t where
  "reported_bundle = sample_bundle\<lparr>protocol_version := 6, lifetime := 90000000, current_custodian := Some ''dtn:c'',
     report_to := Some ''dtn:r''\<rparr>"

theorem reports_never_understood_witness:
  "(\<exists>r m1. bundle6_generate_status_report (mem_ok [1..<40]) 20 20000 reported_bundle \<lparr>sr_status = 1, sr_reason = 0\<rparr> ''dtn:l'' =
      Inr (Some r, m1) \<and> typed_as BUNDLE_AR_CUSTODY_SIGNAL r) \<and>
   (\<exists>r m1. bundle6_generate_custody_signal (mem_ok [1..<40]) 20 20000 reported_bundle
      \<lparr>cs_type = BUNDLE_CS_TYPE_ACCEPTANCE, cs_reason = 0\<rparr> ''dtn:l'' = Inr (Some r, m1) \<and> typed_as BUNDLE_AR_STATUS_REPORT r)"
proof -
  let ?g = "bundle6_generate_status_report (mem_ok [1..<40]) 20 20000 reported_bundle \<lparr>sr_status = 1, sr_reason = 0\<rparr> ''dtn:l''"
  let ?h = "bundle6_generate_custody_signal (mem_ok [1..<40]) 20 20000 reported_bundle
      \<lparr>cs_type = BUNDLE_CS_TYPE_ACCEPTANCE, cs_reason = 0\<rparr> ''dtn:l''"
  have "case ?g of Inl e \<Rightarrow> False | Inr (r, m1) \<Rightarrow> r \<noteq> None" "case ?h of Inl e \<Rightarrow> False | Inr (r, m1) \<Rightarrow> r \<noteq> None"
    by code_simp+
  then obtain r m1 r' m1' where "?g = Inr (Some r, m1)" "?h = Inr (Some r', m1')"
    by (auto split: sum.splits)
  then show ?thesis
    using reports_never_understood [THEN conjunct2, THEN conjunct1, THEN mp, of "mem_ok [1..<40]" 20 20000 reported_bundle]
      reports_never_understood [THEN conjunct2, THEN conjunct2, THEN mp, of "mem_ok [1..<40]" 20 20000 reported_bundle]
    by blast
qed

end
