(* ===== verification/Custody_Manager.thy ===== *)
theory Custody_Manager
  imports Bundle_Storage Fragment Reports
begin

text \<open>
  The bundles this node is custodian of: \<open>components/upcn/custody_manager.c\<close>. The static array of pointers is
  kept byte by byte, as on the 64-bit little-endian POSIX platform, because the release of a custody moves
  bytes of it. A bundle is an object of the heap, a pointer its address.
\<close>

section \<open>The table\<close>

definition CUSTODY_MAX_BUNDLE_COUNT :: nat where "CUSTODY_MAX_BUNDLE_COUNT = 16"

definition CUSTODY_MAX_BUNDLE_SIZE :: u64 where "CUSTODY_MAX_BUNDLE_SIZE = 1024"

record custody_state =
  accepted_bundles :: bytes
  accepted_bundle_count :: nat
  upcn_eid :: "string option"

definition custody_start :: custody_state where
  "custody_start = \<lparr>accepted_bundles = replicate (8 * CUSTODY_MAX_BUNDLE_COUNT) 0, accepted_bundle_count = 0,
     upcn_eid = None\<rparr>"

definition pointer_bytes :: "addr \<Rightarrow> bytes" where
  "pointer_bytes a = map (\<lambda>k. of_nat (a div 256 ^ k)) [0..<8]"

fun bytes_pointer :: "bytes \<Rightarrow> addr" where
  "bytes_pointer [] = 0"
| "bytes_pointer (b # bs) = unat b + 256 * bytes_pointer bs"

text \<open>The element \<open>accepted_bundles[i]\<close>, read and written.\<close>

definition accepted_bundle :: "custody_state \<Rightarrow> nat \<Rightarrow> addr" where
  "accepted_bundle c i = bytes_pointer (take 8 (drop (8 * i) (accepted_bundles c)))"

definition store_pointer :: "bytes \<Rightarrow> nat \<Rightarrow> addr \<Rightarrow> bytes" where
  "store_pointer array i a = take (8 * i) array @ pointer_bytes a @ drop (8 * i + 8) array"

text \<open>\<open>memmove\<close> of \<open>n\<close> bytes within the array.\<close>

definition memmove :: "bytes \<Rightarrow> nat \<Rightarrow> nat \<Rightarrow> nat \<Rightarrow> bytes" where
  "memmove array dst src n = take dst array @ take n (drop src array) @ drop (dst + n) array"

section \<open>Searching\<close>

definition get_index :: "custody_state \<Rightarrow> addr \<Rightarrow> nat option" where
  "get_index c bundle = List.find (\<lambda>i. accepted_bundle c i = bundle) [0..<accepted_bundle_count c]"

text \<open>
  The comparison with an accepted bundle. The sequence number of the search is a 16-bit number, that of
  the bundle a 64-bit one.
\<close>

definition custody_matches :: "u64 \<Rightarrow> u16 \<Rightarrow> string option \<Rightarrow> u32 \<Rightarrow> u32 \<Rightarrow> bundle_t \<Rightarrow> bool outcome" where
  "custody_matches creation seq src offset len b =
     and_then (Inr (creation_timestamp b = creation \<and> sequence_number b = ucast seq))
      (and_then (str_equal (source b) src)
        (if \<not> bundle_is_fragmented b then Inr True
         else and_then (Inr (fragment_offset b = offset))
           (obind (deref_payload b) (\<lambda>pl. Inr (blk_length pl = len)))))"

fun custody_find :: "bundle_heap \<Rightarrow> (bundle_t \<Rightarrow> bool outcome) \<Rightarrow> addr list \<Rightarrow> addr option outcome" where
  "custody_find H matches [] = Inr None"
| "custody_find H matches (a # as) =
     obind (deref_bundle H a) (\<lambda>b. obind (matches b) (\<lambda>hit.
       if hit then Inr (Some a) else custody_find H matches as))"

definition custody_list :: "custody_state \<Rightarrow> addr list" where
  "custody_list c = map (accepted_bundle c) [0..<accepted_bundle_count c]"

definition custody_manager_has_redundant_bundle :: "custody_state \<Rightarrow> bundle_heap \<Rightarrow> addr \<Rightarrow> bool outcome" where
  "custody_manager_has_redundant_bundle c H bundle =
     obind (deref_bundle H bundle) (\<lambda>b. obind (deref_payload b) (\<lambda>pl.
     obind (custody_find H (custody_matches (creation_timestamp b) (ucast (sequence_number b)) (source b)
         (fragment_offset b) (blk_length pl)) (custody_list c)) (\<lambda>hit. Inr (hit \<noteq> None))))"

definition custody_manager_has_accepted :: "custody_state \<Rightarrow> addr \<Rightarrow> bool" where
  "custody_manager_has_accepted c bundle \<longleftrightarrow> get_index c bundle \<noteq> None"

definition custody_manager_get_by_record :: "custody_state \<Rightarrow> bundle_heap \<Rightarrow> bundle_administrative_record \<Rightarrow>
    addr option outcome" where
  "custody_manager_get_by_record c H r =
     custody_find H (custody_matches (bundle_creation_timestamp r) (ucast (bundle_sequence_number r))
       (map_option (\<lambda>e. map byte_char (takeWhile (\<lambda>x. x \<noteq> 0) e)) (bundle_source_eid r))
       (ar_fragment_offset r) (ar_fragment_length r)) (custody_list c)"

section \<open>Acceptance\<close>

text \<open>Computing the serialized size of an RFC 5050 bundle changes its stored header length.\<close>

definition custody_manager_storage_is_acceptable :: "alloc_trace \<Rightarrow> custody_state \<Rightarrow> bundle_heap \<Rightarrow> addr \<Rightarrow>
    (bool \<times> bundle_heap \<times> alloc_trace) outcome" where
  "custody_manager_storage_is_acceptable m c H bundle =
     obind (deref_bundle H bundle) (\<lambda>b.
     let bpv6_se_check = (protocol_version b = 6 \<and> \<not> HAS_FLAG (proc_flags b) BUNDLE_V6_FLAG_SINGLETON_ENDPOINT) in
     if accepted_bundle_count c \<ge> CUSTODY_MAX_BUNDLE_COUNT then Inr (False, H, m)
     else if get_index c bundle \<noteq> None then Inr (False, H, m)
     else obind (bundle_get_serialized_size m b) (\<lambda>(size, b1, m1).
       Inr (\<not> (size > CUSTODY_MAX_BUNDLE_SIZE \<or> bpv6_se_check), H(bundle \<mapsto> b1), m1)))"

definition custody_manager_accept :: "alloc_trace \<Rightarrow> custody_state \<Rightarrow> bundle_heap \<Rightarrow> addr \<Rightarrow>
    (upcn_result \<times> custody_state \<times> bundle_heap \<times> alloc_trace) outcome" where
  "custody_manager_accept m c H bundle =
     obind (custody_manager_has_redundant_bundle c H bundle) (\<lambda>redundant. c_assert (\<not> redundant)
     (obind (custody_manager_storage_is_acceptable m c H bundle) (\<lambda>(acceptable, H1, m1). c_assert acceptable
     (obind (deref_bundle H1 bundle) (\<lambda>b.
     let c1 = c\<lparr>accepted_bundles := store_pointer (accepted_bundles c) (accepted_bundle_count c) bundle,
           accepted_bundle_count := accepted_bundle_count c + 1\<rparr>;
         b1 = b\<lparr>ret_constraints := ret_constraints b OR BUNDLE_RET_CONSTRAINT_CUSTODY_ACCEPTED\<rparr> in
     if protocol_version b = 6 then (case upcn_eid c of
         None \<Rightarrow> Inl Null_Deref
       | Some eid \<Rightarrow>
           (let (custodian, m2) = strdup m1 (Some eid)
            in Inr (UPCN_OK, c1, H1(bundle \<mapsto> b1\<lparr>current_custodian := custodian\<rparr>), m2)))
     else Inr (UPCN_FAIL, c1, H1(bundle \<mapsto> b1), m1))))))"

section \<open>Release\<close>

definition bundle_drop :: "bundle_heap \<Rightarrow> addr \<Rightarrow> bundle_heap outcome" where
  "bundle_drop H bundle = obind (deref_bundle H bundle) (\<lambda>b.
     c_assert (ret_constraints b = BUNDLE_RET_CONSTRAINT_NONE) (Inr (H(bundle := None))))"

text \<open>\<open>num\<close> is the number of the pointers behind the released one, and the number of bytes moved.\<close>

definition custody_remove :: "custody_state \<Rightarrow> nat \<Rightarrow> custody_state" where
  "custody_remove c index =
     (let num = accepted_bundle_count c - index - 1
      in c\<lparr>accepted_bundles := (if index \<noteq> accepted_bundle_count c - 1
             then memmove (accepted_bundles c) (8 * index) (8 * (index + 1)) num else accepted_bundles c),
           accepted_bundle_count := accepted_bundle_count c - 1\<rparr>)"

definition custody_manager_release :: "custody_state \<Rightarrow> storage_state \<Rightarrow> bundle_heap \<Rightarrow> addr \<Rightarrow>
    (custody_state \<times> storage_state \<times> bundle_heap) outcome" where
  "custody_manager_release c st H bundle = (case get_index c bundle of
       None \<Rightarrow> Inr (c, st, H)
     | Some index \<Rightarrow>
         obind (deref_bundle H bundle) (\<lambda>b.
         let b1 = b\<lparr>ret_constraints := ret_constraints b AND NOT BUNDLE_RET_CONSTRAINT_CUSTODY_ACCEPTED\<rparr>;
             H1 = H(bundle \<mapsto> b1); c1 = custody_remove c index in
         if ret_constraints b1 = BUNDLE_RET_CONSTRAINT_NONE
         then obind (bundle_storage_delete (bundle_id b1) st H1) (\<lambda>(_, st1).
           obind (bundle_drop H1 bundle) (\<lambda>H2. Inr (c1, st1, H2)))
         else Inr (c1, st, H1)))"

definition custody_manager_init :: "string option \<Rightarrow> custody_state \<Rightarrow> custody_state" where
  "custody_manager_init local_eid c = c\<lparr>upcn_eid := local_eid\<rparr>"

section \<open>What a release leaves\<close>

text \<open>A pointer whose low \<open>k\<close> bytes are those of another one.\<close>

definition mixed_pointer :: "nat \<Rightarrow> addr \<Rightarrow> addr \<Rightarrow> addr" where
  "mixed_pointer k p q = (if 8 \<le> k then q else p div 256 ^ k * 256 ^ k + q mod 256 ^ k)"

definition custody_wf :: "custody_state \<Rightarrow> bool" where
  "custody_wf c \<longleftrightarrow> length (accepted_bundles c) = 8 * CUSTODY_MAX_BUNDLE_COUNT \<and>
     accepted_bundle_count c \<le> CUSTODY_MAX_BUNDLE_COUNT"

lemma length_pointer_bytes [simp]: "length (pointer_bytes a) = 8"
  by (simp add: pointer_bytes_def)

lemma bytes_pointer_append: "bytes_pointer (xs @ ys) = bytes_pointer xs + 256 ^ length xs * bytes_pointer ys"
  by (induction xs) (auto simp: algebra_simps)

lemma bytes_pointer_less: "bytes_pointer xs < 256 ^ length xs"
proof (induction xs)
  case (Cons b xs)
  have "unat b < 256" using unsigned_less [of b, where ?'a = nat] by simp
  moreover have "256 * (bytes_pointer xs + 1) \<le> 256 * 256 ^ length xs"
    using Cons by simp
  ultimately show ?case by simp
qed simp

lemma bytes_pointer_take: "bytes_pointer (take k xs) = bytes_pointer xs mod 256 ^ k"
proof (cases "k \<le> length xs")
  case True
  then have "bytes_pointer xs = bytes_pointer (take k xs) + 256 ^ k * bytes_pointer (drop k xs)"
    using bytes_pointer_append [of "take k xs" "drop k xs"] by simp
  then show ?thesis using bytes_pointer_less [of "take k xs"] True by simp
next
  case False
  then have "(256 :: nat) ^ length xs \<le> 256 ^ k" by (intro power_increasing) auto
  then have "bytes_pointer xs < 256 ^ k" using bytes_pointer_less [of xs] by linarith
  with False show ?thesis by simp
qed

lemma bytes_pointer_drop: "bytes_pointer (drop k xs) = bytes_pointer xs div 256 ^ k"
proof (cases "k \<le> length xs")
  case True
  then have "bytes_pointer xs = bytes_pointer (take k xs) + 256 ^ k * bytes_pointer (drop k xs)"
    using bytes_pointer_append [of "take k xs" "drop k xs"] by simp
  then show ?thesis using bytes_pointer_less [of "take k xs"] True by simp
next
  case False
  then have "(256 :: nat) ^ length xs \<le> 256 ^ k" by (intro power_increasing) auto
  then have "bytes_pointer xs < 256 ^ k" using bytes_pointer_less [of xs] by linarith
  with False show ?thesis by simp
qed

lemma bytes_pointer_digits: "bytes_pointer (map (\<lambda>k. of_nat (a div 256 ^ k)) [0..<n]) = a mod 256 ^ n"
proof (induction n)
  case (Suc n)
  have "unat (of_nat (a div 256 ^ n) :: u8) = a div 256 ^ n mod 256"
    by (simp add: unsigned_of_nat take_bit_nat_def)
  moreover have "a mod 256 ^ Suc n = a mod 256 ^ n + 256 ^ n * (a div 256 ^ n mod 256)"
    using mod_mult2_eq [of a "256 ^ n" 256] by (simp add: mult.commute)
  ultimately show ?case
    using Suc by (simp add: bytes_pointer_append)
qed simp

lemma bytes_pointer_pointer_bytes: "a < 2 ^ 64 \<Longrightarrow> bytes_pointer (pointer_bytes a) = a"
  unfolding pointer_bytes_def bytes_pointer_digits by simp

lemma memmove_nth:
  assumes "dst + n \<le> length xs" and "src + n \<le> length xs" and "x < length xs"
  shows "memmove xs dst src n ! x = (if dst \<le> x \<and> x < dst + n then xs ! (x - dst + src) else xs ! x)"
proof -
  have n: "length (take n (drop src xs)) = n" and d: "length (take dst xs) = dst"
    using assms by simp_all
  consider "x < dst" | t where "x = dst + t" "t < n" | t where "x = dst + n + t"
    by (metis add.assoc le_Suc_ex less_or_eq_imp_le nat_add_left_cancel_less not_le)
  then show ?thesis
    by cases (use assms n d in \<open>simp_all add: memmove_def nth_append add.commute\<close>)
qed

lemma length_memmove:
  "dst + n \<le> length xs \<Longrightarrow> src + n \<le> length xs \<Longrightarrow> length (memmove xs dst src n) = length xs"
  by (simp add: memmove_def)

lemma mixed_pointer_bytes:
  assumes "length p = 8" and "length q = 8"
  shows "bytes_pointer (take k q @ drop k p) = mixed_pointer k (bytes_pointer p) (bytes_pointer q)"
proof (cases "8 \<le> k")
  case True
  then show ?thesis using assms by (simp add: mixed_pointer_def)
next
  case False
  then show ?thesis using assms
    by (simp add: mixed_pointer_def bytes_pointer_append bytes_pointer_take bytes_pointer_drop min_def mult.commute)
qed

lemma removed_slot:
  assumes wf: "custody_wf c" and i: "i < accepted_bundle_count c" and j: "j < accepted_bundle_count c - 1"
  shows "accepted_bundle (custody_remove c i) j =
    (if j < i then accepted_bundle c j
     else mixed_pointer (accepted_bundle_count c - i - 1 - 8 * (j - i)) (accepted_bundle c j) (accepted_bundle c (j + 1)))"
proof -
  let ?n = "accepted_bundle_count c" and ?xs = "accepted_bundles c"
  let ?num = "?n - i - 1"
  have len: "length ?xs = 128" and n: "?n \<le> 16"
    using wf by (simp_all add: custody_wf_def CUSTODY_MAX_BUNDLE_COUNT_def)
  let ?ys = "if i \<noteq> ?n - 1 then memmove ?xs (8 * i) (8 * (i + 1)) ?num else ?xs"
  have room: "8 * i + ?num \<le> length ?xs" "8 * (i + 1) + ?num \<le> length ?xs"
    using i n unfolding len by arith+
  have ys: "length ?ys = 128" using length_memmove [OF room] len by simp
  have nth: "?ys ! x = (if 8 * i \<le> x \<and> x < 8 * i + ?num then ?xs ! (x + 8) else ?xs ! x)" if "x < 128" for x
    using memmove_nth [OF room, of x] that len by auto
  let ?p = "take 8 (drop (8 * j) ?xs)" and ?q = "take 8 (drop (8 * (j + 1)) ?xs)"
  have lp: "length ?p = 8" and lq: "length ?q = 8" using j n len by auto
  have slot: "accepted_bundle (custody_remove c i) j = bytes_pointer (take 8 (drop (8 * j) ?ys))"
    by (simp add: accepted_bundle_def custody_remove_def Let_def)
  show ?thesis
  proof (cases "j < i")
    case True
    have "take 8 (drop (8 * j) ?ys) = ?p"
      by (rule nth_equalityI) (use True j n len ys nth in \<open>auto\<close>)
    then show ?thesis using True slot by (simp add: accepted_bundle_def)
  next
    case False
    let ?k = "?num - 8 * (j - i)"
    have "take 8 (drop (8 * j) ?ys) = take ?k ?q @ drop ?k ?p"
    proof (rule nth_equalityI)
      have "length (take ?k ?q @ drop ?k ?p) = 8"
        unfolding length_append length_take [of ?k] length_drop [of ?k] lp lq by simp
      moreover have "length (take 8 (drop (8 * j) ?ys)) = 8"
        using j n unfolding length_take length_drop ys by arith
      ultimately show "length (take 8 (drop (8 * j) ?ys)) = length (take ?k ?q @ drop ?k ?p)"
        by (simp only:)
      fix x assume "x < length (take 8 (drop (8 * j) ?ys))"
      then have x: "x < 8" by simp
      then show "take 8 (drop (8 * j) ?ys) ! x = (take ?k ?q @ drop ?k ?p) ! x"
        using nth [of "8 * j + x"] False j n len ys lp lq by (auto simp: nth_append algebra_simps)
    qed
    then show ?thesis
      using False slot mixed_pointer_bytes [OF lp lq, of ?k] by (simp add: accepted_bundle_def)
  qed
qed

text \<open>The position of a bundle in the table.\<close>

lemma get_index_Some:
  "get_index c a = Some i \<Longrightarrow> i < accepted_bundle_count c \<and> accepted_bundle c i = a"
  by (auto simp: get_index_def find_Some_iff)

lemma has_accepted_iff: "custody_manager_has_accepted c a \<longleftrightarrow> a \<in> set (custody_list c)"
  by (auto simp: custody_manager_has_accepted_def get_index_def custody_list_def find_None_iff)

lemma custody_wf_remove: "custody_wf c \<Longrightarrow> i < accepted_bundle_count c \<Longrightarrow> custody_wf (custody_remove c i)"
  by (auto simp: custody_wf_def custody_remove_def CUSTODY_MAX_BUNDLE_COUNT_def Let_def length_memmove)

lemma custody_list_remove:
  assumes "custody_wf c" and i: "i < accepted_bundle_count c"
  shows "custody_list (custody_remove c i) = take i (custody_list c) @
    map (\<lambda>j. mixed_pointer (accepted_bundle_count c - i - 1 - 8 * (j - i)) (custody_list c ! j) (custody_list c ! (j + 1)))
      [i..<accepted_bundle_count c - 1]"
proof (rule nth_equalityI)
  have n: "accepted_bundle_count (custody_remove c i) = accepted_bundle_count c - 1"
    by (simp add: custody_remove_def Let_def)
  show "length (custody_list (custody_remove c i)) = length (take i (custody_list c) @
    map (\<lambda>j. mixed_pointer (accepted_bundle_count c - i - 1 - 8 * (j - i)) (custody_list c ! j) (custody_list c ! (j + 1)))
      [i..<accepted_bundle_count c - 1])"
    using i by (simp add: custody_list_def n)
  fix j assume "j < length (custody_list (custody_remove c i))"
  then have j: "j < accepted_bundle_count c - 1" by (simp add: custody_list_def n)
  show "custody_list (custody_remove c i) ! j = (take i (custody_list c) @
    map (\<lambda>j. mixed_pointer (accepted_bundle_count c - i - 1 - 8 * (j - i)) (custody_list c ! j) (custody_list c ! (j + 1)))
      [i..<accepted_bundle_count c - 1]) ! j"
    using removed_slot [OF assms j] i j
    by (auto simp: custody_list_def nth_append n min_def)
qed

lemma custody_list_append:
  assumes wf: "custody_wf c" and room: "accepted_bundle_count c < CUSTODY_MAX_BUNDLE_COUNT" and "a < 2 ^ 64"
  defines "c' \<equiv> c\<lparr>accepted_bundles := store_pointer (accepted_bundles c) (accepted_bundle_count c) a,
    accepted_bundle_count := accepted_bundle_count c + 1\<rparr>"
  shows "custody_list c' = custody_list c @ [a]" and "custody_wf c'"
proof -
  let ?n = "accepted_bundle_count c" and ?xs = "accepted_bundles c"
  have n: "?n < 16" and len: "length ?xs = 128"
    using wf room by (auto simp: custody_wf_def CUSTODY_MAX_BUNDLE_COUNT_def)
  have "accepted_bundle c' j = accepted_bundle c j" if "j < ?n" for j
  proof -
    have "8 * j + 8 \<le> 8 * ?n" using that by simp
    then have "take 8 (drop (8 * j) (take (8 * ?n) ?xs)) = take 8 (drop (8 * j) ?xs)"
      unfolding drop_take take_take by simp
    then show ?thesis
      using that n len by (simp add: accepted_bundle_def c'_def store_pointer_def)
  qed
  moreover have "accepted_bundle c' ?n = a"
    using n len assms(3) by (simp add: accepted_bundle_def c'_def store_pointer_def bytes_pointer_pointer_bytes)
  ultimately show "custody_list c' = custody_list c @ [a]"
    by (simp add: custody_list_def c'_def)
  show "custody_wf c'"
    using n len wf by (simp add: c'_def custody_wf_def store_pointer_def CUSTODY_MAX_BUNDLE_COUNT_def)
qed

section \<open>Properties\<close>

text \<open>A bundle whose constraints change stays stored; when it is removed and dropped, the other lookups stay.\<close>

lemma store_inv_constraints:
  assumes "store_inv st H" and "H a = Some b"
  shows "store_inv st (H(a \<mapsto> b\<lparr>ret_constraints := r\<rparr>))" (is "store_inv st ?H")
proof (rule store_inv_other [OF assms(1)])
  have pl: "payload_length (b\<lparr>ret_constraints := r\<rparr>) = payload_length b"
    by (cases "payload_block b") (simp_all add: payload_length_def deref_payload_def)
  have "list_all (stored_ok H) (inorder (storage_tree st))" using assms(1) by (simp add: store_inv_def)
  then show "keeps_stored st H ?H"
    using assms(2) pl by (auto simp: keeps_stored_def list_all_iff stored_ok_def split: option.splits)
qed

lemma release_drops:
  assumes inv: "store_inv st H" "stored_bytes st H < 2 ^ 32" and H: "H a = Some b"
    and stored: "bundle_storage_get (bundle_id b) st = Some a"
    and i: "get_index c a = Some i"
    and last: "ret_constraints b AND NOT BUNDLE_RET_CONSTRAINT_CUSTODY_ACCEPTED = BUNDLE_RET_CONSTRAINT_NONE"
  shows "\<exists>st'. custody_manager_release c st H a = Inr (custody_remove c i, st', H(a := None)) \<and>
    (\<forall>j. bundle_storage_get j st' = (if j = bundle_id b then None else bundle_storage_get j st))"
proof -
  let ?b = "b\<lparr>ret_constraints := BUNDLE_RET_CONSTRAINT_NONE\<rparr>"
  let ?H = "H(a \<mapsto> ?b)"
  have inv': "store_inv st ?H" by (rule store_inv_constraints [OF inv(1) H])
  have ok: "tree_ok st" using inv(1) by (simp add: store_inv_def)
  then have m: "store_map st (bundle_id b) = Some a" using stored by (simp add: bundle_storage_get_eq)
  have "held_bytes ?H x = held_bytes H x" for x
    using H by (cases "payload_block b") (simp_all add: held_bytes_def payload_length_def deref_payload_def)
  then have "stored_bytes st ?H < 2 ^ 32" using inv(2) by (simp add: stored_bytes_def)
  from store_inv_delete [OF inv' m this] obtain st' where st': "bundle_storage_delete (bundle_id b) st ?H = Inr (True, st')"
    "store_inv st' ?H" "store_map st' = (store_map st)(bundle_id b := None)" by blast
  have "tree_ok st'" using st'(2) by (simp add: store_inv_def)
  moreover have "custody_manager_release c st H a = Inr (custody_remove c i, st', H(a := None))"
    using st'(1) last by (simp add: custody_manager_release_def i H deref_bundle_def bundle_drop_def Let_def)
  ultimately show ?thesis using st'(3) ok by (simp add: bundle_storage_get_eq)
qed

text \<open>
  C27 (functional). Releasing a stored bundle the node is custodian of clears its custody constraint. When it has another
  constraint, nothing else happens to it and to the store; when it has none, as is usual, exactly this bundle is
  removed from the store and dropped. The table loses one entry, but as many bytes are moved as there are bundles
  behind the released one, not as many pointers: the entries before it stay, and each later entry gets only the low bytes
  of its successor that the move reaches. When the bundle was the last of the table, exactly that entry is removed.
\<close>

theorem custody_release_result:
  assumes wf: "custody_wf c" and a: "a \<in> set (custody_list c)" and H: "H a = Some b"
    and store: "store_inv st H" "stored_bytes st H < 2 ^ 32" "bundle_storage_get (bundle_id b) st = Some a"
  shows "\<exists>i c' st' H'. i < length (custody_list c) \<and> custody_list c ! i = a \<and>
    custody_manager_release c st H a = Inr (c', st', H') \<and>
    (let rest = ret_constraints b AND NOT BUNDLE_RET_CONSTRAINT_CUSTODY_ACCEPTED in
     if rest = BUNDLE_RET_CONSTRAINT_NONE
     then H' = H(a := None) \<and>
       (\<forall>j. bundle_storage_get j st' = (if j = bundle_id b then None else bundle_storage_get j st))
     else H' = H(a \<mapsto> b\<lparr>ret_constraints := rest\<rparr>) \<and> st' = st) \<and>
    custody_wf c' \<and>
    custody_list c' = take i (custody_list c) @
      map (\<lambda>j. mixed_pointer (length (custody_list c) - i - 1 - 8 * (j - i))
          (custody_list c ! j) (custody_list c ! (j + 1)))
        [i..<length (custody_list c) - 1] \<and>
    (custody_list c ! (length (custody_list c) - 1) = a \<and> distinct (custody_list c) \<longrightarrow>
      custody_list c' = butlast (custody_list c))"
proof -
  obtain i where i: "get_index c a = Some i"
    using a has_accepted_iff [of c a] by (auto simp: custody_manager_has_accepted_def)
  have n: "length (custody_list c) = accepted_bundle_count c" by (simp add: custody_list_def)
  have pos: "i < accepted_bundle_count c" "custody_list c ! i = a"
    using get_index_Some [OF i] by (simp_all add: custody_list_def)
  have "i = accepted_bundle_count c - 1"
    if "custody_list c ! (accepted_bundle_count c - 1) = a" and "distinct (custody_list c)"
    using that pos n nth_eq_iff_index_eq [of "custody_list c" i "accepted_bundle_count c - 1"] by simp
  then have fin: "custody_list (custody_remove c i) = butlast (custody_list c)"
    if "custody_list c ! (accepted_bundle_count c - 1) = a \<and> distinct (custody_list c)"
    using custody_list_remove [OF wf pos(1)] that n by (simp add: butlast_conv_take)
  have "\<exists>st' H'. custody_manager_release c st H a = Inr (custody_remove c i, st', H') \<and>
    (let rest = ret_constraints b AND NOT BUNDLE_RET_CONSTRAINT_CUSTODY_ACCEPTED in
     if rest = BUNDLE_RET_CONSTRAINT_NONE
     then H' = H(a := None) \<and>
       (\<forall>j. bundle_storage_get j st' = (if j = bundle_id b then None else bundle_storage_get j st))
     else H' = H(a \<mapsto> b\<lparr>ret_constraints := rest\<rparr>) \<and> st' = st)"
  proof (cases "ret_constraints b AND NOT BUNDLE_RET_CONSTRAINT_CUSTODY_ACCEPTED = BUNDLE_RET_CONSTRAINT_NONE")
    case True
    with release_drops [OF store(1,2) H store(3) i] show ?thesis unfolding Let_def by auto
  next
    case False
    then show ?thesis by (simp add: custody_manager_release_def i H deref_bundle_def Let_def)
  qed
  with fin show ?thesis
    using custody_list_remove [OF wf pos(1)] custody_wf_remove [OF wf pos(1)] pos
    unfolding n by blast
qed

text \<open>Of three bundles, the release of the first loses the third and keeps the second twice.\<close>

definition push_bundle :: "custody_state \<Rightarrow> addr \<Rightarrow> custody_state" where
  "push_bundle c a = c\<lparr>accepted_bundles := store_pointer (accepted_bundles c) (accepted_bundle_count c) a,
     accepted_bundle_count := accepted_bundle_count c + 1\<rparr>"

definition sample_custody :: custody_state where
  "sample_custody = push_bundle (push_bundle (push_bundle custody_start 4096) 8192) 12288"

lemma sample_custody_facts: "custody_wf sample_custody" "custody_list sample_custody = [4096, 8192, 12288]"
proof -
  have start: "custody_wf custody_start" "custody_list custody_start = []"
    by (simp_all add: custody_wf_def custody_start_def custody_list_def)
  have count: "accepted_bundle_count (push_bundle c a) = accepted_bundle_count c + 1" for c a
    by (simp add: push_bundle_def)
  have push: "custody_wf (push_bundle c a) \<and> custody_list (push_bundle c a) = custody_list c @ [a]"
    if "custody_wf c" "accepted_bundle_count c < 16" "a < 2 ^ 64" for c a
    using custody_list_append [OF that(1), of a] that
    by (simp add: push_bundle_def CUSTODY_MAX_BUNDLE_COUNT_def)
  have c0: "accepted_bundle_count custody_start = 0" by (simp add: custody_start_def)
  show "custody_wf sample_custody" "custody_list sample_custody = [4096, 8192, 12288]"
    by (simp_all add: sample_custody_def push count start c0)
qed

definition custody_store :: storage_state where
  "custody_store = \<lparr>storage_tree = Nd Null 1 4096 1 Null, next_id = 2, bundle_bytes = 3\<rparr>"

theorem custody_release_result_witness:
  "\<exists>c' st'. custody_manager_release sample_custody custody_store
      (Map.empty(4096 \<mapsto> sample_bundle\<lparr>bundle_id := 1, ret_constraints := 0x04\<rparr>)) 4096 = Inr (c', st', Map.empty) \<and>
    bundle_storage_get 1 st' = None \<and> custody_list c' = [8192, 8192]"
proof -
  let ?b = "sample_bundle\<lparr>bundle_id := 1, ret_constraints := 0x04\<rparr>"
  let ?H = "Map.empty(4096 \<mapsto> ?b)"
  note facts = sample_custody_facts(2)
  have payload: "payload_length ?b = Inr 3"
    by (simp add: payload_length_def deref_payload_def sample_bundle_def sample_payload_def)
  have "4096 \<in> set (custody_list sample_custody)" "?H 4096 = Some ?b"
    "store_inv custody_store ?H" "stored_bytes custody_store ?H < 2 ^ 32"
    "bundle_storage_get (bundle_id ?b) custody_store = Some 4096"
    using payload
    by (simp_all add: facts custody_store_def store_inv_def tree_ok_def sorted_ids_def stored_ok_def stored_bytes_def
        held_bytes_def bundle_storage_get_def)
  note pre = this
  obtain i c' st' H' where r: "i < length [4096, 8192, 12288 :: addr]" "[4096, 8192, 12288] ! i = (4096 :: addr)"
      "custody_manager_release sample_custody custody_store ?H 4096 = Inr (c', st', H')"
      "let rest = ret_constraints ?b AND NOT BUNDLE_RET_CONSTRAINT_CUSTODY_ACCEPTED in
       if rest = BUNDLE_RET_CONSTRAINT_NONE
       then H' = ?H(4096 := None) \<and>
         (\<forall>j. bundle_storage_get j st' = (if j = bundle_id ?b then None else bundle_storage_get j custody_store))
       else H' = ?H(4096 \<mapsto> ?b\<lparr>ret_constraints := rest\<rparr>) \<and> st' = custody_store"
      "custody_list c' = take i [4096, 8192, 12288] @
        map (\<lambda>j. mixed_pointer (length [4096, 8192, 12288 :: addr] - i - 1 - 8 * (j - i))
            ([4096, 8192, 12288] ! j) ([4096, 8192, 12288] ! (j + 1)))
          [i..<length [4096, 8192, 12288 :: addr] - 1]"
    using custody_release_result [OF sample_custody_facts(1) pre] unfolding facts by (elim exE conjE) (rule that)
  have "i = 0" using r(1,2) by (auto simp: less_Suc_eq)
  then show ?thesis using r(3,4,5) by (auto simp: mixed_pointer_def upt_rec)
qed

end
