(* ===== verification/Agent_Manager.thy ===== *)
theory Agent_Manager
  imports Bundle Key_Store
begin

text \<open>
  The registry of application agents, \<open>components/upcn/agent_manager.c\<close>: a linked list of agents in the order
  of registration. A callback is a function pointer, of which only the identity matters here; a delivery is the
  call of a callback with its parameter and the application data unit. Neither allocation of a registration is
  tested.
\<close>

record agent =
  sink_identifier :: string
  agent_callback :: "nat option"
  agent_param :: nat

type_synonym agent_list = "agent list"

text \<open>The first agent with the identifier and the agents before and behind it.\<close>

fun agent_search_ptr :: "string \<Rightarrow> agent_list \<Rightarrow> (agent_list \<times> agent \<times> agent_list) option" where
  "agent_search_ptr sink [] = None"
| "agent_search_ptr sink (a # l) =
     (if sink_identifier a = sink then Some ([], a, l)
      else map_option (\<lambda>(front, b, rest). (a # front, b, rest)) (agent_search_ptr sink l))"

definition agent_search :: "string \<Rightarrow> agent_list \<Rightarrow> agent option" where
  "agent_search sink l = map_option (\<lambda>(_, a, _). a) (agent_search_ptr sink l)"

definition agent_list_add_entry :: "alloc_trace \<Rightarrow> agent \<Rightarrow> agent_list \<Rightarrow>
    (int \<times> agent_list \<times> alloc_trace) outcome" where
  "agent_list_add_entry m obj l =
     (if agent_search (sink_identifier obj) l \<noteq> None then Inr (-1, l, m)
      else case malloc m of
          (None, m1) \<Rightarrow> Inl Null_Deref
        | (Some _, m1) \<Rightarrow> Inr (0, l @ [obj], m1))"

definition agent_register :: "alloc_trace \<Rightarrow> string \<Rightarrow> nat option \<Rightarrow> nat \<Rightarrow> agent_list \<Rightarrow>
    (int \<times> agent_list \<times> alloc_trace) outcome" where
  "agent_register m sink cb param l =
     (if agent_search sink l \<noteq> None then Inr (-1, l, m)
      else case malloc m of
          (None, m1) \<Rightarrow> Inl Null_Deref
        | (Some _, m1) \<Rightarrow>
            obind (agent_list_add_entry m1 \<lparr>sink_identifier = sink, agent_callback = cb, agent_param = param\<rparr> l)
              (\<lambda>(res, l1, m2). Inr (if res \<noteq> 0 then -1 else 0, l1, m2)))"

definition agent_list_remove_entry :: "agent \<Rightarrow> agent_list \<Rightarrow> (int \<times> agent_list) outcome" where
  "agent_list_remove_entry obj l = (case agent_search_ptr (sink_identifier obj) l of
       None \<Rightarrow> Inl Null_Deref
     | Some (front, _, rest) \<Rightarrow> Inr (0, front @ rest))"

definition agent_deregister :: "string \<Rightarrow> agent_list \<Rightarrow> (int \<times> agent_list) outcome" where
  "agent_deregister sink l = (case agent_search sink l of
       None \<Rightarrow> Inr (-1, l)
     | Some ag \<Rightarrow> obind (agent_list_remove_entry ag l) (\<lambda>(res, l1). Inr (if res \<noteq> 0 then -1 else 0, l1)))"

text \<open>The result and the call of the callback that is made, if any.\<close>

type_synonym delivery = "nat \<times> nat \<times> bundle_adu"

definition agent_forward :: "string \<Rightarrow> bundle_adu \<Rightarrow> agent_list \<Rightarrow> int \<times> delivery option" where
  "agent_forward sink adu l = (case agent_search sink l of
       None \<Rightarrow> (-1, None)
     | Some ag \<Rightarrow> (case agent_callback ag of
           None \<Rightarrow> (-1, None)
         | Some cb \<Rightarrow> (0, Some (cb, agent_param ag, adu))))"

section \<open>The registry as a map\<close>

definition sinks_distinct :: "agent_list \<Rightarrow> bool" where
  "sinks_distinct l \<longleftrightarrow> distinct (map sink_identifier l)"

text \<open>A registration of \<open>v\<close> under \<open>k\<close>, and a removal, that succeeded.\<close>

definition registered :: "string \<Rightarrow> nat option \<times> nat \<Rightarrow> agent_list \<Rightarrow> agent_list \<Rightarrow> bool" where
  "registered k v l l' \<longleftrightarrow> (\<exists>m m'. agent_register m k (fst v) (snd v) l = Inr (0, l', m'))"

definition deregistered :: "string \<Rightarrow> agent_list \<Rightarrow> agent_list \<Rightarrow> bool" where
  "deregistered k l l' \<longleftrightarrow> agent_deregister k l = Inr (0, l')"

definition agent_lookup :: "string \<Rightarrow> agent_list \<Rightarrow> (nat option \<times> nat) option" where
  "agent_lookup k l = map_option (\<lambda>a. (agent_callback a, agent_param a)) (agent_search k l)"

lemma search_split:
  "agent_search_ptr k l = Some (front, a, rest) \<Longrightarrow>
    l = front @ a # rest \<and> sink_identifier a = k \<and> k \<notin> sink_identifier ` set front"
  by (induction l arbitrary: front) (auto split: if_splits)

lemma search_None: "agent_search_ptr k l = None \<longleftrightarrow> k \<notin> sink_identifier ` set l"
  by (induction l) auto

lemma search_Nil [simp]: "agent_search k [] = None"
  by (simp add: agent_search_def)

lemma search_Cons [simp]:
  "agent_search k (a # l) = (if sink_identifier a = k then Some a else agent_search k l)"
  by (cases "agent_search_ptr k l") (auto simp: agent_search_def)

lemma search_append:
  "agent_search k (l @ l') = (case agent_search k l of None \<Rightarrow> agent_search k l' | Some a \<Rightarrow> Some a)"
  by (induction l) auto

lemma search_unknown: "agent_search k l = None \<longleftrightarrow> k \<notin> sink_identifier ` set l"
  by (simp add: agent_search_def search_None)

lemma register_cases:
  assumes "registered k v l l'"
  shows "agent_search k l = None" and "l' = l @ [\<lparr>sink_identifier = k, agent_callback = fst v, agent_param = snd v\<rparr>]"
  using assms
  by (auto simp: registered_def agent_register_def agent_list_add_entry_def obind_eq_Inr
      split: if_splits option.splits prod.splits)

lemma deregister_cases:
  assumes "deregistered k l l'"
  obtains front a rest where "l = front @ a # rest" and "l' = front @ rest" and "sink_identifier a = k"
    and "k \<notin> sink_identifier ` set front"
proof -
  obtain front a rest where s: "agent_search_ptr k l = Some (front, a, rest)" "l' = front @ rest"
    using assms search_split
    by (fastforce simp: deregistered_def agent_deregister_def agent_list_remove_entry_def agent_search_def
        split: option.splits prod.splits)
  then show thesis using that search_split [OF s(1)] by fastforce
qed

lemma lookup_Nil [simp]: "agent_lookup k [] = None"
  by (simp add: agent_lookup_def)

lemma lookup_Cons [simp]: "agent_lookup k (a # l) =
    (if sink_identifier a = k then Some (agent_callback a, agent_param a) else agent_lookup k l)"
  by (simp add: agent_lookup_def)

lemma lookup_append: "agent_lookup k (l @ l') =
    (if k \<in> sink_identifier ` set l then agent_lookup k l else agent_lookup k l')"
  by (induction l) auto

lemma lookup_unknown: "agent_lookup k l = None \<longleftrightarrow> k \<notin> sink_identifier ` set l"
  by (simp add: agent_lookup_def search_unknown)

interpretation agents: key_store sinks_distinct agent_lookup registered deregistered
proof
  fix l l' :: agent_list and k j :: string and v :: "nat option \<times> nat"
  assume ok: "sinks_distinct l"
  show "sinks_distinct l'" "agent_lookup k l = None"
    "agent_lookup j l' = (if j = k then Some v else agent_lookup j l)" if "registered k v l l'"
  proof -
    have n: "k \<notin> sink_identifier ` set l"
      and l': "l' = l @ [\<lparr>sink_identifier = k, agent_callback = fst v, agent_param = snd v\<rparr>]"
      using register_cases [OF that] search_unknown by auto
    show "sinks_distinct l'" using ok n by (auto simp: sinks_distinct_def l')
    show "agent_lookup k l = None" using n by (simp add: lookup_unknown)
    show "agent_lookup j l' = (if j = k then Some v else agent_lookup j l)"
      using n lookup_unknown [of j l] by (auto simp: l' lookup_append)
  qed
  show "sinks_distinct l'" "agent_lookup j l' = (if j = k then None else agent_lookup j l)"
    if del: "deregistered k l l'"
  proof -
    obtain front a rest where d: "l = front @ a # rest" "l' = front @ rest" "sink_identifier a = k"
        "k \<notin> sink_identifier ` set front"
      using del by (rule deregister_cases)
    have n: "k \<notin> sink_identifier ` set rest"
      using ok d(3) by (auto simp: sinks_distinct_def d(1))
    show "sinks_distinct l'" using ok by (auto simp: sinks_distinct_def d)
    show "agent_lookup j l' = (if j = k then None else agent_lookup j l)"
      using d(3,4) n lookup_unknown [of k rest] by (auto simp: d(1,2) lookup_append)
  qed
qed

text \<open>
  C40 (refinement). The registry is a map from sink identifiers to callbacks: while memory is available, a registration
  succeeds exactly for an unknown identifier and a removal exactly for a known one, and a call that fails returns -1 and
  leaves the registry as it was. A data unit for an unknown identifier is handed to no one; after a registration it is handed
  exactly once, to the callback registered; for the other identifiers nothing changes, and the registry holds no identifier twice.
\<close>

theorem agents_as_map:
  assumes ok: "sinks_distinct l"
  shows "agent_search k l = None \<and> agent_deregister k l = Inr (-1, l) \<and> (\<forall>adu. agent_forward k adu l = (-1, None)) \<and>
      (\<exists>l' m'. agent_register (Some x # Some y # m) k (Some cb) p l = Inr (0, l', m') \<and> sinks_distinct l' \<and>
        (\<forall>adu. agent_forward k adu l' = (0, Some (cb, p, adu))) \<and>
        (\<forall>j adu. j \<noteq> k \<longrightarrow> agent_forward j adu l' = agent_forward j adu l) \<and>
        agent_deregister k l' = Inr (0, l)) \<or>
    agent_search k l \<noteq> None \<and> agent_register (Some x # Some y # m) k (Some cb) p l = Inr (-1, l, Some x # Some y # m) \<and>
      (\<exists>l'. agent_deregister k l = Inr (0, l') \<and> sinks_distinct l' \<and> (\<forall>adu. agent_forward k adu l' = (-1, None)) \<and>
        (\<forall>j adu. j \<noteq> k \<longrightarrow> agent_forward j adu l' = agent_forward j adu l))"
proof -
  have fwd: "agent_forward j adu l' = (case agent_lookup j l' of Some (Some c, q) \<Rightarrow> (0, Some (c, q, adu)) | _ \<Rightarrow> (-1, None))"
    for j adu l'
    by (auto simp: agent_forward_def agent_lookup_def split: option.splits)
  show ?thesis
  proof (cases "agent_search k l")
    case None
    define l' where "l' = l @ [\<lparr>sink_identifier = k, agent_callback = Some cb, agent_param = p\<rparr>]"
    have reg: "agent_register (Some x # Some y # m) k (Some cb) p l = Inr (0, l', m)"
      using None by (simp add: agent_register_def agent_list_add_entry_def l'_def)
    then have r: "registered k (Some cb, p) l l'" by (auto simp: registered_def)
    have "agent_search_ptr k (l @ [x]) = Some (l, x, [])" if "sink_identifier x = k" for x
      using None that unfolding search_unknown by (induction l) auto
    then have "agent_deregister k l' = Inr (0, l)"
      by (simp add: agent_deregister_def agent_search_def agent_list_remove_entry_def l'_def)
    moreover have "agent_deregister k l = Inr (-1, l)" "agent_forward k adu l = (-1, None)" for adu
      using None by (simp_all add: agent_deregister_def agent_forward_def)
    ultimately show ?thesis
      using None reg agents.add_ok [OF ok r] agents.get_add [OF ok r] by (auto simp: fwd)
  next
    case (Some a)
    then have reg: "agent_register (Some x # Some y # m) k (Some cb) p l = Inr (-1, l, Some x # Some y # m)"
      by (simp add: agent_register_def)
    obtain front rest where s: "agent_search_ptr k l = Some (front, a, rest)"
      using Some by (auto simp: agent_search_def)
    then have "agent_search_ptr (sink_identifier a) l = Some (front, a, rest)"
      using search_split [OF s] by simp
    then have del: "agent_deregister k l = Inr (0, front @ rest)"
      using Some by (simp add: agent_deregister_def agent_list_remove_entry_def)
    then have d: "deregistered k l (front @ rest)" by (simp add: deregistered_def)
    show ?thesis
      using Some reg del agents.del_ok [OF ok d] agents.get_del [OF ok d] by (auto simp: fwd)
  qed
qed

theorem agents_as_map_witness:
  "\<exists>l' m'. agent_register [Some 1, Some 2] ''sink'' (Some 7) 3 [] = Inr (0, l', m') \<and>
     (\<forall>adu. agent_forward ''sink'' adu l' = (0, Some (7, 3, adu))) \<and> agent_deregister ''sink'' l' = Inr (0, [])"
  using agents_as_map [where l = "[]" and x = 1 and y = 2 and m = "[]" and k = "''sink''" and cb = 7 and p = 3] by (auto simp: sinks_distinct_def)

end
