(* ===== verification/Fault_Monad.thy ===== *)
theory Fault_Monad
  imports Upcn_Prelude
begin

text \<open>
  State transformers with faults: a handler takes the state of its component to a result and the state it leaves, or
  to a fault. The tasks of the program are written with them.
\<close>

type_synonym ('s, 'a) handler = "'s \<Rightarrow> ('a \<times> 's) outcome"

definition preturn :: "'a \<Rightarrow> ('s, 'a) handler" where
  "preturn x s = Inr (x, s)"

definition pbind :: "('s, 'a) handler \<Rightarrow> ('a \<Rightarrow> ('s, 'b) handler) \<Rightarrow> ('s, 'b) handler" where
  "pbind p f s = obind (p s) (\<lambda>(x, s1). f x s1)"

definition pseq :: "('s, 'a) handler \<Rightarrow> ('s, 'b) handler \<Rightarrow> ('s, 'b) handler" where
  "pseq p q = pbind p (\<lambda>_. q)"

definition pwhen :: "bool \<Rightarrow> ('s, unit) handler \<Rightarrow> ('s, unit) handler" where
  "pwhen c p = (if c then p else preturn ())"

definition plift :: "'a outcome \<Rightarrow> ('s, 'a) handler" where
  "plift r s = obind r (\<lambda>x. Inr (x, s))"

definition pread :: "('s \<Rightarrow> 'a) \<Rightarrow> ('s, 'a) handler" where
  "pread f s = Inr (f s, s)"

definition pupdate :: "('s \<Rightarrow> 's) \<Rightarrow> ('s, unit) handler" where
  "pupdate f s = Inr ((), f s)"

lemma pwhen_True [simp]: "pwhen True p = p"
  by (simp add: pwhen_def)

lemma pwhen_False: "pwhen False p s = Inr ((), s)"
  by (simp add: pwhen_def preturn_def)

lemma preturn_run: "preturn x s = Inr (x, s)"
  by (simp add: preturn_def)

lemma pupdate_run: "pupdate f s = Inr ((), f s)"
  by (simp add: pupdate_def)

lemma pread_run: "pread f s = Inr (f s, s)"
  by (simp add: pread_def)

lemma plift_run: "plift (Inr x) s = Inr (x, s)"
  by (simp add: plift_def)

text \<open>Stepping through a handler whose operations return.\<close>

lemmas run = pbind_def pseq_def obind_Inr prod.case pwhen_True pwhen_False preturn_run pupdate_run pread_run plift_run

end
