(* ===== verification/Bundle_Processor.thy ===== *)
theory Bundle_Processor
  imports Custody_Manager Agent_Manager Fault_Monad
begin

text \<open>
  The bundle processor, \<open>components/upcn/bundle_processor.c\<close>: the task that takes a signal about a stored
  bundle and performs a step of the processing of RFC 5050 and BPv7-bis on it. The static lists of the file and the
  other components it calls make up one state; a handler is a function from the state to its result and the
  state it leaves, or to a fault. A bundle is passed by its address. The clock is read once per signal; the CBOR
  codecs of BPv7-bis, which are not part of the repository, are members of the environment.
\<close>

abbreviation (input) "BUNDLE_BLOCK_TYPE_HOP_COUNT \<equiv> (10 :: u32)"
abbreviation (input) "BUNDLE_V6_BLOCK_FLAG_FWD_UNPROC \<equiv> (0x20 :: u32)"
abbreviation (input) "BUNDLE_SR_FLAG_BUNDLE_RECEIVED \<equiv> (0x01 :: u32)"
abbreviation (input) "BUNDLE_SR_FLAG_CUSTODY_TRANSFER \<equiv> (0x02 :: u32)"
abbreviation (input) "BUNDLE_SR_FLAG_BUNDLE_FORWARDED \<equiv> (0x04 :: u32)"
abbreviation (input) "BUNDLE_SR_FLAG_BUNDLE_DELIVERED \<equiv> (0x08 :: u32)"
abbreviation (input) "BUNDLE_SR_FLAG_BUNDLE_DELETED \<equiv> (0x10 :: u32)"
abbreviation (input) "BUNDLE_SR_REASON_NO_INFO \<equiv> (0 :: u32)"
abbreviation (input) "BUNDLE_SR_REASON_LIFETIME_EXPIRED \<equiv> (1 :: u32)"
abbreviation (input) "BUNDLE_SR_REASON_TRANSMISSION_CANCELED \<equiv> (3 :: u32)"
abbreviation (input) "BUNDLE_SR_REASON_DEPLETED_STORAGE \<equiv> (4 :: u32)"
abbreviation (input) "BUNDLE_SR_REASON_DEST_EID_UNINTELLIGIBLE \<equiv> (5 :: u32)"
abbreviation (input) "BUNDLE_SR_REASON_BLOCK_UNINTELLIGIBLE \<equiv> (8 :: u32)"
abbreviation (input) "BUNDLE_SR_REASON_HOP_LIMIT_EXCEEDED \<equiv> (9 :: u32)"
abbreviation (input) "BUNDLE_CS_REASON_NO_INFO \<equiv> (0 :: u32)"
abbreviation (input) "BUNDLE_CS_REASON_REDUNDANT_RECEPTION \<equiv> (3 :: u32)"
abbreviation (input) "BUNDLE_CS_REASON_DEPLETED_STORAGE \<equiv> (4 :: u32)"

section \<open>State\<close>

record bundle_hop_count =
  hop_limit :: u16
  hop_count :: u16

record known_bundle =
  known_id :: bundle_unique_identifier
  known_deadline :: u64

record bp_env =
  local_eid :: string
  status_reporting :: bool
  now_s :: u64
  now_ms :: u64
  hop_count_parse :: "bytes option \<Rightarrow> u32 \<Rightarrow> bundle_hop_count option"
  hop_count_serialize :: "bundle_hop_count \<Rightarrow> bytes"
  report_generator7 :: report_generator
  record_reader7 :: record_reader
  stack_junk :: record_parser

text \<open>
  \<open>bp_memory\<close> are the results of the allocations to come, \<open>bp_addresses\<close> the addresses at which generated
  bundles will be placed, \<open>bp_push\<close> the outcomes of the timed pushes to the router's queue. \<open>bp_routed\<close> are the
  identifiers sent to the router, and \<open>bp_delivered\<close> the calls of the agents' callbacks, the latest last.
\<close>

record bp_state =
  bp_memory :: alloc_trace
  bp_addresses :: "addr list"
  bp_push :: "bool list"
  bp_heap :: bundle_heap
  bp_store :: storage_state
  bp_custody :: custody_state
  bp_reassembly :: "addr list list"
  bp_known :: "known_bundle list"
  bp_agents :: agent_list
  bp_routed :: "bundleid_t list"
  bp_delivered :: "delivery list"

section \<open>Handlers as state transformers\<close>

type_synonym 'a proc = "(bp_state, 'a) handler"

text \<open>An operation that reads or uses up the allocations to come.\<close>

definition with_memory :: "(alloc_trace \<Rightarrow> ('a \<times> alloc_trace) outcome) \<Rightarrow> 'a proc" where
  "with_memory f s = obind (f (bp_memory s)) (\<lambda>(x, m). Inr (x, s\<lparr>bp_memory := m\<rparr>))"

definition pmalloc :: "addr option proc" where
  "pmalloc = with_memory (\<lambda>m. Inr (malloc m))"

definition deref :: "addr \<Rightarrow> bundle_t proc" where
  "deref a s = obind (deref_bundle (bp_heap s) a) (\<lambda>b. Inr (b, s))"

definition change_bundle :: "addr \<Rightarrow> (bundle_t \<Rightarrow> bundle_t) \<Rightarrow> unit proc" where
  "change_bundle a f s =
     obind (deref_bundle (bp_heap s) a) (\<lambda>b. Inr ((), s\<lparr>bp_heap := (bp_heap s)(a \<mapsto> f b)\<rparr>))"

section \<open>Operations of the other components\<close>

definition storage_add :: "addr \<Rightarrow> unit proc" where
  "storage_add a = pbind pmalloc (\<lambda>mem s.
     obind (bundle_storage_add mem a (bp_store s) (bp_heap s)) (\<lambda>r. case r of
         None \<Rightarrow> Inl No_Return
       | Some (_, st, H) \<Rightarrow> Inr ((), s\<lparr>bp_store := st, bp_heap := H\<rparr>)))"

definition storage_delete :: "bundleid_t \<Rightarrow> unit proc" where
  "storage_delete k s =
     obind (bundle_storage_delete k (bp_store s) (bp_heap s)) (\<lambda>(_, st). Inr ((), s\<lparr>bp_store := st\<rparr>))"

definition drop_bundle :: "addr \<Rightarrow> unit proc" where
  "drop_bundle a s = obind (bundle_drop (bp_heap s) a) (\<lambda>H. Inr ((), s\<lparr>bp_heap := H\<rparr>))"

definition custody_release :: "addr \<Rightarrow> unit proc" where
  "custody_release a s =
     obind (custody_manager_release (bp_custody s) (bp_store s) (bp_heap s) a) (\<lambda>(c, st, H).
       Inr ((), s\<lparr>bp_custody := c, bp_store := st, bp_heap := H\<rparr>))"

definition custody_acceptable :: "addr \<Rightarrow> bool proc" where
  "custody_acceptable a s =
     obind (custody_manager_storage_is_acceptable (bp_memory s) (bp_custody s) (bp_heap s) a) (\<lambda>(r, H, m).
       Inr (r, s\<lparr>bp_heap := H, bp_memory := m\<rparr>))"

definition custody_accept :: "addr \<Rightarrow> upcn_result proc" where
  "custody_accept a s =
     obind (custody_manager_accept (bp_memory s) (bp_custody s) (bp_heap s) a) (\<lambda>(r, c, H, m).
       Inr (r, s\<lparr>bp_custody := c, bp_heap := H, bp_memory := m\<rparr>))"

text \<open>A new bundle gets the next address; it is not made when there is none left.\<close>

definition place_bundle :: "bundle_t option \<Rightarrow> addr option proc" where
  "place_bundle r s = (case (r, bp_addresses s) of
       (Some b, a # as) \<Rightarrow> Inr (Some a, s\<lparr>bp_addresses := as, bp_heap := (bp_heap s)(a \<mapsto> b)\<rparr>)
     | _ \<Rightarrow> Inr (None, s))"

section \<open>Retention constraints\<close>

definition bundle_add_rc :: "addr \<Rightarrow> u32 \<Rightarrow> unit proc" where
  "bundle_add_rc bundle constraint =
     change_bundle bundle (\<lambda>b. b\<lparr>ret_constraints := ret_constraints b OR constraint\<rparr>)"

definition bundle_discard :: "addr \<Rightarrow> unit proc" where
  "bundle_discard bundle =
     pbind (deref bundle) (\<lambda>b. pseq (storage_delete (bundle_id b)) (drop_bundle bundle))"

definition bundle_rem_rc :: "addr \<Rightarrow> u32 \<Rightarrow> bool \<Rightarrow> unit proc" where
  "bundle_rem_rc bundle constraint discard =
     pseq (change_bundle bundle (\<lambda>b. b\<lparr>ret_constraints := ret_constraints b AND NOT constraint\<rparr>))
      (pbind (deref bundle) (\<lambda>b.
        pwhen (discard \<and> ret_constraints b = BUNDLE_RET_CONSTRAINT_NONE) (bundle_discard bundle)))"

section \<open>Signals to the router\<close>

definition send_bundle :: "bundleid_t \<Rightarrow> u16 \<Rightarrow> upcn_result proc" where
  "send_bundle bundle timeout =
     (if timeout = 0
      then pseq (pupdate (\<lambda>s. s\<lparr>bp_routed := bp_routed s @ [bundle]\<rparr>)) (preturn UPCN_OK)
      else (\<lambda>s. case bp_push s of
          True # rest \<Rightarrow> Inr (UPCN_OK, s\<lparr>bp_push := rest, bp_routed := bp_routed s @ [bundle]\<rparr>)
        | False # rest \<Rightarrow> Inr (UPCN_FAIL, s\<lparr>bp_push := rest\<rparr>)
        | [] \<Rightarrow> Inr (UPCN_FAIL, s)))"

section \<open>Reports, deletion and forwarding\<close>

text \<open>
  Forwarding may delete the bundle, deletion may send a report, and a report is forwarded: the operations in the
  middle take the forwarding as an argument, and forwarding has the depth of the recursion as fuel.
\<close>

definition find_block_by_type :: "block_list \<Rightarrow> u32 \<Rightarrow> (addr \<times> bundle_block) option" where
  "find_block_by_type bl t = List.find (\<lambda>(a, blk). blk_type blk = t) bl"

definition forward_new :: "(addr \<Rightarrow> unit proc) \<Rightarrow> addr \<Rightarrow> unit proc" where
  "forward_new forward a =
     pseq (bundle_add_rc a BUNDLE_RET_CONSTRAINT_DISPATCH_PENDING) (pseq (storage_add a) (forward a))"

definition send_status_report ::
  "(addr \<Rightarrow> unit proc) \<Rightarrow> bp_env \<Rightarrow> addr \<Rightarrow> u32 \<Rightarrow> u32 \<Rightarrow> unit proc" where
  "send_status_report forward env bundle status reason =
     (if \<not> status_reporting env then preturn ()
      else pbind (deref bundle) (\<lambda>b. case destination b of
          None \<Rightarrow> plift (Inl Null_Deref)
        | Some d \<Rightarrow>
            if d = ''dtn:none'' \<or> d = local_eid env then preturn ()
            else pbind (with_memory (\<lambda>m. generate_status_report (report_generator7 env) m (now_s env) (now_ms env) b
                     \<lparr>sr_status = status, sr_reason = reason\<rparr> (local_eid env)))
              (\<lambda>r. pbind (place_bundle r) (\<lambda>new. case new of
                  None \<Rightarrow> preturn ()
                | Some a \<Rightarrow> forward_new forward a))))"

definition send_custody_signal ::
  "(addr \<Rightarrow> unit proc) \<Rightarrow> bp_env \<Rightarrow> addr \<Rightarrow> bundle_custody_signal_type \<Rightarrow> u32 \<Rightarrow> unit proc" where
  "send_custody_signal forward env bundle t reason =
     pbind (deref bundle) (\<lambda>b.
     pbind (with_memory (\<lambda>m. generate_custody_signal m (now_s env) (now_ms env) b
              \<lparr>cs_type = t, cs_reason = reason\<rparr> (local_eid env)))
      (\<lambda>signals. case signals of
          [] \<Rightarrow> preturn ()
        | r # _ \<Rightarrow> pbind (place_bundle (Some r)) (\<lambda>new. case new of
            None \<Rightarrow> preturn ()
          | Some a \<Rightarrow> forward_new forward a)))"

definition bundle_delete :: "(addr \<Rightarrow> unit proc) \<Rightarrow> bp_env \<Rightarrow> addr \<Rightarrow> u32 \<Rightarrow> unit proc" where
  "bundle_delete forward env bundle reason =
     pbind (deref bundle) (\<lambda>b.
     pbind (if HAS_FLAG (ret_constraints b) BUNDLE_RET_CONSTRAINT_CUSTODY_ACCEPTED
            then pseq (custody_release bundle) (preturn True)
            else preturn (HAS_FLAG (proc_flags b) BUNDLE_FLAG_REPORT_DELETION)) (\<lambda>generate_report.
     pseq (pwhen generate_report (send_status_report forward env bundle BUNDLE_SR_FLAG_BUNDLE_DELETED reason))
     (pseq (change_bundle bundle (\<lambda>b. b\<lparr>ret_constraints := ret_constraints b AND BUNDLE_RET_CONSTRAINT_NONE\<rparr>))
       (bundle_discard bundle))))"

definition hop_count_validation :: "(addr \<Rightarrow> u32 \<Rightarrow> unit proc) \<Rightarrow> bp_env \<Rightarrow> addr \<Rightarrow> bool proc" where
  "hop_count_validation delete env bundle =
     pbind (deref bundle) (\<lambda>b. case find_block_by_type (blocks b) BUNDLE_BLOCK_TYPE_HOP_COUNT of
         None \<Rightarrow> preturn True
       | Some (ba, blk) \<Rightarrow> (case hop_count_parse env (blk_data blk) (blk_length blk) of
           None \<Rightarrow> preturn True
         | Some hc \<Rightarrow>
             if hop_count hc \<ge> hop_limit hc
             then pseq (delete bundle BUNDLE_SR_REASON_HOP_LIMIT_EXCEEDED) (preturn False)
             else pbind pmalloc (\<lambda>buffer. case buffer of
                 None \<Rightarrow> preturn True
               | Some _ \<Rightarrow>
                   (let bytes = hop_count_serialize env (hc\<lparr>hop_count := hop_count hc + 1\<rparr>)
                    in pseq (change_bundle bundle (\<lambda>b. b\<lparr>blocks := update_block ba
                          (\<lambda>blk. blk\<lparr>blk_data := Some bytes, blk_length := of_nat (length bytes)\<rparr>) (blocks b)\<rparr>))
                       (preturn True)))))"

fun bundle_forward :: "nat \<Rightarrow> bp_env \<Rightarrow> addr \<Rightarrow> unit proc" where
  "bundle_forward 0 env bundle = plift (Inl No_Return)"
| "bundle_forward (Suc depth) env bundle =
     pbind (hop_count_validation (bundle_delete (bundle_forward depth env) env) env bundle) (\<lambda>ok.
     pwhen ok
      (pseq (bundle_add_rc bundle BUNDLE_RET_CONSTRAINT_FORWARD_PENDING)
      (pseq (bundle_rem_rc bundle BUNDLE_RET_CONSTRAINT_DISPATCH_PENDING False)
      (pbind (deref bundle) (\<lambda>b. pseq (send_bundle (bundle_id b) 0) (preturn ()))))))"

section \<open>Known bundles\<close>

text \<open>
  The scan of \<open>bundle_record_add_and_check_known\<close>: the entries it passes, without the expired ones, the
  entries from the position where it ends, and whether the bundle is there.
\<close>

fun known_scan :: "u64 \<Rightarrow> bundle_t \<Rightarrow> u64 \<Rightarrow> known_bundle list \<Rightarrow>
    (known_bundle list \<times> known_bundle list \<times> bool) outcome" where
  "known_scan now b deadline [] = Inr ([], [], False)"
| "known_scan now b deadline (e # es) =
     obind (bundle_is_equal b (known_id e)) (\<lambda>eq.
       if eq then Inr ([], e # es, True)
       else if known_deadline e < now then known_scan now b deadline es
       else if known_deadline e > deadline then Inr ([], e # es, False)
       else obind (known_scan now b deadline es) (\<lambda>(front, rest, hit). Inr (e # front, rest, hit)))"

definition bundle_record_add_and_check_known :: "bp_env \<Rightarrow> addr \<Rightarrow> bool proc" where
  "bundle_record_add_and_check_known env bundle =
     pbind (deref bundle) (\<lambda>b.
     let deadline = bundle_get_expiration_time (now_s env) b in
     if deadline < now_s env then preturn True
     else pbind (pread bp_known) (\<lambda>known.
       pbind (plift (known_scan (now_s env) b deadline known)) (\<lambda>(front, rest, hit).
       pseq (pupdate (\<lambda>s. s\<lparr>bp_known := front @ rest\<rparr>))
       (if hit then preturn True
        else pbind pmalloc (\<lambda>new. case new of
            None \<Rightarrow> preturn False
          | Some _ \<Rightarrow>
              pbind (with_memory (\<lambda>m. bundle_get_unique_identifier m b)) (\<lambda>uid.
              pseq (pupdate (\<lambda>s. s\<lparr>bp_known := front @ \<lparr>known_id = uid, known_deadline = deadline\<rparr> # rest\<rparr>))
                (preturn False)))))))"

fun reassembled_scan :: "bundle_t \<Rightarrow> u64 \<Rightarrow> known_bundle list \<Rightarrow> bool outcome" where
  "reassembled_scan b deadline [] = Inr False"
| "reassembled_scan b deadline (e # es) =
     obind (bundle_is_equal_parent b (known_id e)) (\<lambda>eq.
       if eq \<and> uid_fragment_offset (known_id e) = 0 \<and> uid_payload_length (known_id e) = total_adu_length b
       then Inr True
       else if known_deadline e > deadline then Inr False
       else reassembled_scan b deadline es)"

definition bundle_reassembled_is_known :: "bp_env \<Rightarrow> addr \<Rightarrow> bool proc" where
  "bundle_reassembled_is_known env bundle =
     pbind (deref bundle) (\<lambda>b. pbind (pread bp_known) (\<lambda>known.
       plift (reassembled_scan b (bundle_get_expiration_time (now_s env) b) known)))"

definition bundle_add_reassembled_as_known :: "bp_env \<Rightarrow> addr \<Rightarrow> unit proc" where
  "bundle_add_reassembled_as_known env bundle =
     pbind (deref bundle) (\<lambda>b.
     let deadline = bundle_get_expiration_time (now_s env) b in
     pbind pmalloc (\<lambda>new. case new of
         None \<Rightarrow> preturn ()
       | Some _ \<Rightarrow>
           pbind (with_memory (\<lambda>m. bundle_get_unique_identifier m b)) (\<lambda>uid.
           pupdate (\<lambda>s. s\<lparr>bp_known :=
             takeWhile (\<lambda>e. \<not> known_deadline e > deadline) (bp_known s) @
             \<lparr>known_id = uid\<lparr>uid_fragment_offset := 0, uid_payload_length := total_adu_length b\<rparr>,
              known_deadline = deadline\<rparr> #
             dropWhile (\<lambda>e. \<not> known_deadline e > deadline) (bp_known s)\<rparr>))))"

section \<open>Custody\<close>

definition bundle_custody_accept :: "(addr \<Rightarrow> unit proc) \<Rightarrow> bp_env \<Rightarrow> addr \<Rightarrow> unit proc" where
  "bundle_custody_accept forward env bundle =
     pbind (custody_accept bundle) (\<lambda>res.
       if res \<noteq> UPCN_OK then preturn ()
       else pbind (deref bundle) (\<lambda>b.
         pseq (pwhen (HAS_FLAG (proc_flags b) BUNDLE_V6_FLAG_REPORT_CUSTODY_ACCEPTANCE)
            (send_status_report forward env bundle BUNDLE_SR_FLAG_CUSTODY_TRANSFER BUNDLE_SR_REASON_NO_INFO))
          (send_custody_signal forward env bundle BUNDLE_CS_TYPE_ACCEPTANCE BUNDLE_CS_REASON_NO_INFO)))"

definition bundle_custody_success :: "addr \<Rightarrow> unit proc" where
  "bundle_custody_success bundle = custody_release bundle"

definition bundle_custody_failure :: "addr \<Rightarrow> u32 \<Rightarrow> unit proc" where
  "bundle_custody_failure bundle reason = custody_release bundle"

definition bundle_handle_custody_signal :: "bundle_administrative_record \<Rightarrow> unit proc" where
  "bundle_handle_custody_signal signal s =
     obind (custody_manager_get_by_record (bp_custody s) (bp_heap s) signal) (\<lambda>r. (case r of
         None \<Rightarrow> preturn ()
       | Some bundle \<Rightarrow> (case ar_custody_signal signal of
           None \<Rightarrow> plift (Inl Null_Deref)
         | Some cs \<Rightarrow>
             if cs_type cs = BUNDLE_CS_TYPE_ACCEPTANCE then bundle_custody_success bundle
             else bundle_custody_failure bundle (cs_reason cs))) s)"

section \<open>Local delivery\<close>

definition get_agent_id :: "bp_env \<Rightarrow> string \<Rightarrow> string option outcome" where
  "get_agent_id env dest =
     (let local_len = length (local_eid env) in
      if local_len = 0 then Inl Out_Of_Bounds
      else if local_eid env ! (local_len - 1) = CHR ''/'' then Inr
        (if length dest \<le> local_len \<or> dest ! (local_len - 1) \<noteq> CHR ''/'' then None else Some (drop local_len dest))
      else Inr
        (if length dest \<le> local_len + 1 \<or> dest ! local_len \<noteq> CHR ''/'' then None
         else Some (drop (local_len + 1) dest)))"

definition deref_string :: "string option \<Rightarrow> string outcome" where
  "deref_string p = (case p of None \<Rightarrow> Inl Null_Deref | Some t \<Rightarrow> Inr t)"

definition bundle_deliver_adu :: "bp_env \<Rightarrow> bundle_adu \<Rightarrow> unit proc" where
  "bundle_deliver_adu env adu =
     (if HAS_FLAG (adu_proc_flags adu) BUNDLE_FLAG_ADMINISTRATIVE_RECORD then
        pbind (with_memory (\<lambda>m. parse_administrative_record (record_reader7 env) m (stack_junk env)
            (adu_protocol_version adu) (map_option (take (adu_length adu)) (adu_payload adu)))) (\<lambda>r. case r of
          None \<Rightarrow> preturn ()
        | Some rec \<Rightarrow> pwhen (ar_type rec = BUNDLE_AR_CUSTODY_SIGNAL) (bundle_handle_custody_signal rec))
      else
        pbind (plift (obind (deref_string (adu_destination adu)) (get_agent_id env))) (\<lambda>agent_id. case agent_id of
          None \<Rightarrow> plift (Inl Assert_Failed)
        | Some sink \<Rightarrow> pupdate (\<lambda>s. s\<lparr>bp_delivered := bp_delivered s @
            (case snd (agent_forward sink adu (bp_agents s)) of None \<Rightarrow> [] | Some d \<Rightarrow> [d])\<rparr>)))"

text \<open>\<open>bundle_to_adu\<close> takes the payload out of the bundle.\<close>

definition adu_from :: "addr \<Rightarrow> bundle_adu proc" where
  "adu_from bundle s =
     obind (deref_bundle (bp_heap s) bundle) (\<lambda>b. obind (bundle_to_adu (bp_memory s) b) (\<lambda>(adu, b1, m).
       Inr (adu, s\<lparr>bp_memory := m, bp_heap := (bp_heap s)(bundle \<mapsto> b1)\<rparr>)))"

section \<open>Reassembly\<close>

definition may_reassemble :: "bundle_t \<Rightarrow> bundle_t \<Rightarrow> bool outcome" where
  "may_reassemble b1 b2 =
     and_then (Inr (creation_timestamp b1 = creation_timestamp b2 \<and> sequence_number b1 = sequence_number b2))
       (str_equal (source b1) (source b2))"

text \<open>The fragments of a slot before the new one, and the others.\<close>

fun insert_position :: "bundle_heap \<Rightarrow> u32 \<Rightarrow> addr list \<Rightarrow> (addr list \<times> addr list) outcome" where
  "insert_position H offset [] = Inr ([], [])"
| "insert_position H offset (a # as) =
     obind (deref_bundle H a) (\<lambda>b.
       if fragment_offset b > offset then Inr ([], a # as)
       else obind (insert_position H offset as) (\<lambda>(front, rest). Inr (a # front, rest)))"

definition add_to_reassembly_bundle_list :: "(addr \<Rightarrow> unit proc) \<Rightarrow> bp_env \<Rightarrow> nat \<Rightarrow> addr \<Rightarrow> unit proc" where
  "add_to_reassembly_bundle_list forward env item bundle =
     pbind (pread (\<lambda>s. bp_reassembly s ! item)) (\<lambda>l.
     pbind (if l = [] then preturn ([], [])
            else pbind (deref bundle) (\<lambda>b s. plift (insert_position (bp_heap s) (fragment_offset b) l) s))
      (\<lambda>(front, rest).
     pbind pmalloc (\<lambda>new. case new of
         None \<Rightarrow> bundle_delete forward env bundle BUNDLE_SR_REASON_DEPLETED_STORAGE
       | Some _ \<Rightarrow> pupdate (\<lambda>s. s\<lparr>bp_reassembly := (bp_reassembly s)[item := front @ bundle # rest]\<rparr>))))"

text \<open>The sum of offset and length has 32 bits; without a complete prefix the loop ends at the null pointer.\<close>

fun can_reassemble :: "bundle_heap \<Rightarrow> nat \<Rightarrow> addr list \<Rightarrow> bool outcome" where
  "can_reassemble H pos_in_bundle [] = Inr False"
| "can_reassemble H pos_in_bundle (a # as) =
     obind (deref_bundle H a) (\<lambda>b.
       if unat (fragment_offset b) > pos_in_bundle then Inr False
       else obind (deref_payload b) (\<lambda>pl.
         let pos = unat (fragment_offset b + blk_length pl)
         in if pos \<ge> unat (total_adu_length b) then Inr True else can_reassemble H pos as))"

text \<open>
  One fragment copied into the payload from the position reached so far, in the 64 bits of \<open>size_t\<close>.
  \<open>copy_payload\<close> is the payload and the new position.
\<close>

definition copy_payload :: "u64 \<Rightarrow> bundle_t \<Rightarrow> bundle_block \<Rightarrow> u64 \<Rightarrow> bytes \<Rightarrow> (bytes \<times> u64) outcome" where
  "copy_payload adu_len b pl pos_in_bundle payload =
     (let offset_in_bundle = pos_in_bundle - ucast (fragment_offset b);
          left = ucast (blk_length pl) - offset_in_bundle; room = adu_len - pos_in_bundle;
          bytes_copied = (if left < room then left else room)
      in if offset_in_bundle < ucast (blk_length pl)
         then obind (copy_from (blk_data pl) (unat offset_in_bundle) (unat bytes_copied)) (\<lambda>bs.
           obind (put_bytes (Some payload) (unat pos_in_bundle) bs) (\<lambda>payload'.
             Inr (payload', pos_in_bundle + bytes_copied)))
         else Inr (payload, pos_in_bundle))"

fun reassemble_loop :: "bp_env \<Rightarrow> u64 \<Rightarrow> bool \<Rightarrow> u64 \<Rightarrow> bytes \<Rightarrow> addr list \<Rightarrow> bytes proc" where
  "reassemble_loop env adu_len added pos payload [] = preturn payload"
| "reassemble_loop env adu_len added pos payload (a # as) =
     pseq (pwhen (\<not> added) (bundle_add_reassembled_as_known env a))
     (pbind (deref a) (\<lambda>b. pbind (plift (deref_payload b)) (\<lambda>pl.
      pbind (plift (copy_payload adu_len b pl pos payload)) (\<lambda>(payload', pos').
      pseq (bundle_rem_rc a BUNDLE_RET_CONSTRAINT_REASSEMBLY_PENDING False)
      (pseq (bundle_discard a)
        (reassemble_loop env adu_len True pos' payload' as))))))"

definition delete_slot :: "nat \<Rightarrow> unit proc" where
  "delete_slot i = pupdate (\<lambda>s. s\<lparr>bp_reassembly := take i (bp_reassembly s) @ drop (i + 1) (bp_reassembly s)\<rparr>)"

text \<open>The fresh payload buffer has unspecified content, here zero.\<close>

definition try_reassemble :: "bp_env \<Rightarrow> nat \<Rightarrow> unit proc" where
  "try_reassemble env slot =
     pbind (pread (\<lambda>s. bp_reassembly s ! slot)) (\<lambda>l.
     pbind (\<lambda>s. plift (can_reassemble (bp_heap s) 0 l) s) (\<lambda>can.
     pwhen can
      (pbind (deref (hd l)) (\<lambda>b.
       pbind pmalloc (\<lambda>payload. case payload of
           None \<Rightarrow> preturn ()
         | Some _ \<Rightarrow>
             pbind (with_memory (\<lambda>m. bundle_adu_init m b)) (\<lambda>adu.
             let n = unat (total_adu_length b) in
             pbind (reassemble_loop env (ucast (total_adu_length b)) False 0 (replicate n 0) l) (\<lambda>bs.
             pseq (delete_slot slot)
               (bundle_deliver_adu env (adu\<lparr>adu_payload := Some bs, adu_length := n\<rparr>)))))))))"

text \<open>The slot whose first fragment belongs to the same bundle.\<close>

fun find_slot :: "bundle_heap \<Rightarrow> addr \<Rightarrow> nat \<Rightarrow> addr list list \<Rightarrow> nat option outcome" where
  "find_slot H bundle i [] = Inr None"
| "find_slot H bundle i (l # ls) = (case l of
       [] \<Rightarrow> Inl Null_Deref
     | a # _ \<Rightarrow> obind (deref_bundle H a) (\<lambda>b1. obind (deref_bundle H bundle) (\<lambda>b2.
         obind (may_reassemble b1 b2) (\<lambda>same.
           if same then Inr (Some i) else find_slot H bundle (i + 1) ls))))"

text \<open>There is no return after the fragment of a known bundle has been discarded.\<close>

definition bundle_attempt_reassembly :: "(addr \<Rightarrow> unit proc) \<Rightarrow> bp_env \<Rightarrow> addr \<Rightarrow> unit proc" where
  "bundle_attempt_reassembly forward env bundle =
     pbind (bundle_reassembled_is_known env bundle) (\<lambda>known.
     pseq (pwhen known (pseq (bundle_rem_rc bundle BUNDLE_RET_CONSTRAINT_REASSEMBLY_PENDING False)
            (bundle_discard bundle)))
     (pbind (\<lambda>s. plift (find_slot (bp_heap s) bundle 0 (bp_reassembly s)) s) (\<lambda>slot. case slot of
         Some i \<Rightarrow> pseq (add_to_reassembly_bundle_list forward env i bundle) (try_reassemble env i)
       | None \<Rightarrow> pbind pmalloc (\<lambda>new_list. case new_list of
           None \<Rightarrow> bundle_delete forward env bundle BUNDLE_SR_REASON_DEPLETED_STORAGE
         | Some _ \<Rightarrow> pbind (pread (\<lambda>s. length (bp_reassembly s))) (\<lambda>i.
             pseq (pupdate (\<lambda>s. s\<lparr>bp_reassembly := bp_reassembly s @ [[]]\<rparr>))
              (pseq (add_to_reassembly_bundle_list forward env i bundle) (try_reassemble env i)))))))"

definition bundle_deliver_local :: "(addr \<Rightarrow> unit proc) \<Rightarrow> bp_env \<Rightarrow> addr \<Rightarrow> unit proc" where
  "bundle_deliver_local forward env bundle =
     pseq (bundle_rem_rc bundle BUNDLE_RET_CONSTRAINT_DISPATCH_PENDING False)
     (pbind (bundle_record_add_and_check_known env bundle) (\<lambda>known.
      if known then bundle_discard bundle
      else pbind (deref bundle) (\<lambda>b.
        pseq (pwhen (HAS_FLAG (proc_flags b) BUNDLE_FLAG_REPORT_DELIVERY)
           (send_status_report forward env bundle BUNDLE_SR_FLAG_BUNDLE_DELIVERED BUNDLE_SR_REASON_NO_INFO))
        (pbind (if HAS_FLAG (proc_flags b) BUNDLE_FLAG_ADMINISTRATIVE_RECORD then preturn False
                else plift (obind (obind (deref_string (destination b)) (get_agent_id env)) (\<lambda>r. Inr (r = None))))
          (\<lambda>undeliverable.
           if undeliverable then bundle_delete forward env bundle BUNDLE_SR_REASON_DEST_EID_UNINTELLIGIBLE
           else if HAS_FLAG (proc_flags b) BUNDLE_FLAG_IS_FRAGMENT
           then pseq (bundle_add_rc bundle BUNDLE_RET_CONSTRAINT_REASSEMBLY_PENDING)
                 (bundle_attempt_reassembly forward env bundle)
           else pbind (adu_from bundle) (\<lambda>adu.
             pseq (bundle_discard bundle) (bundle_deliver_adu env adu)))))))"

section \<open>Dispatching\<close>

definition bundle_endpoint_is_local :: "bp_env \<Rightarrow> bundle_t \<Rightarrow> bool outcome" where
  "bundle_endpoint_is_local env b = obind (deref_string (destination b)) (\<lambda>d.
     Inr (length d \<ge> length (local_eid env) \<and> take (length (local_eid env)) d = local_eid env))"

definition bundle_dispatch :: "(addr \<Rightarrow> unit proc) \<Rightarrow> bp_env \<Rightarrow> addr \<Rightarrow> unit proc" where
  "bundle_dispatch forward env bundle =
     pbind (deref bundle) (\<lambda>b. pbind (plift (bundle_endpoint_is_local env b)) (\<lambda>is_local.
       if is_local then bundle_deliver_local forward env bundle else forward bundle))"

section \<open>Outcomes of forwarding\<close>

definition bundle_forwarding_scheduled :: "(addr \<Rightarrow> unit proc) \<Rightarrow> bp_env \<Rightarrow> addr \<Rightarrow> unit proc" where
  "bundle_forwarding_scheduled forward env bundle =
     pbind (deref bundle) (\<lambda>b.
       pwhen (HAS_FLAG (proc_flags b) BUNDLE_V6_FLAG_CUSTODY_TRANSFER_REQUESTED
            \<and> \<not> HAS_FLAG (ret_constraints b) BUNDLE_RET_CONSTRAINT_CUSTODY_ACCEPTED \<and> protocol_version b = 6)
         (bundle_custody_accept forward env bundle))"

definition bundle_forwarding_success :: "(addr \<Rightarrow> unit proc) \<Rightarrow> bp_env \<Rightarrow> addr \<Rightarrow> unit proc" where
  "bundle_forwarding_success forward env bundle =
     pbind (deref bundle) (\<lambda>b.
     pseq (pwhen (HAS_FLAG (proc_flags b) BUNDLE_FLAG_REPORT_FORWARDING)
        (send_status_report forward env bundle BUNDLE_SR_FLAG_BUNDLE_FORWARDED BUNDLE_SR_REASON_NO_INFO))
     (pseq (bundle_rem_rc bundle BUNDLE_RET_CONSTRAINT_FORWARD_PENDING False)
       (bundle_rem_rc bundle BUNDLE_RET_CONSTRAINT_FLAG_OWN True)))"

definition bundle_forwarding_failed :: "(addr \<Rightarrow> unit proc) \<Rightarrow> bp_env \<Rightarrow> addr \<Rightarrow> u32 \<Rightarrow> unit proc" where
  "bundle_forwarding_failed forward env bundle reason =
     pbind (deref bundle) (\<lambda>b.
     pseq (pwhen (HAS_FLAG (proc_flags b) BUNDLE_V6_FLAG_CUSTODY_TRANSFER_REQUESTED \<and>
                  \<not> HAS_FLAG (ret_constraints b) BUNDLE_RET_CONSTRAINT_CUSTODY_ACCEPTED)
        (send_custody_signal forward env bundle BUNDLE_CS_TYPE_REFUSAL
          (if reason < BUNDLE_SR_REASON_DEPLETED_STORAGE then BUNDLE_CS_REASON_NO_INFO else reason)))
      (bundle_delete forward env bundle reason))"

definition bundle_forwarding_contraindicated :: "(addr \<Rightarrow> unit proc) \<Rightarrow> bp_env \<Rightarrow> addr \<Rightarrow> u32 \<Rightarrow> unit proc" where
  "bundle_forwarding_contraindicated forward env bundle reason = bundle_forwarding_failed forward env bundle reason"

definition bundle_expired :: "(addr \<Rightarrow> unit proc) \<Rightarrow> bp_env \<Rightarrow> addr \<Rightarrow> unit proc" where
  "bundle_expired forward env bundle = bundle_delete forward env bundle BUNDLE_SR_REASON_LIFETIME_EXPIRED"

datatype failed_forwarding_policy = POLICY_DROP | POLICY_DROP_IF_NO_CUSTODY | POLICY_TRY_RE_SCHEDULE

definition FAILED_FORWARD_POLICY :: failed_forwarding_policy where
  "FAILED_FORWARD_POLICY = POLICY_DROP_IF_NO_CUSTODY"

definition FAILED_FORWARD_TIMEOUT :: u16 where
  "FAILED_FORWARD_TIMEOUT = 5000"

definition bundle_dangling :: "(addr \<Rightarrow> unit proc) \<Rightarrow> bp_env \<Rightarrow> addr \<Rightarrow> unit proc" where
  "bundle_dangling forward env bundle =
     pbind (deref bundle) (\<lambda>b.
     let resched = (case FAILED_FORWARD_POLICY of
           POLICY_TRY_RE_SCHEDULE \<Rightarrow> True
         | POLICY_DROP_IF_NO_CUSTODY \<Rightarrow>
             HAS_FLAG (ret_constraints b) BUNDLE_RET_CONSTRAINT_CUSTODY_ACCEPTED \<or>
             HAS_FLAG (ret_constraints b) BUNDLE_RET_CONSTRAINT_FLAG_OWN
         | POLICY_DROP \<Rightarrow> False) in
     pbind (if resched then send_bundle (bundle_id b) FAILED_FORWARD_TIMEOUT else preturn UPCN_FAIL) (\<lambda>sent.
       pwhen (sent = UPCN_FAIL) (bundle_delete forward env bundle BUNDLE_SR_REASON_TRANSMISSION_CANCELED)))"

section \<open>Reception\<close>

datatype bundle_handling_result = BUNDLE_HRESULT_OK | BUNDLE_HRESULT_DELETED | BUNDLE_HRESULT_BLOCK_DISCARDED

definition handle_unknown_block_flags ::
  "(addr \<Rightarrow> unit proc) \<Rightarrow> bp_env \<Rightarrow> addr \<Rightarrow> u32 \<Rightarrow> bundle_handling_result proc" where
  "handle_unknown_block_flags forward env bundle flags =
     pseq (pwhen (HAS_FLAG flags BUNDLE_BLOCK_FLAG_REPORT_IF_UNPROC)
        (send_status_report forward env bundle BUNDLE_SR_FLAG_BUNDLE_RECEIVED BUNDLE_SR_REASON_BLOCK_UNINTELLIGIBLE))
      (preturn
        (if HAS_FLAG flags BUNDLE_BLOCK_FLAG_DELETE_BUNDLE_IF_UNPROC then BUNDLE_HRESULT_DELETED
         else if HAS_FLAG flags BUNDLE_BLOCK_FLAG_DISCARD_IF_UNPROC then BUNDLE_HRESULT_BLOCK_DISCARDED
         else BUNDLE_HRESULT_OK))"

definition set_blocks :: "addr \<Rightarrow> block_list \<Rightarrow> unit proc" where
  "set_blocks bundle bl = change_bundle bundle (\<lambda>b. b\<lparr>blocks := bl\<rparr>)"

text \<open>
  The loop over the blocks, with the blocks before the current entry. After an entry has been discarded, the loop
  goes on behind the one that took its place. The result says whether the bundle is still there.
\<close>

fun receive_blocks :: "(addr \<Rightarrow> unit proc) \<Rightarrow> bp_env \<Rightarrow> addr \<Rightarrow> block_list \<Rightarrow> block_list \<Rightarrow> bool proc" where
  "receive_blocks forward env bundle front [] = preturn True"
| "receive_blocks forward env bundle front ((ba, blk) # rest) =
     (if blk_type blk = BUNDLE_BLOCK_TYPE_PAYLOAD then receive_blocks forward env bundle (front @ [(ba, blk)]) rest
      else pbind (handle_unknown_block_flags forward env bundle (blk_flags blk)) (\<lambda>res. case res of
          BUNDLE_HRESULT_OK \<Rightarrow>
            (let e = (ba, blk\<lparr>blk_flags := blk_flags blk OR BUNDLE_V6_BLOCK_FLAG_FWD_UNPROC\<rparr>) in
             pseq (set_blocks bundle (front @ e # rest)) (receive_blocks forward env bundle (front @ [e]) rest))
        | BUNDLE_HRESULT_DELETED \<Rightarrow>
            pseq (bundle_delete forward env bundle BUNDLE_SR_REASON_BLOCK_UNINTELLIGIBLE) (preturn False)
        | BUNDLE_HRESULT_BLOCK_DISCARDED \<Rightarrow>
            pseq (set_blocks bundle (front @ rest)) (case rest of
                [] \<Rightarrow> preturn True
              | next # rest' \<Rightarrow> receive_blocks forward env bundle (front @ [next]) rest')))"

definition bundle_receive :: "(addr \<Rightarrow> unit proc) \<Rightarrow> bp_env \<Rightarrow> addr \<Rightarrow> unit proc" where
  "bundle_receive forward env bundle =
     pseq (bundle_add_rc bundle BUNDLE_RET_CONSTRAINT_DISPATCH_PENDING)
     (pbind (deref bundle) (\<lambda>b.
      pseq (pwhen (HAS_FLAG (proc_flags b) BUNDLE_FLAG_REPORT_RECEPTION)
         (send_status_report forward env bundle BUNDLE_SR_FLAG_BUNDLE_RECEIVED BUNDLE_SR_REASON_NO_INFO))
      (if creation_timestamp b \<noteq> 0 \<and> bundle_get_expiration_time (now_s env) b < now_s env
       then bundle_delete forward env bundle BUNDLE_SR_REASON_LIFETIME_EXPIRED
       else pbind (receive_blocks forward env bundle [] (blocks b)) (\<lambda>go_on.
         pwhen go_on
          (if HAS_FLAG (proc_flags b) BUNDLE_V6_FLAG_CUSTODY_TRANSFER_REQUESTED \<and> protocol_version b = 6
           then pbind (\<lambda>s. plift (custody_manager_has_redundant_bundle (bp_custody s) (bp_heap s) bundle) s)
             (\<lambda>redundant.
              if redundant
              then pseq (send_custody_signal forward env bundle BUNDLE_CS_TYPE_REFUSAL
                       BUNDLE_CS_REASON_REDUNDANT_RECEPTION)
                    (bundle_rem_rc bundle BUNDLE_RET_CONSTRAINT_DISPATCH_PENDING True)
              else pbind (custody_acceptable bundle) (\<lambda>acceptable.
                pwhen (\<not> acceptable)
                 (pseq (send_custody_signal forward env bundle BUNDLE_CS_TYPE_REFUSAL
                       BUNDLE_CS_REASON_DEPLETED_STORAGE)
                   (bundle_delete forward env bundle BUNDLE_SR_REASON_DEPLETED_STORAGE))))
           else bundle_dispatch forward env bundle)))))"

section \<open>Signals\<close>

datatype bundle_processor_signal_type =
  BP_SIGNAL_BUNDLE_INCOMING | BP_SIGNAL_BUNDLE_ROUTED | BP_SIGNAL_FORWARDING_CONTRAINDICATED
| BP_SIGNAL_BUNDLE_EXPIRED | BP_SIGNAL_RESCHEDULE_BUNDLE | BP_SIGNAL_TRANSMISSION_SUCCESS
| BP_SIGNAL_TRANSMISSION_FAILURE | BP_SIGNAL_BUNDLE_LOCAL_DISPATCH

record bundle_processor_signal =
  signal_type :: bundle_processor_signal_type
  signal_reason :: u32
  signal_bundle :: bundleid_t

definition bundle_processor_inform :: "bundle_processor_signal list \<Rightarrow> bundleid_t \<Rightarrow>
    bundle_processor_signal_type \<Rightarrow> u32 \<Rightarrow> bundle_processor_signal list" where
  "bundle_processor_inform signaling_queue bundle t reason =
     signaling_queue @ [\<lparr>signal_type = t, signal_reason = reason, signal_bundle = bundle\<rparr>]"

definition handle_signal :: "nat \<Rightarrow> bp_env \<Rightarrow> bundle_processor_signal \<Rightarrow> unit proc" where
  "handle_signal depth env signal =
     (let forward = bundle_forward depth env in
      pbind (pread (\<lambda>s. bundle_storage_get (signal_bundle signal) (bp_store s))) (\<lambda>r. case r of
          None \<Rightarrow> preturn ()
        | Some b \<Rightarrow> (case signal_type signal of
            BP_SIGNAL_BUNDLE_INCOMING \<Rightarrow> bundle_receive forward env b
          | BP_SIGNAL_BUNDLE_ROUTED \<Rightarrow> bundle_forwarding_scheduled forward env b
          | BP_SIGNAL_FORWARDING_CONTRAINDICATED \<Rightarrow>
              bundle_forwarding_contraindicated forward env b (signal_reason signal)
          | BP_SIGNAL_BUNDLE_EXPIRED \<Rightarrow> bundle_expired forward env b
          | BP_SIGNAL_RESCHEDULE_BUNDLE \<Rightarrow> bundle_dangling forward env b
          | BP_SIGNAL_TRANSMISSION_SUCCESS \<Rightarrow> bundle_forwarding_success forward env b
          | BP_SIGNAL_TRANSMISSION_FAILURE \<Rightarrow>
              bundle_forwarding_failed forward env b BUNDLE_SR_REASON_TRANSMISSION_CANCELED
          | BP_SIGNAL_BUNDLE_LOCAL_DISPATCH \<Rightarrow> bundle_dispatch forward env b)))"

text \<open>The task: the signals of its queue in order, each at its time.\<close>

fun process_signals :: "nat \<Rightarrow> (bp_env \<times> bundle_processor_signal) list \<Rightarrow> unit proc" where
  "process_signals depth [] = preturn ()"
| "process_signals depth ((env, signal) # rest) = pseq (handle_signal depth env signal) (process_signals depth rest)"

definition bundle_processor_task ::
  "nat \<Rightarrow> string \<Rightarrow> (bp_env \<times> bundle_processor_signal) list \<Rightarrow> unit proc" where
  "bundle_processor_task depth eid signals =
     pseq (pupdate (\<lambda>s. s\<lparr>bp_custody := custody_manager_init (Some eid) (bp_custody s)\<rparr>))
       (process_signals depth signals)"

end
