(* ===== verification/Processor_Safety.thy ===== *)
theory Processor_Safety
  imports Bundle_Processor
begin

text \<open>
  What every step of the bundle processor keeps: the identifiers of the bundle store lead to bundles that are in
  memory and carry that identifier. The proof follows the structure of the handlers, with one rule for each
  combinator.
\<close>

section \<open>The invariant\<close>

definition store_sound :: "storage_state \<Rightarrow> bundle_heap \<Rightarrow> bool" where
  "store_sound st H \<longleftrightarrow> tree_ok st \<and> (\<forall>k a. store_map st k = Some a \<longrightarrow> (\<exists>b. H a = Some b \<and> bundle_id b = k))"

definition processor_inv :: "bp_state \<Rightarrow> bool" where
  "processor_inv s \<longleftrightarrow> store_sound (bp_store s) (bp_heap s) \<and>
     distinct (bp_addresses s) \<and> (\<forall>a \<in> set (bp_addresses s). bp_heap s a = None)"

definition preserves :: "'a proc \<Rightarrow> bool" where
  "preserves p \<longleftrightarrow> (\<forall>s x s'. processor_inv s \<longrightarrow> p s = Inr (x, s') \<longrightarrow> processor_inv s')"

named_theorems pres \<open>operations that preserve the invariant of the processor\<close>

lemma preservesI: "(\<And>s x s'. processor_inv s \<Longrightarrow> p s = Inr (x, s') \<Longrightarrow> processor_inv s') \<Longrightarrow> preserves p"
  by (simp add: preserves_def)

lemma preserves_return [pres]: "preserves (preturn x)"
  by (simp add: preserves_def preturn_def)

lemma preservesD: "preserves p \<Longrightarrow> p s = Inr (x, s') \<Longrightarrow> processor_inv s \<Longrightarrow> processor_inv s'"
  by (auto simp: preserves_def)

lemma preserves_bind [pres]:
  assumes p: "preserves p" and f: "\<And>x. preserves (f x)"
  shows "preserves (pbind p f)"
proof (rule preservesI)
  fix s y s'
  assume inv: "processor_inv s" and "pbind p f s = Inr (y, s')"
  then obtain x s1 where ps: "p s = Inr (x, s1)" and fs: "f x s1 = Inr (y, s')"
    by (auto simp: pbind_def obind_eq_Inr)
  show "processor_inv s'"
    by (rule preservesD [OF f fs preservesD [OF p ps inv]])
qed

lemma preserves_seq [pres]: "preserves p \<Longrightarrow> preserves q \<Longrightarrow> preserves (pseq p q)"
  by (simp add: pseq_def preserves_bind)

lemma preserves_when [pres]: "preserves p \<Longrightarrow> preserves (pwhen c p)"
  by (simp add: pwhen_def preserves_return)

lemma preserves_if [pres]: "preserves p \<Longrightarrow> preserves q \<Longrightarrow> preserves (if c then p else q)"
  by simp

lemma preserves_lift [pres]: "preserves (plift r)"
  by (auto simp: preserves_def plift_def obind_eq_Inr)

lemma preserves_lift_state [pres]: "preserves (\<lambda>s. plift (f s) s)"
  by (auto simp: preserves_def plift_def obind_eq_Inr)

lemma preserves_read [pres]: "preserves (pread f)"
  by (simp add: preserves_def pread_def)

lemma preserves_with_memory [pres]: "preserves (with_memory f)"
  by (auto simp: preserves_def with_memory_def obind_eq_Inr processor_inv_def)

lemma preserves_malloc [pres]: "preserves pmalloc"
  by (simp add: pmalloc_def preserves_with_memory)

lemma preserves_deref [pres]: "preserves (deref a)"
  by (auto simp: preserves_def deref_def obind_eq_Inr)

lemma preserves_known [pres]: "preserves (pupdate (\<lambda>s. s\<lparr>bp_known := f s\<rparr>))"
  and preserves_reassembly [pres]: "preserves (pupdate (\<lambda>s. s\<lparr>bp_reassembly := g s\<rparr>))"
  and preserves_routed [pres]: "preserves (pupdate (\<lambda>s. s\<lparr>bp_routed := h s\<rparr>))"
  and preserves_delivered [pres]: "preserves (pupdate (\<lambda>s. s\<lparr>bp_delivered := i s\<rparr>))"
  and preserves_custody_init [pres]: "preserves (pupdate (\<lambda>s. s\<lparr>bp_custody := j s\<rparr>))"
  by (simp_all add: preserves_def pupdate_def processor_inv_def)

section \<open>Heap and store\<close>

lemma store_soundD: "store_sound st H \<Longrightarrow> store_map st k = Some a \<Longrightarrow> H a = Some b \<Longrightarrow> bundle_id b = k"
  by (fastforce simp: store_sound_def)

lemma store_sound_write:
  assumes "store_sound st H" and "H a = Some b" and "bundle_id b' = bundle_id b"
  shows "store_sound st (H(a \<mapsto> b'))"
  using assms store_soundD [OF assms(1) _ assms(2)] by (auto simp: store_sound_def)

lemma processor_inv_write:
  assumes "processor_inv s" and "bp_heap s a = Some b" and "bundle_id b' = bundle_id b"
  shows "processor_inv (s\<lparr>bp_heap := (bp_heap s)(a \<mapsto> b')\<rparr>)"
  using assms store_sound_write by (auto simp: processor_inv_def)

lemma preserves_change: "(\<And>b. bundle_id (f b) = bundle_id b) \<Longrightarrow> preserves (change_bundle a f)"
  by (rule preservesI)
    (auto simp: change_bundle_def obind_eq_Inr deref_bundle_def split: option.splits intro: processor_inv_write)

lemma store_sound_add:
  assumes "store_sound st H" and "bundle_storage_add mem a st H = Inr (Some (k, st', H'))"
  shows "store_sound st' H' \<and> (\<exists>b j. H a = Some b \<and> (H' = H \<or> H' = H(a \<mapsto> b\<lparr>bundle_id := j\<rparr>)))"
proof -
  have ok: "tree_ok st" using assms(1) by (simp add: store_sound_def)
  obtain b j n where b: "H a = Some b" "bundle_id b = 0"
      "find_free_id (storage_tree st) (next_id st) (next_id st + 1) = Some (j, n)"
    using assms(2) by (auto simp: bundle_storage_add_def obind_eq_Inr c_assert_eq_Inr deref_bundle_def
        split: option.splits)
  show ?thesis
  proof (cases mem)
    case None
    then show ?thesis
      using add_nomem [of a st H k st' H'] assms b(1) by (simp add: store_sound_def tree_ok_def store_map_def)
  next
    case (Some m)
    have fresh: "j \<noteq> 0" "store_map st j = None"
      using find_free_id_free [OF b(3)] id_taken_iff [OF ok, of j] by auto
    obtain t xs ys where t: "add_node (Some m) (storage_tree st) j a = Inr (t, True)" "avl t"
        "inorder (storage_tree st) = xs @ ys" "inorder t = xs @ (j, a) # ys" "sorted_ids (inorder t)"
      using add_node_ok [of "storage_tree st" j m a] ok fresh
      by (auto simp: tree_ok_def store_map_def map_of_eq_None_iff)
    have st': "storage_tree st' = t" and H': "H' = H(a \<mapsto> b\<lparr>bundle_id := j\<rparr>)"
      using assms(2) b t(1) Some by (auto simp: bundle_storage_add_def deref_bundle_def obind_eq_Inr)
    have map: "store_map st' = (store_map st)(j \<mapsto> a)"
      using st' t map_of_insert_sorted [of xs j a ys] by (simp add: store_map_def)
    have "tree_ok st'"
      using ok t fresh(1) by (auto simp: tree_ok_def st')
    moreover have "store_map st i \<noteq> Some a" for i
    proof
      assume i: "store_map st i = Some a"
      then have "i = 0" using store_soundD [OF assms(1) i b(1)] b(2) by simp
      moreover have "store_map st 0 = None" using ok by (simp add: tree_ok_def store_map_def map_of_eq_None_iff)
      ultimately show False using i by simp
    qed
    ultimately have "store_sound st' H'"
      using assms(1) by (auto simp: store_sound_def map H')
    then show ?thesis using b(1) H' by auto
  qed
qed

lemma preserves_storage_add [pres]: "preserves (storage_add a)"
proof -
  have "preserves (\<lambda>s. obind (bundle_storage_add mem a (bp_store s) (bp_heap s)) (\<lambda>r. case r of
      None \<Rightarrow> Inl No_Return | Some (_, st, H) \<Rightarrow> Inr ((), s\<lparr>bp_store := st, bp_heap := H\<rparr>)))" for mem
  proof (rule preservesI)
    fix s x s'
    assume inv: "processor_inv s" and run: "obind (bundle_storage_add mem a (bp_store s) (bp_heap s)) (\<lambda>r. case r of
      None \<Rightarrow> Inl No_Return | Some (_, st, H) \<Rightarrow> Inr ((), s\<lparr>bp_store := st, bp_heap := H\<rparr>)) = Inr (x, s')"
    then obtain k st H where add: "bundle_storage_add mem a (bp_store s) (bp_heap s) = Inr (Some (k, st, H))"
      and s': "s' = s\<lparr>bp_store := st, bp_heap := H\<rparr>"
      by (auto simp: obind_eq_Inr split: option.splits)
    then show "processor_inv s'"
      using inv store_sound_add [OF _ add] by (auto simp: processor_inv_def)
  qed
  then show ?thesis by (simp add: storage_add_def pres)
qed

lemma delete_map:
  assumes "tree_ok st" and "bundle_storage_delete k st H = Inr (r, st')"
  shows "tree_ok st'" and "store_map st' = (store_map st)(k := None)"
proof -
  have "tree_ok st' \<and> store_map st' = (store_map st)(k := None)"
  proof (cases "store_map st k")
    case None
    then show ?thesis using assms delete_absent [OF assms(1), of k H] by auto
  next
    case (Some a)
    obtain l h r' ctx t xs ys where d:
        "find_nodeptr k False (storage_tree st) [] = Some (Nd l k a h r', ctx)"
        "delete_node_at_ptr (Nd l k a h r') ctx = Inr t" "avl t"
        "inorder (storage_tree st) = xs @ (k, a) # ys" "inorder t = xs @ ys"
      using delete_cases [OF assms(1) Some] by metis
    have "k \<noteq> 0" using assms(1) d(4) by (auto simp: tree_ok_def)
    then obtain c where "st' = st\<lparr>storage_tree := t, bundle_bytes := c\<rparr>"
      using assms(2) d by (auto simp: bundle_storage_delete_def obind_eq_Inr c_assert_eq_Inr)
    then show ?thesis using tree_ok_delete [OF assms(1) d(3-5)] by simp
  qed
  then show "tree_ok st'" "store_map st' = (store_map st)(k := None)" by simp_all
qed

lemma store_sound_delete:
  assumes "store_sound st H" and "bundle_storage_delete k st H' = Inr (r, st')"
  shows "store_sound st' H"
  using assms delete_map [of st k H' r st'] by (auto simp: store_sound_def split: if_splits)

lemma preserves_storage_delete [pres]: "preserves (storage_delete k)"
  by (rule preservesI)
    (auto simp: storage_delete_def obind_eq_Inr processor_inv_def intro: store_sound_delete)

text \<open>A bundle that is dropped after its identifier was removed is not in the store any more.\<close>

lemma store_sound_drop:
  assumes "store_sound st H" and "H a = Some b" and "bundle_storage_delete (bundle_id b) st H' = Inr (r, st')"
  shows "store_sound st' (H(a := None))"
proof -
  have "store_map st' i \<noteq> Some a" for i
    using assms store_soundD [OF assms(1) _ assms(2)] delete_map [of st "bundle_id b" H' r st']
    by (auto simp: store_sound_def split: if_splits)
  then show ?thesis
    using store_sound_delete [OF assms(1,3)] by (auto simp: store_sound_def)
qed

lemma preserves_discard [pres]: "preserves (bundle_discard a)"
proof (rule preservesI)
  fix s x s'
  assume inv: "processor_inv s" and run: "bundle_discard a s = Inr (x, s')"
  then obtain b r st where b: "bp_heap s a = Some b"
      "bundle_storage_delete (bundle_id b) (bp_store s) (bp_heap s) = Inr (r, st)"
      "s' = s\<lparr>bp_store := st, bp_heap := (bp_heap s)(a := None)\<rparr>"
    by (auto simp: bundle_discard_def pbind_def pseq_def deref_def storage_delete_def drop_bundle_def bundle_drop_def
        obind_eq_Inr c_assert_eq_Inr deref_bundle_def split: option.splits)
  then show "processor_inv s'"
    using inv store_sound_drop [of "bp_store s" "bp_heap s" a b "bp_heap s" r st] by (auto simp: processor_inv_def)
qed

lemma preserves_custody_release [pres]: "preserves (custody_release a)"
proof (rule preservesI)
  fix s x s'
  assume inv: "processor_inv s" and run: "custody_release a s = Inr (x, s')"
  let ?rc = "\<lambda>b. b\<lparr>ret_constraints := ret_constraints b AND NOT BUNDLE_RET_CONSTRAINT_CUSTODY_ACCEPTED\<rparr>"
  show "processor_inv s'"
  proof (cases "get_index (bp_custody s) a")
    case None
    then show ?thesis using inv run by (auto simp: custody_release_def custody_manager_release_def)
  next
    case (Some i)
    obtain b where b: "bp_heap s a = Some b"
      using run Some by (auto simp: custody_release_def custody_manager_release_def obind_eq_Inr deref_bundle_def
          split: option.splits)
    let ?H = "(bp_heap s)(a \<mapsto> ?rc b)"
    have sound: "store_sound (bp_store s) ?H"
      by (rule store_sound_write [of _ _ a b]) (use inv b in \<open>simp_all add: processor_inv_def\<close>)
    have addr: "distinct (bp_addresses s)" "\<forall>x \<in> set (bp_addresses s). x \<noteq> a \<and> bp_heap s x = None"
      using inv b by (auto simp: processor_inv_def)
    show ?thesis
    proof (cases "ret_constraints (?rc b) = BUNDLE_RET_CONSTRAINT_NONE")
      case True
      then obtain r st c where d: "bundle_storage_delete (bundle_id b) (bp_store s) ?H = Inr (r, st)"
          "s' = s\<lparr>bp_custody := c, bp_store := st, bp_heap := ?H(a := None)\<rparr>"
        using run Some b
        by (auto simp: custody_release_def custody_manager_release_def obind_eq_Inr deref_bundle_def bundle_drop_def)
      have "store_sound st (?H(a := None))"
        by (rule store_sound_drop [OF sound, of a "?rc b"]) (use d(1) in simp_all)
      then show ?thesis using addr by (simp add: d(2) processor_inv_def)
    next
      case False
      then obtain c where "s' = s\<lparr>bp_custody := c, bp_heap := ?H\<rparr>"
        using run Some b by (auto simp: custody_release_def custody_manager_release_def obind_eq_Inr deref_bundle_def)
      then show ?thesis using sound addr by (simp add: processor_inv_def)
    qed
  qed
qed

section \<open>The other operations\<close>

lemma preserves_add_rc [pres]: "preserves (bundle_add_rc a c)"
  by (simp add: bundle_add_rc_def preserves_change)

lemma preserves_rem_rc [pres]: "preserves (bundle_rem_rc a c d)"
  unfolding bundle_rem_rc_def by (intro pres preserves_change) simp

lemma preserves_set_blocks [pres]: "preserves (set_blocks a bl)"
  by (simp add: set_blocks_def preserves_change)

lemma store_sound_place:
  assumes "store_sound st H" and "H a = None"
  shows "store_sound st (H(a \<mapsto> b))"
proof -
  have "\<exists>b'. a' \<noteq> a \<and> H a' = Some b' \<and> bundle_id b' = k" if k: "store_map st k = Some a'" for k a'
  proof -
    obtain b' where "H a' = Some b'" "bundle_id b' = k" using assms(1) k unfolding store_sound_def by blast
    then show ?thesis using assms(2) by auto
  qed
  then show ?thesis using assms(1) by (auto simp: store_sound_def)
qed

lemma preserves_place [pres]: "preserves (place_bundle r)"
proof (rule preservesI)
  fix s x s'
  assume inv: "processor_inv s" and run: "place_bundle r s = Inr (x, s')"
  show "processor_inv s'"
  proof (cases "\<exists>b a as. r = Some b \<and> bp_addresses s = a # as")
    case True
    then obtain b a as where r: "r = Some b" and addr: "bp_addresses s = a # as" by blast
    have s': "s' = s\<lparr>bp_addresses := as, bp_heap := (bp_heap s)(a \<mapsto> b)\<rparr>"
      using run by (simp add: place_bundle_def r addr)
    have "bp_heap s a = None" and "a \<notin> set as" using inv addr by (simp_all add: processor_inv_def)
    then show ?thesis
      using inv store_sound_place [of "bp_store s" "bp_heap s" a b] by (auto simp: processor_inv_def s' addr)
  next
    case False
    then have "s' = s"
      using run by (cases r; cases "bp_addresses s") (simp_all add: place_bundle_def)
    then show ?thesis using inv by simp
  qed
qed

text \<open>Computing sizes changes no more of a bundle than its stored header length.\<close>

lemma header_length_shape: "bundle6_recalculate_header_length_internal m b = Inr (d, b1, m1) \<Longrightarrow>
    \<exists>n. b1 = b\<lparr>primary_block_length := n\<rparr>"
  by (auto simp: bundle6_recalculate_header_length_internal_def obind_eq_Inr)

lemma size6_shape: "bundle6_get_serialized_size m b = Inr (n, b1, m1) \<Longrightarrow> \<exists>n. b1 = b\<lparr>primary_block_length := n\<rparr>"
  by (auto simp: bundle6_get_serialized_size_def get_serialized_size_def obind_eq_Inr dest: header_length_shape)

lemma serialized_size_shape:
  assumes "bundle_get_serialized_size m b = Inr (n, b1, m1)"
  shows "\<exists>n. b1 = b\<lparr>primary_block_length := n\<rparr>"
proof (cases "protocol_version b = 6")
  case True
  then show ?thesis
    using assms by (auto simp: bundle_get_serialized_size_def size_by_version_def obind_eq_Inr dest: size6_shape)
next
  case False
  then have "b1 = b"
    using assms by (auto simp: bundle_get_serialized_size_def size_by_version_def split: if_splits)
  then show ?thesis by (intro exI [of _ "primary_block_length b"]) simp
qed

lemma serialized_size_id: "bundle_get_serialized_size m b = Inr (n, b1, m1) \<Longrightarrow> bundle_id b1 = bundle_id b"
  by (drule serialized_size_shape) auto

lemma acceptable_inv:
  assumes inv: "processor_inv s"
    and run: "custody_manager_storage_is_acceptable m c (bp_heap s) a = Inr (r, H, m')"
  shows "processor_inv (s\<lparr>bp_heap := H\<rparr>)"
proof -
  obtain b b1 where "bp_heap s a = Some b"
      "H = bp_heap s \<or> H = (bp_heap s)(a \<mapsto> b1) \<and> bundle_id b1 = bundle_id b"
    using run by (auto simp: custody_manager_storage_is_acceptable_def obind_eq_Inr Let_def deref_bundle_def
        split: option.splits if_splits prod.splits dest: serialized_size_id)
  then show ?thesis using inv processor_inv_write by auto
qed

lemma preserves_acceptable [pres]: "preserves (custody_acceptable a)"
proof (rule preservesI)
  fix s x s'
  assume inv: "processor_inv s" and run: "custody_acceptable a s = Inr (x, s')"
  then obtain H m where "custody_manager_storage_is_acceptable (bp_memory s) (bp_custody s) (bp_heap s) a = Inr (x, H, m)"
      "s' = s\<lparr>bp_heap := H, bp_memory := m\<rparr>"
    by (auto simp: custody_acceptable_def obind_eq_Inr)
  then show "processor_inv s'"
    using acceptable_inv [OF inv] by (simp add: processor_inv_def)
qed

lemma preserves_accept [pres]: "preserves (custody_accept a)"
proof (rule preservesI)
  fix s x s'
  assume inv: "processor_inv s" and run: "custody_accept a s = Inr (x, s')"
  let ?rc = "\<lambda>b. b\<lparr>ret_constraints := ret_constraints b OR BUNDLE_RET_CONSTRAINT_CUSTODY_ACCEPTED\<rparr>"
  from run obtain c H m where am: "custody_manager_accept (bp_memory s) (bp_custody s) (bp_heap s) a = Inr (x, c, H, m)"
    and s'0: "s' = s\<lparr>bp_custody := c, bp_heap := H, bp_memory := m\<rparr>"
    by (auto simp: custody_accept_def obind_eq_Inr)
  from am obtain H1 m1 b where acc:
      "custody_manager_storage_is_acceptable (bp_memory s) (bp_custody s) (bp_heap s) a = Inr (True, H1, m1)"
      and b: "H1 a = Some b"
    by (auto simp: custody_manager_accept_def obind_eq_Inr c_assert_eq_Inr deref_bundle_def split: option.splits)
  have "\<exists>b1. bundle_id b1 = bundle_id b \<and> H = H1(a \<mapsto> b1)"
  proof (cases "protocol_version b = 6")
    case True
    then obtain eid where eid: "upcn_eid (bp_custody s) = Some eid"
      using am acc b by (cases "upcn_eid (bp_custody s)")
        (auto simp: custody_manager_accept_def obind_eq_Inr c_assert_eq_Inr deref_bundle_def)
    obtain cust m2 where "strdup m1 (Some eid) = (cust, m2)" by fastforce
    then have "H = H1(a \<mapsto> (?rc b)\<lparr>current_custodian := cust\<rparr>)"
      using am acc b True eid
      by (auto simp: custody_manager_accept_def obind_eq_Inr c_assert_eq_Inr deref_bundle_def)
    then show ?thesis by (intro exI [of _ "(?rc b)\<lparr>current_custodian := cust\<rparr>"]) simp
  next
    case False
    then have "H = H1(a \<mapsto> ?rc b)"
      using am acc b by (auto simp: custody_manager_accept_def obind_eq_Inr c_assert_eq_Inr deref_bundle_def)
    then show ?thesis by (intro exI [of _ "?rc b"]) simp
  qed
  then obtain b1 where b1: "bundle_id b1 = bundle_id b" and H: "H = H1(a \<mapsto> b1)" by blast
  have "processor_inv (s\<lparr>bp_heap := H1(a \<mapsto> b1)\<rparr>)"
    using processor_inv_write [OF acceptable_inv [OF inv acc], of a b b1] b b1 by simp
  then show "processor_inv s'" by (simp add: s'0 H processor_inv_def)
qed

lemma to_adu_id: "bundle_to_adu m b = Inr (adu, b1, m1) \<Longrightarrow> bundle_id b1 = bundle_id b"
  by (auto simp: bundle_to_adu_def obind_eq_Inr)

lemma preserves_adu_from [pres]: "preserves (adu_from a)"
proof (rule preservesI)
  fix s x s'
  assume inv: "processor_inv s" and run: "adu_from a s = Inr (x, s')"
  then obtain b b1 m where b: "bp_heap s a = Some b" "bundle_id b1 = bundle_id b"
      "s' = s\<lparr>bp_memory := m, bp_heap := (bp_heap s)(a \<mapsto> b1)\<rparr>"
    by (auto simp: adu_from_def obind_eq_Inr deref_bundle_def split: option.splits dest: to_adu_id)
  then show "processor_inv s'"
    using processor_inv_write [OF inv b(1,2)] by (simp add: processor_inv_def)
qed

lemma preserves_send [pres]: "preserves (send_bundle k timeout)"
proof (cases "timeout = 0")
  case True
  then show ?thesis by (simp add: send_bundle_def pres)
next
  case False
  then show ?thesis
    by (auto simp: send_bundle_def preserves_def processor_inv_def split: list.splits bool.splits)
qed

section \<open>The handlers\<close>

lemma preserves_option [pres]:
  "preserves p \<Longrightarrow> (\<And>x. preserves (f x)) \<Longrightarrow> preserves (case r of None \<Rightarrow> p | Some x \<Rightarrow> f x)"
  by (cases r) auto

lemma preserves_list [pres]:
  "preserves p \<Longrightarrow> (\<And>x xs. preserves (f x xs)) \<Longrightarrow> preserves (case r of [] \<Rightarrow> p | x # xs \<Rightarrow> f x xs)"
  by (cases r) auto

lemma preserves_prod [pres]: "(\<And>x y. preserves (f x y)) \<Longrightarrow> preserves (case r of (x, y) \<Rightarrow> f x y)"
  by (cases r) auto

lemma preserves_Let [pres]: "(\<And>x. preserves (f x)) \<Longrightarrow> preserves (let x = r in f x)"
  by simp

definition preserving :: "(addr \<Rightarrow> unit proc) \<Rightarrow> bool" where
  "preserving forward \<longleftrightarrow> (\<forall>a. preserves (forward a))"

lemma preservingD: "preserving forward \<Longrightarrow> preserves (forward a)"
  by (simp add: preserving_def)

lemma preserves_status_report [pres]:
  assumes f: "preserving forward"
  shows "preserves (send_status_report forward env a status reason)"
  unfolding send_status_report_def forward_new_def by (intro pres preservingD [OF f])

lemma preserves_custody_signal [pres]:
  assumes f: "preserving forward"
  shows "preserves (send_custody_signal forward env a t reason)"
  unfolding send_custody_signal_def forward_new_def by (intro pres preservingD [OF f])

lemma preserves_delete [pres]:
  assumes f: "preserving forward"
  shows "preserves (bundle_delete forward env a reason)"
  unfolding bundle_delete_def by (intro pres preserves_change f) simp

lemma preserves_hop_count [pres]:
  assumes d: "\<And>a reason. preserves (delete a reason)"
  shows "preserves (hop_count_validation delete env a)"
  unfolding hop_count_validation_def by (intro pres preserves_change d) simp

lemma preserves_forward: "preserves (bundle_forward depth env a)"
proof (induction depth arbitrary: a)
  case (Suc depth)
  then have "preserving (bundle_forward depth env)" by (simp add: preserving_def)
  then show ?case by (simp only: bundle_forward.simps) (intro pres)
qed (simp add: preserves_lift)

lemma preserves_record_known [pres]: "preserves (bundle_record_add_and_check_known env a)"
  unfolding bundle_record_add_and_check_known_def by (intro pres)

lemma preserves_reassembled_known [pres]: "preserves (bundle_reassembled_is_known env a)"
  unfolding bundle_reassembled_is_known_def by (intro pres)

lemma preserves_add_reassembled [pres]: "preserves (bundle_add_reassembled_as_known env a)"
  unfolding bundle_add_reassembled_as_known_def by (intro pres)

lemma preserves_custody_accept [pres]:
  assumes f: "preserving forward"
  shows "preserves (bundle_custody_accept forward env a)"
  unfolding bundle_custody_accept_def by (intro pres f)

lemma preserves_handle_custody [pres]: "preserves (bundle_handle_custody_signal signal)"
proof (rule preservesI)
  fix s x s'
  assume inv: "processor_inv s" and run: "bundle_handle_custody_signal signal s = Inr (x, s')"
  then obtain r where "(case r of
         None \<Rightarrow> preturn ()
       | Some bundle \<Rightarrow> (case ar_custody_signal signal of
           None \<Rightarrow> plift (Inl Null_Deref)
         | Some cs \<Rightarrow>
             if cs_type cs = BUNDLE_CS_TYPE_ACCEPTANCE then bundle_custody_success bundle
             else bundle_custody_failure bundle (cs_reason cs))) s = Inr (x, s')" (is "?p r s = _")
    by (auto simp: bundle_handle_custody_signal_def obind_eq_Inr)
  moreover have "preserves (?p r)"
    unfolding bundle_custody_success_def bundle_custody_failure_def by (intro pres)
  ultimately show "processor_inv s'" using inv by (blast intro: preservesD)
qed

lemma preserves_deliver_adu [pres]: "preserves (bundle_deliver_adu env adu)"
  unfolding bundle_deliver_adu_def by (intro pres)

lemma preserves_insert [pres]:
  assumes f: "preserving forward"
  shows "preserves (add_to_reassembly_bundle_list forward env i a)"
  unfolding add_to_reassembly_bundle_list_def by (intro pres f)

lemma preserves_reassemble_loop [pres]: "preserves (reassemble_loop env n added pos payload l)"
  by (induction l arbitrary: added pos payload) (simp_all only: reassemble_loop.simps, intro pres, intro pres)

lemma preserves_try_reassemble [pres]: "preserves (try_reassemble env slot)"
  unfolding try_reassemble_def delete_slot_def by (intro pres)

lemma preserves_attempt [pres]:
  assumes f: "preserving forward"
  shows "preserves (bundle_attempt_reassembly forward env a)"
  unfolding bundle_attempt_reassembly_def by (intro pres f)

lemma preserves_deliver_local [pres]:
  assumes f: "preserving forward"
  shows "preserves (bundle_deliver_local forward env a)"
  unfolding bundle_deliver_local_def by (intro pres f)

lemma preserves_dispatch [pres]:
  assumes f: "preserving forward"
  shows "preserves (bundle_dispatch forward env a)"
  unfolding bundle_dispatch_def by (intro pres f preservingD [OF f])

lemma preserves_scheduled [pres]:
  assumes f: "preserving forward"
  shows "preserves (bundle_forwarding_scheduled forward env a)"
  unfolding bundle_forwarding_scheduled_def by (intro pres f)

lemma preserves_success [pres]:
  assumes f: "preserving forward"
  shows "preserves (bundle_forwarding_success forward env a)"
  unfolding bundle_forwarding_success_def by (intro pres f)

lemma preserves_failed [pres]:
  assumes f: "preserving forward"
  shows "preserves (bundle_forwarding_failed forward env a reason)"
  unfolding bundle_forwarding_failed_def by (intro pres f)

lemma preserves_dangling [pres]:
  assumes f: "preserving forward"
  shows "preserves (bundle_dangling forward env a)"
  unfolding bundle_dangling_def by (intro pres f)

lemma preserves_block_flags [pres]:
  assumes f: "preserving forward"
  shows "preserves (handle_unknown_block_flags forward env a flags)"
  unfolding handle_unknown_block_flags_def by (intro pres f)

lemma preserves_handling_case [pres]:
  "preserves p \<Longrightarrow> preserves q \<Longrightarrow> preserves r \<Longrightarrow> preserves (case h of
     BUNDLE_HRESULT_OK \<Rightarrow> p | BUNDLE_HRESULT_DELETED \<Rightarrow> q | BUNDLE_HRESULT_BLOCK_DISCARDED \<Rightarrow> r)"
  by (cases h) auto

lemma preserves_receive_blocks [pres]:
  assumes f: "preserving forward"
  shows "preserves (receive_blocks forward env a front bl)"
proof (induction bl arbitrary: front rule: length_induct)
  case (1 bl)
  show ?case
  proof (cases bl)
    case (Cons e rest)
    obtain ba blk where e: "e = (ba, blk)" by fastforce
    have A: "preserves (receive_blocks forward env a fr rest)" for fr using 1 Cons by simp
    show ?thesis
    proof (cases rest)
      case Nil
      then show ?thesis
        unfolding Cons e Nil receive_blocks.simps list.case by (intro pres f A [unfolded Nil])
    next
      case (Cons x rest')
      have B: "preserves (receive_blocks forward env a fr rest')" for fr
        using 1 \<open>bl = e # rest\<close> Cons by simp
      show ?thesis
        unfolding \<open>bl = e # rest\<close> e receive_blocks.simps list.case Cons by (intro pres f A [unfolded Cons] B)
    qed
  qed (simp add: preserves_return)
qed

lemma preserves_receive [pres]:
  assumes f: "preserving forward"
  shows "preserves (bundle_receive forward env a)"
  unfolding bundle_receive_def by (intro pres f)

lemma preserves_handle_signal: "preserves (handle_signal depth env signal)"
proof -
  have f: "preserving (bundle_forward depth env)" by (simp add: preserving_def preserves_forward)
  have "preserves (case t of
            BP_SIGNAL_BUNDLE_INCOMING \<Rightarrow> bundle_receive (bundle_forward depth env) env b
          | BP_SIGNAL_BUNDLE_ROUTED \<Rightarrow> bundle_forwarding_scheduled (bundle_forward depth env) env b
          | BP_SIGNAL_FORWARDING_CONTRAINDICATED \<Rightarrow>
              bundle_forwarding_contraindicated (bundle_forward depth env) env b r
          | BP_SIGNAL_BUNDLE_EXPIRED \<Rightarrow> bundle_expired (bundle_forward depth env) env b
          | BP_SIGNAL_RESCHEDULE_BUNDLE \<Rightarrow> bundle_dangling (bundle_forward depth env) env b
          | BP_SIGNAL_TRANSMISSION_SUCCESS \<Rightarrow> bundle_forwarding_success (bundle_forward depth env) env b
          | BP_SIGNAL_TRANSMISSION_FAILURE \<Rightarrow>
              bundle_forwarding_failed (bundle_forward depth env) env b BUNDLE_SR_REASON_TRANSMISSION_CANCELED
          | BP_SIGNAL_BUNDLE_LOCAL_DISPATCH \<Rightarrow> bundle_dispatch (bundle_forward depth env) env b)" for t b r
    by (cases t) (simp_all add: pres f bundle_forwarding_contraindicated_def bundle_expired_def)
  then show ?thesis unfolding handle_signal_def Let_def by (intro pres)
qed

lemma preserves_process_signals: "preserves (process_signals depth signals)"
  by (induction depth signals rule: process_signals.induct)
    (simp_all add: preserves_return preserves_seq preserves_handle_signal)

section \<open>Properties\<close>

text \<open>
  C6 (invariant). Whatever signals the bundle processor handles, at whatever times and with whatever
  results of the codecs of BPv7-bis, as long as no fault occurs: each identifier of the bundle store leads to
  a bundle in memory that carries this identifier, and the tree of the store stays balanced and sorted.
\<close>

theorem processor_store_sound:
  assumes "processor_inv s" and "bundle_processor_task depth eid signals s = Inr (x, s')"
  shows "processor_inv s' \<and>
    (\<forall>k a. bundle_storage_get k (bp_store s') = Some a \<longrightarrow> (\<exists>b. bp_heap s' a = Some b \<and> bundle_id b = k))"
proof -
  have "preserves (bundle_processor_task depth eid signals)"
    unfolding bundle_processor_task_def by (intro pres preserves_process_signals)
  then have inv: "processor_inv s'"
    using assms by (blast intro: preservesD)
  then have "tree_ok (bp_store s')" by (simp add: processor_inv_def store_sound_def)
  then show ?thesis
    using inv bundle_storage_get_eq by (auto simp: processor_inv_def store_sound_def)
qed

text \<open>A node called \<open>dtn:x\<close> at second 10, with the bundle of \<open>sample_bundle\<close> in its store.\<close>

definition sample_env :: bp_env where
  "sample_env = \<lparr>local_eid = ''dtn:x'', status_reporting = False, now_s = 10, now_ms = 10000,
     hop_count_parse = \<lambda>_ _. None, hop_count_serialize = \<lambda>_. [],
     report_generator7 = \<lambda>m _ _ _ _ _. Inr (None, m), record_reader7 = \<lambda>m _. Inr (None, m),
     stack_junk = \<lparr>rp_status = PARSER_STATUS_GOOD, rp_stage = RP_EXPECT_TYPE,
       rp_sdnv = \<lparr>sdnv_st = SDNV_IN_PROGRESS, sdnv_err = SDNV_ERROR_NONE, bytes_parsed = 0\<rparr>,
       rp_record = \<lparr>ar_type = 0, ar_flags = 0, ar_status_report = None, ar_custody_signal = None,
         ar_fragment_offset = 0, ar_fragment_length = 0, event_timestamp = 0, event_nanoseconds = 0,
         bundle_creation_timestamp = 0, bundle_sequence_number = 0, bundle_source_eid_length = 0,
         bundle_source_eid = None\<rparr>, rp_index = 0, rp_remaining = 0\<rparr>\<rparr>"

definition sample_state :: bp_state where
  "sample_state = \<lparr>bp_memory = [], bp_addresses = [], bp_push = [], bp_heap = sample_heap', bp_store = sample_store,
     bp_custody = custody_start, bp_reassembly = [], bp_known = [], bp_agents = [], bp_routed = [], bp_delivered = []\<rparr>"

lemma sample_state_inv: "processor_inv sample_state"
proof -
  have "tree_ok sample_store" by (simp add: tree_ok_def sample_store_def sorted_ids_simps)
  then show ?thesis
    by (auto simp: processor_inv_def store_sound_def sample_state_def store_map_def sample_store_def sample_heap'_def
        split: if_splits)
qed

theorem processor_store_sound_witness:
  "\<exists>s'. bundle_processor_task 1 ''dtn:x''
      [(sample_env, \<lparr>signal_type = BP_SIGNAL_BUNDLE_INCOMING, signal_reason = 0, signal_bundle = 1\<rparr>)] sample_state =
        Inr ((), s') \<and> bp_routed s' = [1] \<and> processor_inv s'"
proof -
  let ?r = "bundle_processor_task 1 ''dtn:x''
      [(sample_env, \<lparr>signal_type = BP_SIGNAL_BUNDLE_INCOMING, signal_reason = 0, signal_bundle = 1\<rparr>)] sample_state"
  have "case ?r of Inl e \<Rightarrow> False | Inr (x, s') \<Rightarrow> bp_routed s' = [1]"
    by code_simp
  then obtain x s' where r: "?r = Inr (x, s')" "bp_routed s' = [1]"
    by (cases ?r) auto
  then show ?thesis
    using processor_store_sound [OF sample_state_inv r(1)] by (intro exI [of _ s']) simp
qed

end
