(* ===== verification/Processor_Delivery.thy ===== *)
theory Processor_Delivery
  imports Processor_Safety
begin

text \<open>
  What the bundle processor does with a received bundle for another node: it goes to the router or waits for custody.
\<close>

section \<open>Running handlers\<close>

lemma deref_run: "bp_heap s a = Some b \<Longrightarrow> deref a s = Inr (b, s)"
  by (simp add: deref_def deref_bundle_def)

lemma change_run: "bp_heap s a = Some b \<Longrightarrow>
    change_bundle a f s = Inr ((), s\<lparr>bp_heap := (bp_heap s)(a \<mapsto> f b)\<rparr>)"
  by (simp add: change_bundle_def deref_bundle_def)

section \<open>Forwarding\<close>

lemma find_no_block: "\<forall>blk \<in> snd ` set bl. blk_type blk \<noteq> t \<Longrightarrow> find_block_by_type bl t = None"
  by (induction bl) (auto simp: find_block_by_type_def)

lemma no_hop_count_run:
  assumes b: "bp_heap s a = Some b" and no: "\<forall>blk \<in> snd ` set (blocks b). blk_type blk \<noteq> BUNDLE_BLOCK_TYPE_HOP_COUNT"
  shows "hop_count_validation delete env a s = Inr (True, s)"
  by (simp only: hop_count_validation_def run deref_run [where a = a, OF b] find_no_block [OF no] option.case)

text \<open>The end of forwarding: the constraints and the signal to the router.\<close>

definition forward_rest :: "addr \<Rightarrow> unit proc" where
  "forward_rest a =
     pseq (bundle_add_rc a BUNDLE_RET_CONSTRAINT_FORWARD_PENDING)
      (pseq (bundle_rem_rc a BUNDLE_RET_CONSTRAINT_DISPATCH_PENDING False)
      (pbind (deref a) (\<lambda>b. pseq (send_bundle (bundle_id b) 0) (preturn ()))))"

lemma bundle_forward_Suc: "bundle_forward (Suc n) env a =
    pbind (hop_count_validation (bundle_delete (bundle_forward n env) env) env a) (\<lambda>ok. pwhen ok (forward_rest a))"
  by (simp add: forward_rest_def)

definition forwarded :: "bundle_t \<Rightarrow> bundle_t" where
  "forwarded b = b\<lparr>ret_constraints :=
     (ret_constraints b OR BUNDLE_RET_CONSTRAINT_FORWARD_PENDING) AND NOT BUNDLE_RET_CONSTRAINT_DISPATCH_PENDING\<rparr>"

lemma forward_rest_run:
  assumes "bp_heap s a = Some b"
  shows "forward_rest a s = Inr ((), s\<lparr>bp_heap := (bp_heap s)(a \<mapsto> forwarded b),
    bp_routed := bp_routed s @ [bundle_id b]\<rparr>)"
  using assms
  by (simp add: forward_rest_def bundle_add_rc_def bundle_rem_rc_def send_bundle_def pseq_def pbind_def
      change_bundle_def deref_bundle_def deref_def pwhen_def preturn_def pupdate_def forwarded_def)

lemma forward_without_hop_count:
  assumes "bp_heap s a = Some b" and "\<forall>blk \<in> snd ` set (blocks b). blk_type blk \<noteq> BUNDLE_BLOCK_TYPE_HOP_COUNT"
  shows "bundle_forward (Suc n) env a s = forward_rest a s"
  by (simp only: bundle_forward_Suc run no_hop_count_run [OF assms])

section \<open>Reception\<close>

lemma receive_payload_only:
  "\<forall>blk \<in> snd ` set bl. blk_type blk = BUNDLE_BLOCK_TYPE_PAYLOAD \<Longrightarrow>
    receive_blocks forward env a front bl s = Inr (True, s)"
proof (induction bl arbitrary: front)
  case Nil
  show ?case by (simp only: receive_blocks.simps preturn_run)
next
  case (Cons e bl)
  obtain x blk where e: "e = (x, blk)" by fastforce
  have t: "blk_type blk = BUNDLE_BLOCK_TYPE_PAYLOAD"
    and rest: "\<forall>blk \<in> snd ` set bl. blk_type blk = BUNDLE_BLOCK_TYPE_PAYLOAD"
    using Cons.prems by (simp_all add: e)
  show ?case
    by (simp only: e receive_blocks.simps if_P [OF t] Cons.IH [OF rest])
qed

lemma dispatch_remote:
  assumes b: "bp_heap s a = Some b" and d: "destination b = Some d" "take (length (local_eid env)) d \<noteq> local_eid env"
  shows "bundle_dispatch forward env a s = forward a s"
proof -
  have "bundle_endpoint_is_local env b = Inr False"
    using d by (simp add: bundle_endpoint_is_local_def deref_string_def)
  then show ?thesis
    by (simp only: bundle_dispatch_def run deref_run [where a = a, OF b] if_False)
qed

lemma custody_test:
  assumes red: "custody_manager_has_redundant_bundle (bp_custody s) (bp_heap s) a = Inr False"
    and acc: "custody_manager_storage_is_acceptable (bp_memory s) (bp_custody s) (bp_heap s) a = Inr (True, H, m)"
  shows "pbind (\<lambda>s. plift (custody_manager_has_redundant_bundle (bp_custody s) (bp_heap s) a) s)
      (\<lambda>redundant. if redundant then p else pbind (custody_acceptable a) (\<lambda>acceptable. pwhen (\<not> acceptable) q)) s =
    Inr ((), s\<lparr>bp_heap := H, bp_memory := m\<rparr>)"
proof -
  have "custody_acceptable a s = Inr (True, s\<lparr>bp_heap := H, bp_memory := m\<rparr>)"
    by (simp only: custody_acceptable_def acc obind_Inr prod.case)
  then show ?thesis
    by (simp only: run red if_False not_True_eq_False)
qed

definition waiting_bundle :: "bundle_t \<Rightarrow> bundle_t" where
  "waiting_bundle b = b\<lparr>ret_constraints := ret_constraints b OR BUNDLE_RET_CONSTRAINT_DISPATCH_PENDING\<rparr>"

lemma waiting_bundle_simps:
  "proc_flags (waiting_bundle b) = proc_flags b" "creation_timestamp (waiting_bundle b) = creation_timestamp b"
  "lifetime (waiting_bundle b) = lifetime b" "blocks (waiting_bundle b) = blocks b"
  "protocol_version (waiting_bundle b) = protocol_version b" "bundle_id (waiting_bundle b) = bundle_id b"
  "destination (waiting_bundle b) = destination b"
  "bundle_get_expiration_time now (waiting_bundle b) = bundle_get_expiration_time now b"
  by (simp_all add: waiting_bundle_def bundle_get_expiration_time_def)

text \<open>What is sent first: the report of the reception, when it is asked for.\<close>

definition reception_report :: "(addr \<Rightarrow> unit proc) \<Rightarrow> bp_env \<Rightarrow> addr \<Rightarrow> bundle_t \<Rightarrow> unit proc" where
  "reception_report forward env a b = pwhen (HAS_FLAG (proc_flags b) BUNDLE_FLAG_REPORT_RECEPTION)
     (send_status_report forward env a BUNDLE_SR_FLAG_BUNDLE_RECEIVED BUNDLE_SR_REASON_NO_INFO)"

lemma receive_plain:
  assumes heap: "bp_heap s a = Some b"
    and plain: "\<forall>blk \<in> snd ` set (blocks b). blk_type blk = BUNDLE_BLOCK_TYPE_PAYLOAD"
    and report: "reception_report forward env a b (s\<lparr>bp_heap := (bp_heap s)(a \<mapsto> waiting_bundle b)\<rparr>) = Inr ((), s0)"
    and alive: "now_s env \<le> bundle_get_expiration_time (now_s env) b"
  shows "bundle_receive forward env a s =
    (if HAS_FLAG (proc_flags b) BUNDLE_V6_FLAG_CUSTODY_TRANSFER_REQUESTED \<and> protocol_version b = 6
     then pbind (\<lambda>s. plift (custody_manager_has_redundant_bundle (bp_custody s) (bp_heap s) a) s)
           (\<lambda>redundant.
            if redundant
            then pseq (send_custody_signal forward env a BUNDLE_CS_TYPE_REFUSAL BUNDLE_CS_REASON_REDUNDANT_RECEPTION)
                  (bundle_rem_rc a BUNDLE_RET_CONSTRAINT_DISPATCH_PENDING True)
            else pbind (custody_acceptable a) (\<lambda>acceptable.
              pwhen (\<not> acceptable)
               (pseq (send_custody_signal forward env a BUNDLE_CS_TYPE_REFUSAL BUNDLE_CS_REASON_DEPLETED_STORAGE)
                 (bundle_delete forward env a BUNDLE_SR_REASON_DEPLETED_STORAGE))))
     else bundle_dispatch forward env a) s0"
proof -
  let ?s = "s\<lparr>bp_heap := (bp_heap s)(a \<mapsto> waiting_bundle b)\<rparr>"
  have add: "bundle_add_rc a BUNDLE_RET_CONSTRAINT_DISPATCH_PENDING s = Inr ((), ?s)"
    by (simp only: bundle_add_rc_def waiting_bundle_def change_run [where a = a, OF heap])
  have get: "deref a ?s = Inr (waiting_bundle b, ?s)" by (simp add: deref_run)
  have rep: "pwhen (HAS_FLAG (proc_flags b) BUNDLE_FLAG_REPORT_RECEPTION)
      (send_status_report forward env a BUNDLE_SR_FLAG_BUNDLE_RECEIVED BUNDLE_SR_REASON_NO_INFO) ?s = Inr ((), s0)"
    using report by (simp only: reception_report_def)
  have old: "(creation_timestamp b \<noteq> 0 \<and> bundle_get_expiration_time (now_s env) b < now_s env) = False"
    using alive by (auto simp: not_less)
  show ?thesis
    by (simp only: bundle_receive_def run add get waiting_bundle_simps rep old if_False receive_payload_only [OF plain])
qed

lemma acceptable_kept:
  assumes "custody_manager_storage_is_acceptable m0 c (H0(a \<mapsto> b)) a = Inr (True, H, m)"
  shows "\<exists>k. H a = Some (b\<lparr>primary_block_length := k\<rparr>)"
proof -
  obtain sz b1 m1 where r: "bundle_get_serialized_size m0 b = Inr (sz, b1, m1)" and h: "H a = Some b1"
    using assms by (auto simp: custody_manager_storage_is_acceptable_def deref_bundle_def obind_eq_Inr
        split: if_splits)
  from serialized_size_shape [OF r] show ?thesis by (simp add: h)
qed

text \<open>
  C7 (liveness). An unexpired bundle for another node, without extension blocks, is handed to the router at once
  and then waits for its transmission; but a bundle of RFC 5050 that asks for custody, when custody can be
  taken, is not: it is left in the store waiting for a dispatch, no signal is sent to anyone, and so it is
  neither forwarded nor is its custody accepted. When the bundle asks for a report of its reception, that report is sent
  first; all this then holds from the state it leaves on, provided that sending it returns and leaves the bundle as it is.
\<close>

theorem reception_dispatch:
  assumes heap: "bp_heap s a = Some b"
    and plain: "\<forall>blk \<in> snd ` set (blocks b). blk_type blk = BUNDLE_BLOCK_TYPE_PAYLOAD"
    and report: "if HAS_FLAG (proc_flags b) BUNDLE_FLAG_REPORT_RECEPTION
      then send_status_report (bundle_forward (Suc n) env) env a BUNDLE_SR_FLAG_BUNDLE_RECEIVED BUNDLE_SR_REASON_NO_INFO
          (s\<lparr>bp_heap := (bp_heap s)(a \<mapsto> waiting_bundle b)\<rparr>) = Inr ((), s0) \<and> bp_heap s0 a = Some (waiting_bundle b)
      else s0 = s\<lparr>bp_heap := (bp_heap s)(a \<mapsto> waiting_bundle b)\<rparr>"
    and alive: "now_s env \<le> bundle_get_expiration_time (now_s env) b"
    and remote: "destination b = Some d" "take (length (local_eid env)) d \<noteq> local_eid env"
  shows "(HAS_FLAG (proc_flags b) BUNDLE_V6_FLAG_CUSTODY_TRANSFER_REQUESTED \<and> protocol_version b = 6 \<and>
      custody_manager_has_redundant_bundle (bp_custody s0) (bp_heap s0) a = Inr False \<and>
      custody_manager_storage_is_acceptable (bp_memory s0) (bp_custody s0) (bp_heap s0) a = Inr (True, H, m) \<longrightarrow>
      bundle_receive (bundle_forward (Suc n) env) env a s = Inr ((), s0\<lparr>bp_heap := H, bp_memory := m\<rparr>) \<and>
      (\<exists>k. H a = Some ((waiting_bundle b)\<lparr>primary_block_length := k\<rparr>))) \<and>
    (\<not> (HAS_FLAG (proc_flags b) BUNDLE_V6_FLAG_CUSTODY_TRANSFER_REQUESTED \<and> protocol_version b = 6) \<longrightarrow>
      bundle_receive (bundle_forward (Suc n) env) env a s = Inr ((), s0\<lparr>
        bp_heap := (bp_heap s0)(a \<mapsto> forwarded (waiting_bundle b)), bp_routed := bp_routed s0 @ [bundle_id b]\<rparr>))"
  (is "(?cust \<and> ?v6 \<and> ?red \<and> ?acc \<longrightarrow> ?r1 \<and> ?k) \<and> (\<not> ?c \<longrightarrow> ?r2)")
proof -
  let ?s = "s\<lparr>bp_heap := (bp_heap s)(a \<mapsto> waiting_bundle b)\<rparr>"
  have h: "bp_heap s0 a = Some (waiting_bundle b)"
    using report by (cases "HAS_FLAG (proc_flags b) BUNDLE_FLAG_REPORT_RECEPTION") simp_all
  have "reception_report (bundle_forward (Suc n) env) env a b ?s = Inr ((), s0)"
    using report
    by (cases "HAS_FLAG (proc_flags b) BUNDLE_FLAG_REPORT_RECEPTION")
      (simp_all only: reception_report_def pwhen_True pwhen_False if_True if_False preturn_run simp_thms)
  note start = receive_plain [OF heap plain this alive]
  have "?r1 \<and> ?k" if c: "?c" and red: "?red" and acc: "?acc"
  proof
    from custody_test [OF red acc] show ?r1
      by (simp only: start if_P [OF c])
    have "bp_heap s0 = (bp_heap s0)(a \<mapsto> waiting_bundle b)" using h by (simp add: fun_eq_iff)
    then show ?k using acceptable_kept acc by metis
  qed
  moreover have "?r2" if c: "\<not> ?c"
  proof -
    have no: "\<forall>blk \<in> snd ` set (blocks (waiting_bundle b)). blk_type blk \<noteq> BUNDLE_BLOCK_TYPE_HOP_COUNT"
      using plain by (simp add: waiting_bundle_simps)
    have dest: "destination (waiting_bundle b) = Some d" using remote by (simp add: waiting_bundle_simps)
    have "bundle_receive (bundle_forward (Suc n) env) env a s = forward_rest a s0"
      by (simp only: start if_not_P [OF c] dispatch_remote [OF h dest remote(2)] forward_without_hop_count [OF h no])
    also have "\<dots> = Inr ((), s0\<lparr>bp_heap := (bp_heap s0)(a \<mapsto> forwarded (waiting_bundle b)),
        bp_routed := bp_routed s0 @ [bundle_id (waiting_bundle b)]\<rparr>)"
      by (rule forward_rest_run [OF h])
    finally show ?thesis by (simp add: waiting_bundle_simps)
  qed
  ultimately show ?thesis by blast
qed

text \<open>The bundle of \<open>sample_state\<close> as one of RFC 5050 that asks for custody.\<close>

definition sample_custody_bundle :: bundle_t where
  "sample_custody_bundle = sample_bundle\<lparr>bundle_id := 1, protocol_version := 6,
     proc_flags := BUNDLE_V6_FLAG_CUSTODY_TRANSFER_REQUESTED OR BUNDLE_V6_FLAG_SINGLETON_ENDPOINT\<rparr>"

definition sample_custody_state :: bp_state where
  "sample_custody_state = sample_state\<lparr>bp_memory := replicate 9 (Some 60), bp_heap := [7 \<mapsto> sample_custody_bundle]\<rparr>"

theorem reception_dispatch_witness:
  "\<exists>H m k. bundle_receive (bundle_forward 1 sample_env) sample_env 7 sample_custody_state =
      Inr ((), sample_custody_state\<lparr>bp_heap := H, bp_memory := m\<rparr>) \<and>
    H 7 = Some ((waiting_bundle sample_custody_bundle)\<lparr>primary_block_length := k\<rparr>)"
proof -
  let ?H = "(bp_heap sample_custody_state)(7 \<mapsto> waiting_bundle sample_custody_bundle)"
  have heap: "bp_heap sample_custody_state 7 = Some sample_custody_bundle"
    by (simp add: sample_custody_state_def)
  have plain: "\<forall>blk \<in> snd ` set (blocks sample_custody_bundle). blk_type blk = BUNDLE_BLOCK_TYPE_PAYLOAD"
    by code_simp
  have flags: "\<not> HAS_FLAG (proc_flags sample_custody_bundle) BUNDLE_FLAG_REPORT_RECEPTION"
    and custody: "HAS_FLAG (proc_flags sample_custody_bundle) BUNDLE_V6_FLAG_CUSTODY_TRANSFER_REQUESTED \<and>
      protocol_version sample_custody_bundle = 6"
    and alive: "now_s sample_env \<le> bundle_get_expiration_time (now_s sample_env) sample_custody_bundle"
    and dest: "destination sample_custody_bundle = Some ''dtn:b''"
      "take (length (local_eid sample_env)) ''dtn:b'' \<noteq> local_eid sample_env"
    and red: "custody_manager_has_redundant_bundle (bp_custody sample_custody_state) ?H 7 = Inr False"
    by code_simp+
  have "case custody_manager_storage_is_acceptable (bp_memory sample_custody_state) (bp_custody sample_custody_state)
      ?H 7 of Inl e \<Rightarrow> False | Inr (r, H, m) \<Rightarrow> r"
    by code_simp
  then obtain H m where acc: "custody_manager_storage_is_acceptable (bp_memory sample_custody_state)
      (bp_custody sample_custody_state) ?H 7 = Inr (True, H, m)"
    by (auto split: sum.splits)
  let ?s = "sample_custody_state\<lparr>bp_heap := ?H\<rparr>"
  have start: "if HAS_FLAG (proc_flags sample_custody_bundle) BUNDLE_FLAG_REPORT_RECEPTION
      then send_status_report (bundle_forward (Suc 0) sample_env) sample_env 7 BUNDLE_SR_FLAG_BUNDLE_RECEIVED
          BUNDLE_SR_REASON_NO_INFO ?s = Inr ((), ?s) \<and> bp_heap ?s 7 = Some (waiting_bundle sample_custody_bundle)
      else ?s = ?s"
    using flags by simp
  show ?thesis
    using reception_dispatch [OF heap plain start alive dest, of H m] red acc custody by auto
qed

end
