(* ===== verification/Spp.thy ===== *)
theory Spp
  imports Upcn_Prelude
begin

text \<open>
  Space packets, \<open>components/spp\<close>: the primary header of CCSDS 133.0-B with its writer and its two readers, the
  time codes of CCSDS 301.0-B that may follow it (only the unsegmented code is supported), and the incremental
  parser of both. A writer appends to a buffer, and is here a function to the bytes it appends; the caller has to provide
  the room. The union members \<open>preamble\<close> and \<open>unsegmented\<close> of the time code parser are separate fields: the second is
  written when the first is no longer read.
\<close>

section \<open>Time codes\<close>

abbreviation (input) "SPP_TC_UNSEGMENTED_CCSDS_EPOCH \<equiv> (0x1 :: u32)"
abbreviation (input) "SPP_TC_UNSEGMENTED_CUSTOM_EPOCH \<equiv> (0x2 :: u32)"
abbreviation (input) "SPP_TC_UNKNOWN \<equiv> (0xff :: u32)"
abbreviation (input) "SPP_TC_UNSEGMENTED_FRACTIONAL_MAX_OCTETS \<equiv> (6 :: nat)"
abbreviation (input) "CCSDS_EPOCH_TO_DTN_EPOCH \<equiv> (1325376000 :: u64)"
abbreviation (input) "UNSEGMENTED_BASE_UNIT_LONGP_THRESHOLD \<equiv> (4 :: u8)"
abbreviation (input) "UNSEGMENTED_FRACTIONAL_LONGP_THRESHOLD \<equiv> (3 :: u8)"

datatype spp_tc_parser_status = SPP_TC_PARSER_GOOD | SPP_TC_PARSER_ERROR | SPP_TC_PARSER_DONE

record spp_tc_config =
  tc_type :: u32
  base_unit_octets :: u8
  fractional_octets :: u8

record spp_tc_context =
  with_p_field :: bool
  tc_defaults :: spp_tc_config

record spp_tc_parser_preamble_state =
  has_second_octet :: bool
  detected_type :: u32

record spp_tc_parser =
  tcp_status :: spp_tc_parser_status
  tcp_format :: spp_tc_config
  tcp_preamble :: spp_tc_parser_preamble_state
  read_base_unit :: bool
  base_unit_remaining :: u8
  fractional_remaining :: u8
  base_unit_count :: u64
  fractional_count :: u64
  fractional_ptr :: u8
  fractional_buf :: bytes

definition spp_tc_parser_start_from_config :: "spp_tc_parser \<Rightarrow> spp_tc_parser_status \<times> spp_tc_parser" where
  "spp_tc_parser_start_from_config p =
     (SPP_TC_PARSER_GOOD, p\<lparr>read_base_unit := False, base_unit_count := 0,
        base_unit_remaining := base_unit_octets (tcp_format p),
        fractional_remaining := fractional_octets (tcp_format p), fractional_count := 0, fractional_ptr := 0\<rparr>)"

definition unsegmented_type :: "u32 \<Rightarrow> bool" where
  "unsegmented_type t \<longleftrightarrow> t = SPP_TC_UNSEGMENTED_CCSDS_EPOCH \<or> t = SPP_TC_UNSEGMENTED_CUSTOM_EPOCH"

definition spp_tc_pfield_parse_first :: "spp_tc_config \<Rightarrow> u8 \<Rightarrow>
    spp_tc_parser_status \<times> spp_tc_parser_preamble_state \<times> spp_tc_config" where
  "spp_tc_pfield_parse_first dest byte =
     (let state = \<lparr>has_second_octet = (byte AND 0x80 \<noteq> 0), detected_type = drop_bit 4 (ucast (byte AND 0x70))\<rparr>
      in if unsegmented_type (detected_type state)
         then (SPP_TC_PARSER_GOOD, state, dest\<lparr>base_unit_octets := drop_bit 2 (byte AND 0x0c) + 1,
                 fractional_octets := byte AND 0x03\<rparr>)
         else (SPP_TC_PARSER_ERROR, state, dest))"

definition spp_tc_pfield_parse_second :: "spp_tc_parser_preamble_state \<Rightarrow> spp_tc_config \<Rightarrow> u8 \<Rightarrow>
    spp_tc_parser_status \<times> spp_tc_parser_preamble_state \<times> spp_tc_config" where
  "spp_tc_pfield_parse_second state dest byte =
     (let state1 = state\<lparr>has_second_octet := (byte AND 0x80 \<noteq> 0)\<rparr>
      in if unsegmented_type (detected_type state)
         then (SPP_TC_PARSER_GOOD, state1,
           dest\<lparr>base_unit_octets := base_unit_octets dest + drop_bit 5 (byte AND 0x60),
             fractional_octets := fractional_octets dest + drop_bit 2 (byte AND 0x1c)\<rparr>)
         else (SPP_TC_PARSER_ERROR, state1, dest))"

definition spp_tc_pfield_feed :: "spp_tc_parser \<Rightarrow> u8 \<Rightarrow> spp_tc_parser_status \<times> spp_tc_parser" where
  "spp_tc_pfield_feed p byte =
     (let (result, preamble, format) =
        (if \<not> has_second_octet (tcp_preamble p) then spp_tc_pfield_parse_first (tcp_format p) byte
         else spp_tc_pfield_parse_second (tcp_preamble p) (tcp_format p) byte);
        p1 = p\<lparr>tcp_preamble := preamble, tcp_format := format\<rparr>
      in if result \<noteq> SPP_TC_PARSER_GOOD then (result, p1)
         else if \<not> has_second_octet preamble
         then (result, snd (spp_tc_parser_start_from_config
                 (p1\<lparr>tcp_format := format\<lparr>tc_type := detected_type preamble\<rparr>\<rparr>)))
         else (result, p1))"

text \<open>The octets of a given preamble after the first; the configuration is changed even when the result is -1.\<close>

fun preamble_octets :: "spp_tc_parser_preamble_state \<Rightarrow> spp_tc_config \<Rightarrow> bytes \<Rightarrow> int \<times> spp_tc_config" where
  "preamble_octets state dest [] = (0, dest\<lparr>tc_type := detected_type state\<rparr>)"
| "preamble_octets state dest (b # bs) =
     (if \<not> has_second_octet state then (0, dest\<lparr>tc_type := detected_type state\<rparr>)
      else (case spp_tc_pfield_parse_second state dest b of (status, state1, dest1) \<Rightarrow>
        if status \<noteq> SPP_TC_PARSER_GOOD then (-1, dest1) else preamble_octets state1 dest1 bs))"

definition spp_tc_configure_from_preamble :: "spp_tc_context \<Rightarrow> bytes \<Rightarrow> int \<times> spp_tc_context" where
  "spp_tc_configure_from_preamble ctx preamble = (case preamble of
       [] \<Rightarrow> (-1, ctx)
     | b # bs \<Rightarrow> (case spp_tc_pfield_parse_first (tc_defaults ctx) b of (status, state, dest) \<Rightarrow>
         if status \<noteq> SPP_TC_PARSER_GOOD then (-1, ctx\<lparr>tc_defaults := dest\<rparr>)
         else (case preamble_octets state dest bs of (r, dest1) \<Rightarrow> (r, ctx\<lparr>tc_defaults := dest1\<rparr>))))"

definition spp_tc_parser_init :: "spp_tc_context \<Rightarrow> spp_tc_parser \<Rightarrow> spp_tc_parser" where
  "spp_tc_parser_init ctx p =
     (if with_p_field ctx
      then p\<lparr>tcp_format := (tcp_format p)\<lparr>tc_type := SPP_TC_UNKNOWN\<rparr>,
             tcp_preamble := (tcp_preamble p)\<lparr>has_second_octet := False\<rparr>, tcp_status := SPP_TC_PARSER_GOOD\<rparr>
      else (let (status, p1) = spp_tc_parser_start_from_config (p\<lparr>tcp_format := tc_defaults ctx\<rparr>)
            in p1\<lparr>tcp_status := status\<rparr>))"

definition spp_tc_unsegmented_advance :: "spp_tc_parser \<Rightarrow> spp_tc_parser_status \<times> spp_tc_parser" where
  "spp_tc_unsegmented_advance p =
     (let p1 = (if \<not> read_base_unit p \<and> base_unit_remaining p = 0 then p\<lparr>read_base_unit := True\<rparr> else p)
      in if read_base_unit p1 \<and> fractional_remaining p1 = 0 then (SPP_TC_PARSER_DONE, p1)
         else (SPP_TC_PARSER_GOOD, p1))"

text \<open>A fractional octet is stored at the next index, which is not tested against the size of the buffer.\<close>

definition feed_fractional :: "spp_tc_parser \<Rightarrow> u8 \<Rightarrow> spp_tc_parser outcome" where
  "feed_fractional p byte =
     (let index = unat (fractional_ptr p)
      in if length (fractional_buf p) \<le> index then Inl Out_Of_Bounds
         else Inr (p\<lparr>fractional_ptr := fractional_ptr p + 1, fractional_buf := (fractional_buf p)[index := byte],
                fractional_remaining := fractional_remaining p - 1\<rparr>))"

definition tc_parser_feed :: "spp_tc_parser \<Rightarrow> u8 \<Rightarrow> (spp_tc_parser_status \<times> spp_tc_parser) outcome" where
  "tc_parser_feed p byte =
     (if tc_type (tcp_format p) = SPP_TC_UNKNOWN then Inr (spp_tc_pfield_feed p byte)
      else if tc_type (tcp_format p) = SPP_TC_UNSEGMENTED_CCSDS_EPOCH
      then if \<not> read_base_unit p
           then Inr (spp_tc_unsegmented_advance (p\<lparr>base_unit_remaining := base_unit_remaining p - 1,
                  base_unit_count := push_bit 8 (base_unit_count p) OR ucast byte\<rparr>))
           else obind (feed_fractional p byte) (\<lambda>p1. Inr (spp_tc_unsegmented_advance p1))
      else Inr (SPP_TC_PARSER_ERROR, p))"

definition spp_tc_parser_feed :: "spp_tc_parser \<Rightarrow> u8 \<Rightarrow> (spp_tc_parser_status \<times> spp_tc_parser) outcome" where
  "spp_tc_parser_feed p byte =
     obind (tc_parser_feed p byte) (\<lambda>(result, p1). Inr (result, p1\<lparr>tcp_status := result\<rparr>))"

definition spp_tc_get_dtn_timestamp :: "spp_tc_parser \<Rightarrow> u64" where
  "spp_tc_get_dtn_timestamp p =
     (if tcp_status p \<noteq> SPP_TC_PARSER_DONE then -1
      else if tc_type (tcp_format p) = SPP_TC_UNSEGMENTED_CCSDS_EPOCH
      then if base_unit_count p < CCSDS_EPOCH_TO_DTN_EPOCH then -1
           else base_unit_count p - CCSDS_EPOCH_TO_DTN_EPOCH
      else -1)"

definition spp_tc_get_size :: "spp_tc_context \<Rightarrow> u64" where
  "spp_tc_get_size ctx =
     (let format = tc_defaults ctx
      in if unsegmented_type (tc_type format)
         then ucast (base_unit_octets format) + ucast (fractional_octets format) +
              (if with_p_field ctx
               then if base_unit_octets format > UNSEGMENTED_BASE_UNIT_LONGP_THRESHOLD \<or>
                       fractional_octets format > UNSEGMENTED_FRACTIONAL_LONGP_THRESHOLD then 2 else 1
               else 0)
         else 0)"

definition spp_tc_serialize_preamble :: "spp_tc_config \<Rightarrow> int \<times> bytes" where
  "spp_tc_serialize_preamble format =
     (if unsegmented_type (tc_type format)
      then (let base_unit_wide = (base_unit_octets format > UNSEGMENTED_BASE_UNIT_LONGP_THRESHOLD);
                fractional_wide = (fractional_octets format > UNSEGMENTED_FRACTIONAL_LONGP_THRESHOLD);
                need_second_byte = (base_unit_wide \<or> fractional_wide);
                first = ucast (push_bit 4 (tc_type format)) OR (if need_second_byte then 0x80 else 0)
                  OR (if base_unit_wide then 0x0c else push_bit 2 (base_unit_octets format - 1))
                  OR (if fractional_wide then 0x03 else fractional_octets format);
                second = (if base_unit_wide
                    then push_bit 5 (base_unit_octets format - UNSEGMENTED_BASE_UNIT_LONGP_THRESHOLD) else 0)
                  OR (if fractional_wide
                    then push_bit 2 (fractional_octets format - UNSEGMENTED_FRACTIONAL_LONGP_THRESHOLD) else 0)
            in (0, if need_second_byte then [first, second] else [first]))
      else (-1, []))"

text \<open>
  The octets of a number from the one at bit \<open>shift\<close> on; a shift by 64 bits or more is undefined.
\<close>

fun write_octets :: "nat \<Rightarrow> u32 \<Rightarrow> u64 \<Rightarrow> bytes outcome" where
  "write_octets 0 shift v = Inr []"
| "write_octets (Suc n) shift v =
     (if shift \<ge> 64 then Inl Undefined_Shift
      else obind (write_octets n (shift - 8) v) (\<lambda>bs. Inr (ucast (drop_bit (unat shift) v AND 0xff) # bs)))"

definition serialize_unsegmented :: "spp_tc_config \<Rightarrow> u64 \<Rightarrow> u64 \<Rightarrow> (int \<times> bytes) outcome" where
  "serialize_unsegmented config seconds fractional =
     obind (write_octets (unat (base_unit_octets config)) ((ucast (base_unit_octets config) - 1) * 8) seconds) (\<lambda>bs.
     obind (write_octets (unat (fractional_octets config)) (64 - 8) fractional) (\<lambda>fs. Inr (0, bs @ fs)))"

definition spp_tc_serialize :: "spp_tc_context \<Rightarrow> u64 \<Rightarrow> u32 \<Rightarrow> (int \<times> bytes) outcome" where
  "spp_tc_serialize ctx dtn_timestamp dtn_counter =
     (let (r, preamble) = (if with_p_field ctx then spp_tc_serialize_preamble (tc_defaults ctx) else (0, []))
      in if r \<noteq> 0 then Inr (-1, preamble)
         else if tc_type (tc_defaults ctx) = SPP_TC_UNSEGMENTED_CCSDS_EPOCH
         then obind (serialize_unsegmented (tc_defaults ctx) (dtn_timestamp + CCSDS_EPOCH_TO_DTN_EPOCH)
                (push_bit 32 (ucast dtn_counter))) (\<lambda>(s, bs). Inr (s, preamble @ bs))
         else Inr (-1, preamble))"

section \<open>Primary header\<close>

abbreviation (input) "SPP_MAX_APID \<equiv> (0x7ff :: u16)"
abbreviation (input) "SPP_MAX_SEGMENT_NUMBER \<equiv> (0x3fff :: u16)"
abbreviation (input) "SPP_MAX_DATA_LENGTH \<equiv> (65536 :: u64)"
abbreviation (input) "SPP_PRIMARY_HEADER_SIZE \<equiv> (6 :: u64)"
abbreviation (input) "SPP_PH_EARLY_VERSION_MASK \<equiv> (0xe0 :: u8)"
abbreviation (input) "SPP_PH_P1_TYPE_MASK \<equiv> (0x1000 :: u16)"
abbreviation (input) "SPP_PH_P1_SECONDARY_HEADER_FLAG_MASK \<equiv> (0x0800 :: u16)"
abbreviation (input) "SPP_PH_P1_APID_MASK \<equiv> (0x07ff :: u16)"
abbreviation (input) "SPP_PH_P2_SEQUENCE_FLAGS_MASK \<equiv> (0xc000 :: u16)"
abbreviation (input) "SPP_PH_P2_SEQUENCE_CNT_MASK \<equiv> (0x3fff :: u16)"

datatype spp_segment_status = SPP_SEGMENT_CONTINUATION | SPP_SEGMENT_FIRST | SPP_SEGMENT_LAST | SPP_SEGMENT_UNSEGMENTED

fun segment_code :: "spp_segment_status \<Rightarrow> u16" where
  "segment_code SPP_SEGMENT_CONTINUATION = 0"
| "segment_code SPP_SEGMENT_FIRST = 1"
| "segment_code SPP_SEGMENT_LAST = 2"
| "segment_code SPP_SEGMENT_UNSEGMENTED = 3"

text \<open>The member of the enumeration with a two-bit code.\<close>

definition segment_of_code :: "u16 \<Rightarrow> spp_segment_status" where
  "segment_of_code w = (if w = 0 then SPP_SEGMENT_CONTINUATION else if w = 1 then SPP_SEGMENT_FIRST
     else if w = 2 then SPP_SEGMENT_LAST else SPP_SEGMENT_UNSEGMENTED)"

record spp_meta =
  meta_is_request :: bool
  meta_apid :: u16
  meta_segment_status :: spp_segment_status
  meta_segment_number :: u16
  meta_timestamp :: u64
  meta_counter :: u32

record spp_primary_header =
  is_request :: bool
  has_secondary_header :: bool
  apid :: u16
  segment_status :: spp_segment_status
  segment_number :: u16
  data_length :: u64

record spp_context =
  timecode :: "spp_tc_context option"
  ancillary_data_len :: u64

definition write_uint16 :: "u16 \<Rightarrow> bytes" where
  "write_uint16 val = [ucast (drop_bit 8 val), ucast (val AND 0xff)]"

definition spp_serialize_primary_header :: "spp_primary_header \<Rightarrow> int \<times> bytes" where
  "spp_serialize_primary_header header =
     (if apid header > SPP_MAX_APID then (-1, [])
      else if data_length header > SPP_MAX_DATA_LENGTH then (-1, [])
      else if segment_number header > SPP_MAX_SEGMENT_NUMBER then (-1, [])
      else (let part1 = (if is_request header then SPP_PH_P1_TYPE_MASK else 0)
              OR (if has_secondary_header header then SPP_PH_P1_SECONDARY_HEADER_FLAG_MASK else 0) OR apid header;
              part2 = push_bit 14 (segment_code (segment_status header)) OR segment_number header;
              len = ucast (data_length header - 1)
            in (0, write_uint16 part1 @ write_uint16 part2 @ write_uint16 len)))"

text \<open>The result of \<open>malloc\<close> is used without a test.\<close>

definition spp_new_context :: "alloc_trace \<Rightarrow> (spp_context \<times> alloc_trace) outcome" where
  "spp_new_context m = (case malloc m of
       (None, m1) \<Rightarrow> Inl Null_Deref
     | (Some _, m1) \<Rightarrow> Inr (\<lparr>timecode = None, ancillary_data_len = 0\<rparr>, m1))"

definition timecode_size :: "spp_context \<Rightarrow> u64" where
  "timecode_size ctx = (case timecode ctx of None \<Rightarrow> 0 | Some tc \<Rightarrow> spp_tc_get_size tc)"

definition spp_serialize_header :: "spp_context \<Rightarrow> spp_meta \<Rightarrow> u64 \<Rightarrow> (int \<times> bytes) outcome" where
  "spp_serialize_header ctx metadata payload_len =
     (let header = \<lparr>is_request = meta_is_request metadata,
            has_secondary_header = (ancillary_data_len ctx > 0 \<or> timecode ctx \<noteq> None),
            apid = meta_apid metadata, segment_status = meta_segment_status metadata,
            segment_number = meta_segment_number metadata,
            data_length = payload_len + ancillary_data_len ctx + timecode_size ctx\<rparr>;
          (r, bs) = spp_serialize_primary_header header
      in if r \<noteq> 0 then Inr (-1, bs)
         else (case timecode ctx of
             None \<Rightarrow> Inr (0, bs)
           | Some tc \<Rightarrow> obind (spp_tc_serialize tc (meta_timestamp metadata) (meta_counter metadata)) (\<lambda>(s, ts).
               Inr (if s \<noteq> 0 then -1 else 0, bs @ ts))))"

definition spp_get_size :: "spp_context \<Rightarrow> u64 \<Rightarrow> u64" where
  "spp_get_size ctx payload_len =
     (if payload_len = 0 \<and> ancillary_data_len ctx = 0 \<and> timecode ctx = None then 0
      else ancillary_data_len ctx + payload_len + SPP_PRIMARY_HEADER_SIZE + timecode_size ctx)"

definition spp_configure_ancillary_data :: "spp_context \<Rightarrow> u64 \<Rightarrow> (bool \<times> spp_context) outcome" where
  "spp_configure_ancillary_data ctx ancillary_data_length =
     (if ancillary_data_length > SPP_MAX_DATA_LENGTH then Inr (False, ctx)
      else c_assert (timecode ctx = None) (Inr (True, ctx\<lparr>ancillary_data_len := ancillary_data_length\<rparr>)))"

definition spp_configure_timecode :: "spp_context \<Rightarrow> spp_tc_context option \<Rightarrow> bool \<times> spp_context" where
  "spp_configure_timecode ctx tc = (True, ctx\<lparr>timecode := tc\<rparr>)"

definition spp_get_min_payload_size :: "spp_context \<Rightarrow> u64" where
  "spp_get_min_payload_size ctx = (if timecode ctx \<noteq> None \<or> ancillary_data_len ctx > 0 then 0 else 1)"

definition spp_get_max_payload_size :: "spp_context \<Rightarrow> u64" where
  "spp_get_max_payload_size ctx = SPP_MAX_DATA_LENGTH - ancillary_data_len ctx - timecode_size ctx"

section \<open>Reading the primary header\<close>

definition spp_check_first_byte :: "u8 \<Rightarrow> bool" where
  "spp_check_first_byte byte \<longleftrightarrow> byte AND SPP_PH_EARLY_VERSION_MASK = 0"

definition spp_parse_ph_p1 :: "u16 \<Rightarrow> spp_primary_header \<Rightarrow> spp_primary_header" where
  "spp_parse_ph_p1 w header = header\<lparr>
     has_secondary_header := (w AND SPP_PH_P1_SECONDARY_HEADER_FLAG_MASK \<noteq> 0),
     is_request := (w AND SPP_PH_P1_TYPE_MASK \<noteq> 0), apid := w AND SPP_PH_P1_APID_MASK\<rparr>"

definition spp_parse_ph_p2 :: "u16 \<Rightarrow> spp_primary_header \<Rightarrow> spp_primary_header" where
  "spp_parse_ph_p2 w header = header\<lparr>
     segment_status := segment_of_code (drop_bit 14 (w AND SPP_PH_P2_SEQUENCE_FLAGS_MASK)),
     segment_number := w AND SPP_PH_P2_SEQUENCE_CNT_MASK\<rparr>"

text \<open>The sum is computed in \<open>int\<close>, so that the length of the data may be 65536.\<close>

definition spp_parse_ph_len :: "u16 \<Rightarrow> spp_primary_header \<Rightarrow> spp_primary_header" where
  "spp_parse_ph_len w header = header\<lparr>data_length := ucast w + 1\<rparr>"

definition read_uint16 :: "u8 \<Rightarrow> u8 \<Rightarrow> u16" where
  "read_uint16 b0 b1 = push_bit 8 (ucast b0) OR ucast b1"

definition spp_parse_primary_header :: "bytes \<Rightarrow> spp_primary_header \<Rightarrow> int \<times> spp_primary_header" where
  "spp_parse_primary_header buf header = (case buf of
       b0 # b1 # b2 # b3 # b4 # b5 # rest \<Rightarrow>
         if \<not> spp_check_first_byte b0 then (-1, header)
         else (let h = spp_parse_ph_len (read_uint16 b4 b5) (spp_parse_ph_p2 (read_uint16 b2 b3)
                 (spp_parse_ph_p1 (read_uint16 b0 b1) header))
               in if length rest < unat (data_length h) then (-1, h) else (0, h))
     | _ \<Rightarrow> (-1, header))"

section \<open>Incremental parser\<close>

datatype spp_parser_state =
  SPP_PARSER_STATE_PH_P1_MSB | SPP_PARSER_STATE_PH_P1_LSB | SPP_PARSER_STATE_PH_P2_MSB
| SPP_PARSER_STATE_PH_P2_LSB | SPP_PARSER_STATE_PH_LEN_MSB | SPP_PARSER_STATE_PH_LEN_LSB
| SPP_PARSER_STATE_SH_TIMECODE_SUBPARSER | SPP_PARSER_STATE_SH_ANCILLARY_SUBPARSER
| SPP_PARSER_STATE_DATA_SUBPARSER

record spp_parser =
  spp_status :: parser_status
  spp_next_bytes :: u64
  spp_flags :: u32
  bufw :: u16
  spp_header :: spp_primary_header
  spp_ctx :: spp_context
  spp_state :: spp_parser_state
  tc_parser :: spp_tc_parser
  spp_data_length :: u64
  spp_timestamp :: u64

definition spp_parser_reset :: "spp_parser \<Rightarrow> spp_parser" where
  "spp_parser_reset p = p\<lparr>spp_status := PARSER_STATUS_GOOD, spp_next_bytes := 0, spp_flags := 0,
     spp_state := SPP_PARSER_STATE_PH_P1_MSB\<rparr>"

definition spp_parser_init :: "spp_parser \<Rightarrow> spp_context \<Rightarrow> spp_parser" where
  "spp_parser_init p ctx = spp_parser_reset (p\<lparr>spp_ctx := ctx\<rparr>)"

text \<open>After the length: the next state, and whether the parser goes on.\<close>

definition after_length :: "spp_parser \<Rightarrow> bool \<times> spp_parser" where
  "after_length p =
     (if \<not> has_secondary_header (spp_header p) then (False, p\<lparr>spp_state := SPP_PARSER_STATE_DATA_SUBPARSER\<rparr>)
      else (case timecode (spp_ctx p) of
          Some tc \<Rightarrow> (True, p\<lparr>spp_state := SPP_PARSER_STATE_SH_TIMECODE_SUBPARSER,
            tc_parser := spp_tc_parser_init tc (tc_parser p)\<rparr>)
        | None \<Rightarrow>
            if ancillary_data_len (spp_ctx p) > 0
            then (True, p\<lparr>spp_state := SPP_PARSER_STATE_SH_ANCILLARY_SUBPARSER\<rparr>)
            else (False, p\<lparr>spp_state := SPP_PARSER_STATE_DATA_SUBPARSER\<rparr>)))"

definition parse_timecode_byte :: "spp_parser \<Rightarrow> u8 \<Rightarrow> (bool \<times> spp_parser) outcome" where
  "parse_timecode_byte p byte =
     obind (spp_tc_parser_feed (tc_parser p) byte) (\<lambda>(r, t).
       let p1 = p\<lparr>spp_data_length := spp_data_length p - 1, tc_parser := t\<rparr> in Inr (case r of
           SPP_TC_PARSER_GOOD \<Rightarrow> (True, p1)
         | SPP_TC_PARSER_ERROR \<Rightarrow> (False, p1)
         | SPP_TC_PARSER_DONE \<Rightarrow>
             (let p2 = p1\<lparr>spp_timestamp := spp_tc_get_dtn_timestamp t\<rparr>
              in if ancillary_data_len (spp_ctx p) > 0
                 then (True, p2\<lparr>spp_state := SPP_PARSER_STATE_SH_ANCILLARY_SUBPARSER\<rparr>)
                 else (False, p2\<lparr>spp_state := SPP_PARSER_STATE_DATA_SUBPARSER\<rparr>))))"

definition spp_parse_byte :: "spp_parser \<Rightarrow> u8 \<Rightarrow> (bool \<times> spp_parser) outcome" where
  "spp_parse_byte p byte = (case spp_state p of
       SPP_PARSER_STATE_PH_P1_MSB \<Rightarrow>
         Inr (if \<not> spp_check_first_byte byte then (True, (spp_parser_reset p)\<lparr>spp_status := PARSER_STATUS_ERROR\<rparr>)
              else (True, p\<lparr>bufw := push_bit 8 (ucast byte), spp_state := SPP_PARSER_STATE_PH_P1_LSB\<rparr>))
     | SPP_PARSER_STATE_PH_P1_LSB \<Rightarrow>
         (let w = bufw p OR ucast byte
          in Inr (True, p\<lparr>bufw := w, spp_header := spp_parse_ph_p1 w (spp_header p),
               spp_state := SPP_PARSER_STATE_PH_P2_MSB\<rparr>))
     | SPP_PARSER_STATE_PH_P2_MSB \<Rightarrow>
         Inr (True, p\<lparr>bufw := push_bit 8 (ucast byte), spp_state := SPP_PARSER_STATE_PH_P2_LSB\<rparr>)
     | SPP_PARSER_STATE_PH_P2_LSB \<Rightarrow>
         (let w = bufw p OR ucast byte
          in Inr (True, p\<lparr>bufw := w, spp_header := spp_parse_ph_p2 w (spp_header p),
               spp_state := SPP_PARSER_STATE_PH_LEN_MSB\<rparr>))
     | SPP_PARSER_STATE_PH_LEN_MSB \<Rightarrow>
         Inr (True, p\<lparr>bufw := push_bit 8 (ucast byte), spp_state := SPP_PARSER_STATE_PH_LEN_LSB\<rparr>)
     | SPP_PARSER_STATE_PH_LEN_LSB \<Rightarrow>
         (let w = bufw p OR ucast byte; h = spp_parse_ph_len w (spp_header p)
          in Inr (after_length (p\<lparr>bufw := w, spp_header := h,
               spp_data_length := data_length h - ancillary_data_len (spp_ctx p)\<rparr>)))
     | SPP_PARSER_STATE_SH_TIMECODE_SUBPARSER \<Rightarrow> parse_timecode_byte p byte
     | SPP_PARSER_STATE_SH_ANCILLARY_SUBPARSER \<Rightarrow> Inl Assert_Failed
     | SPP_PARSER_STATE_DATA_SUBPARSER \<Rightarrow> Inl Assert_Failed)"

text \<open>The number of bytes read, up to and including the one that stops the parser.\<close>

fun spp_parser_read :: "spp_parser \<Rightarrow> bytes \<Rightarrow> (nat \<times> spp_parser) outcome" where
  "spp_parser_read p [] = Inr (0, p)"
| "spp_parser_read p (b # bs) =
     obind (spp_parse_byte p b) (\<lambda>(go_on, p1).
       if \<not> go_on then Inr (1, p1) else obind (spp_parser_read p1 bs) (\<lambda>(n, p2). Inr (Suc n, p2)))"

definition metadata_ready :: "spp_parser \<Rightarrow> bool" where
  "metadata_ready p \<longleftrightarrow>
     spp_state p = SPP_PARSER_STATE_SH_ANCILLARY_SUBPARSER \<or> spp_state p = SPP_PARSER_STATE_DATA_SUBPARSER"

definition spp_parser_get_meta :: "spp_parser \<Rightarrow> spp_meta option" where
  "spp_parser_get_meta p =
     (if \<not> metadata_ready p then None
      else Some \<lparr>meta_is_request = is_request (spp_header p), meta_apid = apid (spp_header p),
        meta_segment_status = segment_status (spp_header p), meta_segment_number = segment_number (spp_header p),
        meta_timestamp = spp_timestamp p, meta_counter = 0\<rparr>)"

definition spp_parser_get_data_length :: "spp_parser \<Rightarrow> u64 option" where
  "spp_parser_get_data_length p = (if \<not> metadata_ready p then None else Some (spp_data_length p))"

end
