(* ===== verification/Spp_Roundtrip.thy ===== *)
theory Spp_Roundtrip
  imports Spp
begin

text \<open>
  Space packets are read as they were written: the bits of the primary header, the octets of the time code, and the
  parser over both; and the room for the fractional octets of a time code, which the parser does not test.
\<close>

section \<open>Bits of the primary header\<close>

lemma low_bits:
  fixes a :: "'a::len word"
  assumes "unat a < 2 ^ n" and "bit a k"
  shows "k < n"
proof -
  have "take_bit n a = a"
    using assms(1) by (metis take_bit_nat_eq_self unsigned_take_bit_eq word_unat_eq_iff)
  then show ?thesis using assms(2) by (metis bit_take_bit_iff)
qed

lemma join_uint16: "push_bit 8 (ucast (ucast (drop_bit 8 w) :: u8)) OR ucast (ucast (w AND 0xff) :: u8) = (w::u16)"
proof -
  have "(0xff::u16) = mask 8" by (simp add: mask_eq_exp_minus_1)
  then show ?thesis by (auto simp: bit_eq_iff bit_simps)
qed

lemma header_masks:
  "(0x07ff::u16) = mask 11" "(0xe0::u8) = NOT (mask 5)" "(0xc000::u16) = NOT (mask 14)" "(0x3fff::u16) = mask 14"
  by (simp_all add: mask_eq_exp_minus_1)

lemma part1_fields:
  fixes a :: u16 and r :: bool and s :: bool
  assumes "a \<le> 0x7ff"
  defines "w \<equiv> (if r then 0x1000 else 0) OR (if s then 0x0800 else 0) OR a"
  shows "w AND 0x0800 \<noteq> 0 \<longleftrightarrow> s" "w AND 0x1000 \<noteq> 0 \<longleftrightarrow> r" "w AND 0x07ff = a" "(ucast (drop_bit 8 w) :: u8) AND 0xe0 = 0"
proof -
  have "unat a < 2 ^ 11" using assms(1) by (simp add: word_le_nat_alt)
  note b = low_bits [OF this]
  have a: "a AND 0x07ff = a" unfolding header_masks using b by (auto simp: bit_eq_iff bit_simps)
  have no: "a AND m = 0" if "0x07ff AND m = 0" for m
    by (metis a and.assoc and_zero_eq that)
  have "a AND 0x0800 = 0" "a AND 0x1000 = 0" by (rule no, simp)+
  note a = a this
  show "w AND 0x07ff = a" "w AND 0x0800 \<noteq> 0 \<longleftrightarrow> s" "w AND 0x1000 \<noteq> 0 \<longleftrightarrow> r"
    unfolding w_def using a by (simp_all add: bit.conj_disj_distrib2)
  have "(ucast (drop_bit 8 a) :: u8) AND 0xe0 = 0"
    unfolding header_masks by (auto simp: bit_eq_iff bit_simps dest: b)
  then show "(ucast (drop_bit 8 w) :: u8) AND 0xe0 = 0"
    unfolding w_def by (simp add: bit.conj_disj_distrib2 drop_bit_or unsigned_or_eq)
qed

lemma part2_fields:
  fixes a :: u16 and c :: u16
  assumes "a \<le> 0x3fff" "c \<le> 3"
  defines "w \<equiv> push_bit 14 c OR a"
  shows "drop_bit 14 (w AND 0xc000) = c" "w AND 0x3fff = a" 
proof -
  have "unat a < 2 ^ 14" "unat c < 2 ^ 2" using assms(1,2) by (simp_all add: word_le_nat_alt)
  note b = low_bits [OF this(1)] low_bits [OF this(2)]
  show "w AND 0x3fff = a" unfolding w_def header_masks using b by (auto simp: bit_eq_iff bit_simps)
  show "drop_bit 14 (w AND 0xc000) = c" unfolding w_def header_masks using b by (auto simp: bit_eq_iff bit_simps)
qed

lemma segment_code_back [simp]: "segment_of_code (segment_code x) = x" "segment_code x \<le> 3"
  by (cases x; simp add: segment_of_code_def)+

section \<open>Octets of a time code\<close>

fun be_octets :: "nat \<Rightarrow> u64 \<Rightarrow> bytes" where
  "be_octets 0 v = []"
| "be_octets (Suc n) v = ucast (drop_bit (8 * n) v) # be_octets n v"

lemma length_be_octets [simp]: "length (be_octets n v) = n"
  by (induction n) auto

lemma ucast_and_ff: "(ucast (v AND 0xff) :: u8) = ucast (v :: u64)"
proof -
  have "(0xff :: u64) = mask 8" by (simp add: mask_eq_exp_minus_1)
  then show ?thesis by (auto simp: bit_eq_iff bit_simps)
qed

lemma octet_shift:
  assumes "k \<le> 7"
  shows "unat (of_nat k * 8 :: u32) = 8 * k" "(of_nat k * 8 :: u32) < 64"
proof -
  show s: "unat (of_nat k * 8 :: u32) = 8 * k"
    using assms by (simp add: unat_word_ariths unat_of_nat)
  show "(of_nat k * 8 :: u32) < 64"
    using assms by (simp add: word_less_nat_alt s)
qed

lemma write_octets_base:
  "n \<le> 8 \<Longrightarrow> write_octets n ((of_nat n - 1) * 8) v = Inr (be_octets n v)"
proof (induction n)
  case (Suc n)
  have n: "n \<le> 7" "n \<le> 8" using Suc.prems by simp_all
  have first: "(of_nat (Suc n) - 1) * 8 = (of_nat n * 8 :: u32)" by simp
  have next_shift: "(of_nat n * 8 :: u32) - 8 = (of_nat n - 1) * 8" by (simp add: algebra_simps)
  have "\<not> (of_nat n * 8 :: u32) \<ge> 64" using octet_shift(2) [OF n(1)] by (simp add: not_le)
  then show ?case
    by (simp only: first write_octets.simps if_False next_shift Suc.IH [OF n(2)] obind_Inr octet_shift(1) [OF n(1)]
        ucast_and_ff be_octets.simps)
qed simp

lemma write_octets_some:
  "m \<le> 7 \<Longrightarrow> k \<le> Suc m \<Longrightarrow> \<exists>bs. write_octets k (of_nat m * 8) v = Inr bs \<and> length bs = k"
proof (induction k arbitrary: m)
  case (Suc k)
  have s: "\<not> (of_nat m * 8 :: u32) \<ge> 64" using Suc.prems octet_shift(2) [of m] by simp
  show ?case
  proof (cases k)
    case 0
    then show ?thesis using s by simp
  next
    case (Suc j)
    then obtain l where m: "m = Suc l" using Suc.prems by (cases m) auto
    have "(of_nat m * 8 :: u32) - 8 = of_nat l * 8" by (simp add: m algebra_simps)
    then show ?thesis
      using Suc.IH [of l] Suc.prems s m by auto
  qed
qed simp

section \<open>Reading a time code\<close>

text \<open>Feeding bytes until the parser is done or fails, with the bytes that are left.\<close>

fun tc_feeds :: "spp_tc_parser \<Rightarrow> bytes \<Rightarrow> (spp_tc_parser_status \<times> spp_tc_parser \<times> bytes) outcome" where
  "tc_feeds t [] = Inr (SPP_TC_PARSER_GOOD, t, [])"
| "tc_feeds t (b # bs) = obind (spp_tc_parser_feed t b) (\<lambda>(r, t1).
     if r = SPP_TC_PARSER_GOOD then tc_feeds t1 bs else Inr (r, t1, bs))"

lemma octet_pushed:
  "push_bit 8 (drop_bit (8 * Suc n) v) OR ucast (ucast (drop_bit (8 * n) v) :: u8) = drop_bit (8 * n) (v :: u64)"
  by (auto simp: bit_eq_iff bit_simps not_le)

definition in_base :: "nat \<Rightarrow> u64 \<Rightarrow> spp_tc_parser \<Rightarrow> bool" where
  "in_base n v t \<longleftrightarrow> tc_type (tcp_format t) = SPP_TC_UNSEGMENTED_CCSDS_EPOCH \<and> \<not> read_base_unit t \<and>
     base_unit_remaining t = of_nat n \<and> base_unit_count t = drop_bit (8 * n) v"

definition in_fraction :: "u64 \<Rightarrow> spp_tc_parser \<Rightarrow> bool" where
  "in_fraction v t \<longleftrightarrow> tc_type (tcp_format t) = SPP_TC_UNSEGMENTED_CCSDS_EPOCH \<and> read_base_unit t \<and>
     base_unit_count t = v"

definition same_fraction :: "spp_tc_parser \<Rightarrow> spp_tc_parser \<Rightarrow> bool" where
  "same_fraction t t' \<longleftrightarrow> fractional_remaining t' = fractional_remaining t \<and> fractional_ptr t' = fractional_ptr t \<and>
     fractional_buf t' = fractional_buf t"

lemma small_octets: "n \<le> 255 \<Longrightarrow> unat (of_nat n :: u8) = n" "n \<le> 255 \<Longrightarrow> (of_nat n :: u8) = 0 \<longleftrightarrow> n = 0"
  by (simp_all add: unat_of_nat word_unat_eq_iff)

lemma feed_base_inner:
  assumes "in_base (Suc n) v t" and "0 < n" and "n \<le> 7"
  shows "\<exists>t'. spp_tc_parser_feed t (ucast (drop_bit (8 * n) v)) = Inr (SPP_TC_PARSER_GOOD, t') \<and>
    in_base n v t' \<and> same_fraction t t'"
proof -
  have "(of_nat (Suc n) - 1 :: u8) = of_nat n" by simp
  moreover have "(of_nat n :: u8) \<noteq> 0"
    using small_octets [of n] assms(2,3) by auto
  ultimately show ?thesis
    using assms octet_pushed [of n v]
    by (auto simp: spp_tc_parser_feed_def tc_parser_feed_def in_base_def same_fraction_def
        spp_tc_unsegmented_advance_def Let_def)
qed

lemma feed_base_last:
  assumes "in_base (Suc 0) v t"
  shows "\<exists>t'. spp_tc_parser_feed t (ucast v) =
      Inr (if fractional_remaining t = 0 then SPP_TC_PARSER_DONE else SPP_TC_PARSER_GOOD, t') \<and>
    in_fraction v t' \<and> same_fraction t t' \<and> (fractional_remaining t = 0 \<longrightarrow> tcp_status t' = SPP_TC_PARSER_DONE)"
  using assms octet_pushed [of 0 v]
  by (auto simp: spp_tc_parser_feed_def tc_parser_feed_def in_base_def in_fraction_def same_fraction_def
      spp_tc_unsegmented_advance_def Let_def)

lemma same_fraction_trans: "same_fraction t t' \<Longrightarrow> same_fraction t' t'' \<Longrightarrow> same_fraction t t''"
  by (simp add: same_fraction_def)

lemma feeds_base:
  assumes "in_base (Suc n) v t" and "n \<le> 7"
  shows "\<exists>t'. in_fraction v t' \<and> same_fraction t t' \<and>
    (fractional_remaining t = 0 \<longrightarrow> tcp_status t' = SPP_TC_PARSER_DONE) \<and>
    (\<forall>ys. tc_feeds t (be_octets (Suc n) v @ ys) =
      (if fractional_remaining t = 0 then Inr (SPP_TC_PARSER_DONE, t', ys) else tc_feeds t' ys))"
  using assms
proof (induction n arbitrary: t)
  case 0
  then show ?case using feed_base_last [OF 0(1)] by auto
next
  case (Suc n)
  obtain t1 where 1: "spp_tc_parser_feed t (ucast (drop_bit (8 * Suc n) v)) = Inr (SPP_TC_PARSER_GOOD, t1)"
    "in_base (Suc n) v t1" "same_fraction t t1"
    using feed_base_inner [OF Suc.prems(1)] Suc.prems(2) by auto
  obtain t' where t': "in_fraction v t'" "same_fraction t1 t'"
    "fractional_remaining t1 = 0 \<longrightarrow> tcp_status t' = SPP_TC_PARSER_DONE"
    "\<forall>ys. tc_feeds t1 (be_octets (Suc n) v @ ys) =
      (if fractional_remaining t1 = 0 then Inr (SPP_TC_PARSER_DONE, t', ys) else tc_feeds t' ys)"
    using Suc.IH [OF 1(2)] Suc.prems(2) by auto
  have f: "fractional_remaining t1 = fractional_remaining t" using 1(3) by (simp add: same_fraction_def)
  have "tc_feeds t (be_octets (Suc (Suc n)) v @ ys) = tc_feeds t1 (be_octets (Suc n) v @ ys)" for ys
    using 1(1) by (simp only: be_octets.simps(2) [of "Suc n"] append_Cons tc_feeds.simps obind_Inr prod.case if_P)
  then show ?case
    using t' same_fraction_trans [OF 1(3) t'(2)] by (intro exI [of _ t']) (simp add: f)
qed

text \<open>Fractional octets for which there is room.\<close>

definition fraction_room :: "spp_tc_parser \<Rightarrow> bool" where
  "fraction_room t \<longleftrightarrow> unat (fractional_ptr t) + unat (fractional_remaining t) \<le> length (fractional_buf t) \<and>
     length (fractional_buf t) = SPP_TC_UNSEGMENTED_FRACTIONAL_MAX_OCTETS"

lemma feed_fraction:
  assumes "in_fraction v t" and "fraction_room t" and "fractional_remaining t \<noteq> 0"
  shows "\<exists>t'. spp_tc_parser_feed t b =
      Inr (if fractional_remaining t' = 0 then SPP_TC_PARSER_DONE else SPP_TC_PARSER_GOOD, t') \<and>
    in_fraction v t' \<and> fraction_room t' \<and> unat (fractional_remaining t) = Suc (unat (fractional_remaining t')) \<and>
    (fractional_remaining t' = 0 \<longrightarrow> tcp_status t' = SPP_TC_PARSER_DONE)"
proof -
  let ?t1 = "t\<lparr>fractional_ptr := fractional_ptr t + 1,
    fractional_buf := (fractional_buf t)[unat (fractional_ptr t) := b],
    fractional_remaining := fractional_remaining t - 1\<rparr>"
  have less: "unat (fractional_ptr t) < length (fractional_buf t)"
    using assms(2,3) unat_gt_0 [of "fractional_remaining t"] by (simp add: fraction_room_def)
  have ptr: "unat (fractional_ptr t + 1) = unat (fractional_ptr t) + 1"
    using less assms(2) by (simp add: fraction_room_def unat_word_ariths)
  have rem: "unat (fractional_remaining t) = Suc (unat (fractional_remaining t - 1))"
    using assms(3) by (simp add: unat_minus_one unat_gt_0)
  have "feed_fractional t b = Inr ?t1"
    using less by (simp add: feed_fractional_def Let_def)
  moreover have "fraction_room ?t1"
    using assms(2) ptr rem by (simp add: fraction_room_def)
  ultimately show ?thesis
    using assms(1) rem
    by (intro exI [of _ "?t1\<lparr>tcp_status := if fractional_remaining t = 1 then SPP_TC_PARSER_DONE else SPP_TC_PARSER_GOOD\<rparr>"])
      (auto simp: spp_tc_parser_feed_def tc_parser_feed_def in_fraction_def spp_tc_unsegmented_advance_def Let_def
        fraction_room_def)
qed

lemma feeds_fraction:
  assumes "in_fraction v t" and "fraction_room t" and "unat (fractional_remaining t) = Suc k" and "length bs = Suc k"
  shows "\<exists>t'. in_fraction v t' \<and> tcp_status t' = SPP_TC_PARSER_DONE \<and>
    (\<forall>ys. tc_feeds t (bs @ ys) = Inr (SPP_TC_PARSER_DONE, t', ys))"
  using assms
proof (induction k arbitrary: t bs)
  case 0
  obtain b where "bs = [b]" using 0(4) by (cases bs) auto
  moreover have "fractional_remaining t \<noteq> 0" using 0(3) by auto
  ultimately show ?case using feed_fraction [OF 0(1,2), of b] 0(3) by (auto simp: unat_eq_zero)
next
  case (Suc k)
  obtain b bs' where bs: "bs = b # bs'" using Suc.prems(4) by (cases bs) auto
  have "fractional_remaining t \<noteq> 0" using Suc.prems(3) by auto
  from feed_fraction [OF Suc.prems(1,2) this, of b]
  obtain t1 where 1: "spp_tc_parser_feed t b =
      Inr (if fractional_remaining t1 = 0 then SPP_TC_PARSER_DONE else SPP_TC_PARSER_GOOD, t1)"
    "in_fraction v t1" "fraction_room t1" "unat (fractional_remaining t) = Suc (unat (fractional_remaining t1))"
    by blast
  have r: "unat (fractional_remaining t1) = Suc k" using 1(4) Suc.prems(3) by simp
  then have "fractional_remaining t1 \<noteq> 0" by auto
  then show ?case
    using Suc.IH [OF 1(2,3) r, of bs'] Suc.prems(4) 1(1) by (simp add: bs)
qed

text \<open>The preamble: its one or two octets decode to the numbers of octets.\<close>

definition preamble_decodes :: "u8 \<Rightarrow> u8 \<Rightarrow> bytes \<Rightarrow> bool" where
  "preamble_decodes b f bs = (case bs of
       [x] \<Rightarrow> x AND 0x80 = 0 \<and> drop_bit 4 (ucast (x AND 0x70)) = SPP_TC_UNSEGMENTED_CCSDS_EPOCH \<and>
         drop_bit 2 (x AND 0x0c) + 1 = b \<and> x AND 0x03 = f
     | [x, y] \<Rightarrow> x AND 0x80 \<noteq> 0 \<and> drop_bit 4 (ucast (x AND 0x70)) = SPP_TC_UNSEGMENTED_CCSDS_EPOCH \<and>
         y AND 0x80 = 0 \<and> drop_bit 2 (x AND 0x0c) + 1 + drop_bit 5 (y AND 0x60) = b \<and>
         (x AND 0x03) + drop_bit 2 (y AND 0x1c) = f
     | _ \<Rightarrow> False)"

definition ccsds :: "u8 \<Rightarrow> u8 \<Rightarrow> spp_tc_config" where
  "ccsds b f = \<lparr>tc_type = SPP_TC_UNSEGMENTED_CCSDS_EPOCH, base_unit_octets = b, fractional_octets = f\<rparr>"

lemma preamble_decodes_all:
  "list_all (\<lambda>b. list_all (\<lambda>f. preamble_decodes b f (snd (spp_tc_serialize_preamble (ccsds b f)))) (map of_nat [0..<7]))
    (map of_nat [1..<8])"
  by code_simp

lemma small_u8:
  assumes "of_nat m \<le> (x :: u8)" and "x \<le> of_nat n" and "m \<le> n" and "n < 256"
  shows "x \<in> set (map of_nat [m..<Suc n])"
proof -
  have "x = of_nat (unat x)" by simp
  moreover have "m \<le> unat x" "unat x \<le> n"
    using assms by (simp_all add: word_le_nat_alt unat_of_nat)
  ultimately show ?thesis unfolding set_map by (intro image_eqI [of x of_nat "unat x"]) auto
qed

lemma serialized_preamble_decodes:
  assumes "1 \<le> b" and "b \<le> 7" and "f \<le> 6"
  shows "preamble_decodes b f (snd (spp_tc_serialize_preamble (ccsds b f)))"
  using preamble_decodes_all small_u8 [of 1 b 7] small_u8 [of 0 f 6] assms
  by (simp add: list_all_iff del: set_map set_upt)

text \<open>The parser at the beginning of the base unit.\<close>

definition tc_started :: "u8 \<Rightarrow> u8 \<Rightarrow> spp_tc_parser \<Rightarrow> bool" where
  "tc_started b f t \<longleftrightarrow> tc_type (tcp_format t) = SPP_TC_UNSEGMENTED_CCSDS_EPOCH \<and> \<not> read_base_unit t \<and>
     base_unit_remaining t = b \<and> base_unit_count t = 0 \<and> fractional_remaining t = f \<and> fractional_ptr t = 0"

lemma started_from_config:
  "tc_type (tcp_format t) = SPP_TC_UNSEGMENTED_CCSDS_EPOCH \<Longrightarrow> base_unit_octets (tcp_format t) = b \<Longrightarrow>
    fractional_octets (tcp_format t) = f \<Longrightarrow>
    tc_started b f (snd (spp_tc_parser_start_from_config t) \<lparr>tcp_status := r\<rparr>)"
  by (simp add: tc_started_def spp_tc_parser_start_from_config_def)

lemma feeds_preamble:
  assumes d: "preamble_decodes b f bs" and t: "tc_type (tcp_format t) = SPP_TC_UNKNOWN" "\<not> has_second_octet (tcp_preamble t)"
  shows "\<exists>t'. tc_started b f t' \<and> fractional_buf t' = fractional_buf t \<and> (\<forall>ys. tc_feeds t (bs @ ys) = tc_feeds t' ys)"
proof -
  consider (one) x where "bs = [x]" | (two) x y where "bs = [x, y]"
    using d by (auto simp: preamble_decodes_def split: list.splits)
  then show ?thesis
  proof cases
    case one
    let ?t = "snd (spp_tc_parser_start_from_config (t\<lparr>
      tcp_preamble := \<lparr>has_second_octet = False, detected_type = SPP_TC_UNSEGMENTED_CCSDS_EPOCH\<rparr>,
      tcp_format := (tcp_format t)\<lparr>base_unit_octets := b, fractional_octets := f,
        tc_type := SPP_TC_UNSEGMENTED_CCSDS_EPOCH\<rparr>\<rparr>))\<lparr>tcp_status := SPP_TC_PARSER_GOOD\<rparr>"
    have "tc_feeds t (bs @ ys) = tc_feeds ?t ys" for ys
      using d t one by (auto simp: preamble_decodes_def spp_tc_parser_feed_def tc_parser_feed_def
          spp_tc_pfield_feed_def spp_tc_pfield_parse_first_def unsegmented_type_def Let_def)
    then show ?thesis
      by (intro exI [of _ ?t] conjI started_from_config allI) (simp_all add: spp_tc_parser_start_from_config_def)
  next
    case two
    let ?t = "snd (spp_tc_parser_start_from_config (t\<lparr>
      tcp_preamble := \<lparr>has_second_octet = False, detected_type = SPP_TC_UNSEGMENTED_CCSDS_EPOCH\<rparr>,
      tcp_format := (tcp_format t)\<lparr>base_unit_octets := b, fractional_octets := f,
        tc_type := SPP_TC_UNSEGMENTED_CCSDS_EPOCH\<rparr>, tcp_status := SPP_TC_PARSER_GOOD\<rparr>))\<lparr>tcp_status := SPP_TC_PARSER_GOOD\<rparr>"
    have "tc_feeds t (bs @ ys) = tc_feeds ?t ys" for ys
      using d t two by (auto simp: preamble_decodes_def spp_tc_parser_feed_def tc_parser_feed_def
          spp_tc_pfield_feed_def spp_tc_pfield_parse_first_def spp_tc_pfield_parse_second_def unsegmented_type_def
          Let_def spp_tc_parser_start_from_config_def)
    then show ?thesis
      by (intro exI [of _ ?t] conjI started_from_config allI) (simp_all add: spp_tc_parser_start_from_config_def)
  qed
qed

section \<open>Writing a time code\<close>

text \<open>A time code that can carry a DTN time: its seconds since the epoch of CCSDS fit in the base unit.\<close>

definition timecode_fits :: "spp_tc_context \<Rightarrow> u64 \<Rightarrow> bool" where
  "timecode_fits tc ts \<longleftrightarrow> tc_type (tc_defaults tc) = SPP_TC_UNSEGMENTED_CCSDS_EPOCH \<and>
     1 \<le> base_unit_octets (tc_defaults tc) \<and> base_unit_octets (tc_defaults tc) \<le> (if with_p_field tc then 7 else 8) \<and>
     fractional_octets (tc_defaults tc) \<le> 6 \<and>
     unat ts + unat CCSDS_EPOCH_TO_DTN_EPOCH < 2 ^ (8 * unat (base_unit_octets (tc_defaults tc)))"

lemma ccsds_self: "tc_type c = SPP_TC_UNSEGMENTED_CCSDS_EPOCH \<Longrightarrow> c = ccsds (base_unit_octets c) (fractional_octets c)"
  by (simp add: ccsds_def)

lemma epoch_sum:
  assumes "timecode_fits tc ts"
  shows "unat (ts + CCSDS_EPOCH_TO_DTN_EPOCH) = unat ts + unat CCSDS_EPOCH_TO_DTN_EPOCH"
    and "drop_bit (8 * unat (base_unit_octets (tc_defaults tc))) (ts + CCSDS_EPOCH_TO_DTN_EPOCH) = 0"
proof -
  let ?n = "8 * unat (base_unit_octets (tc_defaults tc))"
  have "base_unit_octets (tc_defaults tc) \<le> 8"
    using assms by (auto simp: timecode_fits_def word_le_nat_alt split: if_splits)
  then have "?n \<le> 64" by (simp add: word_le_nat_alt)
  then have "(2::nat) ^ ?n \<le> 2 ^ 64" by (intro power_increasing) auto
  then have "unat ts + unat CCSDS_EPOCH_TO_DTN_EPOCH < 2 ^ 64" and small: "unat ts + unat CCSDS_EPOCH_TO_DTN_EPOCH < 2 ^ ?n"
    using assms by (auto simp: timecode_fits_def)
  then show s: "unat (ts + CCSDS_EPOCH_TO_DTN_EPOCH) = unat ts + unat CCSDS_EPOCH_TO_DTN_EPOCH"
    by (simp add: unat_word_ariths)
  show "drop_bit ?n (ts + CCSDS_EPOCH_TO_DTN_EPOCH) = 0"
    using small unfolding word_unat_eq_iff unat_drop_bit_eq s by (simp add: drop_bit_eq_div)
qed

lemma timecode_octets:
  assumes "timecode_fits tc ts"
  obtains n where "unat (base_unit_octets (tc_defaults tc)) = Suc n" "n \<le> 7"
    "base_unit_octets (tc_defaults tc) = of_nat (Suc n)" "with_p_field tc \<Longrightarrow> n \<le> 6"
proof -
  let ?b = "base_unit_octets (tc_defaults tc)"
  have "?b \<noteq> 0" using assms by (auto simp: timecode_fits_def)
  then obtain n where n: "unat ?b = Suc n" by (metis not0_implies_Suc unat_eq_zero)
  then have "?b = of_nat (Suc n)" by (simp flip: n)
  moreover have "n \<le> 7" "with_p_field tc \<Longrightarrow> n \<le> 6"
    using assms n by (auto simp: timecode_fits_def word_le_nat_alt split: if_splits)
  ultimately show thesis using that n by blast
qed

lemma serialize_fitting:
  assumes "timecode_fits tc ts"
  defines "pre \<equiv> if with_p_field tc then snd (spp_tc_serialize_preamble (tc_defaults tc)) else []"
  shows "\<exists>fs. spp_tc_serialize tc ts counter = Inr (0, pre @
      be_octets (unat (base_unit_octets (tc_defaults tc))) (ts + CCSDS_EPOCH_TO_DTN_EPOCH) @ fs) \<and>
    length fs = unat (fractional_octets (tc_defaults tc))"
proof -
  let ?c = "tc_defaults tc"
  obtain n where n: "unat (base_unit_octets ?c) = Suc n" "n \<le> 7" "base_unit_octets ?c = of_nat (Suc n)"
    by (rule timecode_octets [OF assms(1)])
  have "unat (fractional_octets ?c) \<le> Suc 7"
    using assms(1) by (auto simp: timecode_fits_def word_le_nat_alt)
  then obtain fs where fs: "write_octets (unat (fractional_octets ?c)) (of_nat 7 * 8) (push_bit 32 (ucast counter)) = Inr fs"
    "length fs = unat (fractional_octets ?c)"
    using write_octets_some [of 7] by blast
  have "ucast (base_unit_octets ?c) = (of_nat (unat (base_unit_octets ?c)) :: u32)" by simp
  then have "write_octets (unat (base_unit_octets ?c)) ((ucast (base_unit_octets ?c) - 1) * 8) v =
      Inr (be_octets (unat (base_unit_octets ?c)) v)" for v
    using write_octets_base [of "unat (base_unit_octets ?c)" v] n by simp
  then show ?thesis
    using assms(1) fs by (intro exI [of _ fs]) (auto simp: timecode_fits_def pre_def spp_tc_serialize_def
        serialize_unsegmented_def spp_tc_serialize_preamble_def unsegmented_type_def Let_def)
qed

section \<open>The parser\<close>

lemma tc_feeds_consumes:
  "tc_feeds t xs = Inr (SPP_TC_PARSER_DONE, t', ys) \<Longrightarrow> length ys < length xs"
proof (induction t xs rule: tc_feeds.induct)
  case (2 t b bs)
  then obtain r t1 where f: "spp_tc_parser_feed t b = Inr (r, t1)" by (auto simp: obind_eq_Inr)
  show ?case
  proof (cases "r = SPP_TC_PARSER_GOOD")
    case True
    have "tc_feeds t1 bs = Inr (SPP_TC_PARSER_DONE, t', ys)" using 2(2) f True by simp
    then show ?thesis using 2(1) [OF True] by fastforce
  qed (use 2(2) f in simp)
qed simp

text \<open>The state of the parser after the time code.\<close>

definition after_timecode :: "spp_parser \<Rightarrow> nat \<Rightarrow> spp_tc_parser \<Rightarrow> spp_parser" where
  "after_timecode p n t = p\<lparr>spp_data_length := spp_data_length p - of_nat n, tc_parser := t,
     spp_timestamp := spp_tc_get_dtn_timestamp t, spp_state := SPP_PARSER_STATE_DATA_SUBPARSER\<rparr>"

lemma read_timecode:
  assumes "spp_state p = SPP_PARSER_STATE_SH_TIMECODE_SUBPARSER" and "ancillary_data_len (spp_ctx p) = 0"
    and "tc_feeds (tc_parser p) (bs @ ys) = Inr (SPP_TC_PARSER_DONE, t, ys)"
  shows "spp_parser_read p (bs @ ys) = Inr (length bs, after_timecode p (length bs) t)"
  using assms
proof (induction bs arbitrary: p)
  case Nil
  then show ?case using tc_feeds_consumes [of "tc_parser p" ys t ys] by simp
next
  case (Cons b bs)
  obtain r t1 where f: "spp_tc_parser_feed (tc_parser p) b = Inr (r, t1)"
    using Cons.prems(3) by (auto simp: obind_eq_Inr)
  let ?p = "p\<lparr>spp_data_length := spp_data_length p - 1, tc_parser := t1\<rparr>"
  show ?case
  proof (cases "r = SPP_TC_PARSER_GOOD")
    case True
    have "spp_parse_byte p b = Inr (True, ?p)"
      using Cons.prems(1) f True by (simp add: spp_parse_byte_def parse_timecode_byte_def Let_def)
    moreover have "spp_parser_read ?p (bs @ ys) = Inr (length bs, after_timecode ?p (length bs) t)"
      using Cons.prems f True by (intro Cons.IH) simp_all
    ultimately show ?thesis by (simp add: after_timecode_def algebra_simps)
  next
    case False
    then have "r = SPP_TC_PARSER_DONE" "t1 = t" "bs = []" using Cons.prems(3) f by auto
    then show ?thesis
      using Cons.prems(1,2) f
      by (simp add: spp_parse_byte_def parse_timecode_byte_def Let_def after_timecode_def)
  qed
qed

lemma read_header:
  fixes w1 w2 w3 :: u16
  assumes "spp_state p = SPP_PARSER_STATE_PH_P1_MSB" and "spp_check_first_byte (ucast (drop_bit 8 w1))"
  defines "h \<equiv> spp_parse_ph_len w3 (spp_parse_ph_p2 w2 (spp_parse_ph_p1 w1 (spp_header p)))"
  shows "spp_parser_read p (write_uint16 w1 @ write_uint16 w2 @ write_uint16 w3 @ ys) =
    (case after_length (p\<lparr>spp_state := SPP_PARSER_STATE_PH_LEN_LSB, bufw := w3, spp_header := h,
        spp_data_length := data_length h - ancillary_data_len (spp_ctx p)\<rparr>) of
      (go_on, q) \<Rightarrow> if go_on then obind (spp_parser_read q ys) (\<lambda>(n, q'). Inr (n + 6, q')) else Inr (6, q))"
proof -
  have join: "push_bit 8 (ucast (ucast (drop_bit 8 w) :: u8)) OR ucast (ucast (w AND 0xff) :: u8) = w" for w :: u16
    by (rule join_uint16)
  let ?p = "p\<lparr>spp_state := SPP_PARSER_STATE_PH_LEN_LSB, bufw := w3, spp_header := h,
    spp_data_length := data_length h - ancillary_data_len (spp_ctx p)\<rparr>"
  obtain go_on q where q: "after_length ?p = (go_on, q)" by fastforce
  show ?thesis
    using assms(1,2) q unfolding h_def
    by (cases go_on; cases "spp_parser_read q ys") (auto simp: write_uint16_def spp_parse_byte_def join Let_def)
qed

lemma data_length_back:
  fixes d :: u64
  assumes "d \<noteq> 0" and "d \<le> 65536"
  shows "ucast (ucast (d - 1) :: u16) + 1 = d"
proof -
  have "unat (d - 1) < 2 ^ 16"
    using assms by (simp add: unat_minus_one word_le_nat_alt unat_gt_0 [symmetric])
  then have "ucast (ucast (d - 1) :: u16) = d - 1"
    by (simp add: word_unat_eq_iff unsigned_ucast_eq unsigned_take_bit_eq take_bit_nat_eq_self)
  then show ?thesis by simp
qed

lemma length_write_uint16 [simp]: "length (write_uint16 w) = 2"
  by (simp add: write_uint16_def)

lemma timestamp_back:
  assumes "timecode_fits tc ts" and "in_fraction (ts + CCSDS_EPOCH_TO_DTN_EPOCH) t"
    and "tcp_status t = SPP_TC_PARSER_DONE"
  shows "spp_tc_get_dtn_timestamp t = ts"
proof -
  have "\<not> ts + CCSDS_EPOCH_TO_DTN_EPOCH < CCSDS_EPOCH_TO_DTN_EPOCH"
    using epoch_sum(1) [OF assms(1)] by (simp add: word_less_nat_alt)
  then show ?thesis using assms(2,3) by (simp add: spp_tc_get_dtn_timestamp_def in_fraction_def)
qed

lemma timecode_start:
  assumes fits: "timecode_fits tc ts"
  defines "pre \<equiv> if with_p_field tc then snd (spp_tc_serialize_preamble (tc_defaults tc)) else []"
  shows "\<exists>t'. tc_started (base_unit_octets (tc_defaults tc)) (fractional_octets (tc_defaults tc)) t' \<and>
    fractional_buf t' = fractional_buf t \<and> (\<forall>ys. tc_feeds (spp_tc_parser_init tc t) (pre @ ys) = tc_feeds t' ys)"
proof (cases "with_p_field tc")
  case True
  let ?c = "tc_defaults tc"
  have "preamble_decodes (base_unit_octets ?c) (fractional_octets ?c) pre"
    using serialized_preamble_decodes [of "base_unit_octets ?c" "fractional_octets ?c"] ccsds_self [of ?c] fits True
    by (simp add: timecode_fits_def pre_def)
  moreover have "tc_type (tcp_format (spp_tc_parser_init tc t)) = SPP_TC_UNKNOWN"
    "\<not> has_second_octet (tcp_preamble (spp_tc_parser_init tc t))"
    "fractional_buf (spp_tc_parser_init tc t) = fractional_buf t"
    using True by (simp_all add: spp_tc_parser_init_def)
  ultimately show ?thesis using feeds_preamble by metis
next
  case False
  then show ?thesis
    using fits by (intro exI [of _ "spp_tc_parser_init tc t"])
      (simp add: pre_def spp_tc_parser_init_def spp_tc_parser_start_from_config_def tc_started_def timecode_fits_def)
qed

text \<open>A time code is read up to its last octet, and the seconds are found again.\<close>

lemma timecode_read:
  assumes fits: "timecode_fits tc ts" and ser: "spp_tc_serialize tc ts counter = Inr (0, bs)"
    and buf: "length (fractional_buf t) = SPP_TC_UNSEGMENTED_FRACTIONAL_MAX_OCTETS"
  shows "\<exists>t'. tc_feeds (spp_tc_parser_init tc t) (bs @ ys) = Inr (SPP_TC_PARSER_DONE, t', ys) \<and>
    spp_tc_get_dtn_timestamp t' = ts"
proof -
  let ?c = "tc_defaults tc" and ?v = "ts + CCSDS_EPOCH_TO_DTN_EPOCH"
  obtain n where n: "unat (base_unit_octets ?c) = Suc n" "n \<le> 7" "base_unit_octets ?c = of_nat (Suc n)"
    by (rule timecode_octets [OF fits])
  obtain pre fs where bs: "bs = pre @ be_octets (Suc n) ?v @ fs" and fs: "length fs = unat (fractional_octets ?c)"
    and pre: "pre = (if with_p_field tc then snd (spp_tc_serialize_preamble ?c) else [])"
    using serialize_fitting [OF fits, of counter] ser n(1) by auto
  obtain t1 where 1: "tc_started (base_unit_octets ?c) (fractional_octets ?c) t1" "fractional_buf t1 = fractional_buf t"
    "\<forall>ys. tc_feeds (spp_tc_parser_init tc t) (pre @ ys) = tc_feeds t1 ys"
    using timecode_start [OF fits, of t] pre by blast
  have "in_base (Suc n) ?v t1"
    using 1(1) n epoch_sum(2) [OF fits] by (simp add: in_base_def tc_started_def)
  from feeds_base [OF this n(2)] obtain t2 where 2: "in_fraction ?v t2" "same_fraction t1 t2"
    "fractional_remaining t1 = 0 \<longrightarrow> tcp_status t2 = SPP_TC_PARSER_DONE"
    "\<forall>ys. tc_feeds t1 (be_octets (Suc n) ?v @ ys) =
      (if fractional_remaining t1 = 0 then Inr (SPP_TC_PARSER_DONE, t2, ys) else tc_feeds t2 ys)" by blast
  have f: "fractional_remaining t2 = fractional_octets ?c" "fractional_remaining t1 = fractional_octets ?c"
    "fractional_ptr t2 = 0" "length (fractional_buf t2) = 6"
    using 1(1,2) 2(2) buf by (simp_all add: same_fraction_def tc_started_def)
  have feeds: "tc_feeds (spp_tc_parser_init tc t) (bs @ ys) =
      (if fractional_octets ?c = 0 then Inr (SPP_TC_PARSER_DONE, t2, fs @ ys) else tc_feeds t2 (fs @ ys))"
    using 1(3) 2(4) f(2) by (simp add: bs)
  show ?thesis
  proof (cases "fractional_octets ?c = 0")
    case True
    then show ?thesis using feeds fs timestamp_back [OF fits 2(1)] 2(3) f(2) by simp
  next
    case False
    then obtain k where k: "unat (fractional_octets ?c) = Suc k" by (metis not0_implies_Suc unat_eq_zero)
    have "unat (fractional_octets ?c) \<le> 6" using fits by (simp add: timecode_fits_def word_le_nat_alt)
    then have room: "fraction_room t2" using f by (simp add: fraction_room_def)
    have "unat (fractional_remaining t2) = Suc k" "length fs = Suc k" using f(1) k fs by simp_all
    from feeds_fraction [OF 2(1) room this] show ?thesis
      using feeds False timestamp_back [OF fits] by auto
  qed
qed

lemma timecode_length:
  assumes fits: "timecode_fits tc ts" and ser: "spp_tc_serialize tc ts counter = Inr (0, bs)"
  shows "of_nat (length bs) = spp_tc_get_size tc" and "spp_tc_get_size tc \<noteq> 0" and "spp_tc_get_size tc \<le> 16"
proof -
  let ?c = "tc_defaults tc"
  have l: "length bs = (if with_p_field tc then length (snd (spp_tc_serialize_preamble ?c)) else 0) +
      unat (base_unit_octets ?c) + unat (fractional_octets ?c)"
    using serialize_fitting [OF fits, of counter] ser by auto
  have "tc_type ?c = SPP_TC_UNSEGMENTED_CCSDS_EPOCH" using fits by (simp add: timecode_fits_def)
  then show s: "of_nat (length bs) = spp_tc_get_size tc"
    by (simp add: l spp_tc_get_size_def unsegmented_type_def spp_tc_serialize_preamble_def Let_def)
  have "length (snd (spp_tc_serialize_preamble ?c)) \<le> 2"
    by (simp add: spp_tc_serialize_preamble_def Let_def)
  moreover have "1 \<le> unat (base_unit_octets ?c)" "unat (base_unit_octets ?c) \<le> 8" "unat (fractional_octets ?c) \<le> 6"
    using fits by (auto simp: timecode_fits_def word_le_nat_alt split: if_splits)
  ultimately have "1 \<le> length bs" "length bs \<le> 16" by (auto simp: l)
  then show "spp_tc_get_size tc \<noteq> 0" "spp_tc_get_size tc \<le> 16"
    by (auto simp: s [symmetric] word_le_nat_alt unat_of_nat word_unat_eq_iff)
qed

text \<open>The header a packet gets, and its six bytes.\<close>

definition packet_header :: "spp_context \<Rightarrow> spp_meta \<Rightarrow> u64 \<Rightarrow> spp_primary_header" where
  "packet_header ctx meta n = \<lparr>is_request = meta_is_request meta,
     has_secondary_header = (ancillary_data_len ctx > 0 \<or> timecode ctx \<noteq> None), apid = meta_apid meta,
     segment_status = meta_segment_status meta, segment_number = meta_segment_number meta,
     data_length = n + ancillary_data_len ctx + timecode_size ctx\<rparr>"

lemma primary_header_read:
  fixes h :: spp_primary_header
  assumes "apid h \<le> SPP_MAX_APID" and "segment_number h \<le> SPP_MAX_SEGMENT_NUMBER"
    and "data_length h \<noteq> 0" and "data_length h \<le> SPP_MAX_DATA_LENGTH" and "spp_state p = SPP_PARSER_STATE_PH_P1_MSB"
  shows "\<exists>bs w. spp_serialize_primary_header h = (0, bs) \<and> length bs = 6 \<and>
    (\<forall>ys. spp_parser_read p (bs @ ys) =
      (case after_length (p\<lparr>spp_state := SPP_PARSER_STATE_PH_LEN_LSB, bufw := w, spp_header := h,
          spp_data_length := data_length h - ancillary_data_len (spp_ctx p)\<rparr>) of
        (go_on, q) \<Rightarrow> if go_on then obind (spp_parser_read q ys) (\<lambda>(n, q'). Inr (n + 6, q')) else Inr (6, q)))"
proof -
  define w1 where "w1 = (if is_request h then SPP_PH_P1_TYPE_MASK else 0)
      OR (if has_secondary_header h then SPP_PH_P1_SECONDARY_HEADER_FLAG_MASK else 0) OR apid h"
  define w2 where "w2 = push_bit 14 (segment_code (segment_status h)) OR segment_number h"
  define w3 :: u16 where "w3 = ucast (data_length h - 1)"
  note f1 = part1_fields [OF assms(1), of "is_request h" "has_secondary_header h", folded w1_def]
  note f2 = part2_fields [OF assms(2) segment_code_back(2), of "segment_status h", folded w2_def]
  have "spp_serialize_primary_header h = (0, write_uint16 w1 @ write_uint16 w2 @ write_uint16 w3)"
    using assms(1,2,4)
    by (simp only: spp_serialize_primary_header_def Let_def not_less [symmetric] if_False w1_def w2_def w3_def)
  moreover have "spp_check_first_byte (ucast (drop_bit 8 w1))"
    using f1(4) by (simp only: spp_check_first_byte_def)
  moreover have "spp_parse_ph_len w3 (spp_parse_ph_p2 w2 (spp_parse_ph_p1 w1 g)) = h" for g
    unfolding spp_parse_ph_len_def spp_parse_ph_p2_def spp_parse_ph_p1_def f1 f2 w3_def
      data_length_back [OF assms(3,4)] by simp
  ultimately show ?thesis
    using read_header [OF assms(5), of w1 w2 w3]
    by (intro exI [of _ "write_uint16 w1 @ write_uint16 w2 @ write_uint16 w3"] exI [of _ w3]) simp
qed

lemma packet_length_bounds:
  assumes "ancillary_data_len ctx = 0" and "spp_get_min_payload_size ctx \<le> n" and "n \<le> spp_get_max_payload_size ctx"
    and "timecode ctx \<noteq> None \<Longrightarrow> timecode_size ctx \<noteq> 0 \<and> timecode_size ctx \<le> 16"
  shows "n + timecode_size ctx \<noteq> 0" and "n + timecode_size ctx \<le> SPP_MAX_DATA_LENGTH"
proof -
  let ?k = "timecode_size ctx"
  have k: "?k \<le> 16" using assms(4) by (cases "timecode ctx") (simp_all add: timecode_size_def)
  have "unat (65536 - ?k) = 65536 - unat ?k"
    using k by (simp add: unat_sub word_le_nat_alt)
  then have sum: "unat n + unat ?k \<le> 65536"
    using assms(1,3) k by (simp add: spp_get_max_payload_size_def word_le_nat_alt)
  have "unat n \<noteq> 0 \<or> unat ?k \<noteq> 0"
    using assms(1,2,4) by (cases "timecode ctx")
      (auto simp: spp_get_min_payload_size_def word_le_nat_alt unat_eq_zero)
  moreover have "unat (n + ?k) = unat n + unat ?k"
    using sum by (simp add: unat_word_ariths)
  ultimately show "n + ?k \<noteq> 0" "n + ?k \<le> SPP_MAX_DATA_LENGTH"
    using sum by (auto simp: word_le_nat_alt)
qed

section \<open>Room for fractional octets\<close>

text \<open>Past the preamble, with fewer fractional octets to come than there is room for.\<close>

definition tc_room :: "spp_tc_parser \<Rightarrow> bool" where
  "tc_room t \<longleftrightarrow> tc_type (tcp_format t) \<noteq> SPP_TC_UNKNOWN \<and> fraction_room t \<and>
     (read_base_unit t \<longrightarrow> fractional_remaining t \<noteq> 0)"

lemma feed_room:
  assumes "tc_room t"
  shows "\<exists>r t'. spp_tc_parser_feed t b = Inr (r, t') \<and> (r = SPP_TC_PARSER_GOOD \<longrightarrow> tc_room t')"
proof (cases "tc_type (tcp_format t) = SPP_TC_UNSEGMENTED_CCSDS_EPOCH \<and> read_base_unit t")
  case True
  then have "in_fraction (base_unit_count t) t" by (simp add: in_fraction_def)
  moreover have "fraction_room t" "fractional_remaining t \<noteq> 0" using assms True by (simp_all add: tc_room_def)
  ultimately show ?thesis
    using feed_fraction [of "base_unit_count t" t b] by (auto simp: tc_room_def in_fraction_def)
next
  case False
  then show ?thesis
    using assms by (auto simp: tc_room_def fraction_room_def spp_tc_parser_feed_def tc_parser_feed_def
        spp_tc_unsegmented_advance_def Let_def)
qed

lemma feeds_room: "tc_room t \<Longrightarrow> \<exists>r. tc_feeds t bs = Inr r"
proof (induction bs arbitrary: t)
  case (Cons b bs)
  from feed_room [OF Cons.prems, of b] obtain r t' where "spp_tc_parser_feed t b = Inr (r, t')"
    "r = SPP_TC_PARSER_GOOD \<longrightarrow> tc_room t'" by blast
  then show ?case using Cons.IH by (cases "r = SPP_TC_PARSER_GOOD") auto
qed simp

lemma feeds_any_base:
  assumes "tc_type (tcp_format t) = SPP_TC_UNSEGMENTED_CCSDS_EPOCH" and "\<not> read_base_unit t"
    and "unat (base_unit_remaining t) = Suc n" and "fractional_remaining t \<noteq> 0" and "length bs = Suc n"
  shows "\<exists>t'. tc_type (tcp_format t') = SPP_TC_UNSEGMENTED_CCSDS_EPOCH \<and> read_base_unit t' \<and> same_fraction t t' \<and>
    (\<forall>ys. tc_feeds t (bs @ ys) = tc_feeds t' ys)"
  using assms
proof (induction n arbitrary: t bs)
  case (0 t)
  obtain b where b: "bs = [b]" using 0(5) by (cases bs) auto
  have "base_unit_remaining t = 1" using 0(3) by (simp add: word_unat_eq_iff)
  then have "tc_feeds t (bs @ ys) = tc_feeds (t\<lparr>base_unit_remaining := 0,
      base_unit_count := push_bit 8 (base_unit_count t) OR ucast b, read_base_unit := True,
      tcp_status := SPP_TC_PARSER_GOOD\<rparr>) ys" for ys
    using 0 by (simp add: b spp_tc_parser_feed_def tc_parser_feed_def spp_tc_unsegmented_advance_def Let_def)
  then show ?case
    using 0 by (intro exI conjI allI) (simp_all add: same_fraction_def)
next
  case (Suc n)
  obtain b bs' where bs: "bs = b # bs'" "length bs' = Suc n" using Suc.prems(5) by (cases bs) auto
  let ?t = "t\<lparr>base_unit_remaining := base_unit_remaining t - 1,
    base_unit_count := push_bit 8 (base_unit_count t) OR ucast b, tcp_status := SPP_TC_PARSER_GOOD\<rparr>"
  have rem: "unat (base_unit_remaining t - 1) = Suc n"
    using Suc.prems(3) by (simp add: unat_minus_one unat_gt_0 [symmetric])
  then have "base_unit_remaining t \<noteq> 1" by auto
  then have "spp_tc_parser_feed t b = Inr (SPP_TC_PARSER_GOOD, ?t)"
    using Suc.prems(1,2) by (simp add: spp_tc_parser_feed_def tc_parser_feed_def spp_tc_unsegmented_advance_def Let_def)
  moreover have "\<exists>t'. tc_type (tcp_format t') = SPP_TC_UNSEGMENTED_CCSDS_EPOCH \<and> read_base_unit t' \<and>
      same_fraction ?t t' \<and> (\<forall>ys. tc_feeds ?t (bs' @ ys) = tc_feeds t' ys)"
    using Suc.prems rem bs(2) by (intro Suc.IH) simp_all
  ultimately show ?case by (auto simp: bs(1) same_fraction_def)
qed

lemma feeds_overflow:
  assumes "tc_type (tcp_format t) = SPP_TC_UNSEGMENTED_CCSDS_EPOCH" and "read_base_unit t"
    and "length (fractional_buf t) = 6" and "unat (fractional_ptr t) + k = 6"
    and "k < unat (fractional_remaining t)" and "length bs = Suc k"
  shows "tc_feeds t bs = Inl Out_Of_Bounds"
  using assms
proof (induction k arbitrary: t bs)
  case 0
  then show ?case
    by (cases bs) (simp_all add: spp_tc_parser_feed_def tc_parser_feed_def feed_fractional_def Let_def)
next
  case (Suc k)
  obtain b bs' where bs: "bs = b # bs'" "length bs' = Suc k" using Suc.prems(6) by (cases bs) auto
  let ?t = "t\<lparr>fractional_ptr := fractional_ptr t + 1,
    fractional_buf := (fractional_buf t)[unat (fractional_ptr t) := b],
    fractional_remaining := fractional_remaining t - 1, tcp_status := SPP_TC_PARSER_GOOD\<rparr>"
  have rem: "unat (fractional_remaining t) = Suc (unat (fractional_remaining t - 1))"
    using Suc.prems(5) by (simp add: unat_minus_one unat_gt_0 [symmetric])
  then have "fractional_remaining t - 1 \<noteq> 0" using Suc.prems(5) by (auto simp: word_unat_eq_iff)
  then have "spp_tc_parser_feed t b = Inr (SPP_TC_PARSER_GOOD, ?t)"
    using Suc.prems(1-4)
    by (simp add: spp_tc_parser_feed_def tc_parser_feed_def feed_fractional_def spp_tc_unsegmented_advance_def Let_def)
  moreover have "tc_feeds ?t bs' = Inl Out_Of_Bounds"
    using Suc.prems rem bs(2) by (intro Suc.IH) (simp_all add: unat_word_ariths)
  ultimately show ?case by (simp add: bs(1))
qed

section \<open>Properties\<close>

text \<open>
  C5 (roundtrip). The header of a space packet, with its identification, its sequence count, its length and an
  unsegmented time code of any supported width with or without a preamble, is read back as it was written, whatever
  follows it; it has the length announced for it. The bounds on the payload are those the code gives. The context has
  no ancillary data (with some the parser does not return from the time code), and the time is in the range of the time code.
\<close>

theorem spp_roundtrip:
  assumes apid: "meta_apid meta \<le> SPP_MAX_APID" and number: "meta_segment_number meta \<le> SPP_MAX_SEGMENT_NUMBER"
    and ancillary: "ancillary_data_len ctx = 0"
    and fits: "\<And>tc. timecode ctx = Some tc \<Longrightarrow> timecode_fits tc (meta_timestamp meta)"
    and payload: "spp_get_min_payload_size ctx \<le> n" "n \<le> spp_get_max_payload_size ctx"
    and junk: "length (fractional_buf (tc_parser junk)) = SPP_TC_UNSEGMENTED_FRACTIONAL_MAX_OCTETS"
  shows "\<exists>bs p. spp_serialize_header ctx meta n = Inr (0, bs) \<and> of_nat (length bs) + n = spp_get_size ctx n \<and>
    spp_parser_read (spp_parser_init junk ctx) (bs @ rest) = Inr (length bs, p) \<and>
    spp_parser_get_data_length p = Some n \<and>
    spp_parser_get_meta p = Some (meta\<lparr>meta_counter := 0,
      meta_timestamp := if timecode ctx = None then spp_timestamp junk else meta_timestamp meta\<rparr>)"
proof -
  let ?h = "packet_header ctx meta n" and ?p = "spp_parser_init junk ctx"
  have tc: "timecode_size ctx = 0" if "timecode ctx = None" using that by (simp add: timecode_size_def)
  have sized: "timecode_size ctx \<noteq> 0 \<and> timecode_size ctx \<le> 16" if some: "timecode ctx \<noteq> None"
  proof -
    obtain t where t: "timecode ctx = Some t" using some by blast
    obtain ts where ts: "spp_tc_serialize t (meta_timestamp meta) 0 = Inr (0, ts)"
      using serialize_fitting [OF fits [OF t]] by blast
    show ?thesis using timecode_length [OF fits [OF t] ts] t by (simp add: timecode_size_def)
  qed
  have d: "data_length ?h = n + timecode_size ctx" by (simp add: packet_header_def ancillary)
  have h: "apid ?h \<le> SPP_MAX_APID" "segment_number ?h \<le> SPP_MAX_SEGMENT_NUMBER"
    "data_length ?h \<noteq> 0" "data_length ?h \<le> SPP_MAX_DATA_LENGTH"
    using apid number packet_length_bounds [OF ancillary payload sized] unfolding d
    by (simp_all add: packet_header_def)
  have start: "spp_state ?p = SPP_PARSER_STATE_PH_P1_MSB" by (simp add: spp_parser_init_def spp_parser_reset_def)
  obtain hb w where hb: "spp_serialize_primary_header ?h = (0, hb)" "length hb = 6"
    and read: "\<And>ys. spp_parser_read ?p (hb @ ys) =
      (case after_length (?p\<lparr>spp_state := SPP_PARSER_STATE_PH_LEN_LSB, bufw := w, spp_header := ?h,
          spp_data_length := data_length ?h - ancillary_data_len (spp_ctx ?p)\<rparr>) of
        (go_on, q) \<Rightarrow> if go_on then obind (spp_parser_read q ys) (\<lambda>(n, q'). Inr (n + 6, q')) else Inr (6, q))"
    using primary_header_read [OF h start] by blast
  have ser: "spp_serialize_header ctx meta n = (case timecode ctx of
      None \<Rightarrow> Inr (0, hb)
    | Some tc \<Rightarrow> obind (spp_tc_serialize tc (meta_timestamp meta) (meta_counter meta)) (\<lambda>(s, ts).
        Inr (if s \<noteq> 0 then -1 else 0, hb @ ts)))"
    using hb(1) by (simp add: spp_serialize_header_def packet_header_def)
  show ?thesis
  proof (cases "timecode ctx")
    case None
    have "spp_get_min_payload_size ctx = 1" using None ancillary by (simp add: spp_get_min_payload_size_def)
    then have "n \<noteq> 0" using payload by auto
    then show ?thesis
      using None ser read [of rest] hb(2) ancillary
      by (simp add: after_length_def packet_header_def d tc spp_parser_init_def spp_parser_reset_def spp_get_size_def
          spp_parser_get_data_length_def spp_parser_get_meta_def metadata_ready_def)
  next
    case (Some t)
    obtain ts where ts: "spp_tc_serialize t (meta_timestamp meta) (meta_counter meta) = Inr (0, ts)"
      using serialize_fitting [OF fits [OF Some]] by blast
    obtain t' where t': "tc_feeds (spp_tc_parser_init t (tc_parser junk)) (ts @ rest) =
        Inr (SPP_TC_PARSER_DONE, t', rest)" "spp_tc_get_dtn_timestamp t' = meta_timestamp meta"
      using timecode_read [OF fits [OF Some] ts junk] by blast
    let ?q = "?p\<lparr>bufw := w, spp_header := ?h, spp_data_length := data_length ?h,
      spp_state := SPP_PARSER_STATE_SH_TIMECODE_SUBPARSER, tc_parser := spp_tc_parser_init t (tc_parser junk)\<rparr>"
    have "spp_parser_read ?q (ts @ rest) = Inr (length ts, after_timecode ?q (length ts) t')"
      using t'(1) ancillary by (intro read_timecode) (simp_all add: spp_parser_init_def spp_parser_reset_def)
    moreover have "n + timecode_size ctx - of_nat (length ts) = n"
      using timecode_length(1) [OF fits [OF Some] ts] Some by (simp add: timecode_size_def)
    ultimately show ?thesis
      using Some ser ts read [of "ts @ rest"] hb(2) ancillary t'(2) timecode_length(1) [OF fits [OF Some] ts]
      by (simp add: after_length_def packet_header_def spp_parser_init_def spp_parser_reset_def spp_get_size_def
          spp_parser_get_data_length_def spp_parser_get_meta_def metadata_ready_def after_timecode_def
          timecode_size_def algebra_simps)
  qed
qed

text \<open>A packet of a node of the tests: four octets of seconds and two fractional ones.\<close>

definition sample_timecode :: spp_tc_context where
  "sample_timecode = \<lparr>with_p_field = True, tc_defaults = ccsds 4 2\<rparr>"

definition sample_spp_context :: spp_context where
  "sample_spp_context = \<lparr>timecode = Some sample_timecode, ancillary_data_len = 0\<rparr>"

definition sample_meta :: spp_meta where
  "sample_meta = \<lparr>meta_is_request = True, meta_apid = 5, meta_segment_status = SPP_SEGMENT_LAST,
     meta_segment_number = 3, meta_timestamp = 500000000, meta_counter = 7\<rparr>"

definition blank_tc_parser :: spp_tc_parser where
  "blank_tc_parser = \<lparr>tcp_status = SPP_TC_PARSER_GOOD, tcp_format = ccsds 0 0,
     tcp_preamble = \<lparr>has_second_octet = False, detected_type = 0\<rparr>, read_base_unit = False, base_unit_remaining = 0,
     fractional_remaining = 0, base_unit_count = 0, fractional_count = 0, fractional_ptr = 0,
     fractional_buf = replicate 6 0\<rparr>"

definition blank_spp_parser :: spp_parser where
  "blank_spp_parser = \<lparr>spp_status = PARSER_STATUS_GOOD, spp_next_bytes = 0, spp_flags = 0, bufw = 0,
     spp_header = packet_header sample_spp_context sample_meta 0, spp_ctx = sample_spp_context,
     spp_state = SPP_PARSER_STATE_PH_P1_MSB, tc_parser = blank_tc_parser, spp_data_length = 0, spp_timestamp = 0\<rparr>"

theorem spp_roundtrip_witness:
  "\<exists>bs p. spp_serialize_header sample_spp_context sample_meta 20 = Inr (0, bs) \<and>
    spp_parser_read (spp_parser_init blank_spp_parser sample_spp_context) (bs @ [1, 2]) = Inr (length bs, p) \<and>
    spp_parser_get_meta p = Some (sample_meta\<lparr>meta_counter := 0\<rparr>)"
proof -
  have fits: "timecode_fits t (meta_timestamp sample_meta)" if "timecode sample_spp_context = Some t" for t
    using that by (auto simp: sample_spp_context_def sample_timecode_def timecode_fits_def sample_meta_def ccsds_def)
  have facts: "meta_apid sample_meta \<le> SPP_MAX_APID" "meta_segment_number sample_meta \<le> SPP_MAX_SEGMENT_NUMBER"
    "ancillary_data_len sample_spp_context = 0" "spp_get_min_payload_size sample_spp_context \<le> 20"
    "20 \<le> spp_get_max_payload_size sample_spp_context"
    "length (fractional_buf (tc_parser blank_spp_parser)) = SPP_TC_UNSEGMENTED_FRACTIONAL_MAX_OCTETS"
    "timecode sample_spp_context \<noteq> None"
    by code_simp+
  have "sample_meta\<lparr>meta_counter := 0, meta_timestamp := meta_timestamp sample_meta\<rparr> = sample_meta\<lparr>meta_counter := 0\<rparr>"
    by simp
  then show ?thesis
    using spp_roundtrip [OF facts(1-3) fits facts(4-6), of "[1, 2]"] facts(7) by auto
qed

text \<open>
  C10 (safety). A preamble of a time code announces up to ten fractional octets, but the parser has room for six: with
  at most six, no input whatever makes it fail, and with more, any seven fractional octets are written past the end of
  the buffer.
\<close>

theorem spp_timecode_overflow:
  assumes "with_p_field tc" and "preamble_decodes b f pre" and "b \<noteq> 0"
    and "length (fractional_buf t) = SPP_TC_UNSEGMENTED_FRACTIONAL_MAX_OCTETS"
  shows "(f \<le> 6 \<longrightarrow> (\<exists>r. tc_feeds (spp_tc_parser_init tc t) (pre @ bs) = Inr r)) \<and>
    (6 < f \<and> length bs = unat b + 7 \<longrightarrow> tc_feeds (spp_tc_parser_init tc t) (pre @ bs) = Inl Out_Of_Bounds)"
proof -
  have t: "tc_type (tcp_format (spp_tc_parser_init tc t)) = SPP_TC_UNKNOWN"
    "\<not> has_second_octet (tcp_preamble (spp_tc_parser_init tc t))"
    "fractional_buf (spp_tc_parser_init tc t) = fractional_buf t"
    using assms(1) by (simp_all add: spp_tc_parser_init_def)
  obtain t1 where 1: "tc_started b f t1" "fractional_buf t1 = fractional_buf t"
    "\<And>ys. tc_feeds (spp_tc_parser_init tc t) (pre @ ys) = tc_feeds t1 ys"
    using feeds_preamble [OF assms(2) t(1,2)] t(3) by metis
  have "tc_room t1" if "f \<le> 6"
    using 1(1,2) assms(4) that by (simp add: tc_room_def tc_started_def fraction_room_def word_le_nat_alt)
  moreover have "tc_feeds t1 bs = Inl Out_Of_Bounds" if f: "6 < f" and bs: "length bs = unat b + 7"
  proof -
    obtain n where n: "unat b = Suc n" using assms(3) by (metis not0_implies_Suc unat_eq_zero)
    have "fractional_remaining t1 \<noteq> 0" using 1(1) f by (auto simp: tc_started_def)
    then obtain t2 where 2: "tc_type (tcp_format t2) = SPP_TC_UNSEGMENTED_CCSDS_EPOCH" "read_base_unit t2"
      "same_fraction t1 t2" "\<And>ys. tc_feeds t1 (take (Suc n) bs @ ys) = tc_feeds t2 ys"
      using feeds_any_base [of t1 n "take (Suc n) bs"] 1(1) n bs by (auto simp: tc_started_def)
    have "tc_feeds t2 (drop (Suc n) bs) = Inl Out_Of_Bounds"
      using 2(1-3) 1(1,2) assms(4) f bs n
      by (intro feeds_overflow [of t2 6]) (auto simp: same_fraction_def tc_started_def word_less_nat_alt)
    then show ?thesis using 2(4) [of "drop (Suc n) bs"] by simp
  qed
  ultimately show ?thesis using 1(3) feeds_room by simp
qed

theorem spp_timecode_overflow_witness:
  "tc_feeds (spp_tc_parser_init sample_timecode blank_tc_parser) ([0x9F, 0x1C] @ replicate 11 0) = Inl Out_Of_Bounds"
proof -
  have "with_p_field sample_timecode" "preamble_decodes 4 10 [0x9F, 0x1C]"
    "length (fractional_buf blank_tc_parser) = SPP_TC_UNSEGMENTED_FRACTIONAL_MAX_OCTETS"
    by code_simp+
  then show ?thesis
    using spp_timecode_overflow [of sample_timecode 4 10 "[0x9F, 0x1C]" blank_tc_parser "replicate 11 0"] by simp
qed

end
