(* ===== verification/Eid_List.thy ===== *)
theory Eid_List
  imports Upcn_Prelude
begin

text \<open>
  Lists of EIDs in a byte array, \<open>components/upcn/eid_list.c\<close>: the number of entries in the first byte, then the
  entries with their terminators. A C string is given by its bytes before the terminator.
\<close>

section \<open>Decoding\<close>

text \<open>
  The loop over the bytes after the count. An entry is stored at the next index of the array of \<open>count\<close> pointers, which
  is not tested.
\<close>

function decode_entries :: "alloc_trace \<Rightarrow> nat \<Rightarrow> nat \<Rightarrow> bytes \<Rightarrow> (bytes list option \<times> alloc_trace) outcome" where
  "decode_entries m count eid_index [] = Inr (Some [], m)"
| "decode_entries m count eid_index (b # bs) =
     (if 0 \<notin> set (b # bs) then Inr (None, m)
      else if count \<le> eid_index then Inl Out_Of_Bounds
      else (case malloc m of
          (None, m1) \<Rightarrow> Inr (None, m1)
        | (Some _, m1) \<Rightarrow>
            obind (decode_entries m1 count (eid_index + 1) (drop 1 (dropWhile (\<lambda>x. x \<noteq> 0) (b # bs)))) (\<lambda>(r, m2).
              Inr (map_option (\<lambda>es. takeWhile (\<lambda>x. x \<noteq> 0) (b # bs) # es) r, m2))))"
  by pat_completeness auto

termination decode_entries
proof (relation "measure (\<lambda>(m, count, i, bs). length bs)")
  fix m m1 :: alloc_trace and count i :: nat and b :: u8 and bs
  show "((m1, count, i + 1, drop 1 (dropWhile (\<lambda>x. x \<noteq> 0) (b # bs))), (m, count, i, b # bs))
      \<in> measure (\<lambda>(m, count, i, bs). length bs)"
    using length_dropWhile_le [of "\<lambda>x. x \<noteq> 0" "b # bs"] by auto
qed simp

definition eidlist_decode :: "alloc_trace \<Rightarrow> bytes \<Rightarrow> (bytes list option \<times> alloc_trace) outcome" where
  "eidlist_decode m ptr = (if length ptr \<le> 1 then Inr (None, m)
     else (case malloc m of
         (None, m1) \<Rightarrow> Inr (None, m1)
       | (Some _, m1) \<Rightarrow>
           obind (decode_entries m1 (unat (ptr ! 0)) 0 (drop 1 ptr)) (\<lambda>(r, m2). Inr (case r of
               None \<Rightarrow> (None, m2)
             | Some es \<Rightarrow> (if length es \<noteq> unat (ptr ! 0) then None else Some es, m2)))))"

section \<open>Encoding\<close>

text \<open>The bytes of an entry from an index on, which is an \<open>uint8_t\<close>, into a buffer with so much room left.\<close>

fun encode_entry :: "bytes \<Rightarrow> u8 \<Rightarrow> nat \<Rightarrow> bytes outcome" where
  "encode_entry eid j 0 = Inl Out_Of_Bounds"
| "encode_entry eid j (Suc room) =
     (let b = (eid @ [0]) ! unat j
      in if b = 0 then Inr [b] else obind (encode_entry eid (j + 1) room) (\<lambda>bs. Inr (b # bs)))"

fun encode_entries :: "bytes list \<Rightarrow> nat \<Rightarrow> bytes outcome" where
  "encode_entries [] room = Inr []"
| "encode_entries (e # es) room =
     obind (encode_entry e 0 room) (\<lambda>bs. obind (encode_entries es (room - length bs)) (\<lambda>cs. Inr (bs @ cs)))"

definition list_length :: "bytes list \<Rightarrow> nat" where
  "list_length eids = 1 + sum_list (map (\<lambda>e. length e + 1) eids)"

definition eidlist_encode :: "alloc_trace \<Rightarrow> bytes list \<Rightarrow> u8 \<Rightarrow> (bytes option \<times> int \<times> alloc_trace) outcome" where
  "eidlist_encode m eids count =
     (let es = take (unat count) eids; res_len = list_length es
      in if length eids < unat count then Inl Out_Of_Bounds
         else (case malloc m of
             (None, m1) \<Rightarrow> Inr (None, -1, m1)
           | (Some _, m1) \<Rightarrow> obind (encode_entries es (res_len - 1)) (\<lambda>bs. Inr (Some (count # bs), int res_len, m1))))"

section \<open>Correctness\<close>

lemma encode_entry_ok:
  "0 \<notin> set eid \<Longrightarrow> length eid \<le> 255 \<Longrightarrow> i \<le> length eid \<Longrightarrow> length eid - i < room \<Longrightarrow>
    encode_entry eid (of_nat i) room = Inr (drop i eid @ [0])"
proof (induction "length eid - i" arbitrary: i room)
  case 0
  then obtain r where "room = Suc r" by (cases room) auto
  then show ?case using 0 by (auto simp: unat_of_nat Let_def nth_append)
next
  case (Suc k)
  then obtain r where r: "room = Suc r" by (cases room) auto
  have i: "i < length eid" using Suc.hyps(2) by simp
  then have "eid ! i \<noteq> 0" using Suc.prems(1) by (metis nth_mem)
  moreover have "(eid @ [0]) ! unat (of_nat i :: u8) = eid ! i"
    using i Suc.prems(2) by (simp add: unat_of_nat nth_append)
  moreover have "encode_entry eid (of_nat (Suc i)) r = Inr (drop (Suc i) eid @ [0])"
    using Suc i r by (intro Suc.hyps(1)) auto
  ultimately show ?case
    using i by (simp add: r Let_def Cons_nth_drop_Suc [symmetric] add.commute)
qed

lemma encode_entries_ok:
  assumes "\<forall>e \<in> set es. 0 \<notin> set e \<and> length e \<le> 255" and "sum_list (map (\<lambda>e. length e + 1) es) \<le> room"
  shows "encode_entries es room = Inr (concat (map (\<lambda>e. e @ [0]) es))"
  using assms
proof (induction es arbitrary: room)
  case (Cons e es)
  then show ?case using encode_entry_ok [of e 0 room] by simp
qed simp

text \<open>An entry of 256 bytes or more is copied around in circles until the buffer has been left.\<close>

lemma encode_entry_long:
  "0 \<notin> set eid \<Longrightarrow> 256 \<le> length eid \<Longrightarrow> encode_entry eid j room = Inl Out_Of_Bounds"
proof (induction room arbitrary: j)
  case (Suc room)
  have "unat j < length eid" using Suc.prems(2) unsigned_less [of j, where 'a = nat] by simp
  then have "(eid @ [0]) ! unat j \<noteq> 0" using Suc.prems(1) by (simp add: nth_append) (metis nth_mem)
  then show ?case using Suc by (simp add: Let_def)
qed simp

lemma decode_entries_ok:
  assumes "\<forall>e \<in> set es. 0 \<notin> set e" and "i + length es \<le> count" and "length es \<le> length as"
  shows "decode_entries (mem_ok as) count i (concat (map (\<lambda>e. e @ [0]) es)) = Inr (Some es, mem_ok (drop (length es) as))"
  using assms
proof (induction es arbitrary: i as)
  case (Cons e es)
  obtain a as' where as: "as = a # as'" using Cons.prems(3) by (cases as) auto
  let ?bs = "e @ 0 # concat (map (\<lambda>e. e @ [0]) es)"
  obtain b bs where bs: "?bs = b # bs" by (cases ?bs) auto
  have split: "takeWhile (\<lambda>x. x \<noteq> 0) ?bs = e" "dropWhile (\<lambda>x. x \<noteq> 0) ?bs = 0 # concat (map (\<lambda>e. e @ [0]) es)"
    using Cons.prems(1) by (simp_all add: takeWhile_append dropWhile_append)
  have "0 \<in> set ?bs" "\<not> count \<le> i" using Cons.prems(2) by simp_all
  then have "decode_entries (mem_ok as) count i ?bs =
      obind (decode_entries (mem_ok as') count (i + 1) (concat (map (\<lambda>e. e @ [0]) es))) (\<lambda>(r, m2).
        Inr (map_option (\<lambda>es. e # es) r, m2))"
    using split unfolding bs as by simp
  then show ?case using Cons.IH [of "i + 1" as'] Cons.prems by (simp add: as)
qed simp

text \<open>More entries than announced.\<close>

lemma decode_entries_many:
  assumes "\<forall>e \<in> set es. 0 \<notin> set e" and "i + length es = Suc count" and "length es \<le> length as" and "es \<noteq> []"
  shows "decode_entries (mem_ok as) count i (concat (map (\<lambda>e. e @ [0]) es)) = Inl Out_Of_Bounds"
  using assms
proof (induction es arbitrary: i as)
  case (Cons e es)
  obtain a as' where as: "as = a # as'" using Cons.prems(3) by (cases as) auto
  let ?bs = "e @ 0 # concat (map (\<lambda>e. e @ [0]) es)"
  obtain b bs where bs: "?bs = b # bs" by (cases ?bs) auto
  have split: "dropWhile (\<lambda>x. x \<noteq> 0) ?bs = 0 # concat (map (\<lambda>e. e @ [0]) es)"
    using Cons.prems(1) by (simp add: dropWhile_append)
  have "0 \<in> set ?bs" by simp
  then have "decode_entries (mem_ok as) count i ?bs =
      (if count \<le> i then Inl Out_Of_Bounds
       else obind (decode_entries (mem_ok as') count (i + 1) (concat (map (\<lambda>e. e @ [0]) es))) (\<lambda>(r, m2).
        Inr (map_option (\<lambda>es. takeWhile (\<lambda>x. x \<noteq> 0) ?bs # es) r, m2)))"
    using split unfolding bs as by simp
  moreover have "decode_entries (mem_ok as') count (i + 1) (concat (map (\<lambda>e. e @ [0]) es)) = Inl Out_Of_Bounds"
    if "\<not> count \<le> i"
    using Cons.prems that by (intro Cons.IH) (auto simp: as)
  ultimately show ?case by (simp add: as)
qed simp

section \<open>Properties\<close>

text \<open>
  C23 (roundtrip). A list of at least one and at most 255 EIDs of at most 255 bytes each is encoded in the announced length and
  decoded to the same list. With one entry more than announced, decoding writes past the array of its results, and
  a first EID of 256 bytes or more sends the encoding past the end of its buffer.
\<close>

theorem eidlist_roundtrip:
  assumes "eids \<noteq> []" and "length eids \<le> 255" and "\<forall>e \<in> set eids. 0 \<notin> set e" and "length eids < length as"
  shows "((\<forall>e \<in> set eids. length e \<le> 255) \<longrightarrow>
      (\<exists>bs. eidlist_encode (Some a # m) eids (of_nat (length eids)) = Inr (Some bs, int (length bs), m) \<and>
        eidlist_decode (mem_ok as) bs = Inr (Some eids, mem_ok (drop (Suc (length eids)) as)))) \<and>
    eidlist_decode (mem_ok as) (of_nat (length eids - 1) # concat (map (\<lambda>e. e @ [0]) eids)) = Inl Out_Of_Bounds \<and>
    (256 \<le> length (hd eids) \<longrightarrow> eidlist_encode (Some a # m) eids (of_nat (length eids)) = Inl Out_Of_Bounds)"
proof (intro conjI impI)
  let ?bytes = "concat (map (\<lambda>e. e @ [0]) eids)"
  obtain a0 as' where as: "as = a0 # as'" "length eids \<le> length as'" using assms(4) by (cases as) auto
  have n: "unat (of_nat (length eids) :: u8) = length eids" "unat (of_nat (length eids - 1) :: u8) = length eids - 1"
    using assms(2) by (simp_all add: unat_of_nat)
  have size: "length ?bytes = sum_list (map (\<lambda>e. length e + 1) eids)"
    by (simp add: length_concat comp_def)
  obtain e es where e: "eids = e # es" using assms(1) by (cases eids) auto
  have long: "\<not> length (c # ?bytes) \<le> 1" for c by (simp add: e)
  {
    assume short: "\<forall>e \<in> set eids. length e \<le> 255"
    have "encode_entries eids (list_length eids - 1) = Inr ?bytes"
      using short assms(3) by (intro encode_entries_ok) (auto simp: list_length_def)
    then have "eidlist_encode (Some a # m) eids (of_nat (length eids)) =
        Inr (Some (of_nat (length eids) # ?bytes), int (length (of_nat (length eids) # ?bytes)), m)"
      by (simp add: eidlist_encode_def Let_def n list_length_def size)
    moreover have "eidlist_decode (mem_ok as) (of_nat (length eids) # ?bytes) =
        Inr (Some eids, mem_ok (drop (Suc (length eids)) as))"
      using decode_entries_ok [of eids 0 "length eids" as'] assms(3) as long
      by (simp add: eidlist_decode_def n)
    ultimately show "\<exists>bs. eidlist_encode (Some a # m) eids (of_nat (length eids)) = Inr (Some bs, int (length bs), m) \<and>
        eidlist_decode (mem_ok as) bs = Inr (Some eids, mem_ok (drop (Suc (length eids)) as))" by blast
  }
  show "eidlist_decode (mem_ok as) (of_nat (length eids - 1) # ?bytes) = Inl Out_Of_Bounds"
    using decode_entries_many [of eids 0 "length eids - 1" as'] assms(1,3) as long
    by (simp add: eidlist_decode_def n [unfolded One_nat_def])
  assume "256 \<le> length (hd eids)"
  then have "encode_entry e 0 room = Inl Out_Of_Bounds" for room
    using encode_entry_long [of e 0] assms(3) by (simp add: e)
  then have "encode_entries eids room = Inl Out_Of_Bounds" for room by (simp add: e)
  then show "eidlist_encode (Some a # m) eids (of_nat (length eids)) = Inl Out_Of_Bounds"
    by (simp add: eidlist_encode_def n Let_def)
qed

theorem eidlist_roundtrip_witness:
  "\<exists>bs. eidlist_encode [Some 1] [[65, 66], [67]] 2 = Inr (Some bs, int (length bs), []) \<and>
    eidlist_decode (mem_ok [1, 2, 3]) bs = Inr (Some [[65, 66], [67]], [])"
  using eidlist_roundtrip [of "[[65, 66], [67]]" "[1, 2, 3]" 1 "[]"] by (simp add: mem_ok_def)

end
