(* ===== verification/Router.thy ===== *)
theory Router
  imports Node Fragment
begin

text \<open>
  Route computation, \<open>components/upcn/router.c\<close>: the contacts over which a destination is reached, the largest
  reasonable fragment, the fragments of a bundle and the contacts each of them is sent over, and the booking of
  bundles on contacts. Probabilities are of type \<open>float\<close>: rational numbers here, with the rounding of the arithmetic as
  the member \<open>rounding\<close> of the environment. The table of convergence layers, each with the maximum bundle size of its
  instance if it has one, and the lookup of the routing table are members too. The null pointer to a node is the address zero.
\<close>

section \<open>Configuration\<close>

abbreviation (input) "ROUTER_MAX_FRAGMENTS \<equiv> (10 :: nat)"
abbreviation (input) "ROUTER_MAX_CONTACTS \<equiv> (4 :: nat)"

record router_config =
  global_mbs :: u64
  fragment_min_payload :: u16
  min_probability :: rat
  min_node_confidence_opportunistic :: rat
  min_node_confidence_deterministic :: rat
  node_trustworthiness_weight :: rat
  node_reliability_weight :: rat
  opt_min_time :: u32
  opt_max_bundles :: u8
  opt_max_pre_bundles :: u8
  opt_max_pre_bundles_contact :: u8
  router_min_contacts_htab :: u8
  router_min_contacts_nbf :: u8
  router_nbf_base_reliability :: rat
  router_def_base_reliability :: rat

text \<open>The constants \<open>0.90f\<close> and \<open>0.2f\<close>, \<open>1.0001f\<close> and \<open>0.9999f\<close> as IEEE 754 binary32 numbers.\<close>

definition f_0_90 :: rat where "f_0_90 = 15099494 / 16777216"
definition f_0_2 :: rat where "f_0_2 = 13421773 / 67108864"
definition f_1_0001 :: rat where "f_1_0001 = 8389447 / 8388608"
definition f_0_9999 :: rat where "f_0_9999 = 16775538 / 16777216"

definition router_default_config :: router_config where
  "router_default_config = \<lparr>global_mbs = -1, fragment_min_payload = 8, min_probability = f_0_90,
     min_node_confidence_opportunistic = f_0_2, min_node_confidence_deterministic = f_0_90,
     node_trustworthiness_weight = 0, node_reliability_weight = 1, opt_min_time = 2, opt_max_bundles = 3,
     opt_max_pre_bundles = 9, opt_max_pre_bundles_contact = 3, router_min_contacts_htab = 10,
     router_min_contacts_nbf = 0, router_nbf_base_reliability = 0, router_def_base_reliability = f_0_90\<rparr>"

definition router_config_invalid :: "(rat \<Rightarrow> rat) \<Rightarrow> router_config \<Rightarrow> bool" where
  "router_config_invalid rounding conf \<longleftrightarrow>
     (let w = rounding (node_trustworthiness_weight conf + node_reliability_weight conf)
      in min_probability conf > 1 \<or> min_probability conf \<le> 0
         \<or> min_node_confidence_opportunistic conf > 1 \<or> min_node_confidence_deterministic conf > 1
         \<or> min_node_confidence_opportunistic conf \<le> 0 \<or> min_node_confidence_deterministic conf \<le> 0
         \<or> min_node_confidence_opportunistic conf > min_node_confidence_deterministic conf
         \<or> min_node_confidence_deterministic conf < min_probability conf
         \<or> w > f_1_0001 \<or> w < f_0_9999
         \<or> opt_max_bundles conf < 1
         \<or> opt_max_pre_bundles_contact conf > opt_max_pre_bundles conf
         \<or> router_def_base_reliability conf > 1 \<or> router_def_base_reliability conf \<le> 0)"

definition router_update_config ::
  "(rat \<Rightarrow> rat) \<Rightarrow> router_config \<Rightarrow> router_config \<Rightarrow> upcn_result \<times> router_config" where
  "router_update_config rounding conf RC =
     (if router_config_invalid rounding conf then (UPCN_FAIL, RC) else (UPCN_OK, conf))"

section \<open>State\<close>

type_synonym node_heap = "addr \<Rightarrow> node_t option"

record router_env =
  rounding :: "rat \<Rightarrow> rat"
  router_now :: u64
  available_clas :: "(string \<times> u64 option) list"
  lookup_eid :: "string \<Rightarrow> assoc_list option"

definition deref_node :: "node_heap \<Rightarrow> addr \<Rightarrow> node_t outcome" where
  "deref_node N a = (if a = 0 then Inl Null_Deref
     else case N a of None \<Rightarrow> Inl Use_After_Free | Some nd \<Rightarrow> Inr nd)"

text \<open>\<open>cla_config_get\<close> of \<open>components/cla/cla.c\<close>: the instance of the first convergence layer whose name is a prefix.\<close>

fun cla_config_get :: "(string \<times> 'c option) list \<Rightarrow> string \<Rightarrow> 'c option" where
  "cla_config_get [] addr = None"
| "cla_config_get ((name, inst) # clas) addr =
     (if length addr < length name then cla_config_get clas addr
      else if take (length name) addr = name then inst else cla_config_get clas addr)"

fun prio_code :: "bundle_routing_priority \<Rightarrow> nat" where
  "prio_code BUNDLE_RPRIO_LOW = 0"
| "prio_code BUNDLE_RPRIO_NORMAL = 1"
| "prio_code BUNDLE_RPRIO_HIGH = 2"

text \<open>The contacts of a route are the first \<open>contact_count\<close> members of its array, the results of a bundle the
  first \<open>fragments\<close>.\<close>

record fragment_route =
  route_payload_size :: u32
  route_probability :: rat
  route_contacts :: "addr list"
  route_preemption_improved :: u8

record router_result =
  result_probability :: rat
  fragment_results :: "fragment_route list"
  result_preemption_improved :: u8

section \<open>Contacts of a destination\<close>

abbreviation (input) "DTN_SCHEME \<equiv> ''dtn://''"

text \<open>The identifier of the node in an EID \<open>dtn://node/application\<close>; an EID without application is used as it is.\<close>

definition node_id_of :: "string \<Rightarrow> string option" where
  "node_id_of dest =
     (if take (length DTN_SCHEME) dest = DTN_SCHEME \<and> CHR ''/'' \<in> set (drop (length DTN_SCHEME) dest)
      then Some (DTN_SCHEME @ takeWhile (\<lambda>c. c \<noteq> CHR ''/'') (drop (length DTN_SCHEME) dest))
      else None)"

fun collect_contacts ::
  "alloc_trace \<Rightarrow> contact_heap \<Rightarrow> assoc_list \<Rightarrow> assoc_list \<Rightarrow> (assoc_list \<times> alloc_trace) outcome" where
  "collect_contacts m H result [] = Inr (result, m)"
| "collect_contacts m H result ((a, p) # cur) =
     obind (add_contact_to_ordered_assoc_list m H result a p False) (\<lambda>(_, result1, m1).
       collect_contacts m1 H result1 cur)"

definition router_lookup_destination :: "router_env \<Rightarrow> alloc_trace \<Rightarrow> contact_heap \<Rightarrow> string \<Rightarrow>
    (assoc_list \<times> alloc_trace) outcome" where
  "router_lookup_destination env m H dest =
     (let go = (\<lambda>m1 eid. case lookup_eid env eid of
            None \<Rightarrow> Inr ([], m1)
          | Some contacts \<Rightarrow> collect_contacts m1 H [] contacts)
      in case node_id_of dest of
           None \<Rightarrow> go m dest
         | Some node_id \<Rightarrow> (case malloc m of
               (None, m1) \<Rightarrow> Inl Null_Deref
             | (Some _, m1) \<Rightarrow> go m1 node_id))"

section \<open>Confidence and capacity\<close>

definition ROUTER_NODE_CONFIDENCE :: "router_env \<Rightarrow> router_config \<Rightarrow> node_t \<Rightarrow> rat" where
  "ROUTER_NODE_CONFIDENCE env RC nd =
     rounding env (rounding env (node_trustworthiness_weight RC * trustworthiness nd) +
       rounding env (node_reliability_weight RC * reliability nd))"

definition ROUTER_CONTACT_CONFIDENCE ::
  "router_env \<Rightarrow> router_config \<Rightarrow> node_heap \<Rightarrow> contact \<Rightarrow> rat \<Rightarrow> rat outcome" where
  "ROUTER_CONTACT_CONFIDENCE env RC N c p =
     obind (deref_node N (contact_node c)) (\<lambda>nd. Inr (rounding env (ROUTER_NODE_CONFIDENCE env RC nd * p)))"

definition ROUTER_CONTACT_CAPACITY :: "router_env \<Rightarrow> contact \<Rightarrow> nat \<Rightarrow> u32" where
  "ROUTER_CONTACT_CAPACITY env c p = contact_get_cur_remaining_capacity (router_now env) c p"

section \<open>Largest reasonable fragment\<close>

text \<open>\<open>c_pay_capacity\<close> is an \<open>int32_t\<close>; the conversion of the product is that of a float to \<open>uint32_t\<close>.\<close>

fun max_fragment_loop :: "router_env \<Rightarrow> router_config \<Rightarrow> contact_heap \<Rightarrow> node_heap \<Rightarrow> u32 \<Rightarrow> u32 \<Rightarrow> u32 \<Rightarrow> u32 \<Rightarrow>
    nat \<Rightarrow> u32 \<Rightarrow> u32 \<Rightarrow> assoc_list \<Rightarrow> (u32 \<times> u32) outcome" where
  "max_fragment_loop env RC H N full min_size payload min_cap priority cap max_frag [] = Inr (cap, max_frag)"
| "max_fragment_loop env RC H N full min_size payload min_cap priority cap max_frag ((a, p) # contacts) =
     (if cap \<ge> payload then Inr (cap, max_frag)
      else obind (deref_contact H a) (\<lambda>c.
        let c_capacity = ROUTER_CONTACT_CAPACITY env c priority;
            continue = (\<lambda>cap1 max1. max_fragment_loop env RC H N full min_size payload min_cap priority cap1 max1 contacts)
        in if c_capacity < min_cap then continue cap max_frag
           else obind (deref_node N (contact_node c)) (\<lambda>nd. case cla_addr nd of
               None \<Rightarrow> Inl Assert_Failed
             | Some cla \<Rightarrow> (case cla_config_get (available_clas env) cla of
                 None \<Rightarrow> continue cap max_frag
               | Some mbs \<Rightarrow>
                   (let c_mbs = min (min (ucast c_capacity) mbs) (global_mbs RC);
                        max1 = ucast (min (ucast max_frag) c_mbs);
                        c_pay_capacity = c_capacity - min_size;
                        enough = (sint c_pay_capacity > int (unat (fragment_min_payload RC)))
                    in obind (ROUTER_CONTACT_CONFIDENCE env RC N c p) (\<lambda>conf.
                       if conf \<ge> min_node_confidence_deterministic RC
                       then if enough
                            then if c_capacity \<ge> full then Inr (cap + c_pay_capacity, max1)
                                 else continue (cap + c_pay_capacity) max1
                            else continue cap max_frag
                       else if conf \<ge> min_node_confidence_opportunistic RC \<and> enough
                       then continue (cap + of_int \<lfloor>rounding env (conf * rounding env (of_int (sint c_pay_capacity)))\<rfloor>)
                              max1
                       else continue cap max_frag))))))"

definition router_get_max_reasonable_fragment_size :: "router_env \<Rightarrow> router_config \<Rightarrow> contact_heap \<Rightarrow> node_heap \<Rightarrow>
    assoc_list \<Rightarrow> u32 \<Rightarrow> u32 \<Rightarrow> u32 \<Rightarrow> bundle_routing_priority \<Rightarrow> (u32 \<times> u32) outcome" where
  "router_get_max_reasonable_fragment_size env RC H N contacts full_size max_fragment_min_size payload_size priority =
     obind (max_fragment_loop env RC H N full_size max_fragment_min_size payload_size
         (payload_size div of_nat ROUTER_MAX_FRAGMENTS + max_fragment_min_size) (prio_code priority)
         0 0xFFFFFFFF contacts) (\<lambda>(payload_capacity, max_frag_size).
       Inr (if payload_capacity < payload_size then 0 else max_frag_size, payload_capacity))"

section \<open>The contacts of one fragment\<close>

fun fragment_route_loop :: "router_env \<Rightarrow> router_config \<Rightarrow> contact_heap \<Rightarrow> node_heap \<Rightarrow> u32 \<Rightarrow> nat \<Rightarrow> addr list \<Rightarrow>
    fragment_route \<Rightarrow> u32 \<Rightarrow> assoc_list \<Rightarrow> fragment_route outcome" where
  "fragment_route_loop env RC H N bsize priority excluded res preprocessed_size [] = Inr res"
| "fragment_route_loop env RC H N bsize priority excluded res preprocessed_size ((a, p) # contacts) =
     (if route_probability res \<ge> min_probability RC \<or> length (route_contacts res) = ROUTER_MAX_CONTACTS then Inr res
      else if a \<in> set excluded
      then fragment_route_loop env RC H N bsize priority excluded res preprocessed_size contacts
      else obind (deref_contact H a) (\<lambda>c.
        let continue = (\<lambda>res1 pre. fragment_route_loop env RC H N bsize priority excluded res1 pre contacts);
            cap = ROUTER_CONTACT_CAPACITY env c 0
        in if to_time c \<le> router_now env then continue res preprocessed_size
           else if preprocessed_size \<noteq> 0 \<and> preprocessed_size \<ge> cap then continue res (preprocessed_size - cap)
           else if cap - preprocessed_size < bsize
           then continue (if ROUTER_CONTACT_CAPACITY env c priority - preprocessed_size \<ge> bsize
                  then res\<lparr>route_preemption_improved := route_preemption_improved res + 1\<rparr> else res) 0
           else obind (ROUTER_CONTACT_CONFIDENCE env RC N c p) (\<lambda>conf.
             if conf \<ge> min_node_confidence_deterministic RC
             then Inr (res\<lparr>route_contacts := [a], route_probability := conf\<rparr>)
             else if conf \<ge> min_node_confidence_opportunistic RC
             then continue (res\<lparr>route_contacts := route_contacts res @ [a],
                    route_probability := rounding env (rounding env (route_probability res + conf) -
                      rounding env (route_probability res * conf))\<rparr>) 0
             else continue res 0)))"

definition router_calculate_fragment_route :: "router_env \<Rightarrow> router_config \<Rightarrow> contact_heap \<Rightarrow> node_heap \<Rightarrow>
    fragment_route \<Rightarrow> u32 \<Rightarrow> assoc_list \<Rightarrow> u32 \<Rightarrow> bundle_routing_priority \<Rightarrow> addr list \<Rightarrow>
    (bool \<times> fragment_route) outcome" where
  "router_calculate_fragment_route env RC H N res bsize contacts preprocessed_size priority excluded =
     obind (fragment_route_loop env RC H N bsize (prio_code priority) excluded
         (res\<lparr>route_contacts := [], route_probability := 0, route_preemption_improved := 0\<rparr>) preprocessed_size contacts)
       (\<lambda>res1. Inr (route_probability res1 \<ge> min_probability RC, res1))"

section \<open>Fragments of a bundle\<close>

text \<open>
  The payload sizes of the fragments, for at most \<open>k\<close> of them, and the payload that remains. The sizes of the headers
  of the next, of a middle and of the last fragment are given.
\<close>

fun plan_fragments :: "nat \<Rightarrow> u16 \<Rightarrow> u32 \<Rightarrow> u32 \<Rightarrow> u32 \<Rightarrow> u32 \<Rightarrow> u32 \<Rightarrow> u32 list \<times> u32" where
  "plan_fragments 0 min_payload max_frag_sz last_frag_sz mid_frag_sz next_frag_sz remaining_pay = ([], remaining_pay)"
| "plan_fragments (Suc k) min_payload max_frag_sz last_frag_sz mid_frag_sz next_frag_sz remaining_pay =
     (let min_pay = min remaining_pay (ucast min_payload); max_pay = max_frag_sz - next_frag_sz
      in if remaining_pay = 0 then ([], 0)
         else if max_pay <s min_pay then ([], remaining_pay)
         else if remaining_pay \<le> max_frag_sz - last_frag_sz then ([remaining_pay], 0)
         else (let pay = (if max_pay <s remaining_pay then max_pay else remaining_pay);
                   (ps, r) = plan_fragments k min_payload max_frag_sz last_frag_sz mid_frag_sz mid_frag_sz
                     (remaining_pay - pay)
               in (pay # ps, r)))"

text \<open>The size of the fragment with an index, of \<open>n\<close> fragments.\<close>

definition fragment_size_at :: "nat \<Rightarrow> u32 \<Rightarrow> u32 \<Rightarrow> u32 \<Rightarrow> nat \<Rightarrow> u32 \<Rightarrow> u32" where
  "fragment_size_at n first_frag_sz mid_frag_sz last_frag_sz index pay =
     pay + (if index = 0 then first_frag_sz else if index = n - 1 then last_frag_sz else mid_frag_sz)"

fun route_fragments :: "router_env \<Rightarrow> router_config \<Rightarrow> contact_heap \<Rightarrow> node_heap \<Rightarrow> assoc_list \<Rightarrow>
    bundle_routing_priority \<Rightarrow> (nat \<Rightarrow> u32 \<Rightarrow> u32) \<Rightarrow> nat \<Rightarrow> u32 \<Rightarrow> u32 list \<Rightarrow>
    (nat \<times> rat list \<times> fragment_route list) outcome" where
  "route_fragments env RC H N contacts priority size_at index processed_sz [] = Inr (0, [], [])"
| "route_fragments env RC H N contacts priority size_at index processed_sz (pay # pays) =
     (let bundle_size = size_at index pay
      in obind (router_calculate_fragment_route env RC H N \<lparr>route_payload_size = pay, route_probability = 0,
             route_contacts = [], route_preemption_improved = 0\<rparr> bundle_size contacts processed_sz priority [])
         (\<lambda>(ok, r).
       obind (route_fragments env RC H N contacts priority size_at (index + 1) (processed_sz + bundle_size) pays)
         (\<lambda>(n, ps, rs). Inr ((if ok then 1 else 0) + n, route_probability r # ps, r # rs))))"

definition router_get_first_route_frag :: "router_env \<Rightarrow> router_config \<Rightarrow> contact_heap \<Rightarrow> node_heap \<Rightarrow> router_result \<Rightarrow>
    assoc_list \<Rightarrow> bundle_routing_priority \<Rightarrow> u32 \<Rightarrow> u32 \<Rightarrow> u32 \<Rightarrow> u32 \<Rightarrow> u32 \<Rightarrow> router_result outcome" where
  "router_get_first_route_frag env RC H N res contacts priority payload max_frag_sz first_frag_sz mid_frag_sz
     last_frag_sz =
     (if first_frag_sz > max_frag_sz \<or> last_frag_sz > max_frag_sz then Inr res
      else (let (pays, remaining_pay) = plan_fragments ROUTER_MAX_FRAGMENTS (fragment_min_payload RC) max_frag_sz
                  last_frag_sz mid_frag_sz first_frag_sz payload
            in if remaining_pay \<noteq> 0 then Inr (res\<lparr>fragment_results := []\<rparr>)
               else obind (route_fragments env RC H N contacts priority
                   (fragment_size_at (length pays) first_frag_sz mid_frag_sz last_frag_sz) 0 0 pays)
                 (\<lambda>(success, ps, rs).
                   let probability = foldl (\<lambda>q p. rounding env (q * p)) 1 ps;
                       improved = sum_list (map route_preemption_improved rs)
                   in Inr (if success \<noteq> length rs
                      then res\<lparr>fragment_results := [], result_probability := 0,
                             result_preemption_improved := improved\<rparr>
                      else res\<lparr>fragment_results := rs, result_probability := probability,
                             result_preemption_improved := improved\<rparr>))))"

definition router_get_first_route_nonfrag :: "router_env \<Rightarrow> router_config \<Rightarrow> contact_heap \<Rightarrow> node_heap \<Rightarrow>
    router_result \<Rightarrow> assoc_list \<Rightarrow> bundle_routing_priority \<Rightarrow> u32 \<Rightarrow> u32 \<Rightarrow> router_result outcome" where
  "router_get_first_route_nonfrag env RC H N res contacts priority payload bundle_size =
     obind (router_calculate_fragment_route env RC H N \<lparr>route_payload_size = payload, route_probability = 0,
         route_contacts = [], route_preemption_improved = 0\<rparr> bundle_size contacts 0 priority [])
       (\<lambda>(ok, r). Inr (if ok
          then res\<lparr>fragment_results := [r], result_probability := route_probability r,
                 result_preemption_improved := route_preemption_improved r\<rparr>
          else res))"

text \<open>The member \<open>preemption_improved\<close> of the result is not initialized; it comes from \<open>junk\<close>.\<close>

definition router_get_first_route :: "router_env \<Rightarrow> router_config \<Rightarrow> u8 \<Rightarrow> alloc_trace \<Rightarrow> contact_heap \<Rightarrow> node_heap \<Rightarrow>
    bundle_t \<Rightarrow> (router_result \<times> bundle_t \<times> alloc_trace) outcome" where
  "router_get_first_route env RC junk m H N b = (case destination b of
       None \<Rightarrow> Inl Null_Deref
     | Some dest \<Rightarrow>
       (let res = \<lparr>result_probability = 0, fragment_results = [], result_preemption_improved = junk\<rparr>;
            priority = bundle_get_routing_priority b in
        obind (router_lookup_destination env m H dest) (\<lambda>(contacts, m1).
        if contacts = [] then Inr (res, b, m1)
        else obind (bundle_get_serialized_size m1 b) (\<lambda>(bsize, b1, m2).
        obind (bundle_get_first_fragment_min_size m2 b1) (\<lambda>(first_min, b2, m3).
        obind (bundle_get_last_fragment_min_size m3 b2) (\<lambda>(last_min, b3, m4).
        obind (deref_payload b3) (\<lambda>pl.
        let bundle_size = ucast bsize; first_sz = ucast first_min; last_sz = ucast last_min in
        obind (router_get_max_reasonable_fragment_size env RC H N contacts bundle_size (max first_sz last_sz)
            (blk_length pl) priority) (\<lambda>(max_fragment_size, payload_capacity).
        if max_fragment_size = 0 then Inr (res, b3, m4)
        else if bundle_must_not_fragment b3 \<or> bundle_size \<le> max_fragment_size
        then obind (router_get_first_route_nonfrag env RC H N res contacts priority (blk_length pl) bundle_size) (\<lambda>r.
          Inr (r, b3, m4))
        else obind (bundle_get_mid_fragment_min_size m4 b3) (\<lambda>(mid_min, b4, m5).
          obind (router_get_first_route_frag env RC H N res contacts priority (blk_length pl) max_fragment_size
              first_sz (ucast mid_min) last_sz) (\<lambda>r. Inr (r, b4, m5)))))))))))"

end
