(* ===== verification/Router_Booking.thy ===== *)
theory Router_Booking
  imports Router
begin

text \<open>
  Booking of bundles on contacts, the second half of \<open>components/upcn/router.c\<close>: a routed bundle is entered in the lists of
  all contacts of its route and taken out of them again, and the remaining capacities of the contacts follow. Routed
  bundles are shared between the lists, so they live in a heap, as contacts do.
\<close>

section \<open>Operations\<close>

record booking =
  bk_memory :: alloc_trace
  bk_contacts :: contact_heap
  bk_bundles :: "addr \<Rightarrow> routed_bundle option"

definition deref_routed :: "booking \<Rightarrow> addr \<Rightarrow> routed_bundle outcome" where
  "deref_routed s a = (case bk_bundles s a of None \<Rightarrow> Inl Use_After_Free | Some rb \<Rightarrow> Inr rb)"

text \<open>The capacities of the priorities up to that of the bundle change by its size.\<close>

definition charge :: "routed_bundle \<Rightarrow> contact \<Rightarrow> contact" where
  "charge rb c = c\<lparr>bundle_count := bundle_count c + 1,
     remaining_capacity_p0 := remaining_capacity_p0 c - rb_size rb,
     remaining_capacity_p1 := remaining_capacity_p1 c - (if prio rb \<noteq> BUNDLE_RPRIO_LOW then rb_size rb else 0),
     remaining_capacity_p2 := remaining_capacity_p2 c - (if prio rb = BUNDLE_RPRIO_HIGH then rb_size rb else 0)\<rparr>"

definition refund :: "routed_bundle \<Rightarrow> contact \<Rightarrow> contact" where
  "refund rb c = c\<lparr>bundle_count := bundle_count c - 1,
     remaining_capacity_p0 := remaining_capacity_p0 c + rb_size rb,
     remaining_capacity_p1 := remaining_capacity_p1 c + (if prio rb \<noteq> BUNDLE_RPRIO_LOW then rb_size rb else 0),
     remaining_capacity_p2 := remaining_capacity_p2 c + (if prio rb = BUNDLE_RPRIO_HIGH then rb_size rb else 0)\<rparr>"

definition router_add_bundle_to_contact :: "addr \<Rightarrow> addr \<Rightarrow> booking \<Rightarrow> (upcn_result \<times> booking) outcome" where
  "router_add_bundle_to_contact contact a s =
     obind (deref_contact (bk_contacts s) contact) (\<lambda>c. c_assert (sint (remaining_capacity_p0 c) > 0)
       (case malloc (bk_memory s) of
          (None, m1) \<Rightarrow> Inr (UPCN_FAIL, s\<lparr>bk_memory := m1\<rparr>)
        | (Some _, m1) \<Rightarrow> obind (deref_routed s a) (\<lambda>rb. Inr (UPCN_OK, s\<lparr>bk_memory := m1, bk_contacts :=
            (bk_contacts s)(contact \<mapsto> charge rb (c\<lparr>contact_bundles := contact_bundles c @ [a]\<rparr>))\<rparr>))))"

text \<open>The first entry with an identifier, by its position in the list.\<close>

fun find_routed :: "booking \<Rightarrow> bundleid_t \<Rightarrow> nat \<Rightarrow> addr list \<Rightarrow> (nat \<times> addr \<times> routed_bundle) option outcome" where
  "find_routed s k i [] = Inr None"
| "find_routed s k i (a # as) =
     obind (deref_routed s a) (\<lambda>rb. if rb_id rb = k then Inr (Some (i, a, rb)) else find_routed s k (i + 1) as)"

definition router_remove_bundle_from_contact :: "addr \<Rightarrow> bundleid_t \<Rightarrow> booking \<Rightarrow> (addr option \<times> booking) outcome" where
  "router_remove_bundle_from_contact contact k s =
     obind (deref_contact (bk_contacts s) contact) (\<lambda>c.
     obind (find_routed s k 0 (contact_bundles c)) (\<lambda>hit. case hit of
         None \<Rightarrow> Inr (None, s)
       | Some (i, a, rb) \<Rightarrow> Inr (Some a, s\<lparr>bk_contacts := (bk_contacts s)(contact \<mapsto>
           refund rb (c\<lparr>contact_bundles := take i (contact_bundles c) @ drop (i + 1) (contact_bundles c)\<rparr>))\<rparr>)))"

text \<open>Booking on the contacts of a route, with those for which it worked.\<close>

fun add_to_contacts :: "addr list \<Rightarrow> addr \<Rightarrow> booking \<Rightarrow> (addr list \<times> booking) outcome" where
  "add_to_contacts [] a s = Inr ([], s)"
| "add_to_contacts (c # cs) a s =
     obind (router_add_bundle_to_contact c a s) (\<lambda>(r, s1).
     obind (add_to_contacts cs a s1) (\<lambda>(added, s2).
       Inr (if r = UPCN_OK then c # added else added, s2)))"

definition put_routed :: "addr \<Rightarrow> routed_bundle \<Rightarrow> booking \<Rightarrow> booking" where
  "put_routed a rb s = s\<lparr>bk_bundles := (bk_bundles s)(a \<mapsto> rb)\<rparr>"

definition router_update_routed_bundle :: "fragment_route \<Rightarrow> addr \<Rightarrow> booking \<Rightarrow> (bool \<times> booking) outcome" where
  "router_update_routed_bundle r a s = c_assert (route_contacts r \<noteq> [])
     (obind (deref_routed s a) (\<lambda>rb.
      let n = length (route_contacts r);
          rb1 = rb\<lparr>preemption_improvement := route_preemption_improved r, contact_count := of_nat n\<rparr>
      in case malloc (bk_memory s) of
          (None, m1) \<Rightarrow> Inr (False, put_routed a (rb1\<lparr>rb_contacts := []\<rparr>) (s\<lparr>bk_memory := m1\<rparr>))
        | (Some _, m1) \<Rightarrow>
            obind (add_to_contacts (route_contacts r) a
                (put_routed a (rb1\<lparr>transmitted := 0, serialized := 0\<rparr>) (s\<lparr>bk_memory := m1\<rparr>))) (\<lambda>(added, s1).
            obind (deref_routed s1 a) (\<lambda>rb2.
              let s2 = put_routed a (rb2\<lparr>rb_contacts := added\<rparr>) s1 in
              if length added = n then Inr (True, s2)
              else if added = [] then Inr (False, s2)
              else Inr (True, put_routed a (rb2\<lparr>rb_contacts := added, contact_count := of_nat (length added)\<rparr>) s1)))))"

definition free_routed :: "addr \<Rightarrow> booking \<Rightarrow> booking" where
  "free_routed a s = s\<lparr>bk_bundles := (bk_bundles s)(a := None)\<rparr>"

definition router_add_bundle_to_route ::
  "u64 \<Rightarrow> fragment_route \<Rightarrow> bundle_t \<Rightarrow> booking \<Rightarrow> (bool \<times> bundle_t \<times> booking) outcome" where
  "router_add_bundle_to_route now r b s = (case malloc (bk_memory s) of
       (None, m1) \<Rightarrow> Inr (False, b, s\<lparr>bk_memory := m1\<rparr>)
     | (Some a, m1) \<Rightarrow>
         obind (bundle_get_serialized_size m1 b) (\<lambda>(bsize, b1, m2). case destination b1 of
             None \<Rightarrow> Inl Null_Deref
           | Some dest \<Rightarrow> (case malloc m2 of
               (None, m3) \<Rightarrow> Inr (False, b1, s\<lparr>bk_memory := m3\<rparr>)
             | (Some _, m3) \<Rightarrow>
                 (let rb = \<lparr>rb_id = bundle_id b, rb_destination = dest, preemption_improvement = 0,
                        prio = bundle_get_routing_priority b, rb_size = ucast bsize,
                        exp_time = bundle_get_expiration_time now b1, rb_contacts = [], contact_count = 0,
                        serialized = 0, transmitted = 0\<rparr>
                  in obind (router_update_routed_bundle r a (put_routed a rb (s\<lparr>bk_memory := m3\<rparr>))) (\<lambda>(success, s1).
                     Inr (if success then (True, b1, s1) else (False, b1, free_routed a s1)))))))"

text \<open>The contacts of a route, with the last routed bundle that was found.\<close>

fun remove_from_contacts :: "addr list \<Rightarrow> bundleid_t \<Rightarrow> addr option \<Rightarrow> booking \<Rightarrow> (addr option \<times> booking) outcome" where
  "remove_from_contacts [] k rb s = Inr (rb, s)"
| "remove_from_contacts (c # cs) k rb s =
     obind (router_remove_bundle_from_contact c k s) (\<lambda>(tmp, s1).
       remove_from_contacts cs k (if tmp \<noteq> None then tmp else rb) s1)"

definition router_remove_bundle_from_route :: "fragment_route \<Rightarrow> bundleid_t \<Rightarrow> bool \<Rightarrow> booking \<Rightarrow> booking outcome" where
  "router_remove_bundle_from_route r k free_rb s =
     obind (remove_from_contacts (route_contacts r) k None s) (\<lambda>(rb, s1). Inr (case rb of
         Some a \<Rightarrow> if free_rb then free_routed a s1 else s1
       | None \<Rightarrow> s1))"

section \<open>Booking and taking back\<close>

text \<open>The contact heap after a routed bundle has been booked on some contacts.\<close>

definition booked :: "addr \<Rightarrow> routed_bundle \<Rightarrow> addr set \<Rightarrow> contact_heap \<Rightarrow> contact_heap" where
  "booked a rb X H = (\<lambda>c. if c \<in> X
     then map_option (\<lambda>ct. charge rb (ct\<lparr>contact_bundles := contact_bundles ct @ [a]\<rparr>)) (H c) else H c)"

lemma booked_empty [simp]: "booked a rb {} H = H"
  by (simp add: booked_def)

lemma add_to_contact_result:
  assumes "router_add_bundle_to_contact c a s = Inr (r, s1)" and "bk_bundles s a = Some rb"
  shows "bk_bundles s1 = bk_bundles s \<and>
    bk_contacts s1 = booked a rb (if r = UPCN_OK then {c} else {}) (bk_contacts s)"
  using assms
  by (auto simp: router_add_bundle_to_contact_def obind_eq_Inr c_assert_eq_Inr deref_contact_def deref_routed_def
      booked_def fun_eq_iff split: option.splits prod.splits)

lemma add_to_contacts_result:
  assumes "add_to_contacts cs a s = Inr (added, s1)" and "bk_bundles s a = Some rb" and "distinct cs"
  shows "bk_bundles s1 = bk_bundles s \<and> set added \<subseteq> set cs \<and>
    bk_contacts s1 = booked a rb (set added) (bk_contacts s)"
  using assms
proof (induction cs arbitrary: s added)
  case (Cons c cs)
  obtain r s0 rest where r: "router_add_bundle_to_contact c a s = Inr (r, s0)"
    "add_to_contacts cs a s0 = Inr (rest, s1)" "added = (if r = UPCN_OK then c # rest else rest)"
    using Cons.prems(1) by (auto simp: obind_eq_Inr)
  note one = add_to_contact_result [OF r(1) Cons.prems(2)]
  have "bk_bundles s1 = bk_bundles s0 \<and> set rest \<subseteq> set cs \<and> bk_contacts s1 = booked a rb (set rest) (bk_contacts s0)"
    using Cons.IH [OF r(2)] one Cons.prems(2,3) by simp
  moreover have "booked a rb (set rest) (booked a rb {c} H) = booked a rb (insert c (set rest)) H"
    if "c \<notin> set rest" for H
    using that by (auto simp: booked_def fun_eq_iff)
  ultimately show ?case
    using one r(3) Cons.prems(3) by auto
qed simp

text \<open>Bundles that are in memory and have another identifier.\<close>

definition others :: "bundleid_t \<Rightarrow> (addr \<Rightarrow> routed_bundle option) \<Rightarrow> addr list \<Rightarrow> bool" where
  "others k B as \<longleftrightarrow> (\<forall>a \<in> set as. \<exists>rb. B a = Some rb \<and> rb_id rb \<noteq> k)"

lemma find_routed_others:
  "others k (bk_bundles s) as \<Longrightarrow> find_routed s k i (as @ bs) = find_routed s k (i + length as) bs"
  by (induction as arbitrary: i) (auto simp: others_def deref_routed_def)

lemma refund_charge:
  "rb_size rb' = rb_size rb \<Longrightarrow> prio rb' = prio rb \<Longrightarrow>
    refund rb' ((charge rb (c\<lparr>contact_bundles := contact_bundles c @ [a]\<rparr>))\<lparr>contact_bundles := contact_bundles c\<rparr>) = c"
  by (cases c) (simp add: refund_def charge_def)

lemma remove_booked:
  assumes "bk_contacts s = booked a rb X H" and "bk_bundles s a = Some rb'" and "rb_id rb' = k"
    and "rb_size rb' = rb_size rb" and "prio rb' = prio rb"
    and "H c = Some ct" and "others k (bk_bundles s) (contact_bundles ct)"
  shows "router_remove_bundle_from_contact c k s =
    Inr (if c \<in> X then Some a else None, s\<lparr>bk_contacts := booked a rb (X - {c}) H\<rparr>)"
proof (cases "c \<in> X")
  case True
  let ?ct = "charge rb (ct\<lparr>contact_bundles := contact_bundles ct @ [a]\<rparr>)"
  have c: "bk_contacts s c = Some ?ct" using assms(1,6) True by (simp add: booked_def)
  have b: "contact_bundles ?ct = contact_bundles ct @ [a]" by (simp add: charge_def)
  have "find_routed s k 0 (contact_bundles ?ct) = Inr (Some (length (contact_bundles ct), a, rb'))"
    using assms(2,3) by (simp add: b find_routed_others [OF assms(7)] deref_routed_def)
  then have "router_remove_bundle_from_contact c k s = Inr (Some a, s\<lparr>bk_contacts := (bk_contacts s)(c \<mapsto> ct)\<rparr>)"
    using c b refund_charge [OF assms(4,5), of ct a]
    by (simp add: router_remove_bundle_from_contact_def deref_contact_def)
  moreover have "(bk_contacts s)(c \<mapsto> ct) = booked a rb (X - {c}) H"
    using assms(1,6) by (auto simp: booked_def fun_eq_iff)
  ultimately show ?thesis using True by simp
next
  case False
  then have "bk_contacts s c = Some ct" using assms(1,6) by (simp add: booked_def)
  moreover have "find_routed s k 0 (contact_bundles ct) = Inr None"
    using find_routed_others [OF assms(7), of 0 "[]"] by simp
  moreover have "s\<lparr>bk_contacts := booked a rb (X - {c}) H\<rparr> = s" using False assms(1) by (cases s) simp
  ultimately show ?thesis using False by (simp add: router_remove_bundle_from_contact_def deref_contact_def)
qed

lemma remove_all_booked:
  assumes "bk_contacts s = booked a rb X H" and "bk_bundles s a = Some rb'" and "rb_id rb' = k"
    and "rb_size rb' = rb_size rb" and "prio rb' = prio rb"
    and "\<forall>c \<in> set cs. \<exists>ct. H c = Some ct \<and> others k (bk_bundles s) (contact_bundles ct)"
  shows "remove_from_contacts cs k x s =
    Inr (if set cs \<inter> X \<noteq> {} then Some a else x, s\<lparr>bk_contacts := booked a rb (X - set cs) H\<rparr>)"
  using assms
proof (induction cs arbitrary: s X x)
  case Nil
  then show ?case by (cases s) simp
next
  case (Cons c cs)
  obtain ct where ct: "H c = Some ct" "others k (bk_bundles s) (contact_bundles ct)" using Cons.prems(6) by auto
  let ?s = "s\<lparr>bk_contacts := booked a rb (X - {c}) H\<rparr>"
  have "remove_from_contacts cs k y ?s =
      Inr (if set cs \<inter> (X - {c}) \<noteq> {} then Some a else y, ?s\<lparr>bk_contacts := booked a rb (X - {c} - set cs) H\<rparr>)" for y
    using Cons.prems by (intro Cons.IH) auto
  moreover have "X - {c} - set cs = X - set (c # cs)" by auto
  ultimately show ?case
    using remove_booked [OF Cons.prems(1-5) ct] by (auto split: if_splits)
qed

text \<open>Routed bundles that agree in what the booking depends on.\<close>

definition same_booking :: "routed_bundle \<Rightarrow> routed_bundle \<Rightarrow> bool" where
  "same_booking rb rb' \<longleftrightarrow> rb_id rb' = rb_id rb \<and> rb_size rb' = rb_size rb \<and> prio rb' = prio rb"

lemma booked_same: "same_booking rb rb' \<Longrightarrow> booked a rb X H = booked a rb' X H"
  by (auto simp: same_booking_def booked_def charge_def fun_eq_iff)

lemma update_result:
  assumes "router_update_routed_bundle r a s = Inr (ok, s1)" and "bk_bundles s a = Some rb"
    and "distinct (route_contacts r)"
  shows "\<exists>X rb'. X \<subseteq> set (route_contacts r) \<and> same_booking rb rb' \<and> bk_bundles s1 = (bk_bundles s)(a \<mapsto> rb') \<and>
    bk_contacts s1 = booked a rb X (bk_contacts s) \<and> ok = (X \<noteq> {})"
proof -
  let ?n = "length (route_contacts r)"
  let ?rb1 = "rb\<lparr>preemption_improvement := route_preemption_improved r, contact_count := of_nat ?n\<rparr>"
  have ne: "route_contacts r \<noteq> []" using assms(1) by (auto simp: router_update_routed_bundle_def c_assert_eq_Inr)
  show ?thesis
  proof (cases "malloc (bk_memory s)")
    case (Pair x m1)
    show ?thesis
    proof (cases x)
      case None
      have "s1 = put_routed a (?rb1\<lparr>rb_contacts := []\<rparr>) (s\<lparr>bk_memory := m1\<rparr>)" "\<not> ok"
        using assms(1,2) ne Pair None by (simp_all add: router_update_routed_bundle_def deref_routed_def Let_def)
      then show ?thesis
        by (intro exI [of _ "{}"] exI [of _ "?rb1\<lparr>rb_contacts := []\<rparr>"]) (simp add: put_routed_def same_booking_def)
    next
      case (Some y)
      let ?rb2 = "?rb1\<lparr>transmitted := 0, serialized := 0\<rparr>"
      let ?s0 = "put_routed a ?rb2 (s\<lparr>bk_memory := m1\<rparr>)"
      obtain added s2 where 2: "add_to_contacts (route_contacts r) a ?s0 = Inr (added, s2)"
        using assms(1,2) ne Pair Some
        by (auto simp: router_update_routed_bundle_def deref_routed_def Let_def obind_eq_Inr c_assert_eq_Inr)
      have s2: "bk_bundles s2 = (bk_bundles s)(a \<mapsto> ?rb2)" "set added \<subseteq> set (route_contacts r)"
        "bk_contacts s2 = booked a ?rb2 (set added) (bk_contacts s)"
        using add_to_contacts_result [OF 2 _ assms(3), of ?rb2] by (simp_all add: put_routed_def)
      have same: "same_booking rb ?rb2" by (simp add: same_booking_def)
      have d: "deref_routed s2 a = Inr ?rb2" using s2(1) by (simp add: deref_routed_def)
      let ?rb3 = "if length added = ?n \<or> added = [] then ?rb2\<lparr>rb_contacts := added\<rparr>
        else ?rb2\<lparr>rb_contacts := added, contact_count := of_nat (length added)\<rparr>"
      have "s1 = put_routed a ?rb3 s2" and ok: "ok = (added \<noteq> [])"
        using assms(1,2) ne Pair Some 2 d
        by (auto simp: router_update_routed_bundle_def deref_routed_def Let_def put_routed_def split: if_splits)
      then show ?thesis
        using s2 ok booked_same [OF same]
        by (intro exI [of _ "set added"] exI [of _ ?rb3]) (simp add: put_routed_def same_booking_def)
    qed
  qed
qed

lemma add_to_route_cases:
  assumes "router_add_bundle_to_route now r b s = Inr (ok, b', s1)"
  obtains (unchanged) "\<not> ok" "bk_contacts s1 = bk_contacts s" "bk_bundles s1 = bk_bundles s"
  | (booked) a rb bsize m m' m1 s0 where "malloc (bk_memory s) = (Some a, m')" "rb_id rb = bundle_id b"
    "prio rb = bundle_get_routing_priority b"
    "bundle_get_serialized_size m' b = Inr (bsize, b', m1)" "rb_size rb = ucast bsize"
    "router_update_routed_bundle r a (put_routed a rb (s\<lparr>bk_memory := m\<rparr>)) = Inr (ok, s0)"
    "s1 = (if ok then s0 else free_routed a s0)"
proof (cases "malloc (bk_memory s)")
  case (Pair x m1)
  show thesis
  proof (cases x)
    case None
    then show thesis using assms Pair unchanged by (simp add: router_add_bundle_to_route_def) auto
  next
    case (Some a)
    obtain bsize b1 m2 where g: "bundle_get_serialized_size m1 b = Inr (bsize, b1, m2)"
      using assms Pair Some by (auto simp: router_add_bundle_to_route_def obind_eq_Inr)
    obtain dest where dest: "destination b1 = Some dest"
      using assms Pair Some g by (cases "destination b1") (simp_all add: router_add_bundle_to_route_def)
    obtain y m3 where m3: "malloc m2 = (y, m3)" by fastforce
    show thesis
    proof (cases y)
      case None
      then show thesis
        using assms Pair Some g dest m3 unchanged by (simp add: router_add_bundle_to_route_def) auto
    next
      case (Some z)
      define rb where "rb = \<lparr>rb_id = bundle_id b, rb_destination = dest, preemption_improvement = 0,
        prio = bundle_get_routing_priority b, rb_size = ucast bsize,
        exp_time = bundle_get_expiration_time now b1, rb_contacts = [], contact_count = 0,
        serialized = 0, transmitted = 0\<rparr>"
      have run: "obind (router_update_routed_bundle r a (put_routed a rb (s\<lparr>bk_memory := m3\<rparr>))) (\<lambda>(success, s1).
          Inr (if success then (True, b1, s1) else (False, b1, free_routed a s1))) = Inr (ok, b', s1)"
        using assms Pair \<open>x = Some a\<close> g dest m3 Some
        by (simp add: router_add_bundle_to_route_def rb_def)
      then obtain success s0 where u: "router_update_routed_bundle r a (put_routed a rb (s\<lparr>bk_memory := m3\<rparr>)) =
          Inr (success, s0)" by (auto simp: obind_eq_Inr)
      then have "ok = success" "b' = b1" "s1 = (if ok then s0 else free_routed a s0)" using run by (auto split: if_splits)
      then show thesis
        using booked [of a m1 rb bsize m2 m3 s0] u g Pair \<open>x = Some a\<close> by (simp add: rb_def)
    qed
  qed
qed

section \<open>Properties\<close>

text \<open>
  C8 (roundtrip). For a route over distinct live contacts that do not hold the bundle yet, routing the bundle either fails and
  leaves all contacts and routed bundles as they were, or books it on at least one contact of the route: a new routed
  bundle with the identifier, the routing priority and the serialized size of the bundle (in 32 bits) goes to the end of the list of
  each of these contacts, which loses exactly that size of its capacity for priority 0, for priority 1 unless the
  bundle has the low priority, and for priority 2 if it has the high one; all other contacts are as they were. Taking the
  bundle off the route again restores every contact and releases the routed bundle.
\<close>

theorem booking_undone:
  assumes add: "router_add_bundle_to_route now r b s = Inr (ok, b', s1)"
    and contacts: "distinct (route_contacts r)"
      "\<forall>c \<in> set (route_contacts r). \<exists>ct. bk_contacts s c = Some ct \<and>
        others (bundle_id b) (bk_bundles s) (contact_bundles ct)"
    and fresh: "\<And>a m. malloc (bk_memory s) = (Some a, m) \<Longrightarrow> bk_bundles s a = None"
  shows "if ok
    then (\<exists>a rb X size m. X \<noteq> {} \<and> X \<subseteq> set (route_contacts r) \<and>
        bundle_get_serialized_size (snd (malloc (bk_memory s))) b = Inr (size, b', m) \<and>
        bk_bundles s1 = (bk_bundles s)(a \<mapsto> rb) \<and> rb_id rb = bundle_id b \<and> rb_size rb = ucast size \<and>
        prio rb = bundle_get_routing_priority b \<and>
        (\<forall>c. c \<notin> X \<longrightarrow> bk_contacts s1 c = bk_contacts s c) \<and>
        (\<forall>c \<in> X. \<exists>ct. bk_contacts s c = Some ct \<and> bk_contacts s1 c = Some (ct\<lparr>
          contact_bundles := contact_bundles ct @ [a], bundle_count := bundle_count ct + 1,
          remaining_capacity_p0 := remaining_capacity_p0 ct - ucast size,
          remaining_capacity_p1 := remaining_capacity_p1 ct - (if prio rb = BUNDLE_RPRIO_LOW then 0 else ucast size),
          remaining_capacity_p2 := remaining_capacity_p2 ct - (if prio rb = BUNDLE_RPRIO_HIGH then ucast size else 0)\<rparr>))) \<and>
      (\<exists>s2. router_remove_bundle_from_route r (bundle_id b) True s1 = Inr s2 \<and>
        bk_contacts s2 = bk_contacts s \<and> bk_bundles s2 = bk_bundles s)
    else bk_contacts s1 = bk_contacts s \<and> bk_bundles s1 = bk_bundles s"
proof -
  let ?k = "bundle_id b" and ?cs = "route_contacts r"
  from add show ?thesis
  proof (cases rule: add_to_route_cases)
    case (booked a rb bsize m m' m1 s0)
    have a: "bk_bundles s a = None" by (rule fresh [OF booked(1)])
    let ?s = "put_routed a rb (s\<lparr>bk_memory := m\<rparr>)"
    have "bk_bundles ?s a = Some rb" by (simp add: put_routed_def)
    from update_result [OF booked(6) this contacts(1)] obtain X rb' where X: "X \<subseteq> set ?cs" "same_booking rb rb'"
      "bk_bundles s0 = (bk_bundles s)(a \<mapsto> rb')" "bk_contacts s0 = booked a rb X (bk_contacts s)" "ok = (X \<noteq> {})"
      by (auto simp: put_routed_def)
    show ?thesis
    proof (cases ok)
      case True
      have others: "\<forall>c \<in> set ?cs. \<exists>ct. bk_contacts s c = Some ct \<and> others ?k (bk_bundles s0) (contact_bundles ct)"
        using contacts(2) a X(3) by (fastforce simp: others_def)
      have rb': "bk_bundles s0 a = Some rb'" "rb_id rb' = ?k" "rb_size rb' = rb_size rb" "prio rb' = prio rb"
        using X(2,3) booked(2) by (simp_all add: same_booking_def)
      have ne: "set ?cs \<inter> X \<noteq> {}" and all: "X - set ?cs = {}" using X(1,5) True by auto
      have "remove_from_contacts ?cs ?k None s0 = Inr (Some a, s0\<lparr>bk_contacts := bk_contacts s\<rparr>)"
        using remove_all_booked [OF X(4) rb' others, of None] ne unfolding all by simp
      then have removed: "router_remove_bundle_from_route r ?k True s0 =
          Inr (free_routed a (s0\<lparr>bk_contacts := bk_contacts s\<rparr>))"
        by (simp add: router_remove_bundle_from_route_def)
      have released: "bk_bundles (free_routed a (s0\<lparr>bk_contacts := bk_contacts s\<rparr>)) = bk_bundles s"
        using X(3) a by (simp add: free_routed_def fun_eq_iff)
      moreover have "\<forall>c. c \<notin> X \<longrightarrow> bk_contacts s0 c = bk_contacts s c" using X(4) by (simp add: booked_def)
      moreover have "\<forall>c \<in> X. \<exists>ct. bk_contacts s c = Some ct \<and> bk_contacts s0 c = Some (ct\<lparr>
          contact_bundles := contact_bundles ct @ [a], bundle_count := bundle_count ct + 1,
          remaining_capacity_p0 := remaining_capacity_p0 ct - ucast bsize,
          remaining_capacity_p1 := remaining_capacity_p1 ct - (if prio rb' = BUNDLE_RPRIO_LOW then 0 else ucast bsize),
          remaining_capacity_p2 := remaining_capacity_p2 ct - (if prio rb' = BUNDLE_RPRIO_HIGH then ucast bsize else 0)\<rparr>)"
        using X(1,4) contacts(2) rb'(4) booked(5) by (fastforce simp: booked_def charge_def)
      moreover have "s1 = s0" using True booked(7) by simp
      moreover have "bundle_get_serialized_size (snd (malloc (bk_memory s))) b = Inr (bsize, b', m1)"
        using booked(1,4) by simp
      moreover have "rb_size rb' = ucast bsize" "prio rb' = bundle_get_routing_priority b"
        using rb'(3,4) booked(3,5) by simp_all
      ultimately have "\<exists>a rb X size m. X \<noteq> {} \<and> X \<subseteq> set ?cs \<and>
        bundle_get_serialized_size (snd (malloc (bk_memory s))) b = Inr (size, b', m) \<and>
        bk_bundles s1 = (bk_bundles s)(a \<mapsto> rb) \<and> rb_id rb = ?k \<and> rb_size rb = ucast size \<and>
        prio rb = bundle_get_routing_priority b \<and>
        (\<forall>c. c \<notin> X \<longrightarrow> bk_contacts s1 c = bk_contacts s c) \<and>
        (\<forall>c \<in> X. \<exists>ct. bk_contacts s c = Some ct \<and> bk_contacts s1 c = Some (ct\<lparr>
          contact_bundles := contact_bundles ct @ [a], bundle_count := bundle_count ct + 1,
          remaining_capacity_p0 := remaining_capacity_p0 ct - ucast size,
          remaining_capacity_p1 := remaining_capacity_p1 ct - (if prio rb = BUNDLE_RPRIO_LOW then 0 else ucast size),
          remaining_capacity_p2 := remaining_capacity_p2 ct - (if prio rb = BUNDLE_RPRIO_HIGH then ucast size else 0)\<rparr>))"
        using True X(1,3,5) rb'(2) by blast
      moreover have "\<exists>s2. router_remove_bundle_from_route r ?k True s1 = Inr s2 \<and>
          bk_contacts s2 = bk_contacts s \<and> bk_bundles s2 = bk_bundles s"
        using removed released \<open>s1 = s0\<close> by (simp add: free_routed_def)
      ultimately show ?thesis using True by simp
    next
      case False
      then show ?thesis using X(3-5) a booked(7) by (simp add: free_routed_def fun_eq_iff)
    qed
  qed simp
qed

text \<open>Two contacts with a capacity of 1000 bytes each, and a route over both.\<close>

definition sample_open_contact :: "u64 \<Rightarrow> contact" where
  "sample_open_contact start = (sample_contact start (start + 10) [])\<lparr>total_capacity := 1000,
     remaining_capacity_p0 := 1000, remaining_capacity_p1 := 1000, remaining_capacity_p2 := 1000,
     contact_bundles := []\<rparr>"

definition sample_booking :: booking where
  "sample_booking = \<lparr>bk_memory = mem_ok [200, 201, 202, 203, 204, 205],
     bk_contacts = [1 \<mapsto> sample_open_contact 20, 2 \<mapsto> sample_open_contact 40], bk_bundles = (\<lambda>_. None)\<rparr>"

definition sample_route :: fragment_route where
  "sample_route = \<lparr>route_payload_size = 3, route_probability = 1, route_contacts = [1, 2],
     route_preemption_improved = 0\<rparr>"

theorem booking_undone_witness:
  "\<exists>b' s1 s2. router_add_bundle_to_route 5 sample_route sample_bundle sample_booking = Inr (True, b', s1) \<and>
    router_remove_bundle_from_route sample_route (bundle_id sample_bundle) True s1 = Inr s2 \<and>
    bk_contacts s2 = bk_contacts sample_booking \<and> bk_bundles s2 = bk_bundles sample_booking"
proof -
  let ?r = "router_add_bundle_to_route 5 sample_route sample_bundle sample_booking"
  have "case ?r of Inl e \<Rightarrow> False | Inr (ok, b', s1) \<Rightarrow> ok" by code_simp
  then obtain b' s1 where r: "?r = Inr (True, b', s1)" by (cases ?r) auto
  have "distinct (route_contacts sample_route)" by (simp add: sample_route_def)
  moreover have "\<forall>c \<in> set (route_contacts sample_route). \<exists>ct. bk_contacts sample_booking c = Some ct \<and>
      others (bundle_id sample_bundle) (bk_bundles sample_booking) (contact_bundles ct)"
    by (simp add: sample_route_def sample_booking_def sample_open_contact_def others_def)
  moreover have "bk_bundles sample_booking a = None" for a by (simp add: sample_booking_def)
  ultimately show ?thesis
    using booking_undone [OF r] r by auto
qed

end
