(* ===== verification/Router_Plan.thy ===== *)
theory Router_Plan
  imports Router
begin

text \<open>
  The fragments \<open>router_get_first_route_frag\<close> plans: they cover the payload, all but the last fit in the largest
  fragment, and when the last one does not.
\<close>

text \<open>A size the code keeps in an \<open>int32_t\<close>.\<close>

definition fits_int32 :: "u32 \<Rightarrow> bool" where
  "fits_int32 w \<longleftrightarrow> unat w < 2 ^ 31"

lemma sint_small: "fits_int32 a \<Longrightarrow> sint a = uint a"
proof -
  assume "fits_int32 a"
  moreover have u: "uint a = int (unat a)" by simp
  ultimately have "uint a < 2 ^ 31"
    unfolding u by (metis fits_int32_def of_nat_less_iff of_nat_numeral of_nat_power)
  moreover have "- (2 ^ 31) \<le> uint a" by (rule order_trans [of _ 0]) simp_all
  ultimately show ?thesis by (simp add: sint_uint signed_take_bit_int_eq_self)
qed

lemma sless_small: "fits_int32 a \<Longrightarrow> fits_int32 b \<Longrightarrow> a <s b \<longleftrightarrow> a < b"
  by (simp add: word_sless_alt word_less_def sint_small)

lemma plan_fragments_ok:
  assumes "plan_fragments k mp max_sz last_sz mid_sz next_sz rem = (pays, 0)"
    and "fits_int32 max_sz" and "fits_int32 rem" and "next_sz \<le> max_sz" and "mid_sz \<le> max_sz" and "last_sz \<le> max_sz"
  shows "sum_list (map unat pays) = unat rem \<and> length pays \<le> k \<and>
    (\<forall>i. Suc i < length pays \<longrightarrow> unat (pays ! i) + unat (if i = 0 then next_sz else mid_sz) \<le> unat max_sz) \<and>
    (pays \<noteq> [] \<longrightarrow> unat (last pays) + unat last_sz \<le> unat max_sz \<or>
      unat (last pays) + unat (if length pays = 1 then next_sz else mid_sz) \<le> unat max_sz)"
  using assms
proof (induction k arbitrary: next_sz rem pays)
  case 0
  then show ?case by simp
next
  case (Suc k)
  let ?max_pay = "max_sz - next_sz"
  have mp: "unat ?max_pay = unat max_sz - unat next_sz" "fits_int32 ?max_pay"
    using Suc.prems(2,4) by (simp_all add: unat_sub fits_int32_def)
  have lst: "unat (max_sz - last_sz) = unat max_sz - unat last_sz"
    using Suc.prems(6) by (simp add: unat_sub)
  consider (all) "rem = 0" "pays = []" | (one) "rem \<noteq> 0" "rem \<le> max_sz - last_sz" "pays = [rem]"
    | (more) pay ps where "rem \<noteq> 0" "pay = (if ?max_pay < rem then ?max_pay else rem)" "pays = pay # ps"
      "plan_fragments k mp max_sz last_sz mid_sz mid_sz (rem - pay) = (ps, 0)"
    using Suc.prems(1) sless_small [OF mp(2) Suc.prems(3)]
    by (auto simp: Let_def split: if_splits prod.splits)
  then show ?case
  proof cases
    case one
    then show ?thesis
      using lst Suc.prems(6) by (simp add: word_le_nat_alt, linarith)
  next
    case (more pay ps)
    have pay: "unat pay \<le> unat rem" "unat pay \<le> unat max_sz - unat next_sz"
      using more(2) mp(1) by (auto simp: word_less_nat_alt word_le_nat_alt not_less split: if_splits)
    then have r: "unat (rem - pay) = unat rem - unat pay" by (simp add: unat_sub word_le_nat_alt)
    have fit: "unat pay + unat next_sz \<le> unat max_sz"
      using pay(2) Suc.prems(4) by (simp add: word_le_nat_alt)
    have "fits_int32 (rem - pay)" using Suc.prems(3) r by (simp add: fits_int32_def)
    note IH = Suc.IH [OF more(4) Suc.prems(2) this Suc.prems(5,5,6)]
    have "unat (pays ! i) + unat (if i = 0 then next_sz else mid_sz) \<le> unat max_sz" if "Suc i < length pays" for i
    proof (cases i)
      case (Suc j)
      then have "unat (ps ! j) + unat (if j = 0 then mid_sz else mid_sz) \<le> unat max_sz"
        using IH that more(3) by simp
      then show ?thesis using Suc more(3) by simp
    qed (use fit more(3) in simp)
    moreover have "sum_list (map unat pays) = unat rem" "length pays \<le> Suc k"
      using IH more(3) r pay(1) by simp_all
    ultimately show ?thesis using IH fit more(3) by (cases ps) auto
  qed simp
qed

section \<open>Properties\<close>

text \<open>
  C14 (functional). When the planning of fragments succeeds, the fragments are at most ten and carry the whole payload, and
  with their headers all but the last are at most as large as the largest fragment. So is the last one when the header
  of a last fragment is not larger than that of a middle one, nor smaller than that of the first one where there is
  only one; in the two examples the condition fails, and a planned fragment is larger than allowed.
\<close>

theorem fragment_plan_correct:
  assumes plan: "plan_fragments ROUTER_MAX_FRAGMENTS mp max_sz last_sz mid_sz first_sz payload = (pays, 0)"
    and small: "fits_int32 max_sz" "fits_int32 payload" "first_sz \<le> max_sz" "mid_sz \<le> max_sz" "last_sz \<le> max_sz"
  defines "n \<equiv> length pays"
  shows "n \<le> 10 \<and> sum_list (map unat pays) = unat payload \<and>
    (\<forall>i. i < n \<and> (Suc i < n \<or> last_sz \<le> mid_sz \<and> (n = 1 \<longrightarrow> first_sz \<le> last_sz)) \<longrightarrow>
      fragment_size_at n first_sz mid_sz last_sz i (pays ! i) \<le> max_sz) \<and>
    plan_fragments ROUTER_MAX_FRAGMENTS 8 120 50 50 100 60 = ([60], 0) \<and>
    fragment_size_at 1 100 50 50 0 60 > 120 \<and>
    plan_fragments ROUTER_MAX_FRAGMENTS 8 100 60 20 20 150 = ([80, 70], 0) \<and>
    fragment_size_at 2 20 20 60 1 70 > 100"
proof -
  note ok = plan_fragments_ok [OF plan small]
  have size: "p + h \<le> max_sz" if "unat p + unat h \<le> unat max_sz" for p h :: u32
  proof -
    have "unat (p + h) = unat p + unat h"
      using that small(1) by (simp add: unat_word_ariths fits_int32_def)
    then show ?thesis using that by (simp add: word_le_nat_alt)
  qed
  have "fragment_size_at n first_sz mid_sz last_sz i (pays ! i) \<le> max_sz"
    if i: "i < n" "Suc i < n \<or> last_sz \<le> mid_sz \<and> (n = 1 \<longrightarrow> first_sz \<le> last_sz)" for i
  proof (cases "Suc i < n")
    case True
    then have "unat (pays ! i) + unat (if i = 0 then first_sz else mid_sz) \<le> unat max_sz"
      using ok by (simp add: n_def)
    then show ?thesis using size True by (auto simp: fragment_size_at_def split: if_splits)
  next
    case False
    then have n: "n = Suc i" and le: "last_sz \<le> mid_sz" "n = 1 \<longrightarrow> first_sz \<le> last_sz" using i by auto
    then have "pays \<noteq> []" by (auto simp: n_def)
    then have last: "last pays = pays ! i" "pays \<noteq> []" using n by (simp_all add: n_def last_conv_nth)
    then have "unat (pays ! i) + unat last_sz \<le> unat max_sz \<or>
        unat (pays ! i) + unat (if n = 1 then first_sz else mid_sz) \<le> unat max_sz"
      using ok by (simp add: n_def)
    then have "unat (pays ! i) + unat (if i = 0 then first_sz else last_sz) \<le> unat max_sz"
      using le n by (auto simp: word_le_nat_alt split: if_splits)
    then show ?thesis using size n by (auto simp: fragment_size_at_def split: if_splits)
  qed
  moreover have "plan_fragments ROUTER_MAX_FRAGMENTS 8 120 50 50 100 60 = ([60], 0)"
    "plan_fragments ROUTER_MAX_FRAGMENTS 8 100 60 20 20 150 = ([80, 70], 0)" by code_simp+
  ultimately show ?thesis
    using ok by (simp add: n_def fragment_size_at_def)
qed

theorem fragment_plan_correct_witness:
  "plan_fragments ROUTER_MAX_FRAGMENTS 8 100 20 20 40 200 = ([60, 80, 60], 0) \<and> sum_list [60 :: nat, 80, 60] = 200 \<and>
    fragment_size_at 3 40 20 20 2 60 \<le> (100 :: u32)"
proof -
  have plan: "plan_fragments ROUTER_MAX_FRAGMENTS 8 100 20 20 40 200 = ([60, 80, 60], 0)" by code_simp
  have "fits_int32 100" "fits_int32 200" "(40::u32) \<le> 100" "(20::u32) \<le> 100" by (simp_all add: fits_int32_def)
  then show ?thesis
    using fragment_plan_correct [OF plan, THEN conjunct2, THEN conjunct2, THEN conjunct1, rule_format, of 2] plan by (simp add: numeral_3_eq_3)
qed

end
