(* ===== verification/Routing_Table.thy ===== *)
theory Routing_Table
  imports Router_Booking Bundle_Processor
begin

text \<open>
  The routing table, \<open>components/upcn/routing_table.c\<close>: the nodes the program knows, the contacts that have been accepted,
  and the table of the endpoints reachable over them. Nodes, contacts and routed bundles are objects of the heaps;
  the hash table \<open>eid_table\<close> is the map it implements, with the three allocations of a new entry.
  A signal is recorded with the queue it is pushed to.
\<close>

section \<open>State\<close>

record node_table_entry =
  ref_count :: u16
  entry_contacts :: assoc_list

datatype signaling_queue = Bp_Queue | Router_Queue | No_Queue

record routing =
  rt_booking :: booking
  rt_nodes :: node_heap
  node_list :: "addr list"
  contact_list :: "addr list"
  eid_table :: "string \<Rightarrow> node_table_entry option"
  eid_table_initialized :: bool
  rt_signals :: "(signaling_queue \<times> bundle_processor_signal) list"

abbreviation (input) "MAX_CONCURRENT_CONTACTS \<equiv> (10 :: nat)"
abbreviation (input) "NODE_FLAG_INTERNET_ACCESS \<equiv> (1 :: u32)"

definition rt_contacts :: "routing \<Rightarrow> contact_heap" where
  "rt_contacts s = bk_contacts (rt_booking s)"

definition rt_memory :: "routing \<Rightarrow> alloc_trace" where
  "rt_memory s = bk_memory (rt_booking s)"

definition with_contacts :: "contact_heap \<Rightarrow> routing \<Rightarrow> routing" where
  "with_contacts H s = s\<lparr>rt_booking := (rt_booking s)\<lparr>bk_contacts := H\<rparr>\<rparr>"

definition with_rt_memory :: "alloc_trace \<Rightarrow> routing \<Rightarrow> routing" where
  "with_rt_memory m s = s\<lparr>rt_booking := (rt_booking s)\<lparr>bk_memory := m\<rparr>\<rparr>"

definition put_contact :: "addr \<Rightarrow> contact \<Rightarrow> routing \<Rightarrow> routing" where
  "put_contact c ct s = with_contacts ((rt_contacts s)(c \<mapsto> ct)) s"

definition put_node :: "addr \<Rightarrow> node_t option \<Rightarrow> routing \<Rightarrow> routing" where
  "put_node a nd s = s\<lparr>rt_nodes := (rt_nodes s)(a := nd)\<rparr>"

definition push_signal :: "signaling_queue \<Rightarrow> bundleid_t \<Rightarrow> bundle_processor_signal_type \<Rightarrow> routing \<Rightarrow> routing" where
  "push_signal q k t s = s\<lparr>rt_signals := rt_signals s @
     map (Pair q) (bundle_processor_inform [] k t BUNDLE_SR_REASON_NO_INFO)\<rparr>"

definition routing_table_init :: "routing \<Rightarrow> upcn_result \<times> routing" where
  "routing_table_init s =
     (if eid_table_initialized s then (UPCN_OK, s)
      else (UPCN_OK, s\<lparr>node_list := [], contact_list := [], eid_table := (\<lambda>_. None), eid_table_initialized := True\<rparr>))"

section \<open>Lookup\<close>

text \<open>The position of the first node with an EID.\<close>

fun node_position :: "node_heap \<Rightarrow> string \<Rightarrow> addr list \<Rightarrow> nat option outcome" where
  "node_position N e [] = Inr None"
| "node_position N e (a # as) =
     obind (deref_node N a) (\<lambda>nd. case node_eid nd of
         None \<Rightarrow> Inl Null_Deref
       | Some e' \<Rightarrow> if e' = e then Inr (Some 0)
           else obind (node_position N e as) (\<lambda>p. Inr (map_option Suc p)))"

definition get_node_entry_ptr_by_eid :: "string option \<Rightarrow> routing \<Rightarrow> nat option outcome" where
  "get_node_entry_ptr_by_eid eid s = (case eid of
       None \<Rightarrow> Inr None
     | Some e \<Rightarrow> node_position (rt_nodes s) e (node_list s))"

definition routing_table_lookup_node :: "string option \<Rightarrow> routing \<Rightarrow> addr option outcome" where
  "routing_table_lookup_node eid s =
     obind (get_node_entry_ptr_by_eid eid s) (\<lambda>p. Inr (map_option (\<lambda>i. node_list s ! i) p))"

definition routing_table_lookup_eid :: "string \<Rightarrow> routing \<Rightarrow> node_table_entry option" where
  "routing_table_lookup_eid e s = eid_table s e"

text \<open>The nodes with Internet access, into an array with room for \<open>room\<close> of them; \<open>stored\<close> have been stored.\<close>

fun hot_nodes :: "node_heap \<Rightarrow> nat \<Rightarrow> u8 \<Rightarrow> u8 \<Rightarrow> addr list \<Rightarrow> addr list outcome" where
  "hot_nodes N room limit stored [] = Inr []"
| "hot_nodes N room limit stored (a # as) =
     obind (deref_node N a) (\<lambda>nd.
       if HAS_FLAG (node_flags nd) NODE_FLAG_INTERNET_ACCESS
       then if room \<le> unat stored then Inl Out_Of_Bounds
            else if stored + 1 = limit then Inr [a]
            else obind (hot_nodes N room limit (stored + 1) as) (\<lambda>r. Inr (a # r))
       else hot_nodes N room limit stored as)"

definition routing_table_lookup_hot_node :: "u8 \<Rightarrow> routing \<Rightarrow> addr list outcome" where
  "routing_table_lookup_hot_node limit s = hot_nodes (rt_nodes s) (unat limit) limit 0 (node_list s)"

section \<open>The table of endpoints\<close>

text \<open>The entry of an EID, created when there is none; creating it takes the entry, the element of the chain and its key.\<close>

definition entry_for :: "string \<Rightarrow> routing \<Rightarrow> (node_table_entry option \<times> routing) outcome" where
  "entry_for e s = (case eid_table s e of
       Some ent \<Rightarrow> Inr (Some ent, s)
     | None \<Rightarrow> (case malloc (rt_memory s) of
           (None, m1) \<Rightarrow> Inr (None, with_rt_memory m1 s)
         | (Some _, m1) \<Rightarrow> (case malloc m1 of
               (None, m2) \<Rightarrow> Inl Null_Deref
             | (Some _, m2) \<Rightarrow> (case malloc m2 of
                   (None, m3) \<Rightarrow> Inl Null_Deref
                 | (Some _, m3) \<Rightarrow> (let ent = \<lparr>ref_count = 0, entry_contacts = []\<rparr>
                     in Inr (Some ent, with_rt_memory m3 (s\<lparr>eid_table := (eid_table s)(e \<mapsto> ent)\<rparr>)))))))"

definition add_contact_to_node_in_htab :: "string option \<Rightarrow> addr \<Rightarrow> rat \<Rightarrow> (routing, bool) handler" where
  "add_contact_to_node_in_htab eid c p s = (case eid of
       None \<Rightarrow> Inl Assert_Failed
     | Some e \<Rightarrow> c_assert (p > 0 \<and> p \<le> 1)
         (obind (entry_for e s) (\<lambda>(found, s1). case found of
             None \<Rightarrow> Inr (False, s1)
           | Some ent \<Rightarrow>
               obind (add_contact_to_ordered_assoc_list (rt_memory s1) (rt_contacts s1) (entry_contacts ent) c p False)
                 (\<lambda>(r, l, m). Inr (r, with_rt_memory m (if r
                    then s1\<lparr>eid_table := (eid_table s1)(e \<mapsto> \<lparr>ref_count = ref_count ent + 1, entry_contacts = l\<rparr>)\<rparr>
                    else s1))))))"

definition remove_contact_from_node_in_htab :: "string option \<Rightarrow> addr \<Rightarrow> (routing, bool) handler" where
  "remove_contact_from_node_in_htab eid c s = (case eid of
       None \<Rightarrow> Inl Assert_Failed
     | Some e \<Rightarrow> (case eid_table s e of
           None \<Rightarrow> Inr (False, s)
         | Some ent \<Rightarrow> (let (r, l) = remove_contact_from_assoc_list (entry_contacts ent) c; n = ref_count ent - 1 in
             if r then Inr (True, s\<lparr>eid_table := (eid_table s)(e :=
                    if n = 0 then None else Some \<lparr>ref_count = n, entry_contacts = l\<rparr>)\<rparr>)
             else Inr (False, s))))"

fun add_to_eids :: "string option list \<Rightarrow> addr \<Rightarrow> (routing, unit) handler" where
  "add_to_eids [] c s = Inr ((), s)"
| "add_to_eids (e # es) c s = obind (add_contact_to_node_in_htab e c 1 s) (\<lambda>(_, s1). add_to_eids es c s1)"

fun remove_from_eids :: "string option list \<Rightarrow> addr \<Rightarrow> (routing, unit) handler" where
  "remove_from_eids [] c s = Inr ((), s)"
| "remove_from_eids (e # es) c s =
     obind (remove_contact_from_node_in_htab e c s) (\<lambda>(_, s1). remove_from_eids es c s1)"

text \<open>The EIDs reachable over a contact, in the order in which they are entered.\<close>

definition eid_names :: "endpoint_list \<Rightarrow> string option list" where
  "eid_names es = map (\<lambda>e. Some (snd e)) es"

definition contact_eids :: "node_t \<Rightarrow> contact \<Rightarrow> string option list" where
  "contact_eids nd ct = node_eid nd # eid_names (endpoints nd) @ eid_names (contact_endpoints ct)"

section \<open>Overlapping contacts\<close>

fun skip_ended :: "contact_heap \<Rightarrow> contact \<Rightarrow> addr list \<Rightarrow> addr list outcome" where
  "skip_ended H ct [] = Inr []"
| "skip_ended H ct (a # as) =
     obind (deref_contact H a) (\<lambda>x. if to_time x < from_time ct then skip_ended H ct as else Inr (a # as))"

fun overlap_loop :: "contact_heap \<Rightarrow> contact \<Rightarrow> u8 \<Rightarrow> addr list \<Rightarrow> bool outcome" where
  "overlap_loop H ct overlaps [] = Inr (MAX_CONCURRENT_CONTACTS \<le> unat overlaps)"
| "overlap_loop H ct overlaps (a # as) =
     obind (deref_contact H a) (\<lambda>x.
       if from_time x \<ge> to_time ct then Inr (MAX_CONCURRENT_CONTACTS \<le> unat overlaps)
       else if to_time x > from_time ct
       then if contact_node x = contact_node ct then Inr True else overlap_loop H ct (overlaps + 1) as
       else overlap_loop H ct overlaps as)"

definition check_for_invalid_overlaps :: "addr \<Rightarrow> routing \<Rightarrow> bool outcome" where
  "check_for_invalid_overlaps c s =
     obind (deref_contact (rt_contacts s) c) (\<lambda>ct.
     obind (skip_ended (rt_contacts s) ct (contact_list s)) (\<lambda>l. overlap_loop (rt_contacts s) ct 0 l))"

section \<open>Rescheduling\<close>

text \<open>
  A round takes the first bundle off its route, and so off the contact when the contact is one of the route. When it is
  not, the bundle stays at the head of the list and no later round removes it: the loop is given one round
  more than there are bundles.
\<close>

fun reschedule_loop :: "nat \<Rightarrow> signaling_queue \<Rightarrow> addr \<Rightarrow> routing \<Rightarrow> routing outcome" where
  "reschedule_loop 0 q c s = Inl No_Return"
| "reschedule_loop (Suc n) q c s =
     obind (deref_contact (rt_contacts s) c) (\<lambda>ct. case contact_bundles ct of
         [] \<Rightarrow> Inr s
       | a # _ \<Rightarrow> obind (deref_routed (rt_booking s) a) (\<lambda>rb. c_assert (unat (contact_count rb) \<le> ROUTER_MAX_CONTACTS)
           (if length (rb_contacts rb) < unat (contact_count rb) then Inl Out_Of_Bounds
            else obind (router_remove_bundle_from_route \<lparr>route_payload_size = rb_size rb, route_probability = 0,
                   route_contacts = take (unat (contact_count rb)) (rb_contacts rb), route_preemption_improved = 0\<rparr>
                   (rb_id rb) True (rt_booking s)) (\<lambda>bk.
              reschedule_loop n q c (push_signal q (rb_id rb) BP_SIGNAL_RESCHEDULE_BUNDLE (s\<lparr>rt_booking := bk\<rparr>))))))"

definition reschedule_bundles :: "signaling_queue \<Rightarrow> addr \<Rightarrow> routing \<Rightarrow> routing outcome" where
  "reschedule_bundles q c s =
     obind (deref_contact (rt_contacts s) c) (\<lambda>ct. reschedule_loop (Suc (length (contact_bundles ct))) q c s)"

section \<open>Registration of the contacts of a node\<close>

definition register_contact :: "node_t \<Rightarrow> addr \<Rightarrow> routing \<Rightarrow> routing outcome" where
  "register_contact nd c s =
     obind (check_for_invalid_overlaps c s) (\<lambda>invalid.
       if invalid then Inr s
       else obind (deref_contact (rt_contacts s) c) (\<lambda>ct.
            obind (add_to_eids (contact_eids nd ct) c s) (\<lambda>(_, s1).
            obind (add_contact_to_ordered_list (rt_memory s1) (rt_contacts s1) (contact_list s1) c True) (\<lambda>(_, l, m).
              Inr (put_contact c (recalculate_contact_capacity ct) (with_rt_memory m (s1\<lparr>contact_list := l\<rparr>)))))))"

fun register_contacts :: "node_t \<Rightarrow> addr list \<Rightarrow> routing \<Rightarrow> routing outcome" where
  "register_contacts nd [] s = Inr s"
| "register_contacts nd (c # cs) s = obind (register_contact nd c s) (register_contacts nd cs)"

definition add_node_to_tables :: "addr \<Rightarrow> routing \<Rightarrow> routing outcome" where
  "add_node_to_tables a s = c_assert (a \<noteq> 0)
     (obind (deref_node (rt_nodes s) a) (\<lambda>nd. register_contacts nd (node_contacts nd) s))"

text \<open>Taking a contact out of the tables; the result tells whether it stays in the list of the node.\<close>

definition withdraw_contact :: "signaling_queue \<Rightarrow> bool \<Rightarrow> node_t \<Rightarrow> addr \<Rightarrow> (routing, bool) handler" where
  "withdraw_contact q drop_contacts nd c s =
     obind (deref_contact (rt_contacts s) c) (\<lambda>ct.
     obind (remove_from_eids (contact_eids nd ct) c s) (\<lambda>(_, s1).
       let s2 = s1\<lparr>contact_list := snd (remove_contact_from_list (contact_list s1) c)\<rparr> in
       if \<not> drop_contacts then Inr (True, s2)
       else obind (reschedule_bundles q c s2) (\<lambda>s3.
            obind (deref_contact (rt_contacts s3) c) (\<lambda>ct3.
              if active ct3 then Inr (False, put_contact c (ct3\<lparr>contact_node := 0\<rparr>) s3) else Inr (True, s3)))))"

fun withdraw_contacts :: "signaling_queue \<Rightarrow> bool \<Rightarrow> node_t \<Rightarrow> addr list \<Rightarrow> (routing, addr list) handler" where
  "withdraw_contacts q drop_contacts nd [] s = Inr ([], s)"
| "withdraw_contacts q drop_contacts nd (c # cs) s =
     obind (withdraw_contact q drop_contacts nd c s) (\<lambda>(keep, s1).
     obind (withdraw_contacts q drop_contacts nd cs s1) (\<lambda>(r, s2). Inr (if keep then c # r else r, s2)))"

definition remove_node_from_tables :: "signaling_queue \<Rightarrow> bool \<Rightarrow> addr \<Rightarrow> routing \<Rightarrow> routing outcome" where
  "remove_node_from_tables q drop_contacts a s = c_assert (a \<noteq> 0)
     (obind (deref_node (rt_nodes s) a) (\<lambda>nd.
      obind (withdraw_contacts q drop_contacts nd (node_contacts nd) s) (\<lambda>(cs, s1).
        Inr (put_node a (Some (nd\<lparr>node_contacts := cs\<rparr>)) s1))))"

section \<open>Nodes\<close>

definition release_node :: "addr \<Rightarrow> routing \<Rightarrow> routing outcome" where
  "release_node a s =
     obind (deref_node (rt_nodes s) a) (\<lambda>nd.
     obind (free_node (rt_contacts s) nd) (\<lambda>H. Inr (put_node a None (with_contacts H s))))"

definition add_new_node :: "addr \<Rightarrow> (routing, upcn_result) handler" where
  "add_new_node a s =
     obind (deref_node (rt_nodes s) a) (\<lambda>nd. c_assert (node_eid nd \<noteq> None \<and> cla_addr nd \<noteq> None)
       (case malloc (rt_memory s) of
          (None, m1) \<Rightarrow> obind (release_node a (with_rt_memory m1 s)) (\<lambda>s1. Inr (UPCN_FAIL, s1))
        | (Some _, m1) \<Rightarrow>
            obind (add_node_to_tables a (with_rt_memory m1 (s\<lparr>node_list := a # node_list s\<rparr>))) (\<lambda>s1. Inr (UPCN_OK, s1))))"

fun assign_node :: "addr \<Rightarrow> addr list \<Rightarrow> routing \<Rightarrow> routing outcome" where
  "assign_node a [] s = Inr s"
| "assign_node a (c # cs) s =
     obind (deref_contact (rt_contacts s) c) (\<lambda>ct. assign_node a cs (put_contact c (ct\<lparr>contact_node := a\<rparr>) s))"

text \<open>Contacts whose capacity has changed: where it is exceeded now, all bundles are scheduled again.\<close>

fun reschedule_exceeded :: "signaling_queue \<Rightarrow> addr list \<Rightarrow> routing \<Rightarrow> routing outcome" where
  "reschedule_exceeded q [] s = Inr s"
| "reschedule_exceeded q (c # cs) s =
     obind (deref_contact (rt_contacts s) c) (\<lambda>ct.
     obind (if sint (remaining_capacity_p0 ct) < 0 then reschedule_bundles q c s else Inr s)
       (reschedule_exceeded q cs))"

definition list_state_of :: "routing \<Rightarrow> contact_list option \<Rightarrow> list_state" where
  "list_state_of s del = \<lparr>contacts_of = rt_contacts s, memory = rt_memory s, modified = Some [], deleted = del\<rparr>"

definition with_list_state :: "list_state \<Rightarrow> routing \<Rightarrow> routing" where
  "with_list_state S s = with_rt_memory (memory S) (with_contacts (contacts_of S) s)"

definition the_modified :: "contact_list option \<Rightarrow> contact_list" where
  "the_modified l = (case l of None \<Rightarrow> [] | Some cs \<Rightarrow> cs)"

definition routing_table_add_node :: "signaling_queue \<Rightarrow> addr \<Rightarrow> routing \<Rightarrow> routing outcome" where
  "routing_table_add_node q a s = c_assert (a \<noteq> 0)
     (obind (deref_node (rt_nodes s) a) (\<lambda>new.
      obind (get_node_entry_ptr_by_eid (node_eid new) s) (\<lambda>p. case p of
          None \<Rightarrow> obind (add_new_node a s) (\<lambda>(_, s1). Inr s1)
        | Some i \<Rightarrow> (let cur = node_list s ! i in
            obind (deref_node (rt_nodes s) cur) (\<lambda>nd. case cla_addr new of
                None \<Rightarrow> Inl Null_Deref
              | Some cla \<Rightarrow>
                  (let (eps, m) = endpoint_list_union (rt_memory s) (endpoints nd) (endpoints new);
                       nd1 = nd\<lparr>cla_addr := (if cla \<noteq> [] then Some cla else cla_addr nd), endpoints := eps\<rparr>
                   in obind (contact_list_union (node_contacts nd) (node_contacts new)
                          (list_state_of (with_rt_memory m s) None)) (\<lambda>(cs, S).
                      obind (assign_node cur cs (put_node cur (Some (nd1\<lparr>node_contacts := cs\<rparr>)) (with_list_state S s)))
                        (\<lambda>s1.
                      obind (reschedule_exceeded q (the_modified (modified S)) s1) (\<lambda>s2.
                      obind (add_node_to_tables cur s2) (\<lambda>s3. Inr (put_node a None s3)))))))))))"

definition routing_table_replace_node :: "signaling_queue \<Rightarrow> addr \<Rightarrow> routing \<Rightarrow> routing outcome" where
  "routing_table_replace_node q a s = c_assert (a \<noteq> 0)
     (obind (deref_node (rt_nodes s) a) (\<lambda>new.
      obind (get_node_entry_ptr_by_eid (node_eid new) s) (\<lambda>p. case p of
          None \<Rightarrow> obind (add_new_node a s) (\<lambda>(_, s1). Inr s1)
        | Some i \<Rightarrow> (let cur = node_list s ! i in
            obind (remove_node_from_tables q True cur s) (\<lambda>s1.
            obind (release_node cur s1) (\<lambda>s2. add_node_to_tables a (s2\<lparr>node_list := (node_list s2)[i := a]\<rparr>)))))))"

text \<open>The removal of the node at a position of the list.\<close>

definition delete_node_at :: "signaling_queue \<Rightarrow> nat \<Rightarrow> routing \<Rightarrow> routing outcome" where
  "delete_node_at q i s =
     (let cur = node_list s ! i in
      obind (remove_node_from_tables q True cur (s\<lparr>node_list := take i (node_list s) @ drop (Suc i) (node_list s)\<rparr>))
        (release_node cur))"

definition routing_table_delete_node_by_eid :: "signaling_queue \<Rightarrow> string option \<Rightarrow> (routing, bool) handler" where
  "routing_table_delete_node_by_eid q eid s = c_assert (eid \<noteq> None)
     (obind (get_node_entry_ptr_by_eid eid s) (\<lambda>p. case p of
         None \<Rightarrow> Inr (False, s)
       | Some i \<Rightarrow> obind (delete_node_at q i s) (\<lambda>s1. Inr (True, s1))))"

fun reschedule_all :: "signaling_queue \<Rightarrow> addr list \<Rightarrow> routing \<Rightarrow> routing outcome" where
  "reschedule_all q [] s = Inr s"
| "reschedule_all q (c # cs) s = obind (reschedule_bundles q c s) (reschedule_all q cs)"

text \<open>Deleted contacts are released unless the contact manager still uses them.\<close>

fun drop_deleted :: "signaling_queue \<Rightarrow> addr list \<Rightarrow> routing \<Rightarrow> routing outcome" where
  "drop_deleted q [] s = Inr s"
| "drop_deleted q (c # cs) s =
     obind (reschedule_bundles q c s) (\<lambda>s1.
     obind (deref_contact (rt_contacts s1) c) (\<lambda>ct.
       if active ct then drop_deleted q cs s1
       else obind (free_contact_internal (rt_contacts s1) c) (\<lambda>H. drop_deleted q cs (with_contacts H s1))))"

definition routing_table_delete_node :: "signaling_queue \<Rightarrow> addr \<Rightarrow> (routing, bool) handler" where
  "routing_table_delete_node q a s = c_assert (a \<noteq> 0)
     (obind (deref_node (rt_nodes s) a) (\<lambda>new.
      obind (get_node_entry_ptr_by_eid (node_eid new) s) (\<lambda>p. case p of
          None \<Rightarrow> obind (release_node a s) (\<lambda>s1. Inr (False, s1))
        | Some i \<Rightarrow>
            if endpoints new = [] \<and> node_contacts new = []
            then obind (delete_node_at q i s) (\<lambda>s1. obind (release_node a s1) (\<lambda>s2. Inr (True, s2)))
            else (let cur = node_list s ! i in
              obind (remove_node_from_tables No_Queue False cur s) (\<lambda>s1.
              obind (deref_node (rt_nodes s1) cur) (\<lambda>nd.
              obind (contact_list_difference (node_contacts nd) (node_contacts new) True (list_state_of s1 (Some [])))
                (\<lambda>(cs, S).
                 let s2 = put_node cur (Some (nd\<lparr>endpoints := endpoint_list_difference (endpoints nd) (endpoints new),
                        node_contacts := cs\<rparr>)) (with_list_state S s1) in
                 obind (reschedule_all q (the_modified (modified S)) s2) (\<lambda>s3.
                 obind (drop_deleted q (the_modified (deleted S)) s3) (\<lambda>s4.
                 obind (add_node_to_tables cur s4) (\<lambda>s5. Inr (True, put_node a None s5)))))))))))"

section \<open>Contacts\<close>

text \<open>A contact that is deleted is taken out of the entries and the list of its node, if it still has one.\<close>

definition leave_node :: "addr \<Rightarrow> contact \<Rightarrow> routing \<Rightarrow> routing outcome" where
  "leave_node c ct s =
     (if contact_node ct = 0 then Inr s
      else obind (deref_node (rt_nodes s) (contact_node ct)) (\<lambda>nd.
           obind (remove_from_eids (node_eid nd # eid_names (endpoints nd)) c s) (\<lambda>(_, s1).
             Inr (put_node (contact_node ct)
               (Some (nd\<lparr>node_contacts := snd (remove_contact_from_list (node_contacts nd) c)\<rparr>)) s1))))"

definition routing_table_delete_contact :: "addr \<Rightarrow> routing \<Rightarrow> routing outcome" where
  "routing_table_delete_contact c s = c_assert (c \<noteq> 0)
     (obind (deref_contact (rt_contacts s) c) (\<lambda>ct. c_assert (contact_bundles ct = [])
       (obind (leave_node c ct s) (\<lambda>s1.
        obind (remove_from_eids (eid_names (contact_endpoints ct)) c s1) (\<lambda>(_, s2).
        obind (free_contact_internal (rt_contacts s2) c) (\<lambda>H.
          Inr (with_contacts H (s2\<lparr>contact_list := snd (remove_contact_from_list (contact_list s2) c)\<rparr>))))))))"

text \<open>The bundles a contact did not send: each is scheduled again and released, the last \<open>as\<close> are left.\<close>

fun pass_bundles :: "signaling_queue \<Rightarrow> addr \<Rightarrow> addr list \<Rightarrow> routing \<Rightarrow> routing outcome" where
  "pass_bundles q c [] s = Inr s"
| "pass_bundles q c (a # as) s =
     obind (deref_routed (rt_booking s) a) (\<lambda>rb.
     obind (deref_contact (rt_contacts s) c) (\<lambda>ct.
       pass_bundles q c as (put_contact c (ct\<lparr>contact_bundles := as\<rparr>)
         (push_signal q (rb_id rb) BP_SIGNAL_RESCHEDULE_BUNDLE (s\<lparr>rt_booking := free_routed a (rt_booking s)\<rparr>)))))"

definition routing_table_contact_passed :: "signaling_queue \<Rightarrow> addr \<Rightarrow> routing \<Rightarrow> routing outcome" where
  "routing_table_contact_passed q c s =
     obind (deref_contact (rt_contacts s) c) (\<lambda>ct.
     obind (if contact_node ct \<noteq> 0 then pass_bundles q c (contact_bundles ct) s else Inr s)
       (routing_table_delete_contact c))"

text \<open>Each deletion takes the first contact off the list.\<close>

fun delete_contacts :: "addr list \<Rightarrow> routing \<Rightarrow> routing outcome" where
  "delete_contacts [] s = Inr s"
| "delete_contacts (c # cs) s = obind (routing_table_delete_contact c s) (delete_contacts cs)"

fun release_nodes :: "addr list \<Rightarrow> routing \<Rightarrow> routing outcome" where
  "release_nodes [] s = Inr s"
| "release_nodes (a # as) s = obind (release_node a s) (release_nodes as)"

definition routing_table_free :: "routing \<Rightarrow> routing outcome" where
  "routing_table_free s =
     obind (delete_contacts (contact_list s) s) (\<lambda>s1.
     obind (release_nodes (node_list s1) s1) (\<lambda>s2. Inr (s2\<lparr>node_list := []\<rparr>)))"

end
