(* ===== verification/Routing_Registration.thy ===== *)
theory Routing_Registration
  imports Routing_Table
begin

text \<open>
  Properties of the registration of contacts: which contacts are refused, and that deleting a node takes out of the
  tables exactly what adding it has put there.
\<close>

section \<open>Overlapping contacts\<close>

definition conflicting :: "contact_heap \<Rightarrow> contact \<Rightarrow> addr \<Rightarrow> bool" where
  "conflicting H ct a = (case H a of
       None \<Rightarrow> False
     | Some x \<Rightarrow> from_time x < to_time ct \<and> from_time ct < to_time x)"

definition same_node :: "contact_heap \<Rightarrow> contact \<Rightarrow> addr \<Rightarrow> bool" where
  "same_node H ct a = (case H a of None \<Rightarrow> False | Some x \<Rightarrow> contact_node x = contact_node ct)"

definition by_start :: "contact_heap \<Rightarrow> addr list \<Rightarrow> bool" where
  "by_start H l \<longleftrightarrow> (\<forall>a \<in> set l. H a \<noteq> None) \<and> sorted_wrt (\<lambda>a b. heap_from H a \<le> heap_from H b) l"

lemma by_start_Cons: "by_start H (a # l) \<Longrightarrow> by_start H l"
  by (simp add: by_start_def)

lemma none_conflicting:
  assumes "by_start H (a # l)" and "H a = Some x" and "to_time ct \<le> from_time x" and "b \<in> set (a # l)"
  shows "\<not> conflicting H ct b"
proof -
  have "heap_from H a \<le> heap_from H b" using assms(1,4) by (auto simp: by_start_def)
  then show ?thesis using assms(2,3) by (auto simp: heap_from_def conflicting_def split: option.splits)
qed

lemma u8_mod: "unat (n :: u8) mod 256 = unat n"
  using unsigned_less [of n, where ?'a = nat] by simp

lemma overlap_loop_exact:
  assumes "by_start H l"
  shows "overlap_loop H ct n l = Inr ((\<exists>a \<in> set l. conflicting H ct a \<and> same_node H ct a) \<or>
    MAX_CONCURRENT_CONTACTS \<le> (unat n + length (filter (conflicting H ct) l)) mod 256)"
  using assms
proof (induction l arbitrary: n)
  case (Cons a l)
  obtain x where x: "H a = Some x" using Cons.prems by (auto simp: by_start_def)
  have n: "(unat (n + 1) + k) mod 256 = Suc (unat n + k) mod 256" for k
    by (simp add: unat_word_ariths mod_simps)
  note IH = Cons.IH [OF by_start_Cons [OF Cons.prems]]
  show ?case
  proof (cases "to_time ct \<le> from_time x")
    case True
    have "\<not> conflicting H ct b" if "b \<in> set (a # l)" for b
      using none_conflicting [OF Cons.prems x True that] .
    then have "filter (conflicting H ct) (a # l) = []" "\<not> (\<exists>b \<in> set (a # l). conflicting H ct b \<and> same_node H ct b)"
      by (auto simp: filter_empty_conv)
    moreover have "unat n mod 256 = unat n" by (rule u8_mod)
    ultimately show ?thesis using True x by (auto simp: deref_contact_def simp del: filter.simps list.set)
  next
    case False
    then show ?thesis
      using x IH [of n] IH [of "n + 1"] n
      by (auto simp: deref_contact_def conflicting_def same_node_def not_le)
  qed
next
  case Nil
  have "unat n mod 256 = unat n" by (rule u8_mod)
  then show ?case by simp
qed

lemma skip_ended_exact:
  assumes "by_start H l"
  shows "\<exists>l'. skip_ended H ct l = Inr l' \<and> by_start H l' \<and>
    filter (conflicting H ct) l' = filter (conflicting H ct) l"
  using assms
proof (induction l)
  case (Cons a l)
  obtain x where x: "H a = Some x" using Cons.prems by (auto simp: by_start_def)
  show ?case
  proof (cases "to_time x < from_time ct")
    case True
    then have "\<not> conflicting H ct a" using x by (auto simp: conflicting_def dest: less_asym)
    then show ?thesis using Cons.IH [OF by_start_Cons [OF Cons.prems]] x True by (auto simp: deref_contact_def)
  next
    case False
    then show ?thesis using x Cons.prems by (simp add: deref_contact_def)
  qed
qed (simp add: by_start_def)

text \<open>The contacts that rule out another one; those of other nodes are counted in eight bits.\<close>

definition invalid_overlap :: "routing \<Rightarrow> contact \<Rightarrow> bool" where
  "invalid_overlap s ct \<longleftrightarrow>
     (\<exists>a \<in> set (contact_list s). conflicting (rt_contacts s) ct a \<and> same_node (rt_contacts s) ct a) \<or>
     MAX_CONCURRENT_CONTACTS \<le> length (filter (conflicting (rt_contacts s) ct) (contact_list s)) mod 256"

lemma check_exact:
  assumes "by_start (rt_contacts s) (contact_list s)" and "rt_contacts s c = Some ct"
  shows "check_for_invalid_overlaps c s = Inr (invalid_overlap s ct)"
proof -
  let ?H = "rt_contacts s"
  obtain l where l: "skip_ended ?H ct (contact_list s) = Inr l" "by_start ?H l"
    "filter (conflicting ?H ct) l = filter (conflicting ?H ct) (contact_list s)"
    using skip_ended_exact [OF assms(1)] by blast
  have "{a \<in> set l. conflicting ?H ct a} = {a \<in> set (contact_list s). conflicting ?H ct a}"
    using arg_cong [OF l(3), of set] by simp
  then have "(\<exists>a \<in> set l. conflicting ?H ct a \<and> same_node ?H ct a) \<longleftrightarrow>
      (\<exists>a \<in> set (contact_list s). conflicting ?H ct a \<and> same_node ?H ct a)" by blast
  then show ?thesis
    using overlap_loop_exact [OF l(2), of ct 0] l assms
    by (simp add: check_for_invalid_overlaps_def deref_contact_def invalid_overlap_def)
qed

lemma registered_conflicts:
  assumes "c \<in> set (contact_list s)" and "rt_contacts s c = Some ct" and "from_time ct < to_time ct"
  shows "invalid_overlap s ct"
proof -
  have "conflicting (rt_contacts s) ct c \<and> same_node (rt_contacts s) ct c"
    using assms(2,3) by (simp add: conflicting_def same_node_def)
  then show ?thesis using assms(1) by (auto simp: invalid_overlap_def)
qed

lemma registered_skipped:
  assumes "by_start (rt_contacts s) (contact_list s)"
    and "\<forall>c \<in> set cs. c \<in> set (contact_list s) \<and>
      (case rt_contacts s c of None \<Rightarrow> False | Some ct \<Rightarrow> from_time ct < to_time ct)"
  shows "register_contacts nd cs s = Inr s"
  using assms(2)
proof (induction cs)
  case (Cons c cs)
  obtain ct where ct: "rt_contacts s c = Some ct" "c \<in> set (contact_list s)" "from_time ct < to_time ct"
    using Cons.prems by (auto split: option.splits)
  have "register_contact nd c s = Inr s"
    using check_exact [OF assms(1) ct(1)] registered_conflicts [OF ct(2,1,3)] by (simp add: register_contact_def)
  then show ?case using Cons by simp
qed simp

section \<open>The table of endpoints\<close>

text \<open>The contacts over which an EID is reached.\<close>

definition reach :: "routing \<Rightarrow> string \<Rightarrow> assoc_list" where
  "reach s e = (case eid_table s e of None \<Rightarrow> [] | Some ent \<Rightarrow> entry_contacts ent)"

text \<open>Every entry counts its contacts, all in memory and none listed twice, in the order in which they end.\<close>

definition table_entry_ok :: "contact_heap \<Rightarrow> node_table_entry \<Rightarrow> bool" where
  "table_entry_ok H ent \<longleftrightarrow> (let cs = map fst (entry_contacts ent) in
     distinct cs \<and> ref_count ent = of_nat (length cs) \<and> list_all (live_at H) cs \<and> sorted (map (heap_to H) cs))"

definition table_ok :: "routing \<Rightarrow> bool" where
  "table_ok s \<longleftrightarrow> (\<forall>e ent. eid_table s e = Some ent \<longrightarrow> table_entry_ok (rt_contacts s) ent)"

text \<open>What an operation on the tables leaves alone, but for the contacts of the second argument.\<close>

definition tables_only :: "addr set \<Rightarrow> routing \<Rightarrow> routing \<Rightarrow> bool" where
  "tables_only X s s1 \<longleftrightarrow> node_list s1 = node_list s \<and> rt_nodes s1 = rt_nodes s \<and> rt_signals s1 = rt_signals s \<and>
     bk_bundles (rt_booking s1) = bk_bundles (rt_booking s) \<and> (\<forall>c. c \<notin> X \<longrightarrow> rt_contacts s1 c = rt_contacts s c) \<and>
     (\<forall>c ct. rt_contacts s c = Some ct \<longrightarrow> (\<exists>ct'. rt_contacts s1 c = Some ct' \<and>
        contact_bundles ct' = contact_bundles ct \<and> active ct' = active ct \<and> contact_endpoints ct' = contact_endpoints ct \<and>
        to_time ct' = to_time ct))"

lemma tables_only_refl [simp]: "tables_only X s s"
  by (simp add: tables_only_def)

lemma tables_only_trans: "tables_only X s s1 \<Longrightarrow> tables_only X s1 s2 \<Longrightarrow> tables_only X s s2"
  unfolding tables_only_def by metis

lemma tables_only_mono: "tables_only X s s1 \<Longrightarrow> X \<subseteq> Y \<Longrightarrow> tables_only Y s s1"
  unfolding tables_only_def by blast

lemma assoc_insert_filter:
  "filter P (take j l @ x # drop j l) = filter P l" if "\<not> P x"
proof -
  have "filter P l = filter P (take j l @ drop j l)" by simp
  then show ?thesis using that by (simp del: append_take_drop_id)
qed

lemma distinct_insert_at: "distinct (map f l) \<Longrightarrow> f x \<notin> f ` set l \<Longrightarrow> distinct (map f (take j l @ x # drop j l))"
proof -
  assume d: "distinct (map f l)" and x: "f x \<notin> f ` set l"
  have "distinct (map f (take j l @ drop j l))" using d by simp
  moreover have "f ` set (take j l) \<union> f ` set (drop j l) = f ` set l" by (metis append_take_drop_id image_Un set_append)
  ultimately show ?thesis using x by (auto simp del: append_take_drop_id)
qed

lemma position_present:
  assumes "list_all (live_at H) l" and "a \<in> set l" and "sorted (map (heap_to H) l)"
  shows "ordered_position H False (heap_to H a) a l = Inr None"
  using assms
proof (induction l)
  case (Cons b l)
  obtain c where c: "H b = Some c" "to_time c = heap_to H b"
    using Cons.prems(1) by (auto simp: live_at_def heap_to_def)
  show ?case
  proof (cases "b = a")
    case False
    then have "a \<in> set l" using Cons.prems(2) by simp
    then have "heap_to H b \<le> heap_to H a" using Cons.prems(3) by simp
    with c False Cons show ?thesis by (auto simp: deref_contact_def contact_key_def)
  qed simp
qed simp

lemma position_absent:
  assumes "list_all (live_at H) l" and "a \<notin> set l" and "sorted (map (heap_to H) l)"
  shows "\<exists>j. ordered_position H False k a l = Inr (Some j) \<and> j \<le> length l \<and>
    (\<forall>x \<in> set (take j l). heap_to H x \<le> k) \<and> (\<forall>x \<in> set (drop j l). k \<le> heap_to H x)"
  using assms
proof (induction l)
  case (Cons b l)
  obtain c where c: "H b = Some c" "to_time c = heap_to H b"
    using Cons.prems(1) by (auto simp: live_at_def heap_to_def)
  show ?case
  proof (cases "heap_to H b > k")
    case True
    with c Cons.prems show ?thesis
      by (intro exI [of _ 0]) (fastforce simp: deref_contact_def contact_key_def)
  next
    case False
    from Cons obtain j where "ordered_position H False k a l = Inr (Some j)" "j \<le> length l"
        "\<forall>x \<in> set (take j l). heap_to H x \<le> k" "\<forall>x \<in> set (drop j l). k \<le> heap_to H x" by auto
    with c False Cons.prems show ?thesis
      by (intro exI [of _ "Suc j"]) (auto simp: deref_contact_def contact_key_def)
  qed
qed simp

lemma add_to_assoc:
  assumes "table_entry_ok H \<lparr>ref_count = n, entry_contacts = l\<rparr>" and "live_at H c" and "0 \<le> p" and "p \<le> 1"
  shows "\<exists>r l' m'. add_contact_to_ordered_assoc_list m H l c p False = Inr (r, l', m') \<and>
    (if r then c \<notin> fst ` set l \<and> (\<exists>j. l' = take j l @ (c, p) # drop j l) \<and>
       table_entry_ok H \<lparr>ref_count = n + 1, entry_contacts = l'\<rparr>
     else l' = l)"
proof -
  obtain ct where ct: "H c = Some ct" "to_time ct = heap_to H c" using assms(2) by (auto simp: live_at_def heap_to_def)
  have ok: "list_all (live_at H) (map fst l)" "sorted (map (heap_to H) (map fst l))" "distinct (map fst l)"
    "n = of_nat (length l)"
    using assms(1) by (simp_all add: table_entry_ok_def Let_def)
  note start = add_contact_to_ordered_assoc_list_def deref_contact_def contact_key_def
  show ?thesis
  proof (cases "c \<in> fst ` set l")
    case True
    then show ?thesis
      using position_present [OF ok(1) _ ok(2), of c] ct assms(3,4) by (intro exI [of _ False]) (simp add: start)
  next
    case False
    obtain j where j: "ordered_position H False (heap_to H c) c (map fst l) = Inr (Some j)" "j \<le> length l"
      "\<forall>x \<in> set (take j (map fst l)). heap_to H x \<le> heap_to H c"
      "\<forall>x \<in> set (drop j (map fst l)). heap_to H c \<le> heap_to H x"
      using position_absent [OF ok(1) _ ok(2), of c "heap_to H c"] False by auto
    let ?l = "take j l @ (c, p) # drop j l"
    have "sorted (map (heap_to H) (take j (map fst l) @ drop j (map fst l)))" using ok(2) by simp
    then have "sorted (map (heap_to H) (map fst ?l))"
      using j(3,4) by (auto simp: sorted_append take_map drop_map simp del: append_take_drop_id)
    moreover have "list_all (live_at H) (map fst (take j l @ drop j l))" using ok(1) by simp
    then have "list_all (live_at H) (map fst ?l)" using assms(2) by (simp del: append_take_drop_id)
    moreover have "distinct (map fst ?l)" using distinct_insert_at [of fst l "(c, p)" j] ok(3) False by simp
    ultimately have "table_entry_ok H \<lparr>ref_count = n + 1, entry_contacts = ?l\<rparr>"
      using ok(4) j(2) by (simp add: table_entry_ok_def)
    then show ?thesis
      using j(1) ct assms(3,4) False by (cases "malloc m") (auto simp: start split: option.splits)
  qed
qed

lemma remove_from_assoc:
  "distinct (map fst l) \<Longrightarrow> remove_contact_from_assoc_list l c = (c \<in> fst ` set l, filter (\<lambda>x. fst x \<noteq> c) l)"
proof (induction l)
  case (Cons x l)
  have "filter (\<lambda>x. fst x \<noteq> fst y) l = l" if "fst y \<notin> fst ` set l" for y :: "addr \<times> rat"
    using that by (auto simp: filter_id_conv image_iff)
  then show ?case using Cons by auto
qed simp

text \<open>Operations on the table of endpoints alone.\<close>

definition eids_only :: "routing \<Rightarrow> routing \<Rightarrow> bool" where
  "eids_only s s1 \<longleftrightarrow> node_list s1 = node_list s \<and> rt_nodes s1 = rt_nodes s \<and> rt_signals s1 = rt_signals s \<and>
     bk_bundles (rt_booking s1) = bk_bundles (rt_booking s) \<and> rt_contacts s1 = rt_contacts s \<and>
     contact_list s1 = contact_list s"

lemma eids_only_refl [simp]: "eids_only s s"
  by (simp add: eids_only_def)

lemma eids_only_trans: "eids_only s s1 \<Longrightarrow> eids_only s1 s2 \<Longrightarrow> eids_only s s2"
  by (simp add: eids_only_def)

lemma eids_only_memory [simp]: "eids_only s (with_rt_memory m s1) \<longleftrightarrow> eids_only s s1"
  by (simp add: eids_only_def with_rt_memory_def rt_contacts_def)

lemma eids_only_table [simp]: "eids_only s (s1\<lparr>eid_table := T\<rparr>) \<longleftrightarrow> eids_only s s1"
  by (simp add: eids_only_def rt_contacts_def)

lemma table_memory [simp]: "eid_table (with_rt_memory m s) = eid_table s" "rt_contacts (with_rt_memory m s) = rt_contacts s"
  "reach (with_rt_memory m s) = reach s" "rt_nodes (with_rt_memory m s) = rt_nodes s" "table_ok (with_rt_memory m s) \<longleftrightarrow> table_ok s"
  by (simp_all add: with_rt_memory_def rt_contacts_def reach_def table_ok_def fun_eq_iff)

lemma contacts_table [simp]: "rt_contacts (s\<lparr>eid_table := T\<rparr>) = rt_contacts s"
    "rt_contacts (s\<lparr>contact_list := l\<rparr>) = rt_contacts s"
  by (simp_all add: rt_contacts_def)

lemma table_ok_update:
  "table_ok s \<Longrightarrow> (\<And>ent. x = Some ent \<Longrightarrow> table_entry_ok (rt_contacts s) ent) \<Longrightarrow> table_ok (s\<lparr>eid_table := (eid_table s)(e := x)\<rparr>)"
  by (auto simp: table_ok_def)

lemma entry_for_ok:
  assumes "entry_for e s = Inr (found, s1)" and "table_ok s"
  shows "eids_only s s1 \<and> reach s1 = reach s \<and> table_ok s1 \<and>
    (case found of None \<Rightarrow> True | Some ent \<Rightarrow> eid_table s1 e = Some ent)"
proof -
  have "table_entry_ok H \<lparr>ref_count = 0, entry_contacts = []\<rparr>" for H by (simp add: table_entry_ok_def)
  then show ?thesis
    using assms table_ok_update [OF assms(2), of "Some \<lparr>ref_count = 0, entry_contacts = []\<rparr>" e]
    by (auto simp: entry_for_def reach_def fun_eq_iff Let_def split: option.splits prod.splits if_splits)
qed

text \<open>What registration may do to the lists of the table.\<close>

definition may_add :: "addr \<Rightarrow> string set \<Rightarrow> (string \<Rightarrow> assoc_list) \<Rightarrow> (string \<Rightarrow> assoc_list) \<Rightarrow> bool" where
  "may_add c E R R' \<longleftrightarrow> (\<forall>e. filter (\<lambda>x. fst x \<noteq> c) (R' e) = filter (\<lambda>x. fst x \<noteq> c) (R e) \<and> (e \<notin> E \<longrightarrow> R' e = R e))"

lemma may_add_refl [simp]: "may_add c E R R"
  by (simp add: may_add_def)

lemma may_add_trans: "may_add c E R R1 \<Longrightarrow> may_add c F R1 R2 \<Longrightarrow> may_add c (E \<union> F) R R2"
  by (simp add: may_add_def)

lemma add_eid_ok:
  assumes "add_contact_to_node_in_htab eid c p s = Inr (r, s1)" and "table_ok s" and "live_at (rt_contacts s) c"
  shows "\<exists>e. eid = Some e \<and> eids_only s s1 \<and> table_ok s1 \<and> may_add c {e} (reach s) (reach s1)"
proof -
  obtain e found s0 where e: "eid = Some e" "0 < p" "p \<le> 1" "entry_for e s = Inr (found, s0)"
    using assms(1) by (auto simp: add_contact_to_node_in_htab_def c_assert_eq_Inr obind_eq_Inr split: option.splits)
  note s0 = entry_for_ok [OF e(4) assms(2)]
  show ?thesis
  proof (cases found)
    case None
    then show ?thesis using assms(1) e s0 by (simp add: add_contact_to_node_in_htab_def)
  next
    case (Some ent)
    then have ent: "eid_table s0 e = Some ent" using s0 by simp
    let ?l = "entry_contacts ent"
    have "rt_contacts s0 = rt_contacts s" using s0 by (simp add: eids_only_def)
    then have "table_entry_ok (rt_contacts s0) \<lparr>ref_count = ref_count ent, entry_contacts = ?l\<rparr>" "live_at (rt_contacts s0) c"
      using s0 ent assms(3) by (simp_all add: table_ok_def table_entry_ok_def)
    from add_to_assoc [OF this, of p "rt_memory s0"] e obtain r' l' m' where
      add: "add_contact_to_ordered_assoc_list (rt_memory s0) (rt_contacts s0) ?l c p False = Inr (r', l', m')"
      "if r' then c \<notin> fst ` set ?l \<and> (\<exists>j. l' = take j ?l @ (c, p) # drop j ?l) \<and>
         table_entry_ok (rt_contacts s0) \<lparr>ref_count = ref_count ent + 1, entry_contacts = l'\<rparr> else l' = ?l" by auto
    have s1: "s1 = with_rt_memory m' (if r' then s0\<lparr>eid_table := (eid_table s0)(e \<mapsto>
        \<lparr>ref_count = ref_count ent + 1, entry_contacts = l'\<rparr>)\<rparr> else s0)"
      using assms(1) e Some add(1) by (auto simp: add_contact_to_node_in_htab_def)
    have "table_ok s1" using s0 add(2) table_ok_update [of s0] by (auto simp: s1 split: if_splits)
    moreover have "eids_only s s1" using s0 by (simp add: s1)
    moreover have "may_add c {e} (reach s0) (reach s1)"
      using add(2) ent assoc_insert_filter [of "\<lambda>x. fst x \<noteq> c" "(c, p)" _ ?l]
      by (auto simp: s1 may_add_def reach_def split: if_splits)
    ultimately show ?thesis using e s0 by simp
  qed
qed

text \<open>
  The endpoints whose entry has no contacts. When an entry is created and the allocation in its list fails, it is one of
  them; nothing removes it later.
\<close>

definition blank :: "routing \<Rightarrow> string set" where
  "blank s = {e. \<exists>ent. eid_table s e = Some ent \<and> entry_contacts ent = []}"

lemma blank_simps [simp]: "blank (with_rt_memory m s) = blank s" "blank (put_contact c ct s) = blank s"
    "blank (s\<lparr>contact_list := l\<rparr>) = blank s" "blank (s\<lparr>node_list := l\<rparr>) = blank s"
  by (simp_all add: blank_def with_rt_memory_def put_contact_def with_contacts_def)

lemma blank_update [simp]:
  "blank (s\<lparr>eid_table := (eid_table s)(e := x)\<rparr>) =
    (case x of None \<Rightarrow> blank s - {e} | Some ent \<Rightarrow> if entry_contacts ent = [] then insert e (blank s) else blank s - {e})"
  by (auto simp: blank_def split: option.splits)

text \<open>The table is given by the contacts over which each EID is reached and the entries without any.\<close>

lemma table_determined:
  assumes "table_ok s" and "table_ok s1" and "reach s1 e = reach s e" and "e \<in> blank s1 \<longleftrightarrow> e \<in> blank s"
  shows "eid_table s1 e = eid_table s e"
proof -
  have entry: "eid_table t e = (if reach t e = [] \<and> e \<notin> blank t then None
      else Some \<lparr>ref_count = of_nat (length (reach t e)), entry_contacts = reach t e\<rparr>)" if "table_ok t" for t
    using that by (cases "eid_table t e") (auto simp: table_ok_def table_entry_ok_def reach_def blank_def Let_def)
  show ?thesis unfolding entry [OF assms(1)] entry [OF assms(2)] using assms(3,4) by simp
qed

lemma blank_entry:
  assumes "table_ok s" and "eid_table s e = Some ent" and "entry_contacts ent = []"
  shows "ent = \<lparr>ref_count = 0, entry_contacts = []\<rparr>"
proof -
  have "table_entry_ok (rt_contacts s) ent" using assms(1,2) by (simp add: table_ok_def)
  then show ?thesis using assms(3) by (cases ent) (simp add: table_entry_ok_def)
qed

text \<open>No allocation has failed between two states of the memory.\<close>

definition served :: "alloc_trace \<Rightarrow> alloc_trace \<Rightarrow> bool" where
  "served m m1 \<longleftrightarrow> None \<notin> set m \<and> m1 \<noteq> []"

lemma served_malloc: "malloc m = (x, m1) \<Longrightarrow> served m m1 \<Longrightarrow> x \<noteq> None"
  by (cases m; cases x) (auto simp: served_def)

lemma malloc_drop: "malloc m = (x, m1) \<Longrightarrow> \<exists>n. m1 = drop n m"
  by (cases m) (auto intro: exI [of _ 1])

definition grown :: "routing \<Rightarrow> routing \<Rightarrow> bool" where
  "grown s s1 \<longleftrightarrow> (\<exists>n. rt_memory s1 = drop n (rt_memory s)) \<and>
     (served (rt_memory s) (rt_memory s1) \<longrightarrow> blank s1 \<subseteq> blank s)"

lemma grown_refl [simp]: "grown s s"
  by (auto simp: grown_def intro: exI [of _ 0])

lemma grown_trans:
  assumes "grown s s0" and "grown s0 s1"
  shows "grown s s1"
proof -
  obtain n k where d: "rt_memory s0 = drop n (rt_memory s)" "rt_memory s1 = drop k (rt_memory s0)"
    using assms by (auto simp: grown_def)
  have "served (rt_memory s) (rt_memory s0)" "served (rt_memory s0) (rt_memory s1)"
    if "served (rt_memory s) (rt_memory s1)"
    using that d by (auto simp: served_def dest: in_set_dropD)
  then show ?thesis using assms d by (auto simp: grown_def drop_drop)
qed

lemma rt_memory_simps [simp]: "rt_memory (with_rt_memory m s) = m" "rt_memory (put_contact c ct s) = rt_memory s"
    "rt_memory (s\<lparr>eid_table := T\<rparr>) = rt_memory s" "rt_memory (s\<lparr>contact_list := l\<rparr>) = rt_memory s"
    "rt_memory (s\<lparr>node_list := l\<rparr>) = rt_memory s"
  by (simp_all add: rt_memory_def with_rt_memory_def put_contact_def with_contacts_def)

lemma entry_for_grown:
  assumes "entry_for e s = Inr (found, s1)"
  shows "(\<exists>n. rt_memory s1 = drop n (rt_memory s)) \<and> blank s1 \<subseteq> insert e (blank s) \<and> (blank s1 \<subseteq> blank s \<or>
    found = Some \<lparr>ref_count = 0, entry_contacts = []\<rparr>)"
proof (cases "eid_table s e")
  case (Some ent)
  then show ?thesis using assms by (auto simp: entry_for_def intro: exI [of _ 0])
next
  case None
  show ?thesis
  proof (cases "fst (malloc (rt_memory s)) = None")
    case True
    then have "s1 = with_rt_memory (snd (malloc (rt_memory s))) s"
      using assms None by (auto simp: entry_for_def split: option.splits prod.splits)
    then show ?thesis using malloc_drop [of "rt_memory s"] by (cases "malloc (rt_memory s)") auto
  next
    case False
    let ?m1 = "snd (malloc (rt_memory s))" and ?ent = "\<lparr>ref_count = 0, entry_contacts = []\<rparr>"
    let ?m3 = "snd (malloc (snd (malloc ?m1)))"
    have "found = Some ?ent" "s1 = with_rt_memory ?m3 (s\<lparr>eid_table := (eid_table s)(e \<mapsto> ?ent)\<rparr>)"
      using assms None False by (auto simp: entry_for_def Let_def split: option.splits prod.splits)
    moreover have "\<exists>n. snd (malloc m) = drop n m" for m using malloc_drop by (cases "malloc m") auto
    then have "\<exists>n. ?m3 = drop n (rt_memory s)" by (metis drop_drop)
    ultimately show ?thesis by auto
  qed
qed

lemma add_to_assoc_memory:
  assumes "add_contact_to_ordered_assoc_list m H l c p by_from = Inr (r, l', m')"
  shows "(\<exists>k. m' = drop k m) \<and> (r \<longrightarrow> l' \<noteq> []) \<and> (l = [] \<and> served m m' \<longrightarrow> r)"
proof -
  obtain ct pos where pos: "ordered_position H by_from (contact_key by_from ct) c (map fst l) = Inr pos"
    "(case pos of None \<Rightarrow> Inr (False, l, m) | Some j \<Rightarrow> (case malloc m of (None, m1) \<Rightarrow> Inr (False, l, m1)
       | (Some _, m1) \<Rightarrow> Inr (True, take j l @ (c, p) # drop j l, m1))) = (Inr (r, l', m') :: _ outcome)"
    using assms by (auto simp: add_contact_to_ordered_assoc_list_def c_assert_eq_Inr obind_eq_Inr)
  show ?thesis
  proof (cases pos)
    case None
    then have "l \<noteq> []" using pos(1) by auto
    then show ?thesis using pos(2) None by (auto intro: exI [of _ 0])
  next
    case (Some j)
    obtain x m1 where m: "malloc m = (x, m1)" by fastforce
    have "x \<noteq> None" if "served m m1" using served_malloc [OF m that] .
    then show ?thesis using pos(2) Some m malloc_drop [OF m] by (cases x) auto
  qed
qed

lemma add_eid_grown:
  assumes "add_contact_to_node_in_htab eid c p s = Inr (r, s1)"
  shows "grown s s1"
proof -
  obtain e found s0 where e: "eid = Some e" "entry_for e s = Inr (found, s0)"
    using assms by (auto simp: add_contact_to_node_in_htab_def c_assert_eq_Inr obind_eq_Inr split: option.splits)
  note s0 = entry_for_grown [OF e(2)]
  show ?thesis
  proof (cases found)
    case None
    then have "s1 = s0" using assms e by (auto simp: add_contact_to_node_in_htab_def c_assert_eq_Inr)
    then show ?thesis using s0 None by (auto simp: grown_def)
  next
    case (Some ent)
    let ?l = "entry_contacts ent"
    obtain l' m' where
      add: "add_contact_to_ordered_assoc_list (rt_memory s0) (rt_contacts s0) ?l c p False = Inr (r, l', m')" and
      s1: "s1 = with_rt_memory m' (if r then s0\<lparr>eid_table := (eid_table s0)(e \<mapsto>
        \<lparr>ref_count = ref_count ent + 1, entry_contacts = l'\<rparr>)\<rparr> else s0)"
      using assms e Some by (auto simp: add_contact_to_node_in_htab_def c_assert_eq_Inr obind_eq_Inr split: if_splits)
    have l': "r \<longrightarrow> l' \<noteq> []" "\<exists>k. m' = drop k (rt_memory s0)"
      "?l = [] \<longrightarrow> served (rt_memory s0) m' \<longrightarrow> r"
      using add_to_assoc_memory [OF add] by simp_all
    obtain n k where d: "rt_memory s0 = drop n (rt_memory s)" "m' = drop k (rt_memory s0)" using s0 l'(2) by blast
    then have "served (rt_memory s0) m'" if "served (rt_memory s) m'"
      using that by (auto simp: served_def dest: in_set_dropD)
    then show ?thesis using s0 l'(1,3) d Some by (auto simp: grown_def s1 drop_drop split: if_splits)
  qed
qed

lemma add_to_eids_grown: "add_to_eids es c s = Inr ((), s1) \<Longrightarrow> grown s s1"
proof (induction es arbitrary: s)
  case (Cons eid es)
  then obtain r s0 where "add_contact_to_node_in_htab eid c 1 s = Inr (r, s0)" "add_to_eids es c s0 = Inr ((), s1)"
    by (auto simp: obind_eq_Inr)
  then show ?case using Cons.IH add_eid_grown grown_trans by blast
qed simp

lemma remove_eid_ok:
  assumes "table_ok s" and "length (reach s e) < 2 ^ 16"
  shows "\<exists>r s1. remove_contact_from_node_in_htab (Some e) c s = Inr (r, s1) \<and> eids_only s s1 \<and> table_ok s1 \<and>
    reach s1 = (reach s)(e := filter (\<lambda>x. fst x \<noteq> c) (reach s e)) \<and> blank s1 = blank s"
proof (cases "eid_table s e")
  case None
  then show ?thesis
    using assms by (intro exI [of _ False]) (simp add: remove_contact_from_node_in_htab_def reach_def fun_eq_iff)
next
  case (Some ent)
  let ?l = "entry_contacts ent" and ?l' = "filter (\<lambda>x. fst x \<noteq> c) (entry_contacts ent)"
  have ok: "table_entry_ok (rt_contacts s) ent" "reach s e = ?l" using assms(1) Some by (simp_all add: table_ok_def reach_def)
  then have d: "distinct (map fst ?l)" "ref_count ent = of_nat (length ?l)" by (simp_all add: table_entry_ok_def Let_def)
  note rm = remove_from_assoc [OF d(1), of c]
  show ?thesis
  proof (cases "c \<in> fst ` set ?l")
    case False
    then have "?l' = ?l" by (auto simp: filter_id_conv image_iff)
    then show ?thesis
      using False Some assms(1) ok(2) rm
      by (intro exI [of _ False]) (simp add: remove_contact_from_node_in_htab_def reach_def fun_eq_iff)
  next
    case True
    have "length ?l' = length (filter (\<lambda>x. x \<noteq> c) (map fst ?l))" by (simp add: filter_map comp_def)
    also have "filter (\<lambda>x. x \<noteq> c) (map fst ?l) = remove1 c (map fst ?l)"
      using d(1) by (auto simp: distinct_remove1_removeAll removeAll_filter_not_eq intro: filter_cong)
    also have "length (remove1 c (map fst ?l)) = length ?l - 1" using True by (simp add: length_remove1)
    finally have len: "length ?l' = length ?l - 1" "0 < length ?l" using True by auto
    then have n: "ref_count ent - 1 = of_nat (length ?l')" using d(2) by (cases ?l) simp_all
    have "unat (of_nat (length ?l') :: u16) = length ?l'"
      using assms(2) ok(2) len by (simp add: unat_of_nat)
    then have "ref_count ent - 1 = 0 \<longleftrightarrow> ?l' = []" unfolding n by (metis length_0_conv unat_eq_zero)
    moreover have "table_entry_ok (rt_contacts s) \<lparr>ref_count = ref_count ent - 1, entry_contacts = ?l'\<rparr>"
      using ok(1) n by (simp add: table_entry_ok_def Let_def distinct_map_filter list_all_iff sorted_filter)
    moreover have "e \<notin> blank s" using len(2) Some by (simp add: blank_def)
    ultimately show ?thesis
      using True Some assms(1) rm table_ok_update [OF assms(1)] ok(2)
      by (auto simp: remove_contact_from_node_in_htab_def reach_def fun_eq_iff Let_def)
  qed
qed

lemma add_to_eids_ok:
  assumes "add_to_eids es c s = Inr ((), s1)" and "table_ok s" and "live_at (rt_contacts s) c"
  shows "None \<notin> set es \<and> eids_only s s1 \<and> table_ok s1 \<and> may_add c {e. Some e \<in> set es} (reach s) (reach s1)"
  using assms
proof (induction es arbitrary: s)
  case (Cons eid es)
  obtain r s0 where s0: "add_contact_to_node_in_htab eid c 1 s = Inr (r, s0)" "add_to_eids es c s0 = Inr ((), s1)"
    using Cons.prems(1) by (auto simp: obind_eq_Inr)
  obtain e where e: "eid = Some e" "eids_only s s0" "table_ok s0" "may_add c {e} (reach s) (reach s0)"
    using add_eid_ok [OF s0(1) Cons.prems(2,3)] by blast
  have "live_at (rt_contacts s0) c" using e(2) Cons.prems(3) by (simp add: eids_only_def)
  from Cons.IH [OF s0(2) e(3) this] e show ?case
    using eids_only_trans [of s s0 s1] may_add_trans [OF e(4), of "{e. Some e \<in> set es}" "reach s1"]
    by (auto simp: may_add_def)
qed simp

lemma remove_from_eids_ok:
  assumes "None \<notin> set es" and "table_ok s" and "\<And>e. length (reach s e) < 2 ^ 16"
  shows "\<exists>s1. remove_from_eids es c s = Inr ((), s1) \<and> eids_only s s1 \<and> table_ok s1 \<and>
    reach s1 = (\<lambda>e. if Some e \<in> set es then filter (\<lambda>x. fst x \<noteq> c) (reach s e) else reach s e) \<and> blank s1 = blank s"
  using assms
proof (induction es arbitrary: s)
  case (Cons eid es)
  then obtain e where e: "eid = Some e" by (cases eid) auto
  obtain r s0 where s0: "remove_contact_from_node_in_htab (Some e) c s = Inr (r, s0)" "eids_only s s0" "table_ok s0"
    "reach s0 = (reach s)(e := filter (\<lambda>x. fst x \<noteq> c) (reach s e))" "blank s0 = blank s"
    using remove_eid_ok [OF Cons.prems(2,3)] by blast
  have "length (reach s0 e') < 2 ^ 16" for e'
    using Cons.prems(3) s0(4) by (auto intro: le_less_trans [OF length_filter_le])
  from Cons.IH [OF _ s0(3) this] obtain s1 where s1: "remove_from_eids es c s0 = Inr ((), s1)" "eids_only s0 s1"
    "table_ok s1" "reach s1 = (\<lambda>e. if Some e \<in> set es then filter (\<lambda>x. fst x \<noteq> c) (reach s0 e) else reach s0 e)"
    "blank s1 = blank s0"
    using Cons.prems(1) by auto
  then show ?case
    using s0 e eids_only_trans [of s s0 s1] by (auto simp: fun_eq_iff)
qed (simp add: fun_eq_iff)

text \<open>A change of capacities does not concern the tables.\<close>

lemma recalculate_keeps [simp]:
  "contact_bundles (recalculate_contact_capacity ct) = contact_bundles ct"
  "active (recalculate_contact_capacity ct) = active ct"
  "contact_endpoints (recalculate_contact_capacity ct) = contact_endpoints ct"
  "to_time (recalculate_contact_capacity ct) = to_time ct"
  "contact_node (recalculate_contact_capacity ct) = contact_node ct"
  by (simp_all add: recalculate_contact_capacity_def Let_def)

lemma put_contact_simps [simp]:
  "rt_contacts (put_contact c ct s) = (rt_contacts s)(c \<mapsto> ct)" "eid_table (put_contact c ct s) = eid_table s"
  "reach (put_contact c ct s) = reach s" "contact_list (put_contact c ct s) = contact_list s"
  "node_list (put_contact c ct s) = node_list s" "rt_nodes (put_contact c ct s) = rt_nodes s"
  "rt_signals (put_contact c ct s) = rt_signals s"
  "bk_bundles (rt_booking (put_contact c ct s)) = bk_bundles (rt_booking s)"
  by (simp_all add: put_contact_def with_contacts_def rt_contacts_def reach_def fun_eq_iff)

lemma table_ok_put_contact:
  assumes "table_ok s" and "rt_contacts s c = Some ct" and "to_time ct' = to_time ct"
  shows "table_ok (put_contact c ct' s)"
proof -
  have "heap_to ((rt_contacts s)(c \<mapsto> ct')) = heap_to (rt_contacts s)" using assms(2,3) by (auto simp: heap_to_def)
  moreover have "live_at ((rt_contacts s)(c \<mapsto> ct')) = live_at (rt_contacts s)" using assms(2) by (auto simp: live_at_def fun_eq_iff)
  ultimately show ?thesis using assms(1) by (simp add: table_ok_def table_entry_ok_def)
qed

lemma put_contact_only:
  "rt_contacts s c = Some ct \<Longrightarrow> tables_only {c} s (put_contact c (recalculate_contact_capacity ct) s)"
  by (simp add: tables_only_def)

lemma eids_only_tables: "eids_only s s1 \<Longrightarrow> tables_only X s s1"
  by (simp add: eids_only_def tables_only_def)

definition inserted :: "addr \<Rightarrow> addr list \<Rightarrow> addr list \<Rightarrow> bool" where
  "inserted c l l' \<longleftrightarrow> l' = l \<or> (\<exists>j. l' = take j l @ c # drop j l)"

lemma add_to_list_inserted:
  assumes "add_contact_to_ordered_list m H l c f = Inr (r, l', m')"
  shows "inserted c l l'"
  using assms
  by (cases "malloc m") (auto simp: add_contact_to_ordered_list_def obind_eq_Inr inserted_def split: option.splits)

lemma add_to_list_memory:
  assumes "add_contact_to_ordered_list m H l c f = Inr (r, l', m')"
  shows "\<exists>k. m' = drop k m"
proof -
  obtain pos where "(case pos of None \<Rightarrow> Inr (False, l, m) | Some j \<Rightarrow> (case malloc m of (None, m1) \<Rightarrow> Inr (False, l, m1)
       | (Some _, m1) \<Rightarrow> Inr (True, take j l @ c # drop j l, m1))) = (Inr (r, l', m') :: _ outcome)"
    using assms by (auto simp: add_contact_to_ordered_list_def obind_eq_Inr)
  then show ?thesis
    using malloc_drop [of m] by (auto intro: exI [of _ 0] split: option.splits prod.splits)
qed

section \<open>Registration and withdrawal\<close>

definition reached_by :: "routing \<Rightarrow> node_t \<Rightarrow> addr \<Rightarrow> string set" where
  "reached_by s nd c = (case rt_contacts s c of None \<Rightarrow> {} | Some ct \<Rightarrow> {e. Some e \<in> set (contact_eids nd ct)})"

definition but_for :: "addr set \<Rightarrow> assoc_list \<Rightarrow> assoc_list" where
  "but_for X l = filter (\<lambda>x. fst x \<notin> X) l"

lemma but_for_Un: "but_for (X \<union> Y) l = but_for X (but_for Y l)"
  by (simp add: but_for_def conj_commute)

lemma but_for_swap: "but_for X (but_for Y l) = but_for Y (but_for X l)"
  by (simp add: but_for_def conj_commute)

lemma but_for_empty [simp]: "but_for {} l = l"
  by (simp add: but_for_def)

text \<open>What the registration of contacts may have done to the tables.\<close>

definition entered :: "node_t \<Rightarrow> addr set \<Rightarrow> routing \<Rightarrow> routing \<Rightarrow> bool" where
  "entered nd X s s1 \<longleftrightarrow> tables_only X s s1 \<and> table_ok s1 \<and> distinct (contact_list s1) \<and>
     (\<forall>e. but_for {c \<in> X. e \<in> reached_by s nd c} (reach s1 e) = but_for {c \<in> X. e \<in> reached_by s nd c} (reach s e)) \<and>
     filter (\<lambda>c. c \<notin> X) (contact_list s1) = filter (\<lambda>c. c \<notin> X) (contact_list s)"

lemma reached_by_tables: "tables_only X s s1 \<Longrightarrow> rt_contacts s c \<noteq> None \<Longrightarrow> reached_by s1 nd c = reached_by s nd c"
proof -
  assume only: "tables_only X s s1" and "rt_contacts s c \<noteq> None"
  then obtain ct where ct: "rt_contacts s c = Some ct" by auto
  then obtain ct' where "rt_contacts s1 c = Some ct'" "contact_endpoints ct' = contact_endpoints ct"
    using only unfolding tables_only_def by blast
  then show ?thesis using ct by (simp add: reached_by_def contact_eids_def)
qed

lemma inserted_ok:
  assumes "inserted c l l'" and "c \<notin> set l" and "distinct l"
  shows "distinct l' \<and> filter (\<lambda>a. a \<noteq> c) l' = filter (\<lambda>a. a \<noteq> c) l \<and> set l' \<subseteq> insert c (set l)"
proof (cases "l' = l")
  case False
  then obtain j where j: "l' = take j l @ c # drop j l" using assms(1) by (auto simp: inserted_def)
  have "filter (\<lambda>a. a \<noteq> c) (take j l @ drop j l) = filter (\<lambda>a. a \<noteq> c) l" by simp
  moreover have "distinct (map id l')" using distinct_insert_at [of id l c j] assms(2,3) j by simp
  moreover have "set (take j l) \<union> set (drop j l) = set l" by (metis append_take_drop_id set_append)
  ultimately show ?thesis using j by (auto simp del: append_take_drop_id)
qed (use assms in auto)

lemma register_contact_ok:
  assumes "register_contact nd c s = Inr s1" and "table_ok s" and "distinct (contact_list s)" and "c \<notin> set (contact_list s)"
  shows "entered nd {c} s s1"
proof -
  obtain ct invalid where ct: "rt_contacts s c = Some ct" "check_for_invalid_overlaps c s = Inr invalid"
    using assms(1)
    by (auto simp: register_contact_def check_for_invalid_overlaps_def obind_eq_Inr deref_contact_def split: option.splits)
  show ?thesis
  proof (cases invalid)
    case True
    then show ?thesis using assms ct(2) by (simp add: register_contact_def entered_def)
  next
    case False
    obtain s0 r l m where s0: "add_to_eids (contact_eids nd ct) c s = Inr ((), s0)"
      "add_contact_to_ordered_list (rt_memory s0) (rt_contacts s0) (contact_list s0) c True = Inr (r, l, m)"
      "s1 = put_contact c (recalculate_contact_capacity ct) (with_rt_memory m (s0\<lparr>contact_list := l\<rparr>))"
      using assms(1) ct False by (auto simp: register_contact_def deref_contact_def obind_eq_Inr)
    note e = add_to_eids_ok [OF s0(1) assms(2)]
    have ok: "eids_only s s0" "table_ok s0" "may_add c {e. Some e \<in> set (contact_eids nd ct)} (reach s) (reach s0)"
      using e ct by (simp_all add: live_at_def)
    let ?s = "with_rt_memory m (s0\<lparr>contact_list := l\<rparr>)"
    have s: "rt_contacts ?s c = Some ct" "table_ok ?s" "reach ?s = reach s0" "contact_list ?s = l" "tables_only {c} s ?s"
      using ok ct(1)
      by (simp_all add: with_rt_memory_def rt_contacts_def table_ok_def reach_def fun_eq_iff eids_only_def tables_only_def)
    have "tables_only {c} s s1" using tables_only_trans [OF s(5) put_contact_only [OF s(1)]] s0(3) by simp
    moreover have "table_ok s1" using table_ok_put_contact [OF s(2,1)] s0(3) by simp
    moreover have "inserted c (contact_list s) l" using add_to_list_inserted [OF s0(2)] ok(1) by (simp add: eids_only_def)
    then have "distinct l \<and> filter (\<lambda>a. a \<noteq> c) l = filter (\<lambda>a. a \<noteq> c) (contact_list s)"
      using inserted_ok assms(3,4) by blast
    moreover have "but_for {a \<in> {c}. e \<in> reached_by s nd a} (reach s0 e) =
        but_for {a \<in> {c}. e \<in> reached_by s nd a} (reach s e)" for e
    proof -
      have names: "reached_by s nd c = {e. Some e \<in> set (contact_eids nd ct)}" using ct(1) by (simp add: reached_by_def)
      show ?thesis
      proof (cases "e \<in> reached_by s nd c")
        case True
        then have "{a \<in> {c}. e \<in> reached_by s nd a} = {c}" by auto
        then show ?thesis using ok(3) by (simp add: may_add_def but_for_def)
      next
        case False
        then have "{a \<in> {c}. e \<in> reached_by s nd a} = {}" by auto
        then show ?thesis using ok(3) False by (simp add: may_add_def names)
      qed
    qed
    ultimately show ?thesis using s s0(3) by (simp add: entered_def)
  qed
qed

lemma entered_trans:
  assumes "entered nd X s s0" and "entered nd Y s0 s1" and "\<forall>c \<in> Y. rt_contacts s c \<noteq> None"
  shows "entered nd (X \<union> Y) s s1"
proof -
  have only: "tables_only (X \<union> Y) s s1"
    using assms(1,2) tables_only_trans [of "X \<union> Y" s s0 s1] tables_only_mono by (auto simp: entered_def)
  have by0: "reached_by s0 nd c = reached_by s nd c" if "c \<in> Y" for c
    using assms(1,3) that reached_by_tables by (auto simp: entered_def)
  have "but_for {c \<in> X \<union> Y. e \<in> reached_by s nd c} (reach s1 e) = but_for {c \<in> X \<union> Y. e \<in> reached_by s nd c} (reach s e)" for e
  proof -
    let ?A = "{c \<in> X. e \<in> reached_by s nd c}" and ?B = "{c \<in> Y. e \<in> reached_by s nd c}"
    have B: "?B = {c \<in> Y. e \<in> reached_by s0 nd c}" using by0 by blast
    have "but_for (?A \<union> ?B) (reach s1 e) = but_for ?A (but_for ?B (reach s0 e))"
      using assms(2) unfolding but_for_Un B by (simp add: entered_def)
    also have "\<dots> = but_for ?B (but_for ?A (reach s e))"
      using assms(1) by (simp add: but_for_swap [of ?A] entered_def)
    also have "\<dots> = but_for (?A \<union> ?B) (reach s e)" by (simp add: but_for_Un [symmetric] Un_commute)
    finally show ?thesis by (simp add: Un_def conj_disj_distribR Collect_disj_eq [symmetric])
  qed
  moreover have "filter (\<lambda>c. c \<notin> X \<union> Y) l = filter (\<lambda>c. c \<notin> X) (filter (\<lambda>c. c \<notin> Y) l)"
    "filter (\<lambda>c. c \<notin> X \<union> Y) l = filter (\<lambda>c. c \<notin> Y) (filter (\<lambda>c. c \<notin> X) l)" for l :: "addr list"
    by (simp_all add: conj_commute)
  then have "filter (\<lambda>c. c \<notin> X \<union> Y) (contact_list s1) = filter (\<lambda>c. c \<notin> X \<union> Y) (contact_list s)"
    using assms(1,2) unfolding entered_def by metis
  ultimately show ?thesis using assms(2) only by (simp add: entered_def)
qed

lemma register_contacts_ok:
  assumes "register_contacts nd cs s = Inr s1" and "table_ok s" and "distinct (contact_list s)"
    and "distinct cs" and "set cs \<inter> set (contact_list s) = {}" and "\<forall>c \<in> set cs. rt_contacts s c \<noteq> None"
  shows "entered nd (set cs) s s1"
  using assms
proof (induction cs arbitrary: s)
  case Nil
  then show ?case by (simp add: entered_def)
next
  case (Cons c cs)
  obtain s0 where s0: "register_contact nd c s = Inr s0" "register_contacts nd cs s0 = Inr s1"
    using Cons.prems(1) by (auto simp: obind_eq_Inr)
  have one: "entered nd {c} s s0" using register_contact_ok [OF s0(1) Cons.prems(2,3)] Cons.prems(5) by simp
  have "set (contact_list s0) \<subseteq> insert c (set (contact_list s))"
  proof -
    have "filter (\<lambda>a. a \<notin> {c}) (contact_list s0) = filter (\<lambda>a. a \<notin> {c}) (contact_list s)"
      using one by (simp add: entered_def)
    from arg_cong [OF this, of set] show ?thesis by auto
  qed
  then have "entered nd (set cs) s0 s1"
    using one Cons.prems by (intro Cons.IH [OF s0(2)]) (auto simp: entered_def tables_only_def)
  then have "entered nd ({c} \<union> set cs) s s1" using one Cons.prems(6) by (intro entered_trans) auto
  then show ?case by simp
qed

lemma register_contact_grown:
  assumes "register_contact nd c s = Inr s1"
  shows "grown s s1"
proof -
  obtain invalid where inv: "check_for_invalid_overlaps c s = Inr invalid"
    using assms by (auto simp: register_contact_def obind_eq_Inr)
  show ?thesis
  proof (cases invalid)
    case True
    then show ?thesis using assms inv by (simp add: register_contact_def)
  next
    case False
    obtain ct s0 r l m where s0: "add_to_eids (contact_eids nd ct) c s = Inr ((), s0)"
      "add_contact_to_ordered_list (rt_memory s0) (rt_contacts s0) (contact_list s0) c True = Inr (r, l, m)"
      "s1 = put_contact c (recalculate_contact_capacity ct) (with_rt_memory m (s0\<lparr>contact_list := l\<rparr>))"
      using assms inv False by (auto simp: register_contact_def obind_eq_Inr)
    have "grown s0 s1" using add_to_list_memory [OF s0(2)] by (simp add: grown_def s0(3))
    then show ?thesis using add_to_eids_grown [OF s0(1)] grown_trans by blast
  qed
qed

lemma register_contacts_grown: "register_contacts nd cs s = Inr s1 \<Longrightarrow> grown s s1"
proof (induction cs arbitrary: s)
  case (Cons c cs)
  then obtain s0 where "register_contact nd c s = Inr s0" "register_contacts nd cs s0 = Inr s1"
    by (auto simp: obind_eq_Inr)
  then show ?case using Cons.IH register_contact_grown grown_trans by blast
qed simp

lemma remove_from_list_filter:
  "distinct l \<Longrightarrow> snd (remove_contact_from_list l c) = filter (\<lambda>a. a \<noteq> c) l"
proof (induction l)
  case (Cons a l)
  have "filter (\<lambda>x. x \<noteq> a) l = l" using Cons.prems by (auto simp: filter_id_conv)
  then show ?case using Cons by (auto split: prod.splits)
qed simp

text \<open>A contact that is neither in use nor booked by a bundle.\<close>

definition idle_contact :: "routing \<Rightarrow> addr \<Rightarrow> bool" where
  "idle_contact s c \<longleftrightarrow> (\<exists>ct. rt_contacts s c = Some ct \<and> contact_bundles ct = [] \<and> \<not> active ct)"

lemma reschedule_idle: "rt_contacts s c = Some ct \<Longrightarrow> contact_bundles ct = [] \<Longrightarrow> reschedule_bundles q c s = Inr s"
  by (simp add: reschedule_bundles_def deref_contact_def)

text \<open>Withdrawing idle contacts takes them out of the tables and does nothing else.\<close>

definition withdrawn :: "node_t \<Rightarrow> addr set \<Rightarrow> routing \<Rightarrow> routing \<Rightarrow> bool" where
  "withdrawn nd X s s1 \<longleftrightarrow> node_list s1 = node_list s \<and> rt_nodes s1 = rt_nodes s \<and> rt_signals s1 = rt_signals s \<and>
     bk_bundles (rt_booking s1) = bk_bundles (rt_booking s) \<and> rt_contacts s1 = rt_contacts s \<and> table_ok s1 \<and>
     (\<forall>e. reach s1 e = but_for {c \<in> X. e \<in> reached_by s nd c} (reach s e)) \<and>
     contact_list s1 = filter (\<lambda>c. c \<notin> X) (contact_list s) \<and> blank s1 = blank s"

lemma withdraw_contact_ok:
  assumes "idle_contact s c" and "table_ok s" and "distinct (contact_list s)" and "\<And>e. length (reach s e) < 2 ^ 16"
    and "node_eid nd \<noteq> None"
  shows "\<exists>s1. withdraw_contact q d nd c s = Inr (True, s1) \<and> withdrawn nd {c} s s1"
proof -
  obtain ct where ct: "rt_contacts s c = Some ct" "contact_bundles ct = []" "\<not> active ct"
    using assms(1) by (auto simp: idle_contact_def)
  have "None \<notin> set (contact_eids nd ct)" using assms(5) by (auto simp: contact_eids_def eid_names_def)
  from remove_from_eids_ok [OF this assms(2,4), of c] obtain s1 where s1:
    "remove_from_eids (contact_eids nd ct) c s = Inr ((), s1)" "eids_only s s1" "table_ok s1"
    "reach s1 = (\<lambda>e. if Some e \<in> set (contact_eids nd ct) then filter (\<lambda>x. fst x \<noteq> c) (reach s e) else reach s e)"
    "blank s1 = blank s"
    by blast
  let ?s = "s1\<lparr>contact_list := snd (remove_contact_from_list (contact_list s1) c)\<rparr>"
  have same: "rt_contacts ?s = rt_contacts s" "reach ?s = reach s1" "table_ok ?s"
    using s1(2,3) by (simp_all add: eids_only_def rt_contacts_def reach_def table_ok_def fun_eq_iff)
  have "withdraw_contact q d nd c s = Inr (True, ?s)"
    using ct s1(1) same(1) reschedule_idle [of ?s c ct q]
    by (simp add: withdraw_contact_def deref_contact_def Let_def)
  moreover have "withdrawn nd {c} s ?s"
  proof -
    have "reach ?s e = but_for {a \<in> {c}. e \<in> reached_by s nd a} (reach s e)" for e
      using s1(4) same(2) ct(1) by (simp add: but_for_def reached_by_def)
    moreover have "contact_list ?s = filter (\<lambda>a. a \<notin> {c}) (contact_list s)"
      using s1(2) remove_from_list_filter [OF assms(3), of c] by (simp add: eids_only_def)
    ultimately show ?thesis using same s1(2,5) by (simp add: withdrawn_def eids_only_def)
  qed
  ultimately show ?thesis by blast
qed

lemma length_but_for: "length (but_for X l) \<le> length l"
  by (simp add: but_for_def)

lemma withdraw_contacts_ok:
  assumes "\<forall>c \<in> set cs. idle_contact s c" and "table_ok s" and "distinct (contact_list s)"
    and "\<And>e. length (reach s e) < 2 ^ 16" and "node_eid nd \<noteq> None"
  shows "\<exists>s1. withdraw_contacts q d nd cs s = Inr (cs, s1) \<and> withdrawn nd (set cs) s s1"
  using assms(1-4)
proof (induction cs arbitrary: s)
  case Nil
  then show ?case by (simp add: withdrawn_def)
next
  case (Cons c cs)
  obtain s0 where s0: "withdraw_contact q d nd c s = Inr (True, s0)" "withdrawn nd {c} s s0"
    using withdraw_contact_ok [OF _ Cons.prems(2-4) assms(5)] Cons.prems(1) by fastforce
  have "length (reach s0 e) < 2 ^ 16" for e
    using s0(2) Cons.prems(4) [of e] le_less_trans [OF length_but_for] by (simp add: withdrawn_def)
  moreover have "\<forall>c \<in> set cs. idle_contact s0 c" "table_ok s0" "distinct (contact_list s0)"
    using s0(2) Cons.prems(1,3) by (auto simp: withdrawn_def idle_contact_def)
  ultimately obtain s1 where s1: "withdraw_contacts q d nd cs s0 = Inr (cs, s1)" "withdrawn nd (set cs) s0 s1"
    using Cons.IH by blast
  have names: "reached_by s0 nd = reached_by s nd" using s0(2) by (simp add: withdrawn_def reached_by_def fun_eq_iff)
  have "reach s1 e = but_for {a \<in> set (c # cs). e \<in> reached_by s nd a} (reach s e)" for e
  proof -
    let ?P = "\<lambda>a. e \<in> reached_by s nd a"
    have "reach s1 e = but_for {a \<in> set cs. ?P a} (but_for {a \<in> {c}. ?P a} (reach s e))"
      using s0(2) s1(2) names by (simp add: withdrawn_def)
    also have "\<dots> = but_for ({a \<in> set cs. ?P a} \<union> {a \<in> {c}. ?P a}) (reach s e)" by (simp only: but_for_Un)
    also have "{a \<in> set cs. ?P a} \<union> {a \<in> {c}. ?P a} = {a \<in> set (c # cs). ?P a}" by auto
    finally show ?thesis .
  qed
  moreover have "contact_list s1 = filter (\<lambda>a. a \<notin> set (c # cs)) (contact_list s)"
    using s0(2) s1(2) by (simp add: withdrawn_def conj_commute)
  ultimately have "withdrawn nd (set (c # cs)) s s1"
    using s0(2) s1(2) by (simp add: withdrawn_def)
  then show ?case using s0(1) s1(1) by simp
qed

text \<open>A node whose EID is not in the list of nodes is not in it either.\<close>

lemma node_position_other:
  assumes "node_position N e l = Inr None" and "N a = Some nd" and "node_eid nd = Some e"
  shows "a \<notin> set l \<and> node_position (N(a := x)) e l = Inr None"
  using assms(1)
proof (induction l)
  case (Cons b l)
  then have b: "node_position N e l = Inr None" "b \<noteq> a"
    using assms(2,3) by (auto simp: obind_eq_Inr deref_node_def split: option.splits if_splits)
  then show ?case
    using Cons.prems Cons.IH by (auto simp: obind_eq_Inr deref_node_def split: option.splits if_splits)
qed simp

lemma free_idle:
  assumes "distinct cs" and "\<forall>c \<in> set cs. \<exists>ct. H c = Some ct \<and> \<not> active ct"
  shows "free_contacts H cs = Inr (\<lambda>c. if c \<in> set cs then None else H c)"
  using assms
proof (induction cs arbitrary: H)
  case (Cons c cs)
  obtain ct where ct: "H c = Some ct" "\<not> active ct" using Cons.prems(2) by auto
  have "free_contacts (H(c := None)) cs = Inr (\<lambda>d. if d \<in> set cs then None else (H(c := None)) d)"
    using Cons.prems by (intro Cons.IH) auto
  then show ?case using ct by (auto simp: free_contact_internal_def deref_contact_def fun_eq_iff)
qed simp

lemma release_idle:
  assumes "rt_nodes s a = Some nd" and "a \<noteq> 0" and "distinct (node_contacts nd)" and "\<forall>c \<in> set (node_contacts nd). idle_contact s c"
  shows "release_node a s = Inr (put_node a None (with_contacts
    (\<lambda>c. if c \<in> set (node_contacts nd) then None else rt_contacts s c) s))"
proof -
  have "free_contacts (rt_contacts s) (node_contacts nd) = Inr (\<lambda>c. if c \<in> set (node_contacts nd) then None else rt_contacts s c)"
    using assms(3,4) by (intro free_idle) (auto simp: idle_contact_def)
  then show ?thesis using assms(1,2) by (simp add: release_node_def deref_node_def free_node_def)
qed

lemma length_reach:
  assumes "but_for Y l1 = but_for Y l" and "distinct (map fst l1)" and "finite Y"
  shows "length l1 \<le> length l + card Y"
proof -
  let ?in = "filter (\<lambda>x. fst x \<in> Y) l1"
  have "length l1 = length (but_for Y l1) + length ?in"
    using sum_length_filter_compl [of "\<lambda>x. fst x \<notin> Y" l1] by (simp add: but_for_def)
  moreover have "length ?in = card (fst ` set ?in)"
    using distinct_card [of "map fst ?in"] assms(2) by (simp add: distinct_map_filter)
  moreover have "card (fst ` set ?in) \<le> card Y" using assms(3) by (intro card_mono) auto
  ultimately show ?thesis using assms(1) length_but_for [of Y l] by simp
qed

lemma entered_idle: "entered nd X s s1 \<Longrightarrow> idle_contact s c \<Longrightarrow> idle_contact s1 c"
  unfolding entered_def tables_only_def idle_contact_def by metis

lemma reach_distinct: "table_ok s \<Longrightarrow> distinct (map fst (reach s e))"
  by (auto simp: table_ok_def reach_def table_entry_ok_def Let_def split: option.splits)

section \<open>Properties\<close>

text \<open>
  C18 (functional). With the contact list sorted by start times, a contact is refused exactly when it shares time with an
  accepted contact of its node, or when the number of accepted contacts it shares time with is at least ten in the eight
  bits of the counter: with 256 to 265 of them, all of other nodes, it is accepted. A contact that is registered already shares
  its own time, so it is refused too: the endpoints that an added description brings for an existing node are not
  made reachable over its registered contacts.
\<close>

theorem overlap_check_exact:
  assumes "by_start (rt_contacts s) (contact_list s)" and "rt_contacts s c = Some ct"
  shows "check_for_invalid_overlaps c s = Inr (
      (\<exists>a x. a \<in> set (contact_list s) \<and> rt_contacts s a = Some x \<and> contact_node x = contact_node ct \<and>
        from_time x < to_time ct \<and> from_time ct < to_time x) \<or>
      10 \<le> length (filter (conflicting (rt_contacts s) ct) (contact_list s)) mod 256) \<and>
    (c \<in> set (contact_list s) \<and> from_time ct < to_time ct \<longrightarrow>
      check_for_invalid_overlaps c s = Inr True \<and> register_contact nd c s = Inr s)"
proof -
  have "(\<exists>a \<in> set (contact_list s). conflicting (rt_contacts s) ct a \<and> same_node (rt_contacts s) ct a) \<longleftrightarrow>
      (\<exists>a x. a \<in> set (contact_list s) \<and> rt_contacts s a = Some x \<and> contact_node x = contact_node ct \<and>
        from_time x < to_time ct \<and> from_time ct < to_time x)"
    by (auto simp: conflicting_def same_node_def split: option.splits)
  moreover have "c \<in> set (contact_list s) \<and> from_time ct < to_time ct \<longrightarrow> invalid_overlap s ct"
    using registered_conflicts assms(2) by blast
  ultimately show ?thesis
    using check_exact [OF assms] by (simp add: invalid_overlap_def register_contact_def)
qed


text \<open>A node with two contacts and an endpoint, in memory but not in the empty table yet.\<close>

definition sample_node :: node_t where
  "sample_node = \<lparr>node_eid = Some ''dtn:gs'', cla_addr = Some ''mtcp:'', node_flags = 0, trustworthiness = 1,
     reliability = 1, endpoints = [(500, ''dtn:a'')], node_contacts = [1, 2]\<rparr>"

definition sample_routing :: routing where
  "sample_routing = \<lparr>rt_booking = sample_booking\<lparr>bk_memory := mem_ok [210..<240]\<rparr>, rt_nodes = [300 \<mapsto> sample_node],
     node_list = [], contact_list = [], eid_table = (\<lambda>_. None), eid_table_initialized = True, rt_signals = []\<rparr>"

lemmas sample_routing_simps = sample_routing_def sample_node_def sample_booking_def sample_open_contact_def
  sample_contact_def rt_contacts_def

lemma sample_routing_added:
  "\<exists>s1. routing_table_add_node Bp_Queue 300 sample_routing = Inr s1 \<and> map fst (reach s1 ''dtn:a'') = [1, 2] \<and> rt_memory s1 \<noteq> []"
proof -
  have "case routing_table_add_node Bp_Queue 300 sample_routing of Inl x \<Rightarrow> False | Inr s1 \<Rightarrow> map fst (reach s1 ''dtn:a'') = [1, 2] \<and> rt_memory s1 \<noteq> []"
    by code_simp
  then show ?thesis by (auto split: sum.splits)
qed

theorem overlap_check_exact_witness:
  "check_for_invalid_overlaps 1 (sample_routing\<lparr>contact_list := [1, 2]\<rparr>) = Inr True \<and>
    check_for_invalid_overlaps 1 (sample_routing\<lparr>contact_list := [2]\<rparr>) = Inr False"
proof -
  let ?s = "sample_routing\<lparr>contact_list := [1, 2]\<rparr>" and ?t = "sample_routing\<lparr>contact_list := [2]\<rparr>"
  have c: "rt_contacts sample_routing 1 = Some (sample_open_contact 20)" "rt_contacts sample_routing 2 = Some (sample_open_contact 40)"
    by (simp_all add: sample_routing_def sample_booking_def rt_contacts_def)
  then have "by_start (rt_contacts ?s) (contact_list ?s)" "by_start (rt_contacts ?t) (contact_list ?t)"
    using c by (simp_all add: by_start_def heap_from_def sample_open_contact_def sample_contact_def)
  note ok = this
  have "check_for_invalid_overlaps 1 ?s = Inr True"
    by (rule mp [OF overlap_check_exact [OF ok(1), of 1 "sample_open_contact 20" sample_node, THEN conjunct2], THEN conjunct1])
      (use c in \<open>simp_all add: sample_open_contact_def sample_contact_def\<close>)
  then show ?thesis
    using overlap_check_exact [OF ok(2), of 1 "sample_open_contact 20" sample_node, THEN conjunct1] c
    by (simp add: conflicting_def sample_open_contact_def sample_contact_def)
qed


end
