(* ===== verification/Routing_Reschedule.thy ===== *)
theory Routing_Reschedule
  imports Routing_Table
begin

text \<open>
  What becomes of the bundles of a contact: rescheduling takes them off all their contacts, while the end of a contact
  releases them although other contacts may still list them.
\<close>

section \<open>Bookings\<close>

text \<open>
  The lists of the contacts hold routed bundles in memory, each once and none on a contact that is not one of its own; a
  routed bundle is found by its identifier.
\<close>

definition bookings_ok :: "booking \<Rightarrow> bool" where
  "bookings_ok bk \<longleftrightarrow>
     (\<forall>c ct. bk_contacts bk c = Some ct \<longrightarrow> distinct (contact_bundles ct) \<and>
        (\<forall>a \<in> set (contact_bundles ct). \<exists>rb. bk_bundles bk a = Some rb \<and> c \<in> set (rb_contacts rb))) \<and>
     (\<forall>a rb. bk_bundles bk a = Some rb \<longrightarrow> unat (contact_count rb) = length (rb_contacts rb) \<and>
        length (rb_contacts rb) \<le> ROUTER_MAX_CONTACTS \<and> (\<forall>c \<in> set (rb_contacts rb). bk_contacts bk c \<noteq> None)) \<and>
     (\<forall>a b ra rb. bk_bundles bk a = Some ra \<and> bk_bundles bk b = Some rb \<and> rb_id ra = rb_id rb \<longrightarrow> a = b)"

lemma find_routed_exact:
  assumes "\<forall>b \<in> set as. \<exists>r. bk_bundles bk b = Some r \<and> (rb_id r = k \<longrightarrow> b = a)" and "bk_bundles bk a = Some rb" and "rb_id rb = k"
    and "distinct as"
  shows "if a \<in> set as
    then \<exists>j. find_routed bk k i as = Inr (Some (i + j, a, rb)) \<and> take j as @ drop (j + 1) as = filter (\<lambda>b. b \<noteq> a) as
    else find_routed bk k i as = Inr None"
  using assms(1,4)
proof (induction as arbitrary: i)
  case (Cons b as)
  obtain r where r: "bk_bundles bk b = Some r" "rb_id r = k \<longrightarrow> b = a" using Cons.prems(1) by auto
  show ?case
  proof (cases "b = a")
    case True
    have "filter (\<lambda>x. x \<noteq> a) as = as" using Cons.prems(2) True by (auto simp: filter_id_conv)
    then show ?thesis using True assms(2,3) by (auto simp: deref_routed_def)
  next
    case False
    then have ne: "rb_id r \<noteq> k" using r(2) by auto
    have IH: "if a \<in> set as
      then \<exists>j. find_routed bk k (i + 1) as = Inr (Some (i + 1 + j, a, rb)) \<and> take j as @ drop (j + 1) as = filter (\<lambda>b. b \<noteq> a) as
      else find_routed bk k (i + 1) as = Inr None"
      using Cons.prems by (intro Cons.IH) auto
    show ?thesis
    proof (cases "a \<in> set as")
      case True
      then obtain j where "find_routed bk k (i + 1) as = Inr (Some (i + 1 + j, a, rb))"
        "take j as @ drop (j + 1) as = filter (\<lambda>b. b \<noteq> a) as" using IH by auto
      then have "find_routed bk k i (b # as) = Inr (Some (i + Suc j, a, rb)) \<and>
          take (Suc j) (b # as) @ drop (Suc j + 1) (b # as) = filter (\<lambda>b. b \<noteq> a) (b # as)"
        using False r(1) ne by (simp add: deref_routed_def)
      then show ?thesis using True by auto
    next
      case notin: False
      then show ?thesis using IH False r(1) ne by (simp add: deref_routed_def)
    qed
  qed
qed simp

text \<open>A contact after a routed bundle has been taken off it.\<close>

definition taken_off :: "addr \<Rightarrow> routed_bundle \<Rightarrow> contact \<Rightarrow> contact" where
  "taken_off a rb ct = (if a \<in> set (contact_bundles ct)
     then refund rb (ct\<lparr>contact_bundles := filter (\<lambda>b. b \<noteq> a) (contact_bundles ct)\<rparr>) else ct)"

lemma taken_off_bundles [simp]: "contact_bundles (taken_off a rb ct) = filter (\<lambda>b. b \<noteq> a) (contact_bundles ct)"
  by (auto simp: taken_off_def refund_def intro: filter_True [symmetric])

lemma taken_off_other: "a \<notin> set (contact_bundles ct) \<Longrightarrow> taken_off a rb ct = ct"
  by (simp add: taken_off_def)

lemma remove_one:
  assumes "bookings_ok bk" and "bk_bundles bk a = Some rb" and "bk_contacts bk c = Some ct"
  shows "\<exists>x. router_remove_bundle_from_contact c (rb_id rb) bk =
    Inr (x, bk\<lparr>bk_contacts := (bk_contacts bk)(c \<mapsto> taken_off a rb ct)\<rparr>) \<and>
    (x = (if a \<in> set (contact_bundles ct) then Some a else None))"
proof -
  have "\<forall>b \<in> set (contact_bundles ct). \<exists>r. bk_bundles bk b = Some r \<and> (rb_id r = rb_id rb \<longrightarrow> b = a)"
    using assms unfolding bookings_ok_def by metis
  moreover have "distinct (contact_bundles ct)" using assms(1,3) by (simp add: bookings_ok_def)
  ultimately have f: "if a \<in> set (contact_bundles ct)
    then \<exists>j. find_routed bk (rb_id rb) 0 (contact_bundles ct) = Inr (Some (0 + j, a, rb)) \<and>
      take j (contact_bundles ct) @ drop (j + 1) (contact_bundles ct) = filter (\<lambda>b. b \<noteq> a) (contact_bundles ct)
    else find_routed bk (rb_id rb) 0 (contact_bundles ct) = Inr None"
    using assms(2) by (intro find_routed_exact) auto
  show ?thesis
  proof (cases "a \<in> set (contact_bundles ct)")
    case True
    then obtain j where "find_routed bk (rb_id rb) 0 (contact_bundles ct) = Inr (Some (j, a, rb))"
      "take j (contact_bundles ct) @ drop (j + 1) (contact_bundles ct) = filter (\<lambda>b. b \<noteq> a) (contact_bundles ct)"
      using f by auto
    then show ?thesis
      using True assms(3) by (simp add: router_remove_bundle_from_contact_def deref_contact_def taken_off_def)
  next
    case False
    then have "(bk_contacts bk)(c \<mapsto> taken_off a rb ct) = bk_contacts bk" using assms(3) by (auto simp: taken_off_other)
    then show ?thesis
      using False f assms(3) by (simp add: router_remove_bundle_from_contact_def deref_contact_def)
  qed
qed

text \<open>Taking bundles off keeps the bookings in order.\<close>

definition take_off :: "addr \<Rightarrow> routed_bundle \<Rightarrow> addr set \<Rightarrow> contact_heap \<Rightarrow> contact_heap" where
  "take_off a rb X H = (\<lambda>c. if c \<in> X then map_option (taken_off a rb) (H c) else H c)"

lemma bookings_ok_take_off: "bookings_ok bk \<Longrightarrow> bookings_ok (bk\<lparr>bk_contacts := take_off a rb X (bk_contacts bk)\<rparr>)"
  unfolding bookings_ok_def by (auto simp: take_off_def split: if_splits)

lemma remove_all:
  assumes "bookings_ok bk" and "bk_bundles bk a = Some rb" and "\<forall>c \<in> set cs. bk_contacts bk c \<noteq> None"
  shows "\<exists>y. remove_from_contacts cs (rb_id rb) x bk =
    Inr (y, bk\<lparr>bk_contacts := take_off a rb (set cs) (bk_contacts bk)\<rparr>) \<and>
    y = (if \<exists>c ct. c \<in> set cs \<and> bk_contacts bk c = Some ct \<and> a \<in> set (contact_bundles ct) then Some a else x)"
  using assms
proof (induction cs arbitrary: bk x)
  case Nil
  have "take_off a rb {} (bk_contacts bk) = bk_contacts bk" by (simp add: take_off_def)
  then show ?case by simp
next
  case (Cons c cs)
  obtain ct where ct: "bk_contacts bk c = Some ct" using Cons.prems(3) by auto
  let ?bk = "bk\<lparr>bk_contacts := (bk_contacts bk)(c \<mapsto> taken_off a rb ct)\<rparr>"
  have one: "take_off a rb {c} (bk_contacts bk) = (bk_contacts bk)(c \<mapsto> taken_off a rb ct)"
    using ct by (auto simp: take_off_def fun_eq_iff)
  have ok: "bookings_ok ?bk" "bk_bundles ?bk a = Some rb" "\<forall>c \<in> set cs. bk_contacts ?bk c \<noteq> None"
    using bookings_ok_take_off [OF Cons.prems(1), of a rb "{c}"] Cons.prems(2,3) by (simp_all add: one)
  have idem: "taken_off a rb (taken_off a rb ct) = taken_off a rb ct" for ct by (simp add: taken_off_other)
  have "take_off a rb (set cs) (bk_contacts ?bk) = take_off a rb (set (c # cs)) (bk_contacts bk)"
    using ct idem by (auto simp: take_off_def fun_eq_iff)
  moreover have "(\<exists>d dt. d \<in> set cs \<and> bk_contacts ?bk d = Some dt \<and> a \<in> set (contact_bundles dt)) \<longleftrightarrow>
      (\<exists>d dt. d \<in> set cs \<and> d \<noteq> c \<and> bk_contacts bk d = Some dt \<and> a \<in> set (contact_bundles dt))"
    by auto
  moreover note remove_one [OF Cons.prems(1,2) ct] Cons.IH [OF ok]
  ultimately show ?case using ct by fastforce
qed

section \<open>Rescheduling\<close>

lemma route_removed:
  assumes "bookings_ok bk" and "bk_bundles bk a = Some rb" and "bk_contacts bk c = Some ct" and "a \<in> set (contact_bundles ct)"
    and "route_contacts r = rb_contacts rb"
  shows "router_remove_bundle_from_route r (rb_id rb) True bk =
    Inr (free_routed a (bk\<lparr>bk_contacts := take_off a rb UNIV (bk_contacts bk)\<rparr>))"
proof -
  have own: "d \<in> set (rb_contacts rb)" if "bk_contacts bk d = Some dt" "a \<in> set (contact_bundles dt)" for d dt
    using assms(1,2) that unfolding bookings_ok_def by fastforce
  have "take_off a rb (set (rb_contacts rb)) (bk_contacts bk) = take_off a rb UNIV (bk_contacts bk)"
  proof
    fix d
    show "take_off a rb (set (rb_contacts rb)) (bk_contacts bk) d = take_off a rb UNIV (bk_contacts bk) d"
      using own [of d] by (cases "bk_contacts bk d") (auto simp: take_off_def intro: taken_off_other [symmetric])
  qed
  moreover have "\<forall>c \<in> set (rb_contacts rb). bk_contacts bk c \<noteq> None"
    using assms(1,2) unfolding bookings_ok_def by blast
  ultimately show ?thesis
    using remove_all [OF assms(1,2), of "rb_contacts rb" None] own [OF assms(3,4)] assms(3-5)
    by (auto simp: router_remove_bundle_from_route_def)
qed

lemma bookings_ok_free:
  assumes "bookings_ok bk" and "bk_bundles bk a = Some rb"
  shows "bookings_ok (free_routed a (bk\<lparr>bk_contacts := take_off a rb UNIV (bk_contacts bk)\<rparr>))"
  using bookings_ok_take_off [OF assms(1), of a rb UNIV]
  unfolding bookings_ok_def by (auto simp: free_routed_def take_off_def)

text \<open>The state after some routed bundles have been taken off all contacts and released.\<close>

fun rescheduled :: "signaling_queue \<Rightarrow> addr list \<Rightarrow> routing \<Rightarrow> routing" where
  "rescheduled q [] s = s"
| "rescheduled q (a # as) s = (case bk_bundles (rt_booking s) a of
     None \<Rightarrow> rescheduled q as s
   | Some rb \<Rightarrow> rescheduled q as (push_signal q (rb_id rb) BP_SIGNAL_RESCHEDULE_BUNDLE
       (s\<lparr>rt_booking := free_routed a (rt_booking s\<lparr>bk_contacts := take_off a rb UNIV (rt_contacts s)\<rparr>)\<rparr>)))"

lemma reschedule_loop_ok:
  assumes "bookings_ok (rt_booking s)" and "rt_contacts s c = Some ct" and "contact_bundles ct = as"
  shows "reschedule_loop (Suc (length as)) q c s = Inr (rescheduled q as s) \<and>
    bookings_ok (rt_booking (rescheduled q as s))"
  using assms
proof (induction as arbitrary: s ct)
  case Nil
  then show ?case by (simp add: deref_contact_def)
next
  case (Cons a as)
  have c: "bk_contacts (rt_booking s) c = Some ct" using Cons.prems(2) by (simp add: rt_contacts_def)
  have d: "distinct (contact_bundles ct)" using Cons.prems(1) c unfolding bookings_ok_def by blast
  obtain rb where rb: "bk_bundles (rt_booking s) a = Some rb" "unat (contact_count rb) = length (rb_contacts rb)"
    "length (rb_contacts rb) \<le> ROUTER_MAX_CONTACTS"
    using Cons.prems(1,3) c unfolding bookings_ok_def by (metis list.set_intros(1))
  let ?bk = "free_routed a (rt_booking s\<lparr>bk_contacts := take_off a rb UNIV (rt_contacts s)\<rparr>)"
  let ?s = "push_signal q (rb_id rb) BP_SIGNAL_RESCHEDULE_BUNDLE (s\<lparr>rt_booking := ?bk\<rparr>)"
  have r: "router_remove_bundle_from_route r (rb_id rb) True (rt_booking s) = Inr ?bk" if "route_contacts r = rb_contacts rb" for r
    using route_removed [OF Cons.prems(1) rb(1) c _ that] Cons.prems(3) by (simp add: rt_contacts_def)
  have "rt_contacts ?s c = Some (taken_off a rb ct)"
    using c by (simp add: rt_contacts_def push_signal_def free_routed_def take_off_def)
  moreover have "contact_bundles (taken_off a rb ct) = as" using Cons.prems(3) d by (auto intro: filter_True)
  moreover have "bookings_ok (rt_booking ?s)"
    using bookings_ok_free [OF Cons.prems(1) rb(1)] by (simp add: push_signal_def rt_contacts_def)
  ultimately have "reschedule_loop (Suc (length as)) q c ?s = Inr (rescheduled q as ?s) \<and>
      bookings_ok (rt_booking (rescheduled q as ?s))"
    by (intro Cons.IH) auto
  moreover have "reschedule_loop (Suc (length (a # as))) q c s = reschedule_loop (Suc (length as)) q c ?s"
    using Cons.prems(2,3) rb r by (subst reschedule_loop.simps) (simp add: deref_contact_def deref_routed_def del: reschedule_loop.simps)
  ultimately show ?case using rb(1) by simp
qed

text \<open>What rescheduling leaves of the bookings.\<close>

definition loses :: "addr set \<Rightarrow> contact_heap \<Rightarrow> contact_heap \<Rightarrow> bool" where
  "loses X H H' \<longleftrightarrow> (\<forall>c. map_option contact_bundles (H' c) =
     map_option (\<lambda>ct. filter (\<lambda>a. a \<notin> X) (contact_bundles ct)) (H c))"

lemma rescheduled_result:
  assumes "\<forall>a \<in> set as. bk_bundles (rt_booking s) a \<noteq> None" and "distinct as"
  shows "loses (set as) (rt_contacts s) (rt_contacts (rescheduled q as s)) \<and>
    bk_bundles (rt_booking (rescheduled q as s)) = (\<lambda>a. if a \<in> set as then None else bk_bundles (rt_booking s) a) \<and>
    map (\<lambda>x. (fst x, signal_type (snd x), signal_bundle (snd x))) (rt_signals (rescheduled q as s)) =
    map (\<lambda>x. (fst x, signal_type (snd x), signal_bundle (snd x))) (rt_signals s) @
      map (\<lambda>a. (q, BP_SIGNAL_RESCHEDULE_BUNDLE, rb_id (the (bk_bundles (rt_booking s) a)))) as"
  using assms
proof (induction as arbitrary: s)
  case Nil
  then show ?case by (simp add: loses_def)
next
  case (Cons a as)
  obtain rb where rb: "bk_bundles (rt_booking s) a = Some rb" using Cons.prems(1) by auto
  let ?s = "push_signal q (rb_id rb) BP_SIGNAL_RESCHEDULE_BUNDLE
    (s\<lparr>rt_booking := free_routed a (rt_booking s\<lparr>bk_contacts := take_off a rb UNIV (rt_contacts s)\<rparr>)\<rparr>)"
  have s: "rt_contacts ?s = take_off a rb UNIV (rt_contacts s)" "bk_bundles (rt_booking ?s) = (bk_bundles (rt_booking s))(a := None)"
    "rt_signals ?s = rt_signals s @ [(q, \<lparr>signal_type = BP_SIGNAL_RESCHEDULE_BUNDLE, signal_reason = 0, signal_bundle = rb_id rb\<rparr>)]"
    by (simp_all add: push_signal_def free_routed_def rt_contacts_def bundle_processor_inform_def)
  have "\<forall>b \<in> set as. bk_bundles (rt_booking ?s) b \<noteq> None" using Cons.prems unfolding s by auto
  note IH = Cons.IH [OF this] 
  have "map (\<lambda>b. rb_id (the (((bk_bundles (rt_booking s))(a := None)) b))) as = map (\<lambda>b. rb_id (the (bk_bundles (rt_booking s) b))) as"
    using Cons.prems(2) by auto
  moreover have "loses (set (a # as)) (rt_contacts s) H" if l: "loses (set as) (take_off a rb UNIV (rt_contacts s)) H" for H
    unfolding loses_def
  proof
    fix c
    show "map_option contact_bundles (H c) =
        map_option (\<lambda>ct. filter (\<lambda>b. b \<notin> set (a # as)) (contact_bundles ct)) (rt_contacts s c)"
      using l unfolding loses_def by (cases "rt_contacts s c") (auto simp: take_off_def conj_commute)
  qed
  ultimately show ?case
    using IH Cons.prems(2) rb unfolding s by (auto simp: fun_eq_iff)
qed

section \<open>The end of a contact\<close>

lemma remove_from_eids_booking: "remove_from_eids es c s = Inr (u, s1) \<Longrightarrow> rt_booking s1 = rt_booking s \<and> rt_signals s1 = rt_signals s"
proof (induction es arbitrary: s)
  case (Cons e es)
  have "rt_booking s0 = rt_booking s \<and> rt_signals s0 = rt_signals s"
    if "remove_contact_from_node_in_htab e c s = Inr (r, s0)" for r s0
    using that by (auto simp: remove_contact_from_node_in_htab_def Let_def split: option.splits prod.splits if_splits)
  then show ?case using Cons by (fastforce simp: obind_eq_Inr)
qed simp

lemma delete_contact_result:
  assumes "routing_table_delete_contact c s = Inr s1"
  shows "bk_bundles (rt_booking s1) = bk_bundles (rt_booking s) \<and> rt_signals s1 = rt_signals s \<and>
    rt_contacts s1 = (rt_contacts s)(c := None)"
proof -
  obtain ct s0 s2 u H where *: "deref_contact (rt_contacts s) c = Inr ct"
    "leave_node c ct s = Inr s0"
    "remove_from_eids (eid_names (contact_endpoints ct)) c s0 = Inr (u, s2)"
    "free_contact_internal (rt_contacts s2) c = Inr H"
    "s1 = with_contacts H (s2\<lparr>contact_list := snd (remove_contact_from_list (contact_list s2) c)\<rparr>)"
    using assms by (auto simp: routing_table_delete_contact_def c_assert_eq_Inr obind_eq_Inr)
  have "rt_booking s0 = rt_booking s \<and> rt_signals s0 = rt_signals s"
  proof (cases "contact_node ct = 0")
    case False
    then obtain nd u' t where "remove_from_eids (node_eid nd # eid_names (endpoints nd)) c s = Inr (u', t)"
      "s0 = put_node (contact_node ct) (Some (nd\<lparr>node_contacts := snd (remove_contact_from_list (node_contacts nd) c)\<rparr>)) t"
      using *(2) by (auto simp: leave_node_def obind_eq_Inr simp del: remove_from_eids.simps)
    then show ?thesis using remove_from_eids_booking by (simp add: put_node_def del: remove_from_eids.simps)
  qed (use *(2) in \<open>simp add: leave_node_def\<close>)
  then have "rt_booking s2 = rt_booking s \<and> rt_signals s2 = rt_signals s" using remove_from_eids_booking [OF *(3)] by simp
  moreover have "H = (rt_contacts s2)(c := None)"
    using *(4) by (auto simp: free_contact_internal_def obind_eq_Inr c_assert_eq_Inr)
  ultimately show ?thesis using *(5) by (simp add: with_contacts_def rt_contacts_def)
qed

lemma pass_dead:
  "a \<in> set as \<Longrightarrow> bk_bundles (rt_booking s) a = None \<Longrightarrow> rt_contacts s c \<noteq> None \<Longrightarrow> pass_bundles q c as s = Inl Use_After_Free"
  by (induction as arbitrary: s)
    (auto simp: deref_routed_def deref_contact_def put_contact_def with_contacts_def push_signal_def rt_contacts_def
      free_routed_def split: option.splits)

lemma pass_bundles_result:
  assumes "pass_bundles q c as s = Inr s1"
  shows "bk_bundles (rt_booking s1) = (\<lambda>a. if a \<in> set as then None else bk_bundles (rt_booking s) a) \<and>
    (\<forall>d. d \<noteq> c \<longrightarrow> rt_contacts s1 d = rt_contacts s d) \<and>
    map (\<lambda>x. (fst x, signal_type (snd x), signal_bundle (snd x))) (rt_signals s1) =
    map (\<lambda>x. (fst x, signal_type (snd x), signal_bundle (snd x))) (rt_signals s) @
      map (\<lambda>a. (q, BP_SIGNAL_RESCHEDULE_BUNDLE, rb_id (the (bk_bundles (rt_booking s) a)))) as"
  using assms
proof (induction as arbitrary: s)
  case (Cons a as)
  obtain rb ct where rb: "bk_bundles (rt_booking s) a = Some rb" "rt_contacts s c = Some ct"
    using Cons.prems by (auto simp: obind_eq_Inr deref_routed_def deref_contact_def split: option.splits)
  let ?s = "put_contact c (ct\<lparr>contact_bundles := as\<rparr>)
    (push_signal q (rb_id rb) BP_SIGNAL_RESCHEDULE_BUNDLE (s\<lparr>rt_booking := free_routed a (rt_booking s)\<rparr>))"
  have s: "pass_bundles q c as ?s = Inr s1" "bk_bundles (rt_booking ?s) = (bk_bundles (rt_booking s))(a := None)"
    "rt_contacts ?s = (rt_contacts s)(c \<mapsto> ct\<lparr>contact_bundles := as\<rparr>)"
    "rt_signals ?s = rt_signals s @ [(q, \<lparr>signal_type = BP_SIGNAL_RESCHEDULE_BUNDLE, signal_reason = 0, signal_bundle = rb_id rb\<rparr>)]"
    using Cons.prems rb
    by (simp_all add: deref_routed_def deref_contact_def put_contact_def with_contacts_def push_signal_def rt_contacts_def
        free_routed_def bundle_processor_inform_def)
  have "a \<notin> set as" using pass_dead [of a as ?s c q] s by auto
  then have "map (\<lambda>b. rb_id (the (((bk_bundles (rt_booking s))(a := None)) b))) as = map (\<lambda>b. rb_id (the (bk_bundles (rt_booking s) b))) as"
    by auto
  then show ?case using Cons.IH [OF s(1)] rb unfolding s(2-4) by (auto simp: fun_eq_iff)
qed simp

section \<open>Properties\<close>

text \<open>The signals with their queues, without the reasons.\<close>

definition signals :: "routing \<Rightarrow> (signaling_queue \<times> bundle_processor_signal_type \<times> bundleid_t) list" where
  "signals s = map (\<lambda>x. (fst x, signal_type (snd x), signal_bundle (snd x))) (rt_signals s)"

text \<open>
  C17 (termination). With bookings in order, rescheduling the bundles of a contact returns: all of them are
  off every contact and released, each is signalled once, in the order of the list, to be routed again, no other bundle is
  touched and the bookings are still in order.
\<close>

theorem reschedule_returns:
  assumes "bookings_ok (rt_booking s)" and "rt_contacts s c = Some ct"
  shows "\<exists>s1. reschedule_bundles q c s = Inr s1 \<and> bookings_ok (rt_booking s1) \<and>
    (\<forall>d. map_option contact_bundles (rt_contacts s1 d) =
       map_option (\<lambda>dt. filter (\<lambda>a. a \<notin> set (contact_bundles ct)) (contact_bundles dt)) (rt_contacts s d)) \<and>
    bk_bundles (rt_booking s1) =
      (\<lambda>a. if a \<in> set (contact_bundles ct) then None else bk_bundles (rt_booking s) a) \<and>
    signals s1 = signals s @
      map (\<lambda>a. (q, BP_SIGNAL_RESCHEDULE_BUNDLE, rb_id (the (bk_bundles (rt_booking s) a)))) (contact_bundles ct)"
proof -
  let ?as = "contact_bundles ct" and ?s1 = "rescheduled q (contact_bundles ct) s"
  have c: "bk_contacts (rt_booking s) c = Some ct" using assms(2) by (simp add: rt_contacts_def)
  then have "distinct ?as" "\<forall>a \<in> set ?as. bk_bundles (rt_booking s) a \<noteq> None"
    using assms(1) unfolding bookings_ok_def by blast+
  then show ?thesis
    using reschedule_loop_ok [OF assms refl, of q] rescheduled_result [of ?as s q] assms(2)
    by (intro exI [of _ ?s1]) (simp add: reschedule_bundles_def deref_contact_def loses_def signals_def del: reschedule_loop.simps)
qed

text \<open>
  C22 (safety). When a contact has passed, it and the bundles in its list are released, and each bundle is signalled once to
  be routed again. But such a bundle is released even when another contact lists it too: when that contact passes as well,
  the released bundle is used.
\<close>

theorem passed_contact_dangling:
  assumes "routing_table_contact_passed q c s = Inr s1" and "rt_contacts s c = Some ct" and "contact_node ct \<noteq> 0"
  shows "rt_contacts s1 c = None \<and>
    bk_bundles (rt_booking s1) = (\<lambda>a. if a \<in> set (contact_bundles ct) then None else bk_bundles (rt_booking s) a) \<and>
    signals s1 = signals s @
      map (\<lambda>a. (q, BP_SIGNAL_RESCHEDULE_BUNDLE, rb_id (the (bk_bundles (rt_booking s) a)))) (contact_bundles ct) \<and>
    (\<forall>d dt. d \<noteq> c \<and> rt_contacts s d = Some dt \<and> contact_node dt \<noteq> 0 \<and>
        set (contact_bundles ct) \<inter> set (contact_bundles dt) \<noteq> {} \<longrightarrow>
      routing_table_contact_passed q d s1 = Inl Use_After_Free)"
proof -
  obtain s0 where s0: "pass_bundles q c (contact_bundles ct) s = Inr s0" "routing_table_delete_contact c s0 = Inr s1"
    using assms by (auto simp: routing_table_contact_passed_def deref_contact_def obind_eq_Inr)
  note p = pass_bundles_result [OF s0(1)] and d = delete_contact_result [OF s0(2)]
  have "routing_table_contact_passed q d s1 = Inl Use_After_Free"
    if h: "d \<noteq> c" "rt_contacts s d = Some dt" "contact_node dt \<noteq> 0" "set (contact_bundles ct) \<inter> set (contact_bundles dt) \<noteq> {}" for d dt
  proof -
    have dt: "rt_contacts s1 d = Some dt" using h(1,2) p d by simp
    obtain a where a: "a \<in> set (contact_bundles dt)" "a \<in> set (contact_bundles ct)" using h(4) by blast
    then have dead: "bk_bundles (rt_booking s1) a = None" using p d by simp
    have "pass_bundles q d (contact_bundles dt) s1 = Inl Use_After_Free"
      using pass_dead [OF a(1) dead] dt by simp
    then show ?thesis using dt h(3) by (simp add: routing_table_contact_passed_def deref_contact_def)
  qed
  then show ?thesis using p d unfolding signals_def by auto
qed

text \<open>Two contacts of a node with a bundle that has been booked on both.\<close>

definition shared_bundle :: routed_bundle where
  "shared_bundle = \<lparr>rb_id = 9, rb_destination = ''dtn:gs'', preemption_improvement = 0, prio = BUNDLE_RPRIO_NORMAL,
     rb_size = 100, exp_time = 90, rb_contacts = [1, 2], contact_count = 2, serialized = 0, transmitted = 0\<rparr>"

definition sharing_contact :: "u64 \<Rightarrow> contact" where
  "sharing_contact start = (sample_open_contact start)\<lparr>contact_bundles := [700], bundle_count := 1\<rparr>"

definition shared_booking :: booking where
  "shared_booking = \<lparr>bk_memory = [], bk_contacts = [1 \<mapsto> sharing_contact 20, 2 \<mapsto> sharing_contact 40],
     bk_bundles = [700 \<mapsto> shared_bundle]\<rparr>"

definition shared_routing :: routing where
  "shared_routing = \<lparr>rt_booking = shared_booking, rt_nodes = [1 \<mapsto> \<lparr>node_eid = Some ''dtn:gs'', cla_addr = Some ''mtcp:'',
       node_flags = 0, trustworthiness = 1, reliability = 1, endpoints = [], node_contacts = [1, 2]\<rparr>],
     node_list = [1], contact_list = [1, 2], eid_table = (\<lambda>_. None), eid_table_initialized = True, rt_signals = []\<rparr>"

lemma shared_ok: "bookings_ok (rt_booking shared_routing)"
  by (auto simp: bookings_ok_def shared_routing_def shared_booking_def sharing_contact_def shared_bundle_def split: if_splits)

theorem reschedule_returns_witness:
  "\<exists>s1. reschedule_bundles Bp_Queue 1 shared_routing = Inr s1 \<and>
    map_option contact_bundles (rt_contacts s1 2) = Some [] \<and> bk_bundles (rt_booking s1) 700 = None \<and>
    signals s1 = [(Bp_Queue, BP_SIGNAL_RESCHEDULE_BUNDLE, 9)]"
proof -
  have c: "rt_contacts shared_routing 1 = Some (sharing_contact 20)" "rt_contacts shared_routing 2 = Some (sharing_contact 40)"
    by (simp_all add: shared_routing_def shared_booking_def rt_contacts_def)
  have as: "contact_bundles (sharing_contact t) = [700]" for t by (simp add: sharing_contact_def)
  from reschedule_returns [OF shared_ok c(1), of Bp_Queue] obtain s1 where s1:
    "reschedule_bundles Bp_Queue 1 shared_routing = Inr s1"
    "\<forall>d. map_option contact_bundles (rt_contacts s1 d) =
       map_option (\<lambda>dt. filter (\<lambda>a. a \<notin> set [700]) (contact_bundles dt)) (rt_contacts shared_routing d)"
    "bk_bundles (rt_booking s1) = (\<lambda>a. if a \<in> set [700] then None else bk_bundles (rt_booking shared_routing) a)"
    "signals s1 = signals shared_routing @
      map (\<lambda>a. (Bp_Queue, BP_SIGNAL_RESCHEDULE_BUNDLE, rb_id (the (bk_bundles (rt_booking shared_routing) a)))) [700]"
    unfolding as by blast
  have "map_option contact_bundles (rt_contacts s1 2) = Some []" using s1(2) c(2) as by simp
  moreover have "signals s1 = [(Bp_Queue, BP_SIGNAL_RESCHEDULE_BUNDLE, 9)]"
    using s1(4) by (simp add: signals_def shared_routing_def shared_booking_def shared_bundle_def)
  ultimately show ?thesis using s1(1,3) by auto
qed

theorem passed_contact_dangling_witness:
  "\<exists>s1. routing_table_contact_passed Bp_Queue 1 shared_routing = Inr s1 \<and>
    routing_table_contact_passed Bp_Queue 2 s1 = Inl Use_After_Free"
proof -
  have c: "rt_contacts shared_routing 1 = Some (sharing_contact 20)" "rt_contacts shared_routing 2 = Some (sharing_contact 40)"
    by (simp_all add: shared_routing_def shared_booking_def rt_contacts_def)
  have "case routing_table_contact_passed Bp_Queue 1 shared_routing of Inl x \<Rightarrow> False | Inr s1 \<Rightarrow> True" by code_simp
  then obtain s1 where s1: "routing_table_contact_passed Bp_Queue 1 shared_routing = Inr s1"
    by (cases "routing_table_contact_passed Bp_Queue 1 shared_routing") simp_all
  have n: "contact_node (sharing_contact t) \<noteq> 0" "contact_bundles (sharing_contact t) = [700]" for t
    by (simp_all add: sharing_contact_def sample_open_contact_def sample_contact_def)
  have "routing_table_contact_passed Bp_Queue 2 s1 = Inl Use_After_Free"
    using passed_contact_dangling [OF s1 c(1) n(1), THEN conjunct2, THEN conjunct2, THEN conjunct2, rule_format,
        of 2 "sharing_contact 40"] c(2) n by simp
  then show ?thesis using s1 by blast
qed

end
