(* ===== verification/Router_Task.thy ===== *)
theory Router_Task
  imports Routing_Table
begin

text \<open>
  The router task, \<open>components/upcn/router_task.c\<close>: one handler per signal of its queue. It works on the routing table,
  the bundle store and the bundles in memory; while it uses the table it holds the semaphore it shares with the contact manager,
  so a handler is one step. The queue of the contact manager has room for one signal. The addresses of the fragments
  it creates come from \<open>tk_addresses\<close>, the other allocations are those of the routing table.
\<close>

section \<open>State\<close>

record router_task_state =
  tk_routing :: routing
  tk_heap :: bundle_heap
  tk_store :: storage_state
  tk_addresses :: "addr list"
  tk_cm_queue :: "u8 option"

type_synonym 'a task = "(router_task_state, 'a) handler"

record task_env =
  routing_env :: router_env
  task_config :: router_config
  route_junk :: u8

abbreviation (input) "BUNDLE_SR_REASON_NO_KNOWN_ROUTE \<equiv> (6 :: u32)"
abbreviation (input) "BUNDLE_SR_REASON_NO_TIMELY_CONTACT \<equiv> (7 :: u32)"
abbreviation (input) "CM_SIGNAL_UPDATE_CONTACT_LIST \<equiv> (1 :: u8)"
abbreviation (input) "CM_SIGNAL_PROCESS_CURRENT_BUNDLES \<equiv> (2 :: u8)"
abbreviation (input) "BUNDLE_RESULT_NO_ROUTE \<equiv> (0 :: int)"
abbreviation (input) "BUNDLE_RESULT_NO_TIMELY_CONTACTS \<equiv> (- 1 :: int)"
abbreviation (input) "BUNDLE_RESULT_NO_MEMORY \<equiv> (- 2 :: int)"
abbreviation (input) "BUNDLE_RESULT_INVALID \<equiv> (- 3 :: int)"

record bundle_processing_result =
  status_or_fragments :: int
  fragment_ids :: "bundleid_t list"

section \<open>Operations of the other components\<close>

definition on_routing :: "(routing \<Rightarrow> routing outcome) \<Rightarrow> unit task" where
  "on_routing f s = obind (f (tk_routing s)) (\<lambda>r. Inr ((), s\<lparr>tk_routing := r\<rparr>))"

definition on_routing_result :: "(routing, 'a) handler \<Rightarrow> 'a task" where
  "on_routing_result f s = obind (f (tk_routing s)) (\<lambda>(x, r). Inr (x, s\<lparr>tk_routing := r\<rparr>))"

definition task_bundle :: "addr \<Rightarrow> bundle_t task" where
  "task_bundle a s = obind (deref_bundle (tk_heap s) a) (\<lambda>b. Inr (b, s))"

text \<open>An operation that allocates and may update the bundle.\<close>

definition on_bundle :: "(alloc_trace \<Rightarrow> bundle_t \<Rightarrow> ('a \<times> bundle_t \<times> alloc_trace) outcome) \<Rightarrow> addr \<Rightarrow> 'a task" where
  "on_bundle f a s =
     obind (deref_bundle (tk_heap s) a) (\<lambda>b.
     obind (f (rt_memory (tk_routing s)) b) (\<lambda>(x, b1, m).
       Inr (x, s\<lparr>tk_heap := (tk_heap s)(a \<mapsto> b1), tk_routing := with_rt_memory m (tk_routing s)\<rparr>)))"

definition task_place :: "bundle_t option \<Rightarrow> addr option task" where
  "task_place r s = (case (r, tk_addresses s) of
       (Some b, a # as) \<Rightarrow> Inr (Some a, s\<lparr>tk_addresses := as, tk_heap := (tk_heap s)(a \<mapsto> b)\<rparr>)
     | _ \<Rightarrow> Inr (None, s))"

definition task_store :: "addr \<Rightarrow> unit task" where
  "task_store a s = (case malloc (rt_memory (tk_routing s)) of (mem, m) \<Rightarrow>
     obind (bundle_storage_add mem a (tk_store s) (tk_heap s)) (\<lambda>r. case r of
         None \<Rightarrow> Inl No_Return
       | Some (_, st, H) \<Rightarrow> Inr ((), s\<lparr>tk_store := st, tk_heap := H, tk_routing := with_rt_memory m (tk_routing s)\<rparr>)))"

definition task_unstore :: "addr \<Rightarrow> unit task" where
  "task_unstore a s =
     obind (deref_bundle (tk_heap s) a) (\<lambda>b.
     obind (bundle_storage_delete (bundle_id b) (tk_store s) (tk_heap s)) (\<lambda>(_, st). Inr ((), s\<lparr>tk_store := st\<rparr>)))"

definition bundle_free :: "addr \<Rightarrow> unit task" where
  "bundle_free a s = obind (deref_bundle (tk_heap s) a) (\<lambda>_. Inr ((), s\<lparr>tk_heap := (tk_heap s)(a := None)\<rparr>))"

definition inform_bp :: "bundleid_t \<Rightarrow> bundle_processor_signal_type \<Rightarrow> u32 \<Rightarrow> unit task" where
  "inform_bp k t reason = pupdate (\<lambda>s. s\<lparr>tk_routing := (tk_routing s)\<lparr>rt_signals :=
     rt_signals (tk_routing s) @ map (Pair Bp_Queue) (bundle_processor_inform [] k t reason)\<rparr>\<rparr>)"

text \<open>When the queue is full, its signal is replaced by one that has everything checked.\<close>

definition wake_up_contact_manager :: "u8 \<Rightarrow> unit task" where
  "wake_up_contact_manager cm_signal = pupdate (\<lambda>s. s\<lparr>tk_cm_queue :=
     Some (if tk_cm_queue s = None then cm_signal
           else CM_SIGNAL_UPDATE_CONTACT_LIST OR CM_SIGNAL_PROCESS_CURRENT_BUNDLES)\<rparr>)"

section \<open>Routing of a bundle\<close>

text \<open>The route is computed on the table as it is.\<close>

definition task_env_at :: "task_env \<Rightarrow> routing \<Rightarrow> router_env" where
  "task_env_at env s = (routing_env env)\<lparr>lookup_eid := (\<lambda>e. map_option entry_contacts (routing_table_lookup_eid e s))\<rparr>"

definition task_route :: "task_env \<Rightarrow> addr \<Rightarrow> router_result task" where
  "task_route env a s = on_bundle (\<lambda>m b. router_get_first_route (task_env_at env (tk_routing s)) (task_config env)
     (route_junk env) m (rt_contacts (tk_routing s)) (rt_nodes (tk_routing s)) b) a s"

definition task_add_to_route :: "task_env \<Rightarrow> fragment_route \<Rightarrow> addr \<Rightarrow> bool task" where
  "task_add_to_route env r a s =
     obind (deref_bundle (tk_heap s) a) (\<lambda>b.
     obind (router_add_bundle_to_route (router_now (routing_env env)) r b (rt_booking (tk_routing s))) (\<lambda>(ok, b1, bk).
       Inr (ok, s\<lparr>tk_heap := (tk_heap s)(a \<mapsto> b1), tk_routing := (tk_routing s)\<lparr>rt_booking := bk\<rparr>\<rparr>)))"

definition task_remove_from_route :: "fragment_route \<Rightarrow> addr \<Rightarrow> unit task" where
  "task_remove_from_route r a s =
     obind (deref_bundle (tk_heap s) a) (\<lambda>b.
       on_routing (\<lambda>rt. obind (router_remove_bundle_from_route r (bundle_id b) True (rt_booking rt)) (\<lambda>bk.
         Inr (rt\<lparr>rt_booking := bk\<rparr>))) s)"

fun each :: "('b \<Rightarrow> unit task) \<Rightarrow> 'b list \<Rightarrow> unit task" where
  "each f [] = preturn ()"
| "each f (x # xs) = pseq (f x) (each f xs)"

text \<open>
  The fragments but for the last, of \<open>n\<close> in all, from number \<open>f\<close> on, with their payload sizes; \<open>frags\<close> are those
  there are already. A fragment that the rest of the payload fits in is returned as the next one.
\<close>

fun split_fragments :: "addr \<Rightarrow> nat \<Rightarrow> nat \<Rightarrow> u32 list \<Rightarrow> addr list \<Rightarrow> addr list option task" where
  "split_fragments bundle n f [] frags = preturn (Some frags)"
| "split_fragments bundle n f (pay # pays) frags =
     pbind (on_bundle (if f = 0 then bundle_get_first_fragment_min_size
         else if f = n - 1 then bundle_get_last_fragment_min_size else bundle_get_mid_fragment_min_size) bundle) (\<lambda>min_size.
     pbind (on_bundle (\<lambda>m b. bundlefragmenter_fragment_bundle m b (ucast ((ucast min_size :: u32) + pay))) (last frags)) (\<lambda>r.
       let failed = pseq (each bundle_free frags) (preturn None) in
       case r of
         Fragment_None \<Rightarrow> failed
       | Fragment_Whole \<Rightarrow> split_fragments bundle n (f + 1) pays (frags @ [last frags])
       | Fragment_Remainder b \<Rightarrow> pbind (task_place (Some b)) (\<lambda>p. case p of
             None \<Rightarrow> failed
           | Some a \<Rightarrow> split_fragments bundle n (f + 1) pays (frags @ [a]))))"

text \<open>Storing and booking the fragments; after a failure those that have been booked are taken back and all are released.\<close>

fun add_fragments :: "task_env \<Rightarrow> (addr \<times> fragment_route) list \<Rightarrow> (addr \<times> fragment_route) list \<Rightarrow> bool task" where
  "add_fragments env added [] = preturn True"
| "add_fragments env added (x # xs) =
     pseq (task_store (fst x)) (pbind (task_add_to_route env (snd x) (fst x)) (\<lambda>ok.
       if ok then add_fragments env (added @ [x]) xs
       else pseq (each (\<lambda>y. task_remove_from_route (snd y) (fst y)) added)
           (pseq (each (\<lambda>y. pseq (task_unstore (fst y)) (bundle_free (fst y))) (added @ [x]))
           (pseq (each (\<lambda>y. bundle_free (fst y)) xs) (preturn False)))))"

definition fragment_id_list :: "addr list \<Rightarrow> bundleid_t list task" where
  "fragment_id_list frags s = (if list_all (\<lambda>a. tk_heap s a \<noteq> None) frags
     then Inr (map (\<lambda>a. bundle_id (the (tk_heap s a))) frags, s) else Inl Use_After_Free)"

definition apply_fragmentation :: "task_env \<Rightarrow> addr \<Rightarrow> router_result \<Rightarrow> bundle_processing_result task" where
  "apply_fragmentation env bundle route =
     (let routes = fragment_results route; n = length routes;
          no_memory = preturn \<lparr>status_or_fragments = BUNDLE_RESULT_NO_MEMORY, fragment_ids = []\<rparr> in
      pbind (on_bundle (\<lambda>m b. obind (bundlefragmenter_initialize_first_fragment m b) (\<lambda>(r, m1). Inr (r, b, m1))) bundle)
        (\<lambda>r. pbind (task_place r) (\<lambda>p. case p of
          None \<Rightarrow> no_memory
        | Some first \<Rightarrow>
            pbind (split_fragments bundle n 0 (butlast (map route_payload_size routes)) [first]) (\<lambda>frags. case frags of
                None \<Rightarrow> no_memory
              | Some fs \<Rightarrow> pbind (add_fragments env [] (zip fs routes)) (\<lambda>ok.
                  if \<not> ok then no_memory
                  else pseq (task_unstore bundle) (pseq (bundle_free bundle)
                      (pbind (fragment_id_list (take n fs)) (\<lambda>ids.
                        preturn \<lparr>status_or_fragments = int n, fragment_ids = ids\<rparr>))))))))"

definition process_bundle :: "task_env \<Rightarrow> addr \<Rightarrow> bundle_processing_result task" where
  "process_bundle env bundle =
     pbind (task_route env bundle) (\<lambda>route.
       if length (fragment_results route) = 1
       then pbind (task_bundle bundle) (\<lambda>b. pbind (task_add_to_route env (hd (fragment_results route)) bundle) (\<lambda>ok.
              preturn \<lparr>status_or_fragments = (if ok then 1 else BUNDLE_RESULT_NO_MEMORY), fragment_ids = [bundle_id b]\<rparr>))
       else apply_fragmentation env bundle route)"

definition get_reason :: "int \<Rightarrow> u32" where
  "get_reason bh_result =
     (if bh_result = BUNDLE_RESULT_NO_ROUTE then BUNDLE_SR_REASON_NO_KNOWN_ROUTE
      else if bh_result = BUNDLE_RESULT_NO_MEMORY then BUNDLE_SR_REASON_DEPLETED_STORAGE
      else BUNDLE_SR_REASON_NO_TIMELY_CONTACT)"

section \<open>Commands and signals\<close>

datatype router_command_type = ROUTER_COMMAND_UNDEFINED | ROUTER_COMMAND_ADD | ROUTER_COMMAND_UPDATE
  | ROUTER_COMMAND_DELETE | ROUTER_COMMAND_QUERY

record router_command =
  command_type :: router_command_type
  command_node :: addr

definition prepare_node :: "addr \<Rightarrow> bool task" where
  "prepare_node a = on_routing_result (\<lambda>rt. obind (deref_node (rt_nodes rt) a) (\<lambda>nd.
     obind (node_prepare_and_verify (rt_contacts rt) nd) (\<lambda>(ok, H, nd1).
       Inr (ok, put_node a (Some nd1) (with_contacts H rt)))))"

definition process_router_command :: "router_command \<Rightarrow> bool task" where
  "process_router_command cmd =
     (let node = command_node cmd; release = pseq (on_routing (release_node node)) (preturn False) in
      pbind (prepare_node node) (\<lambda>ok.
        if \<not> ok then release
        else (case command_type cmd of
            ROUTER_COMMAND_ADD \<Rightarrow> pseq (on_routing (routing_table_add_node Bp_Queue node)) (preturn True)
          | ROUTER_COMMAND_UPDATE \<Rightarrow> pseq (on_routing (routing_table_replace_node Bp_Queue node)) (preturn True)
          | ROUTER_COMMAND_DELETE \<Rightarrow> on_routing_result (routing_table_delete_node Bp_Queue node)
          | _ \<Rightarrow> release)))"

datatype router_signal =
  ROUTER_SIGNAL_UNKNOWN
| ROUTER_SIGNAL_PROCESS_COMMAND router_command
| ROUTER_SIGNAL_ROUTE_BUNDLE bundleid_t
| ROUTER_SIGNAL_CONTACT_OVER addr
| ROUTER_SIGNAL_TRANSMISSION_SUCCESS addr
| ROUTER_SIGNAL_TRANSMISSION_FAILURE addr
| ROUTER_SIGNAL_WITHDRAW_NODE addr
| ROUTER_SIGNAL_OPTIMIZATION_DROP addr
| ROUTER_SIGNAL_NEW_LINK_ESTABLISHED

definition task_routed :: "addr \<Rightarrow> routed_bundle task" where
  "task_routed a s = obind (deref_routed (rt_booking (tk_routing s)) a) (\<lambda>rb. Inr (rb, s))"

definition task_free_routed :: "addr \<Rightarrow> unit task" where
  "task_free_routed a = on_routing (\<lambda>rt. Inr (rt\<lparr>rt_booking := free_routed a (rt_booking rt)\<rparr>))"

text \<open>Both outcomes of a transmission: the last contact of the bundle to report tells the bundle processor.\<close>

definition transmission_done :: "addr \<Rightarrow> bool task" where
  "transmission_done a =
     pbind (task_routed a) (\<lambda>rb.
       pseq (pwhen (serialized rb = contact_count rb)
         (pseq (inform_bp (rb_id rb) (if serialized rb = transmitted rb then BP_SIGNAL_TRANSMISSION_SUCCESS
              else BP_SIGNAL_TRANSMISSION_FAILURE) BUNDLE_SR_REASON_NO_INFO)
           (task_free_routed a))) (preturn True))"

definition route_bundle :: "task_env \<Rightarrow> bundleid_t \<Rightarrow> bool task" where
  "route_bundle env k =
     pbind (pread (\<lambda>s. bundle_storage_get k (tk_store s))) (\<lambda>b.
     pbind (case b of None \<Rightarrow> preturn \<lparr>status_or_fragments = BUNDLE_RESULT_INVALID, fragment_ids = []\<rparr>
         | Some a \<Rightarrow> process_bundle env a) (\<lambda>res.
       if status_or_fragments res < 1
       then pseq (inform_bp k BP_SIGNAL_FORWARDING_CONTRAINDICATED (get_reason (status_or_fragments res))) (preturn False)
       else pseq (each (\<lambda>k'. inform_bp k' BP_SIGNAL_BUNDLE_ROUTED BUNDLE_SR_REASON_NO_INFO) (fragment_ids res))
           (pseq (wake_up_contact_manager CM_SIGNAL_PROCESS_CURRENT_BUNDLES) (preturn True))))"

definition process_signal :: "task_env \<Rightarrow> router_signal \<Rightarrow> bool task" where
  "process_signal env signal = (case signal of
       ROUTER_SIGNAL_PROCESS_COMMAND cmd \<Rightarrow>
         pbind (process_router_command cmd) (\<lambda>success.
           pseq (pwhen success (wake_up_contact_manager CM_SIGNAL_UPDATE_CONTACT_LIST)) (preturn success))
     | ROUTER_SIGNAL_ROUTE_BUNDLE k \<Rightarrow> route_bundle env k
     | ROUTER_SIGNAL_CONTACT_OVER c \<Rightarrow> pseq (on_routing (routing_table_contact_passed Bp_Queue c)) (preturn True)
     | ROUTER_SIGNAL_TRANSMISSION_SUCCESS a \<Rightarrow> transmission_done a
     | ROUTER_SIGNAL_TRANSMISSION_FAILURE a \<Rightarrow> transmission_done a
     | ROUTER_SIGNAL_OPTIMIZATION_DROP a \<Rightarrow>
         pbind (task_routed a) (\<lambda>rb. pseq (inform_bp (rb_id rb) BP_SIGNAL_TRANSMISSION_FAILURE BUNDLE_SR_REASON_NO_INFO)
           (pseq (task_free_routed a) (preturn True)))
     | ROUTER_SIGNAL_WITHDRAW_NODE a \<Rightarrow>
         pbind (\<lambda>s. obind (deref_node (rt_nodes (tk_routing s)) a) (\<lambda>nd. Inr (node_eid nd, s))) (\<lambda>eid.
           pseq (on_routing (\<lambda>rt. obind (routing_table_delete_node_by_eid Router_Queue eid rt) (\<lambda>(_, rt1). Inr rt1)))
             (preturn True))
     | ROUTER_SIGNAL_NEW_LINK_ESTABLISHED \<Rightarrow>
         pseq (wake_up_contact_manager CM_SIGNAL_PROCESS_CURRENT_BUNDLES) (preturn True)
     | ROUTER_SIGNAL_UNKNOWN \<Rightarrow> preturn False)"

text \<open>The task: the signals of its queue in order, each at its time.\<close>

fun router_task :: "(task_env \<times> router_signal) list \<Rightarrow> unit task" where
  "router_task [] = preturn ()"
| "router_task ((env, signal) # rest) = pbind (process_signal env signal) (\<lambda>_. router_task rest)"

text \<open>An environment for examples, with no convergence layers.\<close>

definition sample_task_env :: task_env where
  "sample_task_env = \<lparr>routing_env = \<lparr>rounding = (\<lambda>x. x), router_now = 5, available_clas = [], lookup_eid = (\<lambda>_. None)\<rparr>,
     task_config = router_default_config, route_junk = 0\<rparr>"

end
