(* ===== verification/Router_Delivery.thy ===== *)
theory Router_Delivery
  imports Router_Task Processor_Safety
begin

text \<open>
  What the router task makes of a bundle for which it finds no route, and how the bundle processor takes its signal.
\<close>

lemma task_route_store: "task_route env a s = Inr (route, s1) \<Longrightarrow> tk_store s1 = tk_store s"
  by (auto simp: task_route_def on_bundle_def obind_eq_Inr)

section \<open>Properties\<close>

text \<open>
  C20 (error). A stored bundle for which the router finds no route is lost: the task, given memory for it, makes a first fragment of it that nothing
  refers to, takes the bundle out of the store, releases it, and tells the bundle processor that forwarding it
  is contraindicated. The bundle processor does not find the bundle any more and does nothing: no status report is sent, no
  custody is released and the forwarding is not tried again.
\<close>

theorem unroutable_bundle_lost:
  assumes stored: "bundle_storage_get k (tk_store s) = Some a"
    and route: "task_route env a s = Inr (route, s1)" "fragment_results route = []"
    and b: "tk_heap s1 a = Some b" "bundle_id b = k"
    and frag: "bundlefragmenter_initialize_first_fragment (rt_memory (tk_routing s1)) b = Inr (Some frag, m)"
      "tk_addresses s1 = x # xs" "x \<noteq> a"
    and store: "store_inv (tk_store s1) ((tk_heap s1)(x \<mapsto> frag))"
      "stored_bytes (tk_store s1) ((tk_heap s1)(x \<mapsto> frag)) < 2 ^ 32"
  shows "\<exists>s2. process_signal env (ROUTER_SIGNAL_ROUTE_BUNDLE k) s = Inr (False, s2) \<and>
    (\<forall>j. bundle_storage_get j (tk_store s2) = (if j = k then None else bundle_storage_get j (tk_store s))) \<and>
    tk_heap s2 = (tk_heap s1)(x \<mapsto> frag, a := None) \<and>
    (let signal = \<lparr>signal_type = BP_SIGNAL_FORWARDING_CONTRAINDICATED, signal_reason = BUNDLE_SR_REASON_NO_KNOWN_ROUTE,
           signal_bundle = k\<rparr>
     in rt_signals (tk_routing s2) = rt_signals (tk_routing s1) @ [(Bp_Queue, signal)] \<and>
       (\<forall>depth benv bp. bp_store bp = tk_store s2 \<longrightarrow> handle_signal depth benv signal bp = Inr ((), bp)))"
proof -
  have same: "tk_store s1 = tk_store s" by (rule task_route_store [OF route(1)])
  let ?H = "(tk_heap s1)(x \<mapsto> frag)"
  obtain st where st: "bundle_storage_delete k (tk_store s1) ?H = Inr (True, st)"
    "store_inv st ?H" "store_map st = (store_map (tk_store s1))(k := None)"
    using store_inv_delete [OF store(1) _ store(2)] stored store(1) same
    by (metis bundle_storage_get_eq store_inv_def)
  have get: "bundle_storage_get j st = (if j = k then None else bundle_storage_get j (tk_store s))" for j
    using st(2,3) store(1) same by (simp add: bundle_storage_get_eq store_inv_def)
  let ?rt = "with_rt_memory m (tk_routing s1)"
  let ?s = "s1\<lparr>tk_heap := ?H(a := None), tk_store := st, tk_addresses := xs, tk_routing := ?rt\<rparr>"
  have upd: "(tk_heap s1)(a \<mapsto> b) = tk_heap s1" using b(1) by auto
  have "apply_fragmentation env a route s1 = Inr (\<lparr>status_or_fragments = 0, fragment_ids = []\<rparr>, ?s)"
    using route(2) b frag st(1) upd
    by (simp add: apply_fragmentation_def Let_def run on_bundle_def deref_bundle_def task_place_def task_unstore_def
        bundle_free_def fragment_id_list_def fun_upd_twist [of a x])
  then have "process_bundle env a s = Inr (\<lparr>status_or_fragments = 0, fragment_ids = []\<rparr>, ?s)"
    using route by (simp add: process_bundle_def run)
  then have "process_signal env (ROUTER_SIGNAL_ROUTE_BUNDLE k) s = Inr (False, ?s\<lparr>tk_routing := ?rt\<lparr>rt_signals :=
      rt_signals ?rt @ [(Bp_Queue, \<lparr>signal_type = BP_SIGNAL_FORWARDING_CONTRAINDICATED,
        signal_reason = BUNDLE_SR_REASON_NO_KNOWN_ROUTE, signal_bundle = k\<rparr>)]\<rparr>\<rparr>)"
    using stored by (simp add: process_signal_def route_bundle_def run inform_bp_def bundle_processor_inform_def get_reason_def)
  moreover have "handle_signal depth benv signal bp = Inr ((), bp)"
    if "bp_store bp = st" "signal_bundle signal = k" for depth benv signal bp
    using get [of k] that by (simp add: handle_signal_def Let_def run)
  ultimately show ?thesis
    using get by (simp add: with_rt_memory_def Let_def)
qed

text \<open>A stored bundle, and no node that could take it.\<close>

definition sample_task :: router_task_state where
  "sample_task = \<lparr>tk_routing = \<lparr>rt_booking = \<lparr>bk_memory = mem_ok [210..<240], bk_contacts = (\<lambda>_. None), bk_bundles = (\<lambda>_. None)\<rparr>,
       rt_nodes = (\<lambda>_. None), node_list = [], contact_list = [], eid_table = (\<lambda>_. None), eid_table_initialized = True,
       rt_signals = []\<rparr>,
     tk_heap = sample_heap', tk_store = sample_store, tk_addresses = [800], tk_cm_queue = None\<rparr>"

theorem unroutable_bundle_lost_witness:
  "\<exists>s2. process_signal sample_task_env (ROUTER_SIGNAL_ROUTE_BUNDLE 1) sample_task = Inr (False, s2) \<and>
    bundle_storage_get 1 (tk_store s2) = None \<and> tk_heap s2 7 = None \<and> tk_heap s2 800 \<noteq> None \<and>
    length (rt_signals (tk_routing s2)) = 1"
proof -
  let ?b = "sample_bundle\<lparr>bundle_id := 1\<rparr>" and ?m = "rt_memory (tk_routing sample_task)"
  let ?route = "\<lparr>result_probability = 0, fragment_results = [], result_preemption_improved = 0\<rparr>"
  have h: "tk_heap sample_task 7 = Some ?b" by (simp add: sample_task_def sample_heap'_def)
  have r: "router_get_first_route (task_env_at sample_task_env (tk_routing sample_task)) router_default_config 0 ?m
      (rt_contacts (tk_routing sample_task)) (rt_nodes (tk_routing sample_task)) ?b = Inr (?route, ?b, ?m)"
    by (simp add: router_get_first_route_def router_lookup_destination_def node_id_of_def task_env_at_def sample_task_def
        sample_task_env_def sample_bundle_def routing_table_lookup_eid_def Let_def)
  have upd: "(tk_heap sample_task)(7 \<mapsto> ?b) = tk_heap sample_task" using h by auto
  have route: "task_route sample_task_env 7 sample_task = Inr (?route, sample_task)"
    using h r upd by (simp add: task_route_def on_bundle_def deref_bundle_def sample_task_env_def with_rt_memory_def rt_memory_def)
  have "case bundlefragmenter_initialize_first_fragment ?m ?b of Inl x \<Rightarrow> False | Inr (None, m) \<Rightarrow> False | Inr (Some f, m) \<Rightarrow> True"
    by code_simp
  then obtain frag m where frag: "bundlefragmenter_initialize_first_fragment ?m ?b = Inr (Some frag, m)"
    by (auto split: sum.splits prod.splits option.splits)
  have inv: "store_inv sample_store (sample_heap'(800 \<mapsto> frag))" "stored_bytes sample_store (sample_heap'(800 \<mapsto> frag)) < 2 ^ 32"
    using store_reach.other [OF sample_reach, of "sample_heap'(800 \<mapsto> frag)"]
    by (auto intro!: store_inv_reach simp: keeps_stored_def stored_bytes_def sample_store_def held_bytes_def sample_heap'_def
        sample_bundle_def sample_payload_def payload_length_def deref_payload_def)
  have "bundle_storage_get 1 (tk_store sample_task) = Some 7" "tk_addresses sample_task = [800]" "bundle_id ?b = 1"
    by (simp_all add: sample_task_def bundle_storage_get_def sample_store_def)
  from unroutable_bundle_lost [OF this(1) route _ h this(3) frag this(2)] inv
  show ?thesis by (auto simp: sample_task_def Let_def)
qed

end
