(* ===== verification/Tx_Task.thy ===== *)
theory Tx_Task
  imports Router_Task
begin

text \<open>
  The transmission task of a link, \<open>components/cla/cla_contact_tx_task.c\<close>: it takes the bundles of a contact from its queue,
  sends them, and reports each to the router. It shares the routed bundles with the router task and the transmission tasks of
  other links. Whether a convergence layer could send a bundle is a parameter. The reports are returned, in the order in
  which they are pushed to the router's queue.
\<close>

section \<open>Operations\<close>

datatype tx_command = TX_COMMAND_BUNDLES "addr list" addr | TX_COMMAND_FINALIZE

definition put_routed_task :: "addr \<Rightarrow> routed_bundle \<Rightarrow> unit task" where
  "put_routed_task a rb = on_routing (\<lambda>rt. Inr (rt\<lparr>rt_booking := put_routed a rb (rt_booking rt)\<rparr>))"

text \<open>The address of the node of the contact is read for the log.\<close>

definition log_address :: "addr \<Rightarrow> unit task" where
  "log_address contact s =
     obind (deref_contact (rt_contacts (tk_routing s)) contact) (\<lambda>ct.
     obind (deref_node (rt_nodes (tk_routing s)) (contact_node ct)) (\<lambda>_. Inr ((), s)))"

definition transmit_bundle :: "(bundle_t \<Rightarrow> bool) \<Rightarrow> addr \<Rightarrow> bundleid_t \<Rightarrow> bool task" where
  "transmit_bundle send contact k =
     pbind (pread (\<lambda>s. bundle_storage_get k (tk_store s))) (\<lambda>b. case b of
         None \<Rightarrow> preturn False
       | Some a \<Rightarrow> pbind (task_bundle a) (\<lambda>_. pseq (log_address contact)
           (pbind (on_bundle bundle_get_serialized_size a) (\<lambda>_. pbind (task_bundle a) (\<lambda>b. preturn (send b))))))"

definition transmit :: "(bundle_t \<Rightarrow> bool) \<Rightarrow> addr \<Rightarrow> addr \<Rightarrow> router_signal task" where
  "transmit send contact a =
     pbind (task_routed a) (\<lambda>rb. pseq (put_routed_task a (rb\<lparr>serialized := serialized rb + 1\<rparr>))
       (pbind (transmit_bundle send contact (rb_id rb)) (\<lambda>ok.
         if ok then pbind (task_routed a) (\<lambda>rb1. pseq (put_routed_task a (rb1\<lparr>transmitted := transmitted rb1 + 1\<rparr>))
             (preturn (ROUTER_SIGNAL_TRANSMISSION_SUCCESS a)))
         else preturn (ROUTER_SIGNAL_TRANSMISSION_FAILURE a))))"

fun transmit_all :: "(bundle_t \<Rightarrow> bool) \<Rightarrow> addr \<Rightarrow> addr list \<Rightarrow> router_signal list task" where
  "transmit_all send contact [] = preturn []"
| "transmit_all send contact (a # as) =
     pbind (transmit send contact a) (\<lambda>r. pbind (transmit_all send contact as) (\<lambda>rs. preturn (r # rs)))"

text \<open>What is left in the queue when the link is closed is reported as failed.\<close>

fun drain_bundles :: "addr list \<Rightarrow> router_signal list task" where
  "drain_bundles [] = preturn []"
| "drain_bundles (a # as) =
     pbind (task_routed a) (\<lambda>rb. pseq (put_routed_task a (rb\<lparr>serialized := serialized rb + 1\<rparr>))
       (pbind (drain_bundles as) (\<lambda>rs. preturn (ROUTER_SIGNAL_TRANSMISSION_FAILURE a # rs))))"

fun drain :: "tx_command list \<Rightarrow> router_signal list task" where
  "drain [] = preturn []"
| "drain (TX_COMMAND_FINALIZE # cmds) = drain cmds"
| "drain (TX_COMMAND_BUNDLES as contact # cmds) =
     pbind (drain_bundles as) (\<lambda>rs. pbind (drain cmds) (\<lambda>rs'. preturn (rs @ rs')))"

text \<open>The commands of the queue, each with the flag that tells whether the link is active when the task waits for it.\<close>

fun cla_contact_tx_task :: "(bundle_t \<Rightarrow> bool) \<Rightarrow> (bool \<times> tx_command) list \<Rightarrow> router_signal list task" where
  "cla_contact_tx_task send [] = preturn []"
| "cla_contact_tx_task send ((link_active, cmd) # cmds) =
     (if \<not> link_active then drain (cmd # map snd cmds)
      else case cmd of
          TX_COMMAND_FINALIZE \<Rightarrow> drain (map snd cmds)
        | TX_COMMAND_BUNDLES as contact \<Rightarrow>
            pbind (transmit_all send contact as) (\<lambda>rs. pbind (cla_contact_tx_task send cmds) (\<lambda>rs'. preturn (rs @ rs'))))"

section \<open>Transmission of one bundle\<close>

lemma on_bundle_routed:
  assumes "on_bundle f a s = Inr (x, s1)"
  shows "bk_bundles (rt_booking (tk_routing s1)) = bk_bundles (rt_booking (tk_routing s)) \<and>
    rt_signals (tk_routing s1) = rt_signals (tk_routing s)"
  using assms by (auto simp: on_bundle_def obind_eq_Inr with_rt_memory_def)

lemma transmit_bundle_routed:
  assumes "transmit_bundle send contact k s = Inr (ok, s1)"
  shows "bk_bundles (rt_booking (tk_routing s1)) = bk_bundles (rt_booking (tk_routing s)) \<and>
    rt_signals (tk_routing s1) = rt_signals (tk_routing s)"
proof (cases "bundle_storage_get k (tk_store s)")
  case None
  then show ?thesis using assms by (simp add: transmit_bundle_def run)
next
  case (Some a)
  then obtain n where "on_bundle bundle_get_serialized_size a s = Inr (n, s1)"
    using assms by (auto simp: transmit_bundle_def run obind_eq_Inr task_bundle_def log_address_def)
  from on_bundle_routed [OF this] show ?thesis .
qed

text \<open>A report carries the bundle, whose counters have grown.\<close>

lemma transmit_result:
  assumes "transmit send contact a s = Inr (sig, s1)" and "bk_bundles (rt_booking (tk_routing s)) a = Some rb"
  shows "\<exists>ok. sig = (if ok then ROUTER_SIGNAL_TRANSMISSION_SUCCESS a else ROUTER_SIGNAL_TRANSMISSION_FAILURE a) \<and>
    bk_bundles (rt_booking (tk_routing s1)) = (bk_bundles (rt_booking (tk_routing s)))(a \<mapsto>
      rb\<lparr>serialized := serialized rb + 1, transmitted := transmitted rb + (if ok then 1 else 0)\<rparr>) \<and>
    rt_signals (tk_routing s1) = rt_signals (tk_routing s)"
proof -
  let ?rb = "rb\<lparr>serialized := serialized rb + 1\<rparr>"
  let ?s = "s\<lparr>tk_routing := (tk_routing s)\<lparr>rt_booking := put_routed a ?rb (rt_booking (tk_routing s))\<rparr>\<rparr>"
  have put: "put_routed_task a r t =
      Inr ((), t\<lparr>tk_routing := (tk_routing t)\<lparr>rt_booking := put_routed a r (rt_booking (tk_routing t))\<rparr>\<rparr>)" for r t
    by (simp add: put_routed_task_def on_routing_def)
  obtain ok s0 where s0: "transmit_bundle send contact (rb_id rb) ?s = Inr (ok, s0)"
    using assms by (auto simp: transmit_def task_routed_def deref_routed_def run put obind_eq_Inr)
  have b: "bk_bundles (rt_booking (tk_routing s0)) = (bk_bundles (rt_booking (tk_routing s)))(a \<mapsto> ?rb)"
    "rt_signals (tk_routing s0) = rt_signals (tk_routing s)"
    using transmit_bundle_routed [OF s0] by (simp_all add: put_routed_def)
  show ?thesis
    using assms s0 b
    by (intro exI [of _ ok]) (auto simp: transmit_def task_routed_def deref_routed_def run put put_routed_def split: if_splits)
qed

section \<open>Properties\<close>

lemma done_early:
  assumes "sig = ROUTER_SIGNAL_TRANSMISSION_SUCCESS a \<or> sig = ROUTER_SIGNAL_TRANSMISSION_FAILURE a"
    and "bk_bundles (rt_booking (tk_routing s)) a = Some rb" and "serialized rb \<noteq> contact_count rb"
  shows "process_signal env sig s = Inr (True, s)"
  using assms by (auto simp: process_signal_def transmission_done_def task_routed_def deref_routed_def run)

lemma done_last:
  assumes "sig = ROUTER_SIGNAL_TRANSMISSION_SUCCESS a \<or> sig = ROUTER_SIGNAL_TRANSMISSION_FAILURE a"
    and "bk_bundles (rt_booking (tk_routing s)) a = Some rb" and "serialized rb = contact_count rb"
  shows "\<exists>s1. process_signal env sig s = Inr (True, s1) \<and>
    bk_bundles (rt_booking (tk_routing s1)) = (bk_bundles (rt_booking (tk_routing s)))(a := None) \<and>
    rt_signals (tk_routing s1) = rt_signals (tk_routing s) @ [(Bp_Queue, \<lparr>signal_type =
        (if serialized rb = transmitted rb then BP_SIGNAL_TRANSMISSION_SUCCESS else BP_SIGNAL_TRANSMISSION_FAILURE),
      signal_reason = 0, signal_bundle = rb_id rb\<rparr>)]"
  using assms
  by (auto simp: process_signal_def transmission_done_def task_routed_def deref_routed_def run inform_bp_def
      bundle_processor_inform_def task_free_routed_def on_routing_def free_routed_def)

lemma done_dead:
  assumes "sig = ROUTER_SIGNAL_TRANSMISSION_SUCCESS a \<or> sig = ROUTER_SIGNAL_TRANSMISSION_FAILURE a"
    and "bk_bundles (rt_booking (tk_routing s)) a = None"
  shows "process_signal env sig s = Inl Use_After_Free"
  using assms by (auto simp: process_signal_def transmission_done_def task_routed_def deref_routed_def pbind_def)

text \<open>
  C19 (safety). Of a bundle whose last two contacts send it, the router is told twice. When it handles the first report before
  the second transmission, nothing happens on the first, and the second tells the bundle processor once, of a
  success if all transmissions have succeeded, and releases the routed bundle. When both links have sent before the
  router handles the first report, that report finds the counter complete and releases the routed bundle already, and the
  second report uses it after that.
\<close>

theorem last_reports_race:
  assumes "bk_bundles (rt_booking (tk_routing s)) a = Some rb" and "serialized rb + 2 = contact_count rb"
    and "transmit send1 c1 a s = Inr (sig1, s1)" and "transmit send2 c2 a s1 = Inr (sig2, s2)"
  shows "process_signal env sig1 s1 = Inr (True, s1) \<and>
    (\<exists>s3 t. process_signal env sig2 s2 = Inr (True, s3) \<and> bk_bundles (rt_booking (tk_routing s3)) a = None \<and>
      rt_signals (tk_routing s3) = rt_signals (tk_routing s) @
        [(Bp_Queue, \<lparr>signal_type = t, signal_reason = BUNDLE_SR_REASON_NO_INFO, signal_bundle = rb_id rb\<rparr>)] \<and>
      (transmitted rb = serialized rb \<longrightarrow>
        (t = BP_SIGNAL_TRANSMISSION_SUCCESS \<longleftrightarrow>
          sig1 = ROUTER_SIGNAL_TRANSMISSION_SUCCESS a \<and> sig2 = ROUTER_SIGNAL_TRANSMISSION_SUCCESS a))) \<and>
    (\<exists>s3. process_signal env sig1 s2 = Inr (True, s3) \<and> process_signal env sig2 s3 = Inl Use_After_Free)"
proof -
  define report where "report ok = (if ok then ROUTER_SIGNAL_TRANSMISSION_SUCCESS a else ROUTER_SIGNAL_TRANSMISSION_FAILURE a)" for ok
  define n :: "bool \<Rightarrow> u8" where "n ok = (if ok then 1 else 0)" for ok
  obtain ok1 where 1: "sig1 = report ok1" "rt_signals (tk_routing s1) = rt_signals (tk_routing s)"
    "bk_bundles (rt_booking (tk_routing s1)) a = Some (rb\<lparr>serialized := serialized rb + 1, transmitted := transmitted rb + n ok1\<rparr>)"
    using transmit_result [OF assms(3,1)] by (auto simp: report_def n_def)
  obtain ok2 where 2: "sig2 = report ok2" "rt_signals (tk_routing s2) = rt_signals (tk_routing s)"
    "bk_bundles (rt_booking (tk_routing s2)) a =
      Some (rb\<lparr>serialized := serialized rb + 1 + 1, transmitted := transmitted rb + n ok1 + n ok2\<rparr>)"
    using transmit_result [OF assms(4) 1(3)] 1(2) by (auto simp: report_def n_def)
  have r: "report ok = ROUTER_SIGNAL_TRANSMISSION_SUCCESS a \<or> report ok = ROUTER_SIGNAL_TRANSMISSION_FAILURE a" for ok
    by (simp add: report_def)
  have c: "contact_count rb = serialized rb + 1 + 1" using assms(2) [symmetric] by simp
  have all: "serialized rb + 1 + 1 = serialized rb + n ok1 + n ok2 \<longleftrightarrow> ok1 \<and> ok2"
    by (cases ok1; cases ok2) (simp_all add: n_def)
  have "process_signal env sig1 s1 = Inr (True, s1)"
    unfolding 1(1) by (rule done_early [OF r 1(3)]) (simp add: c)
  moreover obtain s3 where s3: "process_signal env sig2 s2 = Inr (True, s3)"
    "bk_bundles (rt_booking (tk_routing s3)) = (bk_bundles (rt_booking (tk_routing s2)))(a := None)"
    "rt_signals (tk_routing s3) = rt_signals (tk_routing s) @ [(Bp_Queue, \<lparr>signal_type =
        (if serialized rb + 1 + 1 = transmitted rb + n ok1 + n ok2
         then BP_SIGNAL_TRANSMISSION_SUCCESS else BP_SIGNAL_TRANSMISSION_FAILURE),
      signal_reason = 0, signal_bundle = rb_id rb\<rparr>)]"
    using done_last [OF r [of ok2] 2(3), of env] 2(1,2) c by auto
  moreover obtain s4 where s4: "process_signal env sig1 s2 = Inr (True, s4)"
    "bk_bundles (rt_booking (tk_routing s4)) = (bk_bundles (rt_booking (tk_routing s2)))(a := None)"
    using done_last [OF r [of ok1] 2(3), of env] 1(1) c by auto
  moreover have "process_signal env sig2 s4 = Inl Use_After_Free"
    unfolding 2(1) by (rule done_dead [OF r]) (simp add: s4(2))
  ultimately show ?thesis
    using all 1(1) 2(1) by (auto simp: report_def)
qed

text \<open>The shared bundle is not in the store, so that both transmissions fail.\<close>

definition sending_task :: router_task_state where
  "sending_task = \<lparr>tk_routing = \<lparr>rt_booking = \<lparr>bk_memory = [], bk_contacts = (\<lambda>_. None), bk_bundles = [700 \<mapsto>
         \<lparr>rb_id = 9, rb_destination = ''dtn:gs'', preemption_improvement = 0, prio = BUNDLE_RPRIO_NORMAL, rb_size = 100,
          exp_time = 90, rb_contacts = [1, 2], contact_count = 2, serialized = 0, transmitted = 0\<rparr>]\<rparr>,
       rt_nodes = (\<lambda>_. None), node_list = [], contact_list = [], eid_table = (\<lambda>_. None), eid_table_initialized = True,
       rt_signals = []\<rparr>,
     tk_heap = (\<lambda>_. None), tk_store = storage_init, tk_addresses = [], tk_cm_queue = None\<rparr>"

theorem last_reports_race_witness:
  "\<exists>sig1 s1 sig2 s2 s3. transmit (\<lambda>_. True) 1 700 sending_task = Inr (sig1, s1) \<and> transmit (\<lambda>_. True) 2 700 s1 = Inr (sig2, s2) \<and>
    process_signal sample_task_env sig1 s2 = Inr (True, s3) \<and> process_signal sample_task_env sig2 s3 = Inl Use_After_Free"
proof -
  let ?t = "\<lambda>c. transmit (\<lambda>_. True) c 700"
  have "case ?t 1 sending_task of Inl x \<Rightarrow> False | Inr (sig1, s1) \<Rightarrow> (case ?t 2 s1 of Inl x \<Rightarrow> False | Inr y \<Rightarrow> True)" by code_simp
  then obtain sig1 s1 where t1: "?t 1 sending_task = Inr (sig1, s1)"
    "case ?t 2 s1 of Inl x \<Rightarrow> False | Inr y \<Rightarrow> True" by (auto split: sum.splits prod.splits)
  then obtain sig2 s2 where "?t 2 s1 = Inr (sig2, s2)" by (cases "?t 2 s1") auto
  note t = t1(1) this
  from last_reports_race [OF _ _ t, of _ sample_task_env] show ?thesis
    using t by (fastforce simp: sending_task_def)
qed

end
