(* ===== verification/Contact_Manager.thy ===== *)
theory Contact_Manager
  imports Router_Task
begin

text \<open>
  The contact manager, \<open>components/upcn/contact_manager.c\<close>: the contacts in progress, the start and the end of contacts, and the
  time of the next change. The array of the contacts in progress is the list of the entries in use; it has room for
  ten. Convergence layers are parameters: their names and instances, and whether a link for a node
  has a transmission queue. What the manager asks of them and the signals to the router are recorded in order.
\<close>

section \<open>State\<close>

record contact_info =
  info_contact :: addr
  info_eid :: string
  info_cla_addr :: string

datatype cm_event =
  Start_Contact contact_info
| End_Contact contact_info
| Hand_Over contact_info "addr list"
| Contact_Over addr

record cm_state =
  cm_routing :: routing
  current_contacts :: "contact_info list"
  next_contact_time :: u64
  cm_events :: "cm_event list"

record cm_env =
  cm_now :: u64
  cm_clas :: "(string \<times> u64 option) list"
  has_tx_queue :: "string \<Rightarrow> string \<Rightarrow> bool"

type_synonym 'a cm = "(cm_state, 'a) handler"

abbreviation (input) "CM_UINT64_MAX \<equiv> (- 1 :: u64)"
abbreviation (input) "CONTACT_CHECKING_MAX_PERIOD \<equiv> (600000 :: u64)"

definition cm_start :: "routing \<Rightarrow> cm_state" where
  "cm_start rt = \<lparr>cm_routing = rt, current_contacts = [], next_contact_time = CM_UINT64_MAX, cm_events = []\<rparr>"

definition cm_contact :: "addr \<Rightarrow> contact cm" where
  "cm_contact c s = obind (deref_contact (rt_contacts (cm_routing s)) c) (\<lambda>ct. Inr (ct, s))"

definition cm_change :: "addr \<Rightarrow> (contact \<Rightarrow> contact) \<Rightarrow> unit cm" where
  "cm_change c f s = obind (deref_contact (rt_contacts (cm_routing s)) c) (\<lambda>ct.
     Inr ((), s\<lparr>cm_routing := put_contact c (f ct) (cm_routing s)\<rparr>))"

definition log_event :: "cm_event \<Rightarrow> unit cm" where
  "log_event e = pupdate (\<lambda>s. s\<lparr>cm_events := cm_events s @ [e]\<rparr>)"

section \<open>Contacts in progress\<close>

definition contact_active :: "addr \<Rightarrow> cm_state \<Rightarrow> bool" where
  "contact_active c s \<longleftrightarrow> list_ex (\<lambda>ci. info_contact ci = c) (current_contacts s)"

text \<open>
  The entries from number \<open>i\<close> downwards; \<open>removed\<close> are those taken out already. When an entry that is not the last is
  taken out, the ones behind it are moved up together with the one behind the last, which a full array does not have.
\<close>

fun expire_from :: "u64 \<Rightarrow> nat \<Rightarrow> contact_info list \<Rightarrow> contact_info list cm" where
  "expire_from now 0 removed s = Inr (removed, s)"
| "expire_from now (Suc i) removed s =
     obind (deref_contact (rt_contacts (cm_routing s)) (info_contact (current_contacts s ! i))) (\<lambda>ct.
       if to_time ct \<le> now
       then (let cs = current_contacts s; ci = cs ! i in
             if i + 1 \<noteq> length cs \<and> length cs = MAX_CONCURRENT_CONTACTS then Inl Out_Of_Bounds
             else expire_from now i (removed @ [ci]) (s\<lparr>
               cm_routing := put_contact (info_contact ci) (ct\<lparr>active := False\<rparr>) (cm_routing s),
               current_contacts := take i cs @ drop (Suc i) cs\<rparr>))
       else expire_from now i removed s)"

definition remove_expired_contacts :: "u64 \<Rightarrow> contact_info list cm" where
  "remove_expired_contacts now s = expire_from now (length (current_contacts s)) [] s"

text \<open>\<open>None\<close> when the contact is not started. The contact is marked as active before its convergence layer is looked for.\<close>

definition check_upcoming :: "cm_env \<Rightarrow> addr \<Rightarrow> contact_info option cm" where
  "check_upcoming env c s =
     (if contact_active c s \<or> MAX_CONCURRENT_CONTACTS \<le> length (current_contacts s) then Inr (None, s)
      else obind (deref_contact (rt_contacts (cm_routing s)) c) (\<lambda>ct.
      obind (deref_node (rt_nodes (cm_routing s)) (contact_node ct)) (\<lambda>nd.
      let rt = put_contact c (ct\<lparr>active := True\<rparr>) (cm_routing s); failed = (\<lambda>m. Inr (None, s\<lparr>cm_routing := with_rt_memory m rt\<rparr>))
      in case cla_addr nd of
          None \<Rightarrow> Inl Assert_Failed
        | Some cla \<Rightarrow> (case cla_config_get (cm_clas env) cla of
            None \<Rightarrow> failed (rt_memory rt)
          | Some _ \<Rightarrow> (case node_eid nd of
              None \<Rightarrow> Inl Null_Deref
            | Some eid \<Rightarrow> (case malloc (rt_memory rt) of
                (None, m1) \<Rightarrow> failed m1
              | (Some _, m1) \<Rightarrow> (case malloc m1 of
                  (None, m2) \<Rightarrow> failed m2
                | (Some _, m2) \<Rightarrow> (let ci = \<lparr>info_contact = c, info_eid = eid, info_cla_addr = cla\<rparr> in
                    Inr (Some ci, s\<lparr>cm_routing := with_rt_memory m2 rt,
                      current_contacts := current_contacts s @ [ci]\<rparr>)))))))))"

fun upcoming_loop :: "cm_env \<Rightarrow> addr list \<Rightarrow> contact_info list cm" where
  "upcoming_loop env [] s = Inr ([], s)"
| "upcoming_loop env (c # cs) s =
     obind (deref_contact (rt_contacts (cm_routing s)) c) (\<lambda>ct.
       if from_time ct \<le> cm_now env
       then if to_time ct > cm_now env
            then obind (check_upcoming env c s) (\<lambda>(r, s1).
                 obind (upcoming_loop env cs (s1\<lparr>next_contact_time := min (next_contact_time s1) (to_time ct)\<rparr>)) (\<lambda>(rs, s2).
                   Inr ((case r of None \<Rightarrow> rs | Some ci \<Rightarrow> ci # rs), s2)))
            else upcoming_loop env cs s
       else Inr ([], s\<lparr>next_contact_time := min (next_contact_time s) (from_time ct)\<rparr>))"

definition process_upcoming_list :: "cm_env \<Rightarrow> addr list \<Rightarrow> contact_info list cm" where
  "process_upcoming_list env cs s = upcoming_loop env cs (s\<lparr>next_contact_time := CM_UINT64_MAX\<rparr>)"

definition hand_over_contact_bundles :: "cm_env \<Rightarrow> contact_info \<Rightarrow> unit cm" where
  "hand_over_contact_bundles env ci =
     pbind (cm_contact (info_contact ci)) (\<lambda>ct.
       pwhen (contact_bundles ct \<noteq> [] \<and> has_tx_queue env (info_eid ci) (info_cla_addr ci))
         (pseq (log_event (Hand_Over ci (contact_bundles ct)))
           (cm_change (info_contact ci) (\<lambda>ct. ct\<lparr>contact_bundles := []\<rparr>))))"

fun each_contact :: "(contact_info \<Rightarrow> unit cm) \<Rightarrow> contact_info list \<Rightarrow> unit cm" where
  "each_contact f [] = preturn ()"
| "each_contact f (ci # rest) = pseq (f ci) (each_contact f rest)"

definition process_current_contacts :: "cm_env \<Rightarrow> unit cm" where
  "process_current_contacts env =
     pbind (pread current_contacts) (each_contact (hand_over_contact_bundles env))"

definition check_for_contacts :: "cm_env \<Rightarrow> addr list \<Rightarrow> contact_info list cm" where
  "check_for_contacts env cs =
     pbind (remove_expired_contacts (cm_now env)) (\<lambda>removed.
     pbind (process_upcoming_list env cs) (\<lambda>added.
       pseq (each_contact (\<lambda>ci. pseq (log_event (Start_Contact ci)) (hand_over_contact_bundles env ci)) added)
       (pseq (each_contact (\<lambda>ci. log_event (End_Contact ci)) removed) (preturn removed))))"

text \<open>One signal; a signal that is only about bundles skips the check of the contacts.\<close>

definition manage_contacts :: "cm_env \<Rightarrow> u8 \<Rightarrow> unit cm" where
  "manage_contacts env signal =
     pseq (pwhen (HAS_FLAG signal CM_SIGNAL_PROCESS_CURRENT_BUNDLES) (process_current_contacts env))
       (pwhen (signal \<noteq> CM_SIGNAL_PROCESS_CURRENT_BUNDLES)
         (pbind (pread (\<lambda>s. contact_list (cm_routing s))) (\<lambda>cs.
          pbind (check_for_contacts env cs) (each_contact (\<lambda>ci. log_event (Contact_Over (info_contact ci)))))))"

text \<open>How long the task waits for a signal, in milliseconds; with \<open>None\<close> it checks again at once.\<close>

definition next_delay :: "u64 \<Rightarrow> u64 \<Rightarrow> u64 option" where
  "next_delay next_contact cur_time =
     (let next_time = min CM_UINT64_MAX (next_contact * 1000)
      in if next_time > cur_time + CONTACT_CHECKING_MAX_PERIOD then Some (CONTACT_CHECKING_MAX_PERIOD + 1)
         else if next_time \<le> cur_time then None else Some (next_time - cur_time + 1))"

definition contact_manager_in_contact :: "cm_state \<Rightarrow> bool" where
  "contact_manager_in_contact s \<longleftrightarrow> current_contacts s \<noteq> []"

definition contact_manager_reset_time :: "cm_env \<Rightarrow> unit cm" where
  "contact_manager_reset_time env = pupdate (\<lambda>s. s\<lparr>next_contact_time := cm_now env\<rparr>)"

end
