(* ===== verification/Contact_Timing.thy ===== *)
theory Contact_Timing
  imports Contact_Manager Routing_Registration
begin

text \<open>
  Properties of the contact manager: which entries of its array are removed when contacts end, and which contacts it starts and
  when it looks at them again.
\<close>

section \<open>Contacts that have ended\<close>

definition ended :: "cm_state \<Rightarrow> u64 \<Rightarrow> contact_info \<Rightarrow> bool" where
  "ended s now ci \<longleftrightarrow> heap_to (rt_contacts (cm_routing s)) (info_contact ci) \<le> now"

text \<open>The contacts of a set are no longer active, and nothing else of the routing table has changed.\<close>

definition deactivate :: "addr set \<Rightarrow> contact_heap \<Rightarrow> contact_heap" where
  "deactivate X H = (\<lambda>c. if c \<in> X then map_option (\<lambda>ct. ct\<lparr>active := False\<rparr>) (H c) else H c)"

definition without :: "contact_info list \<Rightarrow> contact_info list \<Rightarrow> cm_state \<Rightarrow> cm_state" where
  "without gone left s = s\<lparr>cm_routing := with_contacts (deactivate (info_contact ` set gone) (rt_contacts (cm_routing s)))
     (cm_routing s), current_contacts := left\<rparr>"

lemma deactivate_to [simp]: "heap_to (deactivate X H) c = heap_to H c"
  by (simp add: heap_to_def deactivate_def split: option.splits)

lemma without_ended: "ended (without gone left s) now = ended s now"
  by (simp add: ended_def without_def with_contacts_def rt_contacts_def fun_eq_iff)

lemma without_nil: "without [] (current_contacts s) s = s"
  by (simp add: without_def with_contacts_def deactivate_def rt_contacts_def)

lemma without_without: "without gone left (without gone' left' s) = without (gone' @ gone) left s"
proof -
  have "deactivate X (deactivate Y H) = deactivate (Y \<union> X) H" for X Y H
    by (auto simp: deactivate_def fun_eq_iff option.map_comp comp_def)
  then show ?thesis by (simp add: without_def with_contacts_def rt_contacts_def image_Un)
qed

lemma without_set: "set gone = set gone' \<Longrightarrow> without gone left s = without gone' left s"
  by (simp add: without_def)

lemma expire_from_exact:
  assumes "i \<le> length (current_contacts s)" and "length (current_contacts s) \<le> MAX_CONCURRENT_CONTACTS"
    and "\<forall>ci \<in> set (current_contacts s). rt_contacts (cm_routing s) (info_contact ci) \<noteq> None"
    and "\<forall>ci \<in> set (drop i (current_contacts s)). \<not> ended s now ci"
  shows "expire_from now i removed s =
    (let cs = current_contacts s; gone = filter (ended s now) (take i cs) in
     if length cs = MAX_CONCURRENT_CONTACTS \<and> gone \<noteq> [] \<and> \<not> ended s now (last cs) then Inl Out_Of_Bounds
     else Inr (removed @ rev gone, without gone (filter (\<lambda>ci. \<not> ended s now ci) cs) s))"
  using assms
proof (induction i arbitrary: removed s)
  case 0
  then have "filter (\<lambda>ci. \<not> ended s now ci) (current_contacts s) = current_contacts s" by (simp add: filter_id_conv)
  then show ?case by (simp add: without_nil)
next
  case (Suc i)
  let ?cs = "current_contacts s" and ?ci = "current_contacts s ! i"
  have i: "i < length ?cs" using Suc.prems(1) by simp
  then have mem: "?ci \<in> set ?cs" by simp
  then obtain ct where ct: "rt_contacts (cm_routing s) (info_contact ?ci) = Some ct" using Suc.prems(3) by blast
  have e: "ended s now ?ci \<longleftrightarrow> to_time ct \<le> now" using ct by (simp add: ended_def heap_to_def)
  have take: "take (Suc i) ?cs = take i ?cs @ [?ci]" using i by (simp add: take_Suc_conv_app_nth)
  have drop: "drop i ?cs = ?ci # drop (Suc i) ?cs" using i by (simp add: Cons_nth_drop_Suc)
  have last: "ended s now (last ?cs) \<longleftrightarrow> i + 1 = length ?cs \<and> ended s now ?ci"
  proof (cases "i + 1 = length ?cs")
    case True
    then have "i = length ?cs - 1" "?cs \<noteq> []" by auto
    then have "last ?cs = ?ci" using last_conv_nth [of ?cs] by simp
    then show ?thesis using True by simp
  next
    case False
    then have ne: "drop (Suc i) ?cs \<noteq> []" using i by simp
    then have "last (drop (Suc i) ?cs) = last ?cs" by simp
    then have "last ?cs \<in> set (drop (Suc i) ?cs)" using last_in_set [OF ne] by simp
    then show ?thesis using False Suc.prems(4) by blast
  qed
  show ?case
  proof (cases "ended s now ?ci")
    case False
    then have "\<forall>ci \<in> set (drop i ?cs). \<not> ended s now ci" using Suc.prems(4) drop by simp
    note IH = Suc.IH [OF _ Suc.prems(2,3) this, of removed]
    show ?thesis
      using IH i ct e False last Suc.prems(1) by (simp add: deref_contact_def take Let_def)
  next
    case True
    let ?left = "take i ?cs @ drop (Suc i) ?cs"
    let ?s = "without [?ci] ?left s"
    have step: "expire_from now (Suc i) removed s =
        (if i + 1 \<noteq> length ?cs \<and> length ?cs = MAX_CONCURRENT_CONTACTS then Inl Out_Of_Bounds
         else expire_from now i (removed @ [?ci]) ?s)"
    proof -
      have "deactivate {info_contact ?ci} (rt_contacts (cm_routing s)) =
          (rt_contacts (cm_routing s))(info_contact ?ci \<mapsto> ct\<lparr>active := False\<rparr>)"
        using ct by (auto simp: deactivate_def)
      then show ?thesis
        using ct e True by (simp add: deref_contact_def Let_def without_def put_contact_def)
    qed
    show ?thesis
    proof (cases "i + 1 \<noteq> length ?cs \<and> length ?cs = MAX_CONCURRENT_CONTACTS")
      case over: True
      then show ?thesis using step True last i by (auto simp: take Let_def)
    next
      case fits: False
      have drop': "drop i ?left = drop (Suc i) ?cs" "take i ?left = take i ?cs" "length ?left = length ?cs - 1" using i by simp_all
      have "rt_contacts (cm_routing ?s) c \<noteq> None \<longleftrightarrow> rt_contacts (cm_routing s) c \<noteq> None" for c
        by (simp add: without_def with_contacts_def rt_contacts_def deactivate_def)
      moreover have "set ?left \<subseteq> set ?cs" by (auto dest: in_set_takeD in_set_dropD)
      ultimately have live: "\<forall>ci \<in> set (current_contacts ?s). rt_contacts (cm_routing ?s) (info_contact ci) \<noteq> None"
        using Suc.prems(3) by (auto simp: without_def)
      have cur: "current_contacts ?s = ?left" by (simp add: without_def)
      have "\<forall>ci \<in> set (drop i (current_contacts ?s)). \<not> ended ?s now ci"
        using Suc.prems(4) unfolding cur drop' without_ended .
      note IH = Suc.IH [OF _ _ live this, of "removed @ [?ci]"]
      have "\<not> (length ?left = MAX_CONCURRENT_CONTACTS)" using i Suc.prems(2) by simp
      then have "expire_from now i (removed @ [?ci]) ?s =
          Inr (removed @ [?ci] @ rev (filter (ended s now) (take i ?cs)),
            without (filter (ended s now) (take i ?cs)) (filter (\<lambda>ci. \<not> ended s now ci) ?left) ?s)"
        using IH i Suc.prems(2) unfolding cur drop' without_ended Let_def by auto
      moreover have "filter (\<lambda>ci. \<not> ended s now ci) ?left = filter (\<lambda>ci. \<not> ended s now ci) ?cs"
      proof -
        have "filter (\<lambda>ci. \<not> ended s now ci) ?cs = filter (\<lambda>ci. \<not> ended s now ci) (take i ?cs @ drop i ?cs)" by simp
        then show ?thesis using True by (simp add: drop del: append_take_drop_id)
      qed
      moreover have "without (filter (ended s now) (take i ?cs)) l ?s = without (filter (ended s now) (take (Suc i) ?cs)) l s" for l
        unfolding without_without by (rule without_set) (use True in \<open>auto simp: take\<close>)
      ultimately have "expire_from now (Suc i) removed s =
          Inr (removed @ rev (filter (ended s now) (take (Suc i) ?cs)),
            without (filter (ended s now) (take (Suc i) ?cs)) (filter (\<lambda>ci. \<not> ended s now ci) ?cs) s)"
        using step fits True by (simp add: take)
      then show ?thesis using fits True last by (auto simp: Let_def)
    qed
  qed
qed

section \<open>Contacts that start\<close>

text \<open>The contacts in progress: at most ten different ones, each in memory and marked as active.\<close>

definition in_progress_ok :: "cm_state \<Rightarrow> bool" where
  "in_progress_ok s \<longleftrightarrow> length (current_contacts s) \<le> MAX_CONCURRENT_CONTACTS \<and>
     distinct (map info_contact (current_contacts s)) \<and>
     (\<forall>ci \<in> set (current_contacts s). \<exists>ct. rt_contacts (cm_routing s) (info_contact ci) = Some ct \<and> active ct)"

lemma in_progress_ok_time [simp]: "in_progress_ok (s\<lparr>next_contact_time := t\<rparr>) = in_progress_ok s"
  by (simp add: in_progress_ok_def)

text \<open>When a contact changes next: when it ends, if it runs, or when it starts.\<close>

definition next_event :: "contact_heap \<Rightarrow> u64 \<Rightarrow> addr \<Rightarrow> u64" where
  "next_event H now c =
     (if heap_from H c \<le> now then if now < heap_to H c then heap_to H c else CM_UINT64_MAX else heap_from H c)"

definition same_span :: "contact_heap \<Rightarrow> contact_heap \<Rightarrow> bool" where
  "same_span H H' \<longleftrightarrow> heap_from H' = heap_from H \<and> heap_to H' = heap_to H \<and> (\<forall>c. H' c = None \<longleftrightarrow> H c = None)"

lemma same_span_refl [simp]: "same_span H H"
  by (simp add: same_span_def)

lemma same_span_trans: "same_span H H1 \<Longrightarrow> same_span H1 H2 \<Longrightarrow> same_span H H2"
  by (simp add: same_span_def)

lemma same_span_next: "same_span H H' \<Longrightarrow> next_event H' = next_event H"
  by (simp add: same_span_def next_event_def fun_eq_iff)

lemma same_span_by_start: "same_span H H' \<Longrightarrow> by_start H' cs = by_start H cs"
  by (simp add: same_span_def by_start_def)

lemma same_span_active: "H c = Some ct \<Longrightarrow> same_span H (H(c \<mapsto> ct\<lparr>active := True\<rparr>))"
  by (auto simp: same_span_def heap_from_def heap_to_def)

lemma check_upcoming_ok:
  assumes "check_upcoming env c s = Inr (r, s1)" and "in_progress_ok s"
  shows "in_progress_ok s1 \<and> next_contact_time s1 = next_contact_time s \<and> cm_events s1 = cm_events s \<and>
    same_span (rt_contacts (cm_routing s)) (rt_contacts (cm_routing s1)) \<and>
    current_contacts s1 = current_contacts s @ (case r of None \<Rightarrow> [] | Some ci \<Rightarrow> [ci]) \<and>
    (case r of None \<Rightarrow> True | Some ci \<Rightarrow> info_contact ci = c)"
proof (cases "contact_active c s \<or> MAX_CONCURRENT_CONTACTS \<le> length (current_contacts s)")
  case True
  then show ?thesis using assms by (auto simp: check_upcoming_def)
next
  case False
  obtain ct where ct: "rt_contacts (cm_routing s) c = Some ct"
    using assms(1) False by (auto simp: check_upcoming_def obind_eq_Inr deref_contact_def split: option.splits)
  let ?rt = "put_contact c (ct\<lparr>active := True\<rparr>) (cm_routing s)"
  obtain x m1 where m1: "malloc (rt_memory ?rt) = (x, m1)" by fastforce
  obtain y m2 where m2: "malloc m1 = (y, m2)" by fastforce
  obtain nd where nd: "deref_node (rt_nodes (cm_routing s)) (contact_node ct) = Inr nd"
    using assms(1) False ct by (auto simp: check_upcoming_def obind_eq_Inr deref_contact_def)
  note body = assms(1) [unfolded check_upcoming_def Let_def]
  have "\<exists>m. cm_routing s1 = with_rt_memory m ?rt \<and> cm_events s1 = cm_events s \<and> next_contact_time s1 = next_contact_time s \<and>
    current_contacts s1 = current_contacts s @ (case r of None \<Rightarrow> [] | Some ci \<Rightarrow> [ci]) \<and>
    (case r of None \<Rightarrow> True | Some ci \<Rightarrow> info_contact ci = c)"
  proof (cases "cla_addr nd")
    case None
    then show ?thesis using body False ct nd by (simp add: deref_contact_def)
  next
    case (Some cla)
    show ?thesis
    proof (cases "cla_config_get (cm_clas env) cla")
      case None
      then show ?thesis using body False ct nd Some by (auto simp: deref_contact_def)
    next
      case inst: (Some mbs)
      then show ?thesis
        using body False ct nd Some m1 m2
        by (cases "node_eid nd"; cases x; cases y) (auto simp: deref_contact_def)
    qed
  qed
  then obtain m where m: "cm_routing s1 = with_rt_memory m ?rt" "cm_events s1 = cm_events s" "next_contact_time s1 = next_contact_time s"
    "current_contacts s1 = current_contacts s @ (case r of None \<Rightarrow> [] | Some ci \<Rightarrow> [ci])"
    "case r of None \<Rightarrow> True | Some ci \<Rightarrow> info_contact ci = c" by blast
  have "c \<notin> info_contact ` set (current_contacts s)" using False by (auto simp: contact_active_def list_ex_iff)
  moreover have "length (current_contacts s) < MAX_CONCURRENT_CONTACTS" using False by simp
  ultimately have "in_progress_ok s1"
    using assms(2) m ct by (cases r) (auto simp: in_progress_ok_def)
  then show ?thesis using m same_span_active [of "rt_contacts (cm_routing s)", OF ct] by simp
qed

lemma upcoming_loop_ok:
  assumes "upcoming_loop env cs s = Inr (added, s1)" and "in_progress_ok s" and "by_start (rt_contacts (cm_routing s)) cs"
  shows "in_progress_ok s1 \<and> current_contacts s1 = current_contacts s @ added \<and> cm_events s1 = cm_events s \<and>
    same_span (rt_contacts (cm_routing s)) (rt_contacts (cm_routing s1)) \<and>
    (\<forall>ci \<in> set added. info_contact ci \<in> set cs \<and> heap_from (rt_contacts (cm_routing s)) (info_contact ci) \<le> cm_now env \<and>
       cm_now env < heap_to (rt_contacts (cm_routing s)) (info_contact ci)) \<and>
    (\<forall>c \<in> set cs. next_contact_time s1 \<le> next_event (rt_contacts (cm_routing s)) (cm_now env) c) \<and>
    next_contact_time s1 \<le> next_contact_time s \<and>
    (next_contact_time s1 = next_contact_time s \<or>
       (\<exists>c \<in> set cs. next_contact_time s1 = next_event (rt_contacts (cm_routing s)) (cm_now env) c))"
  using assms
proof (induction cs arbitrary: s added)
  case Nil
  then show ?case by simp
next
  case (Cons c cs)
  let ?H = "rt_contacts (cm_routing s)" and ?now = "cm_now env"
  obtain ct where ct: "?H c = Some ct" using Cons.prems(3) by (auto simp: by_start_def)
  then have span: "heap_from ?H c = from_time ct" "heap_to ?H c = to_time ct" by (simp_all add: heap_from_def heap_to_def)
  have start: "by_start ?H cs" by (rule by_start_Cons [OF Cons.prems(3)])
  consider "?now < from_time ct" | "from_time ct \<le> ?now" "to_time ct \<le> ?now" | "from_time ct \<le> ?now" "?now < to_time ct"
    by fastforce
  then show ?case
  proof cases
    case 1
    have later: "from_time ct \<le> next_event ?H ?now d" if "d \<in> set (c # cs)" for d
    proof -
      have "from_time ct \<le> heap_from ?H d" using that Cons.prems(3) span(1) by (auto simp: by_start_def)
      then have "\<not> heap_from ?H d \<le> ?now" using 1 by simp
      then show ?thesis using \<open>from_time ct \<le> heap_from ?H d\<close> by (simp add: next_event_def)
    qed
    have r: "added = []" "s1 = s\<lparr>next_contact_time := min (next_contact_time s) (from_time ct)\<rparr>"
      using Cons.prems(1) ct linorder_not_le [THEN iffD2, OF 1] by (simp_all add: deref_contact_def)
    have "next_event ?H ?now c = from_time ct"
      using linorder_not_le [THEN iffD2, OF 1] span by (simp add: next_event_def)
    moreover have "\<forall>d \<in> set (c # cs). next_contact_time s1 \<le> next_event ?H ?now d"
      using later r(2) by (auto intro: min.coboundedI2)
    moreover have "in_progress_ok s1" using r(2) Cons.prems(2) by simp
    moreover have "next_contact_time s1 = next_contact_time s \<or> next_contact_time s1 = from_time ct"
      using r(2) by (simp add: min_def)
    ultimately show ?thesis using r by auto
  next
    case 2
    have "upcoming_loop env cs s = Inr (added, s1)" using Cons.prems(1) ct 2 linorder_not_less [THEN iffD2, OF 2(2)] by (simp add: deref_contact_def)
    note IH = Cons.IH [OF this Cons.prems(2) start]
    have "next_event ?H ?now c = CM_UINT64_MAX"
      using 2(1) linorder_not_less [THEN iffD2, OF 2(2)] span by (simp add: next_event_def)
    then show ?thesis using IH by auto
  next
    case 3
    obtain r s0 rs where r: "check_upcoming env c s = Inr (r, s0)"
      "upcoming_loop env cs (s0\<lparr>next_contact_time := min (next_contact_time s0) (to_time ct)\<rparr>) = Inr (rs, s1)"
      "added = (case r of None \<Rightarrow> rs | Some ci \<Rightarrow> ci # rs)"
      using Cons.prems(1) ct 3 by (auto simp: deref_contact_def obind_eq_Inr)
    let ?s0 = "s0\<lparr>next_contact_time := min (next_contact_time s0) (to_time ct)\<rparr>"
    note one = check_upcoming_ok [OF r(1) Cons.prems(2)]
    have same: "same_span ?H (rt_contacts (cm_routing s0))" using one by blast
    have ok: "in_progress_ok ?s0" using one by simp
    have "by_start (rt_contacts (cm_routing ?s0)) cs" using same_span_by_start [OF same] start by simp
    note IH = Cons.IH [OF r(2) ok this]
    have e: "next_event ?H ?now c = to_time ct" using 3 span by (simp add: next_event_def)
    have n: "next_event (rt_contacts (cm_routing s0)) = next_event ?H" by (rule same_span_next [OF same])
    have h: "heap_from (rt_contacts (cm_routing s0)) = heap_from ?H" "heap_to (rt_contacts (cm_routing s0)) = heap_to ?H"
      using same by (simp_all add: same_span_def)
    have "next_contact_time s1 \<le> to_time ct" "next_contact_time s1 \<le> next_contact_time s"
      using IH one by auto
    moreover have "next_contact_time s1 = next_contact_time s \<or> (\<exists>d \<in> set (c # cs). next_contact_time s1 = next_event ?H ?now d)"
      using IH one e unfolding n [symmetric] by (auto simp: n min_def split: if_splits)
    moreover have "\<forall>d \<in> set (c # cs). next_contact_time s1 \<le> next_event ?H ?now d"
      using IH e \<open>next_contact_time s1 \<le> to_time ct\<close> n by auto
    moreover have "\<forall>ci \<in> set added. info_contact ci \<in> set (c # cs) \<and> heap_from ?H (info_contact ci) \<le> ?now \<and>
        ?now < heap_to ?H (info_contact ci)"
      using IH one r(3) span 3 h by (cases r) auto
    moreover have "current_contacts s1 = current_contacts s @ added" using IH one r(3) by (cases r) auto
    moreover have "same_span ?H (rt_contacts (cm_routing s1))" using same_span_trans [OF same] IH by simp
    ultimately show ?thesis using IH one by simp
  qed
qed

section \<open>Properties\<close>

text \<open>
  C21 (bounds). When contacts end, the entries of the ended ones leave the array, the last first, their contacts are marked
  as not active, and the other entries stay in order, unless ten contacts are in progress, one has ended, and that in the
  last entry has not: then moving the entries up reads behind the end of the array.
\<close>

theorem expired_contacts_removed:
  assumes "length (current_contacts s) \<le> MAX_CONCURRENT_CONTACTS"
    and "\<forall>ci \<in> set (current_contacts s). rt_contacts (cm_routing s) (info_contact ci) \<noteq> None"
  shows "remove_expired_contacts now s =
    (let cs = current_contacts s; gone = filter (ended s now) cs in
     if length cs = MAX_CONCURRENT_CONTACTS \<and> gone \<noteq> [] \<and> \<not> ended s now (last cs) then Inl Out_Of_Bounds
     else Inr (rev gone, s\<lparr>current_contacts := filter (\<lambda>ci. \<not> ended s now ci) cs,
       cm_routing := with_contacts (deactivate (info_contact ` set gone) (rt_contacts (cm_routing s))) (cm_routing s)\<rparr>))"
  using expire_from_exact [OF order_refl assms, of now "[]"]
  by (simp add: remove_expired_contacts_def without_def Let_def)

text \<open>
  C16 (invariant). Checking the accepted contacts, which are in the order in which they start, keeps at most ten different contacts in
  progress, all marked as active. Contacts in progress stay, those added run at the time of the check, and the time of the
  next check is the earliest time at which one of the contacts starts or ends.
\<close>

theorem upcoming_contacts_started:
  assumes "process_upcoming_list env cs s = Inr (added, s1)" and "in_progress_ok s" and "by_start (rt_contacts (cm_routing s)) cs"
  shows "in_progress_ok s1 \<and> current_contacts s1 = current_contacts s @ added \<and>
    (\<forall>ci \<in> set added. info_contact ci \<in> set cs \<and> heap_from (rt_contacts (cm_routing s)) (info_contact ci) \<le> cm_now env \<and>
       cm_now env < heap_to (rt_contacts (cm_routing s)) (info_contact ci)) \<and>
    next_contact_time s1 = Min (insert CM_UINT64_MAX (next_event (rt_contacts (cm_routing s)) (cm_now env) ` set cs))"
proof -
  let ?s = "s\<lparr>next_contact_time := CM_UINT64_MAX\<rparr>" and ?e = "next_event (rt_contacts (cm_routing s)) (cm_now env)"
  have "in_progress_ok ?s" "by_start (rt_contacts (cm_routing ?s)) cs" using assms(2,3) by simp_all
  from upcoming_loop_ok [OF assms(1) [unfolded process_upcoming_list_def] this] have
    loop: "in_progress_ok s1" "current_contacts s1 = current_contacts s @ added"
      "\<forall>ci \<in> set added. info_contact ci \<in> set cs \<and> heap_from (rt_contacts (cm_routing s)) (info_contact ci) \<le> cm_now env \<and>
         cm_now env < heap_to (rt_contacts (cm_routing s)) (info_contact ci)"
      "\<forall>c \<in> set cs. next_contact_time s1 \<le> ?e c"
      "next_contact_time s1 = CM_UINT64_MAX \<or> (\<exists>c \<in> set cs. next_contact_time s1 = ?e c)" by simp_all
  then have "Min (insert CM_UINT64_MAX (?e ` set cs)) = next_contact_time s1"
    by (intro Min_eqI) auto
  then show ?thesis using loop(1-3) by simp
qed

text \<open>Two contacts of a node, from 20 to 30 and from 40 to 50.\<close>

definition sample_manager :: "contact_info list \<Rightarrow> cm_state" where
  "sample_manager cs = (cm_start (sample_routing\<lparr>rt_nodes := [1 \<mapsto> sample_node]\<rparr>))\<lparr>current_contacts := cs\<rparr>"

definition sample_info :: "addr \<Rightarrow> contact_info" where
  "sample_info c = \<lparr>info_contact = c, info_eid = ''dtn:gs'', info_cla_addr = ''mtcp:''\<rparr>"

lemma sample_manager_contacts:
  "rt_contacts (cm_routing (sample_manager cs)) = [1 \<mapsto> sample_open_contact 20, 2 \<mapsto> sample_open_contact 40]"
  by (simp add: sample_manager_def cm_start_def sample_routing_def sample_booking_def rt_contacts_def)

lemma sample_ended: "ended (sample_manager cs) 30 (sample_info 1)" "\<not> ended (sample_manager cs) 30 (sample_info 2)"
  unfolding ended_def sample_manager_contacts
  by (simp_all add: sample_info_def heap_to_def sample_open_contact_def sample_contact_def)

theorem expired_contacts_removed_witness:
  "(\<exists>s1. remove_expired_contacts 30 (sample_manager [sample_info 1, sample_info 2]) = Inr ([sample_info 1], s1) \<and>
      current_contacts s1 = [sample_info 2]) \<and>
    remove_expired_contacts 30 (sample_manager (sample_info 1 # replicate 9 (sample_info 2))) = Inl Out_Of_Bounds"
proof -
  have live: "\<forall>ci \<in> {sample_info 1, sample_info 2}. rt_contacts (cm_routing (sample_manager cs)) (info_contact ci) \<noteq> None" for cs
    unfolding sample_manager_contacts by (simp add: sample_info_def)
  have cur: "current_contacts (sample_manager cs) = cs" for cs by (simp add: sample_manager_def)
  show ?thesis
    using expired_contacts_removed [of "sample_manager [sample_info 1, sample_info 2]" 30]
      expired_contacts_removed [of "sample_manager (sample_info 1 # replicate 9 (sample_info 2))" 30]
      live sample_ended
    by (simp add: cur Let_def)
qed

theorem upcoming_contacts_started_witness:
  "\<exists>added s1. process_upcoming_list \<lparr>cm_now = 25, cm_clas = [(''mtcp'', Some 1000)], has_tx_queue = (\<lambda>_ _. True)\<rparr> [1, 2]
      (sample_manager []) = Inr (added, s1) \<and> map info_contact added = [1] \<and> current_contacts s1 = added \<and>
    next_contact_time s1 = 30"
proof -
  let ?env = "\<lparr>cm_now = 25, cm_clas = [(''mtcp'', Some 1000)], has_tx_queue = (\<lambda>_ _. True)\<rparr>"
  let ?r = "process_upcoming_list ?env [1, 2] (sample_manager [])"
  have "case ?r of Inl x \<Rightarrow> False | Inr (added, s1) \<Rightarrow> map info_contact added = [1]" by code_simp
  then obtain added s1 where r: "?r = Inr (added, s1)" "map info_contact added = [1]" by (auto split: sum.splits)
  let ?H = "rt_contacts (cm_routing (sample_manager []))"
  have cur: "current_contacts (sample_manager []) = []" by (simp add: sample_manager_def)
  have span: "heap_from ?H 1 = 20" "heap_to ?H 1 = 30" "heap_from ?H 2 = 40" "heap_to ?H 2 = 50"
    unfolding sample_manager_contacts
    by (simp_all add: heap_from_def heap_to_def sample_open_contact_def sample_contact_def)
  have "by_start ?H [1, 2]" using span by (simp add: by_start_def) (simp add: sample_manager_contacts)
  moreover have "in_progress_ok (sample_manager [])" by (simp add: in_progress_ok_def cur)
  ultimately show ?thesis
    using upcoming_contacts_started [OF r(1)] r cur span by (auto simp: next_event_def)
qed

end
