(* ===== verification/Spec2Isabelle.thy ===== *)
theory Spec2Isabelle
  imports Upcn_Prelude Sdnv Crc Bundle Key_Store Bundle_Storage Simple_Htab Simple_Queue LL_Sort Node Aap Bundle6 Bundle6_Parser Bundle6_Roundtrip Bundle7 Fragment Fragment_Correctness
    Reports Custody_Manager Agent_Manager Fault_Monad Bundle_Processor Processor_Safety Processor_Delivery Spp Spp_Roundtrip Eid_List
    Router Router_Booking Router_Plan Routing_Table Routing_Registration Routing_Reschedule Router_Task Router_Delivery Tx_Task
    Contact_Manager Contact_Timing
begin

text \<open>
  A model of the core of uPCN, a delay-tolerant networking node, and its correctness theorems.
\<close>

end
